(* ===== verification/Prelude.thy ===== *)
theory Prelude
  imports Main "HOL-Library.Word" "HOL-Library.Monad_Syntax"
begin

text \<open>
  Shared vocabulary of the development: the machine integers of an LP64 build
  (\<open>_LV64\<close> defined, \<open>USEDOUBLE\<close> and \<open>LVUNICODE\<close> not: \<^verbatim>\<open>include/config.h\<close>), the
  reading of C characters as bytes, the fact collections of the components and the
  generic lemmas on lists, relations and words that several components use.
\<close>

unbundle bit_operations_syntax

section \<open>Machine integers\<close>

text \<open>
  \<open>LVInteger\<close> is \<open>long long\<close>, \<open>LVUnsignedInteger\<close> and \<open>LVHash\<close> are
  \<open>unsigned long long\<close>, \<open>LVInt32\<close> is \<open>int\<close>. A word carries no sign of its own: the
  signed readings use \<open>sint\<close>, the unsigned ones \<open>unat\<close>.
\<close>

type_synonym u8 = "8 word"
type_synonym u16 = "16 word"
type_synonym u32 = "32 word"
type_synonym u64 = "64 word"

text \<open>Fact collections: unfolding rules of an invariant, and what each operation preserves.\<close>

named_theorems inv_defs
named_theorems inv_rules

section \<open>Characters as bytes\<close>

definition byte_of :: "char \<Rightarrow> u8" where
  "byte_of c = of_nat (of_char c)"

definition char_of_byte :: "u8 \<Rightarrow> char" where
  "char_of_byte b = char_of (unat b)"

lemma char_of_byte_of [simp]: "char_of_byte (byte_of c) = c"
proof -
  have "of_char c < (256::nat)" by simp
  then show ?thesis
    by (simp add: char_of_byte_def byte_of_def unat_of_nat)
qed

lemma byte_of_char_of_byte [simp]: "byte_of (char_of_byte b) = b"
proof -
  have "unat b < 256" using unsigned_less [of b] by simp
  then show ?thesis
    by (simp add: char_of_byte_def byte_of_def of_char_of)
qed

section \<open>Lists\<close>

lemma nth_list_update_if:
  "i < length xs \<Longrightarrow> (xs[j := x]) ! i = (if i = j then x else xs ! i)"
  by (simp add: nth_list_update)

lemma map_of_eq_Some_nth:
  assumes "distinct (map fst kvs)" "i < length kvs"
  shows "map_of kvs (fst (kvs ! i)) = Some (snd (kvs ! i))"
  using assms by (metis map_of_eq_Some_iff nth_mem prod.collapse)

text \<open>Replacing one bucket of a list of buckets.\<close>

lemma bucket_split:
  assumes "h < length bs"
  obtains A B where "concat bs = A @ bs ! h @ B" "\<And>c. concat (bs[h := c]) = A @ c @ B"
proof
  show "concat bs = concat (take h bs) @ bs ! h @ concat (drop (Suc h) bs)"
    by (subst id_take_nth_drop [OF assms]) simp
  show "concat (bs[h := c]) = concat (take h bs) @ c @ concat (drop (Suc h) bs)" for c
    by (simp add: upd_conv_take_nth_drop [OF assms])
qed

lemma map_eqI: "(\<And>x a. f x = Some a \<longleftrightarrow> g x = Some a) \<Longrightarrow> f = g"
  by (rule ext) (metis not_None_eq)

section \<open>Finite relations that are graphs of a next pointer\<close>

lemma acyclic_no_refl: "acyclic r \<Longrightarrow> (a, a) \<notin> r\<^sup>+"
  by (simp add: acyclic_def)

lemma rtrancl_no_pred:
  assumes "(a, b) \<in> r\<^sup>*" and "\<And>x. (x, b) \<notin> r"
  shows "a = b"
  using assms by (metis rtranclE)

lemma rtrancl_no_succ:
  assumes "(a, b) \<in> r\<^sup>*" and "\<And>x. (a, x) \<notin> r"
  shows "a = b"
  using assms by (metis converse_rtranclE)

end
