(* ===== verification/Objects.thy ===== *)
theory Objects
  imports Prelude
begin

text \<open>
  The tagged values of the virtual machine (\<^verbatim>\<open>include/lavril.h\<close>, \<^verbatim>\<open>src/object.h\<close>): the type
  tags with their numeric codes, the value type, the conversions \<open>tofloat\<close>/\<open>tointeger\<close> rest
  on, the string hash of \<^verbatim>\<open>src/lvstring.h\<close>, and \<open>HashObj\<close> of \<^verbatim>\<open>src/table.h\<close>.
\<close>

section \<open>Type tags\<close>

datatype ltype =
    OT_NULL | OT_INTEGER | OT_FLOAT | OT_BOOL | OT_STRING | OT_TABLE | OT_ARRAY | OT_USERDATA
  | OT_CLOSURE | OT_NATIVECLOSURE | OT_GENERATOR | OT_USERPOINTER | OT_THREAD | OT_FUNCPROTO
  | OT_CLASS | OT_INSTANCE | OT_WEAKREF | OT_OUTER

definition OBJECT_REF_COUNTED :: u32 where "OBJECT_REF_COUNTED = 0x08000000"
definition OBJECT_NUMERIC :: u32 where "OBJECT_NUMERIC = 0x04000000"
definition OBJECT_DELEGABLE :: u32 where "OBJECT_DELEGABLE = 0x02000000"
definition OBJECT_CANBEFALSE :: u32 where "OBJECT_CANBEFALSE = 0x01000000"

text \<open>\<open>_RT_*\<close>: one bit per type.\<close>

fun raw_type :: "ltype \<Rightarrow> u32" where
  "raw_type OT_NULL = 0x00000001"
| "raw_type OT_INTEGER = 0x00000002"
| "raw_type OT_FLOAT = 0x00000004"
| "raw_type OT_BOOL = 0x00000008"
| "raw_type OT_STRING = 0x00000010"
| "raw_type OT_TABLE = 0x00000020"
| "raw_type OT_ARRAY = 0x00000040"
| "raw_type OT_USERDATA = 0x00000080"
| "raw_type OT_CLOSURE = 0x00000100"
| "raw_type OT_NATIVECLOSURE = 0x00000200"
| "raw_type OT_GENERATOR = 0x00000400"
| "raw_type OT_USERPOINTER = 0x00000800"
| "raw_type OT_THREAD = 0x00001000"
| "raw_type OT_FUNCPROTO = 0x00002000"
| "raw_type OT_CLASS = 0x00004000"
| "raw_type OT_INSTANCE = 0x00008000"
| "raw_type OT_WEAKREF = 0x00010000"
| "raw_type OT_OUTER = 0x00020000"

text \<open>The full tag: the type bit with the attribute bits of the enumeration.\<close>

fun type_flags :: "ltype \<Rightarrow> u32" where
  "type_flags OT_NULL = OBJECT_CANBEFALSE"
| "type_flags OT_INTEGER = OBJECT_NUMERIC OR OBJECT_CANBEFALSE"
| "type_flags OT_FLOAT = OBJECT_NUMERIC OR OBJECT_CANBEFALSE"
| "type_flags OT_BOOL = OBJECT_CANBEFALSE"
| "type_flags OT_USERPOINTER = 0"
| "type_flags OT_TABLE = OBJECT_REF_COUNTED OR OBJECT_DELEGABLE"
| "type_flags OT_USERDATA = OBJECT_REF_COUNTED OR OBJECT_DELEGABLE"
| "type_flags OT_INSTANCE = OBJECT_REF_COUNTED OR OBJECT_DELEGABLE"
| "type_flags _ = OBJECT_REF_COUNTED"

definition type_tag :: "ltype \<Rightarrow> u32" where
  "type_tag t = raw_type t OR type_flags t"

definition all_types :: "ltype list" where
  "all_types = [OT_NULL, OT_INTEGER, OT_FLOAT, OT_BOOL, OT_STRING, OT_TABLE, OT_ARRAY, OT_USERDATA,
     OT_CLOSURE, OT_NATIVECLOSURE, OT_GENERATOR, OT_USERPOINTER, OT_THREAD, OT_FUNCPROTO,
     OT_CLASS, OT_INSTANCE, OT_WEAKREF, OT_OUTER]"

definition is_refcounted :: "ltype \<Rightarrow> bool" where
  "is_refcounted t \<longleftrightarrow> type_tag t AND OBJECT_REF_COUNTED \<noteq> 0"

definition is_delegable_type :: "ltype \<Rightarrow> bool" where
  "is_delegable_type t \<longleftrightarrow> type_tag t AND OBJECT_DELEGABLE \<noteq> 0"

definition is_numeric_type :: "ltype \<Rightarrow> bool" where
  "is_numeric_type t \<longleftrightarrow> type_tag t AND OBJECT_NUMERIC \<noteq> 0"

definition can_be_false :: "ltype \<Rightarrow> bool" where
  "can_be_false t \<longleftrightarrow> type_tag t AND OBJECT_CANBEFALSE \<noteq> 0"

text \<open>\<open>IdType2Name\<close>, for the tags of the enumeration.\<close>

fun IdType2Name :: "ltype \<Rightarrow> string" where
  "IdType2Name OT_NULL = ''null''"
| "IdType2Name OT_INTEGER = ''integer''"
| "IdType2Name OT_FLOAT = ''float''"
| "IdType2Name OT_BOOL = ''bool''"
| "IdType2Name OT_STRING = ''string''"
| "IdType2Name OT_TABLE = ''table''"
| "IdType2Name OT_ARRAY = ''array''"
| "IdType2Name OT_GENERATOR = ''generator''"
| "IdType2Name OT_CLOSURE = ''function''"
| "IdType2Name OT_NATIVECLOSURE = ''function''"
| "IdType2Name OT_USERDATA = ''userdata''"
| "IdType2Name OT_USERPOINTER = ''userdata''"
| "IdType2Name OT_THREAD = ''thread''"
| "IdType2Name OT_FUNCPROTO = ''function''"
| "IdType2Name OT_CLASS = ''class''"
| "IdType2Name OT_INSTANCE = ''instance''"
| "IdType2Name OT_WEAKREF = ''weakref''"
| "IdType2Name OT_OUTER = ''outer''"

section \<open>Values\<close>

text \<open>
  An \<open>LVObject\<close> is a tag with a union. Numbers and user pointers are kept as their bits
  (a float is its 32 bits, the rest of the union being zeroed by \<open>OBJECT_RAWINIT\<close>); a string is
  its contents, since the string table keeps one \<open>LVString\<close> per contents (theory
  \<open>Interning\<close>), so that comparing pointers is comparing contents; every other reference is the
  address of the object.
\<close>

datatype rkind =
    RTable | RArray | RUserData | RClosure | RNativeClosure | RGenerator | RThread
  | RFuncProto | RClass | RInstance | RWeakRef | ROuter

datatype lvobj =
    ONull | OInteger u64 | OFloat u32 | OBool u64 | OString string | OUserPointer u64
  | ORef rkind u64

fun kind_type :: "rkind \<Rightarrow> ltype" where
  "kind_type RTable = OT_TABLE"
| "kind_type RArray = OT_ARRAY"
| "kind_type RUserData = OT_USERDATA"
| "kind_type RClosure = OT_CLOSURE"
| "kind_type RNativeClosure = OT_NATIVECLOSURE"
| "kind_type RGenerator = OT_GENERATOR"
| "kind_type RThread = OT_THREAD"
| "kind_type RFuncProto = OT_FUNCPROTO"
| "kind_type RClass = OT_CLASS"
| "kind_type RInstance = OT_INSTANCE"
| "kind_type RWeakRef = OT_WEAKREF"
| "kind_type ROuter = OT_OUTER"

fun otype :: "lvobj \<Rightarrow> ltype" where
  "otype ONull = OT_NULL"
| "otype (OInteger _) = OT_INTEGER"
| "otype (OFloat _) = OT_FLOAT"
| "otype (OBool _) = OT_BOOL"
| "otype (OString _) = OT_STRING"
| "otype (OUserPointer _) = OT_USERPOINTER"
| "otype (ORef k _) = kind_type k"

lemma otype_null_iff [simp]: "otype k = OT_NULL \<longleftrightarrow> k = ONull"
proof (cases k)
  case (ORef x _) then show ?thesis by (cases x) auto
qed auto

text \<open>\<open>_realval\<close> reads through a weak reference; \<open>wr\<close> is the store of weak-reference cells.\<close>

type_synonym weak_store = "u64 \<Rightarrow> lvobj"

fun realval :: "weak_store \<Rightarrow> lvobj \<Rightarrow> lvobj" where
  "realval wr (ORef RWeakRef a) = wr a"
| "realval wr v = v"

text \<open>\<open>TranslateIndex\<close>: any other type is an assertion failure in the source.\<close>

fun TranslateIndex :: "lvobj \<Rightarrow> u64 option" where
  "TranslateIndex ONull = Some 0"
| "TranslateIndex (OInteger i) = Some i"
| "TranslateIndex _ = None"

section \<open>Conversion of a float to an integer\<close>

text \<open>
  The C conversion \<open>(LVInteger)f\<close> of a 32-bit float drops the fraction. For NaN, infinities and
  values outside the range the standard leaves it undefined; the value here is the one the
  x86-64 conversion instruction gives.
\<close>

definition f32_neg :: "u32 \<Rightarrow> bool" where
  "f32_neg w = bit w 31"

definition f32_exp :: "u32 \<Rightarrow> nat" where
  "f32_exp w = unat (drop_bit 23 w AND 0xFF)"

definition f32_frac :: "u32 \<Rightarrow> nat" where
  "f32_frac w = unat (w AND 0x7FFFFF)"

definition f32_trunc_mag :: "u32 \<Rightarrow> nat" where
  "f32_trunc_mag w =
     (let e = f32_exp w; m = (if e = 0 then f32_frac w else f32_frac w + 2 ^ 23);
          e' = (if e = 0 then 1 else e)
      in if e' \<ge> 150 then m * 2 ^ (e' - 150) else m div 2 ^ (150 - e'))"

definition f32_to_int :: "u32 \<Rightarrow> u64" where
  "f32_to_int w =
     (if f32_exp w = 255 \<or> f32_trunc_mag w \<ge> 2 ^ 63 then 0x8000000000000000
      else if f32_neg w then - of_nat (f32_trunc_mag w)
      else of_nat (f32_trunc_mag w))"

section \<open>Hashes\<close>

text \<open>
  \<open>_hashstr\<close>: the loop runs while the remaining length is at least the step, and consumes one
  character per turn; a character is sign-extended to 16 bits (\<open>(unsigned short)*(s++)\<close>).
\<close>

definition char_u16 :: "char \<Rightarrow> u64" where
  "char_u16 c = ucast (scast (byte_of c) :: u16)"

fun hashstr_loop :: "nat \<Rightarrow> nat \<Rightarrow> string \<Rightarrow> u64 \<Rightarrow> u64" where
  "hashstr_loop step l [] h = h"
| "hashstr_loop step l (c # s) h =
     (if step \<le> l
      then hashstr_loop step (l - step) s (h XOR (push_bit 5 h + drop_bit 2 h + char_u16 c))
      else h)"

definition hashstr_step :: "nat \<Rightarrow> nat" where
  "hashstr_step l = (l div 32) OR 1"

definition hashstr :: "string \<Rightarrow> u64" where
  "hashstr s = hashstr_loop (hashstr_step (length s)) (length s) s (of_nat (length s))"

definition hashptr :: "u64 \<Rightarrow> u64" where
  "hashptr p = signed_drop_bit 3 p"

text \<open>\<open>HashObj\<close> of \<^verbatim>\<open>src/table.h\<close>. The null object has a null pointer in its union.\<close>

fun HashObj :: "lvobj \<Rightarrow> u64" where
  "HashObj (OString s) = hashstr s"
| "HashObj (OFloat f) = f32_to_int f"
| "HashObj (OBool b) = b"
| "HashObj (OInteger i) = i"
| "HashObj ONull = hashptr 0"
| "HashObj (OUserPointer p) = hashptr p"
| "HashObj (ORef _ p) = hashptr p"

lemma HashObj_null [simp]: "HashObj ONull = 0"
  by (simp add: hashptr_def)

end
