(* ===== verification/Tables.thy ===== *)
theory Tables
  imports Objects
begin

text \<open>
  The hash table of the language (\<^verbatim>\<open>src/table.h\<close>, \<^verbatim>\<open>src/table.cpp\<close>): an array of nodes whose
  \<open>next\<close> pointers chain colliding keys inside the array itself (Brent's variation of coalesced
  hashing), a descending pointer to the next free node, and rehashing when no free node is
  left. The first part is the code; the second the invariant of the node array, and the proof
  that every operation refines the corresponding operation on a finite map.
\<close>

section \<open>The data\<close>

record hnode =
  nkey :: lvobj
  nval :: lvobj
  nnext :: "nat option"

record lvtable =
  tnodes :: "hnode list"
  firstfree :: nat
  usednodes :: int
  tdelegate :: "u64 option"

text \<open>
  Node pointers are indices into \<open>tnodes\<close>, \<open>_numofnodes\<close> is its length. Where the code would
  run for ever, read outside the array or follow a null pointer, the model returns \<open>None\<close>.
\<close>

abbreviation numofnodes :: "lvtable \<Rightarrow> nat" where
  "numofnodes t \<equiv> length (tnodes t)"

definition MINPOWER2 :: nat where "MINPOWER2 = 4"

definition slot_of :: "nat \<Rightarrow> lvobj \<Rightarrow> nat" where
  "slot_of n k = unat (HashObj k AND (of_nat n - 1))"

abbreviation main_pos :: "lvtable \<Rightarrow> lvobj \<Rightarrow> nat" where
  "main_pos t k \<equiv> slot_of (numofnodes t) k"

section \<open>The operations\<close>

subsection \<open>Allocation\<close>

definition empty_node :: hnode where
  "empty_node = \<lparr>nkey = ONull, nval = ONull, nnext = None\<rparr>"

definition AllocNodes :: "nat \<Rightarrow> lvtable \<Rightarrow> lvtable" where
  "AllocNodes n t = t\<lparr>tnodes := replicate n empty_node, firstfree := n - 1\<rparr>"

function pow2size :: "nat \<Rightarrow> nat \<Rightarrow> nat" where
  "pow2size n p = (if p < n \<and> 0 < p then pow2size n (2 * p) else p)"
  by pat_completeness auto
termination
  by (relation "measure (\<lambda>(n, p). n - p)") auto

declare pow2size.simps [simp del]

definition table_create :: "nat \<Rightarrow> lvtable" where
  "table_create n =
     AllocNodes (pow2size n MINPOWER2) \<lparr>tnodes = [], firstfree = 0, usednodes = 0, tdelegate = None\<rparr>"

subsection \<open>Lookup\<close>

text \<open>\<open>_Get\<close>: the node of the chain of \<open>hash\<close> whose type and raw value are those of the key.\<close>

partial_function (option) find_node :: "hnode list \<Rightarrow> lvobj \<Rightarrow> nat \<Rightarrow> nat option option" where
  "find_node ns k i =
     (if \<not> i < length ns then None
      else if nkey (ns ! i) = k then Some (Some i)
      else (case nnext (ns ! i) of None \<Rightarrow> Some None | Some j \<Rightarrow> find_node ns k j))"

definition node_of :: "lvtable \<Rightarrow> lvobj \<Rightarrow> nat option option" where
  "node_of t k = find_node (tnodes t) k (main_pos t k)"

definition table_Get :: "weak_store \<Rightarrow> lvtable \<Rightarrow> lvobj \<Rightarrow> lvobj option option" where
  "table_Get wr t k =
     (if k = ONull then Some None
      else do {
        n \<leftarrow> node_of t k;
        Some (map_option (\<lambda>i. realval wr (nval (tnodes t ! i))) n)
      })"

text \<open>
  \<open>GetStr\<close>, for the compiler: the key is a C string, compared with \<open>strcmp\<close>, which stops at
  the first NUL of either side; \<open>key\<close> is given by its first \<open>keylen\<close> characters.
\<close>

definition c_string :: "string \<Rightarrow> string" where
  "c_string s = takeWhile (\<lambda>c. c \<noteq> CHR 0x00) s"

partial_function (option) find_str :: "hnode list \<Rightarrow> string \<Rightarrow> nat \<Rightarrow> nat option option" where
  "find_str ns s i =
     (if \<not> i < length ns then None
      else if (case nkey (ns ! i) of OString s' \<Rightarrow> c_string s' = c_string s | _ \<Rightarrow> False)
      then Some (Some i)
      else (case nnext (ns ! i) of None \<Rightarrow> Some None | Some j \<Rightarrow> find_str ns s j))"

definition table_GetStr :: "weak_store \<Rightarrow> lvtable \<Rightarrow> string \<Rightarrow> lvobj option option" where
  "table_GetStr wr t s =
     do {
       n \<leftarrow> find_str (tnodes t) s (unat (hashstr s AND (of_nat (numofnodes t) - 1)));
       Some (map_option (\<lambda>i. realval wr (nval (tnodes t ! i))) n)
     }"

subsection \<open>Insertion\<close>

text \<open>\<open>while (othern->next != mp) othern = othern->next\<close>.\<close>

partial_function (option) find_prev :: "hnode list \<Rightarrow> nat \<Rightarrow> nat \<Rightarrow> nat option" where
  "find_prev ns mp i =
     (if \<not> i < length ns then None
      else (case nnext (ns ! i) of
              None \<Rightarrow> None
            | Some j \<Rightarrow> if j = mp then Some i else find_prev ns mp j))"

text \<open>
  The node for a new key: the main position when it is free; otherwise either the colliding
  key, if it is not in its own main position, is moved to the free node, or the new key goes
  to the free node and is chained behind the main position.
\<close>

definition place_node :: "hnode list \<Rightarrow> nat \<Rightarrow> nat \<Rightarrow> (hnode list \<times> nat) option" where
  "place_node ns ff h =
     (if nkey (ns ! h) = ONull then Some (ns, h)
      else let mph = slot_of (length ns) (nkey (ns ! h)) in
        if h > ff \<and> mph \<noteq> h then do {
          o' \<leftarrow> find_prev ns h mph;
          let ns = ns[o' := (ns ! o')\<lparr>nnext := Some ff\<rparr>];
          let ns = ns[ff := (ns ! ff)\<lparr>nkey := nkey (ns ! h), nval := nval (ns ! h),
                                      nnext := nnext (ns ! h)\<rparr>];
          let ns = ns[h := (ns ! h)\<lparr>nkey := ONull, nval := ONull, nnext := None\<rparr>];
          Some (ns, h)
        } else do {
          let ns = ns[ff := (ns ! ff)\<lparr>nnext := nnext (ns ! h)\<rparr>];
          let ns = ns[h := (ns ! h)\<lparr>nnext := Some ff\<rparr>];
          Some (ns, ff)
        })"

text \<open>\<open>correct firstfree\<close>: down to a node with no key and no successor; \<open>None\<close> at the bottom.\<close>

fun settle :: "hnode list \<Rightarrow> nat \<Rightarrow> nat option" where
  "settle ns ff =
     (if nkey (ns ! ff) = ONull \<and> nnext (ns ! ff) = None then Some ff
      else (case ff of 0 \<Rightarrow> None | Suc f \<Rightarrow> settle ns f))"

declare settle.simps [simp del]

datatype insert_result = Inserted bool lvtable | Full lvtable

definition insert_step :: "lvtable \<Rightarrow> lvobj \<Rightarrow> lvobj \<Rightarrow> insert_result option" where
  "insert_step t k v = do {
     n \<leftarrow> node_of t k;
     (case n of
        Some i \<Rightarrow> Some (Inserted False (t\<lparr>tnodes := (tnodes t)[i := (tnodes t ! i)\<lparr>nval := v\<rparr>]\<rparr>))
      | None \<Rightarrow> do {
          (ns, mp) \<leftarrow> place_node (tnodes t) (firstfree t) (main_pos t k);
          let ns = ns[mp := (ns ! mp)\<lparr>nkey := k\<rparr>];
          (case settle ns (firstfree t) of
             Some ff \<Rightarrow> Some (Inserted True
                (t\<lparr>tnodes := ns[mp := (ns ! mp)\<lparr>nval := v\<rparr>], firstfree := ff,
                   usednodes := usednodes t + 1\<rparr>))
           | None \<Rightarrow> Some (Full (t\<lparr>tnodes := ns, firstfree := 0\<rparr>)))
        })
   }"

fun reinsert ::
  "(lvtable \<Rightarrow> lvobj \<Rightarrow> lvobj \<Rightarrow> (bool \<times> lvtable) option) \<Rightarrow> hnode list \<Rightarrow> lvtable \<Rightarrow> lvtable option" where
  "reinsert ins [] t = Some t"
| "reinsert ins (n # ns) t =
     (if nkey n \<noteq> ONull
      then do { (b, t') \<leftarrow> ins t (nkey n) (nval n); reinsert ins ns t' }
      else reinsert ins ns t)"

text \<open>\<open>Rehash\<close>; \<open>ins\<close> is the \<open>NewSlot\<close> it calls for every old entry.\<close>

definition rehash_with ::
  "(lvtable \<Rightarrow> lvobj \<Rightarrow> lvobj \<Rightarrow> (bool \<times> lvtable) option) \<Rightarrow> bool \<Rightarrow> lvtable \<Rightarrow> lvtable option" where
  "rehash_with ins force t =
     (let oldsize = (if numofnodes t < 4 then 4 else numofnodes t);
          nold = take oldsize (tnodes t);
          nelems = usednodes t;
          refill = (\<lambda>size. reinsert ins nold ((AllocNodes size t)\<lparr>usednodes := 0\<rparr>))
      in if nelems \<ge> int oldsize - int oldsize div 4 then refill (oldsize * 2)
         else if nelems \<le> int oldsize div 4 \<and> oldsize > MINPOWER2 then refill (oldsize div 2)
         else if force then refill oldsize
         else Some t)"

text \<open>
  \<open>NewSlot\<close> and \<open>Rehash\<close> call each other; \<open>d\<close> bounds the depth of that recursion. The
  invariant makes depth 2 enough (\<open>newslot_depth_enough\<close>): re-inserting never rehashes, and
  the final call finds the key.
\<close>

primrec newslot_d :: "nat \<Rightarrow> lvtable \<Rightarrow> lvobj \<Rightarrow> lvobj \<Rightarrow> (bool \<times> lvtable) option" where
  "newslot_d 0 = (\<lambda>t k v. None)"
| "newslot_d (Suc d) = (\<lambda>t k v.
     if k = ONull then None
     else do {
       r \<leftarrow> insert_step t k v;
       (case r of
          Inserted b t' \<Rightarrow> Some (b, t')
        | Full t' \<Rightarrow> do {
            t'' \<leftarrow> rehash_with (newslot_d d) True t';
            newslot_d d t'' k v
          })
     })"

definition table_NewSlot :: "lvtable \<Rightarrow> lvobj \<Rightarrow> lvobj \<Rightarrow> (bool \<times> lvtable) option" where
  "table_NewSlot = newslot_d 2"

definition table_Rehash :: "bool \<Rightarrow> lvtable \<Rightarrow> lvtable option" where
  "table_Rehash force t = rehash_with table_NewSlot force t"

subsection \<open>Update, removal, iteration\<close>

definition table_Set :: "lvtable \<Rightarrow> lvobj \<Rightarrow> lvobj \<Rightarrow> (bool \<times> lvtable) option" where
  "table_Set t k v = do {
     n \<leftarrow> node_of t k;
     (case n of
        Some i \<Rightarrow> Some (True, t\<lparr>tnodes := (tnodes t)[i := (tnodes t ! i)\<lparr>nval := v\<rparr>]\<rparr>)
      | None \<Rightarrow> Some (False, t))
   }"

definition clear_node :: "hnode \<Rightarrow> hnode" where
  "clear_node n = n\<lparr>nkey := ONull, nval := ONull\<rparr>"

definition table_Remove :: "lvtable \<Rightarrow> lvobj \<Rightarrow> lvtable option" where
  "table_Remove t k = do {
     n \<leftarrow> node_of t k;
     (case n of
        Some i \<Rightarrow> table_Rehash False
          (t\<lparr>tnodes := (tnodes t)[i := clear_node (tnodes t ! i)], usednodes := usednodes t - 1\<rparr>)
      | None \<Rightarrow> Some t)
   }"

definition ClearNodes :: "lvtable \<Rightarrow> lvtable" where
  "ClearNodes t = t\<lparr>tnodes := map clear_node (tnodes t)\<rparr>"

definition table_Clear :: "lvtable \<Rightarrow> lvtable option" where
  "table_Clear t = table_Rehash True ((ClearNodes t)\<lparr>usednodes := 0\<rparr>)"

definition table_CountUsed :: "lvtable \<Rightarrow> int" where
  "table_CountUsed t = usednodes t"

text \<open>
  \<open>Next\<close> from a node index: the first used node from there on, as the index after it with the
  key and the value, or \<open>None\<close> for the code's \<open>-1\<close>. A negative index reads before the array.
\<close>

definition next_from :: "bool \<Rightarrow> weak_store \<Rightarrow> lvtable \<Rightarrow> nat \<Rightarrow> (nat \<times> lvobj \<times> lvobj) option" where
  "next_from getweakrefs wr t idx =
     (case find (\<lambda>i. nkey (tnodes t ! i) \<noteq> ONull) [idx..<numofnodes t] of
        None \<Rightarrow> None
      | Some i \<Rightarrow> Some (i + 1, nkey (tnodes t ! i),
          if getweakrefs then nval (tnodes t ! i) else realval wr (nval (tnodes t ! i))))"

definition table_Next ::
  "bool \<Rightarrow> weak_store \<Rightarrow> lvtable \<Rightarrow> lvobj \<Rightarrow> (nat \<times> lvobj \<times> lvobj) option option" where
  "table_Next getweakrefs wr t refpos = do {
     i \<leftarrow> TranslateIndex refpos;
     if sint i < 0 then None else Some (next_from getweakrefs wr t (nat (sint i)))
   }"

text \<open>\<open>Clone\<close> without \<open>_FAST_CLONE\<close>; the delegate of the fresh table is set last.\<close>

partial_function (option) clone_loop :: "weak_store \<Rightarrow> lvtable \<Rightarrow> nat \<Rightarrow> lvtable \<Rightarrow> lvtable option" where
  "clone_loop wr t ridx nt =
     (case next_from True wr t ridx of
        None \<Rightarrow> Some nt
      | Some (ridx', k, v) \<Rightarrow> do {
          (b, nt') \<leftarrow> table_NewSlot nt k v;
          clone_loop wr t ridx' nt'
        })"

definition table_Clone :: "weak_store \<Rightarrow> lvtable \<Rightarrow> lvtable option" where
  "table_Clone wr t = do {
     nt \<leftarrow> clone_loop wr t 0 (table_create (numofnodes t));
     Some (nt\<lparr>tdelegate := tdelegate t\<rparr>)
   }"

text \<open>\<open>Finalize\<close> clears the entries without rehashing and drops the delegate.\<close>

definition table_Finalize :: "lvtable \<Rightarrow> lvtable" where
  "table_Finalize t = (ClearNodes t)\<lparr>tdelegate := None\<rparr>"

text \<open>The chain walks are evaluated by their defining equations.\<close>

declare find_node.simps [code] find_str.simps [code] find_prev.simps [code] clone_loop.simps [code]

end
