(* ===== verification/Table_Chains.thy ===== *)
theory Table_Chains
  imports Tables
begin

text \<open>
  The shape of a table's node array. \<open>wf_nodes\<close> says what keeps every lookup correct: the
  \<open>next\<close> pointers form disjoint, finite chains, and each key is on the chain of its main
  position. The section shows that the chain walks of the code return, and that each of the
  three ways \<open>NewSlot\<close> makes room for a key keeps the shape.
\<close>

section \<open>Well-formed node arrays\<close>

definition nx :: "hnode list \<Rightarrow> (nat \<times> nat) set" where
  "nx ns = {(i, j). i < length ns \<and> nnext (ns ! i) = Some j}"

definition key_at :: "hnode list \<Rightarrow> nat \<Rightarrow> lvobj" where
  "key_at ns i = nkey (ns ! i)"

text \<open>
  The shape of the node array, for a main-position function \<open>m\<close>: successors are inside the
  array, no node has two predecessors, chains do not close, every key is reachable from its main
  position, keys are distinct, and a node occupied by a key that is not at home is nobody's main
  position.
\<close>

definition wf_nodes :: "(lvobj \<Rightarrow> nat) \<Rightarrow> hnode list \<Rightarrow> bool" where
  "wf_nodes m ns \<longleftrightarrow>
     (\<forall>(i, j) \<in> nx ns. j < length ns) \<and>
     (\<forall>i j k. (i, k) \<in> nx ns \<longrightarrow> (j, k) \<in> nx ns \<longrightarrow> i = j) \<and>
     acyclic (nx ns) \<and>
     (\<forall>i < length ns. key_at ns i \<noteq> ONull \<longrightarrow> (m (key_at ns i), i) \<in> (nx ns)\<^sup>*) \<and>
     (\<forall>i < length ns. \<forall>j < length ns. key_at ns i \<noteq> ONull \<longrightarrow> key_at ns i = key_at ns j \<longrightarrow> i = j) \<and>
     (\<forall>i < length ns. \<forall>j < length ns. key_at ns i \<noteq> ONull \<longrightarrow> m (key_at ns i) \<noteq> i \<longrightarrow>
        key_at ns j \<noteq> ONull \<longrightarrow> m (key_at ns j) \<noteq> i)"

lemma nx_fun: "(i, j) \<in> nx ns \<Longrightarrow> (i, k) \<in> nx ns \<Longrightarrow> j = k"
  by (auto simp: nx_def)

lemma finite_nx: "finite (nx ns)"
proof -
  have "nx ns \<subseteq> (\<lambda>i. (i, the (nnext (ns ! i)))) ` {..<length ns}"
    by (force simp: nx_def)
  then show ?thesis by (rule finite_subset) simp
qed

lemma wf_nx: "acyclic (nx ns) \<Longrightarrow> wf ((nx ns)\<inverse>)"
  by (rule finite_acyclic_wf_converse) (simp add: finite_nx)

text \<open>Walking a chain ends, and finds the key exactly if it is on the chain.\<close>

lemma find_node_returns:
  assumes "acyclic (nx ns)" and rng: "\<forall>(i, j) \<in> nx ns. j < length ns" and "i < length ns"
  shows "(\<exists>j. find_node ns k i = Some (Some j) \<and> (i, j) \<in> (nx ns)\<^sup>* \<and> j < length ns \<and> key_at ns j = k)
       \<or> (find_node ns k i = Some None \<and> (\<forall>j. (i, j) \<in> (nx ns)\<^sup>* \<longrightarrow> key_at ns j \<noteq> k))"
  using assms(3)
proof (induction i rule: wf_induct_rule [OF wf_nx [OF assms(1)]])
  case (1 i)
  show ?case
  proof (cases "nkey (ns ! i) = k")
    case True
    with "1.prems" show ?thesis by (auto simp: find_node.simps [of ns k i] key_at_def)
  next
    case False
    show ?thesis
    proof (cases "nnext (ns ! i)")
      case None
      then have "\<And>x. (i, x) \<notin> nx ns" by (simp add: nx_def)
      with None False "1.prems" show ?thesis
        by (auto simp: find_node.simps [of ns k i] key_at_def dest: rtrancl_no_succ)
    next
      case (Some x)
      with "1.prems" have ix: "(i, x) \<in> nx ns" by (simp add: nx_def)
      with rng have x: "x < length ns" by auto
      have eq: "find_node ns k i = find_node ns k x"
        using Some False "1.prems" by (simp add: find_node.simps [of ns k i])
      have path: "(i, j) \<in> (nx ns)\<^sup>* \<longleftrightarrow> j = i \<or> (x, j) \<in> (nx ns)\<^sup>*" for j
        using ix by (metis converse_rtranclE converse_rtrancl_into_rtrancl nx_fun rtrancl.rtrancl_refl)
      from "1.IH" [of x] ix x show ?thesis
        using False by (auto simp: eq path key_at_def)
    qed
  qed
qed

lemma find_prev_returns:
  assumes "acyclic (nx ns)" and rng: "\<forall>(i, j) \<in> nx ns. j < length ns" and "i < length ns"
    and "(i, mp) \<in> (nx ns)\<^sup>+"
  shows "\<exists>o'. find_prev ns mp i = Some o' \<and> (o', mp) \<in> nx ns"
  using assms(3,4)
proof (induction i rule: wf_induct_rule [OF wf_nx [OF assms(1)]])
  case (1 i)
  from "1.prems" obtain x where ix: "(i, x) \<in> nx ns" and xm: "(x, mp) \<in> (nx ns)\<^sup>*"
    by (metis tranclD)
  with rng have x: "x < length ns" by auto
  have nxi: "nnext (ns ! i) = Some x" using ix by (simp add: nx_def)
  show ?case
  proof (cases "x = mp")
    case True
    with nxi ix "1.prems" show ?thesis by (simp add: find_prev.simps [of ns mp i])
  next
    case False
    with xm have "(x, mp) \<in> (nx ns)\<^sup>+" by (metis rtranclD)
    with "1.IH" [of x] ix x nxi False "1.prems" show ?thesis
      by (auto simp: find_prev.simps [of ns mp i])
  qed
qed

text \<open>The main position is inside the array, whatever power of two its size is.\<close>

lemma slot_of_less:
  assumes "n = 2 ^ p"
  shows "slot_of n k < n"
proof (cases "p < 64")
  case True
  then have n: "0 < n" "n < 2 ^ 64"
    unfolding assms by (simp, intro power_strict_increasing) auto
  have "unat (HashObj k AND (of_nat n - 1)) \<le> unat (of_nat n - 1 :: u64)"
    by (meson word_and_le1 word_le_nat_alt)
  also have "unat (of_nat n - 1 :: u64) = n - 1"
  proof -
    have "(of_nat n - 1 :: u64) = of_nat (n - 1)" using n by (simp add: of_nat_diff)
    then show ?thesis using n by (simp only: unat_of_nat) (simp add: take_bit_nat_eq_self)
  qed
  finally show ?thesis using n by (simp add: slot_of_def)
next
  case False
  have "unat (HashObj k AND (of_nat n - 1)) < 2 ^ 64"
    using unsigned_less [of "HashObj k AND (of_nat n - 1)"] by simp
  also have "(2::nat) ^ 64 \<le> n" using False unfolding assms by (intro power_increasing) auto
  finally show ?thesis by (simp add: slot_of_def)
qed

subsection \<open>The three shapes of an insertion\<close>

text \<open>
  What holds when a key that is not in the table is about to be stored: the array is well
  formed, \<open>ff\<close> is free and below every successor, and \<open>h\<close> is the key's main position.
\<close>

definition insertion_ready ::
  "(lvobj \<Rightarrow> nat) \<Rightarrow> hnode list \<Rightarrow> nat \<Rightarrow> lvobj \<Rightarrow> nat \<Rightarrow> bool" where
  "insertion_ready m ns ff k h \<longleftrightarrow>
     wf_nodes m ns \<and> (\<forall>(i, j) \<in> nx ns. ff < j) \<and>
     ff < length ns \<and> key_at ns ff = ONull \<and> nnext (ns ! ff) = None \<and>
     k \<noteq> ONull \<and> (\<forall>i < length ns. key_at ns i \<noteq> k) \<and> m k = h \<and> h < length ns"

lemma wf_nodesD:
  assumes "wf_nodes m ns"
  shows wf_rng: "\<And>i j. (i, j) \<in> nx ns \<Longrightarrow> j < length ns"
    and wf_inj: "\<And>i j x. (i, x) \<in> nx ns \<Longrightarrow> (j, x) \<in> nx ns \<Longrightarrow> i = j"
    and wf_acyc: "acyclic (nx ns)"
    and wf_reach: "\<And>i. i < length ns \<Longrightarrow> key_at ns i \<noteq> ONull \<Longrightarrow> (m (key_at ns i), i) \<in> (nx ns)\<^sup>*"
    and wf_keys_inj: "\<And>i j. i < length ns \<Longrightarrow> j < length ns \<Longrightarrow> key_at ns i \<noteq> ONull \<Longrightarrow>
          key_at ns i = key_at ns j \<Longrightarrow> i = j"
    and wf_foreign: "\<And>i j. i < length ns \<Longrightarrow> j < length ns \<Longrightarrow> key_at ns i \<noteq> ONull \<Longrightarrow>
          m (key_at ns i) \<noteq> i \<Longrightarrow> key_at ns j \<noteq> ONull \<Longrightarrow> m (key_at ns j) \<noteq> i"
  using assms by (auto simp: wf_nodes_def)

lemma insertion_readyD:
  assumes "insertion_ready m ns ff k h"
  shows ins_wf: "wf_nodes m ns"
    and ins_ff: "ff < length ns" "key_at ns ff = ONull" "nnext (ns ! ff) = None"
    and ins_k: "k \<noteq> ONull" "\<forall>i < length ns. key_at ns i \<noteq> k"
    and ins_h: "m k = h" "h < length ns"
    and ins_no_pred: "\<And>x. (x, ff) \<notin> nx ns"
    and ins_no_succ: "\<And>x. (ff, x) \<notin> nx ns"
    and ins_above: "\<And>i j. (i, j) \<in> nx ns \<Longrightarrow> ff < j"
  using assms by (auto simp: insertion_ready_def nx_def)

lemma nobody_home_ff:
  assumes "insertion_ready m ns ff k h" "i < length ns" "key_at ns i \<noteq> ONull"
  shows "m (key_at ns i) \<noteq> ff"
  using wf_reach [OF ins_wf [OF assms(1)] assms(2,3)] ins_ff(2) [OF assms(1)] assms(3)
    ins_no_succ [OF assms(1)] rtrancl_no_succ [of ff i "nx ns"] by metis

lemma foreign_above:
  assumes "insertion_ready m ns ff k h" "i < length ns" "key_at ns i \<noteq> ONull" "m (key_at ns i) \<noteq> i"
  shows "ff < i"
  using wf_reach [OF ins_wf [OF assms(1)] assms(2,3)] ins_above [OF assms(1)] assms(4)
  by (metis rtranclE)

lemma put_free:
  assumes "insertion_ready m ns ff k h" and free: "key_at ns h = ONull"
  shows "wf_nodes m (ns[h := (ns ! h)\<lparr>nkey := k\<rparr>])"
proof -
  note I = assms(1)
  note wf = ins_wf [OF I]
  note rng = wf_rng [OF wf] and inj = wf_inj [OF wf] and acyc = wf_acyc [OF wf]
    and reach = wf_reach [OF wf] and keys_inj = wf_keys_inj [OF wf] and foreign = wf_foreign [OF wf]
  note ff = ins_ff [OF I] and k = ins_k [OF I] and no_pred_ff = ins_no_pred [OF I]
    and no_succ_ff = ins_no_succ [OF I] and nobody_home_ff = nobody_home_ff [OF I]
  have h: "h = m k" "h < length ns" using ins_h [OF I] by simp_all
  let ?ns = "ns[h := (ns ! h)\<lparr>nkey := k\<rparr>]"
  have nx: "nx ?ns = nx ns"
    using h(2) by (auto simp: nx_def nth_list_update split: if_splits)
  have key: "key_at ?ns i = (if i = h then k else key_at ns i)" for i
    using h(2) by (simp add: key_at_def nth_list_update)
  show ?thesis
    unfolding wf_nodes_def nx length_list_update
  proof (intro conjI)
    show "\<forall>i<length ns. key_at ?ns i \<noteq> ONull \<longrightarrow> (m (key_at ?ns i), i) \<in> (nx ns)\<^sup>*"
      using h(1) [symmetric] by (simp add: key reach)
    show "\<forall>i<length ns. \<forall>j<length ns. key_at ?ns i \<noteq> ONull \<longrightarrow> key_at ?ns i = key_at ?ns j \<longrightarrow> i = j"
      using k(2) by (auto simp: key keys_inj)
    show "\<forall>i<length ns. \<forall>j<length ns. key_at ?ns i \<noteq> ONull \<longrightarrow> m (key_at ?ns i) \<noteq> i \<longrightarrow>
            key_at ?ns j \<noteq> ONull \<longrightarrow> m (key_at ?ns j) \<noteq> i"
      using h(1) [symmetric] free by (auto simp: key foreign)
  qed (use rng inj acyc in blast)+
qed

lemma put_chain:
  assumes "insertion_ready m ns ff k h" and occ: "key_at ns h \<noteq> ONull" and home: "m (key_at ns h) = h"
  shows "wf_nodes m (ns[ff := (ns ! ff)\<lparr>nkey := k, nnext := nnext (ns ! h)\<rparr>,
                       h := (ns ! h)\<lparr>nnext := Some ff\<rparr>])"
proof -
  note I = assms(1)
  note wf = ins_wf [OF I]
  note rng = wf_rng [OF wf] and inj = wf_inj [OF wf] and acyc = wf_acyc [OF wf]
    and reach = wf_reach [OF wf] and keys_inj = wf_keys_inj [OF wf] and foreign = wf_foreign [OF wf]
  note ff = ins_ff [OF I] and k = ins_k [OF I] and no_pred_ff = ins_no_pred [OF I]
    and no_succ_ff = ins_no_succ [OF I] and nobody_home_ff = nobody_home_ff [OF I]
  have h: "h = m k" "h < length ns" using ins_h [OF I] by simp_all
  let ?ns = "ns[ff := (ns ! ff)\<lparr>nkey := k, nnext := nnext (ns ! h)\<rparr>,
                h := (ns ! h)\<lparr>nnext := Some ff\<rparr>]"
  let ?X = "{(h, x) | x. (h, x) \<in> nx ns}" and ?Y = "{(ff, x) | x. (h, x) \<in> nx ns}"
  have hf: "h \<noteq> ff" using occ ff by auto
  have nx: "nx ?ns = insert (h, ff) (?Y \<union> (nx ns - ?X))"
    using h(2) ff hf by (auto simp: nx_def nth_list_update split: if_splits)
  have key: "key_at ?ns i = (if i = ff then k else key_at ns i)" for i
    using h(2) ff(1) hf by (simp add: key_at_def nth_list_update)
  have keep: "(a, b) \<in> (nx ns)\<^sup>* \<Longrightarrow> (a, b) \<in> (nx ?ns)\<^sup>*" for a b
  proof (induction rule: rtrancl_induct)
    case (step y z)
    have "(y, z) \<in> (nx ?ns)\<^sup>*"
    proof (cases "y = h")
      case True
      with step.hyps(2) have "(h, ff) \<in> nx ?ns" "(ff, z) \<in> nx ?ns" by (auto simp: nx)
      with True show ?thesis by (meson converse_rtrancl_into_rtrancl r_into_rtrancl)
    next
      case False
      with step.hyps(2) have "(y, z) \<in> nx ?ns" by (auto simp: nx)
      then show ?thesis by blast
    qed
    with step.IH show ?case by (rule rtrancl_trans)
  qed simp
  have ac: "acyclic (nx ?ns)"
  proof -
    let ?R = "nx ns - ?X"
    have aR: "acyclic ?R" using acyc by (rule acyclic_subset) blast
    show ?thesis
    proof (cases "nnext (ns ! h)")
      case None
      then have Y: "?Y = {}" by (simp add: nx_def)
      have "(ff, h) \<notin> ?R\<^sup>*" using hf no_succ_ff rtrancl_no_succ [of ff h ?R] by blast
      then show ?thesis unfolding nx Y by (simp add: acyclic_insert aR)
    next
      case (Some x)
      then have Y: "?Y = {(ff, x)}" and hx: "(h, x) \<in> nx ns" using h(2) by (auto simp: nx_def)
      from hx have xf: "x \<noteq> ff" using no_pred_ff by auto
      have "(x, ff) \<notin> ?R\<^sup>*" using xf no_pred_ff rtrancl_no_pred [of x ff ?R] by blast
      then have a1: "acyclic (insert (ff, x) ?R)" by (simp add: acyclic_insert aR)
      have "(ff, h) \<notin> (insert (ff, x) ?R)\<^sup>*"
      proof
        assume "(ff, h) \<in> (insert (ff, x) ?R)\<^sup>*"
        then have "(x, h) \<in> ?R\<^sup>*"
          using hf no_succ_ff rtrancl_no_succ [of ff h ?R] by (auto simp: rtrancl_insert)
        then have "(x, h) \<in> (nx ns)\<^sup>*" by (rule rtrancl_mono [THEN subsetD, rotated]) blast
        with hx have "(h, h) \<in> (nx ns)\<^sup>+" by (meson rtrancl_into_trancl2)
        with acyc show False by (simp add: acyclic_def)
      qed
      then show ?thesis unfolding nx Y using acyclic_insert [of h ff "insert (ff, x) ?R"] a1 by simp
    qed
  qed
  show ?thesis
    unfolding wf_nodes_def length_list_update
  proof (intro conjI)
    show "\<forall>(i, j)\<in>nx ?ns. j < length ns" using rng ff(1) by (auto simp: nx)
    show "\<forall>i j k. (i, k) \<in> nx ?ns \<longrightarrow> (j, k) \<in> nx ?ns \<longrightarrow> i = j"
      using inj no_pred_ff by (auto simp: nx)
    show "acyclic (nx ?ns)" by (rule ac)
    show "\<forall>i<length ns. key_at ?ns i \<noteq> ONull \<longrightarrow> (m (key_at ?ns i), i) \<in> (nx ?ns)\<^sup>*"
    proof (intro allI impI)
      fix i assume "i < length ns" "key_at ?ns i \<noteq> ONull"
      then show "(m (key_at ?ns i), i) \<in> (nx ?ns)\<^sup>*"
      proof (cases "i = ff")
        case True
        have "(h, ff) \<in> nx ?ns" by (simp add: nx)
        with True show ?thesis using h(1) [symmetric] by (simp add: key)
      qed (simp add: key keep reach)
    qed
    show "\<forall>i<length ns. \<forall>j<length ns. key_at ?ns i \<noteq> ONull \<longrightarrow> key_at ?ns i = key_at ?ns j \<longrightarrow> i = j"
      using k(2) by (auto simp: key keys_inj)
    show "\<forall>i<length ns. \<forall>j<length ns. key_at ?ns i \<noteq> ONull \<longrightarrow> m (key_at ?ns i) \<noteq> i \<longrightarrow>
            key_at ?ns j \<noteq> ONull \<longrightarrow> m (key_at ?ns j) \<noteq> i"
    proof (intro allI impI)
      fix i j assume ij: "i < length ns" "j < length ns" "key_at ?ns i \<noteq> ONull"
        "m (key_at ?ns i) \<noteq> i" "key_at ?ns j \<noteq> ONull"
      have mk: "m k = h" using h(1) by simp
      show "m (key_at ?ns j) \<noteq> i"
      proof (cases "i = ff")
        case True
        then show ?thesis using ij mk hf nobody_home_ff [of j] by (simp add: key split: if_splits)
      next
        case False
        then have "i \<noteq> h" using ij(4) home by (auto simp: key)
        with False show ?thesis using ij mk foreign [of i j] by (simp add: key split: if_splits)
      qed
    qed
  qed
qed

lemma put_move:
  assumes "insertion_ready m ns ff k h" and occ: "key_at ns h \<noteq> ONull" and away: "m (key_at ns h) \<noteq> h" and o: "(o', h) \<in> nx ns"
  shows "wf_nodes m (ns[o' := (ns ! o')\<lparr>nnext := Some ff\<rparr>,
                       ff := (ns ! ff)\<lparr>nkey := nkey (ns ! h), nval := nval (ns ! h), nnext := nnext (ns ! h)\<rparr>,
                       h := (ns ! h)\<lparr>nkey := k, nval := ONull, nnext := None\<rparr>])"
proof -
  note I = assms(1)
  note wf = ins_wf [OF I]
  note rng = wf_rng [OF wf] and inj = wf_inj [OF wf] and acyc = wf_acyc [OF wf]
    and reach = wf_reach [OF wf] and keys_inj = wf_keys_inj [OF wf] and foreign = wf_foreign [OF wf]
  note ff = ins_ff [OF I] and k = ins_k [OF I] and no_pred_ff = ins_no_pred [OF I]
    and no_succ_ff = ins_no_succ [OF I] and nobody_home_ff = nobody_home_ff [OF I]
  have h: "h = m k" "h < length ns" using ins_h [OF I] by simp_all
  let ?ns = "ns[o' := (ns ! o')\<lparr>nnext := Some ff\<rparr>,
               ff := (ns ! ff)\<lparr>nkey := nkey (ns ! h), nval := nval (ns ! h), nnext := nnext (ns ! h)\<rparr>,
               h := (ns ! h)\<lparr>nkey := k, nval := ONull, nnext := None\<rparr>]"
  let ?s = "\<lambda>i. if i = h then ff else if i = ff then h else i"
  have hf: "h \<noteq> ff" using occ ff by auto
  have oh: "o' \<noteq> h" using o acyc by (auto simp: acyclic_def)
  have of_: "o' \<noteq> ff" using o no_succ_ff by auto
  have ol: "o' < length ns" "nnext (ns ! o') = Some h" using o by (auto simp: nx_def)
  have ss: "?s (?s i) = i" for i using hf by auto
  have nnxt: "nnext (?ns ! i) = (if i = h then None else if i = ff then nnext (ns ! h)
                else if i = o' then Some ff else nnext (ns ! i))" for i
    using h(2) ff(1) hf oh of_ ol(1)
    by (cases "i = h"; cases "i = ff"; cases "i = o'") simp_all
  have inv1: "(a, h) \<in> nx ns \<Longrightarrow> a = o'" for a using inj o by blast
  have nxI: "(?s i, ?s j) \<in> nx ?ns" if e: "(i, j) \<in> nx ns" for i j
  proof -
    have "i \<noteq> ff" "j \<noteq> ff" "i \<noteq> j" using e no_succ_ff no_pred_ff acyc by (auto simp: acyclic_def)
    moreover have "i < length ns" "nnext (ns ! i) = Some j" using e by (auto simp: nx_def)
    moreover have "j = h \<longleftrightarrow> i = o'" using e o inj nx_fun by blast
    ultimately show ?thesis using hf ff(1) oh by (auto simp: nx_def nnxt)
  qed
  have nxD: "(?s i, ?s j) \<in> nx ns" if e: "(i, j) \<in> nx ?ns" for i j
  proof -
    have i: "i < length ns" "nnext (?ns ! i) = Some j" using e by (auto simp: nx_def)
    consider "i = ff" "nnext (ns ! h) = Some j" | "i = o'" "j = ff" "i \<noteq> h" "i \<noteq> ff"
      | "i \<noteq> h" "i \<noteq> ff" "i \<noteq> o'" "nnext (ns ! i) = Some j"
      using i(2) hf oh of_ by (auto simp only: nnxt split: if_splits)
    then show ?thesis
    proof cases
      case 1
      then have "(h, j) \<in> nx ns" using h(2) by (simp add: nx_def)
      moreover from this have "j \<noteq> ff" "j \<noteq> h" using no_pred_ff acyc by (auto simp: acyclic_def)
      ultimately show ?thesis using 1 hf by simp
    next
      case 2
      then show ?thesis using o by simp
    next
      case 3
      then have "(i, j) \<in> nx ns" using i by (simp add: nx_def)
      moreover from this have "j \<noteq> ff" "j \<noteq> h" using no_pred_ff inv1 3 by auto
      ultimately show ?thesis using 3 by simp
    qed
  qed
  have key: "key_at ?ns i = (if i = h then k else if i = ff then key_at ns h else key_at ns i)" for i
    using h(2) ff(1) hf oh of_ ol(1) by (simp add: key_at_def nth_list_update)
  have keep: "(a, b) \<in> (nx ns)\<^sup>* \<Longrightarrow> (?s a, ?s b) \<in> (nx ?ns)\<^sup>*" for a b
  proof (induction rule: rtrancl_induct)
    case base show ?case by (rule rtrancl_refl)
  next
    case (step y z) show ?case by (rule rtrancl_into_rtrancl [OF step.IH nxI [OF step.hyps(2)]])
  qed
  have conv: "(a, b) \<in> (nx ?ns)\<^sup>+ \<Longrightarrow> (?s a, ?s b) \<in> (nx ns)\<^sup>+" for a b
  proof (induction rule: trancl_induct)
    case (base y) show ?case by (rule r_into_trancl [OF nxD [OF base]])
  next
    case (step y z) show ?case by (rule trancl_into_trancl [OF step.IH nxD [OF step.hyps(2)]])
  qed
  show ?thesis
    unfolding wf_nodes_def length_list_update
  proof (intro conjI)
    show "\<forall>(i, j)\<in>nx ?ns. j < length ns"
    proof (intro ballI, clarify)
      fix i j assume "(i, j) \<in> nx ?ns"
      from rng [OF nxD [OF this]] show "j < length ns"
        using ff(1) h(2) by (simp split: if_splits)
    qed
    show "\<forall>i j k. (i, k) \<in> nx ?ns \<longrightarrow> (j, k) \<in> nx ?ns \<longrightarrow> i = j"
    proof (intro allI impI)
      fix i j x assume "(i, x) \<in> nx ?ns" "(j, x) \<in> nx ?ns"
      then have "?s i = ?s j" using inj [OF nxD nxD] by blast
      then show "i = j" using hf by (simp split: if_splits)
    qed
    show "acyclic (nx ?ns)" using conv acyc unfolding acyclic_def by blast
    show "\<forall>i<length ns. key_at ?ns i \<noteq> ONull \<longrightarrow> (m (key_at ?ns i), i) \<in> (nx ?ns)\<^sup>*"
    proof (intro allI impI)
      fix i assume i: "i < length ns" "key_at ?ns i \<noteq> ONull"
      show "(m (key_at ?ns i), i) \<in> (nx ?ns)\<^sup>*"
      proof (cases "i = h \<or> i = ff")
        case True
        then show ?thesis
          using h(1) [symmetric] hf away nobody_home_ff [OF h(2) occ] keep [OF reach [OF h(2) occ]]
          by (auto simp: key)
      next
        case False
        with i have ki: "key_at ns i \<noteq> ONull" by (simp add: key)
        with i foreign [OF h(2) i(1) occ away ki] nobody_home_ff [OF i(1) ki] False
          keep [OF reach [OF i(1) ki]]
        show ?thesis by (simp add: key)
      qed
    qed
    show "\<forall>i<length ns. \<forall>j<length ns. key_at ?ns i \<noteq> ONull \<longrightarrow> key_at ?ns i = key_at ?ns j \<longrightarrow> i = j"
    proof (intro allI impI)
      fix i j assume ij: "i < length ns" "j < length ns" "key_at ?ns i \<noteq> ONull" "key_at ?ns i = key_at ?ns j"
      have kk: "key_at ?ns x = key_at ns (?s x)" if "x \<noteq> h" for x
        unfolding key using that by (simp split: if_split)
      have lt: "?s x < length ns" if "x < length ns" for x
        using that h(2) ff(1) by (simp split: if_split)
      have kh: "key_at ?ns h = k" by (simp add: key)
      have nk: "key_at ?ns x \<noteq> k" if "x < length ns" "x \<noteq> h" for x
        unfolding kk [OF that(2)] using k(2) lt [OF that(1)] by blast
      show "i = j"
      proof (cases "i = h")
        case True
        with ij(4) kh have "key_at ?ns j = k" by simp
        with nk [OF ij(2)] True show ?thesis by blast
      next
        case ih: False
        have jh: "j \<noteq> h" using ij(4) kh nk [OF ij(1) ih] by auto
        have "?s i = ?s j"
          by (rule keys_inj [OF lt [OF ij(1)] lt [OF ij(2)]]) (use ij(3,4) kk [OF ih] kk [OF jh] in simp_all)
        then show ?thesis using hf by (simp split: if_splits)
      qed
    qed
    show "\<forall>i<length ns. \<forall>j<length ns. key_at ?ns i \<noteq> ONull \<longrightarrow> m (key_at ?ns i) \<noteq> i \<longrightarrow>
            key_at ?ns j \<noteq> ONull \<longrightarrow> m (key_at ?ns j) \<noteq> i"
    proof (intro allI impI)
      fix i j assume ij: "i < length ns" "j < length ns" "key_at ?ns i \<noteq> ONull"
        "m (key_at ?ns i) \<noteq> i" "key_at ?ns j \<noteq> ONull"
      have mk: "m k = h" using h(1) by simp
      have ih: "i \<noteq> h" using ij(4) mk by (auto simp: key)
      show "m (key_at ?ns j) \<noteq> i"
      proof (cases "i = ff")
        case True
        then show ?thesis
          using ij mk hf nobody_home_ff [of j] nobody_home_ff [OF h(2) occ] by (simp add: key split: if_splits)
      next
        case False
        then show ?thesis
          using ih ij mk foreign [of i j] foreign [of i h] h(2) occ by (simp add: key split: if_splits)
      qed
    qed
  qed
qed

end
