(* ===== verification/Table_Contents.thy ===== *)
theory Table_Contents
  imports Table_Chains
begin

text \<open>
  A node array as a finite map from keys to values, and the effect of \<open>place_node\<close> on it: the
  three cases of the code, proved in \<open>Table_Chains\<close> to keep the shape, are summed up in the one
  predicate \<open>placed\<close>.
\<close>

section \<open>The contents of a node array\<close>

definition node_pairs :: "hnode list \<Rightarrow> (lvobj \<times> lvobj) set" where
  "node_pairs ns = {(nkey n, nval n) | n. n \<in> set ns \<and> nkey n \<noteq> ONull}"

definition node_map :: "hnode list \<Rightarrow> lvobj \<rightharpoonup> lvobj" where
  "node_map ns = map_of (map (\<lambda>n. (nkey n, nval n)) (filter (\<lambda>n. nkey n \<noteq> ONull) ns))"

definition distinct_keys :: "hnode list \<Rightarrow> bool" where
  "distinct_keys ns \<longleftrightarrow>
     (\<forall>i < length ns. \<forall>j < length ns. key_at ns i \<noteq> ONull \<longrightarrow> key_at ns i = key_at ns j \<longrightarrow> i = j)"

lemma wf_distinct_keys: "wf_nodes m ns \<Longrightarrow> distinct_keys ns"
  unfolding wf_nodes_def distinct_keys_def by blast

lemma node_pairs_iff:
  "(k, v) \<in> node_pairs ns \<longleftrightarrow> k \<noteq> ONull \<and> (\<exists>i < length ns. key_at ns i = k \<and> nval (ns ! i) = v)"
  by (auto simp: node_pairs_def key_at_def in_set_conv_nth)

lemma dom_node_map: "dom (node_map ns) = {nkey n | n. n \<in> set ns \<and> nkey n \<noteq> ONull}"
  unfolding node_map_def dom_map_of_conv_image_fst by (auto simp: image_iff)

lemma node_map_iff:
  assumes "distinct_keys ns"
  shows "node_map ns k = Some v \<longleftrightarrow> (k, v) \<in> node_pairs ns"
proof
  assume "node_map ns k = Some v"
  then show "(k, v) \<in> node_pairs ns"
    by (auto simp: node_map_def node_pairs_def dest!: map_of_SomeD)
next
  assume p: "(k, v) \<in> node_pairs ns"
  then have "k \<in> dom (node_map ns)"
    by (auto simp: dom_node_map node_pairs_def)
  then obtain w where w: "node_map ns k = Some w" by blast
  then have "(k, w) \<in> node_pairs ns"
    by (auto simp: node_map_def node_pairs_def dest!: map_of_SomeD)
  with p assms have "w = v"
    unfolding node_pairs_iff distinct_keys_def by metis
  with w show "node_map ns k = Some v" by simp
qed

lemma node_map_eqI:
  assumes "distinct_keys ns" "\<And>k v. f k = Some v \<longleftrightarrow> (k, v) \<in> node_pairs ns"
  shows "node_map ns = f"
  by (rule ext) (metis assms node_map_iff not_None_eq)

lemma finite_dom_node_map [simp]: "finite (dom (node_map ns))"
  by (simp add: node_map_def finite_dom_map_of)

lemma node_map_null [simp]: "node_map ns ONull = None"
proof -
  have "ONull \<notin> dom (node_map ns)" by (auto simp: dom_node_map)
  then show ?thesis by (simp add: domIff)
qed

text \<open>Each key sits in one node, so the number of keys is the number of used nodes.\<close>

lemma card_dom_node_map:
  assumes "distinct_keys ns"
  shows "card (dom (node_map ns)) = card {i. i < length ns \<and> key_at ns i \<noteq> ONull}"
proof -
  have "dom (node_map ns) = key_at ns ` {i. i < length ns \<and> key_at ns i \<noteq> ONull}"
    by (auto simp: dom_node_map key_at_def in_set_conv_nth)
  moreover have "inj_on (key_at ns) {i. i < length ns \<and> key_at ns i \<noteq> ONull}"
    using assms by (auto simp: inj_on_def distinct_keys_def)
  ultimately show ?thesis by (simp add: card_image)
qed

lemma card_dom_le_length:
  assumes "distinct_keys ns"
  shows "card (dom (node_map ns)) \<le> length ns"
proof -
  have "card {i. i < length ns \<and> key_at ns i \<noteq> ONull} \<le> card {..<length ns}"
    by (rule card_mono) auto
  with card_dom_node_map [OF assms] show ?thesis by simp
qed

text \<open>Changing a value changes neither shape nor keys.\<close>

lemma nx_value [simp]: "nx (ns[i := (ns ! i)\<lparr>nval := v\<rparr>]) = nx ns"
  by (cases "i < length ns")
     (auto simp: nx_def nth_list_update not_less list_update_beyond split: if_splits)

lemma key_at_value [simp]: "key_at (ns[i := (ns ! i)\<lparr>nval := v\<rparr>]) j = key_at ns j"
  by (cases "i < length ns") (auto simp: key_at_def nth_list_update not_less list_update_beyond)

lemma wf_nodes_value [simp]: "wf_nodes m (ns[i := (ns ! i)\<lparr>nval := v\<rparr>]) = wf_nodes m ns"
  by (simp add: wf_nodes_def)

lemma distinct_keys_value [simp]: "distinct_keys (ns[i := (ns ! i)\<lparr>nval := v\<rparr>]) = distinct_keys ns"
  by (simp add: distinct_keys_def)

lemma node_map_value:
  assumes "distinct_keys ns" "i < length ns" "key_at ns i \<noteq> ONull"
  shows "node_map (ns[i := (ns ! i)\<lparr>nval := v\<rparr>]) = (node_map ns)(key_at ns i \<mapsto> v)"
proof (rule node_map_eqI)
  fix k w
  have "((node_map ns)(key_at ns i \<mapsto> v)) k = Some w \<longleftrightarrow>
     (if k = key_at ns i then w = v else (k, w) \<in> node_pairs ns)"
    using node_map_iff [OF assms(1)] by auto
  also have "\<dots> \<longleftrightarrow> (k, w) \<in> node_pairs (ns[i := (ns ! i)\<lparr>nval := v\<rparr>])"
    using assms unfolding node_pairs_iff distinct_keys_def
    by (auto simp: nth_list_update)
  finally show "((node_map ns)(key_at ns i \<mapsto> v)) k = Some w \<longleftrightarrow>
     (k, w) \<in> node_pairs (ns[i := (ns ! i)\<lparr>nval := v\<rparr>])" .
qed (simp add: assms)

section \<open>Placing a key\<close>

text \<open>What \<open>place_node\<close> followed by storing the key gives, in one statement for its three cases.\<close>

definition placed ::
  "(lvobj \<Rightarrow> nat) \<Rightarrow> hnode list \<Rightarrow> nat \<Rightarrow> lvobj \<Rightarrow> hnode list \<Rightarrow> nat \<Rightarrow> bool" where
  "placed m ns ff k ns' mp \<longleftrightarrow>
     mp < length ns \<and> length ns' = length ns \<and> wf_nodes m ns' \<and> key_at ns' mp = k \<and>
     (\<forall>i j. (i, j) \<in> nx ns' \<longrightarrow> ff < j \<or> j = ff \<and> key_at ns' ff \<noteq> ONull) \<and>
     (\<forall>i < length ns. key_at ns i \<noteq> ONull \<longrightarrow> key_at ns' i \<noteq> ONull) \<and>
     ((\<forall>i j. (i, j) \<in> nx ns \<longrightarrow> key_at ns i \<noteq> ONull) \<longrightarrow>
        (\<forall>i j. (i, j) \<in> nx ns' \<longrightarrow> key_at ns' i \<noteq> ONull)) \<and>
     (\<forall>k' v'. k' \<noteq> k \<longrightarrow> (k', v') \<in> node_pairs ns' \<longleftrightarrow> (k', v') \<in> node_pairs ns)"

lemma place_free:
  assumes I: "insertion_ready m ns ff k h" and free: "key_at ns h = ONull"
  shows "placed m ns ff k (ns[h := (ns ! h)\<lparr>nkey := k\<rparr>]) h"
proof -
  let ?ns = "ns[h := (ns ! h)\<lparr>nkey := k\<rparr>]"
  note h = ins_h [OF I] and k = ins_k [OF I]
  have nx: "nx ?ns = nx ns"
    using h(2) by (auto simp: nx_def nth_list_update split: if_splits)
  have key: "key_at ?ns i = (if i = h then k else key_at ns i)" for i
    using h(2) by (simp add: key_at_def nth_list_update)
  have val: "nval (?ns ! i) = nval (ns ! i)" for i
    using h(2) by (simp add: nth_list_update)
  show ?thesis
    unfolding placed_def nx length_list_update
  proof (intro conjI allI impI)
    show "wf_nodes m ?ns" by (rule put_free [OF I free])
    fix k' v' assume "k' \<noteq> k"
    then show "(k', v') \<in> node_pairs ?ns \<longleftrightarrow> (k', v') \<in> node_pairs ns"
      using free by (auto simp: node_pairs_iff key val)
  qed (use h k ins_above [OF I] in \<open>auto simp: key\<close>)
qed

lemma place_chain:
  assumes I: "insertion_ready m ns ff k h"
    and occ: "key_at ns h \<noteq> ONull" and home: "m (key_at ns h) = h"
  shows "placed m ns ff k (ns[ff := (ns ! ff)\<lparr>nkey := k, nnext := nnext (ns ! h)\<rparr>,
                            h := (ns ! h)\<lparr>nnext := Some ff\<rparr>]) ff"
proof -
  let ?ns = "ns[ff := (ns ! ff)\<lparr>nkey := k, nnext := nnext (ns ! h)\<rparr>,
                h := (ns ! h)\<lparr>nnext := Some ff\<rparr>]"
  note h = ins_h [OF I] and k = ins_k [OF I] and ff = ins_ff [OF I]
  have hf: "h \<noteq> ff" using occ ff by auto
  have key: "key_at ?ns i = (if i = ff then k else key_at ns i)" for i
    using h(2) ff(1) hf by (simp add: key_at_def nth_list_update)
  have val: "nval (?ns ! i) = nval (ns ! i)" for i
    using h(2) ff(1) hf by (simp add: nth_list_update)
  have nx: "(i, j) \<in> nx ?ns \<Longrightarrow> (i = h \<and> j = ff) \<or> (i = ff \<and> (h, j) \<in> nx ns) \<or> (i, j) \<in> nx ns" for i j
    using h(2) ff(1) hf by (auto simp: nx_def nth_list_update split: if_splits)
  show ?thesis
    unfolding placed_def length_list_update
  proof (intro conjI allI impI)
    show "wf_nodes m ?ns" by (rule put_chain [OF I occ home])
    fix i j assume "(i, j) \<in> nx ?ns"
    from nx [OF this] show "ff < j \<or> j = ff \<and> key_at ?ns ff \<noteq> ONull"
      using k(1) ins_above [OF I] by (auto simp: key)
  next
    fix i j assume "\<forall>i j. (i, j) \<in> nx ns \<longrightarrow> key_at ns i \<noteq> ONull" "(i, j) \<in> nx ?ns"
    with nx [OF this(2)] show "key_at ?ns i \<noteq> ONull" using k(1) occ by (auto simp: key)
  next
    fix k' v' assume "k' \<noteq> k"
    then show "(k', v') \<in> node_pairs ?ns \<longleftrightarrow> (k', v') \<in> node_pairs ns"
      using ff(2) by (auto simp: node_pairs_iff key val)
  qed (use ff k in \<open>auto simp: key\<close>)
qed

lemma place_move:
  assumes I: "insertion_ready m ns ff k h"
    and occ: "key_at ns h \<noteq> ONull" and away: "m (key_at ns h) \<noteq> h" and o: "(o', h) \<in> nx ns"
  shows "placed m ns ff k
           (ns[o' := (ns ! o')\<lparr>nnext := Some ff\<rparr>,
               ff := (ns ! ff)\<lparr>nkey := nkey (ns ! h), nval := nval (ns ! h), nnext := nnext (ns ! h)\<rparr>,
               h := (ns ! h)\<lparr>nkey := k, nval := ONull, nnext := None\<rparr>]) h"
proof -
  let ?ns = "ns[o' := (ns ! o')\<lparr>nnext := Some ff\<rparr>,
               ff := (ns ! ff)\<lparr>nkey := nkey (ns ! h), nval := nval (ns ! h), nnext := nnext (ns ! h)\<rparr>,
               h := (ns ! h)\<lparr>nkey := k, nval := ONull, nnext := None\<rparr>]"
  note h = ins_h [OF I] and k = ins_k [OF I] and ff = ins_ff [OF I]
  have hf: "h \<noteq> ff" using occ ff by auto
  have oh: "o' \<noteq> h" using o wf_acyc [OF ins_wf [OF I]] by (auto simp: acyclic_def)
  have of_: "o' \<noteq> ff" using o ins_no_succ [OF I] by auto
  have ol: "o' < length ns" using o by (auto simp: nx_def)
  have key: "key_at ?ns i = (if i = h then k else if i = ff then key_at ns h else key_at ns i)" for i
    using h(2) ff(1) hf oh of_ ol by (simp add: key_at_def nth_list_update)
  have val: "nval (?ns ! i) = (if i = h then ONull else if i = ff then nval (ns ! h) else nval (ns ! i))" for i
    using h(2) ff(1) hf oh of_ ol by (simp add: nth_list_update)
  have nx: "(i, j) \<in> nx ?ns \<Longrightarrow> (i = o' \<and> j = ff) \<or> (i = ff \<and> (h, j) \<in> nx ns) \<or> (i \<noteq> h \<and> (i, j) \<in> nx ns)" for i j
    using h(2) ff(1) hf oh of_ ol by (auto simp: nx_def nth_list_update split: if_splits)
  show ?thesis
    unfolding placed_def length_list_update
  proof (intro conjI allI impI)
    show "wf_nodes m ?ns" by (rule put_move [OF I occ away o])
    fix i j assume "(i, j) \<in> nx ?ns"
    from nx [OF this] show "ff < j \<or> j = ff \<and> key_at ?ns ff \<noteq> ONull"
      using occ hf ins_above [OF I] by (auto simp: key)
  next
    fix i j assume a: "\<forall>i j. (i, j) \<in> nx ns \<longrightarrow> key_at ns i \<noteq> ONull" "(i, j) \<in> nx ?ns"
    with o have "key_at ns o' \<noteq> ONull" by blast
    with a nx [OF a(2)] show "key_at ?ns i \<noteq> ONull" using k(1) occ of_ oh by (auto simp: key)
  next
    fix k' v' assume kk: "k' \<noteq> k"
    let ?s = "\<lambda>i. if i = h then ff else if i = ff then h else i"
    have ex: "(\<exists>i. Q i) \<longleftrightarrow> (\<exists>i. Q (?s i))" for Q :: "nat \<Rightarrow> bool"
    proof -
      have "?s (?s i) = i" for i using hf by simp
      then show ?thesis by metis
    qed
    let ?P = "\<lambda>i. i < length ns \<and> key_at ns i = k' \<and> nval (ns ! i) = v'"
    let ?Q = "\<lambda>i. i < length ns \<and> key_at ?ns i = k' \<and> nval (?ns ! i) = v'"
    have pw: "k' \<noteq> ONull \<Longrightarrow> ?Q (?s i) \<longleftrightarrow> ?P i" for i
      using kk hf ff(2) h(2) ff(1) unfolding key val by auto
    show "(k', v') \<in> node_pairs ?ns \<longleftrightarrow> (k', v') \<in> node_pairs ns"
    proof (cases "k' = ONull")
      case False
      have "(\<exists>i. ?Q i) \<longleftrightarrow> (\<exists>i. ?P i)" unfolding ex [of ?Q] pw [OF False] ..
      then show ?thesis unfolding node_pairs_iff length_list_update by blast
    qed (simp add: node_pairs_iff)
  qed (use h k occ hf in \<open>auto simp: key\<close>)
qed

lemma place_node_placed:
  assumes I: "insertion_ready (slot_of (length ns)) ns ff k h"
  shows "\<exists>ns' mp. place_node ns ff h = Some (ns', mp) \<and>
           placed (slot_of (length ns)) ns ff k (ns'[mp := (ns' ! mp)\<lparr>nkey := k\<rparr>]) mp"
proof (cases "key_at ns h = ONull")
  case True
  then show ?thesis using place_free [OF I True] by (simp add: place_node_def key_at_def)
next
  case occ: False
  note h = ins_h [OF I] and ff = ins_ff [OF I] and wf = ins_wf [OF I]
  have hf: "h \<noteq> ff" using occ ff by auto
  have occ': "nkey (ns ! h) \<noteq> ONull" using occ by (simp add: key_at_def)
  let ?mph = "slot_of (length ns) (nkey (ns ! h))"
  show ?thesis
  proof (cases "?mph = h")
    case True
    have eq: "ns[ff := (ns ! ff)\<lparr>nnext := nnext (ns ! h)\<rparr>, h := (ns ! h)\<lparr>nnext := Some ff\<rparr>,
                 ff := (ns ! ff)\<lparr>nnext := nnext (ns ! h), nkey := k\<rparr>] =
              ns[ff := (ns ! ff)\<lparr>nkey := k, nnext := nnext (ns ! h)\<rparr>, h := (ns ! h)\<lparr>nnext := Some ff\<rparr>]"
      using hf h(2) ff(1) by (intro nth_equalityI) (auto simp: nth_list_update)
    show ?thesis
      using place_chain [OF I occ] True hf h(2) ff(1) occ'
      by (simp add: place_node_def Let_def key_at_def eq)
  next
    case away: False
    then have away': "slot_of (length ns) (key_at ns h) \<noteq> h" by (simp add: key_at_def)
    from foreign_above [OF I h(2) occ away'] have fh: "ff < h" .
    have "(slot_of (length ns) (key_at ns h), h) \<in> (nx ns)\<^sup>+"
      using wf_reach [OF wf h(2) occ] away' by (metis rtranclD)
    moreover have "slot_of (length ns) (key_at ns h) < length ns"
      using calculation by (auto simp: nx_def dest: tranclD)
    moreover have "\<forall>(i, j) \<in> nx ns. j < length ns" using wf_rng [OF wf] by blast
    ultimately obtain o' where o: "find_prev ns h ?mph = Some o'" "(o', h) \<in> nx ns"
      using find_prev_returns [OF wf_acyc [OF wf], of "slot_of (length ns) (key_at ns h)" h]
      by (auto simp: key_at_def)
    have oh: "o' \<noteq> h" using o wf_acyc [OF wf] by (auto simp: acyclic_def)
    have of_: "o' \<noteq> ff" using o ins_no_succ [OF I] by auto
    have rc: "(ns ! h)\<lparr>nval := ONull, nnext := None, nkey := k\<rparr> =
                (ns ! h)\<lparr>nkey := k, nval := ONull, nnext := None\<rparr>" by simp
    show ?thesis
      using place_move [OF I occ away' o(2)] away fh o(1) oh of_ hf occ' h(2) ff(1)
      by (simp add: place_node_def Let_def nth_list_update rc)
  qed
qed

end
