(* ===== verification/Table_Invariant.thy ===== *)
theory Table_Invariant
  imports Table_Contents
begin

text \<open>
  The invariant of a table between two operations, the correctness of lookup under it, and
  the outcome of one attempt to insert a key: stored, or no free node is left (which in a
  table nothing was removed from means that every node is used).
\<close>

section \<open>The invariant of a table\<close>

definition pow2_len :: "nat \<Rightarrow> bool" where
  "pow2_len n \<longleftrightarrow> (\<exists>p. 2 \<le> p \<and> n = 2 ^ p)"

abbreviation table_map :: "lvtable \<Rightarrow> lvobj \<rightharpoonup> lvobj" where
  "table_map t \<equiv> node_map (tnodes t)"

definition table_inv :: "lvtable \<Rightarrow> bool" where
  "table_inv t \<longleftrightarrow>
     pow2_len (numofnodes t) \<and>
     wf_nodes (slot_of (numofnodes t)) (tnodes t) \<and>
     (\<forall>(i, j) \<in> nx (tnodes t). firstfree t < j) \<and>
     firstfree t < numofnodes t \<and>
     key_at (tnodes t) (firstfree t) = ONull \<and> nnext (tnodes t ! firstfree t) = None \<and>
     usednodes t = int (card (dom (table_map t)))"

text \<open>A table nothing was removed from: the nodes above the free pointer are all used.\<close>

definition tight :: "lvtable \<Rightarrow> bool" where
  "tight t \<longleftrightarrow>
     (\<forall>i < numofnodes t. firstfree t < i \<longrightarrow> key_at (tnodes t) i \<noteq> ONull) \<and>
     (\<forall>(i, j) \<in> nx (tnodes t). key_at (tnodes t) i \<noteq> ONull)"

lemma pow2_lenD:
  assumes "pow2_len n"
  shows "4 \<le> n" "0 < n"
proof -
  from assms obtain p where p: "2 \<le> p" "n = 2 ^ p" by (auto simp: pow2_len_def)
  have "(2::nat) ^ 2 \<le> 2 ^ p" using p(1) by (rule power_increasing) simp
  with p show "4 \<le> n" by simp
  then show "0 < n" by simp
qed

lemma slot_of_pow2: "pow2_len n \<Longrightarrow> slot_of n k < n"
  using slot_of_less by (auto simp: pow2_len_def)

lemma table_invD:
  assumes "table_inv t"
  shows tinv_pow2: "pow2_len (numofnodes t)"
    and tinv_wf: "wf_nodes (slot_of (numofnodes t)) (tnodes t)"
    and tinv_distinct: "distinct_keys (tnodes t)"
    and tinv_used: "usednodes t = int (card (dom (table_map t)))"
    and tinv_ff: "firstfree t < numofnodes t"
  using assms wf_distinct_keys unfolding table_inv_def by blast+

lemma settle_Some:
  "settle ns ff = Some f \<Longrightarrow>
     f \<le> ff \<and> key_at ns f = ONull \<and> nnext (ns ! f) = None \<and>
     (\<forall>i. f < i \<longrightarrow> i \<le> ff \<longrightarrow> key_at ns i \<noteq> ONull \<or> nnext (ns ! i) \<noteq> None)"
proof (induction ff)
  case 0
  then show ?case by (auto simp: settle.simps [of ns 0] key_at_def split: if_splits)
next
  case (Suc ff)
  then show ?case
    by (auto simp: settle.simps [of ns "Suc ff"] key_at_def le_Suc_eq split: if_splits)
qed

lemma settle_None:
  "settle ns ff = None \<Longrightarrow> i \<le> ff \<Longrightarrow> key_at ns i \<noteq> ONull \<or> nnext (ns ! i) \<noteq> None"
proof (induction ff)
  case 0
  then show ?case by (auto simp: settle.simps [of ns 0] key_at_def split: if_splits)
next
  case (Suc ff)
  then show ?case
    by (auto simp: settle.simps [of ns "Suc ff"] key_at_def le_Suc_eq split: if_splits)
qed

section \<open>Lookup\<close>

lemma node_of_cases:
  assumes "pow2_len (numofnodes t)" "wf_nodes (slot_of (numofnodes t)) (tnodes t)" "k \<noteq> ONull"
  obtains (found) i where "node_of t k = Some (Some i)" "i < numofnodes t" "key_at (tnodes t) i = k"
  | (absent) "node_of t k = Some None" "\<forall>i < numofnodes t. key_at (tnodes t) i \<noteq> k"
proof -
  let ?ns = "tnodes t"
  have rng: "\<forall>(i, j) \<in> nx ?ns. j < length ?ns" using wf_rng [OF assms(2)] by blast
  from find_node_returns [OF wf_acyc [OF assms(2)] rng slot_of_pow2 [OF assms(1)], of k k]
  show thesis
  proof (elim disjE exE conjE)
    fix j assume "find_node ?ns k (slot_of (numofnodes t) k) = Some (Some j)" "j < length ?ns"
      "key_at ?ns j = k"
    then show thesis using found by (simp add: node_of_def)
  next
    assume none: "find_node ?ns k (slot_of (numofnodes t) k) = Some None"
      "\<forall>j. (slot_of (numofnodes t) k, j) \<in> (nx ?ns)\<^sup>* \<longrightarrow> key_at ?ns j \<noteq> k"
    have "\<forall>i < numofnodes t. key_at ?ns i \<noteq> k"
    proof (intro allI impI notI)
      fix i assume i: "i < numofnodes t" "key_at ?ns i = k"
      with wf_reach [OF assms(2) i(1)] assms(3) have "(slot_of (numofnodes t) k, i) \<in> (nx ?ns)\<^sup>*"
        by simp
      with none(2) i(2) show False by blast
    qed
    with none(1) absent show thesis by (simp add: node_of_def)
  qed
qed

lemma table_map_absent:
  "\<forall>i < numofnodes t. key_at (tnodes t) i \<noteq> k \<Longrightarrow> table_map t k = None"
proof -
  assume a: "\<forall>i < numofnodes t. key_at (tnodes t) i \<noteq> k"
  have "k \<notin> dom (table_map t)"
    using a by (auto simp: dom_node_map key_at_def in_set_conv_nth)
  then show ?thesis by (simp add: domIff)
qed

lemma table_map_found:
  "distinct_keys (tnodes t) \<Longrightarrow> i < numofnodes t \<Longrightarrow> key_at (tnodes t) i = k \<Longrightarrow> k \<noteq> ONull \<Longrightarrow>
   table_map t k = Some (nval (tnodes t ! i))"
  by (auto simp: node_map_iff node_pairs_iff)

lemma table_Get_map:
  assumes "table_inv t"
  shows "table_Get wr t k = Some (map_option (realval wr) (table_map t k))"
proof (cases "k = ONull")
  case False
  from tinv_pow2 [OF assms] tinv_wf [OF assms] False show ?thesis
  proof (cases rule: node_of_cases)
    case (found i)
    with table_map_found [OF tinv_distinct [OF assms] found(2,3) False] False
    show ?thesis by (simp add: table_Get_def)
  next
    case absent
    with table_map_absent [OF absent(2)] False show ?thesis by (simp add: table_Get_def)
  qed
qed (simp add: table_Get_def)

section \<open>One attempt at an insertion\<close>

lemma insertion_ready_table:
  assumes "table_inv t" "k \<noteq> ONull" "\<forall>i < numofnodes t. key_at (tnodes t) i \<noteq> k"
  shows "insertion_ready (slot_of (numofnodes t)) (tnodes t) (firstfree t) k (main_pos t k)"
  using assms slot_of_pow2 [OF tinv_pow2 [OF assms(1)]]
  unfolding insertion_ready_def table_inv_def by blast

lemma insert_step_present:
  assumes inv: "table_inv t" and k: "k \<noteq> ONull" and dom: "k \<in> dom (table_map t)"
  shows "\<exists>t'. insert_step t k v = Some (Inserted False t') \<and> table_inv t' \<and>
           table_map t' = (table_map t)(k \<mapsto> v) \<and> tdelegate t' = tdelegate t \<and>
           numofnodes t' = numofnodes t \<and> (tight t \<longrightarrow> tight t')"
  using tinv_pow2 [OF inv] tinv_wf [OF inv] k
proof (cases rule: node_of_cases)
  case (found i)
  have m: "node_map ((tnodes t)[i := (tnodes t ! i)\<lparr>nval := v\<rparr>]) = (table_map t)(k \<mapsto> v)"
    using node_map_value [OF tinv_distinct [OF inv] found(2)] found(3) k by simp
  have d: "dom (table_map t) = insert k (dom (table_map t))" using dom by blast
  have ff: "nnext ((tnodes t)[i := (tnodes t ! i)\<lparr>nval := v\<rparr>] ! j) = nnext (tnodes t ! j)" for j
    using found(2) by (simp add: nth_list_update)
  show ?thesis
    using inv found m d by (auto simp: insert_step_def table_inv_def tight_def ff)
next
  case absent
  from table_map_absent [OF absent(2)] dom show ?thesis by auto
qed

lemma insert_step_absent:
  assumes inv: "table_inv t" and k: "k \<noteq> ONull" and dom: "k \<notin> dom (table_map t)"
  shows "(\<exists>t'. insert_step t k v = Some (Inserted True t') \<and> table_inv t' \<and>
            table_map t' = (table_map t)(k \<mapsto> v) \<and> tdelegate t' = tdelegate t \<and>
            numofnodes t' = numofnodes t \<and> (tight t \<longrightarrow> tight t'))
       \<or> (\<exists>t'. insert_step t k v = Some (Full t') \<and> distinct_keys (tnodes t') \<and>
            numofnodes t' = numofnodes t \<and> tdelegate t' = tdelegate t \<and>
            usednodes t' = usednodes t \<and> dom (table_map t') = insert k (dom (table_map t)) \<and>
            (\<forall>k'. k' \<noteq> k \<longrightarrow> table_map t' k' = table_map t k') \<and>
            (tight t \<longrightarrow> Suc (card (dom (table_map t))) = numofnodes t))"
  using tinv_pow2 [OF inv] tinv_wf [OF inv] k
proof (cases rule: node_of_cases)
  case (found i)
  with table_map_found [OF tinv_distinct [OF inv] found(2,3) k] dom show ?thesis by auto
next
  case absent
  let ?n = "numofnodes t" and ?ns = "tnodes t" and ?ff = "firstfree t"
  let ?m = "slot_of ?n"
  note I = insertion_ready_table [OF inv k absent(2)]
  from place_node_placed [OF I] obtain ns1 mp where
    pl: "place_node ?ns ?ff (main_pos t k) = Some (ns1, mp)"
    and P: "placed ?m ?ns ?ff k (ns1[mp := (ns1 ! mp)\<lparr>nkey := k\<rparr>]) mp" by blast
  define ns2 where "ns2 = ns1[mp := (ns1 ! mp)\<lparr>nkey := k\<rparr>]"
  define ns3 where "ns3 = ns2[mp := (ns2 ! mp)\<lparr>nval := v\<rparr>]"
  have P2: "placed ?m ?ns ?ff k ns2 mp" using P by (simp add: ns2_def)
  have len: "length ns2 = ?n" "mp < ?n" and wf2: "wf_nodes ?m ns2" and kmp: "key_at ns2 mp = k"
    and up: "\<And>i j. (i, j) \<in> nx ns2 \<Longrightarrow> ?ff < j \<or> j = ?ff \<and> key_at ns2 ?ff \<noteq> ONull"
    and mono: "\<And>i. i < ?n \<Longrightarrow> key_at ?ns i \<noteq> ONull \<Longrightarrow> key_at ns2 i \<noteq> ONull"
    and nxocc: "(\<forall>i j. (i, j) \<in> nx ?ns \<longrightarrow> key_at ?ns i \<noteq> ONull) \<Longrightarrow>
        (i, j) \<in> nx ns2 \<Longrightarrow> key_at ns2 i \<noteq> ONull"
    and oth: "\<And>k' v'. k' \<noteq> k \<Longrightarrow> (k', v') \<in> node_pairs ns2 \<longleftrightarrow> (k', v') \<in> node_pairs ?ns" for i j
    using P2 unfolding placed_def by blast+
  have d2: "distinct_keys ns2" by (rule wf_distinct_keys [OF wf2])
  have other: "node_map ns2 k' = table_map t k'" if "k' \<noteq> k" for k'
    using oth [OF that] node_map_iff [OF d2] node_map_iff [OF tinv_distinct [OF inv]]
    by (metis not_None_eq)
  have in2: "k \<in> dom (node_map ns2)"
    using len kmp k by (auto simp: dom_node_map key_at_def)
  have dom2: "dom (node_map ns2) = insert k (dom (table_map t))"
  proof (rule set_eqI)
    fix x show "x \<in> dom (node_map ns2) \<longleftrightarrow> x \<in> insert k (dom (table_map t))"
      using in2 other [of x] by (cases "x = k") (auto simp: domIff)
  qed
  have m3: "node_map ns3 = (table_map t)(k \<mapsto> v)"
    using node_map_value [OF d2, of mp v] len kmp k other by (auto simp: ns3_def fun_eq_iff)
  show ?thesis
  proof (cases "settle ns2 ?ff")
    case (Some f)
    from settle_Some [OF this] have f: "f \<le> ?ff" "key_at ns2 f = ONull" "nnext (ns2 ! f) = None"
      and between: "\<And>i. f < i \<Longrightarrow> i \<le> ?ff \<Longrightarrow> key_at ns2 i \<noteq> ONull \<or> nnext (ns2 ! i) \<noteq> None" by blast+
    let ?t = "t\<lparr>tnodes := ns3, firstfree := f, usednodes := usednodes t + 1\<rparr>"
    have st: "insert_step t k v = Some (Inserted True ?t)"
      using absent(1) pl Some by (simp add: insert_step_def ns2_def ns3_def)
    have nn3: "nnext (ns3 ! j) = nnext (ns2 ! j)" for j
      using len by (simp add: ns3_def nth_list_update)
    have nx3: "nx ns3 = nx ns2" and k3: "key_at ns3 = key_at ns2" and l3: "length ns3 = ?n"
      and w3: "wf_nodes ?m ns3" using wf2 len by (auto simp: ns3_def)
    have c3: "int (card (dom (node_map ns3))) = usednodes t + 1"
      using dom tinv_used [OF inv] by (simp add: m3 finite_dom_node_map)
    have ab: "\<forall>(i, j) \<in> nx ns3. f < j"
    proof (clarify, simp add: nx3)
      fix i j assume "(i, j) \<in> nx ns2"
      from up [OF this] show "f < j" using f by (cases "f = ?ff") auto
    qed
    have inv3: "table_inv ?t"
      using tinv_pow2 [OF inv] w3 ab f len l3 c3 tinv_ff [OF inv]
      by (simp add: table_inv_def k3 nn3)
    have "tight ?t" if "tight t"
    proof -
      have a: "\<And>i. i < ?n \<Longrightarrow> ?ff < i \<Longrightarrow> key_at ?ns i \<noteq> ONull"
        and b: "\<forall>i j. (i, j) \<in> nx ?ns \<longrightarrow> key_at ?ns i \<noteq> ONull"
        using that unfolding tight_def by blast+
      have occ: "nnext (ns2 ! i) \<noteq> None \<Longrightarrow> i < ?n \<Longrightarrow> key_at ns2 i \<noteq> ONull" for i
        using nxocc [OF b, of i "the (nnext (ns2 ! i))"] len by (auto simp: nx_def)
      have "key_at ns2 i \<noteq> ONull" if "i < ?n" "f < i" for i
        using that a mono between [of i] occ [of i] by (cases "i \<le> ?ff") auto
      then show ?thesis using nxocc [OF b] by (auto simp: tight_def nx3 k3 l3)
    qed
    with st inv3 m3 l3 show ?thesis by (intro disjI1) simp
  next
    case None
    let ?t = "t\<lparr>tnodes := ns2, firstfree := 0\<rparr>"
    have st: "insert_step t k v = Some (Full ?t)"
      using absent(1) pl None by (simp add: insert_step_def ns2_def)
    have "Suc (card (dom (table_map t))) = ?n" if "tight t"
    proof -
      have a: "\<And>i. i < ?n \<Longrightarrow> ?ff < i \<Longrightarrow> key_at ?ns i \<noteq> ONull"
        and b: "\<forall>i j. (i, j) \<in> nx ?ns \<longrightarrow> key_at ?ns i \<noteq> ONull"
        using that unfolding tight_def by blast+
      have occ: "nnext (ns2 ! i) \<noteq> None \<Longrightarrow> i < ?n \<Longrightarrow> key_at ns2 i \<noteq> ONull" for i
        using nxocc [OF b, of i "the (nnext (ns2 ! i))"] len by (auto simp: nx_def)
      have "key_at ns2 i \<noteq> ONull" if "i < ?n" for i
        using that a mono settle_None [OF None, of i] occ [of i] by (cases "i \<le> ?ff") auto
      then have "{i. i < length ns2 \<and> key_at ns2 i \<noteq> ONull} = {..<?n}" using len by auto
      with card_dom_node_map [OF d2] have "card (dom (node_map ns2)) = ?n" by simp
      then show ?thesis using dom by (simp add: dom2)
    qed
    with st d2 len dom2 other show ?thesis by (intro disjI2) simp
  qed
qed

end
