(* ===== verification/Table_Refinement.thy ===== *)
theory Table_Refinement
  imports Table_Invariant
begin

text \<open>
  Insertion and rehashing keep the invariant and refine the update of a finite map: a refill of a
  fresh node array never rehashes again, so the recursion between \<open>NewSlot\<close> and \<open>Rehash\<close> is at
  most two calls deep.
\<close>

declare newslot_d.simps [simp del]

lemma newslot_step:
  "newslot_d (Suc d) t k v =
     (if k = ONull then None
      else do {
        r \<leftarrow> insert_step t k v;
        (case r of
           Inserted b t' \<Rightarrow> Some (b, t')
         | Full t' \<Rightarrow> do {
             t'' \<leftarrow> rehash_with (newslot_d d) True t';
             newslot_d d t'' k v
           })
      })"
  by (simp add: newslot_d.simps)

section \<open>Fresh tables and re-insertion\<close>

lemma nx_empty [simp]: "nx (replicate n empty_node) = {}"
  by (auto simp: nx_def empty_node_def)

lemma key_at_empty [simp]: "i < n \<Longrightarrow> key_at (replicate n empty_node) i = ONull"
  by (simp add: key_at_def empty_node_def)

lemma node_map_empty [simp]: "node_map (replicate n empty_node) = Map.empty"
  by (simp add: node_map_def empty_node_def)

lemma wf_empty [simp]: "wf_nodes m (replicate n empty_node)"
  by (simp add: wf_nodes_def acyclic_def)

lemma nnext_empty [simp]: "i < n \<Longrightarrow> nnext (replicate n empty_node ! i) = None"
  by (simp add: empty_node_def)

lemma nnext_empty_node [simp]: "nnext empty_node = None"
  by (simp add: empty_node_def)

lemma alloc_fresh:
  assumes "pow2_len n"
  shows "table_inv ((AllocNodes n t)\<lparr>usednodes := 0\<rparr>)" "tight ((AllocNodes n t)\<lparr>usednodes := 0\<rparr>)"
    "table_map ((AllocNodes n t)\<lparr>usednodes := 0\<rparr>) = Map.empty"
    "numofnodes ((AllocNodes n t)\<lparr>usednodes := 0\<rparr>) = n"
    "tdelegate ((AllocNodes n t)\<lparr>usednodes := 0\<rparr>) = tdelegate t"
  using assms pow2_lenD [OF assms]
  by (auto simp: AllocNodes_def table_inv_def tight_def)

text \<open>
  A re-insertion into a fresh table that is large enough never rehashes, so it needs no deeper
  recursion.
\<close>

lemma reinsert_ok:
  assumes "table_inv t" "tight t" "distinct_keys ns" "dom (table_map t) \<inter> dom (node_map ns) = {}"
    and "card (dom (table_map t)) + card (dom (node_map ns)) < numofnodes t"
  shows "\<exists>t'. reinsert (newslot_d (Suc d)) ns t = Some t' \<and> table_inv t' \<and>
           table_map t' = table_map t ++ node_map ns \<and> tdelegate t' = tdelegate t \<and>
           numofnodes t' = numofnodes t"
  using assms
proof (induction ns arbitrary: t)
  case Nil
  then show ?case by (simp add: node_map_def)
next
  case (Cons n ns)
  have dk: "distinct_keys ns"
    using Cons.prems(3) unfolding distinct_keys_def key_at_def
    by (metis Suc_less_eq length_Cons nat.inject nth_Cons_Suc)
  show ?case
  proof (cases "nkey n = ONull")
    case True
    then have nm: "node_map (n # ns) = node_map ns" by (simp add: node_map_def)
    from Cons.IH [OF Cons.prems(1,2) dk] Cons.prems(4,5) show ?thesis by (simp add: nm True)
  next
    case False
    let ?k = "nkey n" and ?v = "nval n"
    have nm: "node_map (n # ns) = (node_map ns)(?k \<mapsto> ?v)" using False by (simp add: node_map_def)
    have fresh: "?k \<notin> dom (node_map ns)"
    proof
      assume "?k \<in> dom (node_map ns)"
      then obtain j where j: "j < length ns" "nkey (ns ! j) = ?k"
        by (auto simp: dom_node_map in_set_conv_nth)
      have "0 = Suc j"
        using Cons.prems(3) [unfolded distinct_keys_def key_at_def, rule_format, of 0 "Suc j"] j False
        by simp
      then show False by simp
    qed
    have kt: "?k \<notin> dom (table_map t)" using Cons.prems(4) nm by auto
    have cn: "card (dom (node_map (n # ns))) = Suc (card (dom (node_map ns)))"
      using fresh by (simp add: nm)
    have "Suc (card (dom (table_map t))) \<noteq> numofnodes t" using Cons.prems(5) cn by simp
    with insert_step_absent [OF Cons.prems(1) False kt, of ?v] Cons.prems(2)
    obtain t1 where t1: "insert_step t ?k ?v = Some (Inserted True t1)" "table_inv t1" "tight t1"
      "table_map t1 = (table_map t)(?k \<mapsto> ?v)" "tdelegate t1 = tdelegate t"
      "numofnodes t1 = numofnodes t" by blast
    have ct: "card (dom (table_map t1)) = Suc (card (dom (table_map t)))"
      using kt by (simp add: t1(4))
    have dj: "dom (table_map t1) \<inter> dom (node_map ns) = {}"
      using Cons.prems(4) fresh by (auto simp: t1(4) nm)
    have bd: "card (dom (table_map t1)) + card (dom (node_map ns)) < numofnodes t1"
      using Cons.prems(5) ct cn t1(6) by simp
    from Cons.IH [OF t1(2,3) dk dj bd] obtain t' where
      t': "reinsert (newslot_d (Suc d)) ns t1 = Some t'" "table_inv t'"
      "table_map t' = table_map t1 ++ node_map ns" "tdelegate t' = tdelegate t1"
      "numofnodes t' = numofnodes t1" by blast
    have "table_map t' = table_map t ++ node_map (n # ns)"
      using fresh by (auto simp: t'(3) t1(4) nm map_add_def fun_eq_iff domIff split: option.split)
    moreover have "newslot_d (Suc d) t ?k ?v = Some (True, t1)"
      using t1(1) False by (simp add: newslot_step)
    ultimately show ?thesis using t' t1 False by simp
  qed
qed

lemma pow2_double: "pow2_len n \<Longrightarrow> pow2_len (n * 2)"
  unfolding pow2_len_def by (metis le_SucI power_Suc2)

lemma pow2_half: "pow2_len n \<Longrightarrow> 4 < n \<Longrightarrow> pow2_len (n div 2) \<and> 4 \<le> n div 2"
proof -
  assume "pow2_len n" "4 < n"
  then obtain p where p: "2 \<le> p" "n = 2 ^ p" by (auto simp: pow2_len_def)
  have "p \<noteq> 2" using \<open>4 < n\<close> p by auto
  then obtain q where q: "p = Suc q" "2 \<le> q" using p by (cases p) auto
  then have "pow2_len (n div 2)" using p by (auto simp: pow2_len_def intro!: exI [of _ q])
  then show ?thesis using pow2_lenD(1) by blast
qed

section \<open>Rehashing\<close>

text \<open>
  \<open>usednodes\<close> is the number of keys, or one less when the insertion of the last key has just
  found no free node.
\<close>

lemma rehash_ok:
  assumes sz: "pow2_len (numofnodes t)"
    and dk: "distinct_keys (tnodes t)"
    and used: "usednodes t = int (card (dom (table_map t))) \<or>
               usednodes t + 1 = int (card (dom (table_map t)))"
    and force: "force \<or> table_inv t"
  shows "\<exists>t'. rehash_with (newslot_d (Suc d)) force t = Some t' \<and> table_inv t' \<and>
           table_map t' = table_map t \<and> tdelegate t' = tdelegate t"
proof -
  let ?n = "numofnodes t" and ?c = "card (dom (table_map t))"
  have n: "4 \<le> ?n" using pow2_lenD [OF sz] by simp
  have refill: "\<exists>t'. reinsert (newslot_d (Suc d)) (tnodes t) ((AllocNodes s t)\<lparr>usednodes := 0\<rparr>) = Some t' \<and>
      table_inv t' \<and> table_map t' = table_map t \<and> tdelegate t' = tdelegate t"
    if s: "pow2_len s" "?c < s" for s
    using reinsert_ok [OF alloc_fresh(1,2) [OF s(1), of t] dk, of d] s alloc_fresh [OF s(1), of t]
    by auto
  have cn: "?c \<le> ?n" using card_dom_le_length [OF dk] .
  have un: "usednodes t \<le> int ?c" "int ?c \<le> usednodes t + 1" using used by auto
  have big: "?c < ?n * 2" using cn n by simp
  have small: "?c < ?n div 2" if "usednodes t \<le> int ?n div 4" "4 < ?n"
  proof -
    obtain p where p: "2 \<le> p" "?n = 2 ^ p" using sz by (auto simp: pow2_len_def)
    then obtain q where "?n = 2 * 2 ^ q" by (cases p) auto
    moreover have "p \<noteq> 2" using that(2) p by auto
    ultimately have q: "?n = 2 * (?n div 2)" "4 \<le> ?n div 2" using pow2_half [OF sz that(2)] by auto
    with un that show ?thesis by simp
  qed
  have same: "?c < ?n" if "\<not> usednodes t \<ge> int ?n - int ?n div 4"
    using un that n by linarith
  show ?thesis
    using refill [OF pow2_double [OF sz] big] refill [of "?n div 2"] refill [of ?n] n
      small same pow2_half [OF sz] sz force
    by (auto simp: rehash_with_def Let_def MINPOWER2_def)
qed

section \<open>Insertion\<close>

lemma newslot_ok:
  assumes inv: "table_inv t" and k: "k \<noteq> ONull"
  shows "\<exists>b t'. newslot_d (Suc (Suc d)) t k v = Some (b, t') \<and> table_inv t' \<and>
           table_map t' = (table_map t)(k \<mapsto> v) \<and> tdelegate t' = tdelegate t \<and>
           (b \<longrightarrow> k \<notin> dom (table_map t))"
proof (cases "k \<in> dom (table_map t)")
  case True
  from insert_step_present [OF inv k True, of v] k show ?thesis
    by (auto simp: newslot_step)
next
  case False
  from insert_step_absent [OF inv k False, of v] show ?thesis
  proof (elim disjE exE conjE)
    fix t1 assume "insert_step t k v = Some (Inserted True t1)" "table_inv t1"
      "table_map t1 = (table_map t)(k \<mapsto> v)" "tdelegate t1 = tdelegate t"
    with k False show ?thesis by (auto simp: newslot_step)
  next
    fix t1 assume t1: "insert_step t k v = Some (Full t1)" "distinct_keys (tnodes t1)"
      "numofnodes t1 = numofnodes t" "tdelegate t1 = tdelegate t" "usednodes t1 = usednodes t"
      "dom (table_map t1) = insert k (dom (table_map t))"
      "\<forall>k'. k' \<noteq> k \<longrightarrow> table_map t1 k' = table_map t k'"
    have "usednodes t1 + 1 = int (card (dom (table_map t1)))"
      using False tinv_used [OF inv] t1(5,6) by simp
    with rehash_ok [of t1 True d] t1 tinv_pow2 [OF inv] obtain t2 where
      t2: "rehash_with (newslot_d (Suc d)) True t1 = Some t2" "table_inv t2"
      "table_map t2 = table_map t1" "tdelegate t2 = tdelegate t1" by auto
    have "k \<in> dom (table_map t2)" using t2(3) t1(6) by simp
    from insert_step_present [OF t2(2) k this, of v] obtain t3 where
      t3: "insert_step t2 k v = Some (Inserted False t3)" "table_inv t3"
      "table_map t3 = (table_map t2)(k \<mapsto> v)" "tdelegate t3 = tdelegate t2" by blast
    have "table_map t3 = (table_map t)(k \<mapsto> v)" using t1(7) by (auto simp: t3(3) t2(3) fun_eq_iff)
    moreover have "newslot_d (Suc d) t2 k v = Some (False, t3)"
      using t3(1) k by (simp add: newslot_step)
    then have "newslot_d (Suc (Suc d)) t k v = Some (False, t3)"
      using t1(1) t2(1) k by (simp add: newslot_step [of "Suc d"])
    ultimately show ?thesis using t3(2,4) t2(4) t1(4) by auto
  qed
qed

text \<open>More depth changes nothing: each level that succeeds gives the same table.\<close>

lemma newslot_mono:
  "newslot_d d t k v = Some r \<Longrightarrow> newslot_d (Suc d) t k v = Some r"
proof (induction d arbitrary: t k v r)
  case 0
  then show ?case by (simp add: newslot_d.simps)
next
  case (Suc d)
  have re: "reinsert (newslot_d d) ns t = Some t' \<Longrightarrow> reinsert (newslot_d (Suc d)) ns t = Some t'" for ns t t'
  proof (induction ns arbitrary: t)
    case (Cons n ns)
    then show ?case using Suc.IH by (fastforce split: if_splits Option.bind_splits)
  qed simp
  have rh: "rehash_with (newslot_d d) f t = Some t' \<Longrightarrow> rehash_with (newslot_d (Suc d)) f t = Some t'" for f t t'
    using re by (auto simp: rehash_with_def Let_def)
  have k: "k \<noteq> ONull" using Suc.prems by (auto simp: newslot_step [of d])
  with Suc.prems obtain q where q: "insert_step t k v = Some q"
    by (cases "insert_step t k v") (auto simp: newslot_step [of d])
  show ?case
  proof (cases q)
    case (Inserted b t')
    with Suc.prems q k show ?thesis by (simp add: newslot_step [of d] newslot_step [of "Suc d"])
  next
    case (Full t')
    with Suc.prems q k obtain u where u: "rehash_with (newslot_d d) True t' = Some u"
      "newslot_d d u k v = Some r"
      by (auto simp: newslot_step [of d] bind_eq_Some_conv)
    show ?thesis
      using q k Full rh [OF u(1)] Suc.IH [OF u(2)] by (subst newslot_step) simp
  qed
qed

lemma newslot_depth_enough:
  assumes "table_inv t" "k \<noteq> ONull" "2 \<le> d"
  shows "newslot_d d t k v = table_NewSlot t k v"
proof -
  from newslot_ok [OF assms(1,2), of 0 v] obtain r where r: "newslot_d 2 t k v = Some r"
    by (auto simp: numeral_2_eq_2)
  have "newslot_d (2 + e) t k v = Some r" for e
    by (induction e) (use r newslot_mono in auto)
  from this [of "d - 2"] assms(3) have "newslot_d d t k v = Some r" by (simp del: add_2_eq_Suc)
  with r show ?thesis by (simp add: table_NewSlot_def)
qed

end
