(* ===== verification/Table_Operations.thy ===== *)
theory Table_Operations
  imports Table_Refinement
begin

text \<open>
  What each operation on a table does to its contents: creation and clearing give the empty map,
  \<open>Set\<close> and \<open>Remove\<close> refine the update and the removal of a key, and all keep the invariant.
\<close>

section \<open>Creating and clearing\<close>

lemma pow2size_pow2: "pow2_len p \<Longrightarrow> pow2_len (pow2size n p)"
proof (induction n p rule: pow2size.induct)
  case (1 n p)
  then show ?case
    using pow2_double [of p] by (subst pow2size.simps) (simp add: mult.commute)
qed

lemma pow2size_ge: "0 < p \<Longrightarrow> n \<le> pow2size n p"
proof (induction n p rule: pow2size.induct)
  case (1 n p)
  then show ?case by (subst pow2size.simps) simp
qed

lemma pow2size_self: "pow2_len n \<Longrightarrow> pow2_len p \<Longrightarrow> p \<le> n \<Longrightarrow> pow2size n p = n"
proof (induction n p rule: pow2size.induct)
  case (1 n p)
  show ?case
  proof (cases "p < n")
    case True
    from "1.prems" obtain a b where ab: "n = 2 ^ a" "p = 2 ^ b" by (auto simp: pow2_len_def)
    with True have "b < a" by simp
    then have "(2::nat) ^ Suc b \<le> 2 ^ a" by (intro power_increasing) auto
    then have "2 * p \<le> n" by (simp add: ab)
    moreover have "pow2_len (2 * p)" using pow2_double [OF "1.prems"(2)] by (simp add: mult.commute)
    ultimately show ?thesis
      using "1.IH" "1.prems" True pow2_lenD(2) [OF "1.prems"(2)] by (subst pow2size.simps) simp
  next
    case False
    with "1.prems" show ?thesis by (subst pow2size.simps) simp
  qed
qed

lemma pow2_len_min: "pow2_len MINPOWER2"
  unfolding pow2_len_def MINPOWER2_def by (rule exI [of _ 2]) simp

lemma table_create_ok:
  "table_inv (table_create n)" "tight (table_create n)" "table_map (table_create n) = Map.empty"
  "n \<le> numofnodes (table_create n)" "tdelegate (table_create n) = None"
  "pow2_len n \<Longrightarrow> numofnodes (table_create n) = n"
proof -
  let ?t = "\<lparr>tnodes = [], firstfree = 0, usednodes = 0, tdelegate = None\<rparr>"
  let ?m = "pow2size n MINPOWER2"
  have e: "table_create n = (AllocNodes ?m ?t)\<lparr>usednodes := 0\<rparr>"
    by (simp add: table_create_def AllocNodes_def)
  note f = alloc_fresh [OF pow2size_pow2 [OF pow2_len_min], of n ?t, folded e]
  show "table_inv (table_create n)" "tight (table_create n)" "table_map (table_create n) = Map.empty"
    "tdelegate (table_create n) = None" using f by simp_all
  show "n \<le> numofnodes (table_create n)"
    using f(4) pow2size_ge [of MINPOWER2 n] by (simp add: MINPOWER2_def)
  show "pow2_len n \<Longrightarrow> numofnodes (table_create n) = n"
    using f(4) pow2size_self [OF _ pow2_len_min] pow2_lenD(1) [of n] by (simp add: MINPOWER2_def)
qed

lemma node_map_cleared [simp]: "node_map (map clear_node ns) = Map.empty"
  by (induction ns) (simp_all add: node_map_def clear_node_def)

lemma table_Rehash_ok:
  assumes "pow2_len (numofnodes t)" "distinct_keys (tnodes t)"
    and "usednodes t = int (card (dom (table_map t)))" and "force \<or> table_inv t"
  shows "\<exists>t'. table_Rehash force t = Some t' \<and> table_inv t' \<and> table_map t' = table_map t \<and>
           tdelegate t' = tdelegate t"
  using rehash_ok [OF assms(1,2) _ assms(4), of 1] assms(3)
  by (simp add: table_Rehash_def table_NewSlot_def numeral_2_eq_2)

lemma table_Clear_ok:
  assumes "pow2_len (numofnodes t)"
  shows "\<exists>t'. table_Clear t = Some t' \<and> table_inv t' \<and> table_map t' = Map.empty \<and>
           tdelegate t' = tdelegate t"
  unfolding table_Clear_def
  using table_Rehash_ok [of "(ClearNodes t)\<lparr>usednodes := 0\<rparr>" True] assms
  by (simp add: ClearNodes_def distinct_keys_def key_at_def clear_node_def)

section \<open>Update and removal\<close>

lemma table_NewSlot_ok:
  assumes "table_inv t" "k \<noteq> ONull"
  shows "\<exists>b t'. table_NewSlot t k v = Some (b, t') \<and> table_inv t' \<and>
           table_map t' = (table_map t)(k \<mapsto> v) \<and> tdelegate t' = tdelegate t \<and>
           (b \<longrightarrow> k \<notin> dom (table_map t))"
  using newslot_ok [OF assms, of 0 v] by (simp add: table_NewSlot_def numeral_2_eq_2)

lemma table_Set_ok:
  assumes inv: "table_inv t" and k: "k \<noteq> ONull"
  shows "\<exists>t'. table_Set t k v = Some (k \<in> dom (table_map t), t') \<and> table_inv t' \<and>
           table_map t' = (if k \<in> dom (table_map t) then (table_map t)(k \<mapsto> v) else table_map t) \<and>
           tdelegate t' = tdelegate t"
  using tinv_pow2 [OF inv] tinv_wf [OF inv] k
proof (cases rule: node_of_cases)
  case (found i)
  have m: "table_map t k = Some (nval (tnodes t ! i))"
    by (rule table_map_found [OF tinv_distinct [OF inv] found(2,3) k])
  then have d: "k \<in> dom (table_map t)" by blast
  from insert_step_present [OF inv k d, of v] found(1) obtain t' where
    "t' = t\<lparr>tnodes := (tnodes t)[i := (tnodes t ! i)\<lparr>nval := v\<rparr>]\<rparr>" "table_inv t'"
    "table_map t' = (table_map t)(k \<mapsto> v)" by (auto simp: insert_step_def)
  with found(1) d m show ?thesis by (simp add: table_Set_def)
next
  case absent
  with table_map_absent [OF absent(2)] inv show ?thesis by (auto simp: table_Set_def)
qed

text \<open>Clearing a node keeps the chains: later keys of its chain stay reachable.\<close>

lemma clear_node_nnext [simp]: "nnext (ns[i := clear_node (ns ! i)] ! j) = nnext (ns ! j)"
proof (cases "i < length ns")
  case True
  then show ?thesis by (simp add: clear_node_def nth_list_update)
qed (simp add: list_update_beyond)

lemma clear_node_nx [simp]: "nx (ns[i := clear_node (ns ! i)]) = nx ns"
  unfolding nx_def clear_node_nnext by simp

lemma clear_node_key:
  "i < length ns \<Longrightarrow> key_at (ns[i := clear_node (ns ! i)]) j = (if j = i then ONull else key_at ns j)"
  by (simp add: key_at_def clear_node_def nth_list_update)

lemma clear_node_wf:
  assumes "wf_nodes m ns" "i < length ns"
  shows "wf_nodes m (ns[i := clear_node (ns ! i)])"
proof -
  let ?ns = "ns[i := clear_node (ns ! i)]"
  have key: "key_at ?ns j = key_at ns j \<and> j \<noteq> i" if "key_at ?ns j \<noteq> ONull" for j
    using that clear_node_key [OF assms(2), of j] by (auto split: if_splits)
  show ?thesis
    unfolding wf_nodes_def clear_node_nx length_list_update
  proof (intro conjI)
    show "\<forall>j<length ns. key_at ?ns j \<noteq> ONull \<longrightarrow> (m (key_at ?ns j), j) \<in> (nx ns)\<^sup>*"
      using key wf_reach [OF assms(1)] by metis
    show "\<forall>a<length ns. \<forall>b<length ns. key_at ?ns a \<noteq> ONull \<longrightarrow> key_at ?ns a = key_at ?ns b \<longrightarrow> a = b"
      using key wf_keys_inj [OF assms(1)] by metis
    show "\<forall>a<length ns. \<forall>b<length ns. key_at ?ns a \<noteq> ONull \<longrightarrow> m (key_at ?ns a) \<noteq> a \<longrightarrow>
            key_at ?ns b \<noteq> ONull \<longrightarrow> m (key_at ?ns b) \<noteq> a"
      using key wf_foreign [OF assms(1)] by metis
  qed (use wf_rng [OF assms(1)] wf_inj [OF assms(1)] wf_acyc [OF assms(1)] in blast)+
qed

lemma clear_node_map:
  assumes "distinct_keys ns" "i < length ns" "key_at ns i \<noteq> ONull"
  shows "node_map (ns[i := clear_node (ns ! i)]) = (node_map ns)(key_at ns i := None)"
proof (rule node_map_eqI)
  let ?ns = "ns[i := clear_node (ns ! i)]"
  note inj = assms(1) [unfolded distinct_keys_def, rule_format]
  have key: "key_at ?ns j = (if j = i then ONull else key_at ns j)" for j
    by (rule clear_node_key [OF assms(2)])
  have val: "j \<noteq> i \<Longrightarrow> nval (?ns ! j) = nval (ns ! j)" for j by simp
  show "distinct_keys ?ns"
    unfolding distinct_keys_def key length_list_update using inj by metis
  fix k v
  have "(k, v) \<in> node_pairs ?ns \<longleftrightarrow> (k, v) \<in> node_pairs ns \<and> k \<noteq> key_at ns i"
    unfolding node_pairs_iff key length_list_update using inj [OF _ assms(2)] val assms(2) by metis
  then show "((node_map ns)(key_at ns i := None)) k = Some v \<longleftrightarrow> (k, v) \<in> node_pairs ?ns"
    using node_map_iff [OF assms(1), of k v] by auto
qed

lemma table_Remove_ok:
  assumes inv: "table_inv t" and k: "k \<noteq> ONull"
  shows "\<exists>t'. table_Remove t k = Some t' \<and> table_inv t' \<and> table_map t' = (table_map t)(k := None) \<and>
           tdelegate t' = tdelegate t"
  using tinv_pow2 [OF inv] tinv_wf [OF inv] k
proof (cases rule: node_of_cases)
  case (found i)
  let ?t = "t\<lparr>tnodes := (tnodes t)[i := clear_node (tnodes t ! i)], usednodes := usednodes t - 1\<rparr>"
  have m: "table_map ?t = (table_map t)(k := None)"
    using clear_node_map [OF tinv_distinct [OF inv] found(2)] found(3) k by simp
  have d: "k \<in> dom (table_map t)"
    using table_map_found [OF tinv_distinct [OF inv] found(2,3) k] by blast
  have "Suc (card (dom (table_map ?t))) = card (dom (table_map t))"
    unfolding m using card_Suc_Diff1 [OF finite_dom_node_map d] by simp
  then have c: "int (card (dom (table_map ?t))) = usednodes t - 1"
    using tinv_used [OF inv] by linarith
  have inv': "table_inv ?t"
    using inv c clear_node_wf [OF tinv_wf [OF inv] found(2)] found(2)
    unfolding table_inv_def by (simp add: clear_node_key)
  have "table_Remove t k = table_Rehash False ?t" using found(1) by (simp add: table_Remove_def)
  with table_Rehash_ok [of ?t False] inv' tinv_pow2 [OF inv'] tinv_distinct [OF inv'] c m
  show ?thesis by simp
next
  case absent
  with table_map_absent [OF absent(2)] inv show ?thesis
    by (auto simp: table_Remove_def fun_eq_iff)
qed

end
