(* ===== verification/Table_Iteration.thy ===== *)
theory Table_Iteration
  imports Table_Operations
begin

text \<open>
  Iterating over a table with \<open>Next\<close>, cloning it (the loop of \<open>Clone\<close> is the refill loop of
  \<open>Rehash\<close>), and the compiler's lookup by C string.
\<close>

section \<open>Iteration\<close>

text \<open>The entries a loop \<open>while ((idx = Next(idx)) != -1)\<close> visits, in order.\<close>

definition used_entries :: "hnode list \<Rightarrow> (lvobj \<times> lvobj) list" where
  "used_entries ns = map (\<lambda>n. (nkey n, nval n)) (filter (\<lambda>n. nkey n \<noteq> ONull) ns)"

lemma drop_Cons: "i < length xs \<Longrightarrow> drop i xs = xs ! i # drop (Suc i) xs"
  by (simp add: Cons_nth_drop_Suc)

lemma next_from_skip:
  "idx < numofnodes t \<Longrightarrow> nkey (tnodes t ! idx) = ONull \<Longrightarrow> next_from g wr t idx = next_from g wr t (Suc idx)"
  by (simp add: next_from_def upt_conv_Cons)

lemma next_from_here:
  "idx < numofnodes t \<Longrightarrow> nkey (tnodes t ! idx) \<noteq> ONull \<Longrightarrow>
   next_from g wr t idx = Some (Suc idx, nkey (tnodes t ! idx),
     if g then nval (tnodes t ! idx) else realval wr (nval (tnodes t ! idx)))"
  by (simp add: next_from_def upt_conv_Cons)

lemma next_from_end: "numofnodes t \<le> idx \<Longrightarrow> next_from g wr t idx = None"
  by (simp add: next_from_def)

partial_function (option) table_walk ::
  "bool \<Rightarrow> weak_store \<Rightarrow> lvtable \<Rightarrow> nat \<Rightarrow> (lvobj \<times> lvobj) list option" where
  "table_walk g wr t idx =
     (case next_from g wr t idx of
        None \<Rightarrow> Some []
      | Some (idx', k, v) \<Rightarrow> do { es \<leftarrow> table_walk g wr t idx'; Some ((k, v) # es) })"

declare table_walk.simps [code]

lemma table_walk_entries:
  "table_walk g wr t idx =
     Some (map (\<lambda>(k, v). (k, if g then v else realval wr v)) (used_entries (drop idx (tnodes t))))"
proof (induction "numofnodes t - idx" arbitrary: idx)
  case 0
  then show ?case by (simp add: table_walk.simps [of g wr t idx] next_from_end used_entries_def)
next
  case (Suc n)
  then have lt: "idx < numofnodes t" and ih: "n = numofnodes t - Suc idx" by simp_all
  note IH = Suc.hyps(1) [OF ih]
  show ?case
  proof (cases "nkey (tnodes t ! idx) = ONull")
    case True
    have "table_walk g wr t idx = table_walk g wr t (Suc idx)"
      by (simp add: table_walk.simps [of g wr t idx] table_walk.simps [of g wr t "Suc idx"]
          next_from_skip [OF lt True])
    with IH True show ?thesis by (simp add: drop_Cons [OF lt] used_entries_def)
  next
    case False
    with IH show ?thesis
      by (simp add: table_walk.simps [of g wr t idx] next_from_here [OF lt False] drop_Cons [OF lt]
          used_entries_def)
  qed
qed

lemma used_entries_map: "map_of (used_entries ns) = node_map ns"
  by (simp add: used_entries_def node_map_def)

lemma used_entries_distinct: "distinct_keys ns \<Longrightarrow> distinct (map fst (used_entries ns))"
proof (induction ns)
  case (Cons n ns)
  have d: "distinct_keys ns"
    using Cons.prems unfolding distinct_keys_def key_at_def
    by (metis Suc_less_eq length_Cons nat.inject nth_Cons_Suc)
  have "nkey n \<notin> nkey ` set ns" if "nkey n \<noteq> ONull"
  proof
    assume "nkey n \<in> nkey ` set ns"
    then obtain j where j: "j < length ns" "nkey (ns ! j) = nkey n" by (auto simp: in_set_conv_nth)
    with Cons.prems [unfolded distinct_keys_def key_at_def, rule_format, of 0 "Suc j"] that
    show False by simp
  qed
  with Cons.IH [OF d] show ?case by (auto simp: used_entries_def)
qed (simp add: used_entries_def)

section \<open>Cloning\<close>

text \<open>The loop of \<open>Clone\<close> is the refill loop of \<open>Rehash\<close>.\<close>

lemma clone_loop_reinsert:
  "clone_loop wr t idx nt = reinsert table_NewSlot (drop idx (tnodes t)) nt"
proof (induction "numofnodes t - idx" arbitrary: idx nt)
  case 0
  then show ?case by (simp add: clone_loop.simps [of wr t idx] next_from_end)
next
  case (Suc n)
  then have lt: "idx < numofnodes t" and ih: "n = numofnodes t - Suc idx" by simp_all
  note IH = Suc.hyps(1) [OF ih]
  show ?case
  proof (cases "nkey (tnodes t ! idx) = ONull")
    case True
    have "clone_loop wr t idx nt = clone_loop wr t (Suc idx) nt"
      by (simp add: clone_loop.simps [of wr t idx] clone_loop.simps [of wr t "Suc idx"]
          next_from_skip [OF lt True])
    with IH True show ?thesis by (simp add: drop_Cons [OF lt])
  next
    case False
    then show ?thesis
      by (simp add: clone_loop.simps [of wr t idx] next_from_here [OF lt False] drop_Cons [OF lt] IH
          split_def)
  qed
qed

lemma reinsert_any:
  assumes "table_inv t" "distinct_keys ns"
  shows "\<exists>t'. reinsert table_NewSlot ns t = Some t' \<and> table_inv t' \<and>
           table_map t' = table_map t ++ node_map ns \<and> tdelegate t' = tdelegate t"
  using assms
proof (induction ns arbitrary: t)
  case Nil
  then show ?case by (simp add: node_map_def)
next
  case (Cons n ns)
  have dk: "distinct_keys ns"
    using Cons.prems(2) unfolding distinct_keys_def key_at_def
    by (metis Suc_less_eq length_Cons nat.inject nth_Cons_Suc)
  show ?case
  proof (cases "nkey n = ONull")
    case True
    then have nm: "node_map (n # ns) = node_map ns" by (simp add: node_map_def)
    from Cons.IH [OF Cons.prems(1) dk] show ?thesis by (simp add: nm True)
  next
    case False
    then have nm: "node_map (n # ns) = (node_map ns)(nkey n \<mapsto> nval n)" by (simp add: node_map_def)
    have "nkey n \<notin> dom (node_map ns)"
      using used_entries_distinct [OF Cons.prems(2)] False
      by (auto simp: used_entries_def dom_node_map)
    moreover from table_NewSlot_ok [OF Cons.prems(1) False, of "nval n"] obtain b t1 where
      t1: "table_NewSlot t (nkey n) (nval n) = Some (b, t1)" "table_inv t1"
      "table_map t1 = (table_map t)(nkey n \<mapsto> nval n)" "tdelegate t1 = tdelegate t" by blast
    moreover from Cons.IH [OF t1(2) dk] obtain t2 where
      t2: "reinsert table_NewSlot ns t1 = Some t2" "table_inv t2"
      "table_map t2 = table_map t1 ++ node_map ns" "tdelegate t2 = tdelegate t1" by blast
    ultimately have "table_map t2 = table_map t ++ node_map (n # ns)"
      by (auto simp: nm map_add_def fun_eq_iff domIff split: option.split)
    with t1 t2 False show ?thesis by simp
  qed
qed

lemma table_Clone_ok:
  assumes "table_inv t"
  shows "\<exists>t'. table_Clone wr t = Some t' \<and> table_inv t' \<and> table_map t' = table_map t \<and>
           tdelegate t' = tdelegate t"
proof -
  from reinsert_any [OF table_create_ok(1) tinv_distinct [OF assms], of "numofnodes t"]
  obtain nt where "reinsert table_NewSlot (tnodes t) (table_create (numofnodes t)) = Some nt"
    "table_inv nt" "table_map nt = table_map t" by (auto simp: table_create_ok(3))
  then show ?thesis
    by (auto simp: table_Clone_def clone_loop_reinsert table_inv_def)
qed

section \<open>Lookup by C string\<close>

definition nul_free :: "string \<Rightarrow> bool" where
  "nul_free s \<longleftrightarrow> CHR 0x00 \<notin> set s"

lemma c_string_nul_free: "nul_free s \<Longrightarrow> c_string s = s"
  unfolding c_string_def nul_free_def by (simp add: takeWhile_eq_all_conv) metis

lemma find_str_find_node:
  assumes "acyclic (nx ns)" and rng: "\<forall>(i, j) \<in> nx ns. j < length ns" and "i < length ns"
    and "nul_free s" and keys: "\<forall>n \<in> set ns. \<forall>s'. nkey n = OString s' \<longrightarrow> nul_free s'"
  shows "find_str ns s i = find_node ns (OString s) i"
  using assms(3)
proof (induction i rule: wf_induct_rule [OF wf_nx [OF assms(1)]])
  case (1 i)
  have "nul_free s'" if "nkey (ns ! i) = OString s'" for s'
    using keys "1.prems" that nth_mem by metis
  then have "(case nkey (ns ! i) of OString s' \<Rightarrow> c_string s' = c_string s | _ \<Rightarrow> False) \<longleftrightarrow>
        nkey (ns ! i) = OString s"
    using assms(4) by (auto simp: c_string_nul_free split: lvobj.split)
  moreover have "find_str ns s j = find_node ns (OString s) j" if "nnext (ns ! i) = Some j" for j
  proof -
    have "(i, j) \<in> nx ns" using that "1.prems" by (simp add: nx_def)
    with "1.IH" [of j] rng show ?thesis by auto
  qed
  ultimately show ?case
    using "1.prems"
    by (simp add: find_str.simps [of ns s i] find_node.simps [of ns "OString s" i] split: option.split)
qed

lemma table_GetStr_Get:
  assumes "table_inv t" "nul_free s"
    "\<forall>n \<in> set (tnodes t). \<forall>s'. nkey n = OString s' \<longrightarrow> nul_free s'"
  shows "table_GetStr wr t s = table_Get wr t (OString s)"
proof -
  have rng: "\<forall>(i, j) \<in> nx (tnodes t). j < numofnodes t" using wf_rng [OF tinv_wf [OF assms(1)]] by blast
  have "slot_of (numofnodes t) (OString s) < numofnodes t"
    by (rule slot_of_pow2 [OF tinv_pow2 [OF assms(1)]])
  from find_str_find_node [OF wf_acyc [OF tinv_wf [OF assms(1)]] rng this assms(2,3)]
  show ?thesis by (simp add: table_GetStr_def table_Get_def node_of_def slot_of_def)
qed

end
