(* ===== verification/Key_Maps.thy ===== *)
theory Key_Maps
  imports Prelude
begin

text \<open>
  The contract between the object hash table and the components that keep their names in one (the
  literal pool of the compiler, the keyword table of the lexer): what \<open>lookup\<close>, \<open>store\<close> and
  \<open>delete\<close> do to the contents, for the keys the provider accepts. \<open>view\<close> is what a lookup shows of
  a stored value. An operation gives \<open>None\<close> where the code would not return.
\<close>

locale key_map =
  fixes inv :: "'t \<Rightarrow> bool"
    and contents :: "'t \<Rightarrow> 'k \<Rightarrow> 'v option"
    and valid :: "'k \<Rightarrow> bool"
    and view :: "'v \<Rightarrow> 'v"
    and lookup :: "'t \<Rightarrow> 'k \<Rightarrow> 'v option option"
    and store :: "'t \<Rightarrow> 'k \<Rightarrow> 'v \<Rightarrow> (bool \<times> 't) option"
    and delete :: "'t \<Rightarrow> 'k \<Rightarrow> 't option"
  assumes lookup_law: "inv t \<Longrightarrow> valid k \<Longrightarrow> lookup t k = Some (map_option view (contents t k))"
    and store_law: "inv t \<Longrightarrow> valid k \<Longrightarrow>
      \<exists>b t'. store t k v = Some (b, t') \<and> inv t' \<and> contents t' = (contents t)(k \<mapsto> v)"
    and delete_law: "inv t \<Longrightarrow> valid k \<Longrightarrow>
      \<exists>t'. delete t k = Some t' \<and> inv t' \<and> contents t' = (contents t)(k := None)"
begin

lemma lookup_after_store:
  assumes "inv t" "valid k" "valid k'" "store t k v = Some (b, t')"
  shows "lookup t' k' = (if k' = k then Some (Some (view v)) else lookup t k')"
  using store_law [OF assms(1,2), of v] assms lookup_law by auto

lemma lookup_after_delete:
  assumes "inv t" "valid k" "valid k'" "delete t k = Some t'"
  shows "lookup t' k' = (if k' = k then Some None else lookup t k')"
  using delete_law [OF assms(1,2)] assms lookup_law by auto

lemma store_keeps_inv:
  "inv t \<Longrightarrow> valid k \<Longrightarrow> store t k v = Some (b, t') \<Longrightarrow> inv t'"
  using store_law [of t k v] by auto

lemma store_total: "inv t \<Longrightarrow> valid k \<Longrightarrow> \<exists>b t'. store t k v = Some (b, t')"
  using store_law [of t k v] by blast

lemma lookup_none_iff: "inv t \<Longrightarrow> valid k \<Longrightarrow> lookup t k = Some None \<longleftrightarrow> contents t k = None"
  by (simp add: lookup_law)

end

end
