(* ===== verification/Table_Contract.thy ===== *)
theory Table_Contract
  imports Table_Iteration Key_Maps
begin

text \<open>
  The contract of a table towards the rest of the machine: histories of operations refine
  histories of a finite map, and the table provides the interface \<open>key_map\<close>.
\<close>

section \<open>Histories\<close>

datatype table_op =
    TNew lvobj lvobj | TSet lvobj lvobj | TRemove lvobj | TClear | TRehash bool | TClone

fun table_step :: "weak_store \<Rightarrow> lvtable \<Rightarrow> table_op \<Rightarrow> lvtable option" where
  "table_step wr t (TNew k v) = map_option snd (table_NewSlot t k v)"
| "table_step wr t (TSet k v) = map_option snd (table_Set t k v)"
| "table_step wr t (TRemove k) = table_Remove t k"
| "table_step wr t TClear = table_Clear t"
| "table_step wr t (TRehash force) = table_Rehash force t"
| "table_step wr t TClone = table_Clone wr t"

fun table_run :: "weak_store \<Rightarrow> lvtable \<Rightarrow> table_op list \<Rightarrow> lvtable option" where
  "table_run wr t [] = Some t"
| "table_run wr t (p # ps) = do { t' \<leftarrow> table_step wr t p; table_run wr t' ps }"

text \<open>The same history on a map, and the operations it is meant for.\<close>

fun map_step :: "(lvobj \<rightharpoonup> lvobj) \<Rightarrow> table_op \<Rightarrow> (lvobj \<rightharpoonup> lvobj)" where
  "map_step m (TNew k v) = m(k \<mapsto> v)"
| "map_step m (TSet k v) = (if k \<in> dom m then m(k \<mapsto> v) else m)"
| "map_step m (TRemove k) = m(k := None)"
| "map_step m TClear = Map.empty"
| "map_step m (TRehash force) = m"
| "map_step m TClone = m"

fun op_valid :: "table_op \<Rightarrow> bool" where
  "op_valid (TNew k v) \<longleftrightarrow> k \<noteq> ONull"
| "op_valid (TSet k v) \<longleftrightarrow> k \<noteq> ONull"
| "op_valid (TRemove k) \<longleftrightarrow> k \<noteq> ONull"
| "op_valid _ \<longleftrightarrow> True"

lemma table_step_refines:
  assumes "table_inv t" "op_valid p"
  shows "\<exists>t'. table_step wr t p = Some t' \<and> table_inv t' \<and> table_map t' = map_step (table_map t) p \<and>
           tdelegate t' = tdelegate t"
proof (cases p)
  case (TNew k v)
  with table_NewSlot_ok [of t k v] assms show ?thesis by auto
next
  case (TSet k v)
  with table_Set_ok [of t k v] assms show ?thesis by auto
next
  case (TRemove k)
  with table_Remove_ok [of t k] assms show ?thesis by auto
next
  case TClear
  with table_Clear_ok [OF tinv_pow2 [OF assms(1)]] show ?thesis by auto
next
  case (TRehash force)
  with table_Rehash_ok [OF tinv_pow2 [OF assms(1)] tinv_distinct [OF assms(1)] tinv_used [OF assms(1)]]
    assms(1) show ?thesis by auto
next
  case TClone
  with table_Clone_ok [OF assms(1)] show ?thesis by auto
qed

lemma table_run_refines:
  assumes "table_inv t" "\<forall>p \<in> set ps. op_valid p"
  shows "\<exists>t'. table_run wr t ps = Some t' \<and> table_inv t' \<and>
           table_map t' = fold (\<lambda>p m. map_step m p) ps (table_map t)"
  using assms
proof (induction ps arbitrary: t)
  case (Cons p ps)
  with table_step_refines [of t p wr] obtain t1 where
    "table_step wr t p = Some t1" "table_inv t1" "table_map t1 = map_step (table_map t) p" by auto
  with Cons.IH [of t1] Cons.prems show ?case by auto
qed simp

interpretation tab: key_map table_inv table_map "\<lambda>k. k \<noteq> ONull" "realval wr" "table_Get wr"
  table_NewSlot table_Remove for wr
proof unfold_locales
  fix t :: lvtable and k v :: lvobj
  assume t: "table_inv t"
  then show "table_Get wr t k = Some (map_option (realval wr) (table_map t k))" by (rule table_Get_map)
  assume k: "k \<noteq> ONull"
  show "\<exists>b t'. table_NewSlot t k v = Some (b, t') \<and> table_inv t' \<and> table_map t' = (table_map t)(k \<mapsto> v)"
    using table_NewSlot_ok [OF t k, of v] by blast
  show "\<exists>t'. table_Remove t k = Some t' \<and> table_inv t' \<and> table_map t' = (table_map t)(k := None)"
    using table_Remove_ok [OF t k] by blast
qed

section \<open>Properties\<close>

text \<open>
  C1: every history of \<open>NewSlot\<close>, \<open>Set\<close>, \<open>Remove\<close>, \<open>Clear\<close>, \<open>Rehash\<close> and \<open>Clone\<close> calls with
  non-null keys, on a table created with any initial size, returns; after it, \<open>Get\<close> of every key
  returns what the same history leaves in a finite map (read through weak references), and
  \<open>CountUsed\<close> the number of its keys.
\<close>

theorem table_history_refines_map:
  assumes "\<forall>p \<in> set ps. op_valid p"
  shows "\<exists>t. table_run wr (table_create n) ps = Some t \<and>
           table_CountUsed t = int (card (dom (fold (\<lambda>p m. map_step m p) ps Map.empty))) \<and>
           (\<forall>k. table_Get wr t k =
             Some (map_option (realval wr) (fold (\<lambda>p m. map_step m p) ps Map.empty k)))"
  using table_run_refines [OF table_create_ok(1) assms, of wr n]
  by (auto simp: table_create_ok(3) table_Get_map tinv_used table_CountUsed_def)

lemma table_history_refines_map_witness:
  "\<exists>t. table_run (\<lambda>_. ONull) (table_create 0)
         [TNew (OInteger 3) (OBool 1), TNew (OInteger 7) (OBool 0), TRemove (OInteger 3)] = Some t \<and>
       table_Get (\<lambda>_. ONull) t (OInteger 7) = Some (Some (OBool 0))"
  using table_history_refines_map
    [of "[TNew (OInteger 3) (OBool 1), TNew (OInteger 7) (OBool 0), TRemove (OInteger 3)]" "\<lambda>_. ONull" 0]
  by auto

text \<open>
  C17: the mutual recursion of \<open>NewSlot\<close> and \<open>Rehash\<close> is at most two calls deep: with any larger
  bound the insertion returns the same table, and it does return.
\<close>

theorem table_NewSlot_depth:
  assumes "table_inv t" "k \<noteq> ONull" "2 \<le> d"
  shows "newslot_d d t k v = table_NewSlot t k v \<and> table_NewSlot t k v \<noteq> None"
  using newslot_depth_enough [OF assms] table_NewSlot_ok [OF assms(1,2), of v] by auto

lemma table_NewSlot_depth_witness:
  "newslot_d 5 (table_create 0) (OString ''x'') (OInteger 1) =
     table_NewSlot (table_create 0) (OString ''x'') (OInteger 1)"
  using table_NewSlot_depth [OF table_create_ok(1), of "OString ''x''" 5 0 "OInteger 1"] by simp

text \<open>
  C10: iterating with \<open>Next\<close> from index 0 visits every key of the table exactly once, with its
  value, and ends.
\<close>

theorem table_Next_enumerates:
  assumes "table_inv t"
  shows "\<exists>es. table_walk True wr t 0 = Some es \<and> distinct (map fst es) \<and> map_of es = table_map t \<and>
           table_walk False wr t 0 = Some (map (\<lambda>(k, v). (k, realval wr v)) es)"
  using used_entries_distinct [OF tinv_distinct [OF assms]]
  by (auto simp: table_walk_entries used_entries_map)

lemma table_Next_enumerates_witness:
  "\<exists>es. table_walk True (\<lambda>_. ONull) (table_create 7) 0 = Some es \<and> map_of es = Map.empty"
  using table_Next_enumerates [OF table_create_ok(1), of "\<lambda>_. ONull" 7] by (auto simp: table_create_ok(3))

text \<open>
  C18: the compiler's lookup by C string agrees with the lookup by string object, for names and
  keys without NUL characters.
\<close>

theorem table_GetStr_is_Get:
  assumes "table_inv t" "nul_free s"
    and "\<forall>n \<in> set (tnodes t). \<forall>s'. nkey n = OString s' \<longrightarrow> nul_free s'"
  shows "table_GetStr wr t s = table_Get wr t (OString s)"
  by (rule table_GetStr_Get [OF assms])

lemma table_GetStr_is_Get_witness:
  "table_GetStr (\<lambda>_. ONull) (table_create 4) ''while'' =
     table_Get (\<lambda>_. ONull) (table_create 4) (OString ''while'')"
proof (rule table_GetStr_is_Get [OF table_create_ok(1)])
  show "nul_free ''while''" by (simp add: nul_free_def)
  show "\<forall>n \<in> set (tnodes (table_create 4)). \<forall>s'. nkey n = OString s' \<longrightarrow> nul_free s'"
    by (simp add: table_create_def AllocNodes_def empty_node_def)
qed

section \<open>Behaviour at the edges\<close>

text \<open>
  The return value of \<open>NewSlot\<close> does not say whether a slot was created: the insertion that finds
  the array full rehashes, and the retry then finds the key in place.
\<close>

lemma NewSlot_false_on_new_key:
  "map_option fst (do {
     t \<leftarrow> table_run (\<lambda>_. ONull) (table_create 4)
            [TNew (OInteger 0) ONull, TNew (OInteger 1) ONull, TNew (OInteger 2) ONull];
     table_NewSlot t (OInteger 3) ONull }) = Some False"
  by code_simp

text \<open>\<open>Set\<close> with the null key finds a free node, writes its value and reports success.\<close>

lemma Set_null_writes_free_node:
  "map_option (\<lambda>(b, t). (b, nval (tnodes t ! 0))) (table_Set (table_create 4) ONull (OInteger 9)) =
     Some (True, OInteger 9)"
  by code_simp

text \<open>\<open>Remove\<close> of the null key on an empty table makes the number of used nodes negative.\<close>

lemma Remove_null_miscounts:
  "map_option table_CountUsed (table_Remove (table_create 4) ONull) = Some (- 1)"
  by code_simp

end
