(* ===== verification/Arrays.thy ===== *)
theory Arrays
  imports Objects
begin

text \<open>
  The growable vector (\<open>lvvector\<close>, \<^verbatim>\<open>src/utils.h\<close>) and the array object on it
  (\<^verbatim>\<open>src/array.h\<close>, \<open>Extend\<close> of \<^verbatim>\<open>src/object.cpp\<close>): sizes, capacities, and the histories of
  array operations as histories of list operations.
\<close>

section \<open>Vectors\<close>

text \<open>
  The constructed elements and the number of elements allocated. Where the code would touch
  memory outside the elements, or reallocate elements away, the result is \<open>None\<close>.
\<close>

record 'a lvvec =
  vvals :: "'a list"
  vcap :: nat

abbreviation vsize :: "'a lvvec \<Rightarrow> nat" where
  "vsize v \<equiv> length (vvals v)"

definition vec_empty :: "'a lvvec" where
  "vec_empty = \<lparr>vvals = [], vcap = 0\<rparr>"

definition vec_realloc :: "nat \<Rightarrow> 'a lvvec \<Rightarrow> 'a lvvec option" where
  "vec_realloc n v =
     (let n = (if n > 0 then n else 4) in if n < vsize v then None else Some (v\<lparr>vcap := n\<rparr>))"

definition vec_resize :: "nat \<Rightarrow> 'a \<Rightarrow> 'a lvvec \<Rightarrow> 'a lvvec option" where
  "vec_resize n x v = do {
     v \<leftarrow> (if n > vcap v then vec_realloc n v else Some v);
     Some (if n > vsize v then v\<lparr>vvals := vvals v @ replicate (n - vsize v) x\<rparr>
           else v\<lparr>vvals := take n (vvals v)\<rparr>)
   }"

definition vec_copy :: "'a lvvec \<Rightarrow> 'a lvvec \<Rightarrow> 'a lvvec option" where
  "vec_copy src dst = do {
     let dst = dst\<lparr>vvals := []\<rparr>;
     dst \<leftarrow> (if vsize src > vcap dst then vec_realloc (vsize src) dst else Some dst);
     Some (dst\<lparr>vvals := vvals src\<rparr>)
   }"

definition vec_shrinktofit :: "'a lvvec \<Rightarrow> 'a lvvec option" where
  "vec_shrinktofit v = (if vsize v > 4 then vec_realloc (vsize v) v else Some v)"

definition vec_push_back :: "'a \<Rightarrow> 'a lvvec \<Rightarrow> 'a lvvec option" where
  "vec_push_back x v = do {
     v \<leftarrow> (if vcap v \<le> vsize v then vec_realloc (vsize v * 2) v else Some v);
     Some (v\<lparr>vvals := vvals v @ [x]\<rparr>)
   }"

definition vec_pop_back :: "'a lvvec \<Rightarrow> 'a lvvec option" where
  "vec_pop_back v = (if vvals v = [] then None else Some (v\<lparr>vvals := butlast (vvals v)\<rparr>))"

definition vec_top :: "'a lvvec \<Rightarrow> 'a option" where
  "vec_top v = (if vvals v = [] then None else Some (last (vvals v)))"

text \<open>The loop of \<open>insert\<close> moves the elements up, from the last one down to \<open>idx\<close>.\<close>

fun shift_up :: "nat \<Rightarrow> nat \<Rightarrow> 'a list \<Rightarrow> 'a list" where
  "shift_up idx 0 xs = xs"
| "shift_up idx (Suc i) xs =
     (if Suc i > idx then shift_up idx i (xs[Suc i := xs ! i]) else xs)"

definition vec_insert :: "nat \<Rightarrow> 'a \<Rightarrow> 'a \<Rightarrow> 'a lvvec \<Rightarrow> 'a lvvec option" where
  "vec_insert idx fill x v =
     (if idx > vsize v then None
      else do {
        v \<leftarrow> vec_resize (vsize v + 1) fill v;
        Some (v\<lparr>vvals := (shift_up idx (vsize v - 1) (vvals v))[idx := x]\<rparr>)
      })"

definition vec_remove :: "nat \<Rightarrow> 'a lvvec \<Rightarrow> 'a lvvec option" where
  "vec_remove idx v =
     (if idx < vsize v then Some (v\<lparr>vvals := take idx (vvals v) @ drop (idx + 1) (vvals v)\<rparr>)
      else None)"

subsection \<open>Their sizes and contents\<close>

definition vec_ok :: "'a lvvec \<Rightarrow> bool" where
  "vec_ok v \<longleftrightarrow> vsize v \<le> vcap v"

lemma vec_empty_ok [simp]: "vec_ok vec_empty"
  by (simp add: vec_ok_def vec_empty_def)

lemma vec_resize_ok:
  "vec_ok v \<Longrightarrow> \<exists>v'. vec_resize n x v = Some v' \<and> vec_ok v' \<and>
     vvals v' = take n (vvals v) @ replicate (n - vsize v) x"
  by (auto simp: vec_ok_def vec_resize_def vec_realloc_def Let_def)

lemma vec_push_back_ok:
  "vec_ok v \<Longrightarrow> \<exists>v'. vec_push_back x v = Some v' \<and> vec_ok v' \<and> vvals v' = vvals v @ [x]"
  by (cases "vvals v") (auto simp: vec_ok_def vec_push_back_def vec_realloc_def Let_def)

lemma vec_pop_back_ok:
  "vec_ok v \<Longrightarrow> vvals v \<noteq> [] \<Longrightarrow>
     \<exists>v'. vec_pop_back v = Some v' \<and> vec_ok v' \<and> vvals v' = butlast (vvals v)"
  by (auto simp: vec_ok_def vec_pop_back_def)

lemma vec_remove_ok:
  "vec_ok v \<Longrightarrow> i < vsize v \<Longrightarrow>
     \<exists>v'. vec_remove i v = Some v' \<and> vec_ok v' \<and> vvals v' = take i (vvals v) @ drop (i + 1) (vvals v)"
  by (auto simp: vec_ok_def vec_remove_def)

lemma vec_shrinktofit_ok:
  "vec_ok v \<Longrightarrow> \<exists>v'. vec_shrinktofit v = Some v' \<and> vec_ok v' \<and> vvals v' = vvals v"
  by (auto simp: vec_ok_def vec_shrinktofit_def vec_realloc_def Let_def)

lemma vec_copy_ok:
  "\<exists>v'. vec_copy src dst = Some v' \<and> vec_ok v' \<and> vvals v' = vvals src"
  by (auto simp: vec_ok_def vec_copy_def vec_realloc_def Let_def)

lemma shift_up_length [simp]: "length (shift_up idx i xs) = length xs"
  by (induction i arbitrary: xs) auto

lemma shift_up_nth:
  "i < length xs \<Longrightarrow> j < length xs \<Longrightarrow>
     shift_up idx i xs ! j = (if idx < j \<and> j \<le> i then xs ! (j - 1) else xs ! j)"
  by (induction i arbitrary: xs) (auto simp: nth_list_update le_Suc_eq)

lemma vec_insert_ok:
  assumes "vec_ok v" "idx \<le> vsize v"
  shows "\<exists>v'. vec_insert idx fill x v = Some v' \<and> vec_ok v' \<and>
           vvals v' = take idx (vvals v) @ x # drop idx (vvals v)"
proof -
  from vec_resize_ok [OF assms(1), of "vsize v + 1" fill] obtain w where
    w: "vec_resize (vsize v + 1) fill v = Some w" "vec_ok w" "vvals w = vvals v @ [fill]" by auto
  have "(shift_up idx (vsize w - 1) (vvals w))[idx := x] = take idx (vvals v) @ x # drop idx (vvals v)"
  proof (rule nth_equalityI)
    fix j assume "j < length ((shift_up idx (vsize w - 1) (vvals w))[idx := x])"
    then have j: "j < vsize w" by simp
    then show "(shift_up idx (vsize w - 1) (vvals w))[idx := x] ! j =
        (take idx (vvals v) @ x # drop idx (vvals v)) ! j"
      using assms(2) w(3)
      by (auto simp: nth_list_update shift_up_nth nth_append nth_Cons' min_def not_less)
  qed (use assms(2) w(3) in simp)
  with w assms show ?thesis by (simp add: vec_insert_def vec_ok_def)
qed

section \<open>Arrays\<close>

type_synonym lvarray = "lvobj lvvec"

definition array_Create :: "nat \<Rightarrow> lvarray option" where
  "array_Create n = vec_resize n ONull vec_empty"

definition array_Finalize :: "lvarray \<Rightarrow> lvarray option" where
  "array_Finalize a = vec_resize 0 ONull a"

definition array_Get :: "weak_store \<Rightarrow> lvarray \<Rightarrow> int \<Rightarrow> lvobj option" where
  "array_Get wr a nidx =
     (if nidx \<ge> 0 \<and> nidx < int (vsize a) then Some (realval wr (vvals a ! nat nidx)) else None)"

definition array_Set :: "lvarray \<Rightarrow> int \<Rightarrow> lvobj \<Rightarrow> bool \<times> lvarray" where
  "array_Set a nidx v =
     (if nidx \<ge> 0 \<and> nidx < int (vsize a)
      then (True, a\<lparr>vvals := (vvals a)[nat nidx := v]\<rparr>) else (False, a))"

definition array_Next ::
  "weak_store \<Rightarrow> lvarray \<Rightarrow> lvobj \<Rightarrow> (u64 \<times> lvobj \<times> lvobj) option option" where
  "array_Next wr a refpos = do {
     idx \<leftarrow> TranslateIndex refpos;
     Some (if unat idx < vsize a
           then Some (idx + 1, OInteger idx, realval wr (vvals a ! unat idx)) else None)
   }"

definition array_Clone :: "lvarray \<Rightarrow> lvarray option" where
  "array_Clone a = do { b \<leftarrow> array_Create 0; vec_copy a b }"

definition ShrinkIfNeeded :: "lvarray \<Rightarrow> lvarray option" where
  "ShrinkIfNeeded a = (if vsize a \<le> drop_bit 2 (vcap a) then vec_shrinktofit a else Some a)"

definition array_Resize :: "nat \<Rightarrow> lvobj \<Rightarrow> lvarray \<Rightarrow> lvarray option" where
  "array_Resize n fill a = do { a \<leftarrow> vec_resize n fill a; ShrinkIfNeeded a }"

definition array_Reserve :: "nat \<Rightarrow> lvarray \<Rightarrow> lvarray option" where
  "array_Reserve n a = vec_realloc n a"

definition array_Append :: "lvobj \<Rightarrow> lvarray \<Rightarrow> lvarray option" where
  "array_Append v a = vec_push_back v a"

primrec append_all :: "lvobj list \<Rightarrow> lvarray \<Rightarrow> lvarray option" where
  "append_all [] a = Some a"
| "append_all (v # vs) a = do { a \<leftarrow> array_Append v a; append_all vs a }"

definition array_Extend :: "lvarray \<Rightarrow> lvarray \<Rightarrow> lvarray option" where
  "array_Extend b a = append_all (vvals b) a"

definition array_Pop :: "lvarray \<Rightarrow> lvarray option" where
  "array_Pop a = do { a \<leftarrow> vec_pop_back a; ShrinkIfNeeded a }"

definition array_Insert :: "int \<Rightarrow> lvobj \<Rightarrow> lvarray \<Rightarrow> (bool \<times> lvarray) option" where
  "array_Insert idx v a =
     (if idx < 0 \<or> idx > int (vsize a) then Some (False, a)
      else do { a \<leftarrow> vec_insert (nat idx) ONull v a; Some (True, a) })"

definition array_Remove :: "int \<Rightarrow> lvarray \<Rightarrow> (bool \<times> lvarray) option" where
  "array_Remove idx a =
     (if idx < 0 \<or> idx \<ge> int (vsize a) then Some (False, a)
      else do { a \<leftarrow> vec_remove (nat idx) a; a \<leftarrow> ShrinkIfNeeded a; Some (True, a) })"

section \<open>Histories of array operations\<close>

datatype array_op =
    AAppend lvobj | AInsert int lvobj | ARemove int | AResize nat lvobj | APop | ASet int lvobj
  | AExtend lvarray | AClone

fun array_step :: "lvarray \<Rightarrow> array_op \<Rightarrow> lvarray option" where
  "array_step a (AAppend v) = array_Append v a"
| "array_step a (AInsert i v) = map_option snd (array_Insert i v a)"
| "array_step a (ARemove i) = map_option snd (array_Remove i a)"
| "array_step a (AResize n v) = array_Resize n v a"
| "array_step a APop = array_Pop a"
| "array_step a (ASet i v) = Some (snd (array_Set a i v))"
| "array_step a (AExtend b) = array_Extend b a"
| "array_step a AClone = array_Clone a"

fun array_run :: "lvarray \<Rightarrow> array_op list \<Rightarrow> lvarray option" where
  "array_run a [] = Some a"
| "array_run a (p # ps) = do { a' \<leftarrow> array_step a p; array_run a' ps }"

fun list_step :: "lvobj list \<Rightarrow> array_op \<Rightarrow> lvobj list option" where
  "list_step xs (AAppend v) = Some (xs @ [v])"
| "list_step xs (AInsert i v) =
     Some (if 0 \<le> i \<and> i \<le> int (length xs) then take (nat i) xs @ v # drop (nat i) xs else xs)"
| "list_step xs (ARemove i) =
     Some (if 0 \<le> i \<and> i < int (length xs) then take (nat i) xs @ drop (nat i + 1) xs else xs)"
| "list_step xs (AResize n v) = Some (take n xs @ replicate (n - length xs) v)"
| "list_step xs APop = (if xs = [] then None else Some (butlast xs))"
| "list_step xs (ASet i v) = Some (if 0 \<le> i \<and> i < int (length xs) then xs[nat i := v] else xs)"
| "list_step xs (AExtend b) = Some (xs @ vvals b)"
| "list_step xs AClone = Some xs"

fun list_run :: "lvobj list \<Rightarrow> array_op list \<Rightarrow> lvobj list option" where
  "list_run xs [] = Some xs"
| "list_run xs (p # ps) = do { xs' \<leftarrow> list_step xs p; list_run xs' ps }"

lemma ShrinkIfNeeded_ok:
  "vec_ok a \<Longrightarrow> \<exists>a'. ShrinkIfNeeded a = Some a' \<and> vec_ok a' \<and> vvals a' = vvals a \<and>
     (vsize a' \<le> 4 \<or> vcap a' < 4 * vsize a')"
  by (auto simp: ShrinkIfNeeded_def vec_ok_def vec_shrinktofit_def vec_realloc_def Let_def
      drop_bit_eq_div)

lemma append_all_ok:
  "vec_ok a \<Longrightarrow> \<exists>a'. append_all vs a = Some a' \<and> vec_ok a' \<and> vvals a' = vvals a @ vs"
proof (induction vs arbitrary: a)
  case (Cons v vs)
  from vec_push_back_ok [OF Cons.prems, of v] obtain b where
    b: "vec_push_back v a = Some b" "vec_ok b" "vvals b = vvals a @ [v]" by blast
  with Cons.IH [OF b(2)] show ?case by (simp add: array_Append_def)
qed simp

lemma array_step_refines:
  assumes "vec_ok a" "list_step (vvals a) p = Some xs"
  shows "\<exists>a'. array_step a p = Some a' \<and> vec_ok a' \<and> vvals a' = xs"
proof (cases p)
  case (AAppend v)
  with vec_push_back_ok [OF assms(1), of v] assms(2) show ?thesis by (simp add: array_Append_def)
next
  case (AInsert i v)
  show ?thesis
  proof (cases "0 \<le> i \<and> i \<le> int (vsize a)")
    case True
    then have "nat i \<le> vsize a" by auto
    from vec_insert_ok [OF assms(1) this, of ONull v] True AInsert assms show ?thesis
      by (auto simp: array_Insert_def)
  qed (use AInsert assms in \<open>auto simp: array_Insert_def\<close>)
next
  case (ARemove i)
  show ?thesis
  proof (cases "0 \<le> i \<and> i < int (vsize a)")
    case True
    then have "nat i < vsize a" by auto
    from vec_remove_ok [OF assms(1) this] obtain b where
      b: "vec_remove (nat i) a = Some b" "vec_ok b"
      "vvals b = take (nat i) (vvals a) @ drop (nat i + 1) (vvals a)" by blast
    from ShrinkIfNeeded_ok [OF b(2)] b assms(2) True ARemove show ?thesis
      by (auto simp: array_Remove_def)
  qed (use ARemove assms in \<open>auto simp: array_Remove_def\<close>)
next
  case (AResize n v)
  from vec_resize_ok [OF assms(1), of n v] obtain b where
    b: "vec_resize n v a = Some b" "vec_ok b" "vvals b = take n (vvals a) @ replicate (n - vsize a) v"
    by blast
  from ShrinkIfNeeded_ok [OF b(2)] b assms(2) AResize show ?thesis by (auto simp: array_Resize_def)
next
  case APop
  with assms(2) have ne: "vvals a \<noteq> []" by auto
  from vec_pop_back_ok [OF assms(1) ne] obtain b where
    b: "vec_pop_back a = Some b" "vec_ok b" "vvals b = butlast (vvals a)" by blast
  from ShrinkIfNeeded_ok [OF b(2)] b assms(2) ne APop show ?thesis by (auto simp: array_Pop_def)
next
  case (ASet i v)
  with assms show ?thesis by (auto simp: array_Set_def vec_ok_def)
next
  case (AExtend b)
  with append_all_ok [OF assms(1), of "vvals b"] assms(2) show ?thesis by (simp add: array_Extend_def)
next
  case AClone
  from vec_resize_ok [OF vec_empty_ok, of 0 ONull] obtain b where "vec_resize 0 ONull vec_empty = Some b"
    by blast
  with vec_copy_ok [of a b] assms(2) AClone show ?thesis
    by (auto simp: array_Clone_def array_Create_def)
qed

lemma array_run_refines:
  "vec_ok a \<Longrightarrow> list_run (vvals a) ps = Some xs \<Longrightarrow>
     \<exists>a'. array_run a ps = Some a' \<and> vec_ok a' \<and> vvals a' = xs"
proof (induction ps arbitrary: a)
  case (Cons p ps)
  then obtain ys where ys: "list_step (vvals a) p = Some ys" "list_run ys ps = Some xs"
    by (auto simp: bind_eq_Some_conv)
  from array_step_refines [OF Cons.prems(1) ys(1)] Cons.IH ys(2) show ?case by fastforce
qed simp

section \<open>Properties\<close>



text \<open>
  C19: after \<open>Resize\<close>, \<open>Pop\<close> or \<open>Remove\<close> of a valid index, an array of more than four elements
  occupies less than four times its size.
\<close>

theorem array_capacity_bound:
  assumes "vec_ok a" "array_step a p = Some a'"
    and "(\<exists>n v. p = AResize n v) \<or> p = APop \<or> (\<exists>i. p = ARemove i \<and> 0 \<le> i \<and> i < int (vsize a))"
  shows "vsize a' \<le> 4 \<or> vcap a' < 4 * vsize a'"
  using assms(3)
proof (elim disjE exE conjE)
  fix n v assume p: "p = AResize n v"
  from vec_resize_ok [OF assms(1), of n v] obtain b where "vec_resize n v a = Some b" "vec_ok b"
    by blast
  with ShrinkIfNeeded_ok [of b] p assms(2) show ?thesis by (auto simp: array_Resize_def)
next
  assume p: "p = APop"
  with assms(2) have "vvals a \<noteq> []" by (auto simp: array_Pop_def vec_pop_back_def)
  from vec_pop_back_ok [OF assms(1) this] obtain b where "vec_pop_back a = Some b" "vec_ok b"
    by blast
  with ShrinkIfNeeded_ok [of b] p assms(2) show ?thesis by (auto simp: array_Pop_def)
next
  fix i assume p: "p = ARemove i" "0 \<le> i" "i < int (vsize a)"
  then have "nat i < vsize a" by auto
  from vec_remove_ok [OF assms(1) this] obtain b where
    "vec_remove (nat i) a = Some b" "vec_ok b" by blast
  with ShrinkIfNeeded_ok [of b] p assms(2) show ?thesis by (auto simp: array_Remove_def)
qed

lemma array_capacity_bound_witness:
  "\<exists>a'. array_step (\<lparr>vvals = replicate 9 ONull, vcap = 40\<rparr>) APop = Some a' \<and>
     (vsize a' \<le> 4 \<or> vcap a' < 4 * vsize a')"
proof -
  have "vec_ok (\<lparr>vvals = replicate 9 ONull, vcap = 40\<rparr>)" by (simp add: vec_ok_def)
  moreover have "array_step (\<lparr>vvals = replicate 9 ONull, vcap = 40\<rparr>) APop =
      Some (\<lparr>vvals = replicate 8 ONull, vcap = 8\<rparr>)" by code_simp
  ultimately show ?thesis using array_capacity_bound [of _ APop] by blast
qed

end
