(* ===== verification/Interning.thy ===== *)
theory Interning
  imports Table_Chains "HOL-Library.Multiset"
begin

text \<open>
  The string table of the shared state (\<open>LVStringTable\<close>, \<^verbatim>\<open>src/state.cpp\<close>): one string object per
  contents. Its chains are singly linked and share nothing, so a bucket is the list of its nodes.
  The theory proves the contract the rest of the machine relies on when it compares strings by
  pointer, stated as the locale \<open>interner\<close>.
\<close>

section \<open>The table\<close>

record lvstr =
  saddr :: u64
  sval :: string
  shash :: u64

record strtab =
  strings :: "lvstr list list"
  slotused :: nat

abbreviation numofslots :: "strtab \<Rightarrow> nat" where
  "numofslots st \<equiv> length (strings st)"

definition hash_slot :: "nat \<Rightarrow> u64 \<Rightarrow> nat" where
  "hash_slot n h = unat (h AND (of_nat n - 1))"

definition strtab_create :: strtab where
  "strtab_create = \<lparr>strings = replicate 4 [], slotused = 0\<rparr>"

text \<open>The characters \<open>Add\<close> keeps: up to the first NUL for a negative length.\<close>

definition add_chars :: "string \<Rightarrow> int \<Rightarrow> string" where
  "add_chars news len = (if len < 0 then takeWhile (\<lambda>c. c \<noteq> CHR 0x00) news else take (nat len) news)"

definition push_bucket :: "lvstr \<Rightarrow> lvstr list list \<Rightarrow> lvstr list list" where
  "push_bucket s bs = (let h = hash_slot (length bs) (shash s) in bs[h := s # bs ! h])"

definition strtab_Resize :: "nat \<Rightarrow> strtab \<Rightarrow> strtab" where
  "strtab_Resize sz st = st\<lparr>strings := fold push_bucket (concat (strings st)) (replicate sz [])\<rparr>"

text \<open>\<open>Add\<close>; \<open>p\<close> is the address of the memory allocated for a new string.\<close>

definition strtab_Add :: "u64 \<Rightarrow> string \<Rightarrow> strtab \<Rightarrow> u64 \<times> strtab" where
  "strtab_Add p s st =
     (case List.find (\<lambda>t. sval t = s) (strings st ! hash_slot (numofslots st) (hashstr s)) of
        Some t \<Rightarrow> (saddr t, st)
      | None \<Rightarrow>
         let st = st\<lparr>strings := push_bucket \<lparr>saddr = p, sval = s, shash = hashstr s\<rparr> (strings st),
                     slotused := slotused st + 1\<rparr>;
             st = (if slotused st > numofslots st then strtab_Resize (numofslots st * 2) st else st)
         in (p, st))"

text \<open>\<open>Remove\<close>: the first node of the chain at that address; none is an assertion failure.\<close>

definition strtab_Remove :: "lvstr \<Rightarrow> strtab \<Rightarrow> strtab option" where
  "strtab_Remove bs st =
     (let h = hash_slot (numofslots st) (shash bs); chain = strings st ! h in
      case dropWhile (\<lambda>s. saddr s \<noteq> saddr bs) chain of
        [] \<Rightarrow> None
      | _ # rest \<Rightarrow> Some (st\<lparr>strings := (strings st)[h := takeWhile (\<lambda>s. saddr s \<noteq> saddr bs) chain @ rest],
                            slotused := slotused st - 1\<rparr>))"

text \<open>\<open>LVString::Create\<close> and \<open>LVString::Next\<close>: a character is read sign-extended.\<close>

definition string_Create :: "u64 \<Rightarrow> string \<Rightarrow> int \<Rightarrow> strtab \<Rightarrow> u64 \<times> strtab" where
  "string_Create p s len st = strtab_Add p (add_chars s len) st"

definition string_Next :: "string \<Rightarrow> lvobj \<Rightarrow> (u64 \<times> lvobj \<times> lvobj) option option" where
  "string_Next s refpos = do {
     idx \<leftarrow> TranslateIndex refpos;
     if sint idx < 0 then None
     else Some (if sint idx < int (length s)
                then Some (idx + 1, OInteger idx, OInteger (scast (byte_of (s ! unat idx)))) else None)
   }"

section \<open>The invariant\<close>

definition strtab_nodes :: "strtab \<Rightarrow> lvstr multiset" where
  "strtab_nodes st = mset (concat (strings st))"

definition bucket_ok :: "lvstr list list \<Rightarrow> bool" where
  "bucket_ok bs \<longleftrightarrow>
     (\<forall>i < length bs. \<forall>s \<in> set (bs ! i). shash s = hashstr (sval s) \<and> hash_slot (length bs) (shash s) = i)"

definition strtab_inv :: "strtab \<Rightarrow> bool" where
  "strtab_inv st \<longleftrightarrow>
     (\<exists>p. numofslots st = 2 ^ p) \<and> bucket_ok (strings st) \<and>
     distinct (map sval (concat (strings st))) \<and> distinct (map saddr (concat (strings st))) \<and>
     slotused st = length (concat (strings st)) \<and> slotused st \<le> numofslots st"

definition interned :: "strtab \<Rightarrow> string \<rightharpoonup> u64" where
  "interned st = map_of (map (\<lambda>s. (sval s, saddr s)) (concat (strings st)))"

lemma hash_slot_less: "n = 2 ^ p \<Longrightarrow> hash_slot n (hashstr s) < n"
  using slot_of_less [of n p "OString s"] by (simp add: hash_slot_def slot_of_def)

lemma push_bucket_length [simp]: "length (push_bucket s bs) = length bs"
  by (simp add: push_bucket_def Let_def)

lemma push_bucket_ok:
  assumes "bucket_ok bs" "shash s = hashstr (sval s)" "length bs = 2 ^ p"
  shows "bucket_ok (push_bucket s bs)" "mset (concat (push_bucket s bs)) = add_mset s (mset (concat bs))"
proof -
  let ?h = "hash_slot (length bs) (shash s)"
  have h: "?h < length bs" using hash_slot_less [OF assms(3)] assms(2) by simp
  show "bucket_ok (push_bucket s bs)"
    unfolding bucket_ok_def
  proof (intro allI impI ballI)
    fix i t assume i: "i < length (push_bucket s bs)" and t: "t \<in> set (push_bucket s bs ! i)"
    have "t \<in> set (bs ! i) \<or> t = s \<and> i = ?h"
      using t h by (cases "i = ?h") (auto simp: push_bucket_def Let_def)
    then show "shash t = hashstr (sval t) \<and> hash_slot (length (push_bucket s bs)) (shash t) = i"
      using assms(1) i unfolding bucket_ok_def push_bucket_length by (elim disjE conjE) (blast, simp only: assms(2))
  qed
  from bucket_split [OF h] obtain A B where
    "concat bs = A @ bs ! ?h @ B" "\<And>c. concat (bs[?h := c]) = A @ c @ B" by blast
  then show "mset (concat (push_bucket s bs)) = add_mset s (mset (concat bs))"
    by (simp add: push_bucket_def Let_def)
qed

lemma refill_ok:
  assumes "bucket_ok bs" "\<forall>s \<in> set ss. shash s = hashstr (sval s)" "length bs = 2 ^ p"
  shows "bucket_ok (fold push_bucket ss bs) \<and> length (fold push_bucket ss bs) = length bs \<and>
     mset (concat (fold push_bucket ss bs)) = mset ss + mset (concat bs)"
  using assms
proof (induction ss arbitrary: bs)
  case (Cons s ss)
  from push_bucket_ok [OF Cons.prems(1) _ Cons.prems(3), of s] Cons.prems(2)
  have "bucket_ok (push_bucket s bs)" "mset (concat (push_bucket s bs)) = add_mset s (mset (concat bs))"
    by auto
  with Cons.IH [of "push_bucket s bs"] Cons.prems(2,3) show ?case by simp
qed simp

lemma bucket_ok_hash:
  assumes "bucket_ok bs" "s \<in> set (concat bs)"
  shows "shash s = hashstr (sval s) \<and> s \<in> set (bs ! hash_slot (length bs) (shash s))"
proof -
  from assms(2) obtain i where "i < length bs" "s \<in> set (bs ! i)"
    by (auto simp: in_set_conv_nth [of _ bs])
  with assms(1) have "shash s = hashstr (sval s) \<and> hash_slot (length bs) (shash s) = i"
    unfolding bucket_ok_def by blast
  with \<open>s \<in> set (bs ! i)\<close> show ?thesis by metis
qed

text \<open>Everything else in the invariant is a fact about the multiset of the nodes.\<close>

lemma interned_iff:
  "distinct (map sval ss) \<Longrightarrow> map_of (map (\<lambda>s. (sval s, saddr s)) ss) x = Some a \<longleftrightarrow>
     (\<exists>t \<in> set ss. sval t = x \<and> saddr t = a)"
  by (subst map_of_eq_Some_iff) (auto simp: comp_def)

lemma interned_mset:
  assumes "mset ss = mset ss'" "distinct (map sval ss)"
  shows "map_of (map (\<lambda>s. (sval s, saddr s)) ss) = map_of (map (\<lambda>s. (sval s, saddr s)) ss')"
proof -
  have "distinct (map sval ss')"
    using assms mset_eq_imp_distinct_iff [of "map sval ss" "map sval ss'"] by simp
  then have "map_of (map (\<lambda>s. (sval s, saddr s)) ss) x = Some a \<longleftrightarrow>
      map_of (map (\<lambda>s. (sval s, saddr s)) ss') x = Some a" for x a
    using interned_iff [OF assms(2), of x a] interned_iff [of ss' x a] mset_eq_setD [OF assms(1)] by simp
  then show ?thesis by (rule map_eqI)
qed

lemma strtab_Resize_ok:
  assumes "\<exists>p. n = 2 ^ p" "bucket_ok (strings st)"
  shows "numofslots (strtab_Resize n st) = n" "bucket_ok (strings (strtab_Resize n st))"
    "mset (concat (strings (strtab_Resize n st))) = mset (concat (strings st))"
    "slotused (strtab_Resize n st) = slotused st"
proof -
  have c: "concat (replicate n []) = ([] :: lvstr list)" by (induction n) auto
  have "\<forall>s \<in> set (concat (strings st)). shash s = hashstr (sval s)"
    using bucket_ok_hash [OF assms(2)] by blast
  moreover have "bucket_ok (replicate n [])" by (simp add: bucket_ok_def)
  ultimately show "numofslots (strtab_Resize n st) = n" "bucket_ok (strings (strtab_Resize n st))"
    "mset (concat (strings (strtab_Resize n st))) = mset (concat (strings st))"
    "slotused (strtab_Resize n st) = slotused st"
    using refill_ok [of "replicate n []" "concat (strings st)"] assms(1) c
    by (auto simp: strtab_Resize_def)
qed

lemma strtab_invD:
  assumes "strtab_inv st"
  shows sinv_len: "\<exists>p. numofslots st = 2 ^ p" and sinv_bucket: "bucket_ok (strings st)"
    and sinv_val: "distinct (map sval (concat (strings st)))"
    and sinv_addr: "distinct (map saddr (concat (strings st)))"
    and sinv_used: "slotused st = length (concat (strings st))" "slotused st \<le> numofslots st"
  using assms by (simp_all add: strtab_inv_def)

lemma strtab_create_inv: "strtab_inv strtab_create" "interned strtab_create = Map.empty"
proof -
  have e: "\<exists>p. (4::nat) = 2 ^ p" by (rule exI [of _ 2]) simp
  have "bucket_ok (strings strtab_create)" by (simp add: bucket_ok_def strtab_create_def)
  with e show "strtab_inv strtab_create"
    by (simp add: strtab_inv_def strtab_create_def numeral_eq_Suc)
  show "interned strtab_create = Map.empty"
    by (simp add: interned_def strtab_create_def numeral_eq_Suc)
qed

definition live_addrs :: "strtab \<Rightarrow> u64 set" where
  "live_addrs st = saddr ` set (concat (strings st))"

lemma strtab_Add_ok:
  assumes inv: "strtab_inv st" and p: "p \<notin> live_addrs st"
  shows "strtab_inv (snd (strtab_Add p s st))"
    "interned (snd (strtab_Add p s st)) = (interned st)(s \<mapsto> fst (strtab_Add p s st))"
    "fst (strtab_Add p s st) = (case interned st s of None \<Rightarrow> p | Some a \<Rightarrow> a)"
proof -
  let ?c = "strings st ! hash_slot (numofslots st) (hashstr s)"
  let ?ss = "concat (strings st)"
  have int: "interned st x = Some a \<longleftrightarrow> (\<exists>t \<in> set ?ss. sval t = x \<and> saddr t = a)" for x a
    unfolding interned_def by (rule interned_iff [OF sinv_val [OF inv]])
  have "strtab_inv (snd (strtab_Add p s st)) \<and>
    interned (snd (strtab_Add p s st)) = (interned st)(s \<mapsto> fst (strtab_Add p s st)) \<and>
    fst (strtab_Add p s st) = (case interned st s of None \<Rightarrow> p | Some a \<Rightarrow> a)"
  proof (cases "List.find (\<lambda>t. sval t = s) ?c")
    case (Some t)
    then have t: "t \<in> set ?c" "sval t = s" by (auto simp: find_Some_iff in_set_conv_nth)
    obtain e where "numofslots st = 2 ^ e" using sinv_len [OF inv] by blast
    then have "?c \<in> set (strings st)" using hash_slot_less by simp
    with t have "t \<in> set ?ss" by auto
    with t int have i: "interned st s = Some (saddr t)" by blast
    with Some inv show ?thesis by (auto simp: strtab_Add_def)
  next
    case None
    have new: "interned st s = None"
    proof (rule ccontr)
      assume "interned st s \<noteq> None"
      with int obtain t where t: "t \<in> set ?ss" "sval t = s" by blast
      from bucket_ok_hash [OF sinv_bucket [OF inv] t(1)] t(2) have "t \<in> set ?c" by metis
      with None t(2) show False by (auto simp: find_None_iff)
    qed
    let ?n = "\<lparr>saddr = p, sval = s, shash = hashstr s\<rparr>"
    let ?st1 = "st\<lparr>strings := push_bucket ?n (strings st), slotused := slotused st + 1\<rparr>"
    let ?st2 = "if slotused ?st1 > numofslots ?st1 then strtab_Resize (numofslots ?st1 * 2) ?st1 else ?st1"
    obtain e where e: "numofslots st = 2 ^ e" using sinv_len [OF inv] by blast
    have e': "\<exists>p. numofslots st * 2 = 2 ^ p" using e by (intro exI [of _ "Suc e"]) simp
    have pos: "1 \<le> numofslots st" using e by simp
    note b1 = push_bucket_ok [OF sinv_bucket [OF inv] _ e, of ?n, simplified]
    note rs = strtab_Resize_ok [of "numofslots st * 2" ?st1, simplified, OF e' b1(1)]
    have st2: "bucket_ok (strings ?st2)" "mset (concat (strings ?st2)) = add_mset ?n (mset ?ss)"
      "slotused ?st2 = slotused st + 1" "\<exists>p. numofslots ?st2 = 2 ^ p" "slotused ?st2 \<le> numofslots ?st2"
      using b1 rs e' sinv_len [OF inv] sinv_used [OF inv] pos by auto
    have m: "mset (concat (strings ?st2)) = mset (?n # ?ss)" using st2(2) by simp
    have na: "p \<notin> saddr ` set ?ss" using p by (simp add: live_addrs_def)
    have nv: "s \<notin> sval ` set ?ss"
    proof
      assume "s \<in> sval ` set ?ss"
      with int [of s] have "\<exists>a. interned st s = Some a" by blast
      with new show False by simp
    qed
    have dv: "distinct (map sval (concat (strings ?st2)))"
      using mset_eq_imp_distinct_iff [of "map sval (concat (strings ?st2))" "map sval (?n # ?ss)"] m nv
        sinv_val [OF inv] by simp
    have da: "distinct (map saddr (concat (strings ?st2)))"
      using mset_eq_imp_distinct_iff [of "map saddr (concat (strings ?st2))" "map saddr (?n # ?ss)"] m na
        sinv_addr [OF inv] by simp
    have len: "slotused ?st2 = length (concat (strings ?st2))"
      using arg_cong [OF m, of size] st2(3) sinv_used [OF inv] by simp
    have inv2: "strtab_inv ?st2" unfolding strtab_inv_def using st2 dv da len by blast
    have "interned ?st2 = (interned st)(s \<mapsto> p)"
      unfolding interned_def using interned_mset [OF m dv] by simp
    moreover have "strtab_Add p s st = (p, ?st2)" by (simp only: strtab_Add_def None Let_def option.case)
    ultimately show ?thesis using inv2 new by simp
  qed
  then show "strtab_inv (snd (strtab_Add p s st))"
    "interned (snd (strtab_Add p s st)) = (interned st)(s \<mapsto> fst (strtab_Add p s st))"
    "fst (strtab_Add p s st) = (case interned st s of None \<Rightarrow> p | Some a \<Rightarrow> a)" by blast+
qed


lemma strtab_Remove_ok:
  assumes inv: "strtab_inv st" and t: "t \<in> set (concat (strings st))"
  shows "\<exists>st'. strtab_Remove t st = Some st' \<and> strtab_inv st' \<and>
           interned st' = (interned st)(sval t := None)"
proof -
  let ?h = "hash_slot (numofslots st) (shash t)"
  let ?c = "strings st ! ?h"
  from bucket_ok_hash [OF sinv_bucket [OF inv] t] have tc: "t \<in> set ?c" and ht: "shash t = hashstr (sval t)"
    by blast+
  obtain e where "numofslots st = 2 ^ e" using sinv_len [OF inv] by blast
  then have h: "?h < numofslots st" using hash_slot_less ht by simp
  from bucket_split [OF h] obtain A B where AB: "concat (strings st) = A @ ?c @ B"
    "\<And>c. concat ((strings st)[?h := c]) = A @ c @ B" by blast
  have dc: "distinct (map saddr ?c)" using sinv_addr [OF inv] by (simp add: AB(1))
  from tc obtain X Y where XY: "?c = X @ t # Y" by (meson split_list)
  have X: "\<forall>s \<in> set X. saddr s \<noteq> saddr t" using dc by (auto simp: XY image_iff)
  have tw: "takeWhile (\<lambda>s. saddr s \<noteq> saddr t) ?c = X" "dropWhile (\<lambda>s. saddr s \<noteq> saddr t) ?c = t # Y"
    using X by (simp_all add: XY)
  let ?st = "st\<lparr>strings := (strings st)[?h := X @ Y], slotused := slotused st - 1\<rparr>"
  have r: "strtab_Remove t st = Some ?st" by (simp add: strtab_Remove_def Let_def tw)
  have m: "mset (concat (strings st)) = mset (t # concat (strings ?st))"
    by (simp add: AB) (simp add: XY)
  have dv: "distinct (map sval (t # concat (strings ?st)))"
    and da: "distinct (map saddr (t # concat (strings ?st)))"
    using mset_eq_imp_distinct_iff [of "map sval (concat (strings st))" "map sval (t # concat (strings ?st))"]
      mset_eq_imp_distinct_iff [of "map saddr (concat (strings st))" "map saddr (t # concat (strings ?st))"]
      m sinv_val [OF inv] sinv_addr [OF inv] by simp_all
  have len: "slotused st = Suc (length (concat (strings ?st)))"
    using arg_cong [OF m, of size] sinv_used [OF inv] by simp
  have sub: "set (X @ Y) \<subseteq> set ?c" by (auto simp: XY)
  have l: "length (strings ?st) = numofslots st" by simp
  have "bucket_ok (strings ?st)"
    unfolding bucket_ok_def
  proof (intro allI impI ballI)
    fix i s assume "i < length (strings ?st)" "s \<in> set (strings ?st ! i)"
    then have "i < numofslots st" "s \<in> set (strings st ! i)"
      using h sub by (cases "i = ?h"; auto)+
    then have "shash s = hashstr (sval s) \<and> hash_slot (numofslots st) (shash s) = i"
      using sinv_bucket [OF inv] unfolding bucket_ok_def by blast
    then show "shash s = hashstr (sval s) \<and> hash_slot (length (strings ?st)) (shash s) = i"
      unfolding l .
  qed
  then have inv': "strtab_inv ?st"
    using dv da len sinv_len [OF inv] sinv_used [OF inv] by (simp add: strtab_inv_def)
  have "interned st = (interned ?st)(sval t \<mapsto> saddr t)"
    unfolding interned_def using interned_mset [OF m sinv_val [OF inv]] by simp
  moreover have "interned ?st (sval t) = None"
    using dv by (simp add: interned_def map_of_eq_None_iff image_image)
  ultimately have "interned ?st = (interned st)(sval t := None)" by (auto simp: fun_eq_iff)
  with r inv' show ?thesis by blast
qed

section \<open>The contract\<close>

text \<open>
  What a client may assume of an interner: adding a string gives its one address; addresses are
  never shared. Comparing addresses is then comparing contents.
\<close>

locale interner =
  fixes inv :: "'s \<Rightarrow> bool"
    and addr_of :: "'s \<Rightarrow> string \<Rightarrow> u64 option"
    and free :: "'s \<Rightarrow> u64 \<Rightarrow> bool"
    and add :: "u64 \<Rightarrow> string \<Rightarrow> 's \<Rightarrow> u64 \<times> 's"
  assumes add_inv: "inv s \<Longrightarrow> free s p \<Longrightarrow> inv (snd (add p x s))"
    and add_addr: "inv s \<Longrightarrow> free s p \<Longrightarrow> addr_of (snd (add p x s)) = (addr_of s)(x \<mapsto> fst (add p x s))"
    and add_known: "inv s \<Longrightarrow> free s p \<Longrightarrow> addr_of s x = Some a \<Longrightarrow> fst (add p x s) = a"
    and addr_inj: "inv s \<Longrightarrow> addr_of s x = Some a \<Longrightarrow> addr_of s y = Some a \<Longrightarrow> x = y"
begin

lemma add_twice:
  assumes "inv s" "free s p" "free (snd (add p x s)) q"
  shows "fst (add q y (snd (add p x s))) = fst (add p x s) \<longleftrightarrow> x = y"
proof -
  let ?s = "snd (add p x s)"
  let ?s' = "snd (add q y ?s)"
  have i: "inv ?s" by (rule add_inv [OF assms(1,2)])
  have ax: "addr_of ?s x = Some (fst (add p x s))" by (simp add: add_addr [OF assms(1,2)])
  show ?thesis
  proof
    assume e: "fst (add q y ?s) = fst (add p x s)"
    have "addr_of ?s' y = Some (fst (add p x s))" by (simp add: add_addr [OF i assms(3)] e)
    moreover have "addr_of ?s' x = Some (fst (add p x s))"
      using e ax by (simp add: add_addr [OF i assms(3)])
    ultimately show "x = y" using addr_inj [OF add_inv [OF i assms(3)]] by blast
  next
    assume "x = y"
    with add_known [OF i assms(3)] ax show "fst (add q y ?s) = fst (add p x s)" by blast
  qed
qed

end

interpretation stab: interner strtab_inv interned "\<lambda>st p. p \<notin> live_addrs st" strtab_Add
proof unfold_locales
  fix s p x a y
  assume inv: "strtab_inv s"
  show "p \<notin> live_addrs s \<Longrightarrow> strtab_inv (snd (strtab_Add p x s))"
    "p \<notin> live_addrs s \<Longrightarrow> interned (snd (strtab_Add p x s)) = (interned s)(x \<mapsto> fst (strtab_Add p x s))"
    "p \<notin> live_addrs s \<Longrightarrow> interned s x = Some a \<Longrightarrow> fst (strtab_Add p x s) = a"
    using strtab_Add_ok [OF inv] by auto
  assume "interned s x = Some a" "interned s y = Some a"
  then obtain t u where "t \<in> set (concat (strings s))" "u \<in> set (concat (strings s))"
    "sval t = x" "sval u = y" "saddr t = a" "saddr u = a"
    unfolding interned_def interned_iff [OF sinv_val [OF inv]] by blast
  with sinv_addr [OF inv] show "x = y" by (metis distinct_map inj_onD)
qed

section \<open>Properties\<close>

text \<open>
  C7: two strings added one after the other get the same object exactly when their contents are
  equal, whatever the table holds and whether or not the additions resize it.
\<close>

theorem string_identity_is_equality:
  assumes "strtab_inv st" "p \<notin> live_addrs st" "q \<notin> live_addrs (snd (strtab_Add p x st))"
  shows "fst (strtab_Add q y (snd (strtab_Add p x st))) = fst (strtab_Add p x st) \<longleftrightarrow> x = y"
  using assms by (rule stab.add_twice)

lemma string_identity_is_equality_witness:
  "fst (strtab_Add 8 ''b'' (snd (strtab_Add 4 ''a'' strtab_create))) \<noteq>
     fst (strtab_Add 4 ''a'' strtab_create)"
proof -
  have "(8::u64) \<notin> live_addrs (snd (strtab_Add 4 ''a'' strtab_create))" by code_simp
  moreover have "(4::u64) \<notin> live_addrs strtab_create" by code_simp
  ultimately show ?thesis
    using string_identity_is_equality [OF strtab_create_inv(1), of 4 8 "''a''" "''b''"] by simp
qed

text \<open>
  C8: adding a string keeps the table's invariant (each node in the bucket of its hash, contents
  and addresses distinct, at most one node per slot on average), and changes the contents by that
  string only; removing a string of the table takes out exactly that string.
\<close>

theorem string_table_add_remove:
  assumes "strtab_inv st" "p \<notin> live_addrs st"
  shows "strtab_inv (snd (strtab_Add p x st)) \<and>
    interned (snd (strtab_Add p x st)) = (interned st)(x \<mapsto> (case interned st x of None \<Rightarrow> p | Some a \<Rightarrow> a)) \<and>
    (\<forall>t \<in> set (concat (strings st)).
       \<exists>st'. strtab_Remove t st = Some st' \<and> strtab_inv st' \<and> interned st' = (interned st)(sval t := None))"
  using strtab_Add_ok [OF assms, of x] strtab_Remove_ok [OF assms(1)] by auto

lemma string_table_add_remove_witness:
  "interned (snd (strtab_Add 4 ''a'' strtab_create)) = [''a'' \<mapsto> 4]"
proof -
  have "(4::u64) \<notin> live_addrs strtab_create" by code_simp
  then show ?thesis
    using string_table_add_remove [OF strtab_create_inv(1), of 4 "''a''"] by (simp add: strtab_create_inv(2))
qed

end
