(* ===== verification/RefTables.thy ===== *)
theory RefTables
  imports Interning
begin

text \<open>
  The table of external references (\<open>RefTable\<close>, \<^verbatim>\<open>src/state.cpp\<close>) that keeps objects held by the
  host alive. Nodes are indices into the node array; a bucket's chain and the free list, linked
  through disjoint \<open>next\<close> fields, are the lists of their nodes. A failed assertion of the debug build
  is \<open>None\<close>. Counts are natural numbers: incrementing one past \<open>2 ^ 64 - 1\<close> is out of reach.
\<close>

section \<open>The operations\<close>

record refnode =
  robj :: lvobj
  rrefs :: nat

record reftab =
  rnodes :: "refnode list"
  rbuckets :: "nat list list"
  rfree :: "nat list"
  rused :: nat

abbreviation rslots :: "reftab \<Rightarrow> nat" where
  "rslots t \<equiv> length (rnodes t)"

definition ref_alloc :: "nat \<Rightarrow> reftab" where
  "ref_alloc n = \<lparr>rnodes = replicate n \<lparr>robj = ONull, rrefs = 0\<rparr>, rbuckets = replicate n [],
                  rfree = [0..<n], rused = 0\<rparr>"

definition ref_create :: reftab where
  "ref_create = ref_alloc 4"

definition ref_add :: "nat \<Rightarrow> lvobj \<Rightarrow> reftab \<Rightarrow> (nat \<times> reftab) option" where
  "ref_add mainpos obj t =
     (case rfree t of
        [] \<Rightarrow> None
      | f # fs \<Rightarrow>
         if rrefs (rnodes t ! f) \<noteq> 0 then None
         else Some (f, t\<lparr>rnodes := (rnodes t)[f := (rnodes t ! f)\<lparr>robj := obj\<rparr>],
                         rbuckets := (rbuckets t)[mainpos := f # rbuckets t ! mainpos],
                         rfree := fs, rused := rused t + 1\<rparr>))"

fun ref_refill :: "refnode list \<Rightarrow> reftab \<Rightarrow> nat \<Rightarrow> (reftab \<times> nat) option" where
  "ref_refill [] t nfound = Some (t, nfound)"
| "ref_refill (n # ns) t nfound =
     (if robj n = ONull then ref_refill ns t nfound
      else if rrefs n = 0 then None
      else do {
        (nn, t) \<leftarrow> ref_add (slot_of (rslots t) (robj n)) (robj n) t;
        ref_refill ns (t\<lparr>rnodes := (rnodes t)[nn := (rnodes t ! nn)\<lparr>rrefs := rrefs n\<rparr>]\<rparr>) (nfound + 1)
      })"

definition ref_resize :: "nat \<Rightarrow> reftab \<Rightarrow> reftab option" where
  "ref_resize n t = do {
     (t', nfound) \<leftarrow> ref_refill (rnodes t) (ref_alloc n) 0;
     if nfound = rslots t then Some t' else None
   }"

definition ref_find :: "lvobj \<Rightarrow> reftab \<Rightarrow> nat option" where
  "ref_find obj t =
     List.find (\<lambda>i. robj (rnodes t ! i) = obj) (rbuckets t ! slot_of (rslots t) obj)"

text \<open>\<open>Get\<close> with and without \<open>add\<close>.\<close>

definition ref_get :: "lvobj \<Rightarrow> reftab \<Rightarrow> (nat \<times> reftab) option" where
  "ref_get obj t =
     (case ref_find obj t of
        Some i \<Rightarrow> Some (i, t)
      | None \<Rightarrow> do {
          t \<leftarrow> (if rslots t = rused t
               then (if rfree t = [] then ref_resize (rslots t * 2) t else None) else Some t);
          ref_add (slot_of (rslots t) obj) obj t
        })"

definition ref_AddRef :: "lvobj \<Rightarrow> reftab \<Rightarrow> reftab option" where
  "ref_AddRef obj t = do {
     (i, t) \<leftarrow> ref_get obj t;
     Some (t\<lparr>rnodes := (rnodes t)[i := (rnodes t ! i)\<lparr>rrefs := rrefs (rnodes t ! i) + 1\<rparr>]\<rparr>)
   }"

definition ref_GetRefCount :: "lvobj \<Rightarrow> reftab \<Rightarrow> (nat \<times> reftab) option" where
  "ref_GetRefCount obj t = do { (i, t) \<leftarrow> ref_get obj t; Some (rrefs (rnodes t ! i), t) }"

definition ref_Release :: "lvobj \<Rightarrow> reftab \<Rightarrow> (bool \<times> reftab) option" where
  "ref_Release obj t =
     (case ref_find obj t of
        None \<Rightarrow> None
      | Some i \<Rightarrow>
         let r = (if rrefs (rnodes t ! i) = 0 then 2 ^ 64 - 1 else rrefs (rnodes t ! i) - 1);
             t = t\<lparr>rnodes := (rnodes t)[i := (rnodes t ! i)\<lparr>rrefs := r\<rparr>]\<rparr>
         in if r = 0
            then Some (True,
              let mainpos = slot_of (rslots t) obj in
              t\<lparr>rbuckets := (rbuckets t)[mainpos := remove1 i (rbuckets t ! mainpos)],
                rfree := i # rfree t, rused := rused t - 1,
                rnodes := (rnodes t)[i := (rnodes t ! i)\<lparr>robj := ONull\<rparr>]\<rparr>)
            else Some (False, t))"

definition ref_Finalize :: "reftab \<Rightarrow> reftab" where
  "ref_Finalize t = t\<lparr>rnodes := map (\<lambda>n. n\<lparr>robj := ONull\<rparr>) (rnodes t)\<rparr>"

section \<open>The invariant\<close>

text \<open>
  Every node is on the free list or in the bucket of its object, exactly once. \<open>ref_shape\<close> leaves the
  counts open; \<open>ref_inv\<close> adds that used nodes count at least one reference.
\<close>

definition ref_shape :: "reftab \<Rightarrow> bool" where
  "ref_shape t \<longleftrightarrow>
     length (rbuckets t) = rslots t \<and>
     mset (rfree t @ concat (rbuckets t)) = mset [0..<rslots t] \<and>
     (\<forall>i \<in> set (rfree t). rnodes t ! i = \<lparr>robj = ONull, rrefs = 0\<rparr>) \<and>
     (\<forall>b < rslots t. \<forall>i \<in> set (rbuckets t ! b).
        robj (rnodes t ! i) \<noteq> ONull \<and> slot_of (rslots t) (robj (rnodes t ! i)) = b) \<and>
     (\<forall>i < rslots t. \<forall>j < rslots t. robj (rnodes t ! i) \<noteq> ONull \<longrightarrow>
        robj (rnodes t ! i) = robj (rnodes t ! j) \<longrightarrow> i = j) \<and>
     rused t = length (concat (rbuckets t))"

definition ref_inv :: "reftab \<Rightarrow> bool" where
  "ref_inv t \<longleftrightarrow> ref_shape t \<and> (\<exists>p. rslots t = 2 ^ p) \<and>
     (\<forall>n \<in> set (rnodes t). robj n \<noteq> ONull \<longrightarrow> 0 < rrefs n)"

definition refs_to :: "lvobj \<Rightarrow> refnode \<Rightarrow> nat" where
  "refs_to obj n = (if robj n = obj then rrefs n else 0)"

definition ref_count :: "reftab \<Rightarrow> lvobj \<Rightarrow> nat" where
  "ref_count t obj = sum_list (map (refs_to obj) (rnodes t))"

lemma ref_shapeD:
  assumes "ref_shape t"
  shows shape_len: "length (rbuckets t) = rslots t"
    and shape_perm: "mset (rfree t @ concat (rbuckets t)) = mset [0..<rslots t]"
    and shape_free: "\<And>i. i \<in> set (rfree t) \<Longrightarrow> rnodes t ! i = \<lparr>robj = ONull, rrefs = 0\<rparr>"
    and shape_bucket: "\<And>b i. b < rslots t \<Longrightarrow> i \<in> set (rbuckets t ! b) \<Longrightarrow>
        robj (rnodes t ! i) \<noteq> ONull \<and> slot_of (rslots t) (robj (rnodes t ! i)) = b"
    and shape_inj: "\<And>i j. i < rslots t \<Longrightarrow> j < rslots t \<Longrightarrow> robj (rnodes t ! i) \<noteq> ONull \<Longrightarrow>
        robj (rnodes t ! i) = robj (rnodes t ! j) \<Longrightarrow> i = j"
    and shape_used: "rused t = length (concat (rbuckets t))"
  using assms unfolding ref_shape_def by blast+

lemma shape_nodes:
  assumes "ref_shape t"
  shows "set (rfree t) \<union> set (concat (rbuckets t)) = {..<rslots t}"
    and "distinct (rfree t @ concat (rbuckets t))"
    and "length (rfree t) + rused t = rslots t"
proof -
  have "set (rfree t @ concat (rbuckets t)) = set [0..<rslots t]"
    by (rule mset_eq_setD [OF shape_perm [OF assms]])
  then show "set (rfree t) \<union> set (concat (rbuckets t)) = {..<rslots t}" by auto
  show "distinct (rfree t @ concat (rbuckets t))"
    using mset_eq_imp_distinct_iff [OF shape_perm [OF assms]] by simp
  show "length (rfree t) + rused t = rslots t"
    using arg_cong [OF shape_perm [OF assms], of size] shape_used [OF assms] by simp
qed

text \<open>Looking an object up finds its node.\<close>

lemma ref_find_iff:
  assumes "ref_shape t" "rslots t = 2 ^ p" "obj \<noteq> ONull"
  shows "ref_find obj t = Some i \<longleftrightarrow> i < rslots t \<and> robj (rnodes t ! i) = obj"
proof -
  let ?b = "slot_of (rslots t) obj"
  have b: "?b < rslots t" by (rule slot_of_less [OF assms(2)])
  have sub: "set (rbuckets t ! ?b) \<subseteq> {..<rslots t}"
    using shape_nodes(1) [OF assms(1)] shape_len [OF assms(1)] b by fastforce
  have inb: "i \<in> set (rbuckets t ! ?b)" if i: "i < rslots t" "robj (rnodes t ! i) = obj" for i
  proof -
    have "i \<notin> set (rfree t)" using shape_free [OF assms(1)] i(2) assms(3) by auto
    with i(1) shape_nodes(1) [OF assms(1)] have "i \<in> set (concat (rbuckets t))" by blast
    then obtain c where "c < rslots t" "i \<in> set (rbuckets t ! c)"
      using shape_len [OF assms(1)] by (auto simp: in_set_conv_nth [of _ "rbuckets t"])
    with shape_bucket [OF assms(1), of c i] i(2) show ?thesis by auto
  qed
  show ?thesis
  proof
    assume "ref_find obj t = Some i"
    then have "i \<in> set (rbuckets t ! ?b)" "robj (rnodes t ! i) = obj"
      by (auto simp: ref_find_def find_Some_iff in_set_conv_nth)
    with sub show "i < rslots t \<and> robj (rnodes t ! i) = obj" by auto
  next
    assume i: "i < rslots t \<and> robj (rnodes t ! i) = obj"
    then have "ref_find obj t \<noteq> None" using inb by (auto simp: ref_find_def find_None_iff)
    then obtain j where j: "ref_find obj t = Some j" by blast
    then have "j \<in> set (rbuckets t ! ?b)" "robj (rnodes t ! j) = obj"
      by (auto simp: ref_find_def find_Some_iff in_set_conv_nth)
    with sub i shape_inj [OF assms(1), of j i] assms(3) j show "ref_find obj t = Some i" by auto
  qed
qed

lemma ref_count_node:
  assumes "ref_shape t" "i < rslots t" "robj (rnodes t ! i) = obj" "obj \<noteq> ONull"
  shows "ref_count t obj = rrefs (rnodes t ! i)"
proof -
  have eq: "refs_to obj (rnodes t ! j) = (if j = i then rrefs (rnodes t ! i) else 0)"
    if j: "j < rslots t" for j
  proof (cases "robj (rnodes t ! j) = obj")
    case True
    have "robj (rnodes t ! j) \<noteq> ONull" using assms(4) unfolding True .
    from shape_inj [OF assms(1) j assms(2) this] have "j = i" by (simp only: True assms(3))
    then show ?thesis by (simp add: refs_to_def assms(3))
  next
    case False
    then have "j \<noteq> i" using assms(3) by blast
    with False show ?thesis by (simp add: refs_to_def)
  qed
  have "ref_count t obj = (\<Sum>j = 0..<rslots t. refs_to obj (rnodes t ! j))"
    by (simp add: ref_count_def sum_list_sum_nth)
  also have "\<dots> = (\<Sum>j = 0..<rslots t. if j = i then rrefs (rnodes t ! i) else 0)"
    by (rule sum.cong) (simp_all add: eq)
  also have "\<dots> = rrefs (rnodes t ! i)" using assms(2) by simp
  finally show ?thesis .
qed

lemma ref_count_update:
  "i < length ns \<Longrightarrow> sum_list (map (refs_to o') (ns[i := n])) =
     sum_list (map (refs_to o') ns) + refs_to o' n - refs_to o' (ns ! i)"
  by (simp add: map_update sum_list_update)

lemma ref_count_ge: "i < length ns \<Longrightarrow> refs_to o' (ns ! i) \<le> sum_list (map (refs_to o') ns)"
  by (rule member_le_sum_list) auto

section \<open>Adding a node, growing\<close>

lemma ref_add_ok:
  assumes sh: "ref_shape t" and p: "rslots t = 2 ^ p" and obj: "obj \<noteq> ONull"
    and new: "\<forall>i < rslots t. robj (rnodes t ! i) \<noteq> obj" and free: "rfree t \<noteq> []"
  shows "\<exists>f t'. ref_add (slot_of (rslots t) obj) obj t = Some (f, t') \<and> ref_shape t' \<and>
    f < rslots t \<and> rslots t' = rslots t \<and> rnodes t' = (rnodes t)[f := \<lparr>robj = obj, rrefs = 0\<rparr>] \<and>
    rnodes t ! f = \<lparr>robj = ONull, rrefs = 0\<rparr> \<and> rfree t' = tl (rfree t)"
proof -
  obtain f fs where f: "rfree t = f # fs" using free by (cases "rfree t") auto
  let ?b = "slot_of (rslots t) obj"
  have b: "?b < rslots t" by (rule slot_of_less [OF p])
  have nf: "rnodes t ! f = \<lparr>robj = ONull, rrefs = 0\<rparr>" using shape_free [OF sh] f by simp
  have fl: "f < rslots t" using shape_nodes(1) [OF sh] f by auto
  let ?ns = "(rnodes t)[f := \<lparr>robj = obj, rrefs = 0\<rparr>]"
  let ?bs = "(rbuckets t)[?b := f # rbuckets t ! ?b]"
  let ?t = "t\<lparr>rnodes := ?ns, rbuckets := ?bs, rfree := fs, rused := rused t + 1\<rparr>"
  have r: "ref_add ?b obj t = Some (f, ?t)" using f nf by (simp add: ref_add_def)
  from bucket_split [of ?b "rbuckets t"] b shape_len [OF sh] obtain A B where
    AB: "concat (rbuckets t) = A @ rbuckets t ! ?b @ B" "\<And>c. concat ((rbuckets t)[?b := c]) = A @ c @ B"
    by metis
  have perm: "mset (fs @ concat ?bs) = mset [0..<rslots t]"
    using shape_perm [OF sh] by (simp add: AB f)
  have df: "f \<notin> set fs" "f \<notin> set (concat (rbuckets t))" using shape_nodes(2) [OF sh] f by auto
  have fb: "f \<notin> set (rbuckets t ! c)" if "c < rslots t" for c
    using df(2) that shape_len [OF sh] by auto
  have "ref_shape ?t"
    unfolding ref_shape_def
  proof (intro conjI)
    show "\<forall>i\<in>set (rfree ?t). rnodes ?t ! i = \<lparr>robj = ONull, rrefs = 0\<rparr>"
      using shape_free [OF sh] df(1) f by (metis (no_types) list.set_intros(2) nth_list_update_neq reftab.select_convs(1,3)
          reftab.surjective reftab.update_convs(1,2,3,4))
    show "\<forall>c<rslots ?t. \<forall>i\<in>set (rbuckets ?t ! c).
        robj (rnodes ?t ! i) \<noteq> ONull \<and> slot_of (rslots ?t) (robj (rnodes ?t ! i)) = c"
    proof (intro allI impI ballI)
      fix c i assume c: "c < rslots ?t" and i: "i \<in> set (rbuckets ?t ! c)"
      have "i = f \<and> c = ?b \<or> i \<noteq> f \<and> i \<in> set (rbuckets t ! c)"
        using i c b shape_len [OF sh] fb [of c] by (cases "c = ?b") auto
      then show "robj (rnodes ?t ! i) \<noteq> ONull \<and> slot_of (rslots ?t) (robj (rnodes ?t ! i)) = c"
        using shape_bucket [OF sh, of c i] c obj fl by auto
    qed
    show "\<forall>i<rslots ?t. \<forall>j<rslots ?t. robj (rnodes ?t ! i) \<noteq> ONull \<longrightarrow>
        robj (rnodes ?t ! i) = robj (rnodes ?t ! j) \<longrightarrow> i = j"
    proof (intro allI impI)
      fix i j assume ij: "i < rslots ?t" "j < rslots ?t" "robj (rnodes ?t ! i) \<noteq> ONull"
        "robj (rnodes ?t ! i) = robj (rnodes ?t ! j)"
      have at: "robj (rnodes ?t ! m) = (if m = f then obj else robj (rnodes t ! m))" for m
        using fl by (simp add: nth_list_update)
      show "i = j"
      proof (cases "i = f \<or> j = f")
        case True
        with ij(4) new ij(1,2) fl show ?thesis unfolding at by (auto split: if_splits)
      next
        case False
        with ij(3,4) have "robj (rnodes t ! i) \<noteq> ONull" "robj (rnodes t ! i) = robj (rnodes t ! j)"
          unfolding at by simp_all
        then show ?thesis using shape_inj [OF sh] ij(1,2) by simp
      qed
    qed
  qed (use perm shape_len [OF sh] shape_used [OF sh] AB in auto)
  with r fl nf f show ?thesis by auto
qed

lemma set_refs_ok:
  assumes sh: "ref_shape t" and i: "i < rslots t" "robj (rnodes t ! i) \<noteq> ONull"
  shows "ref_shape (t\<lparr>rnodes := (rnodes t)[i := (rnodes t ! i)\<lparr>rrefs := r\<rparr>]\<rparr>)"
proof -
  let ?ns = "(rnodes t)[i := (rnodes t ! i)\<lparr>rrefs := r\<rparr>]"
  have o: "robj (?ns ! j) = robj (rnodes t ! j)" for j using i(1) by (simp add: nth_list_update)
  have nf: "i \<notin> set (rfree t)" using shape_free [OF sh] i(2) by force
  have fr: "\<forall>j\<in>set (rfree t). ?ns ! j = \<lparr>robj = ONull, rrefs = 0\<rparr>"
    using shape_free [OF sh] nf by (metis nth_list_update_neq)
  show ?thesis
    using sh fr by (simp add: ref_shape_def o) blast
qed


lemma refs_to_simps [simp]:
  "refs_to o' \<lparr>robj = ob, rrefs = n\<rparr> = (if ob = o' then n else 0)"
  by (simp add: refs_to_def)

text \<open>Refilling a fresh table: every used node is added with its count.\<close>

lemma ref_refill_ok:
  assumes "ref_shape t" "rslots t = 2 ^ p" "\<forall>n \<in> set (rnodes t). robj n \<noteq> ONull \<longrightarrow> 0 < rrefs n"
    and "\<forall>n \<in> set ns. robj n \<noteq> ONull \<longrightarrow> 0 < rrefs n"
    and "distinct (filter (\<lambda>x. x \<noteq> ONull) (map robj ns))"
    and "\<forall>n \<in> set ns. robj n \<noteq> ONull \<longrightarrow> (\<forall>i < rslots t. robj (rnodes t ! i) \<noteq> robj n)"
    and "length (filter (\<lambda>n. robj n \<noteq> ONull) ns) \<le> length (rfree t)"
  shows "\<exists>t'. ref_refill ns t c = Some (t', c + length (filter (\<lambda>n. robj n \<noteq> ONull) ns)) \<and>
    ref_shape t' \<and> rslots t' = rslots t \<and>
    (\<forall>n \<in> set (rnodes t'). robj n \<noteq> ONull \<longrightarrow> 0 < rrefs n) \<and>
    length (rfree t') = length (rfree t) - length (filter (\<lambda>n. robj n \<noteq> ONull) ns) \<and>
    (\<forall>ob. ob \<noteq> ONull \<longrightarrow> ref_count t' ob = ref_count t ob + sum_list (map (refs_to ob) ns)) \<and>
    (\<forall>ob. ob \<noteq> ONull \<longrightarrow> (\<exists>i < rslots t. robj (rnodes t' ! i) = ob) \<longrightarrow>
        (\<exists>i < rslots t. robj (rnodes t ! i) = ob) \<or> ob \<in> robj ` set ns)"
  using assms
proof (induction ns arbitrary: t c)
  case Nil
  then show ?case by simp
next
  case (Cons n ns)
  show ?case
  proof (cases "robj n = ONull")
    case True
    with Cons.IH [of t c] Cons.prems show ?thesis by (auto simp: refs_to_def)
  next
    case False
    then have "rfree t \<noteq> []" using Cons.prems(7) by auto
    from ref_add_ok [OF Cons.prems(1,2) False _ this] Cons.prems(6) False obtain f t1 where
      t1: "ref_add (slot_of (rslots t) (robj n)) (robj n) t = Some (f, t1)" "ref_shape t1" "f < rslots t"
      "rslots t1 = rslots t" "rnodes t1 = (rnodes t)[f := \<lparr>robj = robj n, rrefs = 0\<rparr>]"
      "rnodes t ! f = \<lparr>robj = ONull, rrefs = 0\<rparr>" "rfree t1 = tl (rfree t)" by auto
    define t2 where "t2 = t1\<lparr>rnodes := (rnodes t1)[f := (rnodes t1 ! f)\<lparr>rrefs := rrefs n\<rparr>]\<rparr>"
    have n2: "rnodes t2 = (rnodes t)[f := n]" using t1(3,5) by (cases n) (simp add: t2_def)
    have s2: "ref_shape t2" unfolding t2_def
      by (rule set_refs_ok [OF t1(2)]) (use t1(3,4,5) False in simp_all)
    have l2: "rslots t2 = rslots t" by (simp add: n2)
    have pos: "0 < rrefs n" using Cons.prems(4) False by simp
    have p2: "\<forall>m \<in> set (rnodes t2). robj m \<noteq> ONull \<longrightarrow> 0 < rrefs m"
      using Cons.prems(3) pos set_update_subset_insert [of "rnodes t" f n] unfolding n2 by blast
    have o2: "\<forall>m \<in> set ns. robj m \<noteq> ONull \<longrightarrow> (\<forall>i < rslots t2. robj (rnodes t2 ! i) \<noteq> robj m)"
    proof (intro ballI impI allI)
      fix m i assume m: "m \<in> set ns" "robj m \<noteq> ONull" "i < rslots t2"
      have "robj n \<noteq> robj m" using Cons.prems(5) False m by (auto simp: filter_map)
      then show "robj (rnodes t2 ! i) \<noteq> robj m"
        using Cons.prems(6) m t1(3) by (simp add: n2 l2 nth_list_update)
    qed
    have fr: "length (rfree t2) = length (rfree t) - 1" by (simp add: t2_def t1(7))
    have cnt: "ref_count t2 ob = ref_count t ob + refs_to ob n" if "ob \<noteq> ONull" for ob
      using that t1(3,6) by (simp add: ref_count_def n2 ref_count_update)
    have "length (filter (\<lambda>n. robj n \<noteq> ONull) ns) \<le> length (rfree t2)"
      using Cons.prems(7) False fr by simp
    from Cons.IH [OF s2 _ p2 _ _ o2 this, of "c + 1"] Cons.prems(2,4,5) False l2 obtain t3 where
      t3: "ref_refill ns t2 (c + 1) = Some (t3, c + 1 + length (filter (\<lambda>n. robj n \<noteq> ONull) ns))"
      "ref_shape t3" "rslots t3 = rslots t" "\<forall>n \<in> set (rnodes t3). robj n \<noteq> ONull \<longrightarrow> 0 < rrefs n"
      "length (rfree t3) = length (rfree t2) - length (filter (\<lambda>n. robj n \<noteq> ONull) ns)"
      "\<forall>ob. ob \<noteq> ONull \<longrightarrow> ref_count t3 ob = ref_count t2 ob + sum_list (map (refs_to ob) ns)"
      "\<forall>ob. ob \<noteq> ONull \<longrightarrow> (\<exists>i < rslots t. robj (rnodes t3 ! i) = ob) \<longrightarrow>
        (\<exists>i < rslots t. robj (rnodes t2 ! i) = ob) \<or> ob \<in> robj ` set ns"
      by auto
    have e: "ref_refill (n # ns) t c = ref_refill ns t2 (c + 1)"
      using t1(1) pos False by (simp add: t2_def)
    have last: "(\<exists>i < rslots t. robj (rnodes t2 ! i) = ob) \<Longrightarrow>
        (\<exists>i < rslots t. robj (rnodes t ! i) = ob) \<or> ob = robj n" for ob
      using t1(3) by (metis n2 nth_list_update_eq nth_list_update_neq)
    show ?thesis
      unfolding e t3(1)
      using t3(2-5) t3(6) cnt t3(7) last fr False by (auto; blast)
  qed
qed


lemma ref_alloc_ok:
  "ref_shape (ref_alloc n)" "rslots (ref_alloc n) = n" "length (rfree (ref_alloc n)) = n"
  "ref_count (ref_alloc n) ob = 0" "i < n \<Longrightarrow> robj (rnodes (ref_alloc n) ! i) = ONull"
  "m \<in> set (rnodes (ref_alloc n)) \<Longrightarrow> robj m = ONull"
proof -
  have "concat (replicate n []) = ([] :: nat list)" by (induction n) auto
  then show "ref_shape (ref_alloc n)" by (simp add: ref_shape_def ref_alloc_def)
qed (auto simp: ref_alloc_def ref_count_def sum_list_replicate)

lemma ref_resize_ok:
  assumes "ref_inv t" "rfree t = []"
  shows "\<exists>t'. ref_resize (rslots t * 2) t = Some t' \<and> ref_inv t' \<and> rslots t' = rslots t * 2 \<and>
    rfree t' \<noteq> [] \<and> (\<forall>ob. ob \<noteq> ONull \<longrightarrow> ref_count t' ob = ref_count t ob) \<and>
    (\<forall>ob. ob \<noteq> ONull \<longrightarrow> (\<exists>i < rslots t'. robj (rnodes t' ! i) = ob) \<longrightarrow>
        (\<exists>i < rslots t. robj (rnodes t ! i) = ob))"
proof -
  have sh: "ref_shape t" and pos: "\<forall>n \<in> set (rnodes t). robj n \<noteq> ONull \<longrightarrow> 0 < rrefs n"
    using assms(1) by (simp_all add: ref_inv_def)
  obtain p where p: "rslots t = 2 ^ p" using assms(1) by (auto simp: ref_inv_def)
  have used: "robj (rnodes t ! i) \<noteq> ONull" if "i < rslots t" for i
  proof -
    have "i \<in> set (concat (rbuckets t))" using shape_nodes(1) [OF sh] assms(2) that by auto
    then obtain b where "b < rslots t" "i \<in> set (rbuckets t ! b)"
      using shape_len [OF sh] by (auto simp: in_set_conv_nth [of _ "rbuckets t"])
    then show ?thesis using shape_bucket [OF sh] by blast
  qed
  then have all: "\<forall>n \<in> set (rnodes t). robj n \<noteq> ONull" by (auto simp: in_set_conv_nth)
  then have f1: "filter (\<lambda>n. robj n \<noteq> ONull) (rnodes t) = rnodes t"
    and f2: "filter (\<lambda>x. x \<noteq> ONull) (map robj (rnodes t)) = map robj (rnodes t)"
    by (auto simp: filter_id_conv)
  have d: "distinct (map robj (rnodes t))"
    using shape_inj [OF sh] used by (auto simp: distinct_conv_nth)
  have p2: "rslots (ref_alloc (rslots t * 2)) = 2 ^ Suc p" by (simp add: ref_alloc_ok p)
  have "\<exists>t'. ref_refill (rnodes t) (ref_alloc (rslots t * 2)) 0 =
      Some (t', 0 + length (filter (\<lambda>n. robj n \<noteq> ONull) (rnodes t))) \<and>
    ref_shape t' \<and> rslots t' = rslots (ref_alloc (rslots t * 2)) \<and>
    (\<forall>n \<in> set (rnodes t'). robj n \<noteq> ONull \<longrightarrow> 0 < rrefs n) \<and>
    length (rfree t') = length (rfree (ref_alloc (rslots t * 2))) -
      length (filter (\<lambda>n. robj n \<noteq> ONull) (rnodes t)) \<and>
    (\<forall>ob. ob \<noteq> ONull \<longrightarrow> ref_count t' ob =
       ref_count (ref_alloc (rslots t * 2)) ob + sum_list (map (refs_to ob) (rnodes t))) \<and>
    (\<forall>ob. ob \<noteq> ONull \<longrightarrow> (\<exists>i < rslots (ref_alloc (rslots t * 2)). robj (rnodes t' ! i) = ob) \<longrightarrow>
        (\<exists>i < rslots (ref_alloc (rslots t * 2)). robj (rnodes (ref_alloc (rslots t * 2)) ! i) = ob) \<or>
        ob \<in> robj ` set (rnodes t))"
    by (rule ref_refill_ok [OF ref_alloc_ok(1) p2 _ pos]) (use d f2 in \<open>auto simp: ref_alloc_ok f1\<close>)
  then obtain t' where t': "ref_refill (rnodes t) (ref_alloc (rslots t * 2)) 0 = Some (t', rslots t)"
    "ref_shape t'" "rslots t' = rslots t * 2" "\<forall>n \<in> set (rnodes t'). robj n \<noteq> ONull \<longrightarrow> 0 < rrefs n"
    "length (rfree t') = rslots t"
    "\<forall>ob. ob \<noteq> ONull \<longrightarrow> ref_count t' ob = ref_count t ob"
    "\<forall>ob. ob \<noteq> ONull \<longrightarrow> (\<exists>i < rslots t * 2. robj (rnodes t' ! i) = ob) \<longrightarrow>
        (\<exists>i < rslots t * 2. robj (rnodes (ref_alloc (rslots t * 2)) ! i) = ob) \<or>
        ob \<in> robj ` set (rnodes t)"
    by (auto simp: f1 ref_alloc_ok(1-4) ref_count_def [of t])
  have "ref_inv t'" using t'(2-4) p by (auto simp: ref_inv_def intro!: exI [of _ "Suc p"])
  moreover have "rfree t' \<noteq> []" using t'(5) p by (cases "rfree t'") auto
  moreover have "\<exists>i < rslots t. robj (rnodes t ! i) = ob"
    if o': "ob \<noteq> ONull" "\<exists>i < rslots t'. robj (rnodes t' ! i) = ob" for ob
  proof -
    have "\<not> (\<exists>i < rslots t * 2. robj (rnodes (ref_alloc (rslots t * 2)) ! i) = ob)"
      using o'(1) ref_alloc_ok(5) by metis
    with t'(7) o' t'(3) have "ob \<in> robj ` set (rnodes t)" by metis
    then show ?thesis by (auto simp: in_set_conv_nth)
  qed
  moreover have "ref_resize (rslots t * 2) t = Some t'" using t'(1) by (simp add: ref_resize_def)
  ultimately show ?thesis using t'(3,6) by blast
qed

section \<open>Counting\<close>

lemma ref_get_ok:
  assumes inv: "ref_inv t" and obj: "obj \<noteq> ONull"
  shows "\<exists>i t'. ref_get obj t = Some (i, t') \<and> ref_shape t' \<and> (\<exists>p. rslots t' = 2 ^ p) \<and>
    i < rslots t' \<and> robj (rnodes t' ! i) = obj \<and>
    (\<forall>n \<in> set (rnodes t'). robj n \<noteq> ONull \<longrightarrow> robj n = obj \<or> 0 < rrefs n) \<and>
    (\<forall>ob. ob \<noteq> ONull \<longrightarrow> ref_count t' ob = ref_count t ob) \<and>
    (ref_find obj t \<noteq> None \<longrightarrow> t' = t)"
proof (cases "ref_find obj t")
  case (Some i)
  have sh: "ref_shape t" using inv by (simp add: ref_inv_def)
  obtain p where p: "rslots t = 2 ^ p" using inv by (auto simp: ref_inv_def)
  from Some ref_find_iff [OF sh p obj] have "i < rslots t" "robj (rnodes t ! i) = obj" by auto
  with Some inv show ?thesis by (auto simp: ref_get_def ref_inv_def)
next
  case None
  have sh: "ref_shape t" using inv by (simp add: ref_inv_def)
  obtain p where p: "rslots t = 2 ^ p" using inv by (auto simp: ref_inv_def)
  have absent: "\<forall>i < rslots t. robj (rnodes t ! i) \<noteq> obj"
    using None ref_find_iff [OF sh p obj] by (metis option.distinct(1))
  have "\<exists>t1. (if rslots t = rused t
               then (if rfree t = [] then ref_resize (rslots t * 2) t else None) else Some t) = Some t1 \<and>
      ref_inv t1 \<and> rfree t1 \<noteq> [] \<and> (\<forall>ob. ob \<noteq> ONull \<longrightarrow> ref_count t1 ob = ref_count t ob) \<and>
      (\<forall>i < rslots t1. robj (rnodes t1 ! i) \<noteq> obj)"
  proof (cases "rslots t = rused t")
    case True
    then have "rfree t = []" using shape_nodes(3) [OF sh] by simp
    from ref_resize_ok [OF inv this] this True absent obj show ?thesis by auto
  next
    case False
    then have "rfree t \<noteq> []" using shape_nodes(3) [OF sh] by auto
    with False inv absent show ?thesis by auto
  qed
  then obtain t1 where t1: "(if rslots t = rused t
               then (if rfree t = [] then ref_resize (rslots t * 2) t else None) else Some t) = Some t1"
      "ref_inv t1" "rfree t1 \<noteq> []" "\<forall>ob. ob \<noteq> ONull \<longrightarrow> ref_count t1 ob = ref_count t ob"
      "\<forall>i < rslots t1. robj (rnodes t1 ! i) \<noteq> obj" by blast
  obtain q where q: "rslots t1 = 2 ^ q" using t1(2) by (auto simp: ref_inv_def)
  have sh1: "ref_shape t1" and pos1: "\<forall>n \<in> set (rnodes t1). robj n \<noteq> ONull \<longrightarrow> 0 < rrefs n"
    using t1(2) by (simp_all add: ref_inv_def)
  from ref_add_ok [OF sh1 q obj t1(5,3)] obtain f t2 where
    t2: "ref_add (slot_of (rslots t1) obj) obj t1 = Some (f, t2)" "ref_shape t2" "f < rslots t1"
    "rslots t2 = rslots t1" "rnodes t2 = (rnodes t1)[f := \<lparr>robj = obj, rrefs = 0\<rparr>]"
    "rnodes t1 ! f = \<lparr>robj = ONull, rrefs = 0\<rparr>" by blast
  have g: "ref_get obj t = Some (f, t2)"
    using None t1(1) t2(1) by (simp add: ref_get_def)
  have c: "ref_count t2 ob = ref_count t ob" if "ob \<noteq> ONull" for ob
    using that t1(4) t2(3,6) by (simp add: ref_count_def t2(5) ref_count_update)
  have "\<forall>n \<in> set (rnodes t2). robj n \<noteq> ONull \<longrightarrow> robj n = obj \<or> 0 < rrefs n"
  proof
    fix n assume "n \<in> set (rnodes t2)"
    then have "n = \<lparr>robj = obj, rrefs = 0\<rparr> \<or> n \<in> set (rnodes t1)"
      using set_update_subset_insert [of "rnodes t1" f] unfolding t2(5) by blast
    then show "robj n \<noteq> ONull \<longrightarrow> robj n = obj \<or> 0 < rrefs n" using pos1 by auto
  qed
  with g t2 q c None show ?thesis by auto
qed

lemma ref_AddRef_ok:
  assumes inv: "ref_inv t" and obj: "obj \<noteq> ONull"
  shows "\<exists>t'. ref_AddRef obj t = Some t' \<and> ref_inv t' \<and>
    (\<forall>ob. ob \<noteq> ONull \<longrightarrow> ref_count t' ob = ref_count t ob + (if ob = obj then 1 else 0))"
proof -
  from ref_get_ok [OF assms] obtain i t1 p where t1: "ref_get obj t = Some (i, t1)" "ref_shape t1"
    "rslots t1 = 2 ^ p" "i < rslots t1" "robj (rnodes t1 ! i) = obj"
    "\<forall>n \<in> set (rnodes t1). robj n \<noteq> ONull \<longrightarrow> robj n = obj \<or> 0 < rrefs n"
    "\<forall>ob. ob \<noteq> ONull \<longrightarrow> ref_count t1 ob = ref_count t ob" by blast
  let ?n = "(rnodes t1 ! i)\<lparr>rrefs := rrefs (rnodes t1 ! i) + 1\<rparr>"
  let ?t = "t1\<lparr>rnodes := (rnodes t1)[i := ?n]\<rparr>"
  have sh: "ref_shape ?t" by (rule set_refs_ok [OF t1(2,4)]) (simp add: t1(5) obj)
  have "\<forall>n \<in> set ((rnodes t1)[i := ?n]). robj n \<noteq> ONull \<longrightarrow> 0 < rrefs n"
  proof
    fix n assume "n \<in> set ((rnodes t1)[i := ?n])"
    then obtain j where j: "j < rslots t1" "n = (rnodes t1)[i := ?n] ! j" by (auto simp: in_set_conv_nth)
    show "robj n \<noteq> ONull \<longrightarrow> 0 < rrefs n"
    proof (cases "j = i")
      case False
      with j have n: "n = rnodes t1 ! j" "n \<in> set (rnodes t1)" by auto
      have "robj n \<noteq> obj" if "robj n \<noteq> ONull"
        using shape_inj [OF t1(2) t1(4) j(1)] n(1) t1(5) obj False by metis
      with t1(6) n(2) show ?thesis by blast
    qed (use j t1(4) in simp)
  qed
  with sh t1(3) have i': "ref_inv ?t" by (auto simp: ref_inv_def)
  have c: "ref_count ?t ob = ref_count t ob + (if ob = obj then 1 else 0)" if "ob \<noteq> ONull" for ob
    using t1(4,5) t1(7) that ref_count_ge [OF t1(4), of ob]
    by (auto simp: ref_count_def ref_count_update refs_to_def)
  show ?thesis using t1(1) i' c by (auto simp: ref_AddRef_def)
qed


lemma ref_count_find:
  assumes "ref_inv t" "obj \<noteq> ONull"
  shows "0 < ref_count t obj \<longleftrightarrow> ref_find obj t \<noteq> None"
proof -
  have sh: "ref_shape t" using assms(1) by (simp add: ref_inv_def)
  obtain p where p: "rslots t = 2 ^ p" using assms(1) by (auto simp: ref_inv_def)
  show ?thesis
  proof (cases "ref_find obj t")
    case None
    then have "\<forall>i < rslots t. robj (rnodes t ! i) \<noteq> obj"
      using ref_find_iff [OF sh p assms(2)] by (metis option.distinct(1))
    then have "ref_count t obj = 0"
      by (auto simp: ref_count_def refs_to_def in_set_conv_nth sum_list_eq_0_iff)
    with None show ?thesis by simp
  next
    case (Some i)
    with ref_find_iff [OF sh p assms(2)] have i: "i < rslots t" "robj (rnodes t ! i) = obj" by auto
    then have "0 < rrefs (rnodes t ! i)" using assms by (auto simp: ref_inv_def)
    with ref_count_node [OF sh i assms(2)] Some show ?thesis by simp
  qed
qed

lemma ref_Release_ok:
  assumes inv: "ref_inv t" and obj: "obj \<noteq> ONull" and pos: "0 < ref_count t obj"
  shows "\<exists>t'. ref_Release obj t = Some (ref_count t obj = 1, t') \<and> ref_inv t' \<and>
    (\<forall>ob. ob \<noteq> ONull \<longrightarrow> ref_count t' ob = ref_count t ob - (if ob = obj then 1 else 0))"
proof -
  have sh: "ref_shape t" and used: "\<forall>n \<in> set (rnodes t). robj n \<noteq> ONull \<longrightarrow> 0 < rrefs n"
    using inv by (simp_all add: ref_inv_def)
  obtain p where p: "rslots t = 2 ^ p" using inv by (auto simp: ref_inv_def)
  from pos ref_count_find [OF inv obj] obtain i where f: "ref_find obj t = Some i" by auto
  then have i: "i < rslots t" "robj (rnodes t ! i) = obj" using ref_find_iff [OF sh p obj] by auto
  have c: "ref_count t obj = rrefs (rnodes t ! i)" by (rule ref_count_node [OF sh i obj])
  let ?n = "(rnodes t ! i)\<lparr>rrefs := rrefs (rnodes t ! i) - 1\<rparr>"
  define t1 where "t1 = t\<lparr>rnodes := (rnodes t)[i := ?n]\<rparr>"
  have s1: "ref_shape t1" unfolding t1_def by (rule set_refs_ok [OF sh i(1)]) (simp add: i obj)
  have n1: "rnodes t1 = (rnodes t)[i := ?n]" and l1: "rslots t1 = rslots t" by (simp_all add: t1_def)
  have cnt1: "ref_count t1 ob = ref_count t ob - (if ob = obj then 1 else 0)" for ob
    using i c pos ref_count_ge [OF i(1), of ob]
    by (auto simp: ref_count_def n1 ref_count_update refs_to_def)
  have oth: "0 < rrefs (rnodes t1 ! j)" if "j < rslots t" "j \<noteq> i" "robj (rnodes t1 ! j) \<noteq> ONull" for j
    using that used by (simp add: n1)
  show ?thesis
  proof (cases "ref_count t obj = 1")
    case False
    then have "ref_Release obj t = Some (False, t1)"
      using f c pos by (simp add: ref_Release_def Let_def t1_def)
    moreover have "\<forall>n \<in> set (rnodes t1). robj n \<noteq> ONull \<longrightarrow> 0 < rrefs n"
    proof
      fix n assume "n \<in> set (rnodes t1)"
      then obtain j where "j < rslots t" "n = rnodes t1 ! j" using l1 by (auto simp: in_set_conv_nth)
      with oth [of j] False c pos i(1) show "robj n \<noteq> ONull \<longrightarrow> 0 < rrefs n"
        by (cases "j = i") (auto simp: n1)
    qed
    then have "ref_inv t1" using s1 p l1 by (auto simp: ref_inv_def)
    ultimately show ?thesis using cnt1 False by simp
  next
    case True
    let ?b = "slot_of (rslots t) obj"
    let ?e = "\<lparr>robj = ONull, rrefs = 0\<rparr>"
    define t2 where "t2 = t\<lparr>rbuckets := (rbuckets t)[?b := remove1 i (rbuckets t ! ?b)],
      rfree := i # rfree t, rused := rused t - 1, rnodes := (rnodes t)[i := ?e]\<rparr>"
    have e: "(rnodes t ! i)\<lparr>rrefs := 0, robj := ONull\<rparr> = ?e" by (cases "rnodes t ! i") simp
    have r: "ref_Release obj t = Some (True, t2)"
      using f c True i(1) by (simp add: ref_Release_def Let_def t2_def e)
    have b: "?b < rslots t" by (rule slot_of_less [OF p])
    have ib: "i \<in> set (rbuckets t ! ?b)" using f by (auto simp: ref_find_def find_Some_iff in_set_conv_nth)
    from bucket_split [of ?b "rbuckets t"] b shape_len [OF sh] obtain A B where
      AB: "concat (rbuckets t) = A @ rbuckets t ! ?b @ B" "\<And>c. concat ((rbuckets t)[?b := c]) = A @ c @ B"
      by metis
    have d: "distinct (rfree t @ concat (rbuckets t))" by (rule shape_nodes(2) [OF sh])
    have n2: "rnodes t2 ! j = (if j = i then ?e else rnodes t ! j)" for j
      using i(1) by (simp add: t2_def nth_list_update)
    have l2: "rslots t2 = rslots t" by (simp add: t2_def)
    have db: "distinct (rbuckets t ! ?b)" using d AB by auto
    have inb: "j \<in> set (rbuckets t ! bb) \<and> j \<noteq> i" if "bb < rslots t" "j \<in> set (rbuckets t2 ! bb)" for bb j
    proof (cases "bb = ?b")
      case True
      with that b shape_len [OF sh] db show ?thesis by (simp add: t2_def set_remove1_eq)
    next
      case False
      with that have j: "j \<in> set (rbuckets t ! bb)" by (simp add: t2_def)
      with shape_bucket [OF sh that(1) j] i(2) False show ?thesis by auto
    qed
    have sh2: "ref_shape t2"
      unfolding ref_shape_def l2
    proof (intro conjI)
      show "mset (rfree t2 @ concat (rbuckets t2)) = mset [0..<rslots t]"
        using shape_perm [OF sh] ib i(1) by (simp add: t2_def AB)
      show "\<forall>j\<in>set (rfree t2). rnodes t2 ! j = ?e"
        using shape_free [OF sh] by (simp only: n2) (simp add: t2_def)
      show "\<forall>bb<rslots t. \<forall>j\<in>set (rbuckets t2 ! bb).
          robj (rnodes t2 ! j) \<noteq> ONull \<and> slot_of (rslots t) (robj (rnodes t2 ! j)) = bb"
        using inb shape_bucket [OF sh] by (metis n2)
      show "\<forall>j<rslots t. \<forall>k<rslots t. robj (rnodes t2 ! j) \<noteq> ONull \<longrightarrow>
          robj (rnodes t2 ! j) = robj (rnodes t2 ! k) \<longrightarrow> j = k"
      proof (intro allI impI)
        fix j k assume jk: "j < rslots t" "k < rslots t" "robj (rnodes t2 ! j) \<noteq> ONull"
          "robj (rnodes t2 ! j) = robj (rnodes t2 ! k)"
        from jk(3) have "j \<noteq> i" by (auto simp: n2)
        moreover from jk(3,4) have "k \<noteq> i" by (auto simp: n2)
        ultimately show "j = k" using shape_inj [OF sh jk(1,2)] jk(3,4) by (simp add: n2)
      qed
      show "rused t2 = length (concat (rbuckets t2))"
        using shape_used [OF sh] ib length_pos_if_in_set [OF ib]
        by (simp add: t2_def AB length_remove1 del: length_greater_0_conv)
    qed (simp add: t2_def shape_len [OF sh])
    have "\<forall>n \<in> set (rnodes t2). robj n \<noteq> ONull \<longrightarrow> 0 < rrefs n"
    proof
      fix n assume "n \<in> set (rnodes t2)"
      then obtain j where "j < rslots t" "n = rnodes t2 ! j" using l2 by (auto simp: in_set_conv_nth)
      then show "robj n \<noteq> ONull \<longrightarrow> 0 < rrefs n" using used by (simp add: n2)
    qed
    then have "ref_inv t2" using sh2 p l2 by (auto simp: ref_inv_def)
    moreover have "ref_count t2 ob = ref_count t ob - (if ob = obj then 1 else 0)" if "ob \<noteq> ONull" for ob
      using that i c True ref_count_ge [OF i(1), of ob]
      by (auto simp: ref_count_def t2_def ref_count_update refs_to_def)
    ultimately show ?thesis using r True by simp
  qed
qed


lemma ref_create_ok: "ref_inv ref_create" "ref_count ref_create ob = 0"
proof -
  have "\<exists>p. (4::nat) = 2 ^ p" by (rule exI [of _ 2]) simp
  then show "ref_inv ref_create"
    using ref_alloc_ok(1,2,6) by (auto simp: ref_inv_def ref_create_def)
  show "ref_count ref_create ob = 0" by (simp add: ref_create_def ref_alloc_ok)
qed

section \<open>Histories\<close>

datatype ref_op = RAdd lvobj | RRelease lvobj

fun ref_run :: "reftab \<Rightarrow> ref_op list \<Rightarrow> (reftab \<times> bool list) option" where
  "ref_run t [] = Some (t, [])"
| "ref_run t (RAdd ob # ps) = do { t \<leftarrow> ref_AddRef ob t; ref_run t ps }"
| "ref_run t (RRelease ob # ps) = do {
     (b, t) \<leftarrow> ref_Release ob t;
     (t, bs) \<leftarrow> ref_run t ps;
     Some (t, b # bs)
   }"

text \<open>The same on plain counters: legal when nothing is released that is not held.\<close>

fun count_run :: "(lvobj \<Rightarrow> nat) \<Rightarrow> ref_op list \<Rightarrow> ((lvobj \<Rightarrow> nat) \<times> bool list) option" where
  "count_run c [] = Some (c, [])"
| "count_run c (RAdd ob # ps) =
     (if ob = ONull then None else count_run (c(ob := c ob + 1)) ps)"
| "count_run c (RRelease ob # ps) =
     (if ob = ONull \<or> c ob = 0 then None
      else do { (c', bs) \<leftarrow> count_run (c(ob := c ob - 1)) ps; Some (c', (c ob = 1) # bs) })"

lemma ref_run_counts:
  assumes "ref_inv t" "\<forall>ob. ob \<noteq> ONull \<longrightarrow> ref_count t ob = c ob" "count_run c ps = Some (c', bs)"
  shows "\<exists>t'. ref_run t ps = Some (t', bs) \<and> ref_inv t' \<and> (\<forall>ob. ob \<noteq> ONull \<longrightarrow> ref_count t' ob = c' ob)"
  using assms
proof (induction ps arbitrary: t c bs)
  case (Cons p ps)
  show ?case
  proof (cases p)
    case (RAdd ob)
    with Cons.prems(3) have ob: "ob \<noteq> ONull" and r: "count_run (c(ob := c ob + 1)) ps = Some (c', bs)"
      by (auto split: if_splits)
    from ref_AddRef_ok [OF Cons.prems(1) ob] obtain t1 where t1: "ref_AddRef ob t = Some t1" "ref_inv t1"
      "\<forall>x. x \<noteq> ONull \<longrightarrow> ref_count t1 x = ref_count t x + (if x = ob then 1 else 0)" by blast
    have "\<forall>x. x \<noteq> ONull \<longrightarrow> ref_count t1 x = (c(ob := c ob + 1)) x"
      using t1(3) Cons.prems(2) by simp
    from Cons.IH [OF t1(2) this r] t1(1) RAdd show ?thesis by simp
  next
    case (RRelease ob)
    with Cons.prems(3) obtain bs' where ob: "ob \<noteq> ONull" "c ob \<noteq> 0"
      and r: "count_run (c(ob := c ob - 1)) ps = Some (c', bs')" and bs: "bs = (c ob = 1) # bs'"
      by (auto split: if_splits simp: bind_eq_Some_conv)
    have pos: "0 < ref_count t ob" using ob Cons.prems(2) by simp
    from ref_Release_ok [OF Cons.prems(1) ob(1) pos] obtain t1 where
      t1: "ref_Release ob t = Some (ref_count t ob = 1, t1)" "ref_inv t1"
      "\<forall>x. x \<noteq> ONull \<longrightarrow> ref_count t1 x = ref_count t x - (if x = ob then 1 else 0)" by blast
    have "\<forall>x. x \<noteq> ONull \<longrightarrow> ref_count t1 x = (c(ob := c ob - 1)) x"
      using t1(3) Cons.prems(2) by simp
    from Cons.IH [OF t1(2) this r] t1(1) RRelease ob(1) Cons.prems(2) bs show ?thesis by auto
  qed
qed simp

section \<open>Properties\<close>

text \<open>
  C9: in every history of \<open>AddRef\<close> and \<open>Release\<close> that releases only held objects, no assertion
  fails, \<open>Release\<close> answers true exactly when the last reference goes, and at the end
  \<open>GetRefCount\<close> of a held object gives the number of references added less those released.
\<close>

theorem ref_table_counts:
  assumes "count_run (\<lambda>_. 0) ps = Some (c, bs)"
  shows "\<exists>t. ref_run ref_create ps = Some (t, bs) \<and>
     (\<forall>ob. ob \<noteq> ONull \<longrightarrow> 0 < c ob \<longrightarrow> ref_GetRefCount ob t = Some (c ob, t))"
proof -
  from ref_run_counts [OF ref_create_ok(1) _ assms] ref_create_ok(2) obtain t where
    t: "ref_run ref_create ps = Some (t, bs)" "ref_inv t"
    "\<forall>ob. ob \<noteq> ONull \<longrightarrow> ref_count t ob = c ob" by auto
  have "ref_GetRefCount ob t = Some (c ob, t)" if ob: "ob \<noteq> ONull" "0 < c ob" for ob
  proof -
    have "ref_find ob t \<noteq> None" using ref_count_find [OF t(2) ob(1)] ob t(3) by simp
    with ref_get_ok [OF t(2) ob(1)] obtain i where
      i: "ref_get ob t = Some (i, t)" "ref_shape t" "i < rslots t" "robj (rnodes t ! i) = ob" by blast
    with ref_count_node [OF i(2-4) ob(1)] t(3) ob(1) show ?thesis by (simp add: ref_GetRefCount_def)
  qed
  with t(1) show ?thesis by blast
qed

lemma ref_table_counts_witness:
  "\<exists>t. ref_run ref_create [RAdd (OString ''a''), RAdd (OInteger 1), RAdd (OString ''a''),
      RRelease (OInteger 1)] = Some (t, [True]) \<and>
    ref_GetRefCount (OString ''a'') t = Some (2, t)"
  using ref_table_counts [of "[RAdd (OString ''a''), RAdd (OInteger 1), RAdd (OString ''a''),
      RRelease (OInteger 1)]"] by (auto simp: numeral_2_eq_2)

text \<open>
  Asking for the count of an object that is not held stores it with no references; the next time
  the table grows, the assertion on the counts fails.
\<close>

lemma GetRefCount_breaks_growth:
  "(do { (n, t) \<leftarrow> ref_GetRefCount (OInteger 9) ref_create;
         t \<leftarrow> ref_AddRef (OInteger 1) t; t \<leftarrow> ref_AddRef (OInteger 2) t; t \<leftarrow> ref_AddRef (OInteger 3) t;
         ref_AddRef (OInteger 4) t }) = None"
  by code_simp

end
