(* ===== verification/Bytecode.thy ===== *)
theory Bytecode
  imports Objects
begin

text \<open>
  Instructions (\<^verbatim>\<open>src/opcodes.h\<close>) and compiled functions (\<^verbatim>\<open>src/funcproto.h\<close>), with the two
  lookups the debugger makes in a compiled function (\<^verbatim>\<open>src/object.cpp\<close>): \<open>GetLine\<close>, a binary search
  of the line table, and \<open>GetLocal\<close>.
\<close>

section \<open>Instructions\<close>

datatype (plugins only: code size) opcode =
    OP_LINE | OP_LOAD | OP_LOADINT | OP_LOADFLOAT | OP_DLOAD | OP_TAILCALL | OP_CALL | OP_PREPCALL
  | OP_PREPCALLK | OP_GETK | OP_MOVE | OP_NEWSLOT | OP_DELETE | OP_SET | OP_GET | OP_EQ | OP_NE
  | OP_ADD | OP_SUB | OP_MUL | OP_DIV | OP_MOD | OP_BITW | OP_RETURN | OP_LOADNULLS | OP_LOADROOT
  | OP_LOADBOOL | OP_DMOVE | OP_JMP | OP_JCMP | OP_JZ | OP_SETOUTER | OP_GETOUTER | OP_NEWOBJ
  | OP_APPENDARRAY | OP_COMPARITH | OP_INC | OP_INCL | OP_PINC | OP_PINCL | OP_CMP | OP_EXISTS
  | OP_INSTANCEOF | OP_AND | OP_OR | OP_NEG | OP_NOT | OP_BWNOT | OP_CLOSURE | OP_YIELD | OP_RESUME
  | OP_FOREACH | OP_POSTFOREACH | OP_CLONE | OP_TYPEOF | OP_PUSHTRAP | OP_POPTRAP | OP_THROW
  | OP_NEWSLOTA | OP_GETBASE | OP_CLOSE

text \<open>The numeric codes follow the order of the enumeration.\<close>

definition all_opcodes :: "opcode list" where
  "all_opcodes =
     [OP_LINE, OP_LOAD, OP_LOADINT, OP_LOADFLOAT, OP_DLOAD, OP_TAILCALL, OP_CALL, OP_PREPCALL,
      OP_PREPCALLK, OP_GETK, OP_MOVE, OP_NEWSLOT, OP_DELETE, OP_SET, OP_GET, OP_EQ, OP_NE, OP_ADD,
      OP_SUB, OP_MUL, OP_DIV, OP_MOD, OP_BITW, OP_RETURN, OP_LOADNULLS, OP_LOADROOT, OP_LOADBOOL,
      OP_DMOVE, OP_JMP, OP_JCMP, OP_JZ, OP_SETOUTER, OP_GETOUTER, OP_NEWOBJ, OP_APPENDARRAY,
      OP_COMPARITH, OP_INC, OP_INCL, OP_PINC, OP_PINCL, OP_CMP, OP_EXISTS, OP_INSTANCEOF, OP_AND,
      OP_OR, OP_NEG, OP_NOT, OP_BWNOT, OP_CLOSURE, OP_YIELD, OP_RESUME, OP_FOREACH, OP_POSTFOREACH,
      OP_CLONE, OP_TYPEOF, OP_PUSHTRAP, OP_POPTRAP, OP_THROW, OP_NEWSLOTA, OP_GETBASE, OP_CLOSE]"

fun index_of :: "'a \<Rightarrow> 'a list \<Rightarrow> nat" where
  "index_of x [] = 0"
| "index_of x (y # ys) = (if x = y then 0 else Suc (index_of x ys))"

definition op_code :: "opcode \<Rightarrow> u8" where
  "op_code p = of_nat (index_of p all_opcodes)"

record instr =
  iop :: opcode
  iarg0 :: u8
  iarg1 :: u32
  iarg2 :: u8
  iarg3 :: u8

text \<open>The constructor of \<open>LVInstruction\<close> truncates its arguments.\<close>

definition Instr :: "opcode \<Rightarrow> int \<Rightarrow> int \<Rightarrow> int \<Rightarrow> int \<Rightarrow> instr" where
  "Instr p a0 a1 a2 a3 =
     \<lparr>iop = p, iarg0 = of_int a0, iarg1 = of_int a1, iarg2 = of_int a2, iarg3 = of_int a3\<rparr>"

definition MAX_FUNC_STACKSIZE :: int where "MAX_FUNC_STACKSIZE = 0xFF"

definition MAX_LITERALS :: int where "MAX_LITERALS = 0x7FFFFFFF"

datatype bitwiseop = BW_AND | BW_OR | BW_XOR | BW_SHIFTL | BW_SHIFTR | BW_USHIFTR

fun bitwise_of :: "nat \<Rightarrow> bitwiseop option" where
  "bitwise_of n =
     (if n = 0 then Some BW_AND else if n = 2 then Some BW_OR else if n = 3 then Some BW_XOR
      else if n = 4 then Some BW_SHIFTL else if n = 5 then Some BW_SHIFTR
      else if n = 6 then Some BW_USHIFTR else None)"

datatype cmpop = CMP_G | CMP_GE | CMP_L | CMP_LE | CMP_3W

fun cmpop_of :: "nat \<Rightarrow> cmpop option" where
  "cmpop_of n =
     (if n = 0 then Some CMP_G else if n = 2 then Some CMP_GE else if n = 3 then Some CMP_L
      else if n = 4 then Some CMP_LE else if n = 5 then Some CMP_3W else None)"

definition AAT_STACK :: u8 where "AAT_STACK = 0"
definition AAT_LITERAL :: u8 where "AAT_LITERAL = 1"
definition AAT_INT :: u8 where "AAT_INT = 2"
definition AAT_FLOAT :: u8 where "AAT_FLOAT = 3"
definition AAT_BOOL :: u8 where "AAT_BOOL = 4"

lemma op_code_inj: "inj op_code"
proof (rule injI)
  fix p q assume "op_code p = op_code q"
  moreover have "p \<in> set all_opcodes" "q \<in> set all_opcodes"
    by (cases p; simp add: all_opcodes_def) (cases q; simp add: all_opcodes_def)
  moreover have "map op_code all_opcodes = map of_nat [0..<61]" by code_simp
  then have "distinct (map op_code all_opcodes)" by (simp only:) code_simp
  ultimately show "p = q" by (auto simp: distinct_map inj_on_def)
qed

section \<open>Compiled functions\<close>

datatype outertype = otLOCAL | otOUTER

record outervar =
  ov_type :: outertype
  ov_name :: lvobj
  ov_src :: lvobj

record localvar =
  lv_name :: lvobj
  lv_start :: u64
  lv_end :: u64
  lv_pos :: u64

record lineinfo =
  li_line :: int
  li_op :: int

record funcproto =
  p_sourcename :: lvobj
  p_name :: lvobj
  p_stacksize :: int
  p_bgenerator :: bool
  p_varparams :: bool
  p_localvarinfos :: "localvar list"
  p_lineinfos :: "lineinfo list"
  p_literals :: "lvobj list"
  p_parameters :: "lvobj list"
  p_functions :: "lvobj list"
  p_outervalues :: "outervar list"
  p_defaultparams :: "int list"
  p_instructions :: "instr list"

subsection \<open>The line of an instruction\<close>

text \<open>The binary search of \<open>GetLine\<close>: the index \<open>mid\<close> when the loop ends.\<close>

function line_search :: "lineinfo list \<Rightarrow> int \<Rightarrow> int \<Rightarrow> int \<Rightarrow> int \<Rightarrow> int" where
  "line_search ls opi low high mid =
     (if low \<le> high then
        let mid = low + (high - low) div 2; curop = li_op (ls ! nat mid) in
        if curop > opi then line_search ls opi low (mid - 1) mid
        else if curop < opi then
          (if mid < int (length ls) - 1 \<and> li_op (ls ! nat (mid + 1)) \<ge> opi then mid
           else line_search ls opi (mid + 1) high mid)
        else mid
      else mid)"
  by pat_completeness auto
termination
  by (relation "measure (\<lambda>(ls, opi, low, high, mid). nat (high - low + 1))") auto

declare line_search.simps [simp del]

fun line_back :: "lineinfo list \<Rightarrow> int \<Rightarrow> nat \<Rightarrow> nat" where
  "line_back ls opi 0 = 0"
| "line_back ls opi (Suc mid) =
     (if li_op (ls ! Suc mid) \<ge> opi then line_back ls opi mid else Suc mid)"

text \<open>An empty line table would be read outside.\<close>

definition GetLine :: "funcproto \<Rightarrow> int \<Rightarrow> int option" where
  "GetLine f opi =
     (let ls = p_lineinfos f in
      if ls = [] then None
      else Some (li_line (ls ! line_back ls opi
                   (nat (line_search ls opi 0 (int (length ls) - 1) 0)))))"

subsection \<open>The live locals of an instruction\<close>

fun local_search :: "localvar list \<Rightarrow> u64 \<Rightarrow> u64 \<Rightarrow> localvar option" where
  "local_search [] nseq nop = None"
| "local_search (l # ls) nseq nop =
     (if lv_start l \<le> nop \<and> nop \<le> lv_end l
      then (if nseq = 0 then Some l else local_search ls (nseq - 1) nop)
      else local_search ls nseq nop)"

text \<open>\<open>GetLocal\<close>: the entry whose name is returned and whose stack position is pushed.\<close>

definition GetLocal :: "funcproto \<Rightarrow> u64 \<Rightarrow> u64 \<Rightarrow> localvar option" where
  "GetLocal f nseq nop =
     (if nseq \<le> of_nat (length (p_localvarinfos f))
      then local_search (p_localvarinfos f) nseq nop else None)"

section \<open>The searches are right\<close>

definition lines_sorted :: "lineinfo list \<Rightarrow> bool" where
  "lines_sorted ls \<longleftrightarrow> sorted (map li_op ls)"

lemma lines_sortedD:
  "lines_sorted ls \<Longrightarrow> i \<le> j \<Longrightarrow> j < length ls \<Longrightarrow> li_op (ls ! i) \<le> li_op (ls ! j)"
  unfolding lines_sorted_def using sorted_nth_mono [of "map li_op ls" i j] by simp

text \<open>Specification: the last entry before the instruction, or the first one of the table.\<close>

definition line_index :: "lineinfo list \<Rightarrow> int \<Rightarrow> nat" where
  "line_index ls opi = length (takeWhile (\<lambda>l. li_op l < opi) ls) - 1"

lemma takeWhile_sorted:
  assumes "lines_sorted ls" "i < length ls"
  shows "i < length (takeWhile (\<lambda>l. li_op l < opi) ls) \<longleftrightarrow> li_op (ls ! i) < opi"
proof
  assume "i < length (takeWhile (\<lambda>l. li_op l < opi) ls)"
  then show "li_op (ls ! i) < opi" by (metis nth_mem set_takeWhileD takeWhile_nth)
next
  assume lt: "li_op (ls ! i) < opi"
  show "i < length (takeWhile (\<lambda>l. li_op l < opi) ls)"
  proof (rule ccontr)
    let ?n = "length (takeWhile (\<lambda>l. li_op l < opi) ls)"
    assume "\<not> i < ?n"
    then have n: "?n \<le> i" "?n < length ls" using assms(2) by simp_all
    then have "\<not> li_op (ls ! ?n) < opi" using nth_length_takeWhile [of "\<lambda>l. li_op l < opi" ls] by simp
    with lines_sortedD [OF assms(1) n(1) assms(2)] lt show False by simp
  qed
qed

lemma line_back_index:
  assumes "lines_sorted ls" "m < length ls" "line_index ls opi \<le> m"
  shows "line_back ls opi m = line_index ls opi"
  using assms
proof (induction ls opi m rule: line_back.induct)
  case (1 ls opi)
  then show ?case by simp
next
  case (2 ls opi m)
  show ?case
  proof (cases "li_op (ls ! Suc m) \<ge> opi")
    case True
    then have "\<not> Suc m < length (takeWhile (\<lambda>l. li_op l < opi) ls)"
      using takeWhile_sorted [OF "2.prems"(1,2), of opi] by simp
    then have "line_index ls opi \<le> m" by (simp add: line_index_def)
    with "2.IH" "2.prems" True show ?thesis by simp
  next
    case False
    then have "Suc m < length (takeWhile (\<lambda>l. li_op l < opi) ls)"
      using takeWhile_sorted [OF "2.prems"(1,2), of opi] by simp
    with "2.prems"(3) False show ?thesis by (simp add: line_index_def)
  qed
qed

text \<open>
  The search keeps: entries below \<open>low\<close> are before the instruction, entries above \<open>high\<close> are not, and
  the last probe is at least \<open>low - 1\<close>.
\<close>

lemma line_search_bound:
  assumes "lines_sorted ls" "ls \<noteq> []" "0 \<le> low" "high < int (length ls)" "low \<le> high + 1"
    and "low - 1 \<le> mid" "0 \<le> mid" "mid < int (length ls)"
    and "\<forall>i. high < int i \<longrightarrow> i < length ls \<longrightarrow> opi \<le> li_op (ls ! i)"
  shows "0 \<le> line_search ls opi low high mid \<and> line_search ls opi low high mid < int (length ls) \<and>
    int (line_index ls opi) \<le> line_search ls opi low high mid"
  using assms
proof (induction ls opi low high mid rule: line_search.induct)
  case (1 ls opi low high mid)
  let ?n = "length (takeWhile (\<lambda>l. li_op l < opi) ls)"
  have idx: "int (line_index ls opi) \<le> max 0 h"
    if h: "\<forall>i. h < int i \<longrightarrow> i < length ls \<longrightarrow> opi \<le> li_op (ls ! i)" for h
  proof (cases "?n = 0")
    case False
    let ?i = "?n - 1"
    have "?i < ?n" using False by simp
    moreover have "?n \<le> length ls" by (rule length_takeWhile_le)
    ultimately have "?i < length ls" by (rule less_le_trans)
    with \<open>?i < ?n\<close> have "li_op (ls ! ?i) < opi" using takeWhile_sorted [OF "1.prems"(1)] by blast
    with h \<open>?i < length ls\<close> have "int ?i \<le> h" by force
    then show ?thesis by (simp add: line_index_def)
  qed (simp add: line_index_def)
  show ?case
  proof (cases "low \<le> high")
    case False
    then have "int (line_index ls opi) \<le> max 0 high" using idx "1.prems"(9) by blast
    with False "1.prems" show ?thesis by (subst (1 2 3) line_search.simps) simp
  next
    case True
    define m where "m = low + (high - low) div 2"
    have m: "low \<le> m" "m \<le> high" using True by (auto simp: m_def)
    have e: "line_search ls opi low high mid =
       (if li_op (ls ! nat m) > opi then line_search ls opi low (m - 1) m
        else if li_op (ls ! nat m) < opi then
          (if m < int (length ls) - 1 \<and> li_op (ls ! nat (m + 1)) \<ge> opi then m
           else line_search ls opi (m + 1) high m)
        else m)"
      using True by (subst line_search.simps) (simp add: m_def Let_def)
    have above: "\<forall>i. m - 1 < int i \<longrightarrow> i < length ls \<longrightarrow> opi \<le> li_op (ls ! i)" if "li_op (ls ! nat m) \<ge> opi"
    proof (intro allI impI)
      fix i assume i: "m - 1 < int i" "i < length ls"
      then have "nat m \<le> i" by linarith
      from lines_sortedD [OF "1.prems"(1) this i(2)] that show "opi \<le> li_op (ls ! i)" by linarith
    qed
    consider (gt) "li_op (ls ! nat m) > opi" | (eq) "li_op (ls ! nat m) = opi"
      | (br) "li_op (ls ! nat m) < opi" "m < int (length ls) - 1 \<and> li_op (ls ! nat (m + 1)) \<ge> opi"
      | (lt) "li_op (ls ! nat m) < opi" "\<not> (m < int (length ls) - 1 \<and> li_op (ls ! nat (m + 1)) \<ge> opi)"
      by linarith
    then show ?thesis
    proof cases
      case gt
      have "0 \<le> line_search ls opi low (m - 1) m \<and> line_search ls opi low (m - 1) m < int (length ls) \<and>
          int (line_index ls opi) \<le> line_search ls opi low (m - 1) m"
        by (rule "1.IH"(1) [OF True m_def refl]) (use gt m "1.prems" above in auto)
      with gt e show ?thesis by simp
    next
      case eq
      then have "int (line_index ls opi) \<le> max 0 (m - 1)" using idx above by simp
      with eq e m "1.prems" show ?thesis by simp
    next
      case br
      have "\<forall>i. m < int i \<longrightarrow> i < length ls \<longrightarrow> opi \<le> li_op (ls ! i)"
      proof (intro allI impI)
        fix i assume i: "m < int i" "i < length ls"
        have "li_op (ls ! nat (m + 1)) \<le> li_op (ls ! i)"
          by (rule lines_sortedD [OF "1.prems"(1)]) (use i in auto)
        with br show "opi \<le> li_op (ls ! i)" by linarith
      qed
      then have "int (line_index ls opi) \<le> max 0 m" using idx by blast
      with br e m "1.prems" show ?thesis by simp
    next
      case lt
      have "0 \<le> line_search ls opi (m + 1) high m \<and> line_search ls opi (m + 1) high m < int (length ls) \<and>
          int (line_index ls opi) \<le> line_search ls opi (m + 1) high m"
        by (rule "1.IH"(2) [OF True m_def refl]) (use lt m "1.prems" in auto)
      with lt e show ?thesis by auto
    qed
  qed
qed

section \<open>Properties\<close>

text \<open>
  C11: for a line table sorted by instruction, the binary search of \<open>GetLine\<close> ends and gives the line
  of the last entry that starts before the instruction, or of the first entry if there is none.
\<close>

theorem GetLine_last_before:
  assumes "lines_sorted (p_lineinfos f)" "p_lineinfos f \<noteq> []"
  shows "GetLine f opi = Some (li_line (p_lineinfos f ! line_index (p_lineinfos f) opi))"
proof -
  let ?ls = "p_lineinfos f"
  let ?s = "line_search ?ls opi 0 (int (length ?ls) - 1) 0"
  have s: "0 \<le> ?s \<and> ?s < int (length ?ls) \<and> int (line_index ?ls opi) \<le> ?s"
    by (rule line_search_bound [OF assms]) (use assms(2) in auto)
  have "line_back ?ls opi (nat ?s) = line_index ?ls opi"
    by (rule line_back_index [OF assms(1)]) (use s in auto)
  with assms(2) show ?thesis by (simp add: GetLine_def Let_def)
qed

definition line_demo :: funcproto where
  "line_demo = \<lparr>p_sourcename = ONull, p_name = ONull, p_stacksize = 0, p_bgenerator = False,
     p_varparams = False, p_localvarinfos = [],
     p_lineinfos = [\<lparr>li_line = 1, li_op = 0\<rparr>, \<lparr>li_line = 2, li_op = 3\<rparr>, \<lparr>li_line = 5, li_op = 7\<rparr>],
     p_literals = [], p_parameters = [], p_functions = [], p_outervalues = [], p_defaultparams = [],
     p_instructions = []\<rparr>"

lemma GetLine_last_before_witness: "GetLine line_demo 5 = Some 2 \<and> GetLine line_demo 7 = Some 2"
proof -
  have a: "lines_sorted (p_lineinfos line_demo)" "p_lineinfos line_demo \<noteq> []"
    by (simp_all add: lines_sorted_def line_demo_def)
  show ?thesis
    using GetLine_last_before [OF a, of 5] GetLine_last_before [OF a, of 7]
    by (simp add: line_index_def line_demo_def)
qed

end
