(* ===== verification/FuncState.thy ===== *)
theory FuncState
  imports Table_Contract Bytecode
begin

text \<open>
  The per-function state of the compiler (\<^verbatim>\<open>src/funcstate.h\<close>, \<^verbatim>\<open>src/funcstate.cpp\<close>): the literal
  pool, the register stack, local and outer variables, the line table and the instruction
  buffer with its peephole optimiser. The states of the functions being compiled form a chain, the
  innermost first: \<open>_parent\<close> is the tail.
\<close>

section \<open>The state\<close>

record fstate =
  f_returnexp :: int
  f_vlocals :: "localvar list"
  f_targetstack :: "int list"
  f_stacksize :: nat
  f_varparams :: bool
  f_bgenerator :: bool
  f_unresolvedbreaks :: "int list"
  f_unresolvedcontinues :: "int list"
  f_functions :: "lvobj list"
  f_parameters :: "lvobj list"
  f_outervalues :: "outervar list"
  f_instructions :: "instr list"
  f_localvarinfos :: "localvar list"
  f_literals :: lvtable
  f_strings :: lvtable
  f_name :: lvobj
  f_sourcename :: lvobj
  f_nliterals :: int
  f_lineinfos :: "lineinfo list"
  f_breaktargets :: "int list"
  f_continuetargets :: "int list"
  f_defaultparams :: "int list"
  f_lastline :: int
  f_traps :: int
  f_outers :: int
  f_optimization :: bool

definition fstate_create :: fstate where
  "fstate_create = \<lparr>f_returnexp = 0, f_vlocals = [], f_targetstack = [], f_stacksize = 0,
     f_varparams = False, f_bgenerator = False, f_unresolvedbreaks = [], f_unresolvedcontinues = [],
     f_functions = [], f_parameters = [], f_outervalues = [], f_instructions = [],
     f_localvarinfos = [], f_literals = table_create 0, f_strings = table_create 0, f_name = ONull,
     f_sourcename = ONull, f_nliterals = 0, f_lineinfos = [], f_breaktargets = [],
     f_continuetargets = [], f_defaultparams = [], f_lastline = 0, f_traps = 0, f_outers = 0,
     f_optimization = True\<rparr>"

definition GetCurrentPos :: "fstate \<Rightarrow> int" where
  "GetCurrentPos f = int (length (f_instructions f)) - 1"

definition SnoozeOpt :: "fstate \<Rightarrow> fstate" where
  "SnoozeOpt f = f\<lparr>f_optimization := False\<rparr>"

definition AddDefaultParam :: "int \<Rightarrow> fstate \<Rightarrow> fstate" where
  "AddDefaultParam trg f = f\<lparr>f_defaultparams := f_defaultparams f @ [trg]\<rparr>"

definition PopInstructions :: "nat \<Rightarrow> fstate \<Rightarrow> fstate option" where
  "PopInstructions n f =
     (if n \<le> length (f_instructions f)
      then Some (f\<lparr>f_instructions := take (length (f_instructions f) - n) (f_instructions f)\<rparr>)
      else None)"

section \<open>Literals\<close>

text \<open>
  \<open>GetConstant\<close>: the outer option is a table operation that does not return, the sum the compiler
  error. The pool is read with \<open>wr\<close> for weak references, as every \<open>Get\<close>.
\<close>

definition GetConstant :: "weak_store \<Rightarrow> lvobj \<Rightarrow> fstate \<Rightarrow> (string + int \<times> fstate) option" where
  "GetConstant wr cons f = do {
     v \<leftarrow> table_Get wr (f_literals f) cons;
     (case v of
        Some (OInteger i) \<Rightarrow> Some (Inr (sint i, f))
      | Some _ \<Rightarrow> None
      | None \<Rightarrow> do {
          (b, t) \<leftarrow> table_NewSlot (f_literals f) cons (OInteger (of_int (f_nliterals f)));
          let n = f_nliterals f + 1;
          if n > MAX_LITERALS then Some (Inl ''internal compiler error: too many literals'')
          else Some (Inr (f_nliterals f, f\<lparr>f_literals := t, f_nliterals := n\<rparr>))
        })
   }"

definition GetNumericConstant :: "weak_store \<Rightarrow> u64 + u32 \<Rightarrow> fstate \<Rightarrow> (string + int \<times> fstate) option" where
  "GetNumericConstant wr c f =
     GetConstant wr (case c of Inl i \<Rightarrow> OInteger i | Inr x \<Rightarrow> OFloat x) f"

definition fs_CreateString :: "string \<Rightarrow> fstate \<Rightarrow> (lvobj \<times> fstate) option" where
  "fs_CreateString s f = do {
     (b, t) \<leftarrow> table_NewSlot (f_strings f) (OString s) (OInteger 1);
     Some (OString s, f\<lparr>f_strings := t\<rparr>)
   }"

text \<open>\<open>IsConstant\<close> asks the table of constants of the shared state.\<close>

definition IsConstant :: "weak_store \<Rightarrow> lvtable \<Rightarrow> lvobj \<Rightarrow> lvobj option option" where
  "IsConstant wr consts name = table_Get wr consts name"

section \<open>Registers\<close>

definition null_local :: localvar where
  "null_local = \<lparr>lv_name = ONull, lv_start = 0, lv_end = 0, lv_pos = 0\<rparr>"

definition AllocStackPos :: "fstate \<Rightarrow> string + nat \<times> fstate" where
  "AllocStackPos f =
     (let npos = length (f_vlocals f); f = f\<lparr>f_vlocals := f_vlocals f @ [null_local]\<rparr> in
      if length (f_vlocals f) > f_stacksize f then
        (if int (f_stacksize f) > MAX_FUNC_STACKSIZE then Inl ''internal compiler error: too many locals''
         else Inr (npos, f\<lparr>f_stacksize := length (f_vlocals f)\<rparr>))
      else Inr (npos, f))"

definition PushTarget :: "int \<Rightarrow> fstate \<Rightarrow> string + int \<times> fstate" where
  "PushTarget n f =
     (if n \<noteq> - 1 then Inr (n, f\<lparr>f_targetstack := f_targetstack f @ [n]\<rparr>)
      else (case AllocStackPos f of
              Inl e \<Rightarrow> Inl e
            | Inr (p, f) \<Rightarrow> Inr (int p, f\<lparr>f_targetstack := f_targetstack f @ [int p]\<rparr>)))"

definition GetUpTarget :: "nat \<Rightarrow> fstate \<Rightarrow> int option" where
  "GetUpTarget n f =
     (if n < length (f_targetstack f)
      then Some (f_targetstack f ! (length (f_targetstack f) - 1 - n)) else None)"

definition TopTarget :: "fstate \<Rightarrow> int option" where
  "TopTarget f = (if f_targetstack f = [] then None else Some (last (f_targetstack f)))"

text \<open>\<open>PopTarget\<close>: outside the registers, or with no target, the assertion fails.\<close>

definition PopTarget :: "fstate \<Rightarrow> (int \<times> fstate) option" where
  "PopTarget f =
     (if f_targetstack f = [] then None
      else let npos = last (f_targetstack f) in
        if 0 \<le> npos \<and> npos < int (length (f_vlocals f)) then
          let f = (if lv_name (f_vlocals f ! nat npos) = ONull
                   then f\<lparr>f_vlocals := butlast (f_vlocals f)\<rparr> else f)
          in Some (npos, f\<lparr>f_targetstack := butlast (f_targetstack f)\<rparr>)
        else None)"

definition GetStackSize :: "fstate \<Rightarrow> nat" where
  "GetStackSize f = length (f_vlocals f)"

definition is_outer_local :: "localvar \<Rightarrow> bool" where
  "is_outer_local l \<longleftrightarrow> lv_end l = 0xFFFFFFFFFFFFFFFF"

definition CountOuters :: "nat \<Rightarrow> fstate \<Rightarrow> nat" where
  "CountOuters stacksz f = length (filter is_outer_local (drop stacksz (f_vlocals f)))"

text \<open>One turn of the loop of \<open>SetStackSize\<close>: the last register goes, a local is recorded.\<close>

definition pop_local :: "fstate \<Rightarrow> fstate" where
  "pop_local f =
     (let lvi = last (f_vlocals f);
          f' = (if lv_name lvi \<noteq> ONull
                then f\<lparr>f_outers := f_outers f - (if is_outer_local lvi then 1 else 0),
                       f_localvarinfos := f_localvarinfos f @ [lvi\<lparr>lv_end := of_int (GetCurrentPos f)\<rparr>]\<rparr>
                else f)
      in f'\<lparr>f_vlocals := butlast (f_vlocals f')\<rparr>)"

definition SetStackSize :: "nat \<Rightarrow> fstate \<Rightarrow> fstate" where
  "SetStackSize n f = (pop_local ^^ (length (f_vlocals f) - n)) f"

definition IsLocal :: "nat \<Rightarrow> fstate \<Rightarrow> bool" where
  "IsLocal stkpos f \<longleftrightarrow> stkpos < length (f_vlocals f) \<and> lv_name (f_vlocals f ! stkpos) \<noteq> ONull"

section \<open>Variables\<close>

definition PushLocalVariable :: "lvobj \<Rightarrow> fstate \<Rightarrow> nat \<times> fstate" where
  "PushLocalVariable name f =
     (let pos = length (f_vlocals f);
          lvi = \<lparr>lv_name = name, lv_start = of_int (GetCurrentPos f + 1), lv_end = 0, lv_pos = of_nat pos\<rparr>;
          f = f\<lparr>f_vlocals := f_vlocals f @ [lvi]\<rparr>;
          f = (if length (f_vlocals f) > f_stacksize f then f\<lparr>f_stacksize := length (f_vlocals f)\<rparr> else f)
      in (pos, f))"

definition AddParameter :: "lvobj \<Rightarrow> fstate \<Rightarrow> fstate" where
  "AddParameter name f =
     (let f = snd (PushLocalVariable name f) in f\<lparr>f_parameters := f_parameters f @ [name]\<rparr>)"

fun local_from :: "localvar list \<Rightarrow> string \<Rightarrow> nat \<Rightarrow> nat option" where
  "local_from ls s 0 = None"
| "local_from ls s (Suc n) = (if lv_name (ls ! n) = OString s then Some n else local_from ls s n)"

definition GetLocalVariable :: "string \<Rightarrow> fstate \<Rightarrow> nat option" where
  "GetLocalVariable s f = local_from (f_vlocals f) s (length (f_vlocals f))"

definition MarkLocalAsOuter :: "nat \<Rightarrow> fstate \<Rightarrow> fstate" where
  "MarkLocalAsOuter pos f =
     f\<lparr>f_vlocals := (f_vlocals f)[pos := (f_vlocals f ! pos)\<lparr>lv_end := 0xFFFFFFFFFFFFFFFF\<rparr>],
       f_outers := f_outers f + 1\<rparr>"

definition outer_index :: "string \<Rightarrow> outervar list \<Rightarrow> nat option" where
  "outer_index s os = find (\<lambda>i. ov_name (os ! i) = OString s) [0..<length os]"

definition add_outer :: "string \<Rightarrow> nat \<Rightarrow> outertype \<Rightarrow> fstate \<Rightarrow> nat \<times> fstate" where
  "add_outer s pos ty f =
     (length (f_outervalues f),
      f\<lparr>f_outervalues := f_outervalues f @
         [\<lparr>ov_type = ty, ov_name = OString s, ov_src = OInteger (of_nat pos)\<rparr>]\<rparr>)"

text \<open>\<open>GetOuterVariable\<close>; the code's \<open>-1\<close> is \<open>None\<close>.\<close>

fun GetOuterVariable :: "string \<Rightarrow> fstate list \<Rightarrow> nat option \<times> fstate list" where
  "GetOuterVariable s [] = (None, [])"
| "GetOuterVariable s [f] = (outer_index s (f_outervalues f), [f])"
| "GetOuterVariable s (f # p # ps) =
     (case outer_index s (f_outervalues f) of
        Some i \<Rightarrow> (Some i, f # p # ps)
      | None \<Rightarrow>
         (case GetLocalVariable s p of
            None \<Rightarrow>
              (case GetOuterVariable s (p # ps) of
                 (Some pos, ps') \<Rightarrow> let (i, f) = add_outer s pos otOUTER f in (Some i, f # ps')
               | (None, ps') \<Rightarrow> (None, f # ps'))
          | Some pos \<Rightarrow>
              let p = MarkLocalAsOuter pos p; (i, f) = add_outer s pos otLOCAL f
              in (Some i, f # p # ps)))"

section \<open>Instructions\<close>

definition SetIntructionParams :: "nat \<Rightarrow> int \<Rightarrow> int \<Rightarrow> int \<Rightarrow> int \<Rightarrow> fstate \<Rightarrow> fstate" where
  "SetIntructionParams pos a0 a1 a2 a3 f =
     f\<lparr>f_instructions := (f_instructions f)[pos := (f_instructions f ! pos)
        \<lparr>iarg0 := of_int a0, iarg1 := of_int a1, iarg2 := of_int a2, iarg3 := of_int a3\<rparr>]\<rparr>"

definition SetIntructionParam :: "nat \<Rightarrow> nat \<Rightarrow> int \<Rightarrow> fstate \<Rightarrow> fstate" where
  "SetIntructionParam pos arg val f =
     (let i = f_instructions f ! pos;
          i = (if arg = 0 then i\<lparr>iarg0 := of_int val\<rparr>
               else if arg = 1 \<or> arg = 4 then i\<lparr>iarg1 := of_int val\<rparr>
               else if arg = 2 then i\<lparr>iarg2 := of_int val\<rparr>
               else if arg = 3 then i\<lparr>iarg3 := of_int val\<rparr> else i)
      in f\<lparr>f_instructions := (f_instructions f)[pos := i]\<rparr>)"

text \<open>
  The peephole optimiser on the last instruction \<open>pi\<close> and the new one \<open>i\<close>: \<open>Fused\<close> replaces \<open>pi\<close>
  and drops \<open>i\<close> (with the new value of \<open>_optimization\<close>), \<open>Kept\<close> appends \<open>i\<close>, either possibly
  changed, and \<open>Dropped\<close> removes \<open>pi\<close> with its line entry before appending \<open>i\<close>.
\<close>

datatype fusion = Fused instr bool | Kept instr instr | Dropped instr

definition same_reg :: "u8 \<Rightarrow> u32 \<Rightarrow> bool" where
  "same_reg a b \<longleftrightarrow> uint a = sint b"

definition append_kind :: "opcode \<Rightarrow> u8 option" where
  "append_kind p =
     (if p = OP_LOAD then Some AAT_LITERAL else if p = OP_LOADINT then Some AAT_INT
      else if p = OP_LOADBOOL then Some AAT_BOOL else if p = OP_LOADFLOAT then Some AAT_FLOAT
      else None)"

definition move_target_ops :: "opcode list" where
  "move_target_ops = [OP_GET, OP_ADD, OP_SUB, OP_MUL, OP_DIV, OP_MOD, OP_BITW, OP_LOADINT,
     OP_LOADFLOAT, OP_LOADBOOL, OP_LOAD]"

definition fuse :: "bool \<Rightarrow> fstate \<Rightarrow> instr \<Rightarrow> instr \<Rightarrow> fusion" where
  "fuse has_parent f pi i =
     (let size = int (length (f_instructions f)); temp = \<not> IsLocal (unat (iarg0 pi)) f in
      case iop i of
        OP_JZ \<Rightarrow>
          if iop pi = OP_CMP \<and> sint (iarg1 pi) < 0xFF
          then Fused (pi\<lparr>iop := OP_JCMP, iarg0 := ucast (iarg1 pi), iarg1 := iarg1 i\<rparr>) True
          else Kept pi i
      | OP_SET \<Rightarrow> if iarg0 i = iarg3 i then Kept pi (i\<lparr>iarg0 := 0xFF\<rparr>) else Kept pi i
      | OP_NEWSLOT \<Rightarrow> if iarg0 i = iarg3 i then Kept pi (i\<lparr>iarg0 := 0xFF\<rparr>) else Kept pi i
      | OP_SETOUTER \<Rightarrow> if iarg0 i = iarg2 i then Kept pi (i\<lparr>iarg0 := 0xFF\<rparr>) else Kept pi i
      | OP_RETURN \<Rightarrow>
          if has_parent \<and> uint (iarg0 i) \<noteq> MAX_FUNC_STACKSIZE \<and> iop pi = OP_CALL \<and>
             f_returnexp f < size - 1
          then Kept (pi\<lparr>iop := OP_TAILCALL\<rparr>) i
          else if iop pi = OP_CLOSE then Fused i True
          else Kept pi i
      | OP_GET \<Rightarrow>
          if iop pi = OP_LOAD \<and> iarg0 pi = iarg2 i \<and> temp
          then Fused (pi\<lparr>iarg2 := ucast (iarg1 i), iop := OP_GETK, iarg0 := iarg0 i\<rparr>) True
          else Kept pi i
      | OP_PREPCALL \<Rightarrow>
          if iop pi = OP_LOAD \<and> same_reg (iarg0 pi) (iarg1 i) \<and> temp
          then Fused (pi\<lparr>iop := OP_PREPCALLK, iarg0 := iarg0 i, iarg2 := iarg2 i, iarg3 := iarg3 i\<rparr>) True
          else Kept pi i
      | OP_APPENDARRAY \<Rightarrow>
          (case append_kind (iop pi) of
             Some aat \<Rightarrow>
               if same_reg (iarg0 pi) (iarg1 i) \<and> temp
               then Fused (pi\<lparr>iop := OP_APPENDARRAY, iarg0 := iarg0 i, iarg2 := aat, iarg3 := 0xFF\<rparr>) True
               else Kept pi i
           | None \<Rightarrow> Kept pi i)
      | OP_MOVE \<Rightarrow>
          if iop pi \<in> set move_target_ops \<and> same_reg (iarg0 pi) (iarg1 i)
          then Fused (pi\<lparr>iarg0 := iarg0 i\<rparr>) False
          else if iop pi = OP_MOVE
          then Fused (pi\<lparr>iop := OP_DMOVE, iarg2 := iarg0 i, iarg3 := ucast (iarg1 i)\<rparr>) True
          else Kept pi i
      | OP_LOAD \<Rightarrow>
          if iop pi = OP_LOAD \<and> sint (iarg1 i) < 256
          then Fused (pi\<lparr>iop := OP_DLOAD, iarg2 := iarg0 i, iarg3 := ucast (iarg1 i)\<rparr>) True
          else Kept pi i
      | OP_EQ \<Rightarrow>
          if iop pi = OP_LOAD \<and> same_reg (iarg0 pi) (iarg1 i) \<and> temp
          then Fused (pi\<lparr>iop := OP_EQ, iarg0 := iarg0 i, iarg2 := iarg2 i, iarg3 := 0xFF\<rparr>) True
          else Kept pi i
      | OP_NE \<Rightarrow>
          if iop pi = OP_LOAD \<and> same_reg (iarg0 pi) (iarg1 i) \<and> temp
          then Fused (pi\<lparr>iop := OP_NE, iarg0 := iarg0 i, iarg2 := iarg2 i, iarg3 := 0xFF\<rparr>) True
          else Kept pi i
      | OP_LOADNULLS \<Rightarrow>
          if iop pi = OP_LOADNULLS \<and> uint (iarg0 pi) + sint (iarg1 pi) = uint (iarg0 i)
          then Fused (pi\<lparr>iarg1 := iarg1 pi + 1, iop := OP_LOADNULLS\<rparr>) True
          else Kept pi i
      | OP_LINE \<Rightarrow> if iop pi = OP_LINE then Dropped i else Kept pi i
      | _ \<Rightarrow> Kept pi i)"

text \<open>\<open>AddInstruction\<close>; dropping a line entry that is not there is not defined.\<close>

definition AddInstruction :: "bool \<Rightarrow> instr \<Rightarrow> fstate \<Rightarrow> fstate option" where
  "AddInstruction has_parent i f =
     (let is = f_instructions f in
      if is \<noteq> [] \<and> f_optimization f then
        (case fuse has_parent f (last is) i of
           Fused pi opt \<Rightarrow> Some (f\<lparr>f_instructions := butlast is @ [pi], f_optimization := opt\<rparr>)
         | Kept pi i \<Rightarrow> Some (f\<lparr>f_instructions := butlast is @ [pi, i], f_optimization := True\<rparr>)
         | Dropped i \<Rightarrow>
             if f_lineinfos f = [] then None
             else Some (f\<lparr>f_instructions := butlast is @ [i], f_lineinfos := butlast (f_lineinfos f),
                          f_optimization := True\<rparr>))
      else Some (f\<lparr>f_instructions := is @ [i], f_optimization := True\<rparr>))"

definition DiscardTarget :: "fstate \<Rightarrow> fstate option" where
  "DiscardTarget f = do {
     (t, f) \<leftarrow> PopTarget f;
     let is = f_instructions f;
     Some (if is \<noteq> [] \<and> f_optimization f \<and>
              iop (last is) \<in> {OP_SET, OP_NEWSLOT, OP_SETOUTER, OP_CALL} \<and> uint (iarg0 (last is)) = t
           then f\<lparr>f_instructions := butlast is @ [(last is)\<lparr>iarg0 := 0xFF\<rparr>]\<rparr> else f)
   }"

definition AddLineInfos :: "bool \<Rightarrow> int \<Rightarrow> bool \<Rightarrow> bool \<Rightarrow> fstate \<Rightarrow> fstate option" where
  "AddLineInfos has_parent line lineop force f =
     (if f_lastline f \<noteq> line \<or> force then do {
        let li = \<lparr>li_line = line, li_op = GetCurrentPos f + 1\<rparr>;
        f \<leftarrow> (if lineop then AddInstruction has_parent (Instr OP_LINE 0 line 0 0) f else Some f);
        let f = (if f_lastline f \<noteq> line then f\<lparr>f_lineinfos := f_lineinfos f @ [li]\<rparr> else f);
        Some (f\<lparr>f_lastline := line\<rparr>)
      } else Some f)"

section \<open>The compiled function\<close>

partial_function (option) literal_loop ::
  "weak_store \<Rightarrow> lvtable \<Rightarrow> nat \<Rightarrow> lvobj list \<Rightarrow> lvobj list option" where
  "literal_loop wr t ridx arr =
     (case next_from False wr t ridx of
        None \<Rightarrow> Some arr
      | Some (ridx', k, OInteger i) \<Rightarrow>
          if sint i < 0 \<or> int (length arr) \<le> sint i then None
          else literal_loop wr t ridx' (arr[unat i := k])
      | Some _ \<Rightarrow> None)"

declare literal_loop.simps [code]

definition BuildProto :: "weak_store \<Rightarrow> fstate \<Rightarrow> funcproto option" where
  "BuildProto wr f = do {
     lits \<leftarrow> literal_loop wr (f_literals f) 0 (replicate (nat (f_nliterals f)) ONull);
     Some \<lparr>p_sourcename = f_sourcename f, p_name = f_name f, p_stacksize = int (f_stacksize f),
       p_bgenerator = f_bgenerator f, p_varparams = f_varparams f,
       p_localvarinfos = f_localvarinfos f, p_lineinfos = f_lineinfos f, p_literals = lits,
       p_parameters = f_parameters f, p_functions = f_functions f,
       p_outervalues = f_outervalues f, p_defaultparams = f_defaultparams f,
       p_instructions = f_instructions f\<rparr>
   }"

end
