(* ===== verification/FuncState_Laws.thy ===== *)
theory FuncState_Laws
  imports FuncState
begin

text \<open>
  What the function state of the compiler guarantees: the literal pool is a bijection between
  constants and indices which \<open>BuildProto\<close> turns into the literal array, a name resolves to the
  innermost variable that carries it, and registers are handed out and taken back as a stack.
\<close>

section \<open>The literal pool\<close>

text \<open>\<open>ks\<close> are the constants in the order of their indices.\<close>

definition lit_pool :: "fstate \<Rightarrow> lvobj list \<Rightarrow> bool" where
  "lit_pool f ks \<longleftrightarrow>
     table_inv (f_literals f) \<and> distinct ks \<and> ONull \<notin> set ks \<and>
     f_nliterals f = int (length ks) \<and> f_nliterals f \<le> MAX_LITERALS \<and>
     table_map (f_literals f) =
       (\<lambda>k. if k \<in> set ks then Some (OInteger (of_nat (index_of k ks))) else None)"

lemma index_of_less: "k \<in> set ks \<Longrightarrow> index_of k ks < length ks"
  by (induction ks) auto

lemma index_of_nth: "k \<in> set ks \<Longrightarrow> ks ! index_of k ks = k"
  by (induction ks) auto

lemma index_of_append: "index_of k (ks @ ls) = (if k \<in> set ks then index_of k ks else length ks + index_of k ls)"
  by (induction ks) auto

lemma index_of_eq_nth: "distinct ks \<Longrightarrow> j < length ks \<Longrightarrow> index_of (ks ! j) ks = j"
proof (induction ks arbitrary: j)
  case (Cons x ks)
  then show ?case by (cases j) auto
qed simp

lemma sint_of_nat_lit: "int n \<le> MAX_LITERALS \<Longrightarrow> sint (of_nat n :: u64) = int n"
proof -
  assume "int n \<le> MAX_LITERALS"
  then have n: "int n < 2 ^ 63" by (simp add: MAX_LITERALS_def)
  then show ?thesis by (simp add: signed_of_nat signed_take_bit_int_eq_self)
qed

lemma lit_pool_create: "lit_pool fstate_create []"
  by (simp add: lit_pool_def fstate_create_def table_create_ok MAX_LITERALS_def)

lemma GetConstant_known:
  assumes "lit_pool f ks" "k \<in> set ks"
  shows "GetConstant wr k f = Some (Inr (int (index_of k ks), f))"
proof -
  have k: "k \<noteq> ONull" using assms by (auto simp: lit_pool_def)
  have "int (index_of k ks) \<le> MAX_LITERALS"
    using index_of_less [OF assms(2)] assms(1) by (simp add: lit_pool_def)
  with tab.lookup_law [of "f_literals f" k wr] assms k show ?thesis
    by (simp add: GetConstant_def lit_pool_def sint_of_nat_lit)
qed

lemma GetConstant_new:
  assumes "lit_pool f ks" "k \<notin> set ks" "k \<noteq> ONull"
  shows "if int (length ks) + 1 > MAX_LITERALS
    then GetConstant wr k f = Some (Inl ''internal compiler error: too many literals'')
    else \<exists>f'. GetConstant wr k f = Some (Inr (int (length ks), f')) \<and> lit_pool f' (ks @ [k])"
proof -
  have inv: "table_inv (f_literals f)" and n: "f_nliterals f = int (length ks)"
    and m: "table_map (f_literals f) =
      (\<lambda>k. if k \<in> set ks then Some (OInteger (of_nat (index_of k ks))) else None)"
    using assms(1) unfolding lit_pool_def by blast+
  from tab.lookup_law [OF inv assms(3), of wr] have g: "table_Get wr (f_literals f) k = Some None"
    using assms(2) by (simp add: m)
  from tab.store_law [OF inv assms(3), of "OInteger (of_int (f_nliterals f))"] obtain b t where
    t: "table_NewSlot (f_literals f) k (OInteger (of_int (f_nliterals f))) = Some (b, t)" "table_inv t"
    "table_map t = (table_map (f_literals f))(k \<mapsto> OInteger (of_int (f_nliterals f)))" by blast
  have m': "table_map t = (\<lambda>x. if x \<in> set (ks @ [k]) then Some (OInteger (of_nat (index_of x (ks @ [k])))) else None)"
    using assms(2) by (auto simp: t(3) m n fun_eq_iff index_of_append)
  show ?thesis
    using g t(1,2) m' assms n by (auto simp: GetConstant_def lit_pool_def)
qed

text \<open>The constants of a function, one call each.\<close>

primrec get_constants ::
  "weak_store \<Rightarrow> lvobj list \<Rightarrow> fstate \<Rightarrow> (string + int list \<times> fstate) option" where
  "get_constants wr [] f = Some (Inr ([], f))"
| "get_constants wr (c # cs) f = do {
     r \<leftarrow> GetConstant wr c f;
     (case r of
        Inl e \<Rightarrow> Some (Inl e)
      | Inr (i, f) \<Rightarrow> do {
          r \<leftarrow> get_constants wr cs f;
          (case r of Inl e \<Rightarrow> Some (Inl e) | Inr (is, f) \<Rightarrow> Some (Inr (i # is, f)))
        })
   }"

lemma get_constants_pool:
  assumes "lit_pool f ks" "ONull \<notin> set cs" "int (length ks + length cs) \<le> MAX_LITERALS"
  shows "\<exists>is f' ls. get_constants wr cs f = Some (Inr (is, f')) \<and> lit_pool f' (ks @ ls) \<and>
    set ls \<subseteq> set cs \<and> set cs \<subseteq> set (ks @ ls) \<and> is = map (\<lambda>c. int (index_of c (ks @ ls))) cs"
  using assms
proof (induction cs arbitrary: f ks)
  case Nil
  then show ?case by (intro exI [of _ "[]"] exI [of _ f]) auto
next
  case (Cons c cs)
  show ?case
  proof (cases "c \<in> set ks")
    case True
    from Cons.IH [OF Cons.prems(1)] Cons.prems(2,3) obtain "is" f' ls where
      "get_constants wr cs f = Some (Inr (is, f'))" "lit_pool f' (ks @ ls)" "set ls \<subseteq> set cs"
      "set cs \<subseteq> set (ks @ ls)" "is = map (\<lambda>c. int (index_of c (ks @ ls))) cs" by auto
    with True GetConstant_known [OF Cons.prems(1) True] show ?thesis
      by (intro exI [of _ "int (index_of c ks) # is"] exI [of _ f'] exI [of _ ls])
        (auto simp: index_of_append)
  next
    case False
    from GetConstant_new [OF Cons.prems(1) False, of wr] Cons.prems(2,3) obtain f1 where
      f1: "GetConstant wr c f = Some (Inr (int (length ks), f1))" "lit_pool f1 (ks @ [c])"
      by (auto split: if_splits)
    have p: "ONull \<notin> set cs" "int (length (ks @ [c]) + length cs) \<le> MAX_LITERALS"
      using Cons.prems(2,3) by simp_all
    from Cons.IH [OF f1(2) p] obtain "is" f' ls where
      "get_constants wr cs f1 = Some (Inr (is, f'))" "lit_pool f' ((ks @ [c]) @ ls)" "set ls \<subseteq> set cs"
      "set cs \<subseteq> set ((ks @ [c]) @ ls)" "is = map (\<lambda>x. int (index_of x ((ks @ [c]) @ ls))) cs" by blast
    with False f1(1) show ?thesis
      by (intro exI [of _ "int (length ks) # is"] exI [of _ f'] exI [of _ "c # ls"])
        (auto simp: index_of_append)
  qed
qed

subsection \<open>The literal array\<close>

definition lit_slot :: "lvobj \<Rightarrow> nat" where
  "lit_slot v = (case v of OInteger i \<Rightarrow> unat i | _ \<Rightarrow> 0)"

lemma literal_loop_entries:
  assumes "\<forall>(k, v) \<in> set (used_entries (drop ridx (tnodes t))).
    \<exists>i. v = OInteger i \<and> 0 \<le> sint i \<and> sint i < int (length arr)"
  shows "literal_loop wr t ridx arr =
    Some (fold (\<lambda>(k, v) a. a[lit_slot v := k]) (used_entries (drop ridx (tnodes t))) arr)"
  using assms
proof (induction "numofnodes t - ridx" arbitrary: ridx arr)
  case 0
  then show ?case by (simp add: literal_loop.simps [of wr t ridx] next_from_end used_entries_def)
next
  case (Suc n)
  then have lt: "ridx < numofnodes t" and ih: "n = numofnodes t - Suc ridx" by simp_all
  show ?case
  proof (cases "nkey (tnodes t ! ridx) = ONull")
    case True
    then have u: "used_entries (drop ridx (tnodes t)) = used_entries (drop (Suc ridx) (tnodes t))"
      by (simp add: drop_Cons [OF lt] used_entries_def)
    have "literal_loop wr t ridx arr = literal_loop wr t (Suc ridx) arr"
      by (simp add: literal_loop.simps [of wr t ridx] literal_loop.simps [of wr t "Suc ridx"]
          next_from_skip [OF lt True])
    with Suc.hyps(1) [OF ih] Suc.prems u show ?thesis by simp
  next
    case False
    let ?n = "tnodes t ! ridx"
    have u: "used_entries (drop ridx (tnodes t)) =
        (nkey ?n, nval ?n) # used_entries (drop (Suc ridx) (tnodes t))"
      using False by (simp add: drop_Cons [OF lt] used_entries_def)
    with Suc.prems obtain i where i: "nval ?n = OInteger i" "0 \<le> sint i" "sint i < int (length arr)" by auto
    have "literal_loop wr t ridx arr = literal_loop wr t (Suc ridx) (arr[unat i := nkey ?n])"
      using i by (simp add: literal_loop.simps [of wr t ridx] next_from_here [OF lt False])
    also have "\<dots> = Some (fold (\<lambda>(k, v) a. a[lit_slot v := k])
        (used_entries (drop (Suc ridx) (tnodes t))) (arr[unat i := nkey ?n]))"
      by (rule Suc.hyps(1) [OF ih]) (use Suc.prems u in auto)
    finally show ?thesis by (simp add: u i lit_slot_def)
  qed
qed

lemma fold_slots_nth:
  assumes "distinct (map (lit_slot \<circ> snd) es)" "(k, v) \<in> set es" "\<forall>e \<in> set es. lit_slot (snd e) < length arr"
  shows "fold (\<lambda>(k, v) a. a[lit_slot v := k]) es arr ! lit_slot v = k"
  using assms
proof (induction es arbitrary: arr)
  case (Cons e es)
  have keep: "lit_slot v \<notin> set (map (lit_slot \<circ> snd) es) \<Longrightarrow>
      fold (\<lambda>(k, v) a. a[lit_slot v := k]) es a ! lit_slot v = a ! lit_slot v" for a v
    by (induction es arbitrary: a) auto
  show ?case
  proof (cases "e = (k, v)")
    case True
    with keep [of v] Cons.prems show ?thesis by (auto simp: comp_def)
  next
    case False
    obtain k' v' where e: "e = (k', v')" by (cases e)
    from False Cons.prems(2) have "(k, v) \<in> set es" by simp
    with Cons.IH [OF _ this, of "arr[lit_slot v' := k']"] Cons.prems(1,3) show ?thesis by (simp add: e)
  qed
qed simp

lemma fold_slots_length [simp]: "length (fold (\<lambda>(k, v) a. a[lit_slot v := k]) es arr) = length arr"
  by (induction es arbitrary: arr) auto

lemma BuildProto_literals:
  assumes pool: "lit_pool f ks"
  shows "\<exists>p. BuildProto wr f = Some p \<and> p_literals p = ks"
proof -
  let ?t = "f_literals f"
  let ?es = "used_entries (tnodes ?t)"
  have inv: "table_inv ?t" and d: "distinct ks" and n: "f_nliterals f = int (length ks)"
    and mx: "int (length ks) \<le> MAX_LITERALS"
    and m: "table_map ?t = (\<lambda>k. if k \<in> set ks then Some (OInteger (of_nat (index_of k ks))) else None)"
    using pool by (simp_all add: lit_pool_def)
  have de: "distinct (map fst ?es)" by (rule used_entries_distinct [OF tinv_distinct [OF inv]])
  have es: "(k, v) \<in> set ?es \<longleftrightarrow> k \<in> set ks \<and> v = OInteger (of_nat (index_of k ks))" for k v
    using map_of_eq_Some_iff [OF de, of k v] by (auto simp: used_entries_map m split: if_splits)
  have sl: "lit_slot v = index_of k ks" if "(k, v) \<in> set ?es" for k v
  proof -
    have "index_of k ks < 2 ^ 64"
      using that index_of_less [of k ks] mx es by (simp add: MAX_LITERALS_def)
    with that es show ?thesis by (simp add: lit_slot_def unat_of_nat take_bit_nat_eq_self)
  qed
  have idx: "sint (of_nat (index_of k ks) :: u64) = int (index_of k ks) \<and> index_of k ks < length ks"
    if "k \<in> set ks" for k
    using index_of_less [OF that] mx by (simp add: sint_of_nat_lit)
  have ok: "\<forall>(k, v) \<in> set (used_entries (drop 0 (tnodes ?t))).
      \<exists>i. v = OInteger i \<and> 0 \<le> sint i \<and> sint i < int (length (replicate (nat (f_nliterals f)) ONull))"
    using idx es n by auto
  have ds: "distinct (map (lit_slot \<circ> snd) ?es)"
    unfolding distinct_map
  proof (intro conjI inj_onI)
    show "distinct ?es" using de by (simp add: distinct_map)
    fix x y assume x: "x \<in> set ?es" and y: "y \<in> set ?es" and e: "(lit_slot \<circ> snd) x = (lit_slot \<circ> snd) y"
    obtain k v k' v' where xy: "x = (k, v)" "y = (k', v')" by (cases x, cases y)
    have "index_of k ks = index_of k' ks" using e sl x y xy by simp
    moreover have "k \<in> set ks" "k' \<in> set ks" using x y xy es by simp_all
    ultimately have "k = k'" using index_of_nth by metis
    with x y xy es show "x = y" by simp
  qed
  define res where "res = fold (\<lambda>(k, v) a. a[lit_slot v := k]) ?es (replicate (nat (f_nliterals f)) ONull)"
  have "res = ks"
  proof (rule nth_equalityI)
    show len: "length res = length ks" by (simp add: res_def n)
    fix j assume "j < length res"
    with len have j: "j < length ks" by simp
    let ?v = "OInteger (of_nat j)"
    have me: "(ks ! j, ?v) \<in> set ?es" using es [of "ks ! j" ?v] j index_of_eq_nth [OF d j] by simp
    then have "lit_slot ?v = j" using sl index_of_eq_nth [OF d j] by simp
    moreover have "res ! lit_slot ?v = ks ! j"
      unfolding res_def
      by (rule fold_slots_nth [OF ds me]) (use sl index_of_less es n in force)
    ultimately show "res ! j = ks ! j" by simp
  qed
  with literal_loop_entries [OF ok] show ?thesis by (simp add: BuildProto_def res_def)
qed

section \<open>Variables\<close>

text \<open>A name denotes the last local that carries it.\<close>

lemma local_from_iff:
  "local_from ls s n = Some i \<longleftrightarrow>
     i < n \<and> lv_name (ls ! i) = OString s \<and> (\<forall>j. i < j \<longrightarrow> j < n \<longrightarrow> lv_name (ls ! j) \<noteq> OString s)"
proof (induction n)
  case (Suc n)
  then show ?case by (auto simp: less_Suc_eq)
qed simp

lemma outer_index_iff:
  "outer_index s os = Some i \<longleftrightarrow>
     i < length os \<and> ov_name (os ! i) = OString s \<and> (\<forall>j < i. ov_name (os ! j) \<noteq> OString s)"
  by (auto simp: outer_index_def find_Some_iff)

lemma outer_index_None: "outer_index s os = None \<longleftrightarrow> (\<forall>j < length os. ov_name (os ! j) \<noteq> OString s)"
  by (auto simp: outer_index_def find_None_iff)

text \<open>
  Where an outer variable comes from: the number of functions to go out, and the register there.
\<close>

fun outer_source :: "fstate list \<Rightarrow> nat \<Rightarrow> (nat \<times> nat) option" where
  "outer_source (f # p # ps) i =
     (if i < length (f_outervalues f) then
        (case ov_src (f_outervalues f ! i) of
           OInteger w \<Rightarrow>
             (if ov_type (f_outervalues f ! i) = otLOCAL then Some (1, unat w)
              else map_option (\<lambda>(d, r). (Suc d, r)) (outer_source (p # ps) (unat w)))
         | _ \<Rightarrow> None)
      else None)"
| "outer_source _ i = None"

text \<open>The specification: the innermost enclosing function with a local of that name.\<close>

fun enclosing :: "string \<Rightarrow> fstate list \<Rightarrow> (nat \<times> nat) option" where
  "enclosing s (f # p # ps) =
     (case GetLocalVariable s p of
        Some r \<Rightarrow> Some (1, r)
      | None \<Rightarrow> map_option (\<lambda>(d, r). (Suc d, r)) (enclosing s (p # ps)))"
| "enclosing s _ = None"

text \<open>The outer variables of every function of the chain lead to what their name denotes.\<close>

fun chain_ok :: "fstate list \<Rightarrow> bool" where
  "chain_ok [] \<longleftrightarrow> True"
| "chain_ok (f # ps) \<longleftrightarrow>
     (\<forall>i < length (f_outervalues f). \<exists>s. ov_name (f_outervalues f ! i) = OString s \<and>
        outer_source (f # ps) i \<noteq> None \<and> outer_source (f # ps) i = enclosing s (f # ps)) \<and>
     chain_ok ps"

definition chain_room :: "fstate list \<Rightarrow> bool" where
  "chain_room ch \<longleftrightarrow> (\<forall>f \<in> set ch. length (f_vlocals f) + length (f_outervalues f) < 2 ^ 63)"

text \<open>Chains that differ only by new outer variables and by marks on locals.\<close>

definition chain_ext :: "fstate list \<Rightarrow> fstate list \<Rightarrow> bool" where
  "chain_ext ch ch' \<longleftrightarrow> list_all2 (\<lambda>f g. map lv_name (f_vlocals g) = map lv_name (f_vlocals f) \<and>
     (\<exists>os. f_outervalues g = f_outervalues f @ os)) ch ch'"

lemma chain_ext_refl [simp]: "chain_ext ch ch"
  by (auto simp: chain_ext_def intro!: list_all2_refl)

lemma local_from_names:
  "map lv_name ls = map lv_name ls' \<Longrightarrow> n \<le> length ls \<Longrightarrow> local_from ls s n = local_from ls' s n"
proof (induction n)
  case (Suc n)
  then have "lv_name (ls ! n) = lv_name (ls' ! n)"
    by (metis Suc_le_lessD length_map nth_map)
  with Suc show ?case by simp
qed simp

lemma GetLocalVariable_names:
  "map lv_name (f_vlocals g) = map lv_name (f_vlocals f) \<Longrightarrow> GetLocalVariable s g = GetLocalVariable s f"
  using local_from_names [of "f_vlocals g" "f_vlocals f" "length (f_vlocals g)" s] map_eq_imp_length_eq
  by (fastforce simp: GetLocalVariable_def)

lemma enclosing_ext: "chain_ext ch ch' \<Longrightarrow> enclosing s ch' = enclosing s ch"
proof (induction s ch arbitrary: ch' rule: enclosing.induct)
  case (1 s f p ps)
  then obtain f' p' ps' where e: "ch' = f' # p' # ps'" "chain_ext (p # ps) (p' # ps')"
    "map lv_name (f_vlocals p') = map lv_name (f_vlocals p)"
    by (auto simp: chain_ext_def list_all2_Cons1)
  with "1.IH" [of "p' # ps'"] GetLocalVariable_names [OF e(3), of s] show ?case
    by (simp split: option.split)
qed (auto simp: chain_ext_def list_all2_Cons1)

lemma outer_source_ext:
  "chain_ext ch ch' \<Longrightarrow> outer_source ch i = Some x \<Longrightarrow> outer_source ch' i = Some x"
proof (induction ch i arbitrary: ch' x rule: outer_source.induct)
  case (1 f p ps i)
  then obtain f' p' ps' os where e: "ch' = f' # p' # ps'" "chain_ext (p # ps) (p' # ps')"
    "f_outervalues f' = f_outervalues f @ os"
    by (auto simp: chain_ext_def list_all2_Cons1)
  show ?case
  proof (cases "i < length (f_outervalues f)")
    case True
    with "1.prems"(2) obtain w where w: "ov_src (f_outervalues f ! i) = OInteger w"
      by (cases "ov_src (f_outervalues f ! i)") auto
    show ?thesis
    proof (cases "ov_type (f_outervalues f ! i)")
      case otLOCAL
      with e True w "1.prems"(2) show ?thesis by (simp add: nth_append)
    next
      case otOUTER
      with "1.prems"(2) True w obtain y where "outer_source (p # ps) (unat w) = Some y"
        by auto
      with "1.IH" [OF True w _ e(2)] otOUTER e True w "1.prems"(2) show ?thesis
        by (simp add: nth_append)
    qed
  qed (use "1.prems" in simp)
qed simp_all

lemma GetLocalVariable_less: "GetLocalVariable s f = Some r \<Longrightarrow> r < length (f_vlocals f)"
  by (simp add: GetLocalVariable_def local_from_iff)

lemma unat_small: "n < 2 ^ 63 \<Longrightarrow> unat (of_nat n :: u64) = n"
  by (simp add: unat_of_nat take_bit_nat_eq_self)

lemma chain_ok_head:
  assumes "chain_ok (p # ps)" "f_outervalues p' = f_outervalues p"
  shows "chain_ok (p' # ps)"
proof -
  have "outer_source (p' # ps) i = outer_source (p # ps) i" for i
    using assms(2) by (cases ps) (simp_all split: lvobj.split)
  moreover have "enclosing s (p' # ps) = enclosing s (p # ps)" for s by (cases ps) simp_all
  ultimately show ?thesis using assms by simp
qed

lemma GetOuterVariable_ok:
  assumes "chain_ok ch" "chain_room ch" "GetOuterVariable s ch = (r, ch')"
  shows "chain_ok ch' \<and> chain_ext ch ch' \<and> (r = None \<longleftrightarrow> enclosing s ch = None) \<and>
    (\<forall>i. r = Some i \<longrightarrow> outer_source ch' i = enclosing s ch \<and> i \<le> length (f_outervalues (hd ch)))"
  using assms
proof (induction s ch arbitrary: r ch' rule: GetOuterVariable.induct)
  case (1 s)
  then show ?case by simp
next
  case (2 s f)
  then have "f_outervalues f = []" by auto
  with 2 show ?case by (auto simp: outer_index_def)
next
  case (3 s f p ps)
  let ?ch = "f # p # ps"
  have okf: "\<forall>i < length (f_outervalues f). \<exists>s. ov_name (f_outervalues f ! i) = OString s \<and>
        outer_source ?ch i \<noteq> None \<and> outer_source ?ch i = enclosing s ?ch"
    and okp: "chain_ok (p # ps)" and roomp: "chain_room (p # ps)"
    using "3.prems"(1,2) by (simp_all add: chain_room_def)
  show ?case
  proof (cases "outer_index s (f_outervalues f)")
    case (Some i)
    then have i: "i < length (f_outervalues f)" "ov_name (f_outervalues f ! i) = OString s"
      by (simp_all add: outer_index_iff)
    with okf have "outer_source ?ch i \<noteq> None \<and> outer_source ?ch i = enclosing s ?ch" by fastforce
    with Some "3.prems" i show ?thesis by auto
  next
    case None
    text \<open>The old outer variables stay right when the chain is extended.\<close>
    have keep: "\<exists>s. ov_name (f_outervalues f' ! j) = OString s \<and> outer_source (f' # q) j \<noteq> None \<and>
          outer_source (f' # q) j = enclosing s (f' # q)"
      if e: "chain_ext ?ch (f' # q)" and j: "j < length (f_outervalues f)" for f' q j
    proof -
      from e obtain os where os: "f_outervalues f' = f_outervalues f @ os"
        by (auto simp: chain_ext_def)
      from okf j obtain t x where t: "ov_name (f_outervalues f ! j) = OString t" "outer_source ?ch j = Some x"
        "outer_source ?ch j = enclosing t ?ch" by blast
      have "outer_source (f' # q) j = Some x" by (rule outer_source_ext [OF e t(2)])
      moreover have "enclosing t (f' # q) = Some x" using enclosing_ext [OF e, of t] t(2,3) by metis
      moreover have "ov_name (f_outervalues f' ! j) = OString t" using t(1) j by (simp add: os nth_append)
      ultimately show ?thesis by (metis option.distinct(1))
    qed
    text \<open>Adding an outer variable whose source is right keeps the chain right.\<close>
    have add: "chain_ok (f' # q) \<and> chain_ext ?ch (f' # q) \<and> outer_source (f' # q) i = enclosing s ?ch \<and>
        i \<le> length (f_outervalues f)"
      if a: "add_outer s pos ty f = (i, f')" and q: "chain_ok q" "chain_ext (p # ps) q" and
        src: "outer_source (f' # q) i \<noteq> None" "outer_source (f' # q) i = enclosing s ?ch" for pos ty i f' q
    proof -
      from a have f': "f_outervalues f' = f_outervalues f @
          [\<lparr>ov_type = ty, ov_name = OString s, ov_src = OInteger (of_nat pos)\<rparr>]"
        "f_vlocals f' = f_vlocals f" "i = length (f_outervalues f)" by (auto simp: add_outer_def)
      from q(2) f' have ext: "chain_ext ?ch (f' # q)" by (simp add: chain_ext_def)
      have "\<exists>s. ov_name (f_outervalues f' ! j) = OString s \<and> outer_source (f' # q) j \<noteq> None \<and>
          outer_source (f' # q) j = enclosing s (f' # q)" if j: "j < length (f_outervalues f')" for j
      proof (cases "j = i")
        case True
        with src f' enclosing_ext [OF ext, of s] show ?thesis by (auto simp: nth_append)
      next
        case False
        with j f' have j': "j < length (f_outervalues f)" by simp
        from keep [OF ext j'] show ?thesis .
      qed
      with q(1) have "chain_ok (f' # q)" unfolding chain_ok.simps by blast
      with ext src(2) f'(3) show ?thesis by simp
    qed
    show ?thesis
    proof (cases "GetLocalVariable s p")
      case (Some pos)
      let ?p = "MarkLocalAsOuter pos p"
      have nm: "map lv_name (f_vlocals ?p) = map lv_name (f_vlocals p)"
      proof (rule nth_equalityI)
        fix j assume "j < length (map lv_name (f_vlocals ?p))"
        then show "map lv_name (f_vlocals ?p) ! j = map lv_name (f_vlocals p) ! j"
          by (cases "j = pos") (simp_all add: MarkLocalAsOuter_def)
      qed (simp add: MarkLocalAsOuter_def)
      have "f_outervalues ?p = f_outervalues p" by (simp add: MarkLocalAsOuter_def)
      with nm have ext: "chain_ext (p # ps) (?p # ps)" by (simp add: chain_ext_def list_all2_refl)
      obtain i f' where a: "add_outer s pos otLOCAL f = (i, f')" by (cases "add_outer s pos otLOCAL f")
      have ok': "chain_ok (?p # ps)"
        by (rule chain_ok_head [OF okp]) (simp add: MarkLocalAsOuter_def)
      have "unat (of_nat pos :: u64) = pos"
        using GetLocalVariable_less [OF Some] roomp by (intro unat_small) (simp add: chain_room_def)
      then have src: "outer_source (f' # ?p # ps) i = Some (1, pos)" using a by (auto simp: add_outer_def)
      have enc: "enclosing s ?ch = Some (1, pos)" using Some by simp
      have r: "r = Some i" "ch' = f' # ?p # ps" using "3.prems"(3) None Some a by auto
      from add [OF a ok' ext] src enc
      have "chain_ok ch' \<and> chain_ext ?ch ch' \<and> i \<le> length (f_outervalues f)"
        unfolding r(2) by (metis option.distinct(1))
      with r(1) enc src r(2) show ?thesis by (metis list.sel(1) option.distinct(1) option.inject)
    next
      case none: None
      obtain r1 q where rec: "GetOuterVariable s (p # ps) = (r1, q)" by (cases "GetOuterVariable s (p # ps)")
      from "3.IH" [OF None none okp roomp rec] have ih: "chain_ok q" "chain_ext (p # ps) q"
        "(r1 = None) = (enclosing s (p # ps) = None)"
        "\<forall>i. r1 = Some i \<longrightarrow> outer_source q i = enclosing s (p # ps) \<and> i \<le> length (f_outervalues p)" by auto
      from ih(2) obtain p' ps' where q: "q = p' # ps'" by (auto simp: chain_ext_def list_all2_Cons1)
      show ?thesis
      proof (cases r1)
        case None
        have r: "r = None" "ch' = f # q"
          using "3.prems"(3) none rec None \<open>outer_index s (f_outervalues f) = None\<close> by auto
        have e: "chain_ext ?ch (f # q)" using ih(2) by (simp add: chain_ext_def)
        have "chain_ok (f # q)" unfolding chain_ok.simps using keep [OF e] ih(1) by blast
        moreover have "enclosing s ?ch = None" using None ih(3) none by simp
        ultimately show ?thesis using r e by simp
      next
        case (Some pos)
        obtain i f' where a: "add_outer s pos otOUTER f = (i, f')" by (cases "add_outer s pos otOUTER f")
        have "unat (of_nat pos :: u64) = pos"
          using ih(4) Some roomp by (intro unat_small) (auto simp: chain_room_def)
        then have "outer_source (f' # q) i = enclosing s ?ch" "outer_source (f' # q) i \<noteq> None"
          using a ih(3,4) Some none q by (auto simp: add_outer_def)
        then have "chain_ok (f' # q) \<and> chain_ext ?ch (f' # q) \<and> i \<le> length (f_outervalues f) \<and>
            outer_source (f' # q) i = enclosing s ?ch \<and> enclosing s ?ch \<noteq> None"
          using add [OF a ih(1,2)] by metis
        moreover have "r = Some i" "ch' = f' # q"
          using "3.prems"(3) none rec Some a \<open>outer_index s (f_outervalues f) = None\<close> by auto
        ultimately show ?thesis by (metis list.sel(1) option.distinct(1) option.inject)
      qed
    qed
  qed
qed


section \<open>Registers\<close>

text \<open>
  The first \<open>nl\<close> registers are named locals; the others are temporaries, each of which is on the
  target stack exactly once, in order; the other targets are locals.
\<close>

definition reg_ok :: "nat \<Rightarrow> fstate \<Rightarrow> bool" where
  "reg_ok nl f \<longleftrightarrow>
     nl \<le> length (f_vlocals f) \<and>
     (\<forall>i < length (f_vlocals f). lv_name (f_vlocals f ! i) = ONull \<longleftrightarrow> nl \<le> i) \<and>
     filter (\<lambda>t. int nl \<le> t) (f_targetstack f) = map int [nl..<length (f_vlocals f)] \<and>
     (\<forall>t \<in> set (f_targetstack f). 0 \<le> t) \<and> length (f_vlocals f) \<le> f_stacksize f"

lemma reg_okD:
  assumes "reg_ok nl f"
  shows "nl \<le> length (f_vlocals f)"
    "\<And>i. i < length (f_vlocals f) \<Longrightarrow> lv_name (f_vlocals f ! i) = ONull \<longleftrightarrow> nl \<le> i"
    "filter (\<lambda>t. int nl \<le> t) (f_targetstack f) = map int [nl..<length (f_vlocals f)]"
    "\<And>t. t \<in> set (f_targetstack f) \<Longrightarrow> 0 \<le> t" "length (f_vlocals f) \<le> f_stacksize f"
  using assms unfolding reg_ok_def by blast+

lemma reg_targets_less:
  assumes "reg_ok nl f" "t \<in> set (f_targetstack f)"
  shows "t < int (length (f_vlocals f))"
proof (cases "int nl \<le> t")
  case True
  with assms(2) have "t \<in> set (filter (\<lambda>t. int nl \<le> t) (f_targetstack f))" by simp
  with reg_okD(3) [OF assms(1)] show ?thesis by auto
next
  case False
  with reg_okD(1) [OF assms(1)] show ?thesis by linarith
qed

lemma PushTarget_temp_ok:
  assumes "reg_ok nl f" "PushTarget (- 1) f = Inr (r, f')"
  shows "r = int (length (f_vlocals f)) \<and> reg_ok nl f' \<and> f_targetstack f' = f_targetstack f @ [r]"
  using assms reg_okD(1,5) [OF assms(1)]
  by (auto simp: PushTarget_def AllocStackPos_def Let_def reg_ok_def null_local_def nth_append less_Suc_eq
      split: if_splits)

lemma PushTarget_local_ok:
  assumes "reg_ok nl f" "n < nl"
  shows "\<exists>f'. PushTarget (int n) f = Inr (int n, f') \<and> reg_ok nl f' \<and>
    f_targetstack f' = f_targetstack f @ [int n]"
  using assms by (auto simp: PushTarget_def reg_ok_def)

lemma PopTarget_ok:
  assumes ok: "reg_ok nl f" and ne: "f_targetstack f \<noteq> []"
  shows "\<exists>f'. PopTarget f = Some (last (f_targetstack f), f') \<and> reg_ok nl f' \<and>
    f_targetstack f' = butlast (f_targetstack f)"
proof -
  let ?t = "last (f_targetstack f)"
  obtain ts where ts: "f_targetstack f = ts @ [?t]" using ne by (metis append_butlast_last_id)
  have tm: "?t \<in> set (f_targetstack f)" using ne by simp
  have t0: "0 \<le> ?t" by (rule reg_okD(4) [OF ok tm])
  have tl: "?t < int (length (f_vlocals f))" by (rule reg_targets_less [OF ok tm])
  have nm: "lv_name (f_vlocals f ! nat ?t) = ONull \<longleftrightarrow> int nl \<le> ?t"
    using reg_okD(2) [OF ok, of "nat ?t"] t0 tl by auto
  have pos: "\<forall>t \<in> set ts. 0 \<le> t" using reg_okD(4) [OF ok] ts by (metis UnI1 set_append)
  show ?thesis
  proof (cases "int nl \<le> ?t")
    case False
    with ts reg_okD(3) [OF ok] have "filter (\<lambda>t. int nl \<le> t) ts = map int [nl..<length (f_vlocals f)]"
      by (metis append_Nil2 filter.simps filter_append)
    with False ne t0 tl nm ok ts pos show ?thesis
      by (auto simp: PopTarget_def reg_ok_def Let_def) (metis butlast_snoc)+
  next
    case True
    let ?n = "length (f_vlocals f)"
    have e: "filter (\<lambda>t. int nl \<le> t) ts @ [?t] = map int [nl..<?n]"
      using ts reg_okD(3) [OF ok] True by (metis filter.simps filter_append)
    then have lt: "nl < ?n" by (cases "nl < ?n") auto
    then have "map int [nl..<?n] = map int [nl..<?n - 1] @ [int (?n - 1)]"
      by (cases ?n) auto
    with e have f1: "filter (\<lambda>t. int nl \<le> t) ts = map int [nl..<?n - 1]" by simp
    have bl: "butlast (f_targetstack f) = ts" using ts by (metis butlast_snoc)
    have p: "PopTarget f = Some (?t, f\<lparr>f_vlocals := butlast (f_vlocals f), f_targetstack := ts\<rparr>)"
      using ne t0 tl nm True by (simp add: PopTarget_def bl)
    have "reg_ok nl (f\<lparr>f_vlocals := butlast (f_vlocals f), f_targetstack := ts\<rparr>)"
      using ok lt f1 pos by (auto simp: reg_ok_def nth_butlast)
    with p bl show ?thesis by simp
  qed
qed

section \<open>Properties\<close>

text \<open>
  C6: compiling the constants \<open>cs\<close> of a function one by one succeeds as long as there are at most
  \<open>MAX_LITERALS\<close>, and in the literal array \<open>BuildProto\<close> makes, the entry at the index returned for each
  constant is that constant; no constant is stored twice and nothing else is stored.
\<close>

theorem literal_pool_roundtrip:
  assumes "ONull \<notin> set cs" "int (length cs) \<le> MAX_LITERALS"
  shows "\<exists>is f p. get_constants wr cs fstate_create = Some (Inr (is, f)) \<and> BuildProto wr f = Some p \<and>
    list_all2 (\<lambda>i c. 0 \<le> i \<and> i < int (length (p_literals p)) \<and> p_literals p ! nat i = c) is cs \<and>
    distinct (p_literals p) \<and> set (p_literals p) = set cs"
proof -
  have "int (length ([] :: lvobj list) + length cs) \<le> MAX_LITERALS" using assms(2) by simp
  from get_constants_pool [OF lit_pool_create assms(1) this, of wr] obtain "is" f ls where
    g: "get_constants wr cs fstate_create = Some (Inr (is, f))" "lit_pool f ls" "set ls = set cs"
    "is = map (\<lambda>c. int (index_of c ls)) cs" unfolding append_Nil by (metis subset_antisym)
  from BuildProto_literals [OF g(2)] obtain p where p: "BuildProto wr f = Some p" "p_literals p = ls" by blast
  have "list_all2 (\<lambda>i c. 0 \<le> i \<and> i < int (length ls) \<and> ls ! nat i = c) is cs"
    unfolding g(4) list_all2_conv_all_nth
    using g(3) index_of_less index_of_nth by (metis length_map nat_int nth_map nth_mem of_nat_0_le_iff
        of_nat_less_iff)
  moreover have "distinct ls" using g(2) by (simp add: lit_pool_def)
  ultimately show ?thesis using g p by blast
qed

lemma literal_pool_roundtrip_witness:
  "\<exists>is f p. get_constants (\<lambda>_. ONull) [OInteger 7, OString ''a'', OInteger 7] fstate_create = Some (Inr (is, f)) \<and>
     BuildProto (\<lambda>_. ONull) f = Some p \<and> set (p_literals p) = {OInteger 7, OString ''a''}"
  using literal_pool_roundtrip [of "[OInteger 7, OString ''a'', OInteger 7]" "\<lambda>_. ONull"]
  by (auto simp: MAX_LITERALS_def)

text \<open>
  C4: a name that is not local resolves to the innermost enclosing function with a local of that
  name: \<open>GetOuterVariable\<close> fails exactly when there is none, and otherwise the outer variable it
  returns leads, through the outer variables of the functions in between, to the register of that
  local; everything that led somewhere before still leads there.
\<close>

theorem GetOuterVariable_resolves:
  assumes "chain_ok ch" "chain_room ch" "GetOuterVariable s ch = (r, ch')"
  shows "chain_ok ch' \<and> (r = None \<longleftrightarrow> enclosing s ch = None) \<and>
    (\<forall>i. r = Some i \<longrightarrow> outer_source ch' i = enclosing s ch) \<and>
    (\<forall>i x. outer_source ch i = Some x \<longrightarrow> outer_source ch' i = Some x)"
  using GetOuterVariable_ok [OF assms] outer_source_ext by blast

definition outer_demo :: "fstate list" where
  "outer_demo = [fstate_create, fstate_create,
     snd (PushLocalVariable (OString ''x'') (snd (PushLocalVariable (OString ''y'') fstate_create)))]"

lemma outer_demo_lookup:
  "fst (GetOuterVariable ''x'' outer_demo) = Some 0 \<and> enclosing ''x'' outer_demo = Some (2, 1)"
  by code_simp

lemma GetOuterVariable_resolves_witness:
  "outer_source (snd (GetOuterVariable ''x'' outer_demo)) 0 = Some (2, 1)"
proof -
  have "chain_ok outer_demo" "chain_room outer_demo"
    by (simp_all add: outer_demo_def chain_room_def PushLocalVariable_def fstate_create_def Let_def)
  from GetOuterVariable_resolves [OF this, of "''x''"] outer_demo_lookup show ?thesis
    by (metis prod.collapse)
qed

text \<open>
  C3: registers are handed out and taken back as a stack: a new target is a register that neither
  a local nor a pending target occupies, the frame covers it, and popping gives the targets back in
  order, freeing exactly the temporary on top; the only error is a frame of more than 255 registers.
\<close>

theorem register_discipline:
  assumes "reg_ok nl f"
  shows "(case PushTarget (- 1) f of
      Inl e \<Rightarrow> int (f_stacksize f) > MAX_FUNC_STACKSIZE
    | Inr (r, f') \<Rightarrow> r \<notin> set (f_targetstack f) \<and> int nl \<le> r \<and> r < int (f_stacksize f') \<and> reg_ok nl f' \<and>
        (\<exists>f''. PopTarget f' = Some (r, f'') \<and> reg_ok nl f'' \<and> f_vlocals f'' = f_vlocals f \<and>
           f_targetstack f'' = f_targetstack f)) \<and>
    (f_targetstack f \<noteq> [] \<longrightarrow> (\<exists>f'. PopTarget f = Some (last (f_targetstack f), f') \<and> reg_ok nl f' \<and>
        f_targetstack f' = butlast (f_targetstack f)))"
proof -
  have "case PushTarget (- 1) f of
      Inl e \<Rightarrow> int (f_stacksize f) > MAX_FUNC_STACKSIZE
    | Inr (r, f') \<Rightarrow> r \<notin> set (f_targetstack f) \<and> int nl \<le> r \<and> r < int (f_stacksize f') \<and> reg_ok nl f' \<and>
        (\<exists>f''. PopTarget f' = Some (r, f'') \<and> reg_ok nl f'' \<and> f_vlocals f'' = f_vlocals f \<and>
           f_targetstack f'' = f_targetstack f)"
  proof (cases "PushTarget (- 1) f")
    case (Inl e)
    then show ?thesis
      by (auto simp: PushTarget_def AllocStackPos_def Let_def split: if_splits)
  next
    case (Inr x)
    obtain r f' where x: "x = (r, f')" by (cases x)
    note p = PushTarget_temp_ok [OF assms Inr [unfolded x]]
    have v: "f_vlocals f' = f_vlocals f @ [null_local]"
      using Inr x by (auto simp: PushTarget_def AllocStackPos_def Let_def split: if_splits)
    have fr: "r \<notin> set (f_targetstack f)" using reg_targets_less [OF assms] p by blast
    from PopTarget_ok [of nl f'] p obtain f'' where f'': "PopTarget f' = Some (r, f'')" "reg_ok nl f''"
      "f_targetstack f'' = f_targetstack f" by auto
    moreover have "f_vlocals f'' = f_vlocals f"
      using f''(1) p v by (auto simp: PopTarget_def Let_def null_local_def nth_append split: if_splits)
    moreover have "r < int (f_stacksize f')" using reg_okD(5) [of nl f'] p v by simp
    ultimately show ?thesis using p fr reg_okD(1) [OF assms] Inr x by simp
  qed
  with PopTarget_ok [OF assms] show ?thesis by blast
qed

lemma register_discipline_witness:
  "reg_ok 0 fstate_create \<and> (\<exists>r f'. PushTarget (- 1) fstate_create = Inr (r, f') \<and>
     (\<exists>f''. PopTarget f' = Some (r, f'') \<and> f_vlocals f'' = []))"
proof -
  have ok: "reg_ok 0 fstate_create" by (simp add: reg_ok_def fstate_create_def)
  obtain r f' where p: "PushTarget (- 1) fstate_create = Inr (r, f')"
    by (auto simp: PushTarget_def AllocStackPos_def Let_def fstate_create_def MAX_FUNC_STACKSIZE_def)
  with register_discipline [OF ok] ok show ?thesis by (auto simp: fstate_create_def)
qed

end
