(* ===== verification/Floats.thy ===== *)
theory Floats
  imports Objects
begin

text \<open>
  Single-precision arithmetic as the C operators compute it: an \<open>LVFloat\<close> is a 32-bit IEEE number, kept
  as its bits. Finite operands are dyadic fractions; a result is rounded to nearest, ties to
  even. A NaN operand is passed on quiet, an invalid operation gives the default NaN of the
  x86-64 instructions.
\<close>

section \<open>Decoding\<close>

definition f32_is_nan :: "u32 \<Rightarrow> bool" where
  "f32_is_nan w \<longleftrightarrow> f32_exp w = 255 \<and> f32_frac w \<noteq> 0"

definition f32_is_inf :: "u32 \<Rightarrow> bool" where
  "f32_is_inf w \<longleftrightarrow> f32_exp w = 255 \<and> f32_frac w = 0"

text \<open>A finite float is a signed integer times \<open>2 ^ - 149\<close>.\<close>

definition f32_units :: "u32 \<Rightarrow> int" where
  "f32_units w =
     (let e = f32_exp w;
          m = (if e = 0 then f32_frac w else (f32_frac w + 2 ^ 23) * 2 ^ (e - 1))
      in if f32_neg w then - int m else int m)"

definition f32_is_zero :: "u32 \<Rightarrow> bool" where
  "f32_is_zero w \<longleftrightarrow> w AND 0x7FFFFFFF = 0"

section \<open>Encoding\<close>

fun bit_len :: "nat \<Rightarrow> nat" where
  "bit_len n = (if n = 0 then 0 else Suc (bit_len (n div 2)))"

declare bit_len.simps [simp del]

definition round_half_even :: "nat \<Rightarrow> nat \<Rightarrow> nat" where
  "round_half_even n d =
     (let q = n div d; r = n mod d in
      if 2 * r < d then q else if 2 * r > d then q + 1 else if even q then q else q + 1)"

text \<open>
  The magnitude of \<open>n / d\<close> units of \<open>2 ^ - 149\<close> as bits: \<open>e\<close> is the power of two of the last place.
\<close>

definition f32_encode_mag :: "nat \<Rightarrow> nat \<Rightarrow> u32" where
  "f32_encode_mag n d =
     (let k = bit_len (n div d) - 24;
          m = round_half_even n (d * 2 ^ k);
          bits = k * 2 ^ 23 + m
      in if bits \<ge> 0x7F800000 then 0x7F800000 else of_nat bits)"

definition f32_sign :: "bool \<Rightarrow> u32 \<Rightarrow> u32" where
  "f32_sign neg w = (if neg then w OR 0x80000000 else w)"

definition f32_of_ratio :: "bool \<Rightarrow> nat \<Rightarrow> nat \<Rightarrow> u32" where
  "f32_of_ratio neg n d = f32_sign neg (f32_encode_mag n d)"

definition f32_of_units :: "int \<Rightarrow> u32" where
  "f32_of_units i = f32_of_ratio (i < 0) (nat \<bar>i\<bar>) 1"

text \<open>\<open>(LVFloat)i\<close> for an integer.\<close>

definition f32_of_int :: "u64 \<Rightarrow> u32" where
  "f32_of_int i = f32_of_units (sint i * 2 ^ 149)"

section \<open>Arithmetic\<close>

definition f32_default_nan :: u32 where "f32_default_nan = 0xFFC00000"

definition f32_nan2 :: "u32 \<Rightarrow> u32 \<Rightarrow> u32 option" where
  "f32_nan2 x y =
     (if f32_is_nan x then Some (x OR 0x00400000)
      else if f32_is_nan y then Some (y OR 0x00400000) else None)"

definition f32_minus :: "u32 \<Rightarrow> u32" where
  "f32_minus x = x XOR 0x80000000"

definition f32_add :: "u32 \<Rightarrow> u32 \<Rightarrow> u32" where
  "f32_add x y =
     (case f32_nan2 x y of Some n \<Rightarrow> n
      | None \<Rightarrow>
         if f32_is_inf x then (if f32_is_inf y \<and> f32_neg x \<noteq> f32_neg y then f32_default_nan else x)
         else if f32_is_inf y then y
         else let s = f32_units x + f32_units y in
           if s = 0 then f32_sign (f32_neg x \<and> f32_neg y) 0 else f32_of_units s)"

definition f32_sub :: "u32 \<Rightarrow> u32 \<Rightarrow> u32" where
  "f32_sub x y =
     (case f32_nan2 x y of Some n \<Rightarrow> n | None \<Rightarrow> f32_add x (f32_minus y))"

definition f32_mul :: "u32 \<Rightarrow> u32 \<Rightarrow> u32" where
  "f32_mul x y =
     (let neg = (f32_neg x \<noteq> f32_neg y) in
      case f32_nan2 x y of Some n \<Rightarrow> n
      | None \<Rightarrow>
         if f32_is_inf x \<or> f32_is_inf y
         then (if f32_is_zero x \<or> f32_is_zero y then f32_default_nan else f32_sign neg 0x7F800000)
         else f32_of_ratio neg (nat \<bar>f32_units x * f32_units y\<bar>) (2 ^ 149))"

definition f32_div :: "u32 \<Rightarrow> u32 \<Rightarrow> u32" where
  "f32_div x y =
     (let neg = (f32_neg x \<noteq> f32_neg y) in
      case f32_nan2 x y of Some n \<Rightarrow> n
      | None \<Rightarrow>
         if f32_is_inf x then (if f32_is_inf y then f32_default_nan else f32_sign neg 0x7F800000)
         else if f32_is_inf y then f32_sign neg 0
         else if f32_is_zero y
         then (if f32_is_zero x then f32_default_nan else f32_sign neg 0x7F800000)
         else f32_of_ratio neg (nat \<bar>f32_units x\<bar> * 2 ^ 149) (nat \<bar>f32_units y\<bar>))"

text \<open>\<open>LVFloat(fmod((double)x, (double)y))\<close>: the remainder is exact in both formats.\<close>

definition f32_fmod :: "u32 \<Rightarrow> u32 \<Rightarrow> u32" where
  "f32_fmod x y =
     (case f32_nan2 x y of Some n \<Rightarrow> n
      | None \<Rightarrow>
         if f32_is_inf x \<or> f32_is_zero y then f32_default_nan
         else if f32_is_inf y then x
         else f32_of_ratio (f32_neg x) (nat (\<bar>f32_units x\<bar> mod \<bar>f32_units y\<bar>)) 1)"

section \<open>Comparison\<close>

definition f32_key :: "u32 \<Rightarrow> int" where
  "f32_key w = (let m = uint (w AND 0x7FFFFFFF) in if f32_neg w then - m else m)"

definition f32_eq :: "u32 \<Rightarrow> u32 \<Rightarrow> bool" where
  "f32_eq x y \<longleftrightarrow> \<not> f32_is_nan x \<and> \<not> f32_is_nan y \<and> f32_key x = f32_key y"

definition f32_less :: "u32 \<Rightarrow> u32 \<Rightarrow> bool" where
  "f32_less x y \<longleftrightarrow> \<not> f32_is_nan x \<and> \<not> f32_is_nan y \<and> f32_key x < f32_key y"

lemma f32_eq_refl: "f32_eq x x \<longleftrightarrow> \<not> f32_is_nan x"
  by (simp add: f32_eq_def)

lemma f32_trichotomy:
  "\<not> f32_is_nan x \<Longrightarrow> \<not> f32_is_nan y \<Longrightarrow> f32_less x y \<or> f32_eq x y \<or> f32_less y x"
  by (auto simp: f32_eq_def f32_less_def)

lemma f32_less_asym: "f32_less x y \<Longrightarrow> \<not> f32_less y x \<and> \<not> f32_eq x y \<and> \<not> f32_eq y x"
  by (auto simp: f32_eq_def f32_less_def)

end
