(* ===== verification/Values.thy ===== *)
theory Values
  imports Floats Bytecode "HOL-Library.Signed_Division"
begin

text \<open>
  The operators on numbers and the comparisons of the virtual machine (\<^verbatim>\<open>src/vm.cpp\<close>): bitwise and
  arithmetic operations, negation, \<open>IsEqual\<close>, \<open>IsFalse\<close>, and the part of \<open>ObjCmp\<close> that runs no
  metamethod. A raised error is \<open>VErr\<close> with its message, or with the values that
  \<open>Raise_IdxError\<close>, \<open>Raise_CompareError\<close> and \<open>Raise_ParamTypeError\<close> print into it; \<open>VTrap\<close> is an
  operation the machine traps on (the quotient of the least integer by \<open>- 1\<close>).
\<close>

datatype vm_error =
    EMsg string
  | EIdx lvobj
  | ECompare lvobj lvobj
  | EParamType nat u64 ltype
  | EThrown lvobj

datatype 'a vres = VOk 'a | VErr vm_error | VTrap

section \<open>Bitwise operations\<close>

text \<open>The shift instructions use the low six bits of the count.\<close>

fun bw_int :: "bitwiseop \<Rightarrow> u64 \<Rightarrow> u64 \<Rightarrow> u64" where
  "bw_int BW_AND i1 i2 = i1 AND i2"
| "bw_int BW_OR i1 i2 = i1 OR i2"
| "bw_int BW_XOR i1 i2 = i1 XOR i2"
| "bw_int BW_SHIFTL i1 i2 = push_bit (unat (i2 AND 63)) i1"
| "bw_int BW_SHIFTR i1 i2 = signed_drop_bit (unat (i2 AND 63)) i1"
| "bw_int BW_USHIFTR i1 i2 = drop_bit (unat (i2 AND 63)) i1"

definition BW_OP :: "nat \<Rightarrow> lvobj \<Rightarrow> lvobj \<Rightarrow> lvobj vres" where
  "BW_OP opc o1 o2 =
     (case (o1, o2) of
        (OInteger i1, OInteger i2) \<Rightarrow>
          (case bitwise_of opc of
             Some b \<Rightarrow> VOk (OInteger (bw_int b i1 i2))
           | None \<Rightarrow> VErr (EMsg ''internal vm error bitwise op failed''))
      | _ \<Rightarrow> VErr (EMsg (''bitwise op between '' @ [CHR 0x27] @ IdType2Name (otype o1) @ [CHR 0x27] @ '' and ''
               @ [CHR 0x27] @ IdType2Name (otype o2) @ [CHR 0x27])))"

definition bw_not :: "lvobj \<Rightarrow> lvobj vres" where
  "bw_not ob =
     (case ob of OInteger t \<Rightarrow> VOk (OInteger (NOT t))
      | _ \<Rightarrow> VErr (EMsg (''attempt to perform a bitwise op on a '' @ IdType2Name (otype ob))))"

section \<open>Arithmetic\<close>

fun tofloat :: "lvobj \<Rightarrow> u32" where
  "tofloat (OInteger i) = f32_of_int i"
| "tofloat (OFloat f) = f"
| "tofloat _ = 0"

fun tointeger :: "lvobj \<Rightarrow> u64" where
  "tointeger (OFloat f) = f32_to_int f"
| "tointeger (OInteger i) = i"
| "tointeger _ = 0"

definition int_min64 :: u64 where "int_min64 = 0x8000000000000000"

definition INT_MIN :: u64 where "INT_MIN = 0xFFFFFFFF80000000"

definition quot64 :: "u64 \<Rightarrow> u64 \<Rightarrow> u64 vres" where
  "quot64 i1 i2 =
     (if i1 = int_min64 \<and> i2 = - 1 then VTrap else VOk (word_of_int (sint i1 sdiv sint i2)))"

definition rem64 :: "u64 \<Rightarrow> u64 \<Rightarrow> u64 vres" where
  "rem64 i1 i2 =
     (if i1 = int_min64 \<and> i2 = - 1 then VTrap else VOk (word_of_int (sint i1 smod sint i2)))"

text \<open>The integer case of \<open>ARITH_OP\<close>.\<close>

definition arith_int :: "char \<Rightarrow> u64 \<Rightarrow> u64 \<Rightarrow> u64 vres" where
  "arith_int opc i1 i2 =
     (if opc = CHR ''+'' then VOk (i1 + i2)
      else if opc = CHR ''-'' then VOk (i1 - i2)
      else if opc = CHR ''/'' then
        (if i2 = 0 then VErr (EMsg ''division by zero'')
         else if i2 = - 1 \<and> i1 = INT_MIN then VErr (EMsg ''integer overflow'')
         else quot64 i1 i2)
      else if opc = CHR ''*'' then VOk (i1 * i2)
      else if opc = CHR 0x25 then
        (if i2 = 0 then VErr (EMsg ''modulo by zero'')
         else if i2 = - 1 \<and> i1 = INT_MIN then VOk 0
         else rem64 i1 i2)
      else VOk 0xDEADBEEF)"

definition arith_float :: "char \<Rightarrow> u32 \<Rightarrow> u32 \<Rightarrow> u32" where
  "arith_float opc f1 f2 =
     (if opc = CHR ''+'' then f32_add f1 f2
      else if opc = CHR ''-'' then f32_sub f1 f2
      else if opc = CHR ''/'' then f32_div f1 f2
      else if opc = CHR ''*'' then f32_mul f1 f2
      else if opc = CHR 0x25 then f32_fmod f1 f2
      else f32_of_int 0x0f)"

fun is_number :: "lvobj \<Rightarrow> bool" where
  "is_number (OInteger _) \<longleftrightarrow> True"
| "is_number (OFloat _) \<longleftrightarrow> True"
| "is_number _ \<longleftrightarrow> False"

text \<open>
  \<open>ARITH_OP\<close>; \<open>other\<close> is the default case of its switch, string concatenation or a metamethod,
  modelled with the machine state in theory \<open>Access\<close>.
\<close>

definition ARITH_OP ::
  "(char \<Rightarrow> lvobj \<Rightarrow> lvobj \<Rightarrow> lvobj vres) \<Rightarrow> char \<Rightarrow> lvobj \<Rightarrow> lvobj \<Rightarrow> lvobj vres" where
  "ARITH_OP other opc o1 o2 =
     (case (o1, o2) of
        (OInteger i1, OInteger i2) \<Rightarrow>
          (case arith_int opc i1 i2 of VOk r \<Rightarrow> VOk (OInteger r) | VErr e \<Rightarrow> VErr e | VTrap \<Rightarrow> VTrap)
      | _ \<Rightarrow>
          if is_number o1 \<and> is_number o2
          then VOk (OFloat (arith_float opc (tofloat o1) (tofloat o2)))
          else other opc o1 o2)"

text \<open>The macros \<open>_ARITH_\<close> and \<open>_ARITH_NOZERO\<close> the instructions use.\<close>

definition ARITH_macro ::
  "(char \<Rightarrow> lvobj \<Rightarrow> lvobj \<Rightarrow> lvobj vres) \<Rightarrow> char \<Rightarrow> lvobj \<Rightarrow> lvobj \<Rightarrow> lvobj vres" where
  "ARITH_macro other opc o1 o2 =
     (case (o1, o2) of
        (OInteger i1, OInteger i2) \<Rightarrow>
          VOk (OInteger (if opc = CHR ''+'' then i1 + i2 else if opc = CHR ''-'' then i1 - i2 else i1 * i2))
      | _ \<Rightarrow>
          if is_number o1 \<and> is_number o2
          then VOk (OFloat (if opc = CHR ''+'' then f32_add (tofloat o1) (tofloat o2)
                 else if opc = CHR ''-'' then f32_sub (tofloat o1) (tofloat o2)
                 else f32_mul (tofloat o1) (tofloat o2)))
          else ARITH_OP other opc o1 o2)"

definition ARITH_NOZERO_macro ::
  "(char \<Rightarrow> lvobj \<Rightarrow> lvobj \<Rightarrow> lvobj vres) \<Rightarrow> lvobj \<Rightarrow> lvobj \<Rightarrow> lvobj vres" where
  "ARITH_NOZERO_macro other o1 o2 =
     (case (o1, o2) of
        (OInteger i1, OInteger i2) \<Rightarrow>
          if i2 = 0 then VErr (EMsg ''division by zero'')
          else (case quot64 i1 i2 of VOk r \<Rightarrow> VOk (OInteger r) | VErr e \<Rightarrow> VErr e | VTrap \<Rightarrow> VTrap)
      | _ \<Rightarrow>
          if is_number o1 \<and> is_number o2 then VOk (OFloat (f32_div (tofloat o1) (tofloat o2)))
          else ARITH_OP other (CHR ''/'') o1 o2)"

text \<open>\<open>NEG_OP\<close> on numbers; \<open>other\<close> is the metamethod case.\<close>

definition NEG_OP :: "(lvobj \<Rightarrow> lvobj vres) \<Rightarrow> lvobj \<Rightarrow> lvobj vres" where
  "NEG_OP other ob =
     (case ob of OInteger i \<Rightarrow> VOk (OInteger (- i)) | OFloat f \<Rightarrow> VOk (OFloat (f32_minus f))
      | _ \<Rightarrow> if otype ob \<in> {OT_TABLE, OT_USERDATA, OT_INSTANCE} then other ob
             else VErr (EMsg (''attempt to negate a '' @ IdType2Name (otype ob))))"

section \<open>Comparison\<close>

definition IsEqual :: "lvobj \<Rightarrow> lvobj \<Rightarrow> bool" where
  "IsEqual o1 o2 =
     (if otype o1 = otype o2 then o1 = o2
      else if is_number o1 \<and> is_number o2 then f32_eq (tofloat o1) (tofloat o2)
      else False)"

text \<open>The raw value of the union: zero for null, the first eight bytes otherwise.\<close>

fun IsFalse :: "lvobj \<Rightarrow> bool" where
  "IsFalse ONull \<longleftrightarrow> True"
| "IsFalse (OInteger i) \<longleftrightarrow> i = 0"
| "IsFalse (OBool b) \<longleftrightarrow> b = 0"
| "IsFalse (OFloat f) \<longleftrightarrow> f32_eq f 0"
| "IsFalse (OUserPointer p) \<longleftrightarrow> p = 0"
| "IsFalse (OString s) \<longleftrightarrow> False"
| "IsFalse (ORef k a) \<longleftrightarrow> a = 0"

text \<open>\<open>strcmp\<close>: characters are compared as unsigned, a string ends at its first NUL.\<close>

fun c_strcmp :: "string \<Rightarrow> string \<Rightarrow> int" where
  "c_strcmp [] [] = 0"
| "c_strcmp [] (d # t) = (if d = CHR 0x00 then 0 else - 1)"
| "c_strcmp (c # s) [] = (if c = CHR 0x00 then 0 else 1)"
| "c_strcmp (c # s) (d # t) =
     (if c \<noteq> d then (if (of_char c :: nat) < of_char d then - 1 else 1)
      else if c = CHR 0x00 then 0 else c_strcmp s t)"

text \<open>The pointers the default case compares.\<close>

fun raw_word :: "lvobj \<Rightarrow> u64" where
  "raw_word (OInteger i) = i"
| "raw_word (OBool b) = b"
| "raw_word (OFloat f) = ucast f"
| "raw_word (OUserPointer p) = p"
| "raw_word (ORef _ a) = a"
| "raw_word _ = 0"

text \<open>\<open>ObjCmp\<close>; \<open>cmp_meta\<close> is the metamethod \<open>_cmp\<close> of the left operand, \<open>None\<close> if it has none.\<close>

definition ObjCmp :: "(lvobj \<Rightarrow> lvobj \<Rightarrow> lvobj vres option) \<Rightarrow> lvobj \<Rightarrow> lvobj \<Rightarrow> int vres" where
  "ObjCmp cmp_meta o1 o2 =
     (if otype o1 = otype o2 then
        (if o1 = o2 then VOk 0
         else (case (o1, o2) of
             (OString s, OString t) \<Rightarrow> VOk (c_strcmp s t)
           | (OInteger i, OInteger j) \<Rightarrow> VOk (if sint i < sint j then - 1 else 1)
           | (OFloat x, OFloat y) \<Rightarrow> VOk (if f32_less x y then - 1 else 1)
           | _ \<Rightarrow>
               (case (if otype o1 \<in> {OT_TABLE, OT_USERDATA, OT_INSTANCE} then cmp_meta o1 o2 else None) of
                  Some (VOk (OInteger r)) \<Rightarrow> VOk (sint r)
                | Some (VOk _) \<Rightarrow> VErr (EMsg ''_cmp must return an integer'')
                | Some (VErr e) \<Rightarrow> VErr e
                | Some VTrap \<Rightarrow> VTrap
                | None \<Rightarrow> VOk (if raw_word o1 < raw_word o2 then - 1 else 1))))
      else if is_number o1 \<and> is_number o2 then
        VOk (if f32_eq (tofloat o1) (tofloat o2) then 0
             else if f32_less (tofloat o1) (tofloat o2) then - 1 else 1)
      else if o1 = ONull then VOk (- 1)
      else if o2 = ONull then VOk 1
      else VErr (ECompare o1 o2))"

definition of_bool_obj :: "bool \<Rightarrow> lvobj" where
  "of_bool_obj b = OBool (if b then 1 else 0)"

fun cmp_result :: "cmpop \<Rightarrow> int \<Rightarrow> lvobj" where
  "cmp_result CMP_G r = of_bool_obj (r > 0)"
| "cmp_result CMP_GE r = of_bool_obj (r \<ge> 0)"
| "cmp_result CMP_L r = of_bool_obj (r < 0)"
| "cmp_result CMP_LE r = of_bool_obj (r \<le> 0)"
| "cmp_result CMP_3W r = OInteger (of_int r)"

definition CMP_OP ::
  "(lvobj \<Rightarrow> lvobj \<Rightarrow> lvobj vres option) \<Rightarrow> cmpop \<Rightarrow> lvobj \<Rightarrow> lvobj \<Rightarrow> lvobj vres" where
  "CMP_OP cmp_meta cop o1 o2 =
     (case ObjCmp cmp_meta o1 o2 of
        VOk r \<Rightarrow> VOk (cmp_result cop r) | VErr e \<Rightarrow> VErr e | VTrap \<Rightarrow> VTrap)"


section \<open>What they compute\<close>

lemma smod_abs_less: "b \<noteq> (0::int) \<Longrightarrow> \<bar>a smod b\<bar> < \<bar>b\<bar>"
  by (simp add: signed_modulo_int_def abs_mult sgn_if)

lemma smod_sign: "a smod b = 0 \<or> sgn (a smod b) = sgn (a::int)"
proof (cases "\<bar>a\<bar> mod \<bar>b\<bar> = 0")
  case False
  then have "\<bar>a\<bar> mod \<bar>b\<bar> > 0"
    by (metis abs_ge_zero abs_zero mod_by_0 pos_mod_sign order_le_less abs_le_zero_iff linorder_not_less)
  then show ?thesis by (simp add: signed_modulo_int_def sgn_mult)
qed (simp add: signed_modulo_int_def)

lemma word_of_sint [simp]: "(word_of_int (sint w) :: u64) = w"
  by simp

lemma sint_bounds64: "- (2 ^ 63) \<le> sint (w :: u64)" "sint (w :: u64) < 2 ^ 63"
  using sint_greater_eq [of w] sint_less [of w] by simp_all

lemma sint_word_of_int64: "- (2 ^ 63) \<le> i \<Longrightarrow> i < 2 ^ 63 \<Longrightarrow> sint (word_of_int i :: u64) = i"
  by (subst sint_sbintrunc') (simp add: signed_take_bit_int_eq_self_iff)

lemma smod_bounds64:
  assumes "b \<noteq> (0::u64)"
  shows "sint (word_of_int (sint a smod sint b) :: u64) = sint a smod sint b"
proof (rule sint_word_of_int64)
  have "sint b \<noteq> 0" using assms by (metis signed_0 signed_word_eqI)
  then have l: "\<bar>sint a smod sint b\<bar> < \<bar>sint b\<bar>" by (rule smod_abs_less)
  have "\<bar>sint b\<bar> \<le> 2 ^ 63" using sint_bounds64 [of b] by linarith
  with l show "- (2 ^ 63) \<le> sint a smod sint b" "sint a smod sint b < 2 ^ 63" by linarith+
qed

lemma quot_rem64:
  assumes "quot64 i1 i2 = VOk q" "rem64 i1 i2 = VOk r"
  shows "i1 = q * i2 + r"
proof -
  have "q * i2 + r = word_of_int ((sint i1 sdiv sint i2) * sint i2 + sint i1 smod sint i2)"
    using assms by (auto simp: quot64_def rem64_def simp flip: wi_hom_syms split: if_splits)
  also have "\<dots> = i1" by (simp add: sdiv_mult_smod_eq)
  finally show ?thesis by simp
qed

lemma c_strcmp_swap: "c_strcmp t s = - c_strcmp s t"
proof (induction s t rule: c_strcmp.induct)
  case (4 c s d t)
  show ?case
  proof (cases "c = d")
    case True then show ?thesis using 4 by simp
  next
    case False
    then have "(of_char c :: nat) \<noteq> of_char d" by simp
    then show ?thesis using False by auto
  qed
qed auto

lemma c_strcmp_zero: "CHR 0x00 \<notin> set s \<Longrightarrow> CHR 0x00 \<notin> set t \<Longrightarrow> c_strcmp s t = 0 \<longleftrightarrow> s = t"
  by (induction s t rule: c_strcmp.induct) (auto split: if_splits)

lemma word_split31: "(w :: u32) = (w AND 0x7FFFFFFF) OR (if bit w 31 then 0x80000000 else 0)"
  by (rule bit_word_eqI) (auto simp: bit_simps less_Suc_eq numeral_eq_Suc)

lemma f32_key_inj:
  assumes k: "f32_key x = f32_key y" and x: "x \<noteq> 0x80000000" and y: "y \<noteq> 0x80000000"
  shows "x = y"
proof -
  define m m' where "m = x AND 0x7FFFFFFF" and "m' = y AND 0x7FFFFFFF"
  have pos: "0 \<le> uint m" "0 \<le> uint m'" by simp_all
  have nz: "\<not> (f32_neg x \<and> m = 0)" "\<not> (f32_neg y \<and> m' = 0)"
    using x y word_split31 [of x] word_split31 [of y] by (auto simp: m_def m'_def f32_neg_def)
  have k': "(if f32_neg x then - uint m else uint m) = (if f32_neg y then - uint m' else uint m')"
    using k unfolding f32_key_def m_def m'_def Let_def .
  have "f32_neg x = f32_neg y \<and> m = m'"
  proof (cases "f32_neg x"; cases "f32_neg y")
    assume "f32_neg x" "\<not> f32_neg y"
    with k' have "uint m = - uint m' \<or> - uint m = uint m'" by auto
    then have "uint m = 0" using pos by linarith
    with nz \<open>f32_neg x\<close> show ?thesis by (simp add: uint_0_iff)
  next
    assume "\<not> f32_neg x" "f32_neg y"
    with k' have "uint m = - uint m' \<or> - uint m = uint m'" by auto
    then have "uint m' = 0" using pos by linarith
    with nz \<open>f32_neg y\<close> show ?thesis by (simp add: uint_0_iff)
  qed (use k' in \<open>auto simp: word_uint_eq_iff\<close>)
  then show ?thesis
    using word_split31 [of x] word_split31 [of y] by (simp add: m_def m'_def f32_neg_def)
qed

text \<open>Values on which the float comparisons are exact: no NaN and no negative zero.\<close>

fun ordinary :: "lvobj \<Rightarrow> bool" where
  "ordinary (OFloat f) \<longleftrightarrow> \<not> f32_is_nan f \<and> f \<noteq> 0x80000000"
| "ordinary (OString s) \<longleftrightarrow> CHR 0x00 \<notin> set s"
| "ordinary _ \<longleftrightarrow> True"

definition cmp_agree :: "int vres \<Rightarrow> int vres \<Rightarrow> bool" where
  "cmp_agree x y \<longleftrightarrow> (case (x, y) of (VOk r, VOk r') \<Rightarrow> sgn r' = - sgn r | (VErr _, VErr _) \<Rightarrow> True | _ \<Rightarrow> False)"

lemma f32_less_or: 
  assumes "ordinary (OFloat x)" "ordinary (OFloat y)" "x \<noteq> y"
  shows "f32_less x y \<longleftrightarrow> \<not> f32_less y x"
  using assms f32_key_inj [of x y] by (auto simp: f32_less_def not_less_iff_gr_or_eq)

lemma f32_exp_nat: "f32_exp w = unat w div 2 ^ 23 mod 256"
proof -
  have "drop_bit 23 w AND 0xFF = take_bit 8 (drop_bit 23 w)"
    by (simp add: take_bit_eq_mask mask_eq_exp_minus_1)
  then show ?thesis 
    by (simp only: f32_exp_def) (simp add: take_bit_eq_mod drop_bit_eq_div unat_mod_distrib unat_div_distrib)
qed

lemma f32_frac_nat: "f32_frac w = unat w mod 2 ^ 23"
proof -
  have "w AND 0x7FFFFF = take_bit 23 w" by (simp add: take_bit_eq_mask mask_eq_exp_minus_1)
  then show ?thesis by (simp only: f32_frac_def) (simp add: take_bit_eq_mod unat_mod_distrib)
qed

lemma f32_encode_mag_le: "unat (f32_encode_mag n d) \<le> 0x7F800000"
proof -
  obtain b where b: "f32_encode_mag n d = (if b \<ge> 0x7F800000 then 0x7F800000 else of_nat b)"
    by (auto simp: f32_encode_mag_def Let_def)
  show ?thesis
  proof (cases "b \<ge> 0x7F800000")
    case False
    then show ?thesis using b by (simp add: unat_of_nat take_bit_nat_eq_self)
  qed (simp add: b)
qed

lemma f32_sign_nan: "f32_is_nan (f32_sign neg w) \<longleftrightarrow> f32_is_nan w"
  by (simp add: f32_is_nan_def f32_sign_def f32_exp_def f32_frac_def bit.conj_disj_distrib2 drop_bit_or)

lemma f32_le_no_nan: "unat w \<le> 0x7F800000 \<Longrightarrow> \<not> f32_is_nan w"
proof
  assume le: "unat w \<le> 0x7F800000" and n: "f32_is_nan w"
  have e: "unat w div 2 ^ 23 mod 256 = 255" and f: "unat w mod 2 ^ 23 \<noteq> 0"
    using n by (auto simp: f32_is_nan_def f32_exp_nat f32_frac_nat)
  show False 
  proof -
    define q r where "q = unat w div 2 ^ 23" and "r = unat w mod 2 ^ 23"
    have w: "unat w = 8388608 * q + r" by (simp add: q_def r_def)
    then have "q \<le> 255" using le by linarith
    moreover have "q mod 256 = 255" using e by (simp only: q_def)
    ultimately have "q = 255" by simp
    moreover have "r \<noteq> 0" using f by (simp only: r_def not_False_eq_True)
    ultimately show False using le w by linarith
  qed
qed

lemma f32_of_int_no_nan: "\<not> f32_is_nan (f32_of_int i)"
  using f32_encode_mag_le f32_le_no_nan f32_sign_nan
  by (simp add: f32_of_int_def f32_of_units_def f32_of_ratio_def)


lemma kind_type_eq: "kind_type k = kind_type k' \<longleftrightarrow> k = k'"
  by (cases k; cases k') simp_all

lemma kind_type_plain [simp]:
  "kind_type k \<noteq> OT_INTEGER" "kind_type k \<noteq> OT_FLOAT" "kind_type k \<noteq> OT_STRING"
  "kind_type k \<noteq> OT_BOOL" "kind_type k \<noteq> OT_USERPOINTER" "kind_type k \<noteq> OT_NULL"
  "OT_INTEGER \<noteq> kind_type k" "OT_FLOAT \<noteq> kind_type k" "OT_STRING \<noteq> kind_type k"
  "OT_BOOL \<noteq> kind_type k" "OT_USERPOINTER \<noteq> kind_type k" "OT_NULL \<noteq> kind_type k"
  by (cases k; simp)+

lemma ObjCmp_same:
  "ObjCmp (\<lambda>_ _. None) (OString s) (OString t) = VOk (if s = t then 0 else c_strcmp s t)"
  "ObjCmp (\<lambda>_ _. None) (OInteger i) (OInteger j) =
     VOk (if i = j then 0 else if sint i < sint j then - 1 else 1)"
  "ObjCmp (\<lambda>_ _. None) (OFloat x) (OFloat y) =
     VOk (if x = y then 0 else if f32_less x y then - 1 else 1)"
  "ObjCmp (\<lambda>_ _. None) (OBool a) (OBool b) = VOk (if a = b then 0 else if a < b then - 1 else 1)"
  "ObjCmp (\<lambda>_ _. None) (OUserPointer p) (OUserPointer q) =
     VOk (if p = q then 0 else if p < q then - 1 else 1)"
  "ObjCmp (\<lambda>_ _. None) (ORef k p) (ORef k q) = VOk (if p = q then 0 else if p < q then - 1 else 1)"
  by (simp_all add: ObjCmp_def)

lemma ObjCmp_mixed:
  "ObjCmp m (OInteger i) (OFloat y) =
     VOk (if f32_eq (f32_of_int i) y then 0 else if f32_less (f32_of_int i) y then - 1 else 1)"
  "ObjCmp m (OFloat y) (OInteger i) =
     VOk (if f32_eq y (f32_of_int i) then 0 else if f32_less y (f32_of_int i) then - 1 else 1)"
  by (simp_all add: ObjCmp_def)

lemma ObjCmp_apart:
  assumes "otype o1 \<noteq> otype o2" "\<not> (is_number o1 \<and> is_number o2)"
  shows "ObjCmp m o1 o2 =
    (if o1 = ONull then VOk (- 1) else if o2 = ONull then VOk 1 else VErr (ECompare o1 o2))"
  unfolding ObjCmp_def using assms by (simp only: if_False refl)

lemma sint_less_iff: "i \<noteq> j \<Longrightarrow> sint (i :: u64) < sint j \<longleftrightarrow> \<not> sint j < sint i"
  by (metis linorder_neqE_linordered_idom order_less_asym signed_word_eqI)

lemma f32_eq_sym: "f32_eq x y \<longleftrightarrow> f32_eq y x"
  by (auto simp: f32_eq_def)

lemma cmp_agree_same:
  assumes "otype o1 = otype o2" "ordinary o1" "ordinary o2"
  shows "cmp_agree (ObjCmp (\<lambda>_ _. None) o1 o2) (ObjCmp (\<lambda>_ _. None) o2 o1)"
proof (cases o1)
  case (OInteger i)
  then obtain j where "o2 = OInteger j" using assms(1) by (cases o2) (auto simp: kind_type_eq)
  then show ?thesis using OInteger sint_less_iff [of i j] by (auto simp: ObjCmp_same cmp_agree_def)
next
  case (OFloat x)
  then obtain y where "o2 = OFloat y" using assms(1) by (cases o2) auto
  then show ?thesis using OFloat f32_less_or [of x y] assms by (auto simp: ObjCmp_same cmp_agree_def)
next
  case (OString s)
  then obtain t where "o2 = OString t" using assms(1) by (cases o2) auto
  then show ?thesis using OString c_strcmp_swap [of t s] by (auto simp: ObjCmp_same cmp_agree_def sgn_minus)
next
  case (OBool a)
  then obtain b where "o2 = OBool b" using assms(1) by (cases o2) auto
  then show ?thesis using OBool by (auto simp: ObjCmp_same cmp_agree_def)
next
  case (OUserPointer p)
  then obtain q where "o2 = OUserPointer q" using assms(1) by (cases o2) auto
  then show ?thesis using OUserPointer by (auto simp: ObjCmp_same cmp_agree_def)
next
  case (ORef k p)
  then obtain q where "o2 = ORef k q" using assms(1) by (cases o2) (auto simp: kind_type_eq)
  then show ?thesis using ORef by (auto simp: ObjCmp_same cmp_agree_def)
next
  case ONull
  then show ?thesis using assms(1) otype_null_iff [of o2] by (simp add: ObjCmp_def cmp_agree_def)
qed

lemma cmp_agree_mixed:
  assumes "otype o1 \<noteq> otype o2" "ordinary o1" "ordinary o2"
  shows "cmp_agree (ObjCmp m o1 o2) (ObjCmp m o2 o1)"
proof (cases "is_number o1 \<and> is_number o2")
  case True
  then consider i y where "o1 = OInteger i" "o2 = OFloat y" | i y where "o2 = OInteger i" "o1 = OFloat y"
    using assms(1) by (cases o1; cases o2) auto
  then show ?thesis
  proof cases
    case 1 then show ?thesis
      using assms f32_trichotomy [OF f32_of_int_no_nan [of i], of y] f32_less_asym f32_eq_sym
      by (auto simp: ObjCmp_mixed cmp_agree_def)
  next
    case 2 then show ?thesis
      using assms f32_trichotomy [OF f32_of_int_no_nan [of i], of y] f32_less_asym f32_eq_sym
      by (auto simp: ObjCmp_mixed cmp_agree_def)
  qed
next
  case False
  then show ?thesis
    using ObjCmp_apart [OF assms(1) False, of m] ObjCmp_apart [OF assms(1) [symmetric], of m] assms(1)
    by (auto simp: cmp_agree_def)
qed

text \<open>
  C12: the comparison of two values that have no metamethod, no NaN, no negative zero and no NUL in a string is
  antisymmetric: with the operands swapped it gives the opposite sign, or an error both times.
\<close>

theorem ObjCmp_antisymmetric:
  assumes "ordinary o1" "ordinary o2"
  shows "cmp_agree (ObjCmp (\<lambda>_ _. None) o1 o2) (ObjCmp (\<lambda>_ _. None) o2 o1)"
  using cmp_agree_same cmp_agree_mixed assms by blast

theorem ObjCmp_antisymmetric_witness:
  "cmp_agree (ObjCmp (\<lambda>_ _. None) (OInteger 3) (OString ''a''))
     (ObjCmp (\<lambda>_ _. None) (OString ''a'') (OInteger 3))"
  by (rule ObjCmp_antisymmetric) simp_all

section \<open>Division\<close>

text \<open>
  C13: for a divisor other than zero, and away from the two pairs the code treats apart, \<open>/\<close> and the remainder
  of \<open>ARITH_OP\<close> return the quotient rounded towards zero and its remainder: the dividend is
  quotient times divisor plus remainder, the remainder is smaller than the divisor and has the
  sign of the dividend.
\<close>

theorem ARITH_OP_division:
  assumes "i2 \<noteq> 0" "\<not> (i2 = - 1 \<and> (i1 = INT_MIN \<or> i1 = int_min64))"
  shows "\<exists>q r. ARITH_OP other (CHR ''/'') (OInteger i1) (OInteger i2) = VOk (OInteger q)
     \<and> ARITH_OP other (CHR 0x25) (OInteger i1) (OInteger i2) = VOk (OInteger r)
     \<and> i1 = q * i2 + r \<and> \<bar>sint r\<bar> < \<bar>sint i2\<bar> \<and> (r = 0 \<or> sgn (sint r) = sgn (sint i1))"
proof -
  define q r where "q = (word_of_int (sint i1 sdiv sint i2) :: u64)"
    and "r = (word_of_int (sint i1 smod sint i2) :: u64)"
  have s: "sint r = sint i1 smod sint i2" using assms(1) by (simp only: r_def smod_bounds64 not_False_eq_True)
  have nz: "sint i2 \<noteq> 0" using assms(1) by (metis signed_0 signed_word_eqI)
  have qr: "quot64 i1 i2 = VOk q" "rem64 i1 i2 = VOk r"
    using assms by (auto simp: quot64_def rem64_def q_def r_def)
  have "ARITH_OP other (CHR ''/'') (OInteger i1) (OInteger i2) = VOk (OInteger q)"
    using assms qr by (auto simp: ARITH_OP_def arith_int_def)
  moreover have "ARITH_OP other (CHR 0x25) (OInteger i1) (OInteger i2) = VOk (OInteger r)"
    using assms qr by (auto simp: ARITH_OP_def arith_int_def)
  moreover have "r = 0 \<or> sgn (sint r) = sgn (sint i1)"
    using smod_sign [of "sint i1" "sint i2"] s r_def by auto
  ultimately show ?thesis using quot_rem64 [OF qr] smod_abs_less [OF nz] s by metis
qed

theorem ARITH_OP_division_witness:
  "\<exists>q r. ARITH_OP (\<lambda>_ _ _. VTrap) (CHR ''/'') (OInteger (- 7)) (OInteger 2) = VOk (OInteger q)
     \<and> ARITH_OP (\<lambda>_ _ _. VTrap) (CHR 0x25) (OInteger (- 7)) (OInteger 2) = VOk (OInteger r)
     \<and> - 7 = q * 2 + r \<and> \<bar>sint r\<bar> < \<bar>sint (2 :: u64)\<bar> \<and> (r = 0 \<or> sgn (sint r) = sgn (sint (- 7 :: u64)))"
  by (rule ARITH_OP_division) simp_all

text \<open>
  C14: the instruction macros compute what \<open>ARITH_OP\<close> computes, errors and metamethods included, except that
  the division macro divides \<open>INT_MIN\<close> by \<open>- 1\<close> where \<open>ARITH_OP\<close> reports an overflow.
\<close>

theorem ARITH_macro_is_ARITH_OP:
  assumes "opc \<in> {CHR ''+'', CHR ''-'', CHR ''*''}"
  shows "ARITH_macro other opc o1 o2 = ARITH_OP other opc o1 o2
    \<and> ARITH_NOZERO_macro other o1 o2 =
        (if o1 = OInteger INT_MIN \<and> o2 = OInteger (- 1) then VOk (OInteger 0x80000000)
         else ARITH_OP other (CHR ''/'') o1 o2)"
proof
  show "ARITH_macro other opc o1 o2 = ARITH_OP other opc o1 o2"
    using assms by (cases o1; cases o2) (auto simp: ARITH_macro_def ARITH_OP_def arith_int_def arith_float_def)
  have "quot64 INT_MIN (- 1) = VOk 0x80000000" by (simp add: quot64_def INT_MIN_def int_min64_def signed_divide_int_def)
  then show "ARITH_NOZERO_macro other o1 o2 =
        (if o1 = OInteger INT_MIN \<and> o2 = OInteger (- 1) then VOk (OInteger 0x80000000)
         else ARITH_OP other (CHR ''/'') o1 o2)"
    by (cases o1; cases o2) (auto simp: ARITH_NOZERO_macro_def ARITH_OP_def arith_int_def arith_float_def)
qed

theorem ARITH_macro_is_ARITH_OP_witness:
  "ARITH_macro (\<lambda>_ _ _. VTrap) (CHR ''+'') (OInteger 2) (OFloat 0) = ARITH_OP (\<lambda>_ _ _. VTrap) (CHR ''+'') (OInteger 2) (OFloat 0)
    \<and> ARITH_NOZERO_macro (\<lambda>_ _ _. VTrap) (OInteger 2) (OFloat 0) =
        (if OInteger 2 = OInteger INT_MIN \<and> OFloat 0 = OInteger (- 1) then VOk (OInteger 0x80000000)
         else ARITH_OP (\<lambda>_ _ _. VTrap) (CHR ''/'') (OInteger 2) (OFloat 0))"
  by (rule ARITH_macro_is_ARITH_OP) simp

text \<open>The least integer divided by \<open>- 1\<close> passes both checks and traps.\<close>

lemma least_integer_traps: "arith_int (CHR ''/'') int_min64 (- 1) = VTrap"
  by (simp add: arith_int_def quot64_def INT_MIN_def int_min64_def)

text \<open>Two zeros with different signs are each greater than the other.\<close>

lemma zeros_disagree:
  "ObjCmp m (OFloat 0) (OFloat 0x80000000) = VOk 1" "ObjCmp m (OFloat 0x80000000) (OFloat 0) = VOk 1"
  by (simp_all add: ObjCmp_def f32_less_def f32_is_nan_def f32_exp_nat f32_key_def f32_neg_def Let_def)

end
