(* ===== verification/Lexer.thy ===== *)
theory Lexer
  imports Table_Contract Floats
begin

text \<open>
  The lexer (\<^verbatim>\<open>src/lexer.cpp\<close>). The read function is the list of the integers it returns, in order,
  and 0 from then on. The compiler's error function leaves by \<open>longjmp\<close>, so a call of \<open>Error\<close> ends the
  lexing: \<open>LErr\<close> with the message. Line and column counters are unbounded here.
\<close>

datatype 'a lres = LErr string | LOk 'a

fun lbind :: "'a lres \<Rightarrow> ('a \<Rightarrow> 'b lres) \<Rightarrow> 'b lres" where
  "lbind (LErr e) f = LErr e"
| "lbind (LOk x) f = f x"

lemma lbind_cong [fundef_cong]:
  "m = m' \<Longrightarrow> (\<And>x. m' = LOk x \<Longrightarrow> f x = g x) \<Longrightarrow> lbind m f = lbind m' g"
  by (cases m') auto

lemma lbind_LOk_iff: "lbind m f = LOk y \<longleftrightarrow> (\<exists>x. m = LOk x \<and> f x = LOk y)"
  by (cases m) auto

lemma lbind_assoc: "lbind (lbind m f) g = lbind m (\<lambda>x. lbind (f x) g)"
  by (cases m) auto

record lexer =
  linput :: "int list"
  currdata :: char
  reached_eof :: bool
  curtoken :: int
  prevtoken :: int
  currentline :: int
  lasttokenline :: int
  currentcolumn :: int
  svalue :: string
  nvalue :: u64
  fvalue :: u32
  longstr :: string
  kwtable :: lvtable

section \<open>Characters\<close>

text \<open>\<open>CUR_CHAR\<close> is unsigned; the classes are those of the C locale.\<close>

definition tok :: "char \<Rightarrow> int" where "tok c = of_char c"

abbreviation EOB :: char where "EOB \<equiv> CHR 0x00"

definition scisdigit :: "char \<Rightarrow> bool" where "scisdigit c \<longleftrightarrow> 48 \<le> tok c \<and> tok c \<le> 57"

definition scisodigit :: "char \<Rightarrow> bool" where "scisodigit c \<longleftrightarrow> 48 \<le> tok c \<and> tok c \<le> 55"

definition scisalpha :: "char \<Rightarrow> bool" where
  "scisalpha c \<longleftrightarrow> 65 \<le> tok c \<and> tok c \<le> 90 \<or> 97 \<le> tok c \<and> tok c \<le> 122"

definition scisalnum :: "char \<Rightarrow> bool" where "scisalnum c \<longleftrightarrow> scisalpha c \<or> scisdigit c"

definition scisxdigit :: "char \<Rightarrow> bool" where
  "scisxdigit c \<longleftrightarrow> scisdigit c \<or> 65 \<le> tok c \<and> tok c \<le> 70 \<or> 97 \<le> tok c \<and> tok c \<le> 102"

definition sciscntrl :: "char \<Rightarrow> bool" where "sciscntrl c \<longleftrightarrow> tok c < 32 \<or> tok c = 127"

definition isexponent :: "char \<Rightarrow> bool" where "isexponent c \<longleftrightarrow> c = CHR ''e'' \<or> c = CHR ''E''"

section \<open>Tokens\<close>

text \<open>The token numbers of \<^verbatim>\<open>src/compiler.h\<close>; a single character is its own token.\<close>

abbreviation TK_IDENTIFIER :: int where "TK_IDENTIFIER \<equiv> 258"
abbreviation TK_STRING_LITERAL :: int where "TK_STRING_LITERAL \<equiv> 259"
abbreviation TK_INTEGER :: int where "TK_INTEGER \<equiv> 260"
abbreviation TK_FLOAT :: int where "TK_FLOAT \<equiv> 261"
abbreviation TK_BASE :: int where "TK_BASE \<equiv> 262"
abbreviation TK_DELETE :: int where "TK_DELETE \<equiv> 263"
abbreviation TK_EQ :: int where "TK_EQ \<equiv> 264"
abbreviation TK_NE :: int where "TK_NE \<equiv> 265"
abbreviation TK_LE :: int where "TK_LE \<equiv> 266"
abbreviation TK_GE :: int where "TK_GE \<equiv> 267"
abbreviation TK_SWITCH :: int where "TK_SWITCH \<equiv> 268"
abbreviation TK_AND :: int where "TK_AND \<equiv> 270"
abbreviation TK_OR :: int where "TK_OR \<equiv> 271"
abbreviation TK_IF :: int where "TK_IF \<equiv> 272"
abbreviation TK_ELSE :: int where "TK_ELSE \<equiv> 273"
abbreviation TK_WHILE :: int where "TK_WHILE \<equiv> 274"
abbreviation TK_BREAK :: int where "TK_BREAK \<equiv> 275"
abbreviation TK_FOR :: int where "TK_FOR \<equiv> 276"
abbreviation TK_DO :: int where "TK_DO \<equiv> 277"
abbreviation TK_NULL :: int where "TK_NULL \<equiv> 278"
abbreviation TK_FOREACH :: int where "TK_FOREACH \<equiv> 279"
abbreviation TK_IN :: int where "TK_IN \<equiv> 280"
abbreviation TK_NEWSLOT :: int where "TK_NEWSLOT \<equiv> 281"
abbreviation TK_VAR :: int where "TK_VAR \<equiv> 283"
abbreviation TK_CLONE :: int where "TK_CLONE \<equiv> 284"
abbreviation TK_FUNCTION :: int where "TK_FUNCTION \<equiv> 285"
abbreviation TK_RETURN :: int where "TK_RETURN \<equiv> 286"
abbreviation TK_TYPEOF :: int where "TK_TYPEOF \<equiv> 287"
abbreviation TK_PLUSEQ :: int where "TK_PLUSEQ \<equiv> 289"
abbreviation TK_MINUSEQ :: int where "TK_MINUSEQ \<equiv> 290"
abbreviation TK_CONTINUE :: int where "TK_CONTINUE \<equiv> 291"
abbreviation TK_YIELD :: int where "TK_YIELD \<equiv> 292"
abbreviation TK_TRY :: int where "TK_TRY \<equiv> 293"
abbreviation TK_CATCH :: int where "TK_CATCH \<equiv> 294"
abbreviation TK_THROW :: int where "TK_THROW \<equiv> 295"
abbreviation TK_SHIFTL :: int where "TK_SHIFTL \<equiv> 296"
abbreviation TK_SHIFTR :: int where "TK_SHIFTR \<equiv> 297"
abbreviation TK_RESUME :: int where "TK_RESUME \<equiv> 298"
abbreviation TK_DOUBLE_COLON :: int where "TK_DOUBLE_COLON \<equiv> 299"
abbreviation TK_CASE :: int where "TK_CASE \<equiv> 300"
abbreviation TK_DEFAULT :: int where "TK_DEFAULT \<equiv> 301"
abbreviation TK_THIS :: int where "TK_THIS \<equiv> 302"
abbreviation TK_PLUSPLUS :: int where "TK_PLUSPLUS \<equiv> 303"
abbreviation TK_MINUSMINUS :: int where "TK_MINUSMINUS \<equiv> 304"
abbreviation TK_3WAYSCMP :: int where "TK_3WAYSCMP \<equiv> 305"
abbreviation TK_USHIFTR :: int where "TK_USHIFTR \<equiv> 306"
abbreviation TK_CLASS :: int where "TK_CLASS \<equiv> 307"
abbreviation TK_EXTENDS :: int where "TK_EXTENDS \<equiv> 308"
abbreviation TK_CONSTRUCTOR :: int where "TK_CONSTRUCTOR \<equiv> 310"
abbreviation TK_INSTANCEOF :: int where "TK_INSTANCEOF \<equiv> 311"
abbreviation TK_VARPARAMS :: int where "TK_VARPARAMS \<equiv> 312"
abbreviation TK_LINE :: int where "TK_LINE \<equiv> 313"
abbreviation TK_FILE :: int where "TK_FILE \<equiv> 314"
abbreviation TK_TRUE :: int where "TK_TRUE \<equiv> 315"
abbreviation TK_FALSE :: int where "TK_FALSE \<equiv> 316"
abbreviation TK_MULEQ :: int where "TK_MULEQ \<equiv> 317"
abbreviation TK_DIVEQ :: int where "TK_DIVEQ \<equiv> 318"
abbreviation TK_MODEQ :: int where "TK_MODEQ \<equiv> 319"
abbreviation TK_ABSTRACT :: int where "TK_ABSTRACT \<equiv> 321"
abbreviation TK_STATIC :: int where "TK_STATIC \<equiv> 322"
abbreviation TK_ENUM :: int where "TK_ENUM \<equiv> 323"
abbreviation TK_CONST :: int where "TK_CONST \<equiv> 324"
abbreviation TK_ARROW_RIGHT :: int where "TK_ARROW_RIGHT \<equiv> 326"

definition keyword_list :: "(string \<times> int) list" where
  "keyword_list = [
     (''while'', TK_WHILE), (''do'', TK_DO), (''if'', TK_IF), (''else'', TK_ELSE),
     (''break'', TK_BREAK), (''continue'', TK_CONTINUE), (''return'', TK_RETURN), (''null'', TK_NULL),
     (''function'', TK_FUNCTION), (''var'', TK_VAR), (''for'', TK_FOR), (''foreach'', TK_FOREACH),
     (''in'', TK_IN), (''typeof'', TK_TYPEOF), (''base'', TK_BASE), (''delete'', TK_DELETE),
     (''try'', TK_TRY), (''catch'', TK_CATCH), (''throw'', TK_THROW), (''clone'', TK_CLONE),
     (''yield'', TK_YIELD), (''resume'', TK_RESUME), (''switch'', TK_SWITCH), (''case'', TK_CASE),
     (''default'', TK_DEFAULT), (''this'', TK_THIS), (''class'', TK_CLASS), (''extends'', TK_EXTENDS),
     (''constructor'', TK_CONSTRUCTOR), (''instanceof'', TK_INSTANCEOF), (''true'', TK_TRUE), (''false'', TK_FALSE),
     (''static'', TK_STATIC), (''enum'', TK_ENUM), (''const'', TK_CONST), (''abstract'', TK_ABSTRACT),
     (''__LINE__'', TK_LINE), (''__FILE__'', TK_FILE)]"

definition keyword_ops :: "table_op list" where
  "keyword_ops = map (\<lambda>(k, t). TNew (OString k) (OInteger (of_int t))) keyword_list"

text \<open>The keyword table holds no weak references.\<close>

definition no_refs :: weak_store where "no_refs = (\<lambda>_. ONull)"

definition keyword_table :: lvtable where
  "keyword_table = (case table_run no_refs (table_create 38) keyword_ops of Some t \<Rightarrow> t | None \<Rightarrow> table_create 38)"

section \<open>Reading characters\<close>

text \<open>\<open>Next\<close>, and the macro \<open>NEXT\<close>, which also counts the column.\<close>

definition Next :: "lexer \<Rightarrow> lexer lres" where
  "Next l =
     (case linput l of
        [] \<Rightarrow> LOk (l\<lparr>currdata := EOB, reached_eof := True\<rparr>)
      | t # r \<Rightarrow>
          if t > 255 then LErr ''Invalid character''
          else if t \<noteq> 0 then LOk (l\<lparr>linput := r, currdata := char_of (nat (t mod 256))\<rparr>)
          else LOk (l\<lparr>linput := r, currdata := EOB, reached_eof := True\<rparr>))"

definition NEXT :: "lexer \<Rightarrow> lexer lres" where
  "NEXT l = lbind (Next l) (\<lambda>l. LOk (l\<lparr>currentcolumn := currentcolumn l + 1\<rparr>))"

text \<open>\<open>Init\<close> on the members it sets; the others keep the values of \<open>l\<close>.\<close>

definition Init :: "int list \<Rightarrow> lexer \<Rightarrow> lexer lres" where
  "Init inp l =
     Next (l\<lparr>linput := inp, kwtable := keyword_table, lasttokenline := 1, currentline := 1,
             currentcolumn := 0, prevtoken := - 1, reached_eof := False\<rparr>)"

text \<open>The input still to be read, counting the current character.\<close>

definition lsize :: "lexer \<Rightarrow> nat" where
  "lsize l = 2 * length (linput l) + (if currdata l = EOB then 0 else 1)"

lemma NEXT_size:
  assumes "NEXT l = LOk l'"
  shows "lsize l' \<le> lsize l" "currdata l' \<noteq> EOB \<Longrightarrow> lsize l' < lsize l"
    "currdata l \<noteq> EOB \<Longrightarrow> lsize l' < lsize l"
  using assms by (auto simp: NEXT_def Next_def lsize_def lbind_LOk_iff split: list.splits if_splits)

definition APPEND :: "char \<Rightarrow> lexer \<Rightarrow> lexer" where
  "APPEND c l = l\<lparr>longstr := longstr l @ [c]\<rparr>"

definition INIT_TEMP_STRING :: "lexer \<Rightarrow> lexer" where
  "INIT_TEMP_STRING l = l\<lparr>longstr := []\<rparr>"

lemma lsize_upd [simp]:
  "lsize (APPEND c l) = lsize l" "lsize (INIT_TEMP_STRING l) = lsize l"
  "lsize (l\<lparr>currentline := n\<rparr>) = lsize l" "lsize (l\<lparr>currentcolumn := n\<rparr>) = lsize l"
  "lsize (l\<lparr>prevtoken := n\<rparr>) = lsize l" "lsize (l\<lparr>curtoken := n\<rparr>) = lsize l"
  "lsize (l\<lparr>lasttokenline := n\<rparr>) = lsize l" "lsize (l\<lparr>svalue := s\<rparr>) = lsize l"
  "lsize (l\<lparr>nvalue := w\<rparr>) = lsize l" "lsize (l\<lparr>fvalue := f\<rparr>) = lsize l"
  by (simp_all add: lsize_def APPEND_def INIT_TEMP_STRING_def)

lemma currdata_upd [simp]:
  "currdata (APPEND c l) = currdata l" "currdata (INIT_TEMP_STRING l) = currdata l"
  by (simp_all add: APPEND_def INIT_TEMP_STRING_def)

section \<open>Comments\<close>

function LexBlockComment :: "lexer \<Rightarrow> lexer lres" where
  "LexBlockComment l =
     (if currdata l = CHR ''*'' then
        lbind (NEXT l) (\<lambda>l. if currdata l = CHR ''/'' then NEXT l else LexBlockComment l)
      else if currdata l = CHR 0x0A then
        lbind (NEXT (l\<lparr>currentline := currentline l + 1\<rparr>)) LexBlockComment
      else if currdata l = EOB then LErr (''missing '' @ [CHR 0x22] @ ''*/'' @ [CHR 0x22] @ '' in comment'')
      else lbind (NEXT l) LexBlockComment)"
  by pat_completeness auto
termination
  by (relation "measure lsize") (auto dest: NEXT_size(3))

function LexLineComment :: "lexer \<Rightarrow> lexer lres" where
  "LexLineComment l =
     lbind (NEXT l) (\<lambda>l. if currdata l \<noteq> CHR 0x0A \<and> currdata l \<noteq> EOB then LexLineComment l else LOk l)"
  by pat_completeness auto
termination
  by (relation "measure lsize") (auto dest: NEXT_size(2))

declare LexBlockComment.simps [simp del] LexLineComment.simps [simp del]

lemma LexBlockComment_size: "LexBlockComment l = LOk l' \<Longrightarrow> lsize l' \<le> lsize l"
proof (induction l rule: LexBlockComment.induct)
  case (1 l)
  note prem = "1.prems" [unfolded LexBlockComment.simps [of l]]
  consider "currdata l = CHR ''*''" | "currdata l = CHR 0x0A" | "currdata l \<noteq> CHR ''*''" "currdata l \<noteq> CHR 0x0A"
    by blast
  then show ?case
  proof cases
    case 1
    then obtain x where x: "NEXT l = LOk x"
      and r: "(if currdata x = CHR ''/'' then NEXT x else LexBlockComment x) = LOk l'"
      using prem by (auto simp: lbind_LOk_iff)
    show ?thesis using "1.IH"(1) [OF 1 x] r NEXT_size(1) [OF x] NEXT_size(1) [of x l'] by (auto split: if_splits)
  next
    case 2
    then obtain x where x: "NEXT (l\<lparr>currentline := currentline l + 1\<rparr>) = LOk x" and r: "LexBlockComment x = LOk l'"
      using prem by (auto simp: lbind_LOk_iff)
    show ?thesis using "1.IH"(2) [of x] 2 r x NEXT_size(1) [OF x] by simp
  next
    case 3
    then obtain x where x: "NEXT l = LOk x" and r: "LexBlockComment x = LOk l'" and e: "currdata l \<noteq> EOB"
      using prem by (auto simp: lbind_LOk_iff split: if_splits)
    show ?thesis using "1.IH"(3) [of x] 3 e r x NEXT_size(1) [OF x] by simp
  qed
qed

lemma LexLineComment_size: "LexLineComment l = LOk l' \<Longrightarrow> currdata l \<noteq> EOB \<Longrightarrow> lsize l' < lsize l"
proof (induction l rule: LexLineComment.induct)
  case (1 l)
  note prem = "1.prems"(1) [unfolded LexLineComment.simps [of l]]
  then obtain x where x: "NEXT l = LOk x"
    and r: "(if currdata x \<noteq> CHR 0x0A \<and> currdata x \<noteq> EOB then LexLineComment x else LOk x) = LOk l'"
    by (auto simp: lbind_LOk_iff)
  show ?case using "1.IH" [OF x] r NEXT_size(3) [OF x "1.prems"(2)] by (auto split: if_splits)
qed

section \<open>String literals\<close>

definition AddUTF8 :: "u64 \<Rightarrow> string" where
  "AddUTF8 ch =
     (let b = (\<lambda>w. char_of (unat (w :: u64) mod 256)) in
      if ch < 0x80 then [b ch]
      else if ch < 0x800 then [b (drop_bit 6 ch OR 0xC0), b ((ch AND 0x3F) OR 0x80)]
      else if ch < 0x10000 then
        [b (drop_bit 12 ch OR 0xE0), b ((drop_bit 6 ch AND 0x3F) OR 0x80), b ((ch AND 0x3F) OR 0x80)]
      else if ch < 0x110000 then
        [b (drop_bit 18 ch OR 0xF0), b ((drop_bit 12 ch AND 0x3F) OR 0x80),
         b ((drop_bit 6 ch AND 0x3F) OR 0x80), b ((ch AND 0x3F) OR 0x80)]
      else [])"

text \<open>\<open>toupper\<close> and the value of a hexadecimal digit.\<close>

definition ctoupper :: "char \<Rightarrow> int" where
  "ctoupper c = (if 97 \<le> tok c \<and> tok c \<le> 122 then tok c - 32 else tok c)"

definition hex_digit :: "char \<Rightarrow> u64" where
  "hex_digit c = (if scisdigit c then of_int (tok c - 48) else of_int (ctoupper c - 65 + 10))"

text \<open>\<open>LexHexadecimal\<close>, and \<open>strtoul\<close> with base 16 on the at most eight digits of an escape.\<close>

definition LexHexadecimal :: "string \<Rightarrow> u64" where
  "LexHexadecimal s = foldl (\<lambda>r c. r * 16 + hex_digit c) 0 s"

function hex_loop :: "nat \<Rightarrow> string \<Rightarrow> lexer \<Rightarrow> (string \<times> lexer) lres" where
  "hex_loop maxdigits dest l =
     (if scisxdigit (currdata l) \<and> length dest < maxdigits
      then lbind (NEXT l) (\<lambda>l'. hex_loop maxdigits (dest @ [currdata l]) l')
      else LOk (dest, l))"
  by pat_completeness auto
termination
  by (relation "measure (\<lambda>(m, d, l). m - length d)") auto

declare hex_loop.simps [simp del]

definition ProcessStringHexEscape :: "nat \<Rightarrow> lexer \<Rightarrow> (string \<times> lexer) lres" where
  "ProcessStringHexEscape maxdigits l =
     lbind (NEXT l) (\<lambda>l.
       if \<not> scisxdigit (currdata l) then LErr ''hexadecimal number expected''
       else hex_loop maxdigits [] l)"

text \<open>
  The character after a backslash. The test \<open>x == 'u'\<close> compares the backslash itself, so that both
  \<open>u\<close> and \<open>U\<close> read up to eight digits.
\<close>

definition string_escape :: "lexer \<Rightarrow> lexer lres" where
  "string_escape l =
     (let c = currdata l; put = (\<lambda>d. NEXT (APPEND d l)) in
      if c = CHR ''x'' then
        lbind (ProcessStringHexEscape 2 l) (\<lambda>(temp, l).
          LOk (APPEND (char_of (unat (LexHexadecimal temp) mod 256)) l))
      else if c = CHR ''U'' \<or> c = CHR ''u'' then
        lbind (ProcessStringHexEscape 8 l) (\<lambda>(temp, l).
          LOk (l\<lparr>longstr := longstr l @ AddUTF8 (LexHexadecimal temp)\<rparr>))
      else if c = CHR ''t'' then put (CHR 0x09)
      else if c = CHR ''a'' then put (CHR 0x07)
      else if c = CHR ''b'' then put (CHR 0x08)
      else if c = CHR ''n'' then put (CHR 0x0A)
      else if c = CHR ''r'' then put (CHR 0x0D)
      else if c = CHR ''v'' then put (CHR 0x0B)
      else if c = CHR ''f'' then put (CHR 0x0C)
      else if c = CHR ''0'' then put (CHR 0x00)
      else if c = CHR 0x5C then put (CHR 0x5C)
      else if c = CHR 0x22 then put (CHR 0x22)
      else if c = CHR 0x27 then put (CHR 0x27)
      else LErr ''unrecognised escaper char'')"

lemma hex_loop_size: "hex_loop m d l = LOk (d', l') \<Longrightarrow> lsize l' \<le> lsize l"
proof (induction m d l rule: hex_loop.induct)
  case (1 m d l)
  show ?case
  proof (cases "scisxdigit (currdata l) \<and> length d < m")
    case True
    with 1 show ?thesis
      by (subst (asm) hex_loop.simps) (force simp: lbind_LOk_iff dest: NEXT_size(1))
  next
    case False
    with 1 show ?thesis by (subst (asm) hex_loop.simps) simp
  qed
qed

lemma ProcessStringHexEscape_size:
  "ProcessStringHexEscape m l = LOk (d, l') \<Longrightarrow> lsize l' \<le> lsize l"
  by (auto simp: ProcessStringHexEscape_def lbind_LOk_iff split: if_splits
      dest!: hex_loop_size NEXT_size(1))

lemma string_escape_size: "string_escape l = LOk l' \<Longrightarrow> lsize l' \<le> lsize l"
proof -
  assume s: "string_escape l = LOk l'"
  have n: "NEXT (APPEND d l) = LOk l' \<Longrightarrow> lsize l' \<le> lsize l" for d
    using NEXT_size(1) [of "APPEND d l" l'] by simp
  have u: "lsize (x\<lparr>longstr := t\<rparr>) = lsize x" for x t by (simp add: lsize_def)
  show ?thesis
    using s n ProcessStringHexEscape_size
    by (auto simp: string_escape_def Let_def lbind_LOk_iff u split: if_splits)
qed

text \<open>The inner loop of \<open>ReadString\<close>: up to the delimiter.\<close>

function string_body :: "char \<Rightarrow> bool \<Rightarrow> lexer \<Rightarrow> lexer lres" where
  "string_body ndelim verbatim l =
     (if currdata l = ndelim then LOk l
      else if currdata l = EOB then LErr ''unfinished string''
      else if currdata l = CHR 0x0A then
        (if \<not> verbatim then LErr ''newline in a constant''
         else lbind (NEXT (APPEND (currdata l) l)) (\<lambda>l.
           string_body ndelim verbatim (l\<lparr>currentline := currentline l + 1\<rparr>)))
      else if currdata l = CHR 0x5C then
        (if verbatim then lbind (NEXT (APPEND (CHR 0x5C) l)) (string_body ndelim verbatim)
         else lbind (NEXT l) (\<lambda>l. lbind (string_escape l) (string_body ndelim verbatim)))
      else lbind (NEXT (APPEND (currdata l) l)) (string_body ndelim verbatim))"
  by pat_completeness auto
termination
proof (relation "measure (\<lambda>(d, v, l). lsize l)")
  fix ndelim verbatim l x xa
  assume "currdata l \<noteq> EOB" "NEXT l = LOk x" "string_escape x = LOk xa"
  then show "((ndelim, verbatim, xa), (ndelim, verbatim, l)) \<in> measure (\<lambda>(d, v, l). lsize l)"
    using NEXT_size(3) [of l x] string_escape_size [of x xa] by simp
qed (auto dest: NEXT_size(3))

declare string_body.simps [simp del]

lemma string_body_end:
  "string_body d v l = LOk l' \<Longrightarrow> lsize l' \<le> lsize l \<and> currdata l' = d"
proof (induction d v l rule: string_body.induct)
  case (1 d v l)
  note prem = "1.prems" [unfolded string_body.simps [of d v l]]
  consider "currdata l = d" | "currdata l \<noteq> d" "currdata l = CHR 0x0A" | "currdata l \<noteq> d" "currdata l = CHR 0x5C"
    | "currdata l \<noteq> d" "currdata l \<noteq> CHR 0x0A" "currdata l \<noteq> CHR 0x5C" by blast
  then show ?case
  proof cases
    case 1 then show ?thesis using prem by simp
  next
    case 2
    then obtain x where x: "NEXT (APPEND (currdata l) l) = LOk x" and v: "v" "CHR 0x0A \<noteq> d"
      and r: "string_body d v (x\<lparr>currentline := currentline x + 1\<rparr>) = LOk l'"
      using prem by (auto simp: lbind_LOk_iff split: if_splits)
    show ?thesis using "1.IH"(1) [of x] 2 x v r NEXT_size(1) [OF x] by (simp add: lbind_LOk_iff)
  next
    case 3
    show ?thesis
    proof (cases v)
      case True
      then obtain x where x: "NEXT (APPEND (CHR 0x5C) l) = LOk x" and r: "string_body d v x = LOk l'"
        using prem 3 by (auto simp: lbind_LOk_iff split: if_splits)
      show ?thesis using "1.IH"(2) [of x] 3 True x r NEXT_size(1) [OF x] by simp
    next
      case False
      then obtain x y where x: "NEXT l = LOk x" and y: "string_escape x = LOk y"
        and r: "string_body d v y = LOk l'"
        using prem 3 by (auto simp: lbind_LOk_iff split: if_splits)
      show ?thesis
        using "1.IH"(3) [of x y] 3 False x y r NEXT_size(1) [OF x] string_escape_size [OF y] by simp
    qed
  next
    case 4
    then obtain x where x: "NEXT (APPEND (currdata l) l) = LOk x" and r: "string_body d v x = LOk l'"
      and e: "currdata l \<noteq> EOB"
      using prem by (auto simp: lbind_LOk_iff split: if_splits)
    show ?thesis using "1.IH"(4) [of x] 4 x r e NEXT_size(1) [OF x] by simp
  qed
qed

text \<open>The outer loop: in a verbatim string a doubled quote stands for a quote.\<close>

function string_loop :: "char \<Rightarrow> bool \<Rightarrow> lexer \<Rightarrow> lexer lres" where
  "string_loop ndelim verbatim l =
     lbind (string_body ndelim verbatim l) (\<lambda>l.
     lbind (NEXT l) (\<lambda>l.
       if verbatim \<and> currdata l = CHR 0x22
       then lbind (NEXT (APPEND (currdata l) l)) (string_loop ndelim verbatim)
       else LOk l))"
  by pat_completeness auto
termination
proof (relation "measure (\<lambda>(d, v, l). lsize l)")
  fix ndelim :: char and verbatim l x xa xb
  assume b: "string_body ndelim verbatim l = LOk x" and n: "NEXT x = LOk xa"
    and q: "verbatim \<and> currdata xa = CHR 0x22" and m: "NEXT (APPEND (currdata xa) xa) = LOk xb"
  from string_body_end [OF b] NEXT_size(2) [OF n] NEXT_size(1) [OF m] q
  show "((ndelim, verbatim, xb), (ndelim, verbatim, l)) \<in> measure (\<lambda>(d, v, l). lsize l)" by simp
qed auto

declare string_loop.simps [simp del]

text \<open>
  \<open>ReadString\<close>; a token of \<open>- 1\<close> is the end of the input right after the opening delimiter. A character
  constant is read from a signed \<open>char\<close>. \<open>_svalue\<close> points at the buffer, its NUL included.
\<close>

definition schar_of :: "char \<Rightarrow> int" where
  "schar_of c = (if tok c < 128 then tok c else tok c - 256)"

definition string_value :: "char \<Rightarrow> lexer \<Rightarrow> (int \<times> lexer) lres" where
  "string_value ndelim l =
     (let len = length (longstr l) - 1 in
      if ndelim = CHR 0x27 then
        (if len = 0 then LErr ''empty constant''
         else if len > 1 then LErr ''constant too long''
         else LOk (TK_INTEGER, l\<lparr>nvalue := of_int (schar_of (longstr l ! 0))\<rparr>))
      else LOk (TK_STRING_LITERAL, l\<lparr>svalue := longstr l\<rparr>))"

definition ReadString :: "char \<Rightarrow> bool \<Rightarrow> lexer \<Rightarrow> (int \<times> lexer) lres" where
  "ReadString ndelim verbatim l =
     lbind (NEXT (INIT_TEMP_STRING l)) (\<lambda>l.
     if currdata l = EOB then LOk (- 1, l)
     else lbind (string_loop ndelim verbatim l) (\<lambda>l. string_value ndelim (APPEND (CHR 0x00) l)))"

section \<open>Numbers\<close>

definition LexInteger :: "string \<Rightarrow> u64" where
  "LexInteger s = foldl (\<lambda>r c. r * 10 + of_int (tok c - 48)) 0 s"

definition LexOctal :: "string \<Rightarrow> u64" where
  "LexOctal s = foldl (\<lambda>r c. r * 8 + of_int (tok c - 48)) 0 s"

text \<open>
  \<open>(LVFloat)strtod\<close> on the characters the lexer collects: digits, an optional fraction, an optional
  exponent, correctly rounded to a double (\<open>m * 2 ^ k\<close> units of \<open>2 ^ - 1074\<close>) and then to a float.
\<close>

definition dec_nat :: "string \<Rightarrow> nat" where
  "dec_nat s = foldl (\<lambda>r c. r * 10 + nat (tok c - 48)) 0 s"

definition f64_round :: "nat \<Rightarrow> nat \<Rightarrow> nat \<times> nat" where
  "f64_round n d =
     (let k = bit_len (n * 2 ^ 1074 div d) - 53 in (round_half_even (n * 2 ^ 1074) (d * 2 ^ k), k))"

definition strtod :: "string \<Rightarrow> u32" where
  "strtod s =
     (let ip = takeWhile scisdigit s; r = dropWhile scisdigit s;
          (fp, r) = (case r of c # r' \<Rightarrow>
              if c = CHR ''.'' then (takeWhile scisdigit r', dropWhile scisdigit r') else ([], r) | [] \<Rightarrow> ([], []));
          ex = (case r of c # r' \<Rightarrow>
              if \<not> isexponent c then 0
              else (case r' of d # r'' \<Rightarrow>
                  if d = CHR ''-'' then - int (dec_nat (takeWhile scisdigit r''))
                  else if d = CHR ''+'' then int (dec_nat (takeWhile scisdigit r''))
                  else int (dec_nat (takeWhile scisdigit r')) | [] \<Rightarrow> 0)
            | [] \<Rightarrow> 0);
          ex = ex - int (length fp);
          (m, k) = f64_round (dec_nat (ip @ fp) * 10 ^ nat ex) (10 ^ nat (- ex))
      in if m * 2 ^ k \<ge> 2 ^ 2098 then 0x7F800000 else f32_encode_mag (m * 2 ^ k) (2 ^ 925))"

datatype numtype = TINT | TFLOAT | THEX | TSCIENTIFIC | TOCTAL

definition MAX_HEX_DIGITS :: nat where "MAX_HEX_DIGITS = 16"

text \<open>\<open>while (test(CUR_CHAR)) { APPEND_CHAR(CUR_CHAR); NEXT(); }\<close> for a test that fails at the end.\<close>

function collect :: "(char \<Rightarrow> bool) \<Rightarrow> lexer \<Rightarrow> lexer lres" where
  "collect test l =
     (if test (currdata l) \<and> currdata l \<noteq> EOB then lbind (NEXT (APPEND (currdata l) l)) (collect test)
      else LOk l)"
  by pat_completeness auto
termination
  by (relation "measure (\<lambda>(t, l). lsize l)") (auto dest: NEXT_size(3))

lemma EOB_class [simp]: "\<not> scisdigit EOB" "\<not> isexponent EOB" "\<not> scisalnum EOB" "\<not> scisxdigit EOB"
  "\<not> scisodigit EOB" "\<not> scisalpha EOB"
  by (simp_all add: scisdigit_def isexponent_def scisalnum_def scisalpha_def scisxdigit_def scisodigit_def tok_def)

lemma NEXT_APPEND_size: "NEXT (APPEND c l) = LOk x \<Longrightarrow> currdata l \<noteq> EOB \<Longrightarrow> lsize x < lsize l"
  using NEXT_size(3) [of "APPEND c l" x] by simp

lemma NEXT_APPEND_size_le: "NEXT (APPEND c l) = LOk x \<Longrightarrow> lsize x \<le> lsize l"
  using NEXT_size(1) [of "APPEND c l" x] by simp

function number_loop :: "numtype \<Rightarrow> lexer \<Rightarrow> (numtype \<times> lexer) lres" where
  "number_loop ty l =
     (if currdata l = CHR ''.'' \<or> scisdigit (currdata l) then
        lbind (NEXT (APPEND (currdata l) l))
          (number_loop (if currdata l = CHR ''.'' then TFLOAT else ty))
      else if isexponent (currdata l) then
        lbind (NEXT (APPEND (currdata l) l)) (\<lambda>l.
        lbind (if currdata l = CHR ''+'' \<or> currdata l = CHR ''-'' then NEXT (APPEND (currdata l) l) else LOk l) (\<lambda>l.
          if \<not> scisdigit (currdata l) then LErr ''exponent expected''
          else lbind (NEXT (APPEND (currdata l) l)) (number_loop TSCIENTIFIC)))
      else LOk (ty, l))"
  by pat_completeness auto
termination
proof (relation "measure (\<lambda>(t, l). lsize l)", goal_cases)
  case (2 ty l x)
  then have "currdata l \<noteq> EOB" by auto
  with 2 NEXT_APPEND_size show ?case by simp
next
  case (3 ty l x y z)
  then have e: "currdata l \<noteq> EOB" by auto
  have "lsize y \<le> lsize x" using 3(4) NEXT_APPEND_size_le by (auto split: if_splits)
  with NEXT_APPEND_size [OF 3(3) e] NEXT_APPEND_size_le [OF 3(6)] show ?case by simp
qed simp

declare collect.simps [simp del] number_loop.simps [simp del]

text \<open>The digits of a number and its kind; \<open>l\<close> is behind the first character.\<close>

definition number_digits :: "char \<Rightarrow> lexer \<Rightarrow> (numtype \<times> lexer) lres" where
  "number_digits firstchar l =
     (if firstchar = CHR ''0'' \<and> (ctoupper (currdata l) = tok (CHR ''X'') \<or> scisodigit (currdata l)) then
        (if scisodigit (currdata l) then
           lbind (collect scisodigit l) (\<lambda>l.
             if scisdigit (currdata l) then LErr ''invalid octal number'' else LOk (TOCTAL, l))
         else
           lbind (NEXT l) (\<lambda>l. lbind (collect scisxdigit l) (\<lambda>l.
             if length (longstr l) > MAX_HEX_DIGITS then LErr ''too many digits for an Hex number''
             else LOk (THEX, l))))
      else number_loop TINT (APPEND firstchar l))"

definition number_value :: "numtype \<Rightarrow> string \<Rightarrow> lexer \<Rightarrow> int \<times> lexer" where
  "number_value ty s l =
     (case ty of
        TSCIENTIFIC \<Rightarrow> (TK_FLOAT, l\<lparr>fvalue := strtod s\<rparr>)
      | TFLOAT \<Rightarrow> (TK_FLOAT, l\<lparr>fvalue := strtod s\<rparr>)
      | TINT \<Rightarrow> (TK_INTEGER, l\<lparr>nvalue := LexInteger s\<rparr>)
      | THEX \<Rightarrow> (TK_INTEGER, l\<lparr>nvalue := LexHexadecimal s\<rparr>)
      | TOCTAL \<Rightarrow> (TK_INTEGER, l\<lparr>nvalue := LexOctal s\<rparr>))"

definition ReadNumber :: "lexer \<Rightarrow> (int \<times> lexer) lres" where
  "ReadNumber l =
     (let firstchar = currdata l in
      lbind (NEXT (INIT_TEMP_STRING l)) (\<lambda>l.
      lbind (number_digits firstchar l) (\<lambda>(ty, l). LOk (number_value ty (longstr l) (APPEND (CHR 0x00) l)))))"

section \<open>Identifiers\<close>

text \<open>\<open>GetIDType\<close>; every value of the keyword table is an integer.\<close>

definition GetIDType :: "lexer \<Rightarrow> string \<Rightarrow> int" where
  "GetIDType l s =
     (case table_GetStr no_refs (kwtable l) s of
        Some (Some (OInteger t)) \<Rightarrow> sint t | _ \<Rightarrow> TK_IDENTIFIER)"

definition ReadID :: "lexer \<Rightarrow> (int \<times> lexer) lres" where
  "ReadID l =
     lbind (NEXT (APPEND (currdata l) (INIT_TEMP_STRING l))) (\<lambda>l.
     lbind (collect (\<lambda>c. scisalnum c \<or> c = CHR ''_'') l) (\<lambda>l.
       let s = longstr l; l = APPEND (CHR 0x00) l; res = GetIDType l s in
       LOk (res, if res = TK_IDENTIFIER \<or> res = TK_CONSTRUCTOR then l\<lparr>svalue := longstr l\<rparr> else l)))"

section \<open>Tokens of the input\<close>

text \<open>\<open>RETURN_TOKEN\<close>, and the step \<open>NEXT(); RETURN_TOKEN(t);\<close>.\<close>

definition RETURN_TOKEN :: "int \<Rightarrow> lexer \<Rightarrow> (int \<times> lexer) lres" where
  "RETURN_TOKEN t l = LOk (t, l\<lparr>prevtoken := curtoken l, curtoken := t\<rparr>)"

definition next_token :: "int \<Rightarrow> lexer \<Rightarrow> (int \<times> lexer) lres" where
  "next_token t l = lbind (NEXT l) (RETURN_TOKEN t)"

text \<open>The result of \<open>ReadString\<close> in \<open>Lex\<close>.\<close>

definition string_token :: "char \<Rightarrow> bool \<Rightarrow> lexer \<Rightarrow> (int \<times> lexer) lres" where
  "string_token ndelim verbatim l =
     lbind (ReadString ndelim verbatim l) (\<lambda>(stype, l).
       if stype \<noteq> - 1 then RETURN_TOKEN stype l else LErr ''error parsing the string'')"

text \<open>The cases of the switch of \<open>Lex\<close> that return, with the current character the one of the case.\<close>

definition Lex_token :: "lexer \<Rightarrow> (int \<times> lexer) lres" where
  "Lex_token l =
     (let c = currdata l in
      if c = CHR ''='' then lbind (NEXT l) (\<lambda>l.
        if currdata l \<noteq> CHR ''='' then RETURN_TOKEN (tok (CHR ''='')) l else next_token TK_EQ l)
      else if c = CHR ''<'' then lbind (NEXT l) (\<lambda>l.
        if currdata l = CHR ''='' then lbind (NEXT l) (\<lambda>l.
          if currdata l = CHR ''>'' then next_token TK_3WAYSCMP l else RETURN_TOKEN TK_LE l)
        else if currdata l = CHR ''-'' then next_token TK_NEWSLOT l
        else if currdata l = CHR ''<'' then next_token TK_SHIFTL l
        else RETURN_TOKEN (tok (CHR ''<'')) l)
      else if c = CHR ''>'' then lbind (NEXT l) (\<lambda>l.
        if currdata l = CHR ''='' then next_token TK_GE l
        else if currdata l = CHR ''>'' then lbind (NEXT l) (\<lambda>l.
          if currdata l = CHR ''>'' then next_token TK_USHIFTR l else RETURN_TOKEN TK_SHIFTR l)
        else RETURN_TOKEN (tok (CHR ''>'')) l)
      else if c = CHR ''!'' then lbind (NEXT l) (\<lambda>l.
        if currdata l \<noteq> CHR ''='' then RETURN_TOKEN (tok (CHR ''!'')) l else next_token TK_NE l)
      else if c = CHR ''@'' then lbind (NEXT l) (\<lambda>l.
        if currdata l \<noteq> CHR 0x22 then RETURN_TOKEN (tok (CHR ''@'')) l else string_token (CHR 0x22) True l)
      else if c = CHR 0x22 \<or> c = CHR 0x27 then string_token c False l
      else if c \<in> {CHR ''{'', CHR ''}'', CHR ''('', CHR '')'', CHR ''['', CHR '']'', CHR '';'', CHR '','',
                   CHR ''?'', CHR ''^'', CHR ''~''} then next_token (tok c) l
      else if c = CHR ''.'' then lbind (NEXT l) (\<lambda>l.
        if currdata l \<noteq> CHR ''.'' then RETURN_TOKEN (tok (CHR ''.'')) l
        else lbind (NEXT l) (\<lambda>l.
          if currdata l \<noteq> CHR ''.''
          then LErr (''invalid token '' @ [CHR 0x27] @ ''..'' @ [CHR 0x27]) else next_token TK_VARPARAMS l))
      else if c = CHR ''&'' then lbind (NEXT l) (\<lambda>l.
        if currdata l \<noteq> CHR ''&'' then RETURN_TOKEN (tok (CHR ''&'')) l else next_token TK_AND l)
      else if c = CHR ''|'' then lbind (NEXT l) (\<lambda>l.
        if currdata l \<noteq> CHR ''|'' then RETURN_TOKEN (tok (CHR ''|'')) l else next_token TK_OR l)
      else if c = CHR '':'' then lbind (NEXT l) (\<lambda>l.
        if currdata l \<noteq> CHR '':'' then RETURN_TOKEN (tok (CHR '':'')) l else next_token TK_DOUBLE_COLON l)
      else if c = CHR ''*'' then lbind (NEXT l) (\<lambda>l.
        if currdata l = CHR ''='' then next_token TK_MULEQ l else RETURN_TOKEN (tok (CHR ''*'')) l)
      else if c = CHR 0x25 then lbind (NEXT l) (\<lambda>l.
        if currdata l = CHR ''='' then next_token TK_MODEQ l else RETURN_TOKEN (tok (CHR 0x25)) l)
      else if c = CHR ''-'' then lbind (NEXT l) (\<lambda>l.
        if currdata l = CHR ''='' then next_token TK_MINUSEQ l
        else if currdata l = CHR ''-'' then next_token TK_MINUSMINUS l
        else if currdata l = CHR ''>'' then next_token TK_ARROW_RIGHT l
        else RETURN_TOKEN (tok (CHR ''-'')) l)
      else if c = CHR ''+'' then lbind (NEXT l) (\<lambda>l.
        if currdata l = CHR ''='' then next_token TK_PLUSEQ l
        else if currdata l = CHR ''+'' then next_token TK_PLUSPLUS l
        else RETURN_TOKEN (tok (CHR ''+'')) l)
      else if scisdigit c then lbind (ReadNumber l) (\<lambda>(t, l). RETURN_TOKEN t l)
      else if scisalpha c \<or> c = CHR ''_'' then lbind (ReadID l) (\<lambda>(t, l). RETURN_TOKEN t l)
      else if sciscntrl c then LErr ''unexpected character(control)''
      else next_token (tok c) l)"

text \<open>The loop of \<open>Lex\<close>: blanks and comments are skipped, anything else is a token.\<close>

function Lex_loop :: "lexer \<Rightarrow> (int \<times> lexer) lres" where
  "Lex_loop l =
     (let c = currdata l in
      if c = EOB then LOk (0, l)
      else if c = CHR 0x09 \<or> c = CHR 0x0D \<or> c = CHR '' '' then lbind (NEXT l) Lex_loop
      else if c = CHR 0x0A then
        lbind (NEXT (l\<lparr>currentline := currentline l + 1, prevtoken := curtoken l, curtoken := tok (CHR 0x0A)\<rparr>))
          (\<lambda>l. Lex_loop (l\<lparr>currentcolumn := 1\<rparr>))
      else if c = CHR ''#'' then lbind (LexLineComment l) Lex_loop
      else if c = CHR ''/'' then lbind (NEXT l) (\<lambda>l.
        if currdata l = CHR ''*'' then lbind (NEXT l) (\<lambda>l. lbind (LexBlockComment l) Lex_loop)
        else if currdata l = CHR ''/'' then lbind (LexLineComment l) Lex_loop
        else if currdata l = CHR ''='' then next_token TK_DIVEQ l
        else RETURN_TOKEN (tok (CHR ''/'')) l)
      else Lex_token l)"
  by pat_completeness auto
termination
proof (relation "measure lsize", goal_cases)
  case (3 l c x) then show ?case by (auto dest: NEXT_size(3))
next
  case (4 l c x) then show ?case using LexLineComment_size by simp
next
  case (5 l c x y z)
  then have "currdata l \<noteq> EOB" by simp
  then have "lsize x < lsize l" "lsize y \<le> lsize x" "lsize z \<le> lsize y"
    using 5 NEXT_size LexBlockComment_size by blast+
  then show ?case by simp
next
  case (6 l c x y)
  then have "currdata l \<noteq> EOB" "currdata x \<noteq> EOB" by simp_all
  then have "lsize x < lsize l" "lsize y < lsize x" using 6 NEXT_size LexLineComment_size by blast+
  then show ?case by simp
qed (auto dest: NEXT_size(3))

declare Lex_loop.simps [simp del]

definition Lex :: "lexer \<Rightarrow> (int \<times> lexer) lres" where
  "Lex l = Lex_loop (l\<lparr>lasttokenline := currentline l\<rparr>)"

text \<open>\<open>Tok2Str\<close>: the first keyword, in table order, with the token.\<close>

definition Tok2Str :: "lexer \<Rightarrow> int \<Rightarrow> string option" where
  "Tok2Str l t =
     (case table_walk False no_refs (kwtable l) 0 of
        Some es \<Rightarrow>
          (case find (\<lambda>(k, v). v = OInteger (of_int t)) es of
             Some (OString s, v) \<Rightarrow> Some s | _ \<Rightarrow> None)
      | None \<Rightarrow> None)"

end
