(* ===== verification/Lexer_Progress.thy ===== *)
theory Lexer_Progress
  imports Lexer
begin

text \<open>
  The lexer consumes input with every token it returns, and its keyword table is the list of keywords.
\<close>

section \<open>Progress\<close>

text \<open>\<open>lres_all P m\<close>: the result of \<open>m\<close>, if it is not an error, satisfies \<open>P\<close>.\<close>

fun lres_all :: "('a \<Rightarrow> bool) \<Rightarrow> 'a lres \<Rightarrow> bool" where
  "lres_all P (LErr e) \<longleftrightarrow> True"
| "lres_all P (LOk x) \<longleftrightarrow> P x"

lemma lres_all_bind [simp]: "lres_all P (lbind m f) \<longleftrightarrow> lres_all (\<lambda>x. lres_all P (f x)) m"
  by (cases m) auto

lemma lres_all_mono: "lres_all P m \<Longrightarrow> (\<And>x. P x \<Longrightarrow> Q x) \<Longrightarrow> lres_all Q m"
  by (cases m) auto

lemma lres_all_iff: "lres_all P m \<longleftrightarrow> (\<forall>x. m = LOk x \<longrightarrow> P x)"
  by (cases m) auto

lemma wp_NEXT:
  "currdata l \<noteq> EOB \<Longrightarrow> (\<And>x. lsize x < lsize l \<Longrightarrow> P x) \<Longrightarrow> lres_all P (NEXT l)"
  by (auto simp: lres_all_iff dest: NEXT_size(3))

lemma wp_NEXT_le: "(\<And>x. lsize x \<le> lsize l \<Longrightarrow> P x) \<Longrightarrow> lres_all P (NEXT l)"
  by (auto simp: lres_all_iff dest: NEXT_size(1))

lemma wp_collect: "(\<And>x. lsize x \<le> lsize l \<Longrightarrow> P x) \<Longrightarrow> lres_all P (collect test l)"
proof (induction test l rule: collect.induct)
  case (1 test l)
  show ?case
  proof (cases "test (currdata l) \<and> currdata l \<noteq> EOB")
    case True
    have "lres_all P (collect test x)" if "NEXT (APPEND (currdata l) l) = LOk x" for x
      using "1.IH" [OF True that] "1.prems" NEXT_APPEND_size_le [OF that] by force
    then have "lres_all (\<lambda>x. lres_all P (collect test x)) (NEXT (APPEND (currdata l) l))"
      by (subst lres_all_iff) blast
    then show ?thesis by (subst collect.simps) (simp add: True)
  next
    case False
    then have "collect test l = LOk l" by (subst collect.simps) auto
    then show ?thesis using "1.prems" by simp
  qed
qed

lemma wp_number_loop:
  "(\<And>t x. lsize x \<le> lsize l \<Longrightarrow> P (t, x)) \<Longrightarrow> lres_all P (number_loop ty l)"
proof (induction ty l rule: number_loop.induct)
  case (1 ty l)
  let ?c = "currdata l"
  consider "?c = CHR ''.'' \<or> scisdigit ?c" | "\<not> (?c = CHR ''.'' \<or> scisdigit ?c)" "isexponent ?c"
    | "\<not> (?c = CHR ''.'' \<or> scisdigit ?c)" "\<not> isexponent ?c" by blast
  then show ?case
  proof cases
    case a: 1
    have "lres_all P (number_loop (if ?c = CHR ''.'' then TFLOAT else ty) x)" if "NEXT (APPEND ?c l) = LOk x" for x
      using "1.IH"(1) [OF a that] "1.prems" NEXT_APPEND_size_le [OF that] by force
    then have "lres_all (\<lambda>x. lres_all P (number_loop (if ?c = CHR ''.'' then TFLOAT else ty) x)) (NEXT (APPEND ?c l))"
      by (subst lres_all_iff) blast
    then show ?thesis by (subst number_loop.simps) (use a in \<open>simp only: if_True lres_all_bind\<close>)
  next
    case a: 2
    have "lres_all P (number_loop TSCIENTIFIC z)"
      if x: "NEXT (APPEND ?c l) = LOk x"
        and y: "(if currdata x = CHR ''+'' \<or> currdata x = CHR ''-'' then NEXT (APPEND (currdata x) x) else LOk x) = LOk y"
        and d: "\<not> \<not> scisdigit (currdata y)" and z: "NEXT (APPEND (currdata y) y) = LOk z" for x y z
    proof -
      have "lsize y \<le> lsize x" using y NEXT_APPEND_size_le by (auto split: if_splits)
      then have "lsize z \<le> lsize l" using NEXT_APPEND_size_le [OF x] NEXT_APPEND_size_le [OF z] by simp
      then show ?thesis using "1.IH"(2) [OF a x y d z] "1.prems" by force
    qed
    then have "lres_all P (if \<not> scisdigit (currdata y) then LErr ''exponent expected''
          else lbind (NEXT (APPEND (currdata y) y)) (number_loop TSCIENTIFIC))"
      if x: "NEXT (APPEND ?c l) = LOk x"
        and y: "(if currdata x = CHR ''+'' \<or> currdata x = CHR ''-'' then NEXT (APPEND (currdata x) x) else LOk x) = LOk y"
      for x y
      using that lres_all_iff [of "\<lambda>z. lres_all P (number_loop TSCIENTIFIC z)"] by simp
    then have "lres_all (\<lambda>y. lres_all P (if \<not> scisdigit (currdata y) then LErr ''exponent expected''
          else lbind (NEXT (APPEND (currdata y) y)) (number_loop TSCIENTIFIC)))
        (if currdata x = CHR ''+'' \<or> currdata x = CHR ''-'' then NEXT (APPEND (currdata x) x) else LOk x)"
      if "NEXT (APPEND ?c l) = LOk x" for x
      using that by (subst lres_all_iff) blast
    then show ?thesis
      by (subst number_loop.simps, simp only: a if_False if_True lres_all_bind)
        (subst lres_all_iff, blast)
  next
    case 3
    then show ?thesis using "1.prems" by (subst number_loop.simps) auto
  qed
qed

lemma wp_number_digits:
  "(\<And>t x. lsize x \<le> lsize l \<Longrightarrow> P (t, x)) \<Longrightarrow> lres_all P (number_digits c l)"
  by (auto simp: number_digits_def intro!: wp_collect wp_NEXT_le wp_number_loop)

lemma lsize_number_value [simp]: "lsize (snd (number_value ty s l)) = lsize l"
  by (simp add: number_value_def split: numtype.split)

lemma wp_ReadNumber:
  "currdata l \<noteq> EOB \<Longrightarrow> (\<And>t x. lsize x < lsize l \<Longrightarrow> P (t, x)) \<Longrightarrow> lres_all P (ReadNumber l)"
  unfolding ReadNumber_def Let_def
  by (auto intro!: wp_NEXT wp_number_digits)
    (metis lsize_number_value lsize_upd(1) le_less_trans prod.collapse)

lemma wp_string_loop:
  "(\<And>x. lsize x \<le> lsize l \<Longrightarrow> P x) \<Longrightarrow> lres_all P (string_loop d v l)"
proof (induction d v l rule: string_loop.induct)
  case (1 d v l)
  have s: "lsize y \<le> lsize l" if "string_body d v l = LOk x" "NEXT x = LOk y" for x y
    using string_body_end [OF that(1)] NEXT_size(1) [OF that(2)] by simp
  have "lres_all P (string_loop d v z)"
    if "string_body d v l = LOk x" "NEXT x = LOk y" "v \<and> currdata y = CHR 0x22"
      "NEXT (APPEND (currdata y) y) = LOk z" for x y z
    using "1.IH" [OF that] NEXT_APPEND_size_le [OF that(4)] s [OF that(1,2)] "1.prems" by force
  then show ?case
    using s "1.prems" by (subst string_loop.simps) (auto simp: lres_all_iff lbind_LOk_iff)
qed

lemma wp_string_value: "(\<And>t x. lsize x = lsize l \<Longrightarrow> P (t, x)) \<Longrightarrow> lres_all P (string_value d l)"
  by (auto simp: string_value_def Let_def)

lemma wp_ReadString:
  "currdata l \<noteq> EOB \<Longrightarrow> (\<And>t x. lsize x < lsize l \<Longrightarrow> P (t, x)) \<Longrightarrow> lres_all P (ReadString d v l)"
  unfolding ReadString_def
  by (auto intro!: wp_NEXT wp_string_loop wp_string_value)

lemma wp_ReadID:
  "currdata l \<noteq> EOB \<Longrightarrow> (\<And>t x. lsize x < lsize l \<Longrightarrow> P (t, x)) \<Longrightarrow> lres_all P (ReadID l)"
  unfolding ReadID_def Let_def
  by (auto intro!: wp_NEXT wp_collect)

lemma wp_RETURN: "(\<And>x. lsize x = lsize l \<Longrightarrow> P (t, x)) \<Longrightarrow> lres_all P (RETURN_TOKEN t l)"
  by (simp add: RETURN_TOKEN_def)

lemma wp_next_token: "(\<And>x. lsize x \<le> lsize l \<Longrightarrow> P (t, x)) \<Longrightarrow> lres_all P (next_token t l)"
  by (auto simp: next_token_def intro!: wp_NEXT_le wp_RETURN)

lemma wp_next_token_less:
  "currdata l \<noteq> EOB \<Longrightarrow> (\<And>x. lsize x < lsize l \<Longrightarrow> P (t, x)) \<Longrightarrow> lres_all P (next_token t l)"
  by (auto simp: next_token_def intro!: wp_NEXT wp_RETURN)

lemma wp_string_token:
  "currdata l \<noteq> EOB \<Longrightarrow> (\<And>t x. lsize x < lsize l \<Longrightarrow> P (t, x)) \<Longrightarrow> lres_all P (string_token d v l)"
  by (auto simp: string_token_def intro!: wp_ReadString wp_RETURN)

lemma wp_if:
  "(c \<Longrightarrow> lres_all P a) \<Longrightarrow> (\<not> c \<Longrightarrow> lres_all P b) \<Longrightarrow> lres_all P (if c then a else b)"
  by simp

lemma wp_bind: "lres_all (\<lambda>x. lres_all P (f x)) m \<Longrightarrow> lres_all P (lbind m f)"
  by simp

lemma wp_LErr: "lres_all P (LErr e)"
  by simp

lemma wp_prod: "lres_all P (f (fst z) (snd z)) \<Longrightarrow> lres_all P (case z of (x, y) \<Rightarrow> f x y)"
  by (cases z) simp

lemma wp_Lex_token:
  assumes e: "currdata l \<noteq> EOB" and P: "\<And>t x. lsize x < lsize l \<Longrightarrow> P (t, x)"
  shows "lres_all P (Lex_token l)"
  unfolding Lex_token_def Let_def
  by (rule wp_if wp_LErr
      | rule wp_bind, rule wp_NEXT [OF e]
      | rule wp_bind, rule wp_NEXT_le
      | rule wp_string_token [OF e]
      | rule wp_next_token_less [OF e]
      | rule wp_string_token, (simp; fail)
      | rule wp_next_token wp_RETURN
      | rule wp_bind, rule wp_ReadNumber [OF e]
      | rule wp_bind, rule wp_ReadID [OF e]
      | rule wp_prod | simp only: fst_conv snd_conv
      | rule P, linarith)+

definition lexed :: "lexer \<Rightarrow> int \<times> lexer \<Rightarrow> bool" where
  "lexed l r \<longleftrightarrow> (fst r = 0 \<and> currdata (snd r) = EOB \<and> lsize (snd r) \<le> lsize l) \<or> lsize (snd r) < lsize l"

lemma lexed_step: "lexed x r \<Longrightarrow> lsize x < lsize l \<Longrightarrow> lexed l r"
  by (auto simp: lexed_def)

lemma wp_Lex_loop: "lres_all (lexed l) (Lex_loop l)"
proof (induction l rule: Lex_loop.induct)
  case (1 l)
  note IH = "1.IH" [OF refl]
  let ?c = "currdata l"
  consider (eob) "?c = EOB" | (blank) "?c \<noteq> EOB" "?c = CHR 0x09 \<or> ?c = CHR 0x0D \<or> ?c = CHR '' ''"
    | (nl) "?c \<noteq> EOB" "\<not> (?c = CHR 0x09 \<or> ?c = CHR 0x0D \<or> ?c = CHR '' '')" "?c = CHR 0x0A"
    | (hash) "?c \<noteq> EOB" "\<not> (?c = CHR 0x09 \<or> ?c = CHR 0x0D \<or> ?c = CHR '' '')" "?c \<noteq> CHR 0x0A" "?c = CHR ''#''"
    | (slash) "?c \<noteq> EOB" "\<not> (?c = CHR 0x09 \<or> ?c = CHR 0x0D \<or> ?c = CHR '' '')" "?c \<noteq> CHR 0x0A" "?c \<noteq> CHR ''#''"
        "?c = CHR ''/''"
    | (other) "?c \<noteq> EOB" "\<not> (?c = CHR 0x09 \<or> ?c = CHR 0x0D \<or> ?c = CHR '' '')" "?c \<noteq> CHR 0x0A" "?c \<noteq> CHR ''#''"
        "?c \<noteq> CHR ''/''" by blast
  then show ?case
  proof cases
    case eob then show ?thesis by (subst Lex_loop.simps) (simp add: lexed_def)
  next
    case blank
    have "lres_all (lexed l) (Lex_loop x)" if "NEXT l = LOk x" for x
      using IH(1) [OF blank that] NEXT_size(3) [OF that blank(1)] lexed_step by (blast intro: lres_all_mono)
    then show ?thesis using blank
      by (subst Lex_loop.simps) (simp add: lres_all_iff [of "\<lambda>x. lres_all (lexed l) (Lex_loop x)"])
  next
    case nl
    let ?l = "l\<lparr>currentline := currentline l + 1, prevtoken := curtoken l, curtoken := tok (CHR 0x0A)\<rparr>"
    have "lres_all (lexed l) (Lex_loop (x\<lparr>currentcolumn := 1\<rparr>))" if x: "NEXT ?l = LOk x" for x
      using IH(2) [OF nl x] NEXT_size(3) [OF x] nl(1) lexed_step by (force intro: lres_all_mono)
    then show ?thesis using nl
      by (subst Lex_loop.simps)
        (simp add: lres_all_iff [of "\<lambda>x. lres_all (lexed l) (Lex_loop (x\<lparr>currentcolumn := 1\<rparr>))"])
  next
    case hash
    have "lres_all (lexed l) (Lex_loop x)" if "LexLineComment l = LOk x" for x
      using IH(3) [OF hash that] LexLineComment_size [OF that hash(1)] lexed_step by (blast intro: lres_all_mono)
    then show ?thesis using hash
      by (subst Lex_loop.simps) (simp add: lres_all_iff [of "\<lambda>x. lres_all (lexed l) (Lex_loop x)"])
  next
    case slash
    have "lres_all (lexed l)
        (if currdata x = CHR ''*'' then lbind (NEXT x) (\<lambda>l. lbind (LexBlockComment l) Lex_loop)
         else if currdata x = CHR ''/'' then lbind (LexLineComment x) Lex_loop
         else if currdata x = CHR ''='' then next_token TK_DIVEQ x else RETURN_TOKEN (tok (CHR ''/'')) x)"
      if x: "NEXT l = LOk x" for x
    proof -
      have xl: "lsize x < lsize l" by (rule NEXT_size(3) [OF x slash(1)])
      have b: "lres_all (lexed l) (Lex_loop z)"
        if "currdata x = CHR ''*''" "NEXT x = LOk y" "LexBlockComment y = LOk z" for y z
        using IH(4) [OF slash x that] xl NEXT_size(1) [OF that(2)] LexBlockComment_size [OF that(3)] lexed_step
        by (force intro: lres_all_mono)
      have c: "lres_all (lexed l) (Lex_loop z)"
        if "currdata x \<noteq> CHR ''*''" "currdata x = CHR ''/''" "LexLineComment x = LOk z" for z
        using IH(5) [OF slash x that] xl LexLineComment_size [OF that(3)] that(2) lexed_step
        by (force intro: lres_all_mono)
      show ?thesis
      proof (rule wp_if, rule wp_bind)
        assume "currdata x = CHR ''*''"
        then show "lres_all (\<lambda>y. lres_all (lexed l) (lbind (LexBlockComment y) Lex_loop)) (NEXT x)"
          using b by (subst lres_all_iff, clarsimp, subst lres_all_iff, blast)
      next
        assume n: "currdata x \<noteq> CHR ''*''"
        show "lres_all (lexed l) (if currdata x = CHR ''/'' then lbind (LexLineComment x) Lex_loop
          else if currdata x = CHR ''='' then next_token TK_DIVEQ x else RETURN_TOKEN (tok (CHR ''/'')) x)"
        proof (rule wp_if, rule wp_bind)
          assume "currdata x = CHR ''/''"
          then show "lres_all (\<lambda>z. lres_all (lexed l) (Lex_loop z)) (LexLineComment x)"
            using c n by (subst lres_all_iff, blast)
        qed (use xl in \<open>auto simp: lexed_def intro!: wp_if wp_next_token wp_RETURN\<close>)
      qed
    qed
    then show ?thesis using slash
      by (subst Lex_loop.simps, simp only: Let_def if_True if_False lres_all_bind)
        (subst lres_all_iff, simp)
  next
    case other
    then have "Lex_loop l = Lex_token l" by (subst Lex_loop.simps) simp
    then show ?thesis using other(1) by (auto simp: lexed_def intro: wp_Lex_token)
  qed
qed

lemma Lex_size: "Lex l = LOk (t, l') \<Longrightarrow> t \<noteq> 0 \<Longrightarrow> lsize l' < lsize l"
  using wp_Lex_loop [of "l\<lparr>lasttokenline := currentline l\<rparr>"]
  by (auto simp: Lex_def lexed_def)

section \<open>The keyword table\<close>

lemma fold_TNew:
  "fold (\<lambda>p m. map_step m p) (map (\<lambda>(k, t). TNew (OString k) (g t)) kts) m (OString s) =
     (case map_of (rev kts) s of Some t \<Rightarrow> Some (g t) | None \<Rightarrow> m (OString s))"
  by (induction kts arbitrary: m) (auto simp: map_add_def split: option.splits)

lemma fold_TNew_dom:
  "fold (\<lambda>p m. map_step m p) (map (\<lambda>(k, t). TNew (OString k) (g t)) kts) m x = Some v \<Longrightarrow>
     m x = Some v \<or> (\<exists>k \<in> fst ` set kts. x = OString k)"
  by (induction kts arbitrary: m) (fastforce split: if_splits)+

lemma map_of_rev: "distinct (map fst kts) \<Longrightarrow> map_of (rev kts) = map_of kts"
  by (rule map_eqI) (metis distinct_rev map_of_eq_Some_iff rev_map set_rev)

lemma keyword_run:
  "table_run no_refs (table_create 38) keyword_ops = Some keyword_table \<and> table_inv keyword_table \<and>
   table_map keyword_table = fold (\<lambda>p m. map_step m p) keyword_ops Map.empty"
proof -
  have v: "\<forall>p \<in> set keyword_ops. op_valid p" by (auto simp: keyword_ops_def)
  obtain t where "table_run no_refs (table_create 38) keyword_ops = Some t" "table_inv t"
    "table_map t = fold (\<lambda>p m. map_step m p) keyword_ops Map.empty"
    using table_run_refines [OF table_create_ok(1) v, of no_refs 38] by (auto simp: table_create_ok(3))
  then show ?thesis by (simp add: keyword_table_def)
qed

lemma keyword_list_distinct: "distinct (map fst keyword_list)"
  by (simp add: keyword_list_def)

lemma keyword_list_nul_free: "(k, t) \<in> set keyword_list \<Longrightarrow> nul_free k"
  by (auto simp: keyword_list_def nul_free_def)

lemma keyword_list_range: "(k, t) \<in> set keyword_list \<Longrightarrow> 262 \<le> t \<and> t \<le> 324"
  by (auto simp: keyword_list_def)

text \<open>A name is looked up as a keyword, and is an identifier if it is none.\<close>

lemma GetIDType_keywords:
  assumes "kwtable l = keyword_table" "nul_free s"
  shows "GetIDType l s = (case map_of keyword_list s of Some t \<Rightarrow> t | None \<Rightarrow> TK_IDENTIFIER)"
proof -
  have inv: "table_inv keyword_table"
    and m: "table_map keyword_table = fold (\<lambda>p m. map_step m p) keyword_ops Map.empty"
    using keyword_run by blast+
  have keys: "\<forall>n \<in> set (tnodes keyword_table). \<forall>s'. nkey n = OString s' \<longrightarrow> nul_free s'"
  proof (intro ballI allI impI)
    fix n s' assume "n \<in> set (tnodes keyword_table)" and k: "nkey n = OString s'"
    then obtain i where "i < numofnodes keyword_table" "tnodes keyword_table ! i = n"
      by (auto simp: in_set_conv_nth)
    then have "table_map keyword_table (OString s') = Some (nval n)"
      using table_map_found [OF tinv_distinct [OF inv], of i "OString s'"] k by (auto simp: key_at_def)
    then have "s' \<in> fst ` set keyword_list"
      using fold_TNew_dom [of "\<lambda>t. OInteger (of_int t)" keyword_list Map.empty "OString s'"]
      by (auto simp: m keyword_ops_def)
    then show "nul_free s'" using keyword_list_nul_free by force
  qed
  have "table_map keyword_table (OString s) =
      (case map_of keyword_list s of Some t \<Rightarrow> Some (OInteger (of_int t)) | None \<Rightarrow> None)"
    unfolding m keyword_ops_def using keyword_list_distinct
    by (simp add: fold_TNew map_of_rev split: option.split)
  then have g: "table_GetStr no_refs keyword_table s =
      Some (case map_of keyword_list s of Some t \<Rightarrow> Some (OInteger (of_int t)) | None \<Rightarrow> None)"
    by (simp add: table_GetStr_Get [OF inv assms(2) keys] table_Get_map [OF inv] split: option.split)
  show ?thesis
  proof (cases "map_of keyword_list s")
    case (Some t)
    then have "262 \<le> t \<and> t \<le> 324" by (auto dest!: map_of_SomeD keyword_list_range)
    then have "sint (of_int t :: u64) = t" by (simp add: signed_of_int signed_take_bit_int_eq_self_iff)
    then show ?thesis using g Some by (simp add: GetIDType_def assms(1))
  qed (use g in \<open>simp add: GetIDType_def assms(1)\<close>)
qed

end
