(* ===== verification/Lexer_Laws.thy ===== *)
theory Lexer_Laws
  imports Lexer_Progress
begin

text \<open>
  What the lexer computes: lexing the printed form of a list of tokens gives the tokens back, and the
  bytes of \<open>AddUTF8\<close> decode to the code point.
\<close>

section \<open>Reading a known text\<close>

text \<open>The lexer \<open>b\<close> with \<open>s\<close> as the text still to be read, its first character included.\<close>

definition at :: "lexer \<Rightarrow> string \<Rightarrow> lexer" where
  "at b s = b\<lparr>currdata := (case s of [] \<Rightarrow> EOB | c # _ \<Rightarrow> c), linput := map tok (tl s)\<rparr>"

definition bump :: "string \<Rightarrow> lexer \<Rightarrow> lexer" where
  "bump s b = b\<lparr>currentcolumn := currentcolumn b + 1, reached_eof := reached_eof b \<or> s = []\<rparr>"

lemma at_currdata [simp]: "currdata (at b (c # s)) = c" "currdata (at b []) = EOB"
  by (simp_all add: at_def)

lemma at_fields [simp]:
  "longstr (at b s) = longstr b" "kwtable (at b s) = kwtable b" "nvalue (at b s) = nvalue b"
  "svalue (at b s) = svalue b" "fvalue (at b s) = fvalue b" "curtoken (at b s) = curtoken b"
  "currentline (at b s) = currentline b" "currentcolumn (at b s) = currentcolumn b"
  "prevtoken (at b s) = prevtoken b"
  by (simp_all add: at_def)

lemma bump_fields [simp]:
  "longstr (bump s b) = longstr b" "kwtable (bump s b) = kwtable b" "nvalue (bump s b) = nvalue b"
  "svalue (bump s b) = svalue b" "fvalue (bump s b) = fvalue b" "curtoken (bump s b) = curtoken b"
  by (simp_all add: bump_def)

lemma at_upd [simp]:
  "APPEND c (at b s) = at (APPEND c b) s" "INIT_TEMP_STRING (at b s) = at (INIT_TEMP_STRING b) s"
  "(at b s)\<lparr>nvalue := w\<rparr> = at (b\<lparr>nvalue := w\<rparr>) s" "(at b s)\<lparr>svalue := v\<rparr> = at (b\<lparr>svalue := v\<rparr>) s"
  "(at b s)\<lparr>fvalue := f\<rparr> = at (b\<lparr>fvalue := f\<rparr>) s"
  "(at b s)\<lparr>currentline := n\<rparr> = at (b\<lparr>currentline := n\<rparr>) s"
  "(at b s)\<lparr>currentcolumn := n\<rparr> = at (b\<lparr>currentcolumn := n\<rparr>) s"
  "(at b s)\<lparr>lasttokenline := n\<rparr> = at (b\<lparr>lasttokenline := n\<rparr>) s"
  "(at b s)\<lparr>prevtoken := n\<rparr> = at (b\<lparr>prevtoken := n\<rparr>) s"
  "(at b s)\<lparr>curtoken := n\<rparr> = at (b\<lparr>curtoken := n\<rparr>) s"
  by (simp_all add: at_def APPEND_def INIT_TEMP_STRING_def)

lemma append_fields [simp]:
  "longstr (APPEND c b) = longstr b @ [c]" "kwtable (APPEND c b) = kwtable b"
  "longstr (INIT_TEMP_STRING b) = []" "kwtable (INIT_TEMP_STRING b) = kwtable b"
  "curtoken (APPEND c b) = curtoken b" "curtoken (INIT_TEMP_STRING b) = curtoken b"
  by (simp_all add: APPEND_def INIT_TEMP_STRING_def)

lemma tok_range: "0 \<le> tok c" "tok c < 256" "tok c = 0 \<longleftrightarrow> c = EOB"
proof -
  have t: "tok c = int (of_char c)" unfolding tok_def by (rule of_nat_of_char [symmetric])
  have "of_char c < (256::nat)" by simp
  then show "0 \<le> tok c" "tok c < 256" by (simp_all add: t)
  have "of_char c = (0::nat) \<longleftrightarrow> c = EOB"
    using of_char_eq_iff [of c EOB, where 'a = nat] by simp
  then show "tok c = 0 \<longleftrightarrow> c = EOB" by (simp add: t)
qed

lemma char_of_tok: "char_of (nat (tok c mod 256)) = c"
  using tok_range(1,2) [of c] by (simp add: tok_def)

lemma NEXT_at:
  assumes "EOB \<notin> set s"
  shows "NEXT (at b (c # s)) = LOk (at (bump s b) s)"
proof (cases s)
  case Nil
  then show ?thesis by (simp add: NEXT_def Next_def at_def bump_def)
next
  case (Cons d r)
  have "d \<noteq> EOB" using assms Cons by auto
  then show ?thesis
    using tok_range [of d] Cons char_of_tok [of d] by (simp add: NEXT_def Next_def at_def bump_def)
qed

lemma RETURN_at: "RETURN_TOKEN t (at b s) = LOk (t, at (b\<lparr>prevtoken := curtoken b, curtoken := t\<rparr>) s)"
  by (simp add: RETURN_TOKEN_def)

lemma collect_at:
  assumes "EOB \<notin> set s" "EOB \<notin> set r" "\<forall>c \<in> set s. test c" "r = [] \<or> \<not> test (hd r)"
  shows "\<exists>b'. collect test (at b (s @ r)) = LOk (at b' r) \<and> longstr b' = longstr b @ s \<and> kwtable b' = kwtable b \<and> curtoken b' = curtoken b"
  using assms
proof (induction s arbitrary: b)
  case Nil
  then have "\<not> (test (currdata (at b r)) \<and> currdata (at b r) \<noteq> EOB)" by (cases r) auto
  then show ?case by (subst collect.simps) auto
next
  case (Cons c s)
  have n: "NEXT (APPEND c (at b (c # s @ r))) = LOk (at (bump (s @ r) (APPEND c b)) (s @ r))"
    using Cons.prems by (simp add: NEXT_at)
  have "collect test (at b (c # s @ r)) = collect test (at (bump (s @ r) (APPEND c b)) (s @ r))"
    using n Cons.prems by (subst collect.simps) auto
  with Cons.IH [of "bump (s @ r) (APPEND c b)"] Cons.prems show ?case by auto
qed

text \<open>Identifiers and keywords.\<close>

definition idchar :: "char \<Rightarrow> bool" where "idchar c \<longleftrightarrow> scisalnum c \<or> c = CHR ''_''"

lemma idchar_EOB [simp]: "\<not> idchar EOB" by (simp add: idchar_def)

lemma ReadID_at:
  assumes "s \<noteq> []" "\<forall>c \<in> set s. idchar c" "EOB \<notin> set r" "r = [] \<or> \<not> idchar (hd r)"
    "kwtable b = keyword_table"
  shows "\<exists>b'. ReadID (at b (s @ r)) =
      LOk (case map_of keyword_list s of Some t \<Rightarrow> t | None \<Rightarrow> TK_IDENTIFIER, at b' r) \<and>
      kwtable b' = keyword_table \<and> curtoken b' = curtoken b \<and>
      (map_of keyword_list s = None \<longrightarrow> svalue b' = s @ [EOB])"
proof -
  obtain c s' where s: "s = c # s'" using assms(1) by (cases s) auto
  have e: "EOB \<notin> set s" using assms(2) idchar_EOB by blast
  define b1 where "b1 = bump (s' @ r) (APPEND c (INIT_TEMP_STRING b))"
  have n: "NEXT (at (APPEND c (INIT_TEMP_STRING b)) (c # s' @ r)) = LOk (at b1 (s' @ r))"
    using e assms(3) s by (simp add: NEXT_at b1_def)
  obtain b2 where b2: "collect idchar (at b1 (s' @ r)) = LOk (at b2 r)"
    "longstr b2 = longstr b1 @ s'" "kwtable b2 = kwtable b1" "curtoken b2 = curtoken b1"
    using collect_at [of s' r idchar b1] e assms s by auto
  have ls: "longstr b2 = s" and kw: "kwtable b2 = keyword_table" and ct: "curtoken b2 = curtoken b"
    using b2 by (simp_all add: b1_def s assms(5))
  have nf: "nul_free s" using e by (auto simp: nul_free_def)
  have g: "GetIDType (APPEND EOB (at b2 r)) s = (case map_of keyword_list s of Some t \<Rightarrow> t | None \<Rightarrow> TK_IDENTIFIER)"
    by (rule GetIDType_keywords) (simp_all add: kw nf)
  define res where "res = (case map_of keyword_list s of Some t \<Rightarrow> t | None \<Rightarrow> TK_IDENTIFIER)"
  have "NEXT (APPEND (currdata (at b (s @ r))) (INIT_TEMP_STRING (at b (s @ r)))) = LOk (at b1 (s' @ r))"
    using n by (simp add: s)
  moreover have "collect (\<lambda>c. scisalnum c \<or> c = CHR ''_'') = collect idchar"
    by (simp add: idchar_def [abs_def])
  ultimately have "ReadID (at b (s @ r)) = LOk (res, if res = TK_IDENTIFIER \<or> res = TK_CONSTRUCTOR
      then at ((APPEND EOB b2)\<lparr>svalue := s @ [EOB]\<rparr>) r else at (APPEND EOB b2) r)"
    using b2(1) g unfolding ReadID_def res_def [symmetric] by (simp add: Let_def ls)
  then show ?thesis
    using kw ct by (auto simp: res_def split: option.splits if_splits)
qed

text \<open>Decimal integers.\<close>

lemma number_loop_at:
  assumes "\<forall>c \<in> set s. scisdigit c" "EOB \<notin> set r"
    "r = [] \<or> \<not> (scisdigit (hd r) \<or> hd r = CHR ''.'' \<or> isexponent (hd r))"
  shows "\<exists>b'. number_loop TINT (at b (s @ r)) = LOk (TINT, at b' r) \<and> longstr b' = longstr b @ s \<and> kwtable b' = kwtable b \<and> curtoken b' = curtoken b"
  using assms(1)
proof (induction s arbitrary: b)
  case Nil
  have "number_loop TINT (at b r) = LOk (TINT, at b r)"
    using assms(3) by (subst number_loop.simps) (cases r; auto)
  then show ?case by auto
next
  case (Cons c s)
  have e: "EOB \<notin> set (s @ r)" using Cons.prems assms(2) by auto
  have "NEXT (APPEND c (at b (c # s @ r))) = LOk (at (bump (s @ r) (APPEND c b)) (s @ r))"
    using e by (simp add: NEXT_at)
  moreover have "c \<noteq> CHR ''.''" using Cons.prems by (auto simp: scisdigit_def tok_def)
  ultimately have "number_loop TINT (at b (c # s @ r)) = number_loop TINT (at (bump (s @ r) (APPEND c b)) (s @ r))"
    using Cons.prems by (subst number_loop.simps) auto
  with Cons.IH [of "bump (s @ r) (APPEND c b)"] Cons.prems show ?case by auto
qed

fun dec_digits :: "nat \<Rightarrow> string" where
  "dec_digits n = (if n < 10 then [char_of (48 + n)] else dec_digits (n div 10) @ [char_of (48 + n mod 10)])"

declare dec_digits.simps [simp del]

lemma tok_digit: "d < 10 \<Longrightarrow> tok (char_of (48 + d)) = 48 + int d"
proof -
  assume "d < 10"
  then have "of_char (char_of (48 + d) :: char) = (48 + d :: nat)" by simp
  then show ?thesis unfolding tok_def by (metis of_nat_of_char of_nat_add of_nat_numeral)
qed

lemma dec_digits_digit: "c \<in> set (dec_digits n) \<Longrightarrow> scisdigit c"
  by (induction n rule: dec_digits.induct)
    (subst (asm) (2) dec_digits.simps, auto simp: scisdigit_def tok_digit split: if_splits)

lemma LexInteger_append: "LexInteger (s @ [c]) = LexInteger s * 10 + of_int (tok c - 48)"
  by (simp add: LexInteger_def)

lemma LexInteger_digits: "LexInteger (dec_digits n) = of_nat n"
proof (induction n rule: dec_digits.induct)
  case (1 n)
  show ?case
  proof (cases "n < 10")
    case True
    then show ?thesis by (subst dec_digits.simps) (simp add: LexInteger_def tok_digit)
  next
    case False
    have "of_nat n = (of_nat (n div 10 * 10 + n mod 10) :: u64)" by simp
    also have "\<dots> = of_nat (n div 10) * 10 + of_nat (n mod 10)" by (simp only: of_nat_add of_nat_mult of_nat_numeral)
    finally show ?thesis
      using False 1 [OF False] by (subst dec_digits.simps) (simp add: LexInteger_append tok_digit)
  qed
qed

lemma dec_digits_first:
  "\<exists>c s. dec_digits n = c # s \<and> scisdigit c \<and> (c = CHR ''0'' \<longrightarrow> n = 0)"
proof (induction n rule: dec_digits.induct)
  case (1 n)
  show ?case
  proof (cases "n < 10")
    case True
    have "char_of (48 + n) = CHR ''0'' \<Longrightarrow> n = 0"
      using tok_digit [OF True] by (simp add: tok_def)
    then show ?thesis using True by (subst dec_digits.simps) (simp add: scisdigit_def tok_digit)
  next
    case False
    then show ?thesis using 1 by (subst dec_digits.simps) auto
  qed
qed

lemma ReadNumber_at:
  assumes r: "EOB \<notin> set r" "r = [] \<or> \<not> (idchar (hd r) \<or> hd r = CHR ''.'')"
  shows "\<exists>b'. ReadNumber (at b (dec_digits n @ r)) = LOk (TK_INTEGER, at b' r) \<and>
     nvalue b' = of_nat n \<and> kwtable b' = kwtable b \<and> curtoken b' = curtoken b"
proof -
  obtain c s where s: "dec_digits n = c # s" "c = CHR ''0'' \<longrightarrow> n = 0"
    using dec_digits_first by blast
  have ds: "\<forall>d \<in> set (c # s). scisdigit d" using dec_digits_digit [of _ n] s by auto
  have e: "EOB \<notin> set (s @ r)" using ds r by auto
  define b1 where "b1 = bump (s @ r) (INIT_TEMP_STRING b)"
  have n: "NEXT (at (INIT_TEMP_STRING b) (c # s @ r)) = LOk (at b1 (s @ r))"
    using e by (simp add: NEXT_at b1_def)
  have hr: "r = [] \<or> \<not> (scisdigit (hd r) \<or> hd r = CHR ''.'' \<or> isexponent (hd r))"
    using r(2) by (auto simp: idchar_def scisalnum_def isexponent_def scisalpha_def tok_def)
  have nz: "\<not> (c = CHR ''0'' \<and> (ctoupper (currdata (at b1 (s @ r))) = tok (CHR ''X'') \<or> scisodigit (currdata (at b1 (s @ r)))))"
  proof
    assume a: "c = CHR ''0'' \<and> (ctoupper (currdata (at b1 (s @ r))) = tok (CHR ''X'') \<or> scisodigit (currdata (at b1 (s @ r))))"
    then have "s = []" using s by (simp add: dec_digits.simps)
    then show False
      using a r by (cases r)
        (auto simp: idchar_def scisalnum_def scisalpha_def scisdigit_def scisodigit_def ctoupper_def tok_def split: if_splits)
  qed
  obtain b2 where b2: "number_loop TINT (at (APPEND c b1) (s @ r)) = LOk (TINT, at b2 r)"
    "longstr b2 = longstr (APPEND c b1) @ s" "kwtable b2 = kwtable b1" "curtoken b2 = curtoken b1"
    using number_loop_at [of s r "APPEND c b1"] ds r hr by auto
  have "number_digits c (at b1 (s @ r)) = LOk (TINT, at b2 r)"
    using nz b2(1) by (simp only: number_digits_def if_False at_upd)
  then have "ReadNumber (at b (dec_digits n @ r)) = LOk (number_value TINT (longstr (at b2 r)) (APPEND EOB (at b2 r)))"
    using n by (simp add: ReadNumber_def s)
  moreover have "longstr b2 = dec_digits n" using b2(2) by (simp add: b1_def s)
  ultimately show ?thesis
    using b2(3,4) by (auto simp: number_value_def LexInteger_digits b1_def)
qed

text \<open>Verbatim strings.\<close>

definition quoted :: "string \<Rightarrow> string" where
  "quoted s = concat (map (\<lambda>c. if c = CHR 0x22 then [CHR 0x22, CHR 0x22] else [c]) s)"

lemma quoted_append: "quoted (u @ v) = quoted u @ quoted v" by (simp add: quoted_def)

lemma quoted_plain: "CHR 0x22 \<notin> set u \<Longrightarrow> quoted u = u"
  by (induction u) (auto simp: quoted_def)

lemma quoted_EOB: "EOB \<in> set (quoted s) \<longleftrightarrow> EOB \<in> set s"
  by (auto simp: quoted_def split: if_splits)

lemma string_body_at:
  assumes "CHR 0x22 \<notin> set u" "EOB \<notin> set (u @ x)"
  shows "\<exists>b'. string_body (CHR 0x22) True (at b (u @ CHR 0x22 # x)) = LOk (at b' (CHR 0x22 # x)) \<and>
    longstr b' = longstr b @ u \<and> kwtable b' = kwtable b \<and> curtoken b' = curtoken b"
  using assms
proof (induction u arbitrary: b)
  case Nil
  then show ?case by (subst string_body.simps) auto
next
  case (Cons c u)
  let ?y = "u @ CHR 0x22 # x"
  have n: "NEXT (at (APPEND c b) (c # ?y)) = LOk (at (bump ?y (APPEND c b)) ?y)"
    using Cons.prems by (simp add: NEXT_at)
  define b1 where "b1 = (if c = CHR 0x0A then (bump ?y (APPEND c b))\<lparr>currentline := currentline (bump ?y (APPEND c b)) + 1\<rparr>
      else bump ?y (APPEND c b))"
  have "string_body (CHR 0x22) True (at b (c # ?y)) = string_body (CHR 0x22) True (at b1 ?y)"
    using n Cons.prems by (subst string_body.simps) (auto simp: b1_def)
  moreover have "longstr b1 = longstr b @ [c]" "kwtable b1 = kwtable b" "curtoken b1 = curtoken b" by (simp_all add: b1_def)
  ultimately show ?case using Cons.IH [of b1] Cons.prems by auto
qed

lemma string_loop_at:
  assumes "EOB \<notin> set s" "EOB \<notin> set r" "r = [] \<or> hd r \<noteq> CHR 0x22"
  shows "\<exists>b'. string_loop (CHR 0x22) True (at b (quoted s @ CHR 0x22 # r)) = LOk (at b' r) \<and>
    longstr b' = longstr b @ s \<and> kwtable b' = kwtable b \<and> curtoken b' = curtoken b"
  using assms(1)
proof (induction s arbitrary: b rule: length_induct)
  case (1 s)
  show ?case
  proof (cases "CHR 0x22 \<in> set s")
    case False
    obtain b1 where b1: "string_body (CHR 0x22) True (at b (s @ CHR 0x22 # r)) = LOk (at b1 (CHR 0x22 # r))"
      "longstr b1 = longstr b @ s" "kwtable b1 = kwtable b" "curtoken b1 = curtoken b"
      using string_body_at [OF False, of r b] "1.prems" assms(2) by auto
    have "currdata (at (bump r b1) r) \<noteq> CHR 0x22" using assms(3) by (cases r) auto
    then have "string_loop (CHR 0x22) True (at b (quoted s @ CHR 0x22 # r)) = LOk (at (bump r b1) r)"
      using b1(1) assms(2) by (subst string_loop.simps) (simp add: quoted_plain False NEXT_at)
    then show ?thesis using b1 by auto
  next
    case True
    then obtain u v where s: "s = u @ CHR 0x22 # v" and u: "CHR 0x22 \<notin> set u"
      by (meson split_list_first)
    let ?x = "CHR 0x22 # quoted v @ CHR 0x22 # r"
    have q: "quoted s @ CHR 0x22 # r = u @ CHR 0x22 # ?x"
      using quoted_plain [OF u] by (simp add: s quoted_append) (simp add: quoted_def)
    have e: "EOB \<notin> set ?x" "EOB \<notin> set (quoted v @ CHR 0x22 # r)"
      using "1.prems" assms(2) by (auto simp: s quoted_EOB)
    obtain b1 where b1: "string_body (CHR 0x22) True (at b (u @ CHR 0x22 # ?x)) = LOk (at b1 (CHR 0x22 # ?x))"
      "longstr b1 = longstr b @ u" "kwtable b1 = kwtable b" "curtoken b1 = curtoken b"
      using string_body_at [OF u, of ?x b] "1.prems" e by (auto simp: s)
    define b2 where "b2 = bump (quoted v @ CHR 0x22 # r) (APPEND (CHR 0x22) (bump ?x b1))"
    have n: "NEXT (at b1 (CHR 0x22 # ?x)) = LOk (at (bump ?x b1) ?x)"
      "NEXT (at (APPEND (CHR 0x22) (bump ?x b1)) ?x) = LOk (at b2 (quoted v @ CHR 0x22 # r))"
      using NEXT_at [OF e(1)] NEXT_at [OF e(2)] by (auto simp: b2_def)
    have "string_loop (CHR 0x22) True (at b (u @ CHR 0x22 # ?x)) =
        string_loop (CHR 0x22) True (at b2 (quoted v @ CHR 0x22 # r))"
      by (subst string_loop.simps) (use b1(1) n in simp)
    moreover obtain b3 where "string_loop (CHR 0x22) True (at b2 (quoted v @ CHR 0x22 # r)) = LOk (at b3 r)"
      "longstr b3 = longstr b2 @ v" "kwtable b3 = kwtable b2" "curtoken b3 = curtoken b2"
      using "1.IH" [rule_format, of v b2] "1.prems" by (auto simp: s)
    moreover have "longstr b2 = longstr b @ u @ [CHR 0x22]" "kwtable b2 = kwtable b" "curtoken b2 = curtoken b"
      using b1 by (simp_all add: b2_def)
    ultimately show ?thesis unfolding q by (auto simp: s)
  qed
qed

text \<open>Outcomes of the lexer \<open>b\<close> on a known text: the token \<open>t\<close>, with \<open>r\<close> left to read.\<close>

definition reads :: "int \<Rightarrow> string \<Rightarrow> lexer \<Rightarrow> (int \<times> lexer) lres \<Rightarrow> bool" where
  "reads t r b res \<longleftrightarrow> (\<exists>b'. res = LOk (t, at b' r) \<and> kwtable b' = kwtable b \<and> curtoken b' = t \<and> prevtoken b' = curtoken b)"

lemma at_again:
  "(\<exists>c. at b r = at c r \<and> kwtable c = k \<and> curtoken c = t \<and> prevtoken c = p) \<longleftrightarrow>
    kwtable b = k \<and> curtoken b = t \<and> prevtoken b = p"
  by (metis at_fields(2,6,9))

lemma reads_RETURN [simp]:
  "reads t r b (RETURN_TOKEN t' (at b' r)) \<longleftrightarrow> t' = t \<and> kwtable b' = kwtable b \<and> curtoken b' = curtoken b"
  using at_again [of "b'\<lparr>prevtoken := curtoken b', curtoken := t'\<rparr>" r "kwtable b" t "curtoken b"]
  by (auto simp: RETURN_at reads_def)

definition operator_list :: "(string \<times> int) list" where
  "operator_list = [
     (''='', 61), (''=='', TK_EQ), (''<'', 60), (''<='', TK_LE), (''<=>'', TK_3WAYSCMP), (''<-'', TK_NEWSLOT),
     (''<<'', TK_SHIFTL), (''>'', 62), (''>='', TK_GE), (''>>'', TK_SHIFTR), (''>>>'', TK_USHIFTR),
     (''!'', 33), (''!='', TK_NE), (''@'', 64), (''{'', 123), (''}'', 125), (''('', 40), ('')'', 41),
     (''['', 91), ('']'', 93), ('';'', 59), ('','', 44), (''?'', 63), (''^'', 94), (''~'', 126),
     (''.'', 46), (''...'', TK_VARPARAMS), (''&'', 38), (''&&'', TK_AND), (''|'', 124), (''||'', TK_OR),
     ('':'', 58), (''::'', TK_DOUBLE_COLON), (''*'', 42), (''*='', TK_MULEQ), ([CHR 0x25], 37),
     ([CHR 0x25, CHR ''=''], TK_MODEQ), (''-'', 45), (''-='', TK_MINUSEQ), (''--'', TK_MINUSMINUS),
     (''->'', TK_ARROW_RIGHT), (''+'', 43), (''+='', TK_PLUSEQ), (''++'', TK_PLUSPLUS), (''/'', 47), (''/='', TK_DIVEQ)]"

lemma next_token_at: "EOB \<notin> set s \<Longrightarrow> next_token t (at b (c # s)) = RETURN_TOKEN t (at (bump s b) s)"
  by (simp add: next_token_def NEXT_at)

lemma Lex_token_cases:
  "currdata l = CHR ''='' \<Longrightarrow> Lex_token l = lbind (NEXT l) (\<lambda>l.
        if currdata l \<noteq> CHR ''='' then RETURN_TOKEN (tok (CHR ''='')) l else next_token TK_EQ l)"
  "currdata l = CHR ''<'' \<Longrightarrow> Lex_token l = lbind (NEXT l) (\<lambda>l.
        if currdata l = CHR ''='' then lbind (NEXT l) (\<lambda>l.
          if currdata l = CHR ''>'' then next_token TK_3WAYSCMP l else RETURN_TOKEN TK_LE l)
        else if currdata l = CHR ''-'' then next_token TK_NEWSLOT l
        else if currdata l = CHR ''<'' then next_token TK_SHIFTL l
        else RETURN_TOKEN (tok (CHR ''<'')) l)"
  "currdata l = CHR ''>'' \<Longrightarrow> Lex_token l = lbind (NEXT l) (\<lambda>l.
        if currdata l = CHR ''='' then next_token TK_GE l
        else if currdata l = CHR ''>'' then lbind (NEXT l) (\<lambda>l.
          if currdata l = CHR ''>'' then next_token TK_USHIFTR l else RETURN_TOKEN TK_SHIFTR l)
        else RETURN_TOKEN (tok (CHR ''>'')) l)"
  "currdata l = CHR ''!'' \<Longrightarrow> Lex_token l = lbind (NEXT l) (\<lambda>l.
        if currdata l \<noteq> CHR ''='' then RETURN_TOKEN (tok (CHR ''!'')) l else next_token TK_NE l)"
  "currdata l = CHR ''@'' \<Longrightarrow> Lex_token l = lbind (NEXT l) (\<lambda>l.
        if currdata l \<noteq> CHR 0x22 then RETURN_TOKEN (tok (CHR ''@'')) l else string_token (CHR 0x22) True l)"
  "currdata l = CHR ''.'' \<Longrightarrow> Lex_token l = lbind (NEXT l) (\<lambda>l.
        if currdata l \<noteq> CHR ''.'' then RETURN_TOKEN (tok (CHR ''.'')) l
        else lbind (NEXT l) (\<lambda>l.
          if currdata l \<noteq> CHR ''.''
          then LErr (''invalid token '' @ [CHR 0x27] @ ''..'' @ [CHR 0x27]) else next_token TK_VARPARAMS l))"
  "currdata l = CHR ''&'' \<Longrightarrow> Lex_token l = lbind (NEXT l) (\<lambda>l.
        if currdata l \<noteq> CHR ''&'' then RETURN_TOKEN (tok (CHR ''&'')) l else next_token TK_AND l)"
  "currdata l = CHR ''|'' \<Longrightarrow> Lex_token l = lbind (NEXT l) (\<lambda>l.
        if currdata l \<noteq> CHR ''|'' then RETURN_TOKEN (tok (CHR ''|'')) l else next_token TK_OR l)"
  "currdata l = CHR '':'' \<Longrightarrow> Lex_token l = lbind (NEXT l) (\<lambda>l.
        if currdata l \<noteq> CHR '':'' then RETURN_TOKEN (tok (CHR '':'')) l else next_token TK_DOUBLE_COLON l)"
  "currdata l = CHR ''*'' \<Longrightarrow> Lex_token l = lbind (NEXT l) (\<lambda>l.
        if currdata l = CHR ''='' then next_token TK_MULEQ l else RETURN_TOKEN (tok (CHR ''*'')) l)"
  "currdata l = CHR 0x25 \<Longrightarrow> Lex_token l = lbind (NEXT l) (\<lambda>l.
        if currdata l = CHR ''='' then next_token TK_MODEQ l else RETURN_TOKEN (tok (CHR 0x25)) l)"
  "currdata l = CHR ''-'' \<Longrightarrow> Lex_token l = lbind (NEXT l) (\<lambda>l.
        if currdata l = CHR ''='' then next_token TK_MINUSEQ l
        else if currdata l = CHR ''-'' then next_token TK_MINUSMINUS l
        else if currdata l = CHR ''>'' then next_token TK_ARROW_RIGHT l
        else RETURN_TOKEN (tok (CHR ''-'')) l)"
  "currdata l = CHR ''+'' \<Longrightarrow> Lex_token l = lbind (NEXT l) (\<lambda>l.
        if currdata l = CHR ''='' then next_token TK_PLUSEQ l
        else if currdata l = CHR ''+'' then next_token TK_PLUSPLUS l
        else RETURN_TOKEN (tok (CHR ''+'')) l)"
  by (simp_all add: Lex_token_def Let_def)

lemma Lex_token_single:
  assumes "currdata l \<in> {CHR ''{'', CHR ''}'', CHR ''('', CHR '')'', CHR ''['', CHR '']'', CHR '';'', CHR '','',
                   CHR ''?'', CHR ''^'', CHR ''~''}"
  shows "Lex_token l = next_token (tok (currdata l)) l"
proof -
  have "currdata l \<notin> {CHR ''='', CHR ''<'', CHR ''>'', CHR ''!'', CHR ''@'', CHR 0x22, CHR 0x27}"
    using assms by auto
  then show ?thesis using assms by (simp add: Lex_token_def Let_def)
qed

lemma Lex_loop_token:
  "currdata l \<notin> {EOB, CHR 0x09, CHR 0x0D, CHR '' '', CHR 0x0A, CHR ''#'', CHR ''/''} \<Longrightarrow> Lex_loop l = Lex_token l"
  by (subst Lex_loop.simps) (simp add: Let_def)

lemma Lex_slash:
  assumes "EOB \<notin> set r"
  shows "reads 47 (CHR '' '' # r) b (Lex_loop (at b (''/'' @ CHR '' '' # r)))"
    "reads TK_DIVEQ (CHR '' '' # r) b (Lex_loop (at b (''/='' @ CHR '' '' # r)))"
  using assms by (subst Lex_loop.simps, simp add: Let_def NEXT_at next_token_at tok_def)+

lemma Lex_operators:
  assumes "EOB \<notin> set r"
  shows "list_all (\<lambda>(s, t). reads t (CHR '' '' # r) b (Lex_loop (at b (s @ CHR '' '' # r)))) operator_list"
  using assms Lex_slash [OF assms, of b]
  by (simp add: operator_list_def Lex_loop_token Lex_token_cases Lex_token_single NEXT_at next_token_at tok_def)

lemma Lex_operator:
  assumes "(s, t) \<in> set operator_list" "EOB \<notin> set r"
  shows "reads t (CHR '' '' # r) b (Lex_loop (at b (s @ CHR '' '' # r)))"
  using Lex_operators [OF assms(2), of b] assms(1) by (auto simp: list_all_iff)

section \<open>Lexing what is printed\<close>

text \<open>All tokens up to the end of the input, each with the value it leaves in the lexer.\<close>

definition payload :: "int \<Rightarrow> lexer \<Rightarrow> lvobj" where
  "payload t l =
     (if t = TK_INTEGER then OInteger (nvalue l) else if t = TK_FLOAT then OFloat (fvalue l)
      else if t = TK_STRING_LITERAL \<or> t = TK_IDENTIFIER then OString (butlast (svalue l)) else ONull)"

function lex_all :: "lexer \<Rightarrow> (int \<times> lvobj) list lres" where
  "lex_all l =
     lbind (Lex l) (\<lambda>(t, l). if t = 0 then LOk [] else
       lbind (lex_all l) (\<lambda>ts. LOk ((t, payload t l) # ts)))"
  by pat_completeness auto
termination
  by (relation "measure lsize") (auto dest: Lex_size)

declare lex_all.simps [simp del]

datatype source_token = SOp string int | SName string | SInt u64 | SStr string

fun show_token :: "source_token \<Rightarrow> string" where
  "show_token (SOp s t) = s"
| "show_token (SName s) = s"
| "show_token (SInt n) = dec_digits (unat n)"
| "show_token (SStr s) = CHR ''@'' # CHR 0x22 # quoted s @ [CHR 0x22]"

fun token_ok :: "source_token \<Rightarrow> bool" where
  "token_ok (SOp s t) \<longleftrightarrow> (s, t) \<in> set operator_list"
| "token_ok (SName s) \<longleftrightarrow> s \<noteq> [] \<and> \<not> scisdigit (hd s) \<and> (\<forall>c \<in> set s. idchar c)"
| "token_ok (SInt n) \<longleftrightarrow> True"
| "token_ok (SStr s) \<longleftrightarrow> EOB \<notin> set s"

fun token_value :: "source_token \<Rightarrow> int \<times> lvobj" where
  "token_value (SOp s t) = (t, ONull)"
| "token_value (SName s) =
     (case map_of keyword_list s of Some t \<Rightarrow> (t, ONull) | None \<Rightarrow> (TK_IDENTIFIER, OString s))"
| "token_value (SInt n) = (TK_INTEGER, OInteger n)"
| "token_value (SStr s) = (TK_STRING_LITERAL, OString s)"

definition show_tokens :: "source_token list \<Rightarrow> string" where
  "show_tokens ts = concat (map (\<lambda>t. show_token t @ '' '') ts)"

lemma operator_list_EOB: "(s, t) \<in> set operator_list \<Longrightarrow> EOB \<notin> set s \<and> t \<noteq> 0 \<and> t \<noteq> TK_IDENTIFIER \<and> payload t l = ONull"
  by (auto simp: operator_list_def payload_def)

lemma show_token_EOB: "token_ok t \<Longrightarrow> EOB \<notin> set (show_token t)"
proof (cases t)
  case (SInt n)
  then show ?thesis using dec_digits_digit [of EOB "unat n"] by auto
qed (auto simp: quoted_EOB dest: operator_list_EOB)

lemma show_tokens_EOB: "\<forall>t \<in> set ts. token_ok t \<Longrightarrow> EOB \<notin> set (show_tokens ts)"
  by (auto simp: show_tokens_def dest: show_token_EOB)

lemma idchar_first: "idchar c \<Longrightarrow> \<not> scisdigit c \<Longrightarrow> scisalpha c \<or> c = CHR ''_''"
  by (auto simp: idchar_def scisalnum_def)

definition special_chars :: "char set" where
  "special_chars = {EOB, CHR 0x09, CHR 0x0D, CHR '' '', CHR 0x0A, CHR ''#'', CHR ''/'', CHR ''='', CHR ''<'', CHR ''>'',
     CHR ''!'', CHR ''@'', CHR 0x22, CHR 0x27, CHR ''{'', CHR ''}'', CHR ''('', CHR '')'', CHR ''['', CHR '']'',
     CHR '';'', CHR '','', CHR ''?'', CHR ''^'', CHR ''~'', CHR ''.'', CHR ''&'', CHR ''|'', CHR '':'',
     CHR ''*'', CHR 0x25, CHR ''-'', CHR ''+''}"

lemma special_chars_class: "c \<in> special_chars \<Longrightarrow> \<not> scisdigit c \<and> \<not> scisalpha c \<and> c \<noteq> CHR ''_''"
  by (auto simp: special_chars_def scisdigit_def scisalpha_def tok_def)

lemma Lex_loop_word:
  assumes "currdata l \<notin> special_chars"
  shows "Lex_loop l =
    (if scisdigit (currdata l) then lbind (ReadNumber l) (\<lambda>(t, l). RETURN_TOKEN t l)
     else if scisalpha (currdata l) \<or> currdata l = CHR ''_'' then lbind (ReadID l) (\<lambda>(t, l). RETURN_TOKEN t l)
     else if sciscntrl (currdata l) then LErr ''unexpected character(control)''
     else next_token (tok (currdata l)) l)"
  using assms by (simp add: special_chars_def Lex_loop_token Lex_token_def Let_def)

lemma digit_token: "scisdigit (currdata l) \<Longrightarrow> Lex_loop l = lbind (ReadNumber l) (\<lambda>(t, l). RETURN_TOKEN t l)"
  using special_chars_class [of "currdata l"] by (subst Lex_loop_word) auto

lemma alpha_token:
  assumes "idchar (currdata l)" "\<not> scisdigit (currdata l)"
  shows "Lex_loop l = lbind (ReadID l) (\<lambda>(t, l). RETURN_TOKEN t l)"
  using special_chars_class [of "currdata l"] idchar_first [OF assms] assms
  by (subst Lex_loop_word) auto

lemma keyword_token: "map_of keyword_list s = Some t \<Longrightarrow> payload t l = ONull \<and> t \<noteq> 0 \<and> t \<noteq> TK_IDENTIFIER"
  by (drule map_of_SomeD, drule keyword_list_range) (simp add: payload_def)

lemma Lex_loop_shown:
  assumes "token_ok t" "EOB \<notin> set r" "kwtable b = keyword_table"
  shows "\<exists>b'. Lex_loop (at b (show_token t @ CHR '' '' # r)) = LOk (fst (token_value t), at b' (CHR '' '' # r)) \<and>
    kwtable b' = keyword_table \<and> curtoken b' = fst (token_value t) \<and> prevtoken b' = curtoken b \<and>
    (\<forall>x. payload (fst (token_value t)) (at b' x) = snd (token_value t)) \<and>
    (fst (token_value t) = TK_IDENTIFIER \<longrightarrow> svalue b' \<noteq> [] \<and> last (svalue b') = EOB) \<and>
    fst (token_value t) \<noteq> 0"
proof (cases t)
  case (SOp s n)
  then have "(s, n) \<in> set operator_list" using assms by simp
  then show ?thesis
    using Lex_operator [of s n r b] operator_list_EOB [of s n] assms SOp by (auto simp: reads_def)
next
  case (SName s)
  have ok: "s \<noteq> []" "\<not> scisdigit (hd s)" "\<forall>c \<in> set s. idchar c" using assms SName by auto
  let ?r = "CHR '' '' # r"
  have "EOB \<notin> set ?r" "?r = [] \<or> \<not> idchar (hd ?r)"
    using assms(2) by (auto simp: idchar_def scisalnum_def scisalpha_def scisdigit_def tok_def)
  then obtain b' where b': "ReadID (at b (s @ ?r)) =
      LOk (case map_of keyword_list s of Some t \<Rightarrow> t | None \<Rightarrow> TK_IDENTIFIER, at b' ?r)"
    "kwtable b' = keyword_table" "curtoken b' = curtoken b" "map_of keyword_list s = None \<longrightarrow> svalue b' = s @ [EOB]"
    using ReadID_at [OF ok(1,3) _ _ assms(3)] by blast
  have c: "currdata (at b (s @ ?r)) = hd s" using ok(1) by (cases s) auto
  have "Lex_loop (at b (s @ ?r)) = lbind (ReadID (at b (s @ ?r))) (\<lambda>(t, l). RETURN_TOKEN t l)"
    using ok by (intro alpha_token) (auto simp: c)
  then show ?thesis
    using b' keyword_token [of s] by (cases "map_of keyword_list s") (auto simp: SName RETURN_at payload_def)
next
  case (SInt n)
  let ?r = "CHR '' '' # r"
  have "EOB \<notin> set ?r" "?r = [] \<or> \<not> (idchar (hd ?r) \<or> hd ?r = CHR ''.'')"
    using assms(2) by (auto simp: idchar_def scisalnum_def scisalpha_def scisdigit_def tok_def)
  then obtain b' where b': "ReadNumber (at b (dec_digits (unat n) @ ?r)) = LOk (TK_INTEGER, at b' ?r)"
    "nvalue b' = of_nat (unat n)" "kwtable b' = kwtable b" "curtoken b' = curtoken b"
    using ReadNumber_at by blast
  obtain c s where "dec_digits (unat n) = c # s" "scisdigit c" using dec_digits_first by blast
  then have "Lex_loop (at b (dec_digits (unat n) @ ?r)) =
      lbind (ReadNumber (at b (dec_digits (unat n) @ ?r))) (\<lambda>(t, l). RETURN_TOKEN t l)"
    by (intro digit_token) simp
  then show ?thesis using b' assms(3) by (auto simp: SInt RETURN_at payload_def)
next
  case (SStr s)
  let ?r = "CHR '' '' # r" and ?q = "CHR 0x22"
  have e: "EOB \<notin> set s" "EOB \<notin> set ?r" "EOB \<notin> set (quoted s @ ?q # ?r)"
    using assms SStr by (auto simp: quoted_EOB)
  define b1 where "b1 = INIT_TEMP_STRING (bump (?q # quoted s @ ?q # ?r) b)"
  define b2 where "b2 = bump (quoted s @ ?q # ?r) b1"
  obtain b3 where b3: "string_loop ?q True (at b2 (quoted s @ ?q # ?r)) = LOk (at b3 ?r)"
    "longstr b3 = s" "kwtable b3 = kwtable b" "curtoken b3 = curtoken b"
    using string_loop_at [OF e(1,2), of b2] by (auto simp: b2_def b1_def)
  have n: "NEXT (at b1 (?q # quoted s @ ?q # ?r)) = LOk (at b2 (quoted s @ ?q # ?r))"
    unfolding b2_def by (rule NEXT_at [OF e(3)])
  have "currdata (at b2 (quoted s @ ?q # ?r)) \<noteq> EOB" using e(3) by (cases "quoted s") auto
  then have "ReadString ?q True (at (bump (?q # quoted s @ ?q # ?r) b) (?q # quoted s @ ?q # ?r)) =
      LOk (TK_STRING_LITERAL, at ((APPEND EOB b3)\<lparr>svalue := s @ [EOB]\<rparr>) ?r)"
    using n b3 unfolding ReadString_def by (simp add: b1_def string_value_def)
  then have "Lex_token (at b (CHR ''@'' # ?q # quoted s @ ?q # ?r)) =
      RETURN_TOKEN TK_STRING_LITERAL (at ((APPEND EOB b3)\<lparr>svalue := s @ [EOB]\<rparr>) ?r)"
    using NEXT_at [of "?q # quoted s @ ?q # ?r" b "CHR ''@''"] e(3)
    by (simp add: Lex_token_cases string_token_def)
  then show ?thesis
    using b3 assms(3) by (auto simp: SStr RETURN_at payload_def Lex_loop_token)
qed

lemma Lex_loop_blank: "EOB \<notin> set r \<Longrightarrow> Lex_loop (at b (CHR '' '' # r)) = Lex_loop (at (bump r b) r)"
  by (subst Lex_loop.simps) (simp add: Let_def NEXT_at)

lemma lex_all_shown:
  assumes "\<forall>t \<in> set ts. token_ok t" "kwtable b = keyword_table"
  shows "lex_all (at b (show_tokens ts)) = LOk (map token_value ts) \<and>
    lex_all (at b (CHR '' '' # show_tokens ts)) = LOk (map token_value ts)"
  using assms
proof (induction ts arbitrary: b)
  case Nil
  have e: "Lex_loop (at b' []) = LOk (0, at b' [])" for b'
    by (subst Lex_loop.simps) (simp add: Let_def)
  then show ?case
    using Lex_loop_blank [of "[]"] by (subst (1 2) lex_all.simps) (simp add: Lex_def show_tokens_def)
next
  case (Cons t ts)
  let ?r = "CHR '' '' # show_tokens ts"
  have e: "EOB \<notin> set (show_tokens ts)" using show_tokens_EOB Cons.prems by simp
  have x: "show_tokens (t # ts) = show_token t @ ?r" by (simp add: show_tokens_def)
  have ex: "EOB \<notin> set (show_token t @ ?r)" using e show_token_EOB [of t] Cons.prems by simp
  have one: "lbind (Lex_loop (at b' (show_token t @ ?r))) (\<lambda>(t, l). if t = 0 then LOk [] else
       lbind (lex_all l) (\<lambda>ts. LOk ((t, payload t l) # ts))) = LOk (map token_value (t # ts))"
    if k: "kwtable b' = keyword_table" for b'
  proof -
    obtain c where "Lex_loop (at b' (show_token t @ ?r)) = LOk (fst (token_value t), at c ?r)"
      "kwtable c = keyword_table" "payload (fst (token_value t)) (at c ?r) = snd (token_value t)"
      "fst (token_value t) \<noteq> 0"
      using Lex_loop_shown [of t "show_tokens ts" b'] Cons.prems e k by auto
    then show ?thesis using Cons.IH [of c] Cons.prems by simp
  qed
  show ?case
    unfolding x using one Lex_loop_blank [OF ex] Cons.prems
    by (subst (1 2) lex_all.simps) (simp add: Lex_def)
qed

section \<open>UTF-8\<close>

text \<open>UTF-8 as RFC 3629 reads it, on byte values; a sequence is read to its end.\<close>

fun utf8_decode :: "nat list \<Rightarrow> nat option" where
  "utf8_decode [a] = (if a < 128 then Some a else None)"
| "utf8_decode [a, b] =
     (if a div 32 = 6 \<and> b div 64 = 2 then Some (a mod 32 * 64 + b mod 64) else None)"
| "utf8_decode [a, b, c] =
     (if a div 16 = 14 \<and> b div 64 = 2 \<and> c div 64 = 2
      then Some (a mod 16 * 4096 + b mod 64 * 64 + c mod 64) else None)"
| "utf8_decode [a, b, c, d] =
     (if a div 8 = 30 \<and> b div 64 = 2 \<and> c div 64 = 2 \<and> d div 64 = 2
      then Some (a mod 8 * 262144 + b mod 64 * 4096 + c mod 64 * 64 + d mod 64) else None)"
| "utf8_decode _ = None"

lemma or_add:
  fixes w :: u64
  assumes "unat w < 2 ^ k" "mask k AND h = 0"
  shows "w OR h = w + h"
proof -
  have "unat (take_bit k w) = unat w"
    using assms(1) by (simp only: unsigned_take_bit_eq take_bit_nat_eq_self)
  then have "take_bit k w = w" by (simp only: word_unat_eq_iff)
  then have "w AND h = w AND (mask k AND h)" by (metis and.assoc take_bit_eq_mask)
  then have "w AND h = 0" using assms(2) by simp
  then show ?thesis using word_plus_and_or [of w h] by simp
qed

lemma unat_or_add:
  fixes w :: u64
  assumes "unat w < 2 ^ k" "mask k AND h = (0::u64)" "k < 63" "unat h < 256"
  shows "unat (w OR h) = unat w + unat h"
proof -
  have p: "(2::nat) ^ k \<le> 2 ^ 62" using assms(3) by (intro power_increasing) auto
  then have "unat w + unat h < 2 ^ 64" using assms(1,4) by simp
  then show ?thesis using or_add [OF assms(1,2)] by (simp add: unat_word_ariths)
qed

lemma unat_and63: "unat (w AND 0x3F :: u64) = unat w mod 64"
proof -
  have "w AND 0x3F = take_bit 6 w" by (simp add: take_bit_eq_mask mask_eq_exp_minus_1)
  then show ?thesis by (simp add: take_bit_eq_mod unat_mod_distrib)
qed

lemma cont_byte: "unat ((w AND 0x3F) OR 0x80 :: u64) = unat w mod 64 + 128"
  using unat_or_add [of "w AND 0x3F" 6 "0x80"] by (simp add: unat_and63 mask_eq_exp_minus_1)

lemma lead_byte:
  "unat w < 32 \<Longrightarrow> unat (w OR 0xC0 :: u64) = unat w + 192"
  "unat w < 16 \<Longrightarrow> unat (w OR 0xE0 :: u64) = unat w + 224"
  "unat w < 8 \<Longrightarrow> unat (w OR 0xF0 :: u64) = unat w + 240"
  using unat_or_add [of w 5 "0xC0"] unat_or_add [of w 4 "0xE0"] unat_or_add [of w 3 "0xF0"]
  by (simp_all add: mask_eq_exp_minus_1)


lemma unat_drop: "unat (drop_bit n w :: u64) = unat w div 2 ^ n"
  by (rule trans [OF unat_drop_bit_eq]) (rule drop_bit_eq_div)

lemma AddUTF8_bytes:
  assumes "ch < 0x110000"
  shows "map (of_char :: char \<Rightarrow> nat) (AddUTF8 ch) =
    (let n = unat ch in
     if n < 128 then [n]
     else if n < 2048 then [n div 64 + 192, n mod 64 + 128]
     else if n < 65536 then [n div 4096 + 224, n div 64 mod 64 + 128, n mod 64 + 128]
     else [n div 262144 + 240, n div 4096 mod 64 + 128, n div 64 mod 64 + 128, n mod 64 + 128])"
proof -
  define n where "n = unat ch"
  have l: "(ch < 0x80) = (n < 128)" "(ch < 0x800) = (n < 2048)" "(ch < 0x10000) = (n < 65536)" and n: "n < 0x110000"
    using assms by (simp_all add: n_def word_less_nat_alt)
  show ?thesis
    unfolding AddUTF8_def Let_def l n_def [symmetric]
    using n by (auto simp: cont_byte lead_byte unat_drop assms n_def [symmetric] less_mult_imp_div_less)
qed

lemma add_div: "x < m \<Longrightarrow> (x + k * m) div m = k \<and> (x + k * m) mod m = (x::nat)"
  by simp

lemma cont_div: "(x mod 64 + 128) div 64 = (2::nat)" "(x mod 64 + 128) mod 64 = x mod (64::nat)"
  using add_div [of "x mod 64" 64 2] by simp_all

lemma lead_div:
  fixes x :: nat
  shows "x < 32 \<Longrightarrow> (x + 192) div 32 = 6 \<and> (x + 192) mod 32 = x"
    "x < 16 \<Longrightarrow> (x + 224) div 16 = 14 \<and> (x + 224) mod 16 = x"
    "x < 8 \<Longrightarrow> (x + 240) div 8 = 30 \<and> (x + 240) mod 8 = x"
  using add_div [of x 32 6] add_div [of x 16 14] add_div [of x 8 30] by simp_all

lemma split64: "n div 64 * 64 + n mod 64 = (n::nat)"
  "n div 4096 * 4096 + n div 64 mod 64 * 64 + n mod 64 = n"
  "n div 262144 * 262144 + n div 4096 mod 64 * 4096 + n div 64 mod 64 * 64 + n mod 64 = n"
proof -
  have a: "n div 4096 = n div 64 div 64" "n div 262144 = n div 64 div 64 div 64" by (simp_all add: div_mult2_eq flip: div_mult2_eq)
  define q where "q = n div 64"
  define p where "p = q div 64"
  have n: "n = q * 64 + n mod 64" by (simp add: q_def)
  have q: "q = p * 64 + q mod 64" by (simp add: p_def)
  have p: "p = p div 64 * 64 + p mod 64" by simp
  show "n div 64 * 64 + n mod 64 = n" by simp
  show "n div 4096 * 4096 + n div 64 mod 64 * 64 + n mod 64 = n"
    unfolding a q_def [symmetric] p_def [symmetric] using n q by linarith
  show "n div 262144 * 262144 + n div 4096 mod 64 * 4096 + n div 64 mod 64 * 64 + n mod 64 = n"
    unfolding a q_def [symmetric] p_def [symmetric] using n q p by linarith
qed

section \<open>Properties\<close>

lemma Init_at:
  assumes "EOB \<notin> set s"
  shows "\<exists>b. Init (map tok s) l = LOk (at b s) \<and> kwtable b = keyword_table"
proof (cases s)
  case Nil
  let ?b = "l\<lparr>linput := [], kwtable := keyword_table, lasttokenline := 1, currentline := 1,
             currentcolumn := 0, prevtoken := - 1, reached_eof := True\<rparr>"
  have "Init (map tok s) l = LOk (at ?b s)" by (simp add: Init_def Next_def at_def Nil)
  then show ?thesis by force
next
  case (Cons c r)
  let ?b = "l\<lparr>linput := [], kwtable := keyword_table, lasttokenline := 1, currentline := 1,
             currentcolumn := 0, prevtoken := - 1, reached_eof := False\<rparr>"
  have "c \<noteq> EOB" using assms Cons by auto
  then have "Init (map tok s) l = LOk (at ?b s)"
    using tok_range [of c] char_of_tok [of c] by (simp add: Init_def Next_def at_def Cons)
  then show ?thesis by force
qed

text \<open>
  C2: lexing the printed form of a list of tokens, separated by blanks, gives exactly these tokens back:
  operators and keywords with their numbers, identifiers with their names, integers of 64 bits with
  their values, and verbatim strings with their contents.
\<close>

theorem lex_printed_tokens:
  assumes "\<forall>t \<in> set ts. token_ok t"
  shows "lbind (Init (map tok (show_tokens ts)) l) lex_all = LOk (map token_value ts)"
proof -
  obtain b where "Init (map tok (show_tokens ts)) l = LOk (at b (show_tokens ts))" "kwtable b = keyword_table"
    using Init_at [OF show_tokens_EOB [OF assms]] by blast
  then show ?thesis using lex_all_shown [OF assms, of b] by simp
qed

definition blank_lexer :: lexer where
  "blank_lexer = \<lparr>linput = [], currdata = EOB, reached_eof = False, curtoken = 0, prevtoken = 0, currentline = 0,
     lasttokenline = 0, currentcolumn = 0, svalue = [], nvalue = 0, fvalue = 0, longstr = [], kwtable = table_create 0\<rparr>"

theorem lex_printed_tokens_witness:
  "lbind (Init (map tok (show_tokens [SName ''x'', SOp ''<-'' TK_NEWSLOT, SInt 42, SStr [CHR 0x22]])) blank_lexer) lex_all =
     LOk [(TK_IDENTIFIER, OString ''x''), (TK_NEWSLOT, ONull), (TK_INTEGER, OInteger 42), (TK_STRING_LITERAL, OString [CHR 0x22])]"
  using lex_printed_tokens [of "[SName ''x'', SOp ''<-'' TK_NEWSLOT, SInt 42, SStr [CHR 0x22]]" blank_lexer]
  by (simp add: operator_list_def idchar_def scisalnum_def scisalpha_def scisdigit_def tok_def keyword_list_def)

text \<open>
  C15: every call of \<open>Lex\<close> ends, and unless it reports an error or returns the token 0 with the input at
  its end it has consumed input, so that a lexer is called only finitely often before that.
\<close>

theorem Lex_progress:
  assumes "Lex l = LOk (t, l')"
  shows "t = 0 \<and> currdata l' = EOB \<or> lsize l' < lsize l"
  using assms wp_Lex_loop [of "l\<lparr>lasttokenline := currentline l\<rparr>"]
  by (auto simp: Lex_def lexed_def)

theorem Lex_progress_witness:
  "\<exists>l'. Lex (at blank_lexer ''+'') = LOk (43, l') \<and> lsize l' < lsize (at blank_lexer ''+'')"
proof -
  let ?b = "blank_lexer\<lparr>lasttokenline := currentline blank_lexer\<rparr>"
  have "Lex (at blank_lexer ''+'') = RETURN_TOKEN 43 (at (bump [] ?b) [])"
    by (simp add: Lex_def Lex_loop_token Lex_token_cases NEXT_at tok_def)
  then obtain l' where "Lex (at blank_lexer ''+'') = LOk (43, l')" by (simp add: RETURN_TOKEN_def)
  with Lex_progress [OF this] show ?thesis by auto
qed



text \<open>Both escapes read up to eight digits: the backslash is compared with \<open>u\<close>.\<close>

lemma short_unicode_escape:
  "ProcessStringHexEscape 8 l = LOk (temp, l') \<Longrightarrow> currdata l = CHR ''u'' \<Longrightarrow>
   string_escape l = LOk (l'\<lparr>longstr := longstr l' @ AddUTF8 (LexHexadecimal temp)\<rparr>)"
  by (simp add: string_escape_def)

end
