(* ===== verification/Printing.thy ===== *)
theory Printing
  imports Values Lexer_Laws
begin

text \<open>
  The texts the machine makes of values: the conversions \<open>%lld\<close> and \<open>%g\<close> of \<open>snprintf\<close> as
  \<^verbatim>\<open>src/vm.cpp\<close> and \<^verbatim>\<open>src/debug.cpp\<close> use them, \<open>PrintObjVal\<close>, and the messages of the
  \<open>Raise_*\<close> functions.
\<close>

section \<open>Numbers\<close>

definition print_int :: "u64 \<Rightarrow> string" where
  "print_int i = (if sint i < 0 then CHR ''-'' # dec_digits (nat (- sint i)) else dec_digits (unat i))"

text \<open>
  \<open>%.Pg\<close> of a float: the exact value is \<open>n / 2 ^ 149\<close>; \<open>P\<close> significant digits, rounded to even; the
  exponent decides between the two styles, and trailing zeros go.
\<close>

fun dec_exponent :: "nat \<Rightarrow> nat \<Rightarrow> nat \<Rightarrow> int" where
  "dec_exponent fuel n d =
     (if n \<ge> d then int (length (dec_digits (n div d))) - 1
      else (case fuel of 0 \<Rightarrow> 0 | Suc f \<Rightarrow> dec_exponent f (n * 10) d - 1))"

declare dec_exponent.simps [simp del]

definition strip_zeros :: "string \<Rightarrow> string" where
  "strip_zeros s = rev (dropWhile (\<lambda>c. c = CHR ''0'') (rev s))"

definition with_point :: "string \<Rightarrow> string \<Rightarrow> string" where
  "with_point a b = (let b = strip_zeros b in if b = [] then a else a @ ''.'' @ b)"

definition fmt_g_mag :: "nat \<Rightarrow> nat \<Rightarrow> nat \<Rightarrow> string" where
  "fmt_g_mag p n d =
     (let x = dec_exponent 60 n d;
          k = int p - 1 - x;
          m = round_half_even (n * 10 ^ nat k) (d * 10 ^ nat (- k));
          (m, x) = (if m = 10 ^ p then (10 ^ (p - 1), x + 1) else (m, x));
          ds = dec_digits m
      in if x < - 4 \<or> x \<ge> int p then
           with_point (take 1 ds) (drop 1 ds) @ ''e'' @ (if x < 0 then ''-'' else ''+'') @
             (let e = dec_digits (nat \<bar>x\<bar>) in if length e < 2 then ''0'' @ e else e)
         else if x < 0 then with_point ''0'' (replicate (nat (- x) - 1) (CHR ''0'') @ ds)
         else with_point (take (nat x + 1) ds) (drop (nat x + 1) ds))"

definition fmt_g :: "nat \<Rightarrow> u32 \<Rightarrow> string" where
  "fmt_g p f =
     (let s = (if f32_neg f then ''-'' else []) in
      if f32_is_nan f then s @ ''nan'' else if f32_is_inf f then s @ ''inf''
      else if f32_is_zero f then s @ ''0''
      else s @ fmt_g_mag p (nat \<bar>f32_units f\<bar>) (2 ^ 149))"

section \<open>Messages\<close>

definition NUMBER_MAX_CHAR :: nat where "NUMBER_MAX_CHAR = 50"

text \<open>\<open>snprintf\<close> into \<open>n\<close> characters, the NUL included; \<open>%.Ns\<close> prints at most \<open>N\<close> characters.\<close>

definition snprintf :: "nat \<Rightarrow> string \<Rightarrow> string" where
  "snprintf n s = take (n - 1) s"

definition str_arg :: "string \<Rightarrow> string" where
  "str_arg s = c_string s"

definition PrintObjVal :: "lvobj \<Rightarrow> string" where
  "PrintObjVal ob =
     (case ob of OString s \<Rightarrow> s
      | OInteger i \<Rightarrow> snprintf NUMBER_MAX_CHAR (print_int i)
      | OFloat f \<Rightarrow> snprintf NUMBER_MAX_CHAR (fmt_g 14 f)
      | _ \<Rightarrow> IdType2Name (otype ob))"

text \<open>\<open>Raise_Error\<close> with a format of \<open>n\<close> characters that prints \<open>s\<close>: the error object.\<close>

definition error_text :: "nat \<Rightarrow> string \<Rightarrow> lvobj" where
  "error_text n s = OString (snprintf (n + NUMBER_MAX_CHAR * 2) s)"

definition IdxError :: "lvobj \<Rightarrow> lvobj" where
  "IdxError k = error_text 32
     (''the index '' @ [CHR 0x27] @ take 50 (str_arg (PrintObjVal k)) @ [CHR 0x27] @ '' does not exist'')"

definition CompareError :: "lvobj \<Rightarrow> lvobj \<Rightarrow> lvobj" where
  "CompareError a b = error_text 38
     (''comparison between '' @ [CHR 0x27] @ take 50 (str_arg (PrintObjVal a)) @ [CHR 0x27] @ '' and '' @
      [CHR 0x27] @ take 50 (str_arg (PrintObjVal b)) @ [CHR 0x27])"

text \<open>The sixteen type bits of a mask, by name, separated by bars.\<close>

definition mask_names :: "u64 \<Rightarrow> string" where
  "mask_names m =
     (let ns = map (\<lambda>t. IdType2Name t) (filter (\<lambda>t. m AND ucast (raw_type t) \<noteq> 0) (take 16 all_types))
      in concat (case ns of [] \<Rightarrow> [] | n # ns \<Rightarrow> n # map (\<lambda>n. ''|'' @ n) ns))"

definition ParamTypeError :: "nat \<Rightarrow> u64 \<Rightarrow> ltype \<Rightarrow> lvobj" where
  "ParamTypeError n m t = error_text 54
     (''parameter '' @ dec_digits n @ '' has an invalid type '' @ [CHR 0x27] @ IdType2Name t @ [CHR 0x27] @
      '' ; expected: '' @ [CHR 0x27] @ mask_names m @ [CHR 0x27])"

fun error_obj :: "vm_error \<Rightarrow> lvobj" where
  "error_obj (EMsg s) = OString s"
| "error_obj (EIdx k) = IdxError k"
| "error_obj (ECompare a b) = CompareError a b"
| "error_obj (EParamType n m t) = ParamTypeError n m t"
| "error_obj (EThrown x) = x"

end
