(* ===== verification/Machine.thy ===== *)
theory Machine
  imports Arrays Printing Bytecode Table_Contract
begin

text \<open>
  The state of the virtual machine (\<^verbatim>\<open>src/vm.h\<close>) with the objects it works on (\<^verbatim>\<open>src/class.h\<close>,
  \<^verbatim>\<open>src/closure.h\<close>, \<^verbatim>\<open>src/userdata.h\<close>), and the operations on its value stack, its call stack and
  its open outer variables (\<^verbatim>\<open>src/vm.cpp\<close>). Objects live in a heap under the addresses the allocator
  returns; the model keeps no reference counts, an object that is no longer referenced stays. A pointer into
  the value stack is an index. \<open>None\<close> is an access outside the stack, a dangling pointer, or a heap with
  no free address. The debug hook is never set.
\<close>

section \<open>Objects\<close>

record lvmember =
  m_val :: lvobj
  m_attrs :: lvobj

record lvclass =
  cl_members :: u64
  cl_base :: "u64 option"
  cl_defaultvalues :: "lvmember list"
  cl_methods :: "lvmember list"
  cl_metamethods :: "lvobj list"
  cl_attributes :: lvobj
  cl_abstract :: bool
  cl_locked :: bool
  cl_constructoridx :: int

record lvinstance =
  in_class :: u64
  in_values :: "lvobj list"
  in_delegate :: "u64 option"

record lvclosure =
  c_env :: "u64 option"
  c_root :: "u64 option"
  c_base :: "u64 option"
  c_function :: u64
  c_outervalues :: "lvobj list"
  c_defaultparams :: "lvobj list"

record lvnative =
  n_nparamscheck :: int
  n_typecheck :: "u64 list"
  n_outervalues :: "lvobj list"
  n_env :: "u64 option"
  n_function :: u64
  n_name :: lvobj

text \<open>An outer variable: the index of a stack slot, or its own value once the slot is gone.\<close>

datatype lvouter = OpenOuter int | ClosedOuter lvobj

record callinfo =
  ci_ip :: int
  ci_closure :: lvobj
  ci_generator :: "u64 option"
  ci_etraps :: int
  ci_prevstkbase :: int
  ci_prevtop :: int
  ci_target :: int
  ci_ncalls :: int
  ci_root :: bool

record exctrap =
  et_stackbase :: int
  et_stacksize :: int
  et_ip :: int
  et_extarget :: int

datatype genstate = eRunning | eSuspended | eDead

record lvgenerator =
  g_closure :: lvobj
  g_stack :: "lvobj list"
  g_ci :: callinfo
  g_etraps :: "exctrap list"
  g_state :: genstate

datatype (plugins only: code size) heap_obj =
    HTable lvtable | HArray lvarray | HUserData "u64 option" | HClass lvclass | HInstance lvinstance
  | HClosure lvclosure | HNative lvnative | HOuter lvouter | HGenerator lvgenerator | HProto funcproto
  | HWeakRef lvobj

section \<open>The machine\<close>

record vm =
  v_heap :: "u64 \<rightharpoonup> heap_obj"
  v_free :: "u64 list"
  v_weakrefs :: "lvobj \<rightharpoonup> u64"
  v_stack :: "lvobj list"
  v_top :: int
  v_stackbase :: int
  v_calls :: "callinfo list"
  v_openouters :: "u64 list"
  v_etraps :: "exctrap list"
  v_roottable :: lvobj
  v_lasterror :: lvobj
  v_errorhandler :: lvobj
  v_temp :: lvobj
  v_nnative :: int
  v_nmeta :: int
  v_ddel :: "ltype \<Rightarrow> u64 option"
  v_suspended :: bool
  v_susp_target :: int
  v_susp_root :: bool
  v_susp_traps :: int
  v_notifyall :: bool

definition raise :: "vm_error \<Rightarrow> vm \<Rightarrow> vm" where
  "raise e v = v\<lparr>v_lasterror := error_obj e\<rparr>"

subsection \<open>The heap\<close>

definition weak_of :: "vm \<Rightarrow> weak_store" where
  "weak_of v a = (case v_heap v a of Some (HWeakRef ob) \<Rightarrow> ob | _ \<Rightarrow> ONull)"

definition put :: "u64 \<Rightarrow> heap_obj \<Rightarrow> vm \<Rightarrow> vm" where
  "put a ob v = v\<lparr>v_heap := (v_heap v)(a \<mapsto> ob)\<rparr>"

definition alloc :: "heap_obj \<Rightarrow> vm \<Rightarrow> (u64 \<times> vm) option" where
  "alloc ob v =
     (case v_free v of [] \<Rightarrow> None | a # as \<Rightarrow> Some (a, put a ob (v\<lparr>v_free := as\<rparr>)))"

definition get_table :: "vm \<Rightarrow> u64 \<Rightarrow> lvtable option" where
  "get_table v a = (case v_heap v a of Some (HTable t) \<Rightarrow> Some t | _ \<Rightarrow> None)"

definition get_array :: "vm \<Rightarrow> u64 \<Rightarrow> lvarray option" where
  "get_array v a = (case v_heap v a of Some (HArray t) \<Rightarrow> Some t | _ \<Rightarrow> None)"

definition get_class :: "vm \<Rightarrow> u64 \<Rightarrow> lvclass option" where
  "get_class v a = (case v_heap v a of Some (HClass t) \<Rightarrow> Some t | _ \<Rightarrow> None)"

definition get_instance :: "vm \<Rightarrow> u64 \<Rightarrow> lvinstance option" where
  "get_instance v a = (case v_heap v a of Some (HInstance t) \<Rightarrow> Some t | _ \<Rightarrow> None)"

definition get_closure :: "vm \<Rightarrow> u64 \<Rightarrow> lvclosure option" where
  "get_closure v a = (case v_heap v a of Some (HClosure t) \<Rightarrow> Some t | _ \<Rightarrow> None)"

definition get_native :: "vm \<Rightarrow> u64 \<Rightarrow> lvnative option" where
  "get_native v a = (case v_heap v a of Some (HNative t) \<Rightarrow> Some t | _ \<Rightarrow> None)"

definition get_generator :: "vm \<Rightarrow> u64 \<Rightarrow> lvgenerator option" where
  "get_generator v a = (case v_heap v a of Some (HGenerator t) \<Rightarrow> Some t | _ \<Rightarrow> None)"

definition get_proto :: "vm \<Rightarrow> u64 \<Rightarrow> funcproto option" where
  "get_proto v a = (case v_heap v a of Some (HProto t) \<Rightarrow> Some t | _ \<Rightarrow> None)"

text \<open>\<open>GetWeakRef\<close>: each object has at most one weak reference.\<close>

definition GetWeakRef :: "lvobj \<Rightarrow> vm \<Rightarrow> (lvobj \<times> vm) option" where
  "GetWeakRef ob v =
     (case v_weakrefs v ob of
        Some a \<Rightarrow> Some (ORef RWeakRef a, v)
      | None \<Rightarrow> do {
          (a, v) \<leftarrow> alloc (HWeakRef ob) v;
          Some (ORef RWeakRef a, v\<lparr>v_weakrefs := (v_weakrefs v)(ob \<mapsto> a)\<rparr>)
        })"

subsection \<open>The value stack\<close>

definition at_stack :: "vm \<Rightarrow> int \<Rightarrow> lvobj option" where
  "at_stack v i = (if 0 \<le> i \<and> i < int (length (v_stack v)) then Some (v_stack v ! nat i) else None)"

definition set_stack :: "int \<Rightarrow> lvobj \<Rightarrow> vm \<Rightarrow> vm option" where
  "set_stack i x v =
     (if 0 \<le> i \<and> i < int (length (v_stack v)) then Some (v\<lparr>v_stack := (v_stack v)[nat i := x]\<rparr>) else None)"

lemma set_stack_SomeD:
  "set_stack i x v = Some v' \<Longrightarrow>
   v' = v\<lparr>v_stack := (v_stack v)[nat i := x]\<rparr> \<and> 0 \<le> i \<and> i < int (length (v_stack v))"
  by (simp add: set_stack_def split: if_splits)

text \<open>\<open>STK(a)\<close>.\<close>

definition stk :: "vm \<Rightarrow> int \<Rightarrow> lvobj option" where
  "stk v a = at_stack v (v_stackbase v + a)"

definition set_stk :: "int \<Rightarrow> lvobj \<Rightarrow> vm \<Rightarrow> vm option" where
  "set_stk a x v = set_stack (v_stackbase v + a) x v"

definition Push :: "lvobj \<Rightarrow> vm \<Rightarrow> vm option" where
  "Push x v = do { v \<leftarrow> set_stack (v_top v) x v; Some (v\<lparr>v_top := v_top v + 1\<rparr>) }"

definition PushNull :: "vm \<Rightarrow> vm option" where
  "PushNull v = Push ONull v"

fun push_all :: "lvobj list \<Rightarrow> vm \<Rightarrow> vm option" where
  "push_all [] v = Some v"
| "push_all (x # xs) v = do { v \<leftarrow> Push x v; push_all xs v }"

definition Pop :: "vm \<Rightarrow> vm option" where
  "Pop v = do { let v = v\<lparr>v_top := v_top v - 1\<rparr>; set_stack (v_top v) ONull v }"

fun PopN :: "nat \<Rightarrow> vm \<Rightarrow> vm option" where
  "PopN 0 v = Some v"
| "PopN (Suc n) v = do { v \<leftarrow> Pop v; PopN n v }"

definition Top :: "vm \<Rightarrow> lvobj option" where
  "Top v = at_stack v (v_top v - 1)"

definition PopGet :: "vm \<Rightarrow> (lvobj \<times> vm) option" where
  "PopGet v = do { let v = v\<lparr>v_top := v_top v - 1\<rparr>; x \<leftarrow> at_stack v (v_top v); Some (x, v) }"

definition GetUp :: "int \<Rightarrow> vm \<Rightarrow> lvobj option" where
  "GetUp n v = at_stack v (v_top v + n)"

definition GetAt :: "int \<Rightarrow> vm \<Rightarrow> lvobj option" where
  "GetAt n v = at_stack v n"

text \<open>\<open>stack_get\<close> of the embedding interface: positive from the frame's base, negative from the top.\<close>

definition stack_get :: "vm \<Rightarrow> int \<Rightarrow> lvobj option" where
  "stack_get v idx = (if idx \<ge> 0 then GetAt (idx + v_stackbase v - 1) v else GetUp idx v)"

text \<open>\<open>Remove\<close>: the loop copies down from \<open>i\<close> to the top.\<close>

function remove_loop :: "int \<Rightarrow> vm \<Rightarrow> vm option" where
  "remove_loop i v =
     (if i < v_top v then do {
        x \<leftarrow> at_stack v (i + 1);
        v' \<leftarrow> set_stack i x v;
        remove_loop (i + 1) v'
      } else Some v)"
  by pat_completeness auto
termination
  by (relation "measure (\<lambda>(i, v). nat (v_top v - i))") (auto dest: set_stack_SomeD)

declare remove_loop.simps [simp del]

definition Remove :: "int \<Rightarrow> vm \<Rightarrow> vm option" where
  "Remove n v = do {
     v \<leftarrow> remove_loop (if n \<ge> 0 then n + v_stackbase v - 1 else v_top v + n) v;
     v \<leftarrow> set_stack (v_top v) ONull v;
     Some (v\<lparr>v_top := v_top v - 1\<rparr>)
   }"

text \<open>\<open>while (hi >= lo) _stack[hi--].Null()\<close>.\<close>

definition null_range :: "int \<Rightarrow> int \<Rightarrow> vm \<Rightarrow> vm option" where
  "null_range lo hi v =
     (if hi < lo then Some v
      else if 0 \<le> lo \<and> hi < int (length (v_stack v)) then
        Some (v\<lparr>v_stack := take (nat lo) (v_stack v) @ replicate (nat (hi - lo + 1)) ONull @
                             drop (nat hi + 1) (v_stack v)\<rparr>)
      else None)"

subsection \<open>Outer variables\<close>

definition open_idx :: "vm \<Rightarrow> u64 \<Rightarrow> int option" where
  "open_idx v p = (case v_heap v p of Some (HOuter (OpenOuter i)) \<Rightarrow> Some i | _ \<Rightarrow> None)"

text \<open>\<open>*(otr->_valptr)\<close>, read and written.\<close>

definition outer_get :: "vm \<Rightarrow> u64 \<Rightarrow> lvobj option" where
  "outer_get v p =
     (case v_heap v p of
        Some (HOuter (OpenOuter i)) \<Rightarrow> at_stack v i
      | Some (HOuter (ClosedOuter x)) \<Rightarrow> Some x
      | _ \<Rightarrow> None)"

definition outer_set :: "u64 \<Rightarrow> lvobj \<Rightarrow> vm \<Rightarrow> vm option" where
  "outer_set p x v =
     (case v_heap v p of
        Some (HOuter (OpenOuter i)) \<Rightarrow> set_stack i x v
      | Some (HOuter (ClosedOuter y)) \<Rightarrow> Some (put p (HOuter (ClosedOuter x)) v)
      | _ \<Rightarrow> None)"

text \<open>The search of \<open>FindOuter\<close>: the outer of the slot if there is one, and the list cut where it stops.\<close>

fun outer_walk :: "vm \<Rightarrow> int \<Rightarrow> u64 list \<Rightarrow> (u64 option \<times> u64 list \<times> u64 list) option" where
  "outer_walk v i [] = Some (None, [], [])"
| "outer_walk v i (p # ps) = do {
     j \<leftarrow> open_idx v p;
     if j \<ge> i then
       (if j = i then Some (Some p, [], p # ps)
        else do { (r, a, b) \<leftarrow> outer_walk v i ps; Some (r, p # a, b) })
     else Some (None, [], p # ps)
   }"

definition FindOuter :: "int \<Rightarrow> vm \<Rightarrow> (lvobj \<times> vm) option" where
  "FindOuter i v = do {
     (r, a, b) \<leftarrow> outer_walk v i (v_openouters v);
     (case r of
        Some p \<Rightarrow> Some (ORef ROuter p, v)
      | None \<Rightarrow> do {
          (p, v) \<leftarrow> alloc (HOuter (OpenOuter i)) v;
          Some (ORef ROuter p, v\<lparr>v_openouters := a @ p # b\<rparr>)
        })
   }"

fun close_loop :: "int \<Rightarrow> u64 list \<Rightarrow> vm \<Rightarrow> vm option" where
  "close_loop i [] v = Some (v\<lparr>v_openouters := []\<rparr>)"
| "close_loop i (p # ps) v = do {
     j \<leftarrow> open_idx v p;
     if j \<ge> i then do {
       x \<leftarrow> at_stack v j;
       close_loop i ps (put p (HOuter (ClosedOuter x)) v)
     } else Some (v\<lparr>v_openouters := p # ps\<rparr>)
   }"

definition CloseOuters :: "int \<Rightarrow> vm \<Rightarrow> vm option" where
  "CloseOuters i v = close_loop i (v_openouters v) v"

text \<open>\<open>RelocateOuters\<close> recomputes the pointers from the indices.\<close>

definition RelocateOuters :: "vm \<Rightarrow> vm" where
  "RelocateOuters v = v"

subsection \<open>Frames\<close>

definition int32 :: "int \<Rightarrow> int" where
  "int32 i = sint (of_int i :: u32)"

definition MIN_STACK_OVERHEAD :: int where "MIN_STACK_OVERHEAD = 15"

definition EnterFrame :: "int \<Rightarrow> int \<Rightarrow> bool \<Rightarrow> vm \<Rightarrow> (bool \<times> vm) option" where
  "EnterFrame newbase newtop tailcall v = do {
     v \<leftarrow> (if \<not> tailcall then
              Some (v\<lparr>v_calls := \<lparr>ci_ip = 0, ci_closure = ONull, ci_generator = None, ci_etraps = 0,
                        ci_prevstkbase = int32 (newbase - v_stackbase v),
                        ci_prevtop = int32 (v_top v - v_stackbase v), ci_target = 0, ci_ncalls = 1,
                        ci_root = False\<rparr> # v_calls v\<rparr>)
            else (case v_calls v of
                c # cs \<Rightarrow> Some (v\<lparr>v_calls := c\<lparr>ci_ncalls := ci_ncalls c + 1\<rparr> # cs\<rparr>)
              | [] \<Rightarrow> None));
     let v = v\<lparr>v_stackbase := newbase, v_top := newtop\<rparr>;
     if newtop + MIN_STACK_OVERHEAD > int (length (v_stack v)) then
       (if v_nmeta v \<noteq> 0
        then Some (False, raise (EMsg ''stack overflow, cannot resize stack while in a metamethod'') v)
        else Some (True, RelocateOuters (v\<lparr>v_stack := v_stack v @
               replicate (nat (newtop + MIN_STACK_OVERHEAD * 4) - length (v_stack v)) ONull\<rparr>)))
     else Some (True, v)
   }"

definition LeaveFrame :: "vm \<Rightarrow> vm option" where
  "LeaveFrame v =
     (case v_calls v of [] \<Rightarrow> None
      | c # cs \<Rightarrow> do {
          let last_top = v_top v;
          let last_stackbase = v_stackbase v;
          let v = v\<lparr>v_calls := cs, v_stackbase := v_stackbase v - ci_prevstkbase c\<rparr>;
          let v = v\<lparr>v_top := v_stackbase v + ci_prevtop c\<rparr>;
          v \<leftarrow> (if v_openouters v \<noteq> [] then CloseOuters last_stackbase v else Some v);
          null_range (v_top v) last_top v
        })"

text \<open>\<open>Return\<close>: whether the frame was a root, and then the value for the caller's caller.\<close>

definition Return :: "int \<Rightarrow> int \<Rightarrow> vm \<Rightarrow> (bool \<times> lvobj \<times> vm) option" where
  "Return a0 a1 v =
     (case v_calls v of [] \<Rightarrow> None
      | c # cs \<Rightarrow> do {
          let isroot = ci_root c;
          let callerbase = v_stackbase v - ci_prevstkbase c;
          x \<leftarrow> (if (isroot \<or> ci_target c \<noteq> - 1) \<and> a0 \<noteq> 0xFF then at_stack v (v_stackbase v + a1) else Some ONull);
          v \<leftarrow> (if isroot \<or> ci_target c = - 1 then Some v else set_stack (callerbase + ci_target c) x v);
          v \<leftarrow> LeaveFrame v;
          Some (isroot, x, v)
        })"

end
