(* ===== verification/Frames.thy ===== *)
theory Frames
  imports Machine
begin

text \<open>
  The call stack and the outer variables keep their promises: a slot has at most one open outer
  variable, closing outer variables keeps the values seen through them, and leaving a frame restores the
  caller's.
\<close>

section \<open>The list of open outer variables\<close>

fun open_chain :: "vm \<Rightarrow> u64 list \<Rightarrow> bool" where
  "open_chain v [] \<longleftrightarrow> True"
| "open_chain v (p # ps) \<longleftrightarrow>
     (\<exists>i. open_idx v p = Some i \<and> 0 \<le> i \<and> i < int (length (v_stack v)) \<and>
          (\<forall>q \<in> set ps. \<exists>j. open_idx v q = Some j \<and> j < i)) \<and> open_chain v ps"

definition outer_list :: "vm \<Rightarrow> u64 list \<Rightarrow> bool" where
  "outer_list v ps \<longleftrightarrow> open_chain v ps \<and> (\<forall>p. open_idx v p \<noteq> None \<longrightarrow> p \<in> set ps)"

definition outers_ok :: "vm \<Rightarrow> bool" where
  "outers_ok v \<longleftrightarrow> outer_list v (v_openouters v)"

definition heap_ok :: "vm \<Rightarrow> bool" where
  "heap_ok v \<longleftrightarrow> distinct (v_free v) \<and> (\<forall>a \<in> set (v_free v). v_heap v a = None)"

lemma open_idx_put: "open_idx (put p ob v) q = (if q = p then (case ob of HOuter (OpenOuter i) \<Rightarrow> Some i | _ \<Rightarrow> None) else open_idx v q)"
  by (auto simp: open_idx_def put_def)

lemma put_fields [simp]:
  "v_stack (put a ob v) = v_stack v" "v_openouters (put a ob v) = v_openouters v" "v_top (put a ob v) = v_top v"
  "v_stackbase (put a ob v) = v_stackbase v" "v_calls (put a ob v) = v_calls v" "v_free (put a ob v) = v_free v"
  "v_etraps (put a ob v) = v_etraps v" "v_nmeta (put a ob v) = v_nmeta v" "v_nnative (put a ob v) = v_nnative v"
  "v_lasterror (put a ob v) = v_lasterror v" "v_heap (put a ob v) = (v_heap v)(a \<mapsto> ob)"
  by (simp_all add: put_def)

lemma at_stack_cong: "v_stack v = v_stack w \<Longrightarrow> at_stack v i = at_stack w i"
  by (simp add: at_stack_def)

lemma open_idx_cong: "v_heap v = v_heap w \<Longrightarrow> open_idx v i = open_idx w i"
  by (simp add: open_idx_def)

lemma open_chain_cong:
  "(\<And>q. q \<in> set ps \<Longrightarrow> open_idx v q = open_idx w q) \<Longrightarrow> length (v_stack v) = length (v_stack w) \<Longrightarrow>
   open_chain v ps = open_chain w ps"
  by (induction ps) auto

lemma outer_list_cong:
  "v_heap v = v_heap w \<Longrightarrow> length (v_stack v) = length (v_stack w) \<Longrightarrow> outer_list v ps = outer_list w ps"
  using open_chain_cong [of ps v w] open_idx_cong [of v w] by (simp add: outer_list_def)

lemma outer_get_cong: "v_heap v = v_heap w \<Longrightarrow> v_stack v = v_stack w \<Longrightarrow> outer_get v q = outer_get w q"
  by (simp add: outer_get_def at_stack_def split: option.split heap_obj.split lvouter.split)

lemma outer_get_put_closed:
  "open_idx v p = Some j \<Longrightarrow> at_stack v j = Some x \<Longrightarrow>
   outer_get (put p (HOuter (ClosedOuter x)) v) q = outer_get v q"
  by (auto simp: outer_get_def at_stack_def open_idx_def split: option.splits heap_obj.splits lvouter.splits)

lemma open_idx_HOuter: "open_idx v p = Some j \<Longrightarrow> v_heap v p = Some (HOuter (OpenOuter j))"
  by (auto simp: open_idx_def split: option.splits heap_obj.splits lvouter.splits)

definition closed_at :: "int \<Rightarrow> vm \<Rightarrow> vm \<Rightarrow> bool" where
  "closed_at i v v' \<longleftrightarrow>
    (\<exists>h ps. v' = v\<lparr>v_heap := h, v_openouters := ps\<rparr>) \<and> outers_ok v' \<and>
    (\<forall>q j. open_idx v' q = Some j \<longrightarrow> open_idx v q = Some j \<and> j < i) \<and>
    (\<forall>q. outer_get v' q = outer_get v q) \<and>
    (\<forall>q. (\<forall>y. v_heap v q \<noteq> Some (HOuter y)) \<longrightarrow> v_heap v' q = v_heap v q)"

lemma close_loop_ok:
  assumes "outer_list v ps"
  shows "\<exists>v'. close_loop i ps v = Some v' \<and> closed_at i v v'"
  using assms
proof (induction ps arbitrary: v)
  case Nil
  let ?w = "v\<lparr>v_openouters := []\<rparr>"
  have "open_idx v q = None" for q using Nil by (auto simp: outer_list_def)
  then have n: "open_idx ?w q = None" for q by (simp add: open_idx_def)
  have "closed_at i v ?w"
    unfolding closed_at_def
  proof (intro conjI)
    show "\<exists>h ps. ?w = v\<lparr>v_heap := h, v_openouters := ps\<rparr>" by (rule exI [of _ "v_heap v"], rule exI [of _ "[]"]) simp
    show "outers_ok ?w" using n by (simp add: outers_ok_def outer_list_def)
  qed (use n outer_get_cong [of ?w v] in auto)
  then show ?case by simp
next
  case (Cons p ps)
  obtain j where j: "open_idx v p = Some j" "0 \<le> j" "j < int (length (v_stack v))"
    and lt: "\<forall>q \<in> set ps. \<exists>k. open_idx v q = Some k \<and> k < j" and ch: "open_chain v ps"
    using Cons.prems by (auto simp: outer_list_def)
  have all: "open_idx v q \<noteq> None \<Longrightarrow> q = p \<or> q \<in> set ps" for q using Cons.prems by (auto simp: outer_list_def)
  show ?case
  proof (cases "j \<ge> i")
    case False
    let ?w = "v\<lparr>v_openouters := p # ps\<rparr>"
    have o: "open_idx ?w q = open_idx v q" for q by (simp add: open_idx_def)
    have "closed_at i v ?w"
      unfolding closed_at_def
    proof (intro conjI)
      show "\<exists>h ps. ?w = v\<lparr>v_heap := h, v_openouters := ps\<rparr>"
        by (rule exI [of _ "v_heap v"], rule exI [of _ "p # ps"]) simp
      show "outers_ok ?w" using Cons.prems outer_list_cong [of ?w v] by (simp add: outers_ok_def)
      show "\<forall>q k. open_idx ?w q = Some k \<longrightarrow> open_idx v q = Some k \<and> k < i"
      proof (intro allI impI)
        fix q k assume "open_idx ?w q = Some k"
        then have k: "open_idx v q = Some k" by (simp add: o)
        then have "k \<le> j" using all [of q] lt j(1) by force
        then show "open_idx v q = Some k \<and> k < i" using k False by simp
      qed
    qed (use outer_get_cong [of ?w v] in auto)
    then show ?thesis using j False by auto
  next
    case True
    obtain x where x: "at_stack v j = Some x" using j by (simp add: at_stack_def)
    define w where "w = put p (HOuter (ClosedOuter x)) v"
    have pn: "p \<notin> set ps" using lt j(1) by force
    have o: "open_idx w q = (if q = p then None else open_idx v q)" for q by (simp add: w_def open_idx_put)
    have "open_chain w ps" using ch pn o by (subst open_chain_cong [of ps w v]) (auto simp: w_def)
    then have "outer_list w ps" using all o by (auto simp: outer_list_def split: if_splits)
    then obtain v' where v': "close_loop i ps w = Some v'" "closed_at i w v'" using Cons.IH by blast
    have g: "outer_get w q = outer_get v q" for q unfolding w_def by (rule outer_get_put_closed [OF j(1) x])
    have "closed_at i v v'"
      unfolding closed_at_def
    proof (intro conjI)
      show "\<exists>h ps. v' = v\<lparr>v_heap := h, v_openouters := ps\<rparr>"
        using v'(2) by (auto simp: closed_at_def w_def put_def)
      show "outers_ok v'" using v'(2) by (simp add: closed_at_def)
      show "\<forall>q k. open_idx v' q = Some k \<longrightarrow> open_idx v q = Some k \<and> k < i"
        using v'(2) o unfolding closed_at_def by (metis option.distinct(1))
      show "\<forall>q. outer_get v' q = outer_get v q" using v'(2) g by (simp add: closed_at_def)
      show "\<forall>q. (\<forall>y. v_heap v q \<noteq> Some (HOuter y)) \<longrightarrow> v_heap v' q = v_heap v q"
      proof (intro allI impI)
        fix q assume q: "\<forall>y. v_heap v q \<noteq> Some (HOuter y)"
        then have "q \<noteq> p" using open_idx_HOuter [OF j(1)] by blast
        then have "v_heap w q = v_heap v q" by (simp add: w_def)
        then show "v_heap v' q = v_heap v q" using v'(2) q by (simp add: closed_at_def)
      qed
    qed
    then show ?thesis using v'(1) j True x by (auto simp: w_def)
  qed
qed

lemma CloseOuters_ok: "outers_ok v \<Longrightarrow> \<exists>v'. CloseOuters i v = Some v' \<and> closed_at i v v'"
  unfolding CloseOuters_def outers_ok_def by (rule close_loop_ok)

lemma outer_walk_ok:
  assumes "open_chain v ps"
  shows "\<exists>r a b. outer_walk v i ps = Some (r, a, b) \<and> ps = a @ b \<and>
    (\<forall>q \<in> set a. \<exists>j. open_idx v q = Some j \<and> j > i) \<and>
    (case r of Some p \<Rightarrow> open_idx v p = Some i \<and> p \<in> set ps
     | None \<Rightarrow> (\<forall>q \<in> set b. \<exists>j. open_idx v q = Some j \<and> j < i))"
  using assms
proof (induction ps)
  case (Cons p ps)
  then obtain j where j: "open_idx v p = Some j" and lt: "\<forall>q \<in> set ps. \<exists>k. open_idx v q = Some k \<and> k < j"
    by auto
  consider "j = i" | "j > i" | "j < i" by linarith
  then show ?case
  proof cases
    case 2
    obtain r a b where w: "outer_walk v i ps = Some (r, a, b)" "ps = a @ b"
      "\<forall>q \<in> set a. \<exists>j. open_idx v q = Some j \<and> j > i"
      "case r of Some p \<Rightarrow> open_idx v p = Some i \<and> p \<in> set ps
       | None \<Rightarrow> (\<forall>q \<in> set b. \<exists>j. open_idx v q = Some j \<and> j < i)"
      using Cons by auto
    then have "outer_walk v i (p # ps) = Some (r, p # a, b)" using j 2 by simp
    then show ?thesis using w j 2 by (auto split: option.splits)
  next
    case 3
    then have "\<forall>q \<in> set (p # ps). \<exists>k. open_idx v q = Some k \<and> k < i" using j lt by force
    then show ?thesis using j 3 by (auto intro: exI [of _ "None"])
  qed (use j in auto)
qed simp

lemma open_chain_insert:
  assumes "open_chain v (a @ b)" "open_idx v p = Some i" "0 \<le> i" "i < int (length (v_stack v))"
    "\<forall>q \<in> set a. \<exists>j. open_idx v q = Some j \<and> j > i" "\<forall>q \<in> set b. \<exists>j. open_idx v q = Some j \<and> j < i"
  shows "open_chain v (a @ p # b)"
  using assms by (induction a) auto

text \<open>\<open>FindOuter\<close> on a slot of the stack: afterwards exactly one open outer variable stands for the slot.\<close>

lemma FindOuter_ok:
  assumes ok: "outers_ok v" "heap_ok v" and i: "0 \<le> i" "i < int (length (v_stack v))" and f: "v_free v \<noteq> []"
  shows "\<exists>p v'. FindOuter i v = Some (ORef ROuter p, v') \<and> outers_ok v' \<and> heap_ok v' \<and>
    open_idx v' p = Some i \<and> (\<forall>q. open_idx v' q = Some i \<longrightarrow> q = p) \<and>
    (\<exists>h as ps. v' = v\<lparr>v_heap := h, v_free := as, v_openouters := ps\<rparr>) \<and>
    (\<forall>q x. outer_get v q = Some x \<longrightarrow> outer_get v' q = Some x) \<and>
    FindOuter i v' = Some (ORef ROuter p, v')"
proof -
  have ch: "open_chain v (v_openouters v)" and all: "\<And>q. open_idx v q \<noteq> None \<Longrightarrow> q \<in> set (v_openouters v)"
    using ok(1) by (auto simp: outers_ok_def outer_list_def)
  obtain r a b where w: "outer_walk v i (v_openouters v) = Some (r, a, b)" "v_openouters v = a @ b"
    "\<forall>q \<in> set a. \<exists>j. open_idx v q = Some j \<and> j > i"
    and r: "case r of Some p \<Rightarrow> open_idx v p = Some i \<and> p \<in> set (v_openouters v)
       | None \<Rightarrow> (\<forall>q \<in> set b. \<exists>j. open_idx v q = Some j \<and> j < i)"
    using outer_walk_ok [OF ch] by blast
  have uniq: "p = q" if "open_chain w ps" "p \<in> set ps" "q \<in> set ps" "open_idx w p = open_idx w q" for w ps p q
    using that by (induction ps) fastforce+
  show ?thesis
  proof (cases r)
    case (Some p)
    then have p: "open_idx v p = Some i" using r by simp
    have "FindOuter i v = Some (ORef ROuter p, v)" using w(1) Some by (simp add: FindOuter_def)
    moreover have "\<forall>q. open_idx v q = Some i \<longrightarrow> q = p"
    proof (intro allI impI)
      fix q assume q: "open_idx v q = Some i"
      show "q = p" using uniq [OF ch, of q p] all [of q] all [of p] p q by simp
    qed
    moreover have "v = v\<lparr>v_heap := v_heap v, v_free := v_free v, v_openouters := v_openouters v\<rparr>" by simp
    ultimately show ?thesis using ok p by blast
  next
    case None
    obtain p as where fr: "v_free v = p # as" using f by (cases "v_free v") auto
    define v' where "v' = (put p (HOuter (OpenOuter i)) (v\<lparr>v_free := as\<rparr>))\<lparr>v_openouters := a @ p # b\<rparr>"
    have fresh: "v_heap v p = None" using ok(2) fr by (simp add: heap_ok_def)
    then have pn: "open_idx v p = None" by (simp add: open_idx_def)
    have o: "open_idx v' q = (if q = p then Some i else open_idx v q)" for q
      by (simp add: v'_def open_idx_def put_def)
    have pa: "p \<notin> set (a @ b)" using w(3) r None pn by auto
    have F: "FindOuter i v = Some (ORef ROuter p, v')"
      using w(1) None fr by (simp add: FindOuter_def alloc_def v'_def)
    have "open_chain v' (a @ b) = open_chain v (a @ b)"
    proof (rule open_chain_cong)
      show "open_idx v' q = open_idx v q" if "q \<in> set (a @ b)" for q using that pa o [of q] by auto
    qed (simp add: v'_def)
    then have "open_chain v' (a @ b)" using ch w(2) by simp
    then have c': "open_chain v' (a @ p # b)"
      by (rule open_chain_insert) (use o i w(3) r None pa in \<open>auto simp: v'_def\<close>)
    have ok': "outers_ok v'"
      using c' all w(2) o by (auto simp: outers_ok_def outer_list_def v'_def [THEN arg_cong [of _ _ v_openouters]] split: if_splits)
    have "heap_ok v'" using ok(2) fr by (auto simp: heap_ok_def v'_def)
    moreover have "open_idx v' p = Some i" by (simp add: o)
    moreover have "\<forall>q. open_idx v' q = Some i \<longrightarrow> q = p"
    proof (intro allI impI, rule ccontr)
      fix q assume q: "open_idx v' q = Some i" "q \<noteq> p"
      then have "open_idx v q = Some i" by (simp add: o)
      then have "q \<in> set a \<union> set b" using all [of q] w(2) by auto
      then show False using w(3) r None \<open>open_idx v q = Some i\<close> by force
    qed
    moreover have "\<exists>h as ps. v' = v\<lparr>v_heap := h, v_free := as, v_openouters := ps\<rparr>"
      by (rule exI [of _ "(v_heap v)(p \<mapsto> HOuter (OpenOuter i))"], rule exI [of _ as], rule exI [of _ "a @ p # b"])
        (simp add: v'_def put_def)
    moreover have "\<forall>q x. outer_get v q = Some x \<longrightarrow> outer_get v' q = Some x"
      using fresh by (auto simp: outer_get_def v'_def at_stack_def split: option.splits heap_obj.splits lvouter.splits)
    moreover have "FindOuter i v' = Some (ORef ROuter p, v')"
    proof -
      have "outer_walk v' i (a @ p # b) = Some (Some p, a, p # b)"
        using w(3) o pa by (induction a) (auto simp: less_le)
      then show ?thesis by (simp add: FindOuter_def v'_def)
    qed
    ultimately show ?thesis using F ok' by blast
  qed
qed

section \<open>Leaving a frame\<close>

lemma null_range_ok:
  assumes "0 \<le> lo" "hi < int (length (v_stack v))"
  shows "\<exists>s. null_range lo hi v = Some (v\<lparr>v_stack := s\<rparr>) \<and> length s = length (v_stack v) \<and>
    (\<forall>i < length s. s ! i = (if lo \<le> int i \<and> int i \<le> hi then ONull else v_stack v ! i))"
proof (cases "hi < lo")
  case False
  let ?s = "take (nat lo) (v_stack v) @ replicate (nat (hi - lo + 1)) ONull @ drop (nat hi + 1) (v_stack v)"
  have n: "nat lo \<le> length (v_stack v)" "nat hi + 1 \<le> length (v_stack v)"
    "nat lo + nat (hi - lo + 1) = nat hi + 1" using assms False by linarith+
  then have "length ?s = length (v_stack v)" by simp
  moreover have "?s ! i = (if lo \<le> int i \<and> int i \<le> hi then ONull else v_stack v ! i)" if "i < length (v_stack v)" for i
  proof -
    consider "i < nat lo" | "nat lo \<le> i" "i < nat hi + 1" | "nat hi + 1 \<le> i" by linarith
    then show ?thesis
      using n assms False that by cases (auto simp: nth_append)
  qed
  ultimately show ?thesis using assms False by (auto simp: null_range_def)
qed (use assms in \<open>auto simp: null_range_def intro!: exI [of _ "v_stack v"]\<close>)

lemma closed_at_fields:
  "closed_at i v v' \<Longrightarrow> v_stack v' = v_stack v \<and> v_top v' = v_top v \<and> v_stackbase v' = v_stackbase v \<and>
    v_calls v' = v_calls v \<and> v_etraps v' = v_etraps v"
  by (auto simp: closed_at_def)

lemma no_open_closed_at:
  assumes "outers_ok v" "v_openouters v = []"
  shows "closed_at i v v"
proof -
  have "open_idx v q = None" for q using assms by (auto simp: outers_ok_def outer_list_def)
  then show ?thesis using assms(1)
    by (auto simp: closed_at_def intro!: exI [of _ "v_heap v"] exI [of _ "v_openouters v"])
qed

lemma LeaveFrame_ok:
  assumes c: "v_calls v = c # cs" and ok: "outers_ok v" and t: "v_top v < int (length (v_stack v))"
    and lo: "0 \<le> v_stackbase v - ci_prevstkbase c + ci_prevtop c"
    and le: "v_stackbase v \<le> v_stackbase v - ci_prevstkbase c + ci_prevtop c"
  shows "\<exists>v'. LeaveFrame v = Some v' \<and> v_calls v' = cs \<and> v_stackbase v' = v_stackbase v - ci_prevstkbase c \<and>
    v_top v' = v_stackbase v' + ci_prevtop c \<and> outers_ok v' \<and> length (v_stack v') = length (v_stack v) \<and>
    (\<forall>q. outer_get v' q = outer_get v q) \<and> v_etraps v' = v_etraps v \<and>
    (\<forall>q. (\<forall>y. v_heap v q \<noteq> Some (HOuter y)) \<longrightarrow> v_heap v' q = v_heap v q) \<and>
    (\<forall>i. at_stack v' i = (if v_top v' \<le> i \<and> i \<le> v_top v then Some ONull else at_stack v i))"
proof -
  define sb tp where "sb = v_stackbase v - ci_prevstkbase c" and "tp = sb + ci_prevtop c"
  define w where "w = v\<lparr>v_calls := cs, v_stackbase := sb, v_top := tp\<rparr>"
  have wo: "outers_ok w" using ok outer_list_cong [of w v] by (simp add: outers_ok_def w_def)
  obtain u where u: "(if v_openouters w \<noteq> [] then CloseOuters (v_stackbase v) w else Some w) = Some u"
    and cl: "closed_at (v_stackbase v) w u"
    using CloseOuters_ok [OF wo, of "v_stackbase v"] no_open_closed_at [OF wo, of "v_stackbase v"] by (cases "v_openouters w = []") auto
  have us: "v_stack u = v_stack v" "v_top u = tp" "v_stackbase u = sb" "v_calls u = cs" "v_etraps u = v_etraps v"
    using closed_at_fields [OF cl] by (simp_all add: w_def)
  have tp: "0 \<le> tp" "v_stackbase v \<le> tp" using lo le by (simp_all add: tp_def sb_def)
  obtain s where s: "null_range tp (v_top v) u = Some (u\<lparr>v_stack := s\<rparr>)" "length s = length (v_stack v)"
    "\<forall>i < length s. s ! i = (if tp \<le> int i \<and> int i \<le> v_top v then ONull else v_stack v ! i)"
    using null_range_ok [of tp "v_top v" u] tp(1) t us by auto
  define v' where "v' = u\<lparr>v_stack := s\<rparr>"
  have L: "LeaveFrame v = Some v'"
  proof -
    have "LeaveFrame v = (if v_openouters w \<noteq> [] then CloseOuters (v_stackbase v) w else Some w) \<bind>
        (\<lambda>v'. null_range (v_top v') (v_top v) v')"
      using c by (simp add: LeaveFrame_def Let_def w_def sb_def tp_def)
    then show ?thesis unfolding u using s(1) us(2) by (simp add: v'_def)
  qed
  have at: "at_stack v' i = (if tp \<le> i \<and> i \<le> v_top v then Some ONull else at_stack v i)" for i
    using s(2,3) t tp(1) by (auto simp: at_stack_def v'_def)
  have og: "outer_get v' q = outer_get v q" for q
  proof -
    have a: "outer_get u q = outer_get v q"
      using cl outer_get_cong [of w v q] by (simp add: closed_at_def w_def)
    show ?thesis
    proof (cases "open_idx u q")
      case (Some j)
      then have "j < tp" using cl tp(2) by (force simp: closed_at_def)
      moreover have "outer_get v' q = at_stack v' j" "outer_get u q = at_stack u j"
        using open_idx_HOuter [OF Some] by (simp_all add: outer_get_def v'_def)
      ultimately show ?thesis using at [of j] us(1) a by (simp add: at_stack_def)
    next
      case None
      then have "outer_get v' q = outer_get u q"
        by (auto simp: outer_get_def open_idx_def v'_def split: option.splits heap_obj.splits lvouter.splits)
      then show ?thesis using a by simp
    qed
  qed
  have "outers_ok v'"
    using cl outer_list_cong [of v' u] s(2) us(1) by (simp add: closed_at_def outers_ok_def v'_def)
  moreover have "(\<forall>y. v_heap v q \<noteq> Some (HOuter y)) \<longrightarrow> v_heap v' q = v_heap v q" for q
    using cl by (simp add: closed_at_def v'_def w_def)
  ultimately show ?thesis
    using L at og us s(2) by (auto simp: v'_def sb_def tp_def)
qed

lemma int32_id: "- (2 ^ 31) \<le> i \<Longrightarrow> i < 2 ^ 31 \<Longrightarrow> int32 i = i"
  by (simp add: int32_def signed_of_int signed_take_bit_int_eq_self_iff)

text \<open>What a call may do to the frame record on top of the call stack.\<close>

definition same_frame :: "vm \<Rightarrow> vm \<Rightarrow> bool" where
  "same_frame v w \<longleftrightarrow>
     v_stackbase w = v_stackbase v \<and>
     (case (v_calls v, v_calls w) of
        (c # cs, d # ds) \<Rightarrow> ds = cs \<and> ci_prevstkbase d = ci_prevstkbase c \<and> ci_prevtop d = ci_prevtop c
      | _ \<Rightarrow> False)"

lemma EnterFrame_fields:
  assumes "EnterFrame nb nt False v = Some (b, w)"
  shows "v_stackbase w = nb" "v_top w = nt" "v_heap w = v_heap v" "v_openouters w = v_openouters v"
    "\<exists>c. v_calls w = c # v_calls v \<and> ci_prevstkbase c = int32 (nb - v_stackbase v) \<and>
      ci_prevtop c = int32 (v_top v - v_stackbase v)"
    "b \<Longrightarrow> \<exists>ys. v_stack w = v_stack v @ ys" "b \<Longrightarrow> nt + MIN_STACK_OVERHEAD \<le> int (length (v_stack w))"
  using assms
  by (auto simp: EnterFrame_def RelocateOuters_def raise_def MIN_STACK_OVERHEAD_def Let_def split: if_splits)

text \<open>
  C20: when a frame is left, whatever ran in it, the caller's frame is back: call stack, base and top are
  those before the call, the caller's slots are untouched, the slots above are null, and every outer
  variable still has the value it had, whether it was open or closed before.
\<close>

theorem LeaveFrame_restores:
  assumes "EnterFrame newbase newtop False v = Some (True, v1)" "same_frame v1 v2" "outers_ok v2"
    and "v_top v2 < int (length (v_stack v2))" "0 \<le> v_top v" "newbase \<le> v_top v"
    and "\<bar>newbase - v_stackbase v\<bar> < 2 ^ 31" "\<bar>v_top v - v_stackbase v\<bar> < 2 ^ 31"
  shows "\<exists>v3. LeaveFrame v2 = Some v3 \<and> v_calls v3 = v_calls v \<and> v_stackbase v3 = v_stackbase v \<and>
    v_top v3 = v_top v \<and> outers_ok v3 \<and> (\<forall>q. outer_get v3 q = outer_get v2 q) \<and>
    (\<forall>i. at_stack v3 i = (if v_top v \<le> i \<and> i \<le> v_top v2 then Some ONull else at_stack v2 i))"
proof -
  obtain c where c: "v_calls v1 = c # v_calls v" "ci_prevstkbase c = newbase - v_stackbase v"
    "ci_prevtop c = v_top v - v_stackbase v"
    using EnterFrame_fields(5) [OF assms(1)] assms(7,8) int32_id by auto
  obtain d where d: "v_calls v2 = d # v_calls v" "ci_prevstkbase d = newbase - v_stackbase v"
    "ci_prevtop d = v_top v - v_stackbase v" "v_stackbase v2 = newbase"
    using assms(2) c EnterFrame_fields(1) [OF assms(1)] by (auto simp: same_frame_def split: list.splits)
  have "0 \<le> v_stackbase v2 - ci_prevstkbase d + ci_prevtop d"
    "v_stackbase v2 \<le> v_stackbase v2 - ci_prevstkbase d + ci_prevtop d" using assms(5,6) d by simp_all
  from LeaveFrame_ok [OF d(1) assms(3,4) this] show ?thesis using d by auto
qed

definition demo_vm :: "lvobj list \<Rightarrow> vm" where
  "demo_vm s = \<lparr>v_heap = Map.empty, v_free = [16, 32], v_weakrefs = Map.empty, v_stack = s, v_top = 1, v_stackbase = 0,
     v_calls = [], v_openouters = [], v_etraps = [], v_roottable = ONull, v_lasterror = ONull,
     v_errorhandler = ONull, v_temp = ONull, v_nnative = 0, v_nmeta = 0, v_ddel = (\<lambda>_. None),
     v_suspended = False, v_susp_target = - 1, v_susp_root = False, v_susp_traps = 0, v_notifyall = False\<rparr>"

lemma demo_outers_ok: "outers_ok (demo_vm s)" "heap_ok (demo_vm s)"
  by (simp_all add: outers_ok_def outer_list_def open_idx_def demo_vm_def heap_ok_def)

lemma demo_fields [simp]: "v_stack (demo_vm s) = s" "v_free (demo_vm s) = [16, 32]"
  by (simp_all add: demo_vm_def)

theorem LeaveFrame_restores_witness:
  "\<exists>v1 v3. EnterFrame 1 3 False (demo_vm (replicate 20 (OInteger 7))) = Some (True, v1) \<and> LeaveFrame v1 = Some v3 \<and>
    v_top v3 = 1 \<and> at_stack v3 0 = Some (OInteger 7) \<and> at_stack v3 2 = Some ONull"
proof -
  let ?v = "demo_vm (replicate 20 (OInteger 7))"
  obtain v1 where v1: "EnterFrame 1 3 False ?v = Some (True, v1)"
    by (simp add: EnterFrame_def demo_vm_def MIN_STACK_OVERHEAD_def Let_def)
  have f: "v_stackbase v1 = 1" "v_top v1 = 3" "v_heap v1 = Map.empty" "v_openouters v1 = []" "v_stack v1 = replicate 20 (OInteger 7)"
    using v1 by (auto simp: EnterFrame_def demo_vm_def MIN_STACK_OVERHEAD_def Let_def)
  have "same_frame v1 v1"
    using EnterFrame_fields(5) [OF v1] by (auto simp: same_frame_def)
  moreover have "outers_ok v1" by (simp add: outers_ok_def outer_list_def open_idx_def f)
  ultimately obtain v3 where "LeaveFrame v1 = Some v3" "v_top v3 = 1"
    "\<forall>i. at_stack v3 i = (if 1 \<le> i \<and> i \<le> v_top v1 then Some ONull else at_stack v1 i)"
    using LeaveFrame_restores [OF v1, of v1] by (auto simp: f demo_vm_def)
  moreover have "at_stack v1 0 = Some (OInteger 7)" by (simp add: at_stack_def f)
  ultimately show ?thesis using v1 f(2) by auto
qed

text \<open>
  C21: a variable captured twice is captured by the same outer variable: \<open>FindOuter\<close> leaves exactly one
  open outer variable for the slot, returns it again on the next call, changes nothing
  that can be read through the others, and keeps their list in order.
\<close>

theorem FindOuter_shares:
  assumes "outers_ok v" "heap_ok v" "0 \<le> i" "i < int (length (v_stack v))" "v_free v \<noteq> []"
  shows "\<exists>p v'. FindOuter i v = Some (ORef ROuter p, v') \<and> FindOuter i v' = Some (ORef ROuter p, v') \<and>
    outers_ok v' \<and> heap_ok v' \<and> v_stack v' = v_stack v \<and> outer_get v' p = at_stack v i \<and>
    (\<forall>q. open_idx v' q = Some i \<longleftrightarrow> q = p) \<and> (\<forall>q x. outer_get v q = Some x \<longrightarrow> outer_get v' q = Some x)"
proof -
  obtain p v' where p: "FindOuter i v = Some (ORef ROuter p, v')" "outers_ok v'" "heap_ok v'" "open_idx v' p = Some i"
    "\<forall>q. open_idx v' q = Some i \<longrightarrow> q = p" "\<exists>h as ps. v' = v\<lparr>v_heap := h, v_free := as, v_openouters := ps\<rparr>"
    "\<forall>q x. outer_get v q = Some x \<longrightarrow> outer_get v' q = Some x" "FindOuter i v' = Some (ORef ROuter p, v')"
    using FindOuter_ok [OF assms] by blast
  have st: "v_stack v' = v_stack v" using p(6) by auto
  have "outer_get v' p = at_stack v i"
    using open_idx_HOuter [OF p(4)] at_stack_cong [OF st] by (simp add: outer_get_def)
  then show ?thesis using p st by blast
qed

theorem FindOuter_shares_witness:
  "\<exists>p v'. FindOuter 0 (demo_vm [OInteger 7]) = Some (ORef ROuter p, v') \<and> FindOuter 0 v' = Some (ORef ROuter p, v') \<and>
    outer_get v' p = Some (OInteger 7)"
proof -
  have "at_stack (demo_vm [OInteger 7]) 0 = Some (OInteger 7)" by (simp add: at_stack_def)
  then show ?thesis
    using FindOuter_shares [OF demo_outers_ok(1) [of "[OInteger 7]"] demo_outers_ok(2), of 0] by fastforce
qed

text \<open>
  C22: closing the outer variables from a slot upwards keeps the value of each of them, and afterwards no
  write to a slot from there upwards is visible through any of them.
\<close>

theorem CloseOuters_detaches:
  assumes "outers_ok v"
  shows "\<exists>v'. CloseOuters i v = Some v' \<and> outers_ok v' \<and> (\<forall>q. outer_get v' q = outer_get v q) \<and>
    v_stack v' = v_stack v \<and>
    (\<forall>j x w q. i \<le> j \<longrightarrow> set_stack j x v' = Some w \<longrightarrow> outer_get w q = outer_get v q)"
proof -
  obtain v' where v': "CloseOuters i v = Some v'" and cl: "closed_at i v v'" using CloseOuters_ok [OF assms] by blast
  have "outer_get w q = outer_get v q" if "i \<le> j" "set_stack j x v' = Some w" for j x w q
  proof -
    have w: "w = v'\<lparr>v_stack := (v_stack v')[nat j := x]\<rparr>" "0 \<le> j" using set_stack_SomeD [OF that(2)] by auto
    have "outer_get w q = outer_get v' q"
    proof (cases "open_idx v' q")
      case (Some k)
      then have "k \<noteq> j" using cl that(1) by (force simp: closed_at_def)
      then show ?thesis using open_idx_HOuter [OF Some] w by (auto simp: outer_get_def at_stack_def nth_list_update)
    next
      case None
      then show ?thesis
        by (auto simp: outer_get_def open_idx_def w(1) split: option.splits heap_obj.splits lvouter.splits)
    qed
    then show ?thesis using cl by (simp add: closed_at_def)
  qed
  then show ?thesis using v' cl closed_at_fields [OF cl] by (auto simp: closed_at_def)
qed

theorem CloseOuters_detaches_witness:
  "\<exists>v'. CloseOuters 0 (demo_vm [OInteger 7]) = Some v' \<and> v_stack v' = [OInteger 7]"
  using CloseOuters_detaches [OF demo_outers_ok(1) [of "[OInteger 7]"], of 0] by fastforce

text \<open>
  A frame that needs a larger stack while a metamethod runs is refused after it was pushed: the caller
  is told \<open>false\<close>, and the call stack, base and top are those of the refused frame.
\<close>

lemma EnterFrame_refused:
  assumes "v_nmeta v \<noteq> 0" "newtop + MIN_STACK_OVERHEAD > int (length (v_stack v))"
  shows "\<exists>w. EnterFrame newbase newtop False v = Some (False, w) \<and> length (v_calls w) = length (v_calls v) + 1 \<and>
    v_stackbase w = newbase \<and> v_top w = newtop"
  using assms by (simp add: EnterFrame_def Let_def raise_def)

end
