(* ===== verification/Classes.thy ===== *)
theory Classes
  imports Machine
begin

text \<open>
  Classes and instances (\<^verbatim>\<open>src/class.h\<close>, \<^verbatim>\<open>src/class.cpp\<close>): members are found through a table of
  integers that say whether a member is a field or a method and where its value is; an instance keeps its
  own copy of the fields. Reference counts, release hooks and user data are not modelled.
\<close>

section \<open>Metamethods\<close>

datatype metamethod =
    MT_ADD | MT_SUB | MT_MUL | MT_DIV | MT_UNM | MT_MODULO | MT_SET | MT_GET | MT_TYPEOF | MT_NEXTI | MT_CMP
  | MT_CALL | MT_CLONED | MT_NEWSLOT | MT_DELSLOT | MT_TOSTRING | MT_NEWMEMBER | MT_INHERITED

definition mm_list :: "(metamethod \<times> string) list" where
  "mm_list = [(MT_ADD, ''_add''), (MT_SUB, ''_sub''), (MT_MUL, ''_mul''), (MT_DIV, ''_div''), (MT_UNM, ''_unm''),
     (MT_MODULO, ''_modulo''), (MT_SET, ''_set''), (MT_GET, ''_get''), (MT_TYPEOF, ''_typeof''),
     (MT_NEXTI, ''_nexti''), (MT_CMP, ''_cmp''), (MT_CALL, ''_call''), (MT_CLONED, ''_cloned''),
     (MT_NEWSLOT, ''_newslot''), (MT_DELSLOT, ''_delslot''), (MT_TOSTRING, ''_tostring''),
     (MT_NEWMEMBER, ''_newmember''), (MT_INHERITED, ''_inherited'')]"

definition mm_index :: "metamethod \<Rightarrow> nat" where
  "mm_index m = length (takeWhile (\<lambda>(n, s). n \<noteq> m) mm_list)"

definition mm_name :: "metamethod \<Rightarrow> string" where
  "mm_name m = snd (mm_list ! mm_index m)"

text \<open>\<open>GetMetaMethodIdxByName\<close>; \<open>None\<close> is \<open>-1\<close>.\<close>

definition GetMetaMethodIdxByName :: "lvobj \<Rightarrow> nat option" where
  "GetMetaMethodIdxByName key =
     (case key of
        OString s \<Rightarrow> (let i = length (takeWhile (\<lambda>(n, t). t \<noteq> s) mm_list) in if i < 18 then Some i else None)
      | _ \<Rightarrow> None)"

section \<open>Member indices\<close>

definition MEMBER_TYPE_METHOD :: u64 where "MEMBER_TYPE_METHOD = 0x01000000"
definition MEMBER_TYPE_FIELD :: u64 where "MEMBER_TYPE_FIELD = 0x02000000"

definition make_method_idx :: "nat \<Rightarrow> lvobj" where
  "make_method_idx i = OInteger (MEMBER_TYPE_METHOD OR of_nat i)"

definition make_field_idx :: "nat \<Rightarrow> lvobj" where
  "make_field_idx i = OInteger (MEMBER_TYPE_FIELD OR of_nat i)"

fun raw_int :: "lvobj \<Rightarrow> u64" where
  "raw_int (OInteger i) = i"
| "raw_int ob = raw_word ob"

definition isfield :: "lvobj \<Rightarrow> bool" where "isfield ob \<longleftrightarrow> raw_int ob AND MEMBER_TYPE_FIELD \<noteq> 0"

definition ismethod :: "lvobj \<Rightarrow> bool" where "ismethod ob \<longleftrightarrow> raw_int ob AND MEMBER_TYPE_METHOD \<noteq> 0"

definition member_idx :: "lvobj \<Rightarrow> nat" where "member_idx ob = unat (raw_int ob AND 0x00FFFFFF)"

definition nth_opt :: "'a list \<Rightarrow> nat \<Rightarrow> 'a option" where
  "nth_opt xs i = (if i < length xs then Some (xs ! i) else None)"

definition upd_opt :: "nat \<Rightarrow> ('a \<Rightarrow> 'a) \<Rightarrow> 'a list \<Rightarrow> 'a list option" where
  "upd_opt i f xs = (if i < length xs then Some (xs[i := f (xs ! i)]) else None)"

section \<open>Classes\<close>

text \<open>\<open>_members->Get\<close>.\<close>

definition members_get :: "vm \<Rightarrow> lvclass \<Rightarrow> lvobj \<Rightarrow> lvobj option option" where
  "members_get v c key = do { t \<leftarrow> get_table v (cl_members c); table_Get (weak_of v) t key }"

definition class_create :: "u64 option \<Rightarrow> vm \<Rightarrow> (u64 \<times> vm) option" where
  "class_create base v =
     (case base of
        None \<Rightarrow> do {
          (m, v) \<leftarrow> alloc (HTable (table_create 0)) v;
          alloc (HClass \<lparr>cl_members = m, cl_base = None, cl_defaultvalues = [], cl_methods = [],
                   cl_metamethods = replicate 18 ONull, cl_attributes = ONull, cl_abstract = False,
                   cl_locked = False, cl_constructoridx = - 1\<rparr>) v
        }
      | Some b \<Rightarrow> do {
          bc \<leftarrow> get_class v b;
          bt \<leftarrow> get_table v (cl_members bc);
          t \<leftarrow> table_Clone (weak_of v) bt;
          (m, v) \<leftarrow> alloc (HTable t) v;
          alloc (HClass \<lparr>cl_members = m, cl_base = Some b, cl_defaultvalues = cl_defaultvalues bc,
                   cl_methods = cl_methods bc, cl_metamethods = cl_metamethods bc, cl_attributes = ONull,
                   cl_abstract = False, cl_locked = False, cl_constructoridx = cl_constructoridx bc\<rparr>) v
        })"

definition class_Get :: "u64 \<Rightarrow> lvobj \<Rightarrow> vm \<Rightarrow> lvobj option option" where
  "class_Get a key v = do {
     c \<leftarrow> get_class v a;
     r \<leftarrow> members_get v c key;
     (case r of
        None \<Rightarrow> Some None
      | Some i \<Rightarrow>
          if isfield i then do { m \<leftarrow> nth_opt (cl_defaultvalues c) (member_idx i); Some (Some (realval (weak_of v) (m_val m))) }
          else do { m \<leftarrow> nth_opt (cl_methods c) (member_idx i); Some (Some (m_val m)) })
   }"

definition class_GetConstructor :: "u64 \<Rightarrow> vm \<Rightarrow> lvobj option option" where
  "class_GetConstructor a v = do {
     c \<leftarrow> get_class v a;
     if cl_constructoridx c \<noteq> - 1
     then do { m \<leftarrow> nth_opt (cl_methods c) (nat (cl_constructoridx c)); Some (Some (m_val m)) }
     else Some None
   }"

text \<open>\<open>LVClosure::Clone\<close>.\<close>

definition closure_Clone :: "u64 \<Rightarrow> vm \<Rightarrow> (u64 \<times> vm) option" where
  "closure_Clone a v = do {
     c \<leftarrow> get_closure v a;
     alloc (HClosure (c\<lparr>c_base := None\<rparr>)) v
   }"

text \<open>\<open>LVClass::NewSlot\<close> for a member that is no override of a field and no metamethod, kept with the methods.\<close>

definition class_put_method :: "u64 \<Rightarrow> lvclass \<Rightarrow> lvobj option \<Rightarrow> lvobj \<Rightarrow> lvobj \<Rightarrow> vm \<Rightarrow> vm option" where
  "class_put_method a c temp key val v = do {
     (theval, v) \<leftarrow> (case (cl_base c, val) of
         (Some b, ORef RClosure f) \<Rightarrow> do {
           (f', v) \<leftarrow> closure_Clone f v;
           clo \<leftarrow> get_closure v f';
           Some (ORef RClosure f', put f' (HClosure (clo\<lparr>c_base := Some b\<rparr>)) v)
         }
       | _ \<Rightarrow> Some (val, v));
     (case (case temp of Some x \<Rightarrow> x | None \<Rightarrow> ONull) of
        ONull \<Rightarrow> do {
          let c = (if IsEqual (OString ''constructor'') key
                   then c\<lparr>cl_constructoridx := int (length (cl_methods c))\<rparr> else c);
          t \<leftarrow> get_table v (cl_members c);
          (b, t) \<leftarrow> table_NewSlot t key (make_method_idx (length (cl_methods c)));
          let v = put (cl_members c) (HTable t) v;
          Some (put a (HClass (c\<lparr>cl_methods := cl_methods c @ [\<lparr>m_val = theval, m_attrs = ONull\<rparr>]\<rparr>)) v)
        }
      | x \<Rightarrow> do {
          ms \<leftarrow> upd_opt (member_idx x) (\<lambda>m. m\<lparr>m_val := theval\<rparr>) (cl_methods c);
          Some (put a (HClass (c\<lparr>cl_methods := ms\<rparr>)) v)
        })
   }"

definition is_function :: "lvobj \<Rightarrow> bool" where
  "is_function ob \<longleftrightarrow> otype ob = OT_CLOSURE \<or> otype ob = OT_NATIVECLOSURE"

text \<open>The rest of \<open>NewSlot\<close>: a metamethod, a method or static member, or a new field.\<close>

definition class_add :: "u64 \<Rightarrow> lvclass \<Rightarrow> lvobj option \<Rightarrow> lvobj \<Rightarrow> lvobj \<Rightarrow> bool \<Rightarrow> vm \<Rightarrow> (bool \<times> vm) option" where
  "class_add a c temp key val static_table v =
     (if static_table then
        (case (if is_function val then GetMetaMethodIdxByName key else None) of
           Some i \<Rightarrow> Some (True, put a (HClass (c\<lparr>cl_metamethods := (cl_metamethods c)[i := val]\<rparr>)) v)
         | None \<Rightarrow> do { v \<leftarrow> class_put_method a c temp key val v; Some (True, v) })
      else do {
        t \<leftarrow> get_table v (cl_members c);
        (b, t) \<leftarrow> table_NewSlot t key (make_field_idx (length (cl_defaultvalues c)));
        let v = put (cl_members c) (HTable t) v;
        Some (True, put a (HClass (c\<lparr>cl_defaultvalues := cl_defaultvalues c @ [\<lparr>m_val = val, m_attrs = ONull\<rparr>]\<rparr>)) v)
      })"

definition class_NewSlot :: "u64 \<Rightarrow> lvobj \<Rightarrow> lvobj \<Rightarrow> bool \<Rightarrow> vm \<Rightarrow> (bool \<times> vm) option" where
  "class_NewSlot a key val bstatic v = do {
     c \<leftarrow> get_class v a;
     let static_table = (is_function val \<or> bstatic);
     if cl_locked c \<and> \<not> static_table then Some (False, v)
     else do {
       temp \<leftarrow> members_get v c key;
       (case temp of
          Some i \<Rightarrow>
            if isfield i then do {
              ds \<leftarrow> upd_opt (member_idx i) (\<lambda>m. m\<lparr>m_val := val\<rparr>) (cl_defaultvalues c);
              Some (True, put a (HClass (c\<lparr>cl_defaultvalues := ds\<rparr>)) v)
            } else class_add a c temp key val static_table v
        | None \<Rightarrow> class_add a c temp key val static_table v)
     }
   }"

text \<open>\<open>Lock\<close> follows the chain of bases.\<close>

partial_function (option) class_Lock :: "u64 \<Rightarrow> vm \<Rightarrow> vm option" where
  "class_Lock a v = do {
     c \<leftarrow> get_class v a;
     let v = put a (HClass (c\<lparr>cl_locked := True\<rparr>)) v;
     (case cl_base c of None \<Rightarrow> Some v | Some b \<Rightarrow> class_Lock b v)
   }"

definition class_SetAttributes :: "u64 \<Rightarrow> lvobj \<Rightarrow> lvobj \<Rightarrow> vm \<Rightarrow> (bool \<times> vm) option" where
  "class_SetAttributes a key val v = do {
     c \<leftarrow> get_class v a;
     r \<leftarrow> members_get v c key;
     (case r of
        None \<Rightarrow> Some (False, v)
      | Some i \<Rightarrow>
          if isfield i then do {
            ds \<leftarrow> upd_opt (member_idx i) (\<lambda>m. m\<lparr>m_attrs := val\<rparr>) (cl_defaultvalues c);
            Some (True, put a (HClass (c\<lparr>cl_defaultvalues := ds\<rparr>)) v)
          } else do {
            ms \<leftarrow> upd_opt (member_idx i) (\<lambda>m. m\<lparr>m_attrs := val\<rparr>) (cl_methods c);
            Some (True, put a (HClass (c\<lparr>cl_methods := ms\<rparr>)) v)
          })
   }"

definition class_GetAttributes :: "u64 \<Rightarrow> lvobj \<Rightarrow> vm \<Rightarrow> lvobj option option" where
  "class_GetAttributes a key v = do {
     c \<leftarrow> get_class v a;
     r \<leftarrow> members_get v c key;
     (case r of
        None \<Rightarrow> Some None
      | Some i \<Rightarrow> do {
          m \<leftarrow> nth_opt (if isfield i then cl_defaultvalues c else cl_methods c) (member_idx i);
          Some (Some (m_attrs m))
        })
   }"

definition class_Next :: "u64 \<Rightarrow> lvobj \<Rightarrow> vm \<Rightarrow> (nat \<times> lvobj \<times> lvobj) option option" where
  "class_Next a refpos v = do {
     c \<leftarrow> get_class v a;
     t \<leftarrow> get_table v (cl_members c);
     r \<leftarrow> table_Next False (weak_of v) t refpos;
     (case r of
        None \<Rightarrow> Some None
      | Some (idx, k, oval) \<Rightarrow>
          if ismethod oval then do { m \<leftarrow> nth_opt (cl_methods c) (member_idx oval); Some (Some (idx, k, m_val m)) }
          else do { m \<leftarrow> nth_opt (cl_defaultvalues c) (member_idx oval);
                    Some (Some (idx, k, realval (weak_of v) (m_val m))) })
   }"

section \<open>Instances\<close>

text \<open>\<open>LVInstance::Create\<close> and \<open>Clone\<close>; the delegate of an instance is the table of the members.\<close>

definition instance_create :: "u64 \<Rightarrow> vm \<Rightarrow> (u64 \<times> vm) option" where
  "instance_create a v = do {
     c \<leftarrow> get_class v a;
     alloc (HInstance \<lparr>in_class = a, in_values = map m_val (cl_defaultvalues c), in_delegate = Some (cl_members c)\<rparr>) v
   }"

definition instance_Clone :: "u64 \<Rightarrow> vm \<Rightarrow> (u64 \<times> vm) option" where
  "instance_Clone a v = do {
     i \<leftarrow> get_instance v a;
     c \<leftarrow> get_class v (in_class i);
     if length (cl_defaultvalues c) \<le> length (in_values i)
     then alloc (HInstance \<lparr>in_class = in_class i, in_values = take (length (cl_defaultvalues c)) (in_values i),
                   in_delegate = Some (cl_members c)\<rparr>) v
     else None
   }"

definition class_CreateInstance :: "u64 \<Rightarrow> vm \<Rightarrow> (u64 \<times> vm) option" where
  "class_CreateInstance a v = do {
     c \<leftarrow> get_class v a;
     v \<leftarrow> (if \<not> cl_locked c then class_Lock a v else Some v);
     instance_create a v
   }"

definition instance_Get :: "u64 \<Rightarrow> lvobj \<Rightarrow> vm \<Rightarrow> lvobj option option" where
  "instance_Get a key v = do {
     i \<leftarrow> get_instance v a;
     c \<leftarrow> get_class v (in_class i);
     r \<leftarrow> members_get v c key;
     (case r of
        None \<Rightarrow> Some None
      | Some x \<Rightarrow>
          if isfield x then do { y \<leftarrow> nth_opt (in_values i) (member_idx x); Some (Some (realval (weak_of v) y)) }
          else do { m \<leftarrow> nth_opt (cl_methods c) (member_idx x); Some (Some (m_val m)) })
   }"

definition instance_Set :: "u64 \<Rightarrow> lvobj \<Rightarrow> lvobj \<Rightarrow> vm \<Rightarrow> (bool \<times> vm) option" where
  "instance_Set a key val v = do {
     i \<leftarrow> get_instance v a;
     c \<leftarrow> get_class v (in_class i);
     r \<leftarrow> members_get v c key;
     (case r of
        Some x \<Rightarrow>
          if isfield x then do {
            ys \<leftarrow> upd_opt (member_idx x) (\<lambda>_. val) (in_values i);
            Some (True, put a (HInstance (i\<lparr>in_values := ys\<rparr>)) v)
          } else Some (False, v)
      | None \<Rightarrow> Some (False, v))
   }"

definition instance_GetMetaMethod :: "u64 \<Rightarrow> metamethod \<Rightarrow> vm \<Rightarrow> lvobj option option" where
  "instance_GetMetaMethod a mm v = do {
     i \<leftarrow> get_instance v a;
     c \<leftarrow> get_class v (in_class i);
     x \<leftarrow> nth_opt (cl_metamethods c) (mm_index mm);
     Some (if x \<noteq> ONull then Some x else None)
   }"

partial_function (option) instance_of :: "u64 \<Rightarrow> u64 \<Rightarrow> vm \<Rightarrow> bool option" where
  "instance_of parent trg v =
     (if parent = trg then Some True
      else do {
        c \<leftarrow> get_class v parent;
        (case cl_base c of None \<Rightarrow> Some False | Some b \<Rightarrow> instance_of b trg v)
      })"

definition InstanceOf :: "u64 \<Rightarrow> u64 \<Rightarrow> vm \<Rightarrow> bool option" where
  "InstanceOf a trg v = do { i \<leftarrow> get_instance v a; instance_of (in_class i) trg v }"

definition CreateClassInstance :: "u64 \<Rightarrow> vm \<Rightarrow> (u64 \<times> lvobj \<times> vm) option" where
  "CreateClassInstance a v = do {
     (i, v) \<leftarrow> class_CreateInstance a v;
     r \<leftarrow> class_GetConstructor a v;
     Some (i, (case r of Some x \<Rightarrow> x | None \<Rightarrow> ONull), v)
   }"

declare class_Lock.simps [code] instance_of.simps [code]

end
