(* ===== verification/Access.thy ===== *)
theory Access
  imports Classes
begin

text \<open>
  Access to the slots of values (\<^verbatim>\<open>src/vm.cpp\<close>): \<open>Get\<close>, \<open>Set\<close>, \<open>NewSlot\<close>, \<open>NewSlotA\<close>,
  \<open>DeleteSlot\<close> and \<open>Clone\<close> with their fall-backs to delegates, metamethods and the root table; the
  operators with their metamethods; \<open>TypeOf\<close>, \<open>ToString\<close> and \<open>StringCat\<close>. The function \<open>call\<close> stands
  for \<open>LVVM::Call\<close>, which theory \<open>Execute\<close> defines. An operation that writes a result through a reference
  returns whether it succeeded and the value it wrote, if it wrote one; \<open>None\<close> is a run that does not
  end or leaves the program's memory. Arguments are passed by value.
\<close>

type_synonym dres = "(bool \<times> lvobj option \<times> vm) option"
type_synonym bres = "(bool \<times> vm) option"
type_synonym callfn = "lvobj \<Rightarrow> int \<Rightarrow> int \<Rightarrow> bool \<Rightarrow> vm \<Rightarrow> dres"

definition ret :: "lvobj \<Rightarrow> vm \<Rightarrow> dres" where "ret x v = Some (True, Some x, v)"

definition fail_with :: "vm_error \<Rightarrow> vm \<Rightarrow> dres" where "fail_with e v = Some (False, None, raise e v)"

definition bfail :: "vm_error \<Rightarrow> vm \<Rightarrow> bres" where "bfail e v = Some (False, raise e v)"

definition type_name :: "lvobj \<Rightarrow> string" where "type_name ob = IdType2Name (otype ob)"

definition quoted :: "string \<Rightarrow> string" where "quoted s = [CHR 0x27] @ s @ [CHR 0x27]"

section \<open>Delegates and metamethods\<close>

text \<open>\<open>_delegable(o)->_delegate\<close>.\<close>

definition delegate_of :: "vm \<Rightarrow> lvobj \<Rightarrow> u64 option option" where
  "delegate_of v ob =
     (case ob of
        ORef RTable a \<Rightarrow> map_option tdelegate (get_table v a)
      | ORef RInstance a \<Rightarrow> map_option in_delegate (get_instance v a)
      | ORef RUserData a \<Rightarrow> (case v_heap v a of Some (HUserData d) \<Rightarrow> Some d | _ \<Rightarrow> None)
      | _ \<Rightarrow> None)"

definition table_lookup :: "vm \<Rightarrow> u64 \<Rightarrow> lvobj \<Rightarrow> lvobj option option" where
  "table_lookup v a key = do { t \<leftarrow> get_table v a; table_Get (weak_of v) t key }"

text \<open>\<open>GetMetaMethod\<close> of the delegable objects; an instance has its own.\<close>

definition GetMetaMethod :: "vm \<Rightarrow> lvobj \<Rightarrow> metamethod \<Rightarrow> lvobj option option" where
  "GetMetaMethod v ob mm =
     (case ob of
        ORef RInstance a \<Rightarrow> instance_GetMetaMethod a mm v
      | _ \<Rightarrow> do {
          d \<leftarrow> delegate_of v ob;
          (case d of None \<Rightarrow> Some None | Some t \<Rightarrow> table_lookup v t (OString (mm_name mm)))
        })"

definition is_delegable :: "lvobj \<Rightarrow> bool" where "is_delegable ob \<longleftrightarrow> is_delegable_type (otype ob)"

text \<open>\<open>_delegable(o)->_delegate && GetMetaMethod(..)\<close>.\<close>

definition own_metamethod :: "vm \<Rightarrow> lvobj \<Rightarrow> metamethod \<Rightarrow> lvobj option option" where
  "own_metamethod v ob mm = do {
     d \<leftarrow> delegate_of v ob;
     if d = None then Some None else GetMetaMethod v ob mm
   }"

definition CallMetaMethod :: "callfn \<Rightarrow> lvobj \<Rightarrow> nat \<Rightarrow> vm \<Rightarrow> dres" where
  "CallMetaMethod call closure nparams v = do {
     let v = v\<lparr>v_nmeta := v_nmeta v + 1\<rparr>;
     (ok, out, v) \<leftarrow> call closure (int nparams) (v_top v - int nparams) False v;
     v \<leftarrow> PopN nparams (v\<lparr>v_nmeta := v_nmeta v - 1\<rparr>);
     Some (ok, out, v)
   }"

definition push_call :: "callfn \<Rightarrow> lvobj \<Rightarrow> lvobj list \<Rightarrow> vm \<Rightarrow> dres" where
  "push_call call closure args v = do { v \<leftarrow> push_all args v; CallMetaMethod call closure (length args) v }"

section \<open>Operators\<close>

definition of_vres :: "lvobj vres \<Rightarrow> vm \<Rightarrow> dres" where
  "of_vres r v = (case r of VOk x \<Rightarrow> ret x v | VErr e \<Rightarrow> fail_with e v | VTrap \<Rightarrow> None)"

definition no_meta :: "lvobj vres" where "no_meta = VTrap"

fun arith_mm :: "char \<Rightarrow> metamethod" where
  "arith_mm c =
     (if c = CHR ''+'' then MT_ADD else if c = CHR ''-'' then MT_SUB else if c = CHR ''/'' then MT_DIV
      else if c = CHR ''*'' then MT_MUL else if c = CHR ''%'' then MT_MODULO else MT_ADD)"

definition ArithMetaMethod :: "callfn \<Rightarrow> char \<Rightarrow> lvobj \<Rightarrow> lvobj \<Rightarrow> vm \<Rightarrow> dres" where
  "ArithMetaMethod call opc o1 o2 v = do {
     m \<leftarrow> (if is_delegable o1 then own_metamethod v o1 (arith_mm opc) else Some None);
     (case m of
        Some closure \<Rightarrow> push_call call closure [o1, o2] v
      | None \<Rightarrow> fail_with (EMsg (''arith op '' @ [opc] @ '' on between '' @ quoted (type_name o1) @ '' and '' @
                  quoted (type_name o2))) v)
   }"

definition vm_ARITH_OP :: "callfn \<Rightarrow> char \<Rightarrow> lvobj \<Rightarrow> lvobj \<Rightarrow> vm \<Rightarrow> dres" where
  "vm_ARITH_OP call opc o1 o2 v =
     (if is_number o1 \<and> is_number o2 then of_vres (ARITH_OP (\<lambda>_ _ _. no_meta) opc o1 o2) v
      else ArithMetaMethod call opc o1 o2 v)"

text \<open>The macros of the instructions, for \<open>+\<close>, \<open>-\<close>, \<open>*\<close> and for the division.\<close>

definition vm_ARITH :: "callfn \<Rightarrow> char \<Rightarrow> lvobj \<Rightarrow> lvobj \<Rightarrow> vm \<Rightarrow> dres" where
  "vm_ARITH call opc o1 o2 v =
     (if is_number o1 \<and> is_number o2 then of_vres (ARITH_macro (\<lambda>_ _ _. no_meta) opc o1 o2) v
      else vm_ARITH_OP call opc o1 o2 v)"

definition vm_ARITH_NOZERO :: "callfn \<Rightarrow> lvobj \<Rightarrow> lvobj \<Rightarrow> vm \<Rightarrow> dres" where
  "vm_ARITH_NOZERO call o1 o2 v =
     (if is_number o1 \<and> is_number o2 then of_vres (ARITH_NOZERO_macro (\<lambda>_ _ _. no_meta) o1 o2) v
      else vm_ARITH_OP call (CHR ''/'') o1 o2 v)"

definition vm_NEG_OP :: "callfn \<Rightarrow> lvobj \<Rightarrow> vm \<Rightarrow> dres" where
  "vm_NEG_OP call ob v =
     (if is_delegable ob then do {
        m \<leftarrow> own_metamethod v ob MT_UNM;
        (case m of
           Some closure \<Rightarrow> push_call call closure [ob] v
         | None \<Rightarrow> fail_with (EMsg (''attempt to negate a '' @ type_name ob)) v)
      } else of_vres (NEG_OP (\<lambda>_. no_meta) ob) v)"

definition vm_BW_OP :: "nat \<Rightarrow> lvobj \<Rightarrow> lvobj \<Rightarrow> vm \<Rightarrow> dres" where
  "vm_BW_OP opc o1 o2 v = of_vres (BW_OP opc o1 o2) v"

text \<open>\<open>ObjCmp\<close>: the metamethod \<open>_cmp\<close> is asked for two different objects of the same delegable type.\<close>

definition vm_ObjCmp :: "callfn \<Rightarrow> lvobj \<Rightarrow> lvobj \<Rightarrow> vm \<Rightarrow> (int option \<times> vm) option" where
  "vm_ObjCmp call o1 o2 v = do {
     m \<leftarrow> (if otype o1 = otype o2 \<and> o1 \<noteq> o2 \<and> is_delegable o1 then own_metamethod v o1 MT_CMP else Some None);
     (case m of
        None \<Rightarrow>
          (case ObjCmp (\<lambda>_ _. None) o1 o2 of
             VOk r \<Rightarrow> Some (Some r, v) | VErr e \<Rightarrow> Some (None, raise e v) | VTrap \<Rightarrow> None)
      | Some closure \<Rightarrow> do {
          (ok, out, v) \<leftarrow> push_call call closure [o1, o2] v;
          (if ok then
             (case out of
                Some (OInteger r) \<Rightarrow> Some (Some (sint r), v)
              | _ \<Rightarrow> Some (None, raise (EMsg ''_cmp must return an integer'') v))
           else Some (None, v))
        })
   }"

definition vm_CMP_OP :: "callfn \<Rightarrow> cmpop \<Rightarrow> lvobj \<Rightarrow> lvobj \<Rightarrow> vm \<Rightarrow> dres" where
  "vm_CMP_OP call cop o1 o2 v = do {
     (r, v) \<leftarrow> vm_ObjCmp call o1 o2 v;
     (case r of Some x \<Rightarrow> ret (cmp_result cop x) v | None \<Rightarrow> Some (False, None, v))
   }"

definition TypeOf :: "callfn \<Rightarrow> lvobj \<Rightarrow> vm \<Rightarrow> dres" where
  "TypeOf call ob v = do {
     m \<leftarrow> (if is_delegable ob then own_metamethod v ob MT_TYPEOF else Some None);
     (case m of
        Some closure \<Rightarrow> push_call call closure [ob] v
      | None \<Rightarrow> ret (OString (type_name ob)) v)
   }"

section \<open>Texts\<close>

definition text_of :: "lvobj option \<Rightarrow> string" where
  "text_of r = (case r of Some (OString s) \<Rightarrow> s | _ \<Rightarrow> [])"

definition cat_text :: "bool \<Rightarrow> lvobj option \<Rightarrow> string" where
  "cat_text ok r = (if ok then text_of r else [])"

definition indent :: "nat \<Rightarrow> string" where "indent n = concat (replicate n ''  '')"

definition newline :: string where "newline = [CHR 0x0A]"

text \<open>
  \<open>ToString\<close>; \<open>ts\<close> is the recursive call with its indentation. A value whose text fails keeps the text of
  the one before it. The depth bounds the nesting of containers: the code recurses on the C stack, without
  end on a table that contains itself.
\<close>

type_synonym tsfn = "lvobj \<Rightarrow> nat \<Rightarrow> vm \<Rightarrow> dres"

definition ts_default :: "lvobj \<Rightarrow> vm \<Rightarrow> dres" where
  "ts_default ob v = ret (OString (''('' @ type_name ob @ '')'')) v"

definition ts_start :: "bool \<Rightarrow> string" where
  "ts_start arr = (if arr then ''(array) ['' else ''(table) {'') @ newline"

definition ts_next :: "bool \<Rightarrow> u64 \<Rightarrow> lvobj \<Rightarrow> vm \<Rightarrow> (lvobj \<times> lvobj \<times> lvobj) option option" where
  "ts_next arr a refidx v =
     (if arr then do {
        t \<leftarrow> get_array v a;
        nx \<leftarrow> array_Next (weak_of v) t refidx;
        Some (map_option (\<lambda>(idx, key, val). (OInteger idx, key, val)) nx)
      } else do {
        t \<leftarrow> get_table v a;
        nx \<leftarrow> table_Next False (weak_of v) t refidx;
        Some (map_option (\<lambda>(idx, key, val). (OInteger (of_nat idx), key, val)) nx)
      })"

definition ts_item :: "bool \<Rightarrow> nat \<Rightarrow> string \<Rightarrow> bool \<times> lvobj option \<times> vm \<Rightarrow> bool \<times> lvobj option \<times> vm \<Rightarrow> string" where
  "ts_item arr n str k x =
     str @ indent (n + 1) @ (if arr then ''['' else []) @ cat_text (fst k) (fst (snd k)) @
     (if arr then ''] = '' else '' = '') @ cat_text (fst x) (fst (snd x)) @ '','' @ newline"

definition ts_end :: "bool \<Rightarrow> u64 \<Rightarrow> nat \<Rightarrow> string \<Rightarrow> vm \<Rightarrow> dres" where
  "ts_end arr a n str v = do {
     empty \<leftarrow> (if arr then map_option (\<lambda>t. vsize t = 0) (get_array v a)
               else map_option (\<lambda>t. table_CountUsed t = 0) (get_table v a));
     ret (OString (str @ (if empty then indent (n + 1) @ ''(empty)'' @ newline else []) @ indent n @
                   (if arr then '']'' else ''}''))) v
   }"

definition ts_plain :: "lvobj \<Rightarrow> lvobj option" where
  "ts_plain ob =
     (case ob of
        OString s \<Rightarrow> Some ob
      | OFloat f \<Rightarrow> Some (OString (snprintf NUMBER_MAX_CHAR (fmt_g 6 f)))
      | OInteger i \<Rightarrow> Some (OString (snprintf NUMBER_MAX_CHAR (print_int i)))
      | OBool b \<Rightarrow> Some (OString (if b \<noteq> 0 then ''true'' else ''false''))
      | _ \<Rightarrow> None)"

definition ts_meta :: "callfn \<Rightarrow> lvobj \<Rightarrow> vm \<Rightarrow> dres" where
  "ts_meta call ob v = do {
     m \<leftarrow> own_metamethod v ob MT_TOSTRING;
     (case m of
        Some closure \<Rightarrow> do {
          (ok, out, v) \<leftarrow> push_call call closure [ob] v;
          (if ok then (case out of Some (OString s) \<Rightarrow> ret (OString s) v | _ \<Rightarrow> ts_default ob v)
           else Some (False, out, v))
        }
      | None \<Rightarrow> ts_default ob v)
   }"

definition last_out :: "lvobj \<Rightarrow> bool \<times> lvobj option \<times> vm \<Rightarrow> lvobj" where
  "last_out rs r = (case fst (snd r) of Some x \<Rightarrow> x | None \<Rightarrow> rs)"

definition ts_one :: "tsfn \<Rightarrow> bool \<Rightarrow> nat \<Rightarrow> lvobj \<Rightarrow> lvobj \<Rightarrow> lvobj \<Rightarrow> string \<Rightarrow> vm \<Rightarrow> (lvobj \<times> string \<times> vm) option" where
  "ts_one ts arr n key val rs str v = do {
     r \<leftarrow> ts val (n + 1) v;
     k \<leftarrow> ts key 0 (snd (snd r));
     x \<leftarrow> ts (last_out rs r) 0 (snd (snd k));
     Some (last_out rs r, ts_item arr n str k x, snd (snd x))
   }"

partial_function (option) ts_loop ::
  "tsfn \<Rightarrow> bool \<Rightarrow> u64 \<Rightarrow> nat \<Rightarrow> lvobj \<Rightarrow> lvobj \<Rightarrow> string \<Rightarrow> vm \<Rightarrow> dres" where
  "ts_loop ts arr a n refidx rs str v = do {
     nx \<leftarrow> ts_next arr a refidx v;
     (case nx of
        None \<Rightarrow> ts_end arr a n str v
      | Some p \<Rightarrow> do {
          (rs, str, v) \<leftarrow> ts_one ts arr n (fst (snd p)) (snd (snd p)) rs str v;
          ts_loop ts arr a n (fst p) rs str v
        })
   }"

declare ts_loop.simps [code]

primrec ToString_d :: "nat \<Rightarrow> callfn \<Rightarrow> tsfn" where
  "ToString_d 0 call = (\<lambda>ob n v. None)"
| "ToString_d (Suc d) call = (\<lambda>ob n v.
     (case ts_plain ob of
        Some s \<Rightarrow> ret s v
      | None \<Rightarrow>
          (case ob of
             ORef RTable a \<Rightarrow> ts_loop (ToString_d d call) False a n ONull ONull (ts_start False) v
           | ORef RArray a \<Rightarrow> ts_loop (ToString_d d call) True a n ONull ONull (ts_start True) v
           | ORef RWeakRef a \<Rightarrow> do {
               r \<leftarrow> ToString_d d call (weak_of v a) 0 v;
               x \<leftarrow> ToString_d d call (last_out ONull r) 0 (snd (snd r));
               ret (OString (''(weak reference) -> '' @ cat_text (fst x) (fst (snd x)))) (snd (snd x))
             }
           | ORef RUserData a \<Rightarrow> ts_meta call ob v
           | ORef RInstance a \<Rightarrow> ts_meta call ob v
           | _ \<Rightarrow> ts_default ob v)))"

definition TS_DEPTH :: nat where "TS_DEPTH = 1000"

definition ToString :: "callfn \<Rightarrow> lvobj \<Rightarrow> vm \<Rightarrow> dres" where
  "ToString call ob v = ToString_d TS_DEPTH call ob 0 v"

definition StringCat :: "callfn \<Rightarrow> lvobj \<Rightarrow> lvobj \<Rightarrow> vm \<Rightarrow> dres" where
  "StringCat call str ob v = do {
     (ok, a, v) \<leftarrow> ToString call str v;
     if \<not> ok then Some (False, None, v)
     else do {
       (ok, b, v) \<leftarrow> ToString call ob v;
       if \<not> ok then Some (False, None, v) else ret (OString (text_of a @ text_of b)) v
     }
   }"

section \<open>Reading a slot\<close>

definition GET_FLAG_RAW :: u64 where "GET_FLAG_RAW = 1"
definition GET_FLAG_DO_NOT_RAISE_ERROR :: u64 where "GET_FLAG_DO_NOT_RAISE_ERROR = 2"
definition DONT_FALL_BACK :: int where "DONT_FALL_BACK = 666"

text \<open>A search in progress: still looking, or ended with success or failure.\<close>

datatype search = Looking vm | Found lvobj vm | Missed vm

definition idx_miss :: "lvobj \<Rightarrow> u64 \<Rightarrow> vm \<Rightarrow> vm" where
  "idx_miss key flags v = (if flags AND GET_FLAG_DO_NOT_RAISE_ERROR = 0 then raise (EIdx key) v else v)"

definition found_or :: "search \<Rightarrow> lvobj option \<Rightarrow> vm \<Rightarrow> search" where
  "found_or s r v = (case r of Some x \<Rightarrow> Found x v | None \<Rightarrow> s)"

text \<open>The first switch of \<open>Get\<close>: the object's own slots.\<close>

definition Get_own :: "lvobj \<Rightarrow> lvobj \<Rightarrow> u64 \<Rightarrow> vm \<Rightarrow> search option" where
  "Get_own self key flags v =
     (case self of
        ORef RTable a \<Rightarrow> do { r \<leftarrow> table_lookup v a key; Some (found_or (Looking v) r v) }
      | ORef RArray a \<Rightarrow>
          if is_number key then do {
            t \<leftarrow> get_array v a;
            Some (found_or (Missed (idx_miss key flags v)) (array_Get (weak_of v) t (sint (tointeger key))) v)
          } else Some (Looking v)
      | ORef RInstance a \<Rightarrow> do { r \<leftarrow> instance_Get a key v; Some (found_or (Looking v) r v) }
      | ORef RClass a \<Rightarrow> do { r \<leftarrow> class_Get a key v; Some (found_or (Looking v) r v) }
      | OString s \<Rightarrow>
          if is_number key then do {
            let len = int (length s);
            let n = sint (tointeger key);
            let n = (if n < 0 then n + len else n);
            Some (if 0 \<le> n \<and> n < len then Found (OInteger (scast (byte_of (s ! nat n)))) v
                  else Missed (idx_miss key flags v))
          } else Some (Looking v)
      | _ \<Rightarrow> Some (Looking v))"

text \<open>The delegate \<open>FallBackGet\<close> asks first.\<close>

definition Get_delegate :: "lvobj \<Rightarrow> u64 \<Rightarrow> vm \<Rightarrow> u64 option option" where
  "Get_delegate self flags v =
     (if flags AND GET_FLAG_RAW = 0 \<and> (otype self = OT_TABLE \<or> otype self = OT_USERDATA)
      then delegate_of v self else Some None)"

text \<open>\<open>FallBackGet\<close> after the delegate: the metamethod \<open>_get\<close>.\<close>

definition Get_meta :: "callfn \<Rightarrow> lvobj \<Rightarrow> lvobj \<Rightarrow> u64 \<Rightarrow> vm \<Rightarrow> search option" where
  "Get_meta call self key flags v =
     (if flags AND GET_FLAG_RAW = 0 \<and> is_delegable self then do {
        m \<leftarrow> GetMetaMethod v self MT_GET;
        (case m of
           None \<Rightarrow> Some (Looking v)
         | Some closure \<Rightarrow> do {
             v \<leftarrow> push_all [self, key] v;
             let v = v\<lparr>v_nmeta := v_nmeta v + 1\<rparr>;
             (ok, out, v) \<leftarrow> call closure 2 (v_top v - 2) False v;
             v \<leftarrow> PopN 2 v;
             let v = v\<lparr>v_nmeta := v_nmeta v - 1\<rparr>;
             Some (if ok then (case out of Some x \<Rightarrow> Found x v | None \<Rightarrow> Found ONull v)
                   else if v_lasterror v \<noteq> ONull then Missed v else Looking v)
           })
      } else Some (Looking v))"

text \<open>\<open>InvokeDefaultDelegate\<close>: the types that share a default delegate.\<close>

fun ddel_of :: "ltype \<Rightarrow> ltype option" where
  "ddel_of OT_CLASS = Some OT_CLASS"
| "ddel_of OT_TABLE = Some OT_TABLE"
| "ddel_of OT_ARRAY = Some OT_ARRAY"
| "ddel_of OT_STRING = Some OT_STRING"
| "ddel_of OT_INSTANCE = Some OT_INSTANCE"
| "ddel_of OT_INTEGER = Some OT_INTEGER"
| "ddel_of OT_FLOAT = Some OT_INTEGER"
| "ddel_of OT_BOOL = Some OT_INTEGER"
| "ddel_of OT_GENERATOR = Some OT_GENERATOR"
| "ddel_of OT_CLOSURE = Some OT_CLOSURE"
| "ddel_of OT_NATIVECLOSURE = Some OT_CLOSURE"
| "ddel_of OT_THREAD = Some OT_THREAD"
| "ddel_of OT_WEAKREF = Some OT_WEAKREF"
| "ddel_of _ = None"

definition InvokeDefaultDelegate :: "lvobj \<Rightarrow> lvobj \<Rightarrow> vm \<Rightarrow> lvobj option option" where
  "InvokeDefaultDelegate self key v =
     (case ddel_of (otype self) of
        None \<Rightarrow> Some None
      | Some k \<Rightarrow> do { a \<leftarrow> v_ddel v k; table_lookup v a key })"

definition Get_ddel :: "lvobj \<Rightarrow> lvobj \<Rightarrow> u64 \<Rightarrow> vm \<Rightarrow> search option" where
  "Get_ddel self key flags v =
     (if flags AND GET_FLAG_RAW = 0
      then do { r \<leftarrow> InvokeDefaultDelegate self key v; Some (found_or (Looking v) r v) }
      else Some (Looking v))"

text \<open>The root table of the running closure, asked for a free variable.\<close>

definition Get_root :: "int \<Rightarrow> vm \<Rightarrow> lvobj option option" where
  "Get_root selfidx v =
     (if selfidx \<noteq> 0 then Some None
      else (case v_calls v of
          c # cs \<Rightarrow> (case ci_closure c of
              ORef RClosure f \<Rightarrow> do {
                clo \<leftarrow> get_closure v f;
                w \<leftarrow> c_root clo;
                Some (if weak_of v w \<noteq> ONull then Some (weak_of v w) else None)
              }
            | _ \<Rightarrow> None)
        | [] \<Rightarrow> None))"

text \<open>What a nested \<open>Get\<close> leaves: its value, or the search goes on.\<close>

definition resume_search :: "bool \<times> lvobj option \<times> vm \<Rightarrow> search" where
  "resume_search r =
     (case r of (ok, out, v) \<Rightarrow> if ok then Found (case out of Some x \<Rightarrow> x | None \<Rightarrow> ONull) v else Looking v)"

definition search_then :: "(vm \<Rightarrow> search option) \<Rightarrow> search \<Rightarrow> search option" where
  "search_then f s = (case s of Looking v \<Rightarrow> f v | _ \<Rightarrow> Some s)"

definition search_end :: "lvobj \<Rightarrow> u64 \<Rightarrow> search \<Rightarrow> bool \<times> lvobj option \<times> vm" where
  "search_end key flags s =
     (case s of Found x v \<Rightarrow> (True, Some x, v) | Missed v \<Rightarrow> (False, None, v)
      | Looking v \<Rightarrow> (False, None, idx_miss key flags v))"

definition Get_fallback :: "callfn \<Rightarrow> lvobj \<Rightarrow> lvobj \<Rightarrow> u64 \<Rightarrow> search \<Rightarrow> search option" where
  "Get_fallback call self key flags s = do {
     s \<leftarrow> search_then (Get_meta call self key flags) s;
     search_then (Get_ddel self key flags) s
   }"

definition still :: "search \<Rightarrow> vm option" where
  "still s = (case s of Looking v \<Rightarrow> Some v | _ \<Rightarrow> None)"

partial_function (option) vm_Get :: "callfn \<Rightarrow> lvobj \<Rightarrow> lvobj \<Rightarrow> u64 \<Rightarrow> int \<Rightarrow> vm \<Rightarrow> dres" where
  "vm_Get call self key flags selfidx v = do {
     s \<leftarrow> Get_own self key flags v;
     (case still s of
        None \<Rightarrow> Some (search_end key flags s)
      | Some v \<Rightarrow> do {
          d \<leftarrow> Get_delegate self flags v;
          s \<leftarrow> (case d of None \<Rightarrow> Some s
               | Some t \<Rightarrow> do { r \<leftarrow> vm_Get call (ORef RTable t) key 0 DONT_FALL_BACK v; Some (resume_search r) });
          s \<leftarrow> Get_fallback call self key flags s;
          (case still s of
             None \<Rightarrow> Some (search_end key flags s)
           | Some v \<Rightarrow> do {
               w \<leftarrow> Get_root selfidx v;
               (case w of None \<Rightarrow> Some (search_end key flags s)
                | Some rt \<Rightarrow> do {
                    r \<leftarrow> vm_Get call rt key 0 DONT_FALL_BACK v;
                    Some (search_end key flags (resume_search r))
                  })
             })
        })
   }"

declare vm_Get.simps [code]

section \<open>Writing a slot\<close>

definition put_table :: "u64 \<Rightarrow> lvtable \<Rightarrow> vm \<Rightarrow> vm" where "put_table a t v = put a (HTable t) v"

definition table_store :: "u64 \<Rightarrow> lvobj \<Rightarrow> lvobj \<Rightarrow> vm \<Rightarrow> bres" where
  "table_store a key val v = do {
     t \<leftarrow> get_table v a;
     (b, t) \<leftarrow> table_Set t key val;
     Some (b, put_table a t v)
   }"

definition index_error :: "lvobj \<Rightarrow> lvobj \<Rightarrow> vm_error" where
  "index_error self key = EMsg (''indexing '' @ type_name self @ '' with '' @ type_name key)"

text \<open>The first switch of \<open>Set\<close>; \<open>Inl\<close> goes on to the fall-backs.\<close>

definition Set_own :: "lvobj \<Rightarrow> lvobj \<Rightarrow> lvobj \<Rightarrow> vm \<Rightarrow> (vm + bool \<times> vm) option" where
  "Set_own self key val v =
     (case self of
        ORef RTable a \<Rightarrow> do { (b, v) \<leftarrow> table_store a key val v; Some (if b then Inr (True, v) else Inl v) }
      | ORef RInstance a \<Rightarrow> do { (b, v) \<leftarrow> instance_Set a key val v; Some (if b then Inr (True, v) else Inl v) }
      | ORef RArray a \<Rightarrow>
          if \<not> is_number key then Some (Inr (False, raise (index_error self key) v))
          else do {
            t \<leftarrow> get_array v a;
            let (b, t) = array_Set t (sint (tointeger key)) val;
            Some (Inr (if b then (True, put a (HArray t) v) else (False, raise (EIdx key) v)))
          }
      | _ \<Rightarrow> Some (Inr (False, raise (EMsg (''trying to set '' @ quoted (type_name self))) v)))"

text \<open>The metamethod \<open>_set\<close>. When it fails without an error, the three arguments stay on the stack.\<close>

definition Set_meta :: "callfn \<Rightarrow> lvobj \<Rightarrow> lvobj \<Rightarrow> lvobj \<Rightarrow> vm \<Rightarrow> (vm + bool \<times> vm) option" where
  "Set_meta call self key val v = do {
     m \<leftarrow> GetMetaMethod v self MT_SET;
     (case m of
        None \<Rightarrow> Some (Inl v)
      | Some closure \<Rightarrow> do {
          v \<leftarrow> push_all [self, key, val] v;
          let v = v\<lparr>v_nmeta := v_nmeta v + 1\<rparr>;
          (ok, out, v) \<leftarrow> call closure 3 (v_top v - 3) False v;
          (if ok then do { v \<leftarrow> PopN 3 v; Some (Inr (True, v\<lparr>v_nmeta := v_nmeta v - 1\<rparr>)) }
           else if v_lasterror v \<noteq> ONull then do { v \<leftarrow> PopN 3 v; Some (Inr (False, v\<lparr>v_nmeta := v_nmeta v - 1\<rparr>)) }
           else Some (Inl (v\<lparr>v_nmeta := v_nmeta v - 1\<rparr>)))
        })
   }"

definition Set_root :: "lvobj \<Rightarrow> lvobj \<Rightarrow> int \<Rightarrow> vm \<Rightarrow> bres" where
  "Set_root key val selfidx v =
     (if selfidx = 0 then
        (case v_roottable v of
           ORef RTable a \<Rightarrow> do { (b, v) \<leftarrow> table_store a key val v; if b then Some (True, v) else bfail (EIdx key) v }
         | _ \<Rightarrow> None)
      else bfail (EIdx key) v)"

partial_function (option) vm_Set :: "callfn \<Rightarrow> lvobj \<Rightarrow> lvobj \<Rightarrow> lvobj \<Rightarrow> int \<Rightarrow> vm \<Rightarrow> bres" where
  "vm_Set call self key val selfidx v = do {
     s \<leftarrow> Set_own self key val v;
     (case s of
        Inr r \<Rightarrow> Some r
      | Inl v \<Rightarrow> do {
          d \<leftarrow> (if otype self = OT_TABLE then delegate_of v self else Some None);
          s \<leftarrow> (case d of None \<Rightarrow> Some (Inl v)
               | Some t \<Rightarrow> do {
                   r \<leftarrow> vm_Set call (ORef RTable t) key val DONT_FALL_BACK v;
                   Some (if fst r then Inr r else Inl (snd r))
                 });
          s \<leftarrow> (case s of Inr r \<Rightarrow> Some (Inr r) | Inl v \<Rightarrow> Set_meta call self key val v);
          (case s of Inr r \<Rightarrow> Some r | Inl v \<Rightarrow> Set_root key val selfidx v)
        })
   }"

declare vm_Set.simps [code]

section \<open>New slots\<close>

text \<open>The metamethod \<open>_newslot\<close> of a table that does not have the key, or of an instance.\<close>

definition newslot_meta :: "lvobj \<Rightarrow> lvobj \<Rightarrow> vm \<Rightarrow> lvobj option option" where
  "newslot_meta self key v =
     (case self of
        ORef RTable a \<Rightarrow> do {
          r \<leftarrow> table_lookup v a key;
          if r = None then own_metamethod v self MT_NEWSLOT else Some None
        }
      | _ \<Rightarrow> own_metamethod v self MT_NEWSLOT)"

definition vm_NewSlot :: "callfn \<Rightarrow> lvobj \<Rightarrow> lvobj \<Rightarrow> lvobj \<Rightarrow> bool \<Rightarrow> vm \<Rightarrow> bres" where
  "vm_NewSlot call self key val bstatic v =
     (if key = ONull then bfail (EMsg ''null cannot be used as index'') v
      else (case self of
        ORef RTable a \<Rightarrow> do {
          m \<leftarrow> newslot_meta self key v;
          (case m of
             Some closure \<Rightarrow> do { (ok, _, v) \<leftarrow> push_call call closure [self, key, val] v; Some (ok, v) }
           | None \<Rightarrow> do {
               t \<leftarrow> get_table v a;
               (b, t) \<leftarrow> table_NewSlot t key val;
               Some (True, put_table a t v)
             })
        }
      | ORef RInstance a \<Rightarrow> do {
          m \<leftarrow> newslot_meta self key v;
          (case m of
             Some closure \<Rightarrow> do { (ok, _, v) \<leftarrow> push_call call closure [self, key, val] v; Some (ok, v) }
           | None \<Rightarrow> bfail (EMsg ''class instances do not support the new slot operator'') v)
        }
      | ORef RClass a \<Rightarrow> do {
          (b, v) \<leftarrow> class_NewSlot a key val bstatic v;
          if b then Some (True, v)
          else do {
            c \<leftarrow> get_class v a;
            if cl_locked c then bfail (EMsg ''trying to modify a class that has already been instantiated'') v
            else bfail (EThrown (error_text 32 (''the property '' @ quoted (str_arg (PrintObjVal key)) @ '' already exists''))) v
          }
        }
      | _ \<Rightarrow> bfail (index_error self key) v))"

definition vm_NewSlotA :: "callfn \<Rightarrow> lvobj \<Rightarrow> lvobj \<Rightarrow> lvobj \<Rightarrow> lvobj \<Rightarrow> bool \<Rightarrow> bool \<Rightarrow> vm \<Rightarrow> bres" where
  "vm_NewSlotA call self key val attrs bstatic raw v =
     (case self of
        ORef RClass a \<Rightarrow> do {
          c \<leftarrow> get_class v a;
          mm \<leftarrow> nth_opt (cl_metamethods c) (mm_index MT_NEWMEMBER);
          if \<not> raw \<and> mm \<noteq> ONull then do {
            (ok, _, v) \<leftarrow> push_call call mm [self, key, val, attrs, of_bool_obj bstatic] v;
            Some (ok, v)
          } else do {
            (b, v) \<leftarrow> vm_NewSlot call self key val bstatic v;
            if \<not> b then Some (False, v)
            else if attrs \<noteq> ONull then do { (_, v) \<leftarrow> class_SetAttributes a key attrs v; Some (True, v) }
            else Some (True, v)
          }
        }
      | _ \<Rightarrow> bfail (EMsg ''object must be a class'') v)"

definition vm_DeleteSlot :: "callfn \<Rightarrow> lvobj \<Rightarrow> lvobj \<Rightarrow> vm \<Rightarrow> dres" where
  "vm_DeleteSlot call self key v =
     (if is_delegable self then do {
        m \<leftarrow> own_metamethod v self MT_DELSLOT;
        (case m of
           Some closure \<Rightarrow> push_call call closure [self, key] v
         | None \<Rightarrow>
             (case self of
                ORef RTable a \<Rightarrow> do {
                  t \<leftarrow> get_table v a;
                  r \<leftarrow> table_Get (weak_of v) t key;
                  (case r of
                     Some x \<Rightarrow> do { t \<leftarrow> table_Remove t key; ret x (put_table a t v) }
                   | None \<Rightarrow> fail_with (EIdx key) v)
                }
              | _ \<Rightarrow> fail_with (EMsg (''cannot delete a slot from '' @ type_name self)) v))
      } else fail_with (EMsg (''attempt to delete a slot from a '' @ type_name self)) v)"

section \<open>Cloning, and operators on a slot\<close>

definition clone_meta :: "callfn \<Rightarrow> lvobj \<Rightarrow> lvobj \<Rightarrow> vm \<Rightarrow> dres" where
  "clone_meta call newobj self v = do {
     m \<leftarrow> own_metamethod v newobj MT_CLONED;
     (case m of
        Some closure \<Rightarrow> do {
          (ok, _, v) \<leftarrow> push_call call closure [newobj, self] v;
          if ok then ret newobj v else Some (False, None, v)
        }
      | None \<Rightarrow> ret newobj v)
   }"

definition vm_Clone :: "callfn \<Rightarrow> lvobj \<Rightarrow> vm \<Rightarrow> dres" where
  "vm_Clone call self v =
     (case self of
        ORef RTable a \<Rightarrow> do {
          t \<leftarrow> get_table v a;
          t \<leftarrow> table_Clone (weak_of v) t;
          (b, v) \<leftarrow> alloc (HTable t) v;
          clone_meta call (ORef RTable b) self v
        }
      | ORef RInstance a \<Rightarrow> do {
          (b, v) \<leftarrow> instance_Clone a v;
          clone_meta call (ORef RInstance b) self v
        }
      | ORef RArray a \<Rightarrow> do {
          t \<leftarrow> get_array v a;
          t \<leftarrow> array_Clone t;
          (b, v) \<leftarrow> alloc (HArray t) v;
          ret (ORef RArray b) v
        }
      | _ \<Rightarrow> fail_with (EMsg (''cloning a '' @ type_name self)) v)"

definition DerefInc :: "callfn \<Rightarrow> char \<Rightarrow> lvobj \<Rightarrow> lvobj \<Rightarrow> lvobj \<Rightarrow> bool \<Rightarrow> int \<Rightarrow> vm \<Rightarrow> dres" where
  "DerefInc call opc self key incr postfix selfidx v = do {
     (ok, tmp, v) \<leftarrow> vm_Get call self key 0 selfidx v;
     if \<not> ok then Some (False, None, v)
     else do {
       let tmp = (case tmp of Some x \<Rightarrow> x | None \<Rightarrow> ONull);
       (ok, trg, v) \<leftarrow> vm_ARITH_OP call opc tmp incr v;
       if \<not> ok then Some (False, trg, v)
       else do {
         let target = (case trg of Some x \<Rightarrow> x | None \<Rightarrow> ONull);
         (ok, v) \<leftarrow> vm_Set call self key target selfidx v;
         Some (ok, Some (if ok \<and> postfix then tmp else target), v)
       }
     }
   }"

text \<open>\<open>PLOCAL_INC\<close>: the old value for the target and the new one for the variable.\<close>

definition PLOCAL_INC :: "callfn \<Rightarrow> char \<Rightarrow> lvobj \<Rightarrow> lvobj \<Rightarrow> vm \<Rightarrow> ((lvobj \<times> lvobj) option \<times> vm) option" where
  "PLOCAL_INC call opc a incr v = do {
     (ok, trg, v) \<leftarrow> vm_ARITH_OP call opc a incr v;
     Some (if ok then Some (a, (case trg of Some x \<Rightarrow> x | None \<Rightarrow> ONull)) else None, v)
   }"

end
