(* ===== verification/Calls.thy ===== *)
theory Calls
  imports Access Interning
begin

text \<open>
  Calls (\<^verbatim>\<open>src/vm.cpp\<close>): \<open>StartCall\<close> with variable and default parameters, \<open>CallNative\<close> with its checks,
  generators (\<^verbatim>\<open>src/object.cpp\<close>), and the operations \<open>CLOSURE_OP\<close>, \<open>CLASS_OP\<close> and \<open>FOREACH_OP\<close>.
  A native function is an argument of the model: \<open>native\<close> gives its result and its effect on the machine.
  Growing the array of frames is not modelled, so a frame is known by its depth.
\<close>

type_synonym nativefn = "callfn \<Rightarrow> u64 \<Rightarrow> vm \<Rightarrow> (int \<times> vm) option"

definition MAX_NATIVE_CALLS :: int where "MAX_NATIVE_CALLS = 100"
definition SUSPEND_FLAG :: int where "SUSPEND_FLAG = - 666"

text \<open>The running frame, \<open>ci\<close>.\<close>

definition ci :: "vm \<Rightarrow> callinfo option" where
  "ci v = (case v_calls v of c # cs \<Rightarrow> Some c | [] \<Rightarrow> None)"

definition set_ci :: "(callinfo \<Rightarrow> callinfo) \<Rightarrow> vm \<Rightarrow> vm option" where
  "set_ci f v = (case v_calls v of c # cs \<Rightarrow> Some (v\<lparr>v_calls := f c # cs\<rparr>) | [] \<Rightarrow> None)"

definition ci_lvclosure :: "vm \<Rightarrow> lvclosure option" where
  "ci_lvclosure v = do {
     c \<leftarrow> ci v;
     (case ci_closure c of ORef RClosure a \<Rightarrow> get_closure v a | _ \<Rightarrow> None)
   }"

definition ci_proto :: "vm \<Rightarrow> funcproto option" where
  "ci_proto v = do { clo \<leftarrow> ci_lvclosure v; get_proto v (c_function clo) }"

text \<open>\<open>ci->_literals[i]\<close>.\<close>

definition literal :: "vm \<Rightarrow> int \<Rightarrow> lvobj option" where
  "literal v i = do { f \<leftarrow> ci_proto v; if 0 \<le> i then nth_opt (p_literals f) (nat i) else None }"

section \<open>Generators\<close>

definition is_refcounted_obj :: "lvobj \<Rightarrow> bool" where "is_refcounted_obj ob \<longleftrightarrow> is_refcounted (otype ob)"

text \<open>Stack slots from \<open>i\<close> upwards, read and written.\<close>

fun read_slots :: "vm \<Rightarrow> int \<Rightarrow> nat \<Rightarrow> lvobj list option" where
  "read_slots v i 0 = Some []"
| "read_slots v i (Suc n) = do { x \<leftarrow> at_stack v i; xs \<leftarrow> read_slots v (i + 1) n; Some (x # xs) }"

fun write_slots :: "int \<Rightarrow> lvobj list \<Rightarrow> vm \<Rightarrow> vm option" where
  "write_slots i [] v = Some v"
| "write_slots i (x # xs) v = do { v \<leftarrow> set_stack i x v; write_slots (i + 1) xs v }"

definition shift_trap :: "int \<Rightarrow> exctrap \<Rightarrow> exctrap" where
  "shift_trap d t = t\<lparr>et_stackbase := et_stackbase t + d, et_stacksize := et_stacksize t + d\<rparr>"

text \<open>Moving \<open>n\<close> traps from the top of one stack to the other; the head of a list is the top.\<close>

fun move_traps :: "int \<Rightarrow> nat \<Rightarrow> exctrap list \<Rightarrow> exctrap list \<Rightarrow> (exctrap list \<times> exctrap list) option" where
  "move_traps d 0 src dst = Some (src, dst)"
| "move_traps d (Suc n) src dst =
     (case src of [] \<Rightarrow> None | t # ts \<Rightarrow> move_traps d n ts (shift_trap d t # dst))"

definition resize_with :: "nat \<Rightarrow> lvobj list \<Rightarrow> lvobj list" where
  "resize_with n xs = take n xs @ replicate (n - length xs) ONull"

definition Yield :: "u64 \<Rightarrow> nat \<Rightarrow> vm \<Rightarrow> bres" where
  "Yield ga trg v = do {
     g \<leftarrow> get_generator v ga;
     (case g_state g of
        eSuspended \<Rightarrow> bfail (EMsg ''internal vm error, yielding dead generator'') v
      | eDead \<Rightarrow> bfail (EMsg ''internal vm error, yielding a dead generator'') v
      | eRunning \<Rightarrow> do {
          let size = v_top v - v_stackbase v;
          if size \<le> 0 \<or> size < int trg then None
          else do {
            this \<leftarrow> at_stack v (v_stackbase v);
            (w, v) \<leftarrow> (if is_refcounted_obj this then GetWeakRef this v else Some (this, v));
            xs \<leftarrow> read_slots v (v_stackbase v + 1) (trg - 1);
            let stk = resize_with (nat size) (g_stack g);
            let stk = w # xs @ drop (1 + (trg - 1)) stk;
            v \<leftarrow> null_range (v_stackbase v) (v_stackbase v + size - 1) v;
            c \<leftarrow> ci v;
            (ts, gts) \<leftarrow> move_traps (- v_stackbase v) (nat (ci_etraps c)) (v_etraps v) (g_etraps g);
            let g = g\<lparr>g_stack := stk, g_ci := c\<lparr>ci_generator := None\<rparr>, g_etraps := gts, g_state := eSuspended\<rparr>;
            Some (True, put ga (HGenerator g) (v\<lparr>v_etraps := ts\<rparr>))
          }
        })
   }"

definition Resume :: "u64 \<Rightarrow> int \<Rightarrow> vm \<Rightarrow> bres" where
  "Resume ga trg v = do {
     g \<leftarrow> get_generator v ga;
     (case g_state g of
        eDead \<Rightarrow> bfail (EMsg ''resuming dead generator'') v
      | eRunning \<Rightarrow> bfail (EMsg ''resuming active generator'') v
      | eSuspended \<Rightarrow>
          if trg < 0 \<or> 255 < trg then None
          else do {
            let size = length (g_stack g);
            let newbase = v_top v;
            (b, v) \<leftarrow> EnterFrame newbase (newbase + int size) False v;
            if \<not> b then Some (False, v)
            else do {
              let k = g_ci g;
              v \<leftarrow> set_ci (\<lambda>c. c\<lparr>ci_generator := Some ga, ci_target := trg, ci_closure := ci_closure k, ci_ip := ci_ip k,
                             ci_ncalls := ci_ncalls k, ci_etraps := ci_etraps k, ci_root := ci_root k\<rparr>) v;
              (gts, ts) \<leftarrow> move_traps newbase (nat (ci_etraps k)) (g_etraps g) (v_etraps v);
              let v = v\<lparr>v_etraps := ts\<rparr>;
              this \<leftarrow> nth_opt (g_stack g) 0;
              v \<leftarrow> set_stack newbase (realval (weak_of v) this) v;
              v \<leftarrow> write_slots (newbase + 1) (drop 1 (g_stack g)) v;
              let g = g\<lparr>g_stack := this # replicate (size - 1) ONull, g_etraps := gts, g_state := eRunning\<rparr>;
              Some (True, put ga (HGenerator g) v)
            }
          })
   }"

definition Kill :: "u64 \<Rightarrow> vm \<Rightarrow> vm option" where
  "Kill ga v = do {
     g \<leftarrow> get_generator v ga;
     Some (put ga (HGenerator (g\<lparr>g_state := eDead, g_stack := [], g_closure := ONull\<rparr>)) v)
   }"

section \<open>Calling a closure\<close>

text \<open>The variable parameters: the surplus arguments become an array.\<close>

definition pack_varargs :: "int \<Rightarrow> nat \<Rightarrow> vm \<Rightarrow> vm option" where
  "pack_varargs pbase n v = do {
     xs \<leftarrow> read_slots v pbase n;
     v \<leftarrow> write_slots pbase (replicate n ONull) v;
     arr \<leftarrow> array_Create n;
     (a, v) \<leftarrow> alloc (HArray (arr\<lparr>vvals := xs\<rparr>)) v;
     set_stack pbase (ORef RArray a) v
   }"

definition bind_params :: "lvclosure \<Rightarrow> funcproto \<Rightarrow> nat \<Rightarrow> int \<Rightarrow> vm \<Rightarrow> bres" where
  "bind_params clo f nargs sb v =
     (let np = length (p_parameters f); ndef = length (p_defaultparams f) in
      if p_varparams f then
        (if int nargs < int np - 1 then bfail (EMsg ''wrong number of parameters'') v
         else do { v \<leftarrow> pack_varargs (sb + int np - 1) (nat (int nargs - (int np - 1))) v; Some (True, v) })
      else if np \<noteq> nargs then
        (if ndef \<noteq> 0 \<and> nargs < np \<and> np - nargs \<le> ndef then do {
           v \<leftarrow> write_slots (sb + int nargs) (drop (ndef - (np - nargs)) (c_defaultparams clo)) v;
           Some (True, v)
         } else bfail (EMsg ''wrong number of parameters'') v)
      else Some (True, v))"

definition start_generator :: "u64 \<Rightarrow> funcproto \<Rightarrow> int \<Rightarrow> vm \<Rightarrow> bres" where
  "start_generator a f trg v = do {
     (ga, v) \<leftarrow> alloc (HGenerator \<lparr>g_closure = ORef RClosure a, g_stack = [],
        g_ci = \<lparr>ci_ip = 0, ci_closure = ONull, ci_generator = None, ci_etraps = 0, ci_prevstkbase = 0,
          ci_prevtop = 0, ci_target = 0, ci_ncalls = 0, ci_root = False\<rparr>, g_etraps = [], g_state = eRunning\<rparr>) v;
     (b, v) \<leftarrow> Yield ga (nat (p_stacksize f)) v;
     if \<not> b then Some (False, v)
     else do {
       (_, _, v) \<leftarrow> Return 1 trg v;
       v \<leftarrow> set_stk trg (ORef RGenerator ga) v;
       Some (True, v)
     }
   }"

definition StartCall :: "u64 \<Rightarrow> int \<Rightarrow> nat \<Rightarrow> int \<Rightarrow> bool \<Rightarrow> vm \<Rightarrow> bres" where
  "StartCall a trg nargs sb tailcall v = do {
     clo \<leftarrow> get_closure v a;
     f \<leftarrow> get_proto v (c_function clo);
     (b, v) \<leftarrow> bind_params clo f nargs sb v;
     if \<not> b then Some (False, v)
     else do {
       v \<leftarrow> (case c_env clo of None \<Rightarrow> Some v | Some w \<Rightarrow> set_stack sb (weak_of v w) v);
       (b, v) \<leftarrow> EnterFrame sb (sb + p_stacksize f) tailcall v;
       if \<not> b then Some (False, v)
       else do {
         v \<leftarrow> set_ci (\<lambda>c. c\<lparr>ci_closure := ORef RClosure a, ci_ip := 0, ci_target := int32 trg\<rparr>) v;
         if p_bgenerator f then start_generator a f trg v else Some (True, v)
       }
     }
   }"

section \<open>Native functions\<close>

fun check_types :: "nat \<Rightarrow> u64 list \<Rightarrow> lvobj list \<Rightarrow> vm_error option" where
  "check_types i (m # ms) (x # xs) =
     (if m \<noteq> - 1 \<and> ucast (type_tag (otype x)) AND m = 0 then Some (EParamType i m (otype x))
      else check_types (i + 1) ms xs)"
| "check_types i _ _ = None"

definition native_arity_ok :: "int \<Rightarrow> int \<Rightarrow> bool" where
  "native_arity_ok np nargs \<longleftrightarrow> \<not> (np \<noteq> 0 \<and> (np > 0 \<and> np \<noteq> nargs \<or> np < 0 \<and> nargs < - np))"

text \<open>The result has one more component: whether the function asks to suspend the machine.\<close>

definition CallNative :: "nativefn \<Rightarrow> callfn \<Rightarrow> u64 \<Rightarrow> nat \<Rightarrow> int \<Rightarrow> vm \<Rightarrow> (bool \<times> lvobj option \<times> bool \<times> vm) option" where
  "CallNative native call a nargs newbase v = do {
     nc \<leftarrow> get_native v a;
     let newtop = newbase + int nargs + int (length (n_outervalues nc));
     if v_nnative v + 1 > MAX_NATIVE_CALLS then Some (False, None, False, raise (EMsg ''Native stack overflow'') v)
     else if \<not> native_arity_ok (n_nparamscheck nc) (int nargs)
     then Some (False, None, False, raise (EMsg ''wrong number of parameters'') v)
     else do {
       xs \<leftarrow> read_slots v newbase (min nargs (length (n_typecheck nc)));
       (case check_types 0 (n_typecheck nc) xs of
          Some e \<Rightarrow> Some (False, None, False, raise e v)
        | None \<Rightarrow> do {
            (b, v) \<leftarrow> EnterFrame newbase newtop False v;
            if \<not> b then Some (False, None, False, v)
            else do {
              v \<leftarrow> set_ci (\<lambda>c. c\<lparr>ci_closure := ORef RNativeClosure a\<rparr>) v;
              v \<leftarrow> write_slots (newbase + int nargs) (n_outervalues nc) v;
              v \<leftarrow> (case n_env nc of None \<Rightarrow> Some v | Some w \<Rightarrow> set_stack newbase (weak_of v w) v);
              (r, v) \<leftarrow> native call (n_function nc) (v\<lparr>v_nnative := v_nnative v + 1\<rparr>);
              let v = v\<lparr>v_nnative := v_nnative v - 1\<rparr>;
              if r < 0 \<and> r \<noteq> SUSPEND_FLAG then do { v \<leftarrow> LeaveFrame v; Some (False, None, False, v) }
              else do {
                x \<leftarrow> (if r \<noteq> 0 then at_stack v (v_top v - 1) else Some ONull);
                v \<leftarrow> LeaveFrame v;
                Some (True, Some x, r = SUSPEND_FLAG, v)
              }
            }
          })
     }
   }"

definition CallErrorHandler :: "callfn \<Rightarrow> lvobj \<Rightarrow> vm \<Rightarrow> vm option" where
  "CallErrorHandler call err v =
     (if v_errorhandler v \<noteq> ONull then do {
        v \<leftarrow> push_all [v_roottable v, err] v;
        (_, _, v) \<leftarrow> call (v_errorhandler v) 2 (v_top v - 2) False v;
        PopN 2 v
      } else Some v)"

section \<open>Closures and classes\<close>

fun make_outers :: "lvobj list \<Rightarrow> outervar list \<Rightarrow> vm \<Rightarrow> (lvobj list \<times> vm) option" where
  "make_outers cur [] v = Some ([], v)"
| "make_outers cur (w # ws) v = do {
     (x, v) \<leftarrow> (case ov_type w of
         otLOCAL \<Rightarrow> FindOuter (v_stackbase v + sint (raw_int (ov_src w))) v
       | otOUTER \<Rightarrow> do { x \<leftarrow> nth_opt cur (unat (raw_int (ov_src w))); Some (x, v) });
     (xs, v) \<leftarrow> make_outers cur ws v;
     Some (x # xs, v)
   }"

fun read_relative :: "vm \<Rightarrow> int list \<Rightarrow> lvobj list option" where
  "read_relative v [] = Some []"
| "read_relative v (i # is') = do { x \<leftarrow> stk v i; xs \<leftarrow> read_relative v is'; Some (x # xs) }"

text \<open>The new closure is not reachable before it is complete, so it is put into the heap last.\<close>

definition CLOSURE_OP :: "u64 \<Rightarrow> vm \<Rightarrow> dres" where
  "CLOSURE_OP fa v = do {
     f \<leftarrow> get_proto v fa;
     (w, v) \<leftarrow> GetWeakRef (v_roottable v) v;
     cur \<leftarrow> (if p_outervalues f = [] then Some [] else map_option c_outervalues (ci_lvclosure v));
     (os, v) \<leftarrow> make_outers cur (p_outervalues f) v;
     ds \<leftarrow> read_relative v (p_defaultparams f);
     (a, v) \<leftarrow> alloc (HClosure \<lparr>c_env = None, c_root = Some (raw_word w), c_base = None, c_function = fa,
        c_outervalues = os, c_defaultparams = ds\<rparr>) v;
     ret (ORef RClosure a) v
   }"

definition set_class :: "(lvclass \<Rightarrow> lvclass) \<Rightarrow> lvobj \<Rightarrow> vm \<Rightarrow> vm option" where
  "set_class f ob v =
     (case ob of
        ORef RClass a \<Rightarrow> do { c \<leftarrow> get_class v a; Some (put a (HClass (f c)) v) }
      | _ \<Rightarrow> None)"

definition class_done :: "int \<Rightarrow> bool \<Rightarrow> vm \<Rightarrow> bres" where
  "class_done a0 abstract v = do {
     ob \<leftarrow> stk v a0;
     v \<leftarrow> (if abstract then set_class (\<lambda>c. c\<lparr>cl_abstract := True\<rparr>) ob v else Some v);
     v \<leftarrow> set_class (\<lambda>c. c\<lparr>cl_attributes := ONull\<rparr>) ob v;
     Some (True, v)
   }"

definition class_derive :: "callfn \<Rightarrow> int \<Rightarrow> u64 option \<Rightarrow> bool \<Rightarrow> vm \<Rightarrow> bres" where
  "class_derive call a0 base abstract v = do {
     (a, v) \<leftarrow> class_create base v;
     v \<leftarrow> set_stk a0 (ORef RClass a) v;
     c \<leftarrow> get_class v a;
     mm \<leftarrow> nth_opt (cl_metamethods c) (mm_index MT_INHERITED);
     if mm \<noteq> ONull then do {
       v \<leftarrow> push_all [ORef RClass a, ONull] v;
       (ok, _, v) \<leftarrow> call mm 2 (v_top v - 2) False v;
       v \<leftarrow> PopN 2 v;
       if ok then class_done a0 abstract v else Some (False, v)
     } else class_done a0 abstract v
   }"

definition CLASS_OP :: "callfn \<Rightarrow> int \<Rightarrow> int \<Rightarrow> int \<Rightarrow> vm \<Rightarrow> bres" where
  "CLASS_OP call a0 baseclass abstract v =
     (if baseclass \<noteq> - 1 then do {
        ob \<leftarrow> stk v baseclass;
        (case ob of
           ORef RClass b \<Rightarrow> class_derive call a0 (Some b) (abstract \<noteq> MAX_FUNC_STACKSIZE) v
         | _ \<Rightarrow> bfail (EMsg (''trying to inherit from a '' @ type_name ob)) v)
      } else class_derive call a0 None (abstract \<noteq> MAX_FUNC_STACKSIZE) v)"

section \<open>Iteration\<close>

text \<open>One step of \<open>foreach\<close>: \<open>b\<close> and \<open>b + 1\<close> hold key and value, \<open>b + 2\<close> the position; the jump is the result.\<close>

definition foreach_write :: "int \<Rightarrow> int \<Rightarrow> (lvobj \<times> lvobj \<times> lvobj) option \<Rightarrow> vm \<Rightarrow> (int option \<times> vm) option" where
  "foreach_write b exitpos r v =
     (case r of
        None \<Rightarrow> Some (Some exitpos, v)
      | Some (pos, key, val) \<Rightarrow> do {
          v \<leftarrow> set_stk b key v; v \<leftarrow> set_stk (b + 1) val v; v \<leftarrow> set_stk (b + 2) pos v;
          Some (Some 1, v)
        })"

definition foreach_meta :: "callfn \<Rightarrow> lvobj \<Rightarrow> int \<Rightarrow> int \<Rightarrow> lvobj \<Rightarrow> vm \<Rightarrow> (int option \<times> vm) option" where
  "foreach_meta call o1 b exitpos pos v = do {
     d \<leftarrow> delegate_of v o1;
     m \<leftarrow> own_metamethod v o1 MT_NEXTI;
     (case (d, m) of
        (None, _) \<Rightarrow> Some (None, v)
      | (_, None) \<Rightarrow> Some (None, raise (EMsg ''_nexti failed'') v)
      | (_, Some closure) \<Rightarrow> do {
          (ok, out, v) \<leftarrow> push_call call closure [o1, pos] v;
          if \<not> ok then Some (None, v)
          else do {
            let itr = (case out of Some x \<Rightarrow> x | None \<Rightarrow> ONull);
            v \<leftarrow> set_stk b itr v;
            v \<leftarrow> set_stk (b + 2) itr v;
            if itr = ONull then Some (Some exitpos, v)
            else do {
              (ok, x, v) \<leftarrow> vm_Get call o1 itr 0 DONT_FALL_BACK v;
              (case x of
                 Some y \<Rightarrow> if ok then do { v \<leftarrow> set_stk (b + 1) y v; Some (Some 1, v) }
                           else Some (None, raise (EMsg ''_nexti returned an invalid idx'') v)
               | None \<Rightarrow> Some (None, raise (EMsg ''_nexti returned an invalid idx'') v))
            }
          }
        })
   }"

definition foreach_gen :: "u64 \<Rightarrow> int \<Rightarrow> int \<Rightarrow> lvobj \<Rightarrow> vm \<Rightarrow> (int option \<times> vm) option" where
  "foreach_gen ga b exitpos pos v = do {
     g \<leftarrow> get_generator v ga;
     (case g_state g of
        eDead \<Rightarrow> Some (Some exitpos, v)
      | eSuspended \<Rightarrow> do {
          let idx = OInteger (case pos of OInteger i \<Rightarrow> i + 1 | _ \<Rightarrow> 0);
          v \<leftarrow> set_stk b idx v;
          v \<leftarrow> set_stk (b + 2) idx v;
          (_, v) \<leftarrow> Resume ga (b + 1) v;
          Some (Some 0, v)
        }
      | eRunning \<Rightarrow> Some (None, raise (EMsg ''cannot iterate generator'') v))
   }"

definition FOREACH_OP :: "callfn \<Rightarrow> lvobj \<Rightarrow> int \<Rightarrow> int \<Rightarrow> vm \<Rightarrow> (int option \<times> vm) option" where
  "FOREACH_OP call o1 b exitpos v = do {
     pos \<leftarrow> stk v (b + 2);
     (case o1 of
        ORef RTable a \<Rightarrow> do { r \<leftarrow> ts_next False a pos v; foreach_write b exitpos r v }
      | ORef RArray a \<Rightarrow> do { r \<leftarrow> ts_next True a pos v; foreach_write b exitpos r v }
      | OString s \<Rightarrow> do {
          r \<leftarrow> string_Next s pos;
          foreach_write b exitpos (map_option (\<lambda>(i, k, x). (OInteger i, k, x)) r) v
        }
      | ORef RClass a \<Rightarrow> do {
          r \<leftarrow> class_Next a pos v;
          foreach_write b exitpos (map_option (\<lambda>(i, k, x). (OInteger (of_nat i), k, x)) r) v
        }
      | ORef RUserData a \<Rightarrow> foreach_meta call o1 b exitpos pos v
      | ORef RInstance a \<Rightarrow> foreach_meta call o1 b exitpos pos v
      | ORef RGenerator ga \<Rightarrow> foreach_gen ga b exitpos pos v
      | _ \<Rightarrow> Some (None, raise (EMsg (''cannot iterate '' @ type_name o1)) v))
   }"

end
