(* ===== verification/Execute.thy ===== *)
theory Execute
  imports Calls
begin

text \<open>
  The interpreter (\<open>LVVM::Execute\<close> and \<open>LVVM::Call\<close> of \<^verbatim>\<open>src/vm.cpp\<close>): one function per group of
  instructions, the unwinding of frames to an exception trap, the loop, and the entry points. The count
  \<open>traps\<close> of the loop is passed along. The fuel of the loop is the number of instructions it may run, and
  bounds the nesting of calls from native code and metamethods: with enough of it the result no longer
  depends on it (\<open>Call_more_fuel\<close> of theory \<open>Fuel\<close>).
\<close>

datatype outcome = Running int vm | Thrown int vm | Done lvobj vm

section \<open>Operands\<close>

definition arg0 :: "instr \<Rightarrow> int" where "arg0 i = uint (iarg0 i)"
definition sarg0 :: "instr \<Rightarrow> int" where "sarg0 i = sint (iarg0 i)"
definition arg1 :: "instr \<Rightarrow> int" where "arg1 i = sint (iarg1 i)"
definition arg2 :: "instr \<Rightarrow> int" where "arg2 i = uint (iarg2 i)"
definition arg3 :: "instr \<Rightarrow> int" where "arg3 i = uint (iarg3 i)"
definition sarg3 :: "instr \<Rightarrow> int" where "sarg3 i = sint (iarg3 i)"

definition COND_LITERAL :: "instr \<Rightarrow> vm \<Rightarrow> lvobj option" where
  "COND_LITERAL i v = (if arg3 i \<noteq> 0 then literal v (arg1 i) else stk v (arg1 i))"

definition jump :: "int \<Rightarrow> vm \<Rightarrow> vm option" where
  "jump d v = set_ci (\<lambda>c. c\<lparr>ci_ip := ci_ip c + d\<rparr>) v"

definition go :: "int \<Rightarrow> vm option \<Rightarrow> outcome option" where
  "go traps r = do { v \<leftarrow> r; Some (Running traps v) }"

definition guard :: "int \<Rightarrow> bres \<Rightarrow> outcome option" where
  "guard traps r = do { (b, v) \<leftarrow> r; Some (if b then Running traps v else Thrown traps v) }"

text \<open>An operation with \<open>TARGET\<close> as its destination, and one with \<open>temp_reg\<close> swapped into \<open>TARGET\<close> on success.\<close>

definition to_target :: "int \<Rightarrow> int \<Rightarrow> dres \<Rightarrow> outcome option" where
  "to_target a0 traps r = do {
     (b, out, v) \<leftarrow> r;
     v \<leftarrow> (case out of Some x \<Rightarrow> set_stk a0 x v | None \<Rightarrow> Some v);
     Some (if b then Running traps v else Thrown traps v)
   }"

definition swap_target :: "int \<Rightarrow> int \<Rightarrow> dres \<Rightarrow> outcome option" where
  "swap_target a0 traps r = do {
     (b, out, v) \<leftarrow> r;
     if b then go traps (set_stk a0 (case out of Some x \<Rightarrow> x | None \<Rightarrow> ONull) v) else Some (Thrown traps v)
   }"

definition set_target :: "int \<Rightarrow> int \<Rightarrow> lvobj option \<Rightarrow> vm \<Rightarrow> outcome option" where
  "set_target a0 traps x v = do { y \<leftarrow> x; go traps (set_stk a0 y v) }"

section \<open>Instructions\<close>

definition sext :: "u32 \<Rightarrow> u64" where "sext w = scast w"

fun null_slots :: "int \<Rightarrow> nat \<Rightarrow> vm \<Rightarrow> vm option" where
  "null_slots i 0 v = Some v"
| "null_slots i (Suc n) v = do { v \<leftarrow> set_stk i ONull v; null_slots (i + 1) n v }"

definition arith_at :: "(lvobj \<Rightarrow> lvobj \<Rightarrow> vm \<Rightarrow> dres) \<Rightarrow> instr \<Rightarrow> int \<Rightarrow> vm \<Rightarrow> outcome option" where
  "arith_at f i traps v = do {
     x \<leftarrow> stk v (arg2 i);
     y \<leftarrow> stk v (arg1 i);
     to_target (arg0 i) traps (f x y v)
   }"

text \<open>\<open>_outer(_closure(ci->_closure)->_outervalues[i])\<close>.\<close>

definition ci_outer :: "vm \<Rightarrow> int \<Rightarrow> u64 option" where
  "ci_outer v i = do {
     clo \<leftarrow> ci_lvclosure v;
     x \<leftarrow> (if 0 \<le> i then nth_opt (c_outervalues clo) (nat i) else None);
     (case x of ORef ROuter p \<Rightarrow> Some p | _ \<Rightarrow> None)
   }"

definition append_value :: "instr \<Rightarrow> vm \<Rightarrow> lvobj option" where
  "append_value i v =
     (if iarg2 i = AAT_STACK then stk v (arg1 i)
      else if iarg2 i = AAT_LITERAL then literal v (arg1 i)
      else if iarg2 i = AAT_INT then Some (OInteger (sext (iarg1 i)))
      else if iarg2 i = AAT_FLOAT then Some (OFloat (iarg1 i))
      else if iarg2 i = AAT_BOOL then Some (OBool (sext (iarg1 i)))
      else None)"

subsection \<open>Loads\<close>

definition exec_loads :: "callfn \<Rightarrow> instr \<Rightarrow> int \<Rightarrow> vm \<Rightarrow> outcome option" where
  "exec_loads call i traps v =
     (case iop i of
        OP_LINE \<Rightarrow> Some (Running traps v)
      | OP_LOAD \<Rightarrow> set_target (arg0 i) traps (literal v (arg1 i)) v
      | OP_LOADINT \<Rightarrow> set_target (arg0 i) traps (Some (OInteger (sext (iarg1 i)))) v
      | OP_LOADFLOAT \<Rightarrow> set_target (arg0 i) traps (Some (OFloat (iarg1 i))) v
      | OP_DLOAD \<Rightarrow> do {
          x \<leftarrow> literal v (arg1 i);
          v \<leftarrow> set_stk (arg0 i) x v;
          set_target (arg2 i) traps (literal v (arg3 i)) v
        }
      | _ \<Rightarrow> None)"

subsection \<open>Slots\<close>

definition exec_slots :: "callfn \<Rightarrow> instr \<Rightarrow> int \<Rightarrow> vm \<Rightarrow> outcome option" where
  "exec_slots call i traps v =
     (case iop i of
        OP_PREPCALL \<Rightarrow> do {
          key \<leftarrow> stk v (arg1 i); x \<leftarrow> stk v (arg2 i);
          (b, out, v) \<leftarrow> vm_Get call x key 0 (arg2 i) v;
          if \<not> b then Some (Thrown traps v)
          else do { x \<leftarrow> stk v (arg2 i); v \<leftarrow> set_stk (arg3 i) x v; set_target (arg0 i) traps out v }
        }
      | OP_PREPCALLK \<Rightarrow> do {
          key \<leftarrow> literal v (arg1 i); x \<leftarrow> stk v (arg2 i);
          (b, out, v) \<leftarrow> vm_Get call x key 0 (arg2 i) v;
          if \<not> b then Some (Thrown traps v)
          else do { x \<leftarrow> stk v (arg2 i); v \<leftarrow> set_stk (arg3 i) x v; set_target (arg0 i) traps out v }
        }
      | OP_GETK \<Rightarrow> do {
          key \<leftarrow> literal v (arg1 i); x \<leftarrow> stk v (arg2 i);
          swap_target (arg0 i) traps (vm_Get call x key 0 (arg2 i) v)
        }
      | OP_MOVE \<Rightarrow> set_target (arg0 i) traps (stk v (arg1 i)) v
      | OP_NEWSLOT \<Rightarrow> do {
          x \<leftarrow> stk v (arg1 i); key \<leftarrow> stk v (arg2 i); val \<leftarrow> stk v (arg3 i);
          (b, v) \<leftarrow> vm_NewSlot call x key val False v;
          if \<not> b then Some (Thrown traps v)
          else if arg0 i \<noteq> 0xFF then set_target (arg0 i) traps (stk v (arg3 i)) v else Some (Running traps v)
        }
      | OP_DELETE \<Rightarrow> do {
          x \<leftarrow> stk v (arg1 i); key \<leftarrow> stk v (arg2 i);
          to_target (arg0 i) traps (vm_DeleteSlot call x key v)
        }
      | OP_SET \<Rightarrow> do {
          x \<leftarrow> stk v (arg1 i); key \<leftarrow> stk v (arg2 i); val \<leftarrow> stk v (arg3 i);
          (b, v) \<leftarrow> vm_Set call x key val (arg1 i) v;
          if \<not> b then Some (Thrown traps v)
          else if arg0 i \<noteq> 0xFF then set_target (arg0 i) traps (stk v (arg3 i)) v else Some (Running traps v)
        }
      | OP_GET \<Rightarrow> do {
          x \<leftarrow> stk v (arg1 i); key \<leftarrow> stk v (arg2 i);
          swap_target (arg0 i) traps (vm_Get call x key 0 (arg1 i) v)
        }
      | _ \<Rightarrow> None)"

subsection \<open>Operators\<close>

definition exec_operators :: "callfn \<Rightarrow> instr \<Rightarrow> int \<Rightarrow> vm \<Rightarrow> outcome option" where
  "exec_operators call i traps v =
     (case iop i of
        OP_EQ \<Rightarrow> do {
          x \<leftarrow> stk v (arg2 i); y \<leftarrow> COND_LITERAL i v;
          set_target (arg0 i) traps (Some (of_bool_obj (IsEqual x y))) v
        }
      | OP_NE \<Rightarrow> do {
          x \<leftarrow> stk v (arg2 i); y \<leftarrow> COND_LITERAL i v;
          set_target (arg0 i) traps (Some (of_bool_obj (\<not> IsEqual x y))) v
        }
      | OP_ADD \<Rightarrow> arith_at (vm_ARITH call (CHR ''+'')) i traps v
      | OP_SUB \<Rightarrow> arith_at (vm_ARITH call (CHR ''-'')) i traps v
      | OP_MUL \<Rightarrow> arith_at (vm_ARITH call (CHR ''*'')) i traps v
      | OP_DIV \<Rightarrow> arith_at (vm_ARITH_NOZERO call) i traps v
      | OP_MOD \<Rightarrow> do {
          x \<leftarrow> stk v (arg2 i);
          y \<leftarrow> stk v (arg1 i);
          (_, out, v) \<leftarrow> vm_ARITH_OP call (CHR ''%'') x y v;
          go traps (case out of Some r \<Rightarrow> set_stk (arg0 i) r v | None \<Rightarrow> Some v)
        }
      | OP_BITW \<Rightarrow> arith_at (vm_BW_OP (unat (iarg3 i))) i traps v
      | _ \<Rightarrow> None)"

subsection \<open>More loads and moves\<close>

definition exec_moves :: "callfn \<Rightarrow> instr \<Rightarrow> int \<Rightarrow> vm \<Rightarrow> outcome option" where
  "exec_moves call i traps v =
     (case iop i of
        OP_LOADNULLS \<Rightarrow> go traps (null_slots (arg0 i) (nat (arg1 i)) v)
      | OP_LOADROOT \<Rightarrow> do {
          clo \<leftarrow> ci_lvclosure v;
          w \<leftarrow> c_root clo;
          set_target (arg0 i) traps (Some (if weak_of v w \<noteq> ONull then weak_of v w else v_roottable v)) v
        }
      | OP_LOADBOOL \<Rightarrow> set_target (arg0 i) traps (Some (of_bool_obj (iarg1 i \<noteq> 0))) v
      | OP_DMOVE \<Rightarrow> do {
          x \<leftarrow> stk v (arg1 i);
          v \<leftarrow> set_stk (arg0 i) x v;
          set_target (arg2 i) traps (stk v (arg3 i)) v
        }
      | _ \<Rightarrow> None)"

subsection \<open>Jumps\<close>

definition exec_jumps :: "callfn \<Rightarrow> instr \<Rightarrow> int \<Rightarrow> vm \<Rightarrow> outcome option" where
  "exec_jumps call i traps v =
     (case iop i of
        OP_JMP \<Rightarrow> go traps (jump (arg1 i) v)
      | OP_JCMP \<Rightarrow> do {
          p \<leftarrow> cmpop_of (unat (iarg3 i));
          x \<leftarrow> stk v (arg2 i); y \<leftarrow> stk v (arg0 i);
          (b, out, v) \<leftarrow> vm_CMP_OP call p x y v;
          if \<not> b then Some (Thrown traps v)
          else go traps (if IsFalse (case out of Some r \<Rightarrow> r | None \<Rightarrow> ONull) then jump (arg1 i) v else Some v)
        }
      | OP_JZ \<Rightarrow> do { x \<leftarrow> stk v (arg0 i); go traps (if IsFalse x then jump (arg1 i) v else Some v) }
      | _ \<Rightarrow> None)"

subsection \<open>Outer variables and new objects\<close>

definition exec_objects :: "callfn \<Rightarrow> instr \<Rightarrow> int \<Rightarrow> vm \<Rightarrow> outcome option" where
  "exec_objects call i traps v =
     (case iop i of
        OP_GETOUTER \<Rightarrow> do { p \<leftarrow> ci_outer v (arg1 i); set_target (arg0 i) traps (outer_get v p) v }
      | OP_SETOUTER \<Rightarrow> do {
          p \<leftarrow> ci_outer v (arg1 i);
          x \<leftarrow> stk v (arg2 i);
          v \<leftarrow> outer_set p x v;
          if arg0 i \<noteq> 0xFF then set_target (arg0 i) traps (stk v (arg2 i)) v else Some (Running traps v)
        }
      | OP_NEWOBJ \<Rightarrow>
          if iarg3 i = 0 then do {
            (a, v) \<leftarrow> alloc (HTable (table_create (nat (arg1 i)))) v;
            set_target (arg0 i) traps (Some (ORef RTable a)) v
          }
          else if iarg3 i = 1 then do {
            arr \<leftarrow> array_Create 0;
            arr \<leftarrow> (if 0 \<le> arg1 i then array_Reserve (nat (arg1 i)) arr else None);
            (a, v) \<leftarrow> alloc (HArray arr) v;
            set_target (arg0 i) traps (Some (ORef RArray a)) v
          }
          else if iarg3 i = 2 then guard traps (CLASS_OP call (arg0 i) (arg1 i) (arg2 i) v)
          else None
      | OP_APPENDARRAY \<Rightarrow> do {
          x \<leftarrow> append_value i v;
          y \<leftarrow> stk v (arg0 i);
          (case y of
             ORef RArray a \<Rightarrow> do {
               t \<leftarrow> get_array v a;
               t \<leftarrow> array_Append x t;
               Some (Running traps (put a (HArray t) v))
             }
           | _ \<Rightarrow> None)
        }
      | _ \<Rightarrow> None)"

subsection \<open>Increments\<close>

definition exec_incs :: "callfn \<Rightarrow> instr \<Rightarrow> int \<Rightarrow> vm \<Rightarrow> outcome option" where
  "exec_incs call i traps v =
     (case iop i of
        OP_COMPARITH \<Rightarrow> do {
          let selfidx = uint (drop_bit 16 (iarg1 i));
          x \<leftarrow> stk v selfidx; key \<leftarrow> stk v (arg2 i); y \<leftarrow> stk v (uint (iarg1 i AND 0xFFFF));
          to_target (arg0 i) traps (DerefInc call (char_of_byte (iarg3 i)) x key y False selfidx v)
        }
      | OP_INC \<Rightarrow> do {
          x \<leftarrow> stk v (arg1 i); key \<leftarrow> stk v (arg2 i);
          to_target (arg0 i) traps (DerefInc call (CHR ''+'') x key (OInteger (of_int (sarg3 i))) False (arg1 i) v)
        }
      | OP_INCL \<Rightarrow> do {
          x \<leftarrow> stk v (arg1 i);
          (case x of
             OInteger n \<Rightarrow> go traps (set_stk (arg1 i) (OInteger (n + of_int (sarg3 i))) v)
           | _ \<Rightarrow> to_target (arg1 i) traps (vm_ARITH call (CHR ''+'') x (OInteger (of_int (sarg3 i))) v))
        }
      | OP_PINC \<Rightarrow> do {
          x \<leftarrow> stk v (arg1 i); key \<leftarrow> stk v (arg2 i);
          to_target (arg0 i) traps (DerefInc call (CHR ''+'') x key (OInteger (of_int (sarg3 i))) True (arg1 i) v)
        }
      | OP_PINCL \<Rightarrow> do {
          x \<leftarrow> stk v (arg1 i);
          (case x of
             OInteger n \<Rightarrow> do {
               v \<leftarrow> set_stk (arg0 i) x v;
               go traps (set_stk (arg1 i) (OInteger (n + of_int (sarg3 i))) v)
             }
           | _ \<Rightarrow> do {
               (r, v) \<leftarrow> PLOCAL_INC call (CHR ''+'') x (OInteger (of_int (sarg3 i))) v;
               (case r of
                  None \<Rightarrow> Some (Thrown traps v)
                | Some (old, new) \<Rightarrow> do { v \<leftarrow> set_stk (arg0 i) old v; go traps (set_stk (arg1 i) new v) })
             })
        }
      | _ \<Rightarrow> None)"

subsection \<open>Comparisons and logic\<close>

definition exec_tests :: "callfn \<Rightarrow> instr \<Rightarrow> int \<Rightarrow> vm \<Rightarrow> outcome option" where
  "exec_tests call i traps v =
     (case iop i of
        OP_CMP \<Rightarrow> do { p \<leftarrow> cmpop_of (unat (iarg3 i)); arith_at (vm_CMP_OP call p) i traps v }
      | OP_EXISTS \<Rightarrow> do {
          x \<leftarrow> stk v (arg1 i); key \<leftarrow> stk v (arg2 i);
          (b, _, v) \<leftarrow> vm_Get call x key (GET_FLAG_DO_NOT_RAISE_ERROR OR GET_FLAG_RAW) DONT_FALL_BACK v;
          set_target (arg0 i) traps (Some (of_bool_obj b)) v
        }
      | OP_INSTANCEOF \<Rightarrow> do {
          x \<leftarrow> stk v (arg1 i); y \<leftarrow> stk v (arg2 i);
          (case x of
             ORef RClass c \<Rightarrow> do {
               b \<leftarrow> (case y of ORef RInstance a \<Rightarrow> InstanceOf a c v | _ \<Rightarrow> Some False);
               set_target (arg0 i) traps (Some (of_bool_obj b)) v
             }
           | _ \<Rightarrow> Some (Thrown traps (raise (EMsg (''cannot apply instanceof between a '' @ type_name x @
                    '' and a '' @ type_name y)) v)))
        }
      | OP_AND \<Rightarrow> do {
          x \<leftarrow> stk v (arg2 i);
          if IsFalse x then do { v \<leftarrow> set_stk (arg0 i) x v; go traps (jump (arg1 i) v) } else Some (Running traps v)
        }
      | OP_OR \<Rightarrow> do {
          x \<leftarrow> stk v (arg2 i);
          if \<not> IsFalse x then do { v \<leftarrow> set_stk (arg0 i) x v; go traps (jump (arg1 i) v) } else Some (Running traps v)
        }
      | OP_NEG \<Rightarrow> do { x \<leftarrow> stk v (arg1 i); swap_target (arg0 i) traps (vm_NEG_OP call x v) }
      | OP_NOT \<Rightarrow> do { x \<leftarrow> stk v (arg1 i); set_target (arg0 i) traps (Some (of_bool_obj (IsFalse x))) v }
      | OP_BWNOT \<Rightarrow> do { x \<leftarrow> stk v (arg1 i); to_target (arg0 i) traps (of_vres (bw_not x) v) }
      | _ \<Rightarrow> None)"

subsection \<open>Closures\<close>

definition exec_closure :: "callfn \<Rightarrow> instr \<Rightarrow> int \<Rightarrow> vm \<Rightarrow> outcome option" where
  "exec_closure call i traps v =
     (case iop i of
        OP_CLOSURE \<Rightarrow> do {
          f \<leftarrow> ci_proto v;
          x \<leftarrow> (if 0 \<le> arg1 i then nth_opt (p_functions f) (nat (arg1 i)) else None);
          (case x of ORef RFuncProto fa \<Rightarrow> to_target (arg0 i) traps (CLOSURE_OP fa v) | _ \<Rightarrow> None)
        }
      | _ \<Rightarrow> None)"

subsection \<open>Iteration, cloning and types\<close>

definition exec_iter :: "callfn \<Rightarrow> instr \<Rightarrow> int \<Rightarrow> vm \<Rightarrow> outcome option" where
  "exec_iter call i traps v =
     (case iop i of
        OP_FOREACH \<Rightarrow> do {
          x \<leftarrow> stk v (arg0 i);
          (r, v) \<leftarrow> FOREACH_OP call x (arg2 i) (arg1 i) v;
          (case r of None \<Rightarrow> Some (Thrown traps v) | Some d \<Rightarrow> go traps (jump d v))
        }
      | OP_POSTFOREACH \<Rightarrow> do {
          x \<leftarrow> stk v (arg0 i);
          (case x of
             ORef RGenerator ga \<Rightarrow> do {
               g \<leftarrow> get_generator v ga;
               go traps (if g_state g = eDead then jump (arg1 i - 1) v else Some v)
             }
           | _ \<Rightarrow> None)
        }
      | OP_CLONE \<Rightarrow> do { x \<leftarrow> stk v (arg1 i); to_target (arg0 i) traps (vm_Clone call x v) }
      | OP_TYPEOF \<Rightarrow> do { x \<leftarrow> stk v (arg1 i); to_target (arg0 i) traps (TypeOf call x v) }
      | _ \<Rightarrow> None)"

fun pop_traps :: "nat \<Rightarrow> vm \<Rightarrow> vm option" where
  "pop_traps 0 v = Some v"
| "pop_traps (Suc n) v =
     (case v_etraps v of
        [] \<Rightarrow> None
      | t # ts \<Rightarrow> do {
          v \<leftarrow> set_ci (\<lambda>c. c\<lparr>ci_etraps := ci_etraps c - 1\<rparr>) (v\<lparr>v_etraps := ts\<rparr>);
          pop_traps n v
        })"

subsection \<open>Traps\<close>

definition exec_traps :: "callfn \<Rightarrow> instr \<Rightarrow> int \<Rightarrow> vm \<Rightarrow> outcome option" where
  "exec_traps call i traps v =
     (case iop i of
        OP_PUSHTRAP \<Rightarrow> do {
          c \<leftarrow> ci v;
          let t = \<lparr>et_stackbase = v_stackbase v, et_stacksize = v_top v, et_ip = ci_ip c + arg1 i, et_extarget = arg0 i\<rparr>;
          go (traps + 1) (set_ci (\<lambda>c. c\<lparr>ci_etraps := ci_etraps c + 1\<rparr>) (v\<lparr>v_etraps := t # v_etraps v\<rparr>))
        }
      | OP_POPTRAP \<Rightarrow> go (traps - arg0 i) (pop_traps (nat (arg0 i)) v)
      | OP_THROW \<Rightarrow> do { x \<leftarrow> stk v (arg0 i); Some (Thrown traps (v\<lparr>v_lasterror := x\<rparr>)) }
      | _ \<Rightarrow> None)"

subsection \<open>Members\<close>

definition exec_members :: "callfn \<Rightarrow> instr \<Rightarrow> int \<Rightarrow> vm \<Rightarrow> outcome option" where
  "exec_members call i traps v =
     (case iop i of
        OP_NEWSLOTA \<Rightarrow> do {
          x \<leftarrow> stk v (arg1 i); key \<leftarrow> stk v (arg2 i); val \<leftarrow> stk v (arg3 i);
          attrs \<leftarrow> (if iarg0 i AND 0x01 \<noteq> 0 then stk v (arg2 i - 1) else Some ONull);
          guard traps (vm_NewSlotA call x key val attrs (iarg0 i AND 0x02 \<noteq> 0) False v)
        }
      | OP_GETBASE \<Rightarrow> do {
          clo \<leftarrow> ci_lvclosure v;
          set_target (arg0 i) traps (Some (case c_base clo of Some b \<Rightarrow> ORef RClass b | None \<Rightarrow> ONull)) v
        }
      | OP_CLOSE \<Rightarrow>
          if v_openouters v \<noteq> [] then go traps (CloseOuters (v_stackbase v + arg1 i) v) else Some (Running traps v)
      | _ \<Rightarrow> None)"

section \<open>Calls\<close>

text \<open>\<open>STK(arg0) = x\<close> unless the result is not wanted.\<close>

definition want :: "instr \<Rightarrow> lvobj option \<Rightarrow> vm \<Rightarrow> vm option" where
  "want i x v = (if sarg0 i \<noteq> - 1 then set_stk (arg0 i) (case x of Some y \<Rightarrow> y | None \<Rightarrow> ONull) v else Some v)"

definition call_native :: "nativefn \<Rightarrow> callfn \<Rightarrow> u64 \<Rightarrow> instr \<Rightarrow> int \<Rightarrow> vm \<Rightarrow> outcome option" where
  "call_native native call a i traps v = do {
     (b, out, suspend, v) \<leftarrow> CallNative native call a (nat (arg3 i)) (v_stackbase v + arg2 i) v;
     if \<not> b then Some (Thrown traps v)
     else if suspend then do {
       c \<leftarrow> ci v;
       Some (Done (case out of Some x \<Rightarrow> x | None \<Rightarrow> ONull)
         (v\<lparr>v_suspended := True, v_susp_target := sarg0 i, v_susp_root := ci_root c, v_susp_traps := traps\<rparr>))
     }
     else go traps (want i out v)
   }"

definition call_class :: "nativefn \<Rightarrow> callfn \<Rightarrow> u64 \<Rightarrow> instr \<Rightarrow> int \<Rightarrow> vm \<Rightarrow> outcome option" where
  "call_class native call a i traps v = do {
     c \<leftarrow> get_class v a;
     if cl_abstract c then Some (Thrown traps (raise (EMsg ''attempt to call abstract object explicit'') v))
     else do {
       (inst, ctor, v) \<leftarrow> CreateClassInstance a v;
       v \<leftarrow> want i (Some (ORef RInstance inst)) v;
       let stkbase = v_stackbase v + arg2 i;
       (case ctor of
          ORef RClosure f \<Rightarrow> do {
            v \<leftarrow> set_stack stkbase (ORef RInstance inst) v;
            guard traps (StartCall f (- 1) (nat (arg3 i)) stkbase False v)
          }
        | ORef RNativeClosure f \<Rightarrow> do {
            v \<leftarrow> set_stack stkbase (ORef RInstance inst) v;
            (b, _, _, v) \<leftarrow> CallNative native call f (nat (arg3 i)) stkbase v;
            Some (if b then Running traps v else Thrown traps v)
          }
        | _ \<Rightarrow> Some (Running traps v))
     }
   }"

fun push_args :: "int \<Rightarrow> nat \<Rightarrow> vm \<Rightarrow> vm option" where
  "push_args i 0 v = Some v"
| "push_args i (Suc n) v = do { x \<leftarrow> stk v i; v \<leftarrow> Push x v; push_args (i + 1) n v }"

definition call_meta :: "callfn \<Rightarrow> lvobj \<Rightarrow> instr \<Rightarrow> int \<Rightarrow> vm \<Rightarrow> outcome option" where
  "call_meta call ob i traps v = do {
     m \<leftarrow> (if is_delegable ob then own_metamethod v ob MT_CALL else Some None);
     (case m of
        None \<Rightarrow> Some (Thrown traps (raise (EMsg (''attempt to call '' @ quoted (type_name ob))) v))
      | Some closure \<Rightarrow> do {
          v \<leftarrow> Push ob v;
          v \<leftarrow> push_args (arg2 i) (nat (arg3 i)) v;
          (b, out, v) \<leftarrow> CallMetaMethod call closure (nat (arg3 i) + 1) v;
          if b then go traps (want i out v) else Some (Thrown traps v)
        })
   }"

definition exec_call :: "nativefn \<Rightarrow> callfn \<Rightarrow> instr \<Rightarrow> int \<Rightarrow> vm \<Rightarrow> outcome option" where
  "exec_call native call i traps v = do {
     clo \<leftarrow> stk v (arg1 i);
     (case clo of
        ORef RClosure a \<Rightarrow>
          guard traps (StartCall a (sarg0 i) (nat (arg3 i)) (v_stackbase v + arg2 i) False v)
      | ORef RNativeClosure a \<Rightarrow> call_native native call a i traps v
      | ORef RClass a \<Rightarrow> call_class native call a i traps v
      | _ \<Rightarrow> call_meta call clo i traps v)
   }"

text \<open>\<open>for (i < arg3) STK(i) = STK(arg2 + i)\<close>.\<close>

fun copy_down :: "int \<Rightarrow> int \<Rightarrow> nat \<Rightarrow> vm \<Rightarrow> vm option" where
  "copy_down i j 0 v = Some v"
| "copy_down i j (Suc n) v = do { x \<leftarrow> stk v j; v \<leftarrow> set_stk i x v; copy_down (i + 1) (j + 1) n v }"

definition exec_tailcall :: "nativefn \<Rightarrow> callfn \<Rightarrow> instr \<Rightarrow> int \<Rightarrow> vm \<Rightarrow> outcome option" where
  "exec_tailcall native call i traps v = do {
     clo \<leftarrow> stk v (arg1 i);
     (case clo of
        ORef RClosure a \<Rightarrow> do {
          k \<leftarrow> get_closure v a;
          f \<leftarrow> get_proto v (c_function k);
          if p_bgenerator f then exec_call native call i traps v
          else do {
            v \<leftarrow> (if v_openouters v \<noteq> [] then CloseOuters (v_stackbase v) v else Some v);
            v \<leftarrow> copy_down 0 (arg2 i) (nat (arg3 i)) v;
            c \<leftarrow> ci v;
            guard traps (StartCall a (ci_target c) (nat (arg3 i)) (v_stackbase v) True v)
          }
        }
      | _ \<Rightarrow> exec_call native call i traps v)
   }"

section \<open>Returning, generators and traps\<close>

definition leave :: "instr \<Rightarrow> int \<Rightarrow> vm \<Rightarrow> outcome option" where
  "leave i traps v = do {
     (isroot, x, v) \<leftarrow> Return (arg0 i) (arg1 i) v;
     Some (if isroot then Done x v else Running traps v)
   }"

definition exec_return :: "instr \<Rightarrow> int \<Rightarrow> vm \<Rightarrow> outcome option" where
  "exec_return i traps v = do {
     c \<leftarrow> ci v;
     v \<leftarrow> (case ci_generator c of Some g \<Rightarrow> Kill g v | None \<Rightarrow> Some v);
     leave i traps v
   }"

definition exec_yield :: "instr \<Rightarrow> int \<Rightarrow> vm \<Rightarrow> outcome option" where
  "exec_yield i traps v = do {
     c \<leftarrow> ci v;
     g \<leftarrow> ci_generator c;
     x \<leftarrow> (if arg1 i \<noteq> MAX_FUNC_STACKSIZE then stk v (arg1 i) else Some ONull);
     (b, v) \<leftarrow> Yield g (nat (arg2 i)) v;
     if \<not> b then Some (Thrown traps v)
     else do {
       c \<leftarrow> ci v;
       v \<leftarrow> (if arg1 i \<noteq> MAX_FUNC_STACKSIZE then set_stk (arg1 i) x v else Some v);
       leave i (traps - ci_etraps c) v
     }
   }"

definition exec_resume :: "instr \<Rightarrow> int \<Rightarrow> vm \<Rightarrow> outcome option" where
  "exec_resume i traps v = do {
     x \<leftarrow> stk v (arg1 i);
     (case x of
        ORef RGenerator g \<Rightarrow> do {
          (b, v) \<leftarrow> Resume g (arg0 i) v;
          if \<not> b then Some (Thrown traps v)
          else do { c \<leftarrow> ci v; Some (Running (traps + ci_etraps c) v) }
        }
      | _ \<Rightarrow> Some (Thrown traps (raise (EMsg (''trying to resume a '' @ quoted (type_name x) @
               '',only genenerator can be resumed'')) v)))
   }"

section \<open>One instruction\<close>

definition exec_instr :: "nativefn \<Rightarrow> callfn \<Rightarrow> instr \<Rightarrow> int \<Rightarrow> vm \<Rightarrow> outcome option" where
  "exec_instr native call i traps v =
     (let p = iop i in
      if p \<in> {OP_LINE, OP_LOAD, OP_LOADINT, OP_LOADFLOAT, OP_DLOAD}
      then exec_loads call i traps v
      else if p \<in> {OP_PREPCALL, OP_PREPCALLK, OP_GETK, OP_MOVE, OP_NEWSLOT, OP_DELETE, OP_SET, OP_GET}
      then exec_slots call i traps v
      else if p \<in> {OP_EQ, OP_NE, OP_ADD, OP_SUB, OP_MUL, OP_DIV, OP_MOD, OP_BITW}
      then exec_operators call i traps v
      else if p \<in> {OP_LOADNULLS, OP_LOADROOT, OP_LOADBOOL, OP_DMOVE}
      then exec_moves call i traps v
      else if p \<in> {OP_JMP, OP_JCMP, OP_JZ}
      then exec_jumps call i traps v
      else if p \<in> {OP_GETOUTER, OP_SETOUTER, OP_NEWOBJ, OP_APPENDARRAY}
      then exec_objects call i traps v
      else if p \<in> {OP_COMPARITH, OP_INC, OP_INCL, OP_PINC, OP_PINCL}
      then exec_incs call i traps v
      else if p \<in> {OP_CMP, OP_EXISTS, OP_INSTANCEOF, OP_AND, OP_OR, OP_NEG, OP_NOT, OP_BWNOT}
      then exec_tests call i traps v
      else if p = OP_CLOSURE
      then exec_closure call i traps v
      else if p \<in> {OP_FOREACH, OP_POSTFOREACH, OP_CLONE, OP_TYPEOF}
      then exec_iter call i traps v
      else if p \<in> {OP_PUSHTRAP, OP_POPTRAP, OP_THROW}
      then exec_traps call i traps v
      else if p \<in> {OP_NEWSLOTA, OP_GETBASE, OP_CLOSE}
      then exec_members call i traps v
      else if p = OP_CALL then exec_call native call i traps v
      else if p = OP_TAILCALL then exec_tailcall native call i traps v
      else if p = OP_RETURN then exec_return i traps v
      else if p = OP_YIELD then exec_yield i traps v
      else exec_resume i traps v)"

text \<open>Fetch: the instruction pointer is past the instruction while it runs.\<close>

definition fetch :: "vm \<Rightarrow> (instr \<times> vm) option" where
  "fetch v = do {
     c \<leftarrow> ci v;
     f \<leftarrow> ci_proto v;
     i \<leftarrow> (if 0 \<le> ci_ip c then nth_opt (p_instructions f) (nat (ci_ip c)) else None);
     v \<leftarrow> jump 1 v;
     Some (i, v)
   }"

definition exec_step :: "nativefn \<Rightarrow> callfn \<Rightarrow> int \<Rightarrow> vm \<Rightarrow> outcome option" where
  "exec_step native call traps v = do { (i, v) \<leftarrow> fetch v; exec_instr native call i traps v }"

section \<open>Exceptions\<close>

text \<open>Resuming at the topmost trap of the running frame.\<close>

definition enter_trap :: "lvobj \<Rightarrow> int \<Rightarrow> vm \<Rightarrow> vm option" where
  "enter_trap err last_top v =
     (case v_etraps v of
        [] \<Rightarrow> None
      | t # ts \<Rightarrow> do {
          v \<leftarrow> set_ci (\<lambda>c. c\<lparr>ci_ip := et_ip t, ci_etraps := ci_etraps c - 1\<rparr>)
                 (v\<lparr>v_top := et_stacksize t, v_stackbase := et_stackbase t, v_etraps := ts\<rparr>);
          v \<leftarrow> set_stk (et_extarget t) err v;
          null_range (v_top v) last_top v
        })"

text \<open>Frames are left until one has a trap (\<open>Inl\<close>) or the root frame of this run is gone.\<close>

fun unwind :: "nat \<Rightarrow> lvobj \<Rightarrow> int \<Rightarrow> int \<Rightarrow> vm \<Rightarrow> (int \<times> vm + vm) option" where
  "unwind n err last_top traps v =
     (case v_calls v of
        [] \<Rightarrow> Some (Inr (v\<lparr>v_lasterror := err\<rparr>))
      | c # cs \<Rightarrow>
          if ci_etraps c > 0 then do { v \<leftarrow> enter_trap err last_top v; Some (Inl (traps - 1, v)) }
          else do {
            v \<leftarrow> (case ci_generator c of Some g \<Rightarrow> Kill g v | None \<Rightarrow> Some v);
            v \<leftarrow> LeaveFrame v;
            if ci_root c then Some (Inr (v\<lparr>v_lasterror := err\<rparr>))
            else (case n of 0 \<Rightarrow> None | Suc m \<Rightarrow> unwind m err last_top traps v)
          })"

declare unwind.simps [simp del]

definition exception_trap :: "callfn \<Rightarrow> bool \<Rightarrow> int \<Rightarrow> vm \<Rightarrow> (int \<times> vm + vm) option" where
  "exception_trap call raiseerror traps v = do {
     let err = v_lasterror v;
     let last_top = v_top v;
     v \<leftarrow> (if v_notifyall v \<or> traps = 0 \<and> raiseerror then CallErrorHandler call err v else Some v);
     unwind (length (v_calls v)) err last_top traps v
   }"

section \<open>The loop\<close>

definition after_throw :: "callfn \<Rightarrow> bool \<Rightarrow> (int \<Rightarrow> vm \<Rightarrow> dres) \<Rightarrow> int \<Rightarrow> vm \<Rightarrow> dres" where
  "after_throw call raiseerror go_on traps v = do {
     r \<leftarrow> exception_trap call raiseerror traps v;
     (case r of Inl (traps, v) \<Rightarrow> go_on traps v | Inr v \<Rightarrow> Some (False, None, v))
   }"

primrec run :: "nat \<Rightarrow> nativefn \<Rightarrow> callfn \<Rightarrow> bool \<Rightarrow> int \<Rightarrow> vm \<Rightarrow> dres" where
  "run 0 native call raiseerror traps v = None"
| "run (Suc n) native call raiseerror traps v = do {
     r \<leftarrow> exec_step native call traps v;
     (case r of
        Running traps v \<Rightarrow> run n native call raiseerror traps v
      | Done x v \<Rightarrow> Some (True, Some x, v)
      | Thrown traps v \<Rightarrow> after_throw call raiseerror (run n native call raiseerror) traps v)
   }"

datatype exectype = ET_CALL | ET_RESUME_GENERATOR | ET_RESUME_VM | ET_RESUME_THROW_VM

text \<open>The four ways into the loop; \<open>Inr\<close> leaves without running it, \<open>Inl (True, _)\<close> throws at once.\<close>

definition exec_enter ::
  "callfn \<Rightarrow> exectype \<Rightarrow> lvobj \<Rightarrow> nat \<Rightarrow> int \<Rightarrow> int \<Rightarrow> vm \<Rightarrow> (bool \<times> int \<times> vm + bool \<times> lvobj option \<times> vm) option" where
  "exec_enter call et closure nargs sb outpos v =
     (case et of
        ET_CALL \<Rightarrow> (case closure of
            ORef RClosure a \<Rightarrow> do {
              let depth = length (v_calls v);
              (b, v) \<leftarrow> StartCall a (v_top v - int nargs) nargs sb False v;
              if \<not> b then do {
                v \<leftarrow> (if v_calls v = [] then CallErrorHandler call (v_lasterror v) v else Some v);
                Some (Inr (False, None, v))
              }
              else if length (v_calls v) = depth then do {
                x \<leftarrow> stk v (v_top v - int nargs);
                Some (Inr (True, Some x, v))
              }
              else do { v \<leftarrow> set_ci (\<lambda>c. c\<lparr>ci_root := True\<rparr>) v; Some (Inl (False, 0, v)) }
            }
          | _ \<Rightarrow> None)
      | ET_RESUME_GENERATOR \<Rightarrow> (case closure of
            ORef RGenerator g \<Rightarrow> do {
              (_, v) \<leftarrow> Resume g (outpos - v_stackbase v) v;
              v \<leftarrow> set_ci (\<lambda>c. c\<lparr>ci_root := True\<rparr>) v;
              c \<leftarrow> ci v;
              Some (Inl (False, ci_etraps c, v))
            }
          | _ \<Rightarrow> None)
      | _ \<Rightarrow> do {
          let root = v_susp_root v;
          v \<leftarrow> set_ci (\<lambda>c. c\<lparr>ci_root := root\<rparr>) v;
          Some (Inl (et = ET_RESUME_THROW_VM, v_susp_traps v, v\<lparr>v_suspended := False\<rparr>))
        })"

definition vm_Execute ::
  "nat \<Rightarrow> nativefn \<Rightarrow> callfn \<Rightarrow> exectype \<Rightarrow> lvobj \<Rightarrow> nat \<Rightarrow> int \<Rightarrow> int \<Rightarrow> bool \<Rightarrow> vm \<Rightarrow> dres" where
  "vm_Execute n native call et closure nargs sb outpos raiseerror v =
     (if v_nnative v + 1 > MAX_NATIVE_CALLS then fail_with (EMsg ''Native stack overflow'') v
      else do {
        r \<leftarrow> exec_enter call et closure nargs sb outpos (v\<lparr>v_nnative := v_nnative v + 1\<rparr>);
        (b, out, v) \<leftarrow> (case r of
            Inr x \<Rightarrow> Some x
          | Inl (throw, traps, v) \<Rightarrow>
              if throw then after_throw call raiseerror (run n native call raiseerror) traps v
              else run n native call raiseerror traps v);
        Some (b, out, v\<lparr>v_nnative := v_nnative v - 1\<rparr>)
      })"

text \<open>\<open>LVVM::Call\<close>; the constructor of a class is called in the same way.\<close>

definition call_function :: "nat \<Rightarrow> nativefn \<Rightarrow> callfn \<Rightarrow> callfn" where
  "call_function n native call closure nparams sb raiseerror v =
     (case closure of
        ORef RClosure a \<Rightarrow> vm_Execute n native call ET_CALL closure (nat nparams) sb 0 raiseerror v
      | ORef RNativeClosure a \<Rightarrow> do {
          (b, out, _, v) \<leftarrow> CallNative native call a (nat nparams) sb v;
          Some (b, out, v)
        }
      | _ \<Rightarrow> Some (False, None, v))"

definition call_body :: "nat \<Rightarrow> nativefn \<Rightarrow> callfn \<Rightarrow> callfn" where
  "call_body n native call closure nparams sb raiseerror v =
     (case closure of
        ORef RClass a \<Rightarrow> do {
          (inst, ctor, v) \<leftarrow> CreateClassInstance a v;
          let x = ORef RInstance inst;
          if is_function ctor then do {
            v \<leftarrow> set_stack sb x v;
            (b, _, v) \<leftarrow> call_function n native call ctor nparams sb raiseerror v;
            Some (b, Some x, v)
          } else ret x v
        }
      | _ \<Rightarrow> call_function n native call closure nparams sb raiseerror v)"

primrec Call :: "nat \<Rightarrow> nativefn \<Rightarrow> callfn" where
  "Call 0 native = (\<lambda>closure nparams sb raiseerror v. None)"
| "Call (Suc n) native = call_body n native (Call n native)"

end
