(* ===== verification/Delegation.thy ===== *)
theory Delegation
  imports Access Frames
begin

text \<open>
  Delegation (\<open>LVDelegable::SetDelegate\<close> of \<^verbatim>\<open>src/object.cpp\<close>): the delegates of the tables form chains
  that end; setting a delegate is refused exactly when it would close a cycle; and along a chain a slot is
  read and written in the first table that has it.
\<close>

section \<open>Setting a delegate\<close>

definition set_delegate_of :: "lvobj \<Rightarrow> u64 option \<Rightarrow> vm \<Rightarrow> vm option" where
  "set_delegate_of self d v =
     (case self of
        ORef RTable a \<Rightarrow> do { t \<leftarrow> get_table v a; Some (put a (HTable (t\<lparr>tdelegate := d\<rparr>)) v) }
      | ORef RInstance a \<Rightarrow> do { i \<leftarrow> get_instance v a; Some (put a (HInstance (i\<lparr>in_delegate := d\<rparr>)) v) }
      | ORef RUserData a \<Rightarrow> Some (put a (HUserData d) v)
      | _ \<Rightarrow> None)"

text \<open>The loop: whether \<open>self\<close> is the delegate of a table of the chain from \<open>temp\<close>.\<close>

partial_function (option) delegates_to :: "vm \<Rightarrow> lvobj \<Rightarrow> u64 \<Rightarrow> bool option" where
  "delegates_to v self temp = do {
     t \<leftarrow> get_table v temp;
     (case tdelegate t of
        None \<Rightarrow> Some False
      | Some d \<Rightarrow> if ORef RTable d = self then Some True else delegates_to v self d)
   }"

declare delegates_to.simps [code]

definition SetDelegate :: "lvobj \<Rightarrow> u64 option \<Rightarrow> vm \<Rightarrow> bres" where
  "SetDelegate self mt v =
     (case mt of
        None \<Rightarrow> do { v \<leftarrow> set_delegate_of self None v; Some (True, v) }
      | Some m \<Rightarrow>
          if ORef RTable m = self then Some (False, v)
          else do {
            b \<leftarrow> delegates_to v self m;
            if b then Some (False, v) else do { v \<leftarrow> set_delegate_of self mt v; Some (True, v) }
          })"

section \<open>Chains of delegates\<close>

inductive chain :: "vm \<Rightarrow> u64 \<Rightarrow> u64 list \<Rightarrow> bool" for v where
  chain_end: "get_table v a = Some t \<Longrightarrow> tdelegate t = None \<Longrightarrow> chain v a [a]"
| chain_next: "get_table v a = Some t \<Longrightarrow> tdelegate t = Some d \<Longrightarrow> chain v d ds \<Longrightarrow> chain v a (a # ds)"

inductive_cases chainE: "chain v a as"

text \<open>Every table's chain of delegates ends.\<close>

definition delegates_ok :: "vm \<Rightarrow> bool" where
  "delegates_ok v \<longleftrightarrow> (\<forall>a t. get_table v a = Some t \<longrightarrow> (\<exists>ds. chain v a ds))"

lemma chain_hd: "chain v a ds \<Longrightarrow> \<exists>ds'. ds = a # ds'"
  by (auto elim: chain.cases)

lemma chain_unique: "chain v a ds \<Longrightarrow> chain v a ds' \<Longrightarrow> ds = ds'"
proof (induction arbitrary: ds' rule: chain.induct)
  case (chain_end a t)
  from chain_end.prems show ?case by (cases rule: chain.cases) (use chain_end.hyps in auto)
next
  case (chain_next a t d ds)
  from chain_next.prems obtain d' ds'' where "ds' = a # ds''" "get_table v a = Some t \<longrightarrow> d' = d" "chain v d' ds''"
    using chain_next.hyps by (cases rule: chain.cases) auto
  then show ?case using chain_next.hyps(1) chain_next.IH [of ds''] by blast
qed

lemma chain_get_table: "chain v a ds \<Longrightarrow> b \<in> set ds \<Longrightarrow> \<exists>t. get_table v b = Some t"
  by (induction rule: chain.induct) auto

lemma delegates_to_chain:
  assumes "chain v m ms"
  shows "delegates_to v self m = Some (\<exists>d \<in> set (tl ms). ORef RTable d = self)"
  using assms
proof (induction rule: chain.induct)
  case (chain_next a t d ds)
  obtain ds' where "ds = d # ds'" using chain_hd [OF chain_next.hyps(3)] by blast
  then show ?case using chain_next by (subst delegates_to.simps) auto
qed (subst delegates_to.simps, simp)

lemma get_table_put [simp]:
  "get_table (put a (HTable t) v) b = (if b = a then Some t else get_table v b)"
  by (simp add: get_table_def put_def)

lemma chain_avoiding:
  assumes "chain v m ms" "a \<notin> set ms"
  shows "chain (put a (HTable t) v) m ms"
  using assms by (induction rule: chain.induct) (auto intro: chain.intros)

lemma chain_through:
  assumes "chain v x xs" "chain (put a (HTable t) v) a as"
  shows "\<exists>ys. chain (put a (HTable t) v) x ys"
  using assms
proof (induction rule: chain.induct)
  case (chain_end b u)
  show ?case
  proof (cases "b = a")
    case False
    then have "get_table (put a (HTable t) v) b = Some u" using chain_end by simp
    then show ?thesis using chain.chain_end chain_end.hyps(2) by blast
  qed (use chain_end.prems in blast)
next
  case (chain_next b u d ds)
  show ?case
  proof (cases "b = a")
    case False
    then have "get_table (put a (HTable t) v) b = Some u" using chain_next by simp
    then show ?thesis using chain.chain_next chain_next by blast
  qed (use chain_next.prems in blast)
qed

lemma SetDelegate_table_ok:
  assumes ok: "delegates_ok v" and t: "get_table v a = Some t" and m: "chain v m ms"
  shows "SetDelegate (ORef RTable a) (Some m) v =
    Some (if a \<in> set ms then (False, v) else (True, put a (HTable (t\<lparr>tdelegate := Some m\<rparr>)) v))"
proof -
  obtain ms' where "ms = m # ms'" using chain_hd [OF m] by blast
  then show ?thesis
    using t delegates_to_chain [OF m, of "ORef RTable a"] by (auto simp: SetDelegate_def set_delegate_of_def)
qed

lemma delegates_ok_put:
  assumes ok: "delegates_ok v" and m: "chain v m ms" "a \<notin> set ms"
  shows "delegates_ok (put a (HTable (t\<lparr>tdelegate := Some m\<rparr>)) v)"
proof -
  let ?v = "put a (HTable (t\<lparr>tdelegate := Some m\<rparr>)) v"
  have a: "chain ?v a (a # ms)"
    using chain_avoiding [OF m] by (auto intro!: chain_next)
  have "\<exists>ds. chain ?v b ds" if "get_table ?v b = Some u" for b u
  proof (cases "b = a")
    case False
    then obtain ds where "chain v b ds" using ok \<open>get_table ?v b = Some u\<close> by (auto simp: delegates_ok_def)
    then show ?thesis using chain_through a by blast
  qed (use a in blast)
  then show ?thesis by (simp add: delegates_ok_def)
qed

text \<open>
  C26: setting the delegate of a table never closes a cycle: it always answers, it refuses exactly when the
  table is already on the chain of its new delegate (and then changes nothing), and afterwards every
  table's chain of delegates still ends.
\<close>

theorem SetDelegate_keeps_chains:
  assumes "delegates_ok v" "get_table v a = Some t" "get_table v m = Some u"
  shows "\<exists>b v'. SetDelegate (ORef RTable a) (Some m) v = Some (b, v') \<and> delegates_ok v' \<and>
    (b \<longleftrightarrow> (\<forall>ms. chain v m ms \<longrightarrow> a \<notin> set ms)) \<and> (\<not> b \<longrightarrow> v' = v) \<and>
    (b \<longrightarrow> delegate_of v' (ORef RTable a) = Some (Some m))"
proof -
  obtain ms where ms: "chain v m ms" using assms(1,3) by (auto simp: delegates_ok_def)
  have "(\<forall>ms. chain v m ms \<longrightarrow> a \<notin> set ms) \<longleftrightarrow> a \<notin> set ms" using ms chain_unique by blast
  then show ?thesis
    using SetDelegate_table_ok [OF assms(1,2) ms] delegates_ok_put [OF assms(1) ms, of a t] assms(1)
    by (auto simp: delegate_of_def)
qed

section \<open>Reading along a chain\<close>

definition tables_ok :: "vm \<Rightarrow> bool" where
  "tables_ok v \<longleftrightarrow> (\<forall>a t. get_table v a = Some t \<longrightarrow> table_inv t)"

text \<open>The contents of a table, and the first table of a list that has a key.\<close>

definition slot_in :: "vm \<Rightarrow> lvobj \<Rightarrow> u64 \<Rightarrow> lvobj option" where
  "slot_in v key a = (case get_table v a of Some t \<Rightarrow> table_map t key | None \<Rightarrow> None)"

definition first_slot :: "vm \<Rightarrow> lvobj \<Rightarrow> u64 list \<Rightarrow> lvobj option" where
  "first_slot v key as =
     (case filter (\<lambda>a. slot_in v key a \<noteq> None) as of [] \<Rightarrow> None | a # _ \<Rightarrow> slot_in v key a)"

lemma first_slot_Nil [simp]: "first_slot v key [] = None"
  by (simp add: first_slot_def)

lemma first_slot_Cons:
  "first_slot v key (a # as) = (case slot_in v key a of Some x \<Rightarrow> Some x | None \<Rightarrow> first_slot v key as)"
  by (simp add: first_slot_def split: option.split)

lemma table_lookup_slot:
  assumes "tables_ok v" "get_table v a = Some t" "key \<noteq> ONull"
  shows "table_lookup v a key = Some (map_option (realval (weak_of v)) (slot_in v key a))"
  using assms table_Get_map [of t "weak_of v" key] by (simp add: table_lookup_def slot_in_def tables_ok_def)

lemma Get_own_table:
  assumes "tables_ok v" "get_table v a = Some t" "key \<noteq> ONull"
  shows "Get_own (ORef RTable a) key flags v =
    Some (found_or (Looking v) (map_option (realval (weak_of v)) (slot_in v key a)) v)"
  using table_lookup_slot [OF assms] by (simp add: Get_own_def)

lemma Get_own_found:
  assumes "Get_own self key flags v = Some (Found x v)"
  shows "vm_Get call self key flags selfidx v = Some (True, Some x, v)"
  by (subst vm_Get.simps) (simp add: assms still_def search_end_def)

lemma Get_from_delegate:
  assumes "Get_own self key flags v = Some (Looking v)" "Get_delegate self flags v = Some (Some d)"
    and "vm_Get call (ORef RTable d) key 0 DONT_FALL_BACK v = Some (True, Some x, v)"
  shows "vm_Get call self key flags selfidx v = Some (True, Some x, v)"
  by (subst vm_Get.simps)
    (simp add: assms still_def search_end_def resume_search_def Get_fallback_def search_then_def)

lemma Get_delegate_table:
  assumes "get_table v a = Some t" "flags AND GET_FLAG_RAW = 0"
  shows "Get_delegate (ORef RTable a) flags v = Some (tdelegate t)"
  using assms by (simp add: Get_delegate_def delegate_of_def)

text \<open>
  C27: reading a slot of a table finds the value of the first table, from the object itself along its chain
  of delegates, that has the key, whatever default delegates, metamethods and root tables there are, and
  changes nothing.
\<close>

theorem Get_first_of_chain:
  assumes "chain v a as" "tables_ok v" "key \<noteq> ONull" "flags AND GET_FLAG_RAW = 0" "first_slot v key as = Some x"
  shows "vm_Get call (ORef RTable a) key flags selfidx v = Some (True, Some (realval (weak_of v) x), v)"
  using assms(1,4,5)
proof (induction arbitrary: flags selfidx rule: chain.induct)
  case (chain_end a t)
  then have "slot_in v key a = Some x" by (simp add: first_slot_Cons split: option.splits)
  then show ?case
    using Get_own_found Get_own_table [OF assms(2) chain_end.hyps(1) assms(3)] by (simp add: found_or_def)
next
  case (chain_next a t d ds)
  note o = Get_own_table [OF assms(2) chain_next.hyps(1) assms(3), of flags]
  show ?case
  proof (cases "slot_in v key a")
    case None
    then have "first_slot v key ds = Some x" using chain_next.prems by (simp add: first_slot_Cons)
    then have "vm_Get call (ORef RTable d) key 0 DONT_FALL_BACK v = Some (True, Some (realval (weak_of v) x), v)"
      using chain_next.IH by simp
    then show ?thesis
      using Get_from_delegate o None Get_delegate_table [OF chain_next.hyps(1) chain_next.prems(1)] chain_next.hyps(2)
      by (simp add: found_or_def)
  next
    case (Some y)
    then have "y = x" using chain_next.prems by (simp add: first_slot_Cons)
    then show ?thesis using Get_own_found o Some by (simp add: found_or_def)
  qed
qed

section \<open>Writing along a chain\<close>

lemma put_same: "v_heap v a = Some ob \<Longrightarrow> put a ob v = v"
  by (simp add: put_def fun_upd_idem)

lemma get_table_heap: "get_table v a = Some t \<longleftrightarrow> v_heap v a = Some (HTable t)"
  by (simp add: get_table_def split: option.splits heap_obj.splits)

lemma table_Set_absent: "table_Set t k x = Some (False, t') \<Longrightarrow> t' = t"
  by (auto simp: table_Set_def bind_eq_Some_conv split: option.splits)

lemma table_store_slot:
  assumes "tables_ok v" "get_table v a = Some t" "key \<noteq> ONull"
  shows "slot_in v key a = None \<Longrightarrow> table_store a key val v = Some (False, v)"
    "slot_in v key a \<noteq> None \<Longrightarrow> \<exists>t'. table_store a key val v = Some (True, put a (HTable t') v) \<and>
       table_map t' = (table_map t)(key \<mapsto> val) \<and> tdelegate t' = tdelegate t \<and> table_inv t'"
proof -
  have "table_inv t" using assms by (auto simp: tables_ok_def)
  from table_Set_ok [OF this assms(3), of val] obtain t' where
    t': "table_Set t key val = Some (key \<in> dom (table_map t), t')" "table_inv t'" "tdelegate t' = tdelegate t"
    "table_map t' = (if key \<in> dom (table_map t) then (table_map t)(key \<mapsto> val) else table_map t)" by blast
  have s: "slot_in v key a = table_map t key" by (simp add: slot_in_def assms(2))
  show "table_store a key val v = Some (False, v)" if n: "slot_in v key a = None"
  proof -
    have "key \<notin> dom (table_map t)" using n s by auto
    then have "table_Set t key val = Some (False, t')" using t'(1) by simp
    moreover from table_Set_absent [OF this] have "t' = t" .
    moreover have "put a (HTable t) v = v" using put_same assms(2) get_table_heap by blast
    ultimately show ?thesis
      using assms(2) by (simp add: table_store_def put_table_def)
  qed
  show "\<exists>t'. table_store a key val v = Some (True, put a (HTable t') v) \<and>
      table_map t' = (table_map t)(key \<mapsto> val) \<and> tdelegate t' = tdelegate t \<and> table_inv t'"
    if n: "slot_in v key a \<noteq> None"
  proof -
    have "key \<in> dom (table_map t)" using n s by auto
    then show ?thesis using t' assms(2) by (auto simp: table_store_def put_table_def)
  qed
qed

lemma Set_own_done:
  "Set_own self key val v = Some (Inr r) \<Longrightarrow> vm_Set call self key val selfidx v = Some r"
  by (subst vm_Set.simps) simp

lemma Set_from_delegate:
  assumes "Set_own (ORef RTable a) key val v = Some (Inl v)" "delegate_of v (ORef RTable a) = Some (Some d)"
    and "vm_Set call (ORef RTable d) key val DONT_FALL_BACK v = Some (True, w)"
  shows "vm_Set call (ORef RTable a) key val selfidx v = Some (True, w)"
  by (subst vm_Set.simps) (simp add: assms)

lemma Set_own_table:
  "Set_own (ORef RTable a) key val v = do {
     (b, v) \<leftarrow> table_store a key val v; Some (if b then Inr (True, v) else Inl v) }"
  by (simp add: Set_own_def)

text \<open>
  C28: writing a slot of a table changes the first table, from the object itself along its chain of
  delegates, that has the key, and changes there this one slot; nothing else of the machine changes.
\<close>

theorem Set_first_of_chain:
  assumes "chain v a as" "tables_ok v" "key \<noteq> ONull" "as = ps @ b # qs"
    and "\<forall>p \<in> set ps. slot_in v key p = None" "get_table v b = Some u" "table_map u key \<noteq> None"
  shows "\<exists>u'. vm_Set call (ORef RTable a) key val selfidx v = Some (True, put b (HTable u') v) \<and>
    table_map u' = (table_map u)(key \<mapsto> val) \<and> tdelegate u' = tdelegate u \<and> table_inv u'"
proof -
  have "slot_in v key b \<noteq> None" using assms(6,7) by (simp add: slot_in_def)
  from table_store_slot(2) [OF assms(2,6,3) this, of val] obtain u' where
    u': "table_store b key val v = Some (True, put b (HTable u') v)" "table_map u' = (table_map u)(key \<mapsto> val)"
    "tdelegate u' = tdelegate u" "table_inv u'" by blast
  have own: "Set_own (ORef RTable b) key val v = Some (Inr (True, put b (HTable u') v))"
    by (simp add: Set_own_table u'(1))
  have "vm_Set call (ORef RTable a) key val selfidx v = Some (True, put b (HTable u') v)"
    using assms(1,4,5)
  proof (induction arbitrary: ps selfidx rule: chain.induct)
    case (chain_end a t)
    then have "a = b" by (cases ps) auto
    then show ?case using Set_own_done [OF own] by simp
  next
    case (chain_next a t d ds)
    show ?case
    proof (cases ps)
      case Nil
      then have "a = b" using chain_next.prems by simp
      then show ?thesis using Set_own_done [OF own] by simp
    next
      case (Cons p ps')
      then have p: "p = a" "ds = ps' @ b # qs" "\<forall>p \<in> set ps'. slot_in v key p = None" "slot_in v key a = None"
        using chain_next.prems by auto
      have "Set_own (ORef RTable a) key val v = Some (Inl v)"
        using table_store_slot(1) [OF assms(2) chain_next.hyps(1) assms(3) p(4)] by (simp add: Set_own_table)
      moreover have "delegate_of v (ORef RTable a) = Some (Some d)"
        using chain_next.hyps(1,2) by (simp add: delegate_of_def)
      ultimately show ?thesis using Set_from_delegate chain_next.IH [OF p(2,3)] by blast
    qed
  qed
  then show ?thesis using u' by blast
qed

section \<open>An object with a parent\<close>

definition child_vm :: "lvtable \<Rightarrow> vm" where
  "child_vm p = (demo_vm [ONull])\<lparr>v_heap :=
     [16 \<mapsto> HTable ((table_create 0)\<lparr>tdelegate := Some 32\<rparr>), 32 \<mapsto> HTable p, 48 \<mapsto> HTable (table_create 0)]\<rparr>"

lemma child_tables:
  "get_table (child_vm p) 16 = Some ((table_create 0)\<lparr>tdelegate := Some 32\<rparr>)"
  "get_table (child_vm p) 32 = Some p" "get_table (child_vm p) 48 = Some (table_create 0)"
  "get_table (child_vm p) a \<noteq> None \<longleftrightarrow> a \<in> {16, 32, 48}" "weak_of (child_vm p) a = ONull"
  by (auto simp: get_table_def child_vm_def weak_of_def)

lemma parent_table:
  "\<exists>p. table_inv p \<and> table_map p = [OString ''x'' \<mapsto> OInteger 7] \<and> tdelegate p = None"
proof -
  have c: "table_inv (table_create 0)" "table_map (table_create 0) = Map.empty" "tdelegate (table_create 0) = None"
    using table_create_ok [of 0] by (auto simp: table_create_def AllocNodes_def)
  from table_NewSlot_ok [OF c(1), of "OString ''x''" "OInteger 7"] show ?thesis using c by auto
qed

lemma child_ok:
  assumes "table_inv p" "tdelegate p = None" "table_map p = [OString ''x'' \<mapsto> OInteger 7]"
  shows "chain (child_vm p) 16 [16, 32]" "tables_ok (child_vm p)" "delegates_ok (child_vm p)"
    "slot_in (child_vm p) (OString ''x'') 16 = None" "slot_in (child_vm p) (OString ''x'') 32 = Some (OInteger 7)"
proof -
  have c: "table_inv (table_create 0)" "table_map (table_create 0) = Map.empty" "tdelegate (table_create 0) = None"
    using table_create_ok [of 0] by (auto simp: table_create_def AllocNodes_def)
  have 32: "chain (child_vm p) 32 [32]" using chain_end child_tables(2) assms(2) by blast
  show 16: "chain (child_vm p) 16 [16, 32]"
    by (rule chain_next [OF child_tables(1) _ 32]) simp
  have 48: "chain (child_vm p) 48 [48]" using chain_end child_tables(3) c(3) by blast
  have all: "a \<in> {16, 32, 48}" if "get_table (child_vm p) a = Some t" for a t
    using that child_tables(4) by blast
  show "delegates_ok (child_vm p)"
    unfolding delegates_ok_def using all 16 32 48 by blast
  have i: "table_inv ((table_create 0)\<lparr>tdelegate := Some 32\<rparr>)" "table_map ((table_create 0)\<lparr>tdelegate := Some 32\<rparr>) = Map.empty"
    using c(1,2) by (simp_all add: table_inv_def)
  show "tables_ok (child_vm p)"
    unfolding tables_ok_def using all child_tables(1-3) assms(1) c(1) i(1) by fastforce
  show "slot_in (child_vm p) (OString ''x'') 16 = None" "slot_in (child_vm p) (OString ''x'') 32 = Some (OInteger 7)"
    using i(2) assms(3) by (simp_all add: slot_in_def child_tables)
qed

theorem SetDelegate_keeps_chains_witness:
  "\<exists>v v'. SetDelegate (ORef RTable 32) (Some 16) v = Some (False, v) \<and>
    SetDelegate (ORef RTable 48) (Some 16) v = Some (True, v') \<and> delegates_ok v'"
proof -
  obtain p where p: "table_inv p" "table_map p = [OString ''x'' \<mapsto> OInteger 7]" "tdelegate p = None"
    using parent_table by blast
  note k = child_ok [OF p(1,3,2)]
  let ?v = "child_vm p"
  have "SetDelegate (ORef RTable 32) (Some 16) ?v = Some (False, ?v)"
    using SetDelegate_keeps_chains [OF k(3) child_tables(2) child_tables(1)] k(1) by fastforce
  moreover have n: "\<forall>ms. chain ?v 16 ms \<longrightarrow> 48 \<notin> set ms" using chain_unique [OF k(1)] by fastforce
  obtain b v' where b: "SetDelegate (ORef RTable 48) (Some 16) ?v = Some (b, v')" "delegates_ok v'"
    "b \<longleftrightarrow> (\<forall>ms. chain ?v 16 ms \<longrightarrow> 48 \<notin> set ms)"
    using SetDelegate_keeps_chains [OF k(3) child_tables(3) child_tables(1)] by blast
  then have "b = True" using n by simp
  with b(1,2) have "SetDelegate (ORef RTable 48) (Some 16) ?v = Some (True, v')" "delegates_ok v'" by simp_all
  ultimately show ?thesis by blast
qed

theorem Get_first_of_chain_witness:
  "\<exists>v. chain v 16 [16, 32] \<and>
    vm_Get (\<lambda>_ _ _ _ _. None) (ORef RTable 16) (OString ''x'') 0 666 v = Some (True, Some (OInteger 7), v)"
proof -
  obtain p where p: "table_inv p" "table_map p = [OString ''x'' \<mapsto> OInteger 7]" "tdelegate p = None"
    using parent_table by blast
  note k = child_ok [OF p(1,3,2)]
  have "first_slot (child_vm p) (OString ''x'') [16, 32] = Some (OInteger 7)"
    using k(4,5) by (simp add: first_slot_Cons)
  from Get_first_of_chain [OF k(1,2) _ _ this, of 0 "\<lambda>_ _ _ _ _. None" 666] k(1) show ?thesis by auto
qed

theorem Set_first_of_chain_witness:
  "\<exists>v u'. vm_Set (\<lambda>_ _ _ _ _. None) (ORef RTable 16) (OString ''x'') (OInteger 8) 666 v =
      Some (True, put 32 (HTable u') v) \<and> table_map u' = [OString ''x'' \<mapsto> OInteger 8]"
proof -
  obtain p where p: "table_inv p" "table_map p = [OString ''x'' \<mapsto> OInteger 7]" "tdelegate p = None"
    using parent_table by blast
  note k = child_ok [OF p(1,3,2)]
  have "\<exists>u'. vm_Set (\<lambda>_ _ _ _ _. None) (ORef RTable 16) (OString ''x'') (OInteger 8) 666 (child_vm p) =
      Some (True, put 32 (HTable u') (child_vm p)) \<and> table_map u' = (table_map p)(OString ''x'' \<mapsto> OInteger 8) \<and>
      tdelegate u' = tdelegate p \<and> table_inv u'"
    by (rule Set_first_of_chain [OF k(1,2) _ _ _ child_tables(2), where ps = "[16]" and qs = "[]"])
      (simp_all add: k(4) p(2))
  then show ?thesis using p(2) by auto
qed

end
