(* ===== verification/Class_Laws.thy ===== *)
theory Class_Laws
  imports Classes Frames Delegation
begin

text \<open>
  The invariant of classes and instances: every entry of a class's table of members is the index of one of
  its fields or methods, an instance has one value for each field of its class, and a class with
  instances no longer gains fields. It makes the unchecked indexing of \<^verbatim>\<open>src/class.cpp\<close> safe.
\<close>

section \<open>Member indices\<close>

lemma unat24: "i < 2 ^ 24 \<Longrightarrow> unat (of_nat i :: u64) = i"
  by (simp add: unat_of_nat)

lemma mask24:
  assumes "i < 2 ^ 24"
  shows "(of_nat i :: u64) AND 0xFFFFFF = of_nat i"
proof -
  note u = unat24 [OF assms]
  have "unat (take_bit 24 (of_nat i :: u64)) = unat (of_nat i :: u64)"
    using assms by (simp add: unsigned_take_bit_eq u take_bit_nat_eq_self)
  then have "take_bit 24 (of_nat i :: u64) = of_nat i" by (simp add: word_unat_eq_iff)
  then show ?thesis by (simp add: take_bit_eq_mask mask_numeral)
qed

lemma field_idx:
  assumes "i < 2 ^ 24"
  shows "isfield (make_field_idx i)" "\<not> ismethod (make_field_idx i)" "member_idx (make_field_idx i) = i"
proof -
  let ?x = "of_nat i :: u64"
  have x: "?x AND 0xFFFFFF = ?x" by (rule mask24 [OF assms])
  have z: "?x AND 0x01000000 = 0"
    by (subst x [symmetric]) (simp add: and.assoc)
  show "isfield (make_field_idx i)" "\<not> ismethod (make_field_idx i)" "member_idx (make_field_idx i) = i"
    using x z assms
    by (simp_all add: isfield_def ismethod_def member_idx_def make_field_idx_def MEMBER_TYPE_FIELD_def
        MEMBER_TYPE_METHOD_def bit.conj_disj_distrib2 unat24 or_eq_0_iff)
qed

lemma method_idx:
  assumes "i < 2 ^ 24"
  shows "\<not> isfield (make_method_idx i)" "ismethod (make_method_idx i)" "member_idx (make_method_idx i) = i"
proof -
  let ?x = "of_nat i :: u64"
  have x: "?x AND 0xFFFFFF = ?x" by (rule mask24 [OF assms])
  have z: "?x AND 0x02000000 = 0"
    by (subst x [symmetric]) (simp add: and.assoc)
  show "\<not> isfield (make_method_idx i)" "ismethod (make_method_idx i)" "member_idx (make_method_idx i) = i"
    using x z assms
    by (simp_all add: isfield_def ismethod_def member_idx_def make_method_idx_def MEMBER_TYPE_FIELD_def
        MEMBER_TYPE_METHOD_def bit.conj_disj_distrib2 unat24 or_eq_0_iff)
qed

section \<open>The invariant\<close>

definition member_ok :: "lvclass \<Rightarrow> lvobj \<Rightarrow> bool" where
  "member_ok c x \<longleftrightarrow>
     (\<exists>i < length (cl_defaultvalues c). i < 2 ^ 24 \<and> x = make_field_idx i) \<or>
     (\<exists>i < length (cl_methods c). i < 2 ^ 24 \<and> x = make_method_idx i)"

definition class_ok :: "vm \<Rightarrow> lvclass \<Rightarrow> bool" where
  "class_ok v c \<longleftrightarrow> length (cl_metamethods c) = 18 \<and>
     (cl_constructoridx c = - 1 \<or> 0 \<le> cl_constructoridx c \<and> nat (cl_constructoridx c) < length (cl_methods c)) \<and>
     (\<exists>t. get_table v (cl_members c) = Some t \<and> table_inv t \<and> (\<forall>k x. table_map t k = Some x \<longrightarrow> member_ok c x))"

text \<open>The chain of bases of a class.\<close>

inductive bases :: "vm \<Rightarrow> u64 \<Rightarrow> u64 list \<Rightarrow> bool" for v where
  bases_root: "get_class v a = Some c \<Longrightarrow> cl_base c = None \<Longrightarrow> bases v a [a]"
| bases_sub: "get_class v a = Some c \<Longrightarrow> cl_base c = Some b \<Longrightarrow> bases v b bs \<Longrightarrow> bases v a (a # bs)"

definition instance_ok :: "vm \<Rightarrow> lvinstance \<Rightarrow> bool" where
  "instance_ok v i \<longleftrightarrow> (\<exists>c. get_class v (in_class i) = Some c \<and> cl_locked c \<and>
     length (in_values i) = length (cl_defaultvalues c))"

definition objects_ok :: "vm \<Rightarrow> bool" where
  "objects_ok v \<longleftrightarrow>
     (\<forall>a c. get_class v a = Some c \<longrightarrow> class_ok v c \<and> (\<exists>bs. bases v a bs)) \<and>
     (\<forall>a b c d. get_class v a = Some c \<longrightarrow> get_class v b = Some d \<longrightarrow> cl_members c = cl_members d \<longrightarrow> a = b) \<and>
     (\<forall>a i. get_instance v a = Some i \<longrightarrow> instance_ok v i)"

lemma get_put [simp]:
  "get_class (put a ob v) b = (if b = a then (case ob of HClass c \<Rightarrow> Some c | _ \<Rightarrow> None) else get_class v b)"
  "get_instance (put a ob v) b = (if b = a then (case ob of HInstance c \<Rightarrow> Some c | _ \<Rightarrow> None) else get_instance v b)"
  "get_closure (put a ob v) b = (if b = a then (case ob of HClosure c \<Rightarrow> Some c | _ \<Rightarrow> None) else get_closure v b)"
  by (simp_all add: get_class_def get_instance_def get_closure_def split: heap_obj.split)

lemma get_table_put_if: "get_table (put a ob v) b = (if b = a then (case ob of HTable t \<Rightarrow> Some t | _ \<Rightarrow> None) else get_table v b)"
  by (simp add: get_table_def split: heap_obj.split)

lemma get_heap:
  "get_class v a = Some c \<longleftrightarrow> v_heap v a = Some (HClass c)"
  "get_instance v a = Some i \<longleftrightarrow> v_heap v a = Some (HInstance i)"
  "get_closure v a = Some k \<longleftrightarrow> v_heap v a = Some (HClosure k)"
  by (simp_all add: get_class_def get_instance_def get_closure_def split: option.splits heap_obj.splits)

lemma objects_okD:
  assumes "objects_ok v"
  shows "get_class v a = Some c \<Longrightarrow> class_ok v c" "get_class v a = Some c \<Longrightarrow> \<exists>bs. bases v a bs"
    "get_class v a = Some c \<Longrightarrow> get_class v b = Some d \<Longrightarrow> cl_members c = cl_members d \<Longrightarrow> a = b"
    "get_instance v a = Some i \<Longrightarrow> instance_ok v i"
  using assms by (auto simp: objects_ok_def)

section \<open>Reading members\<close>

text \<open>What looking a name up in the members gives.\<close>

lemma members_get_ok:
  assumes "class_ok v c"
  obtains "members_get v c key = Some None"
  | i where "members_get v c key = Some (Some (make_field_idx i))" "i < length (cl_defaultvalues c)" "i < 2 ^ 24"
  | i where "members_get v c key = Some (Some (make_method_idx i))" "i < length (cl_methods c)" "i < 2 ^ 24"
proof -
  obtain t where t: "get_table v (cl_members c) = Some t" "table_inv t" "\<forall>k x. table_map t k = Some x \<longrightarrow> member_ok c x"
    using assms by (auto simp: class_ok_def)
  have m: "members_get v c key = Some (map_option (realval (weak_of v)) (table_map t key))"
    using t(1) table_Get_map [OF t(2)] by (simp add: members_get_def)
  show thesis
  proof (cases "table_map t key")
    case None
    then show thesis using m that(1) by simp
  next
    case (Some x)
    then have "member_ok c x" using t(3) by blast
    then consider i where "i < length (cl_defaultvalues c)" "i < 2 ^ 24" "x = make_field_idx i"
      | i where "i < length (cl_methods c)" "i < 2 ^ 24" "x = make_method_idx i" by (auto simp: member_ok_def)
    then show thesis
    proof cases
      case 1
      then show thesis using m Some that(2) [of i] by (simp add: make_field_idx_def)
    next
      case 2
      then show thesis using m Some that(3) [of i] by (simp add: make_method_idx_def)
    qed
  qed
qed

lemma class_Get_defined:
  assumes "objects_ok v" "get_class v a = Some c"
  shows "class_Get a key v \<noteq> None" "class_GetAttributes a key v \<noteq> None" "class_GetConstructor a v \<noteq> None"
proof -
  have ok: "class_ok v c" using objects_okD(1) [OF assms] .
  show "class_Get a key v \<noteq> None" "class_GetAttributes a key v \<noteq> None"
    by (rule members_get_ok [OF ok, of key];
        simp add: class_Get_def class_GetAttributes_def assms(2) field_idx method_idx nth_opt_def)+
  show "class_GetConstructor a v \<noteq> None"
    using ok by (auto simp: class_GetConstructor_def assms(2) class_ok_def nth_opt_def)
qed

lemma instance_Get_defined:
  assumes "objects_ok v" "get_instance v a = Some i"
  shows "instance_Get a key v \<noteq> None" "instance_GetMetaMethod a mm v \<noteq> None"
proof -
  obtain c where c: "get_class v (in_class i) = Some c" "length (in_values i) = length (cl_defaultvalues c)"
    using objects_okD(4) [OF assms] by (auto simp: instance_ok_def)
  have ok: "class_ok v c" using objects_okD(1) [OF assms(1) c(1)] .
  show "instance_Get a key v \<noteq> None"
    by (rule members_get_ok [OF ok, of key]; simp add: instance_Get_def assms(2) c field_idx method_idx nth_opt_def)
  have "mm_index mm < 18" by (cases mm) (simp_all add: mm_index_def mm_list_def)
  then show "instance_GetMetaMethod a mm v \<noteq> None"
    using ok by (simp add: instance_GetMetaMethod_def assms(2) c nth_opt_def class_ok_def)
qed

section \<open>Updates keep the invariant\<close>

lemma bases_mono:
  assumes "bases v a bs" "\<And>a c. get_class v a = Some c \<Longrightarrow> \<exists>d. get_class w a = Some d \<and> cl_base d = cl_base c"
  shows "bases w a bs"
  using assms(1)
proof induction
  case (bases_root a c)
  then show ?case using assms(2) [of a c] bases.bases_root [of w a] by auto
next
  case (bases_sub a c b bs)
  then show ?case using assms(2) [of a c] bases.bases_sub [of w a] by auto
qed

lemma class_ok_cong: "get_table w (cl_members c) = get_table v (cl_members c) \<Longrightarrow> class_ok w c = class_ok v c"
  by (simp add: class_ok_def)

lemma put_class_members:
  assumes ok: "objects_ok v" and a: "get_class v a = Some c"
    and c': "cl_base c' = cl_base c" "cl_members c' = cl_members c" "length (cl_metamethods c') = 18"
      "cl_constructoridx c' = - 1 \<or> 0 \<le> cl_constructoridx c' \<and> nat (cl_constructoridx c') < length (cl_methods c')"
    and t': "table_inv t'" "\<And>k x. table_map t' k = Some x \<Longrightarrow> member_ok c' x"
    and l: "cl_locked c \<Longrightarrow> cl_locked c' \<and> length (cl_defaultvalues c') = length (cl_defaultvalues c)"
  shows "objects_ok (put a (HClass c') (put (cl_members c) (HTable t') v))" (is "objects_ok ?w")
proof -
  obtain t where t: "get_table v (cl_members c) = Some t" using objects_okD(1) [OF ok a] by (auto simp: class_ok_def)
  have ne: "cl_members c \<noteq> a" using a t by (auto simp: get_heap get_table_heap)
  have cls: "get_class ?w b = (if b = a then Some c' else get_class v b)" for b
  proof -
    have "get_class v (cl_members c) = None" using t by (simp add: get_table_heap get_class_def)
    then show ?thesis by simp
  qed
  have ins: "get_instance ?w b = get_instance v b" for b
    using a t by (auto simp: get_table_heap get_heap get_instance_def)
  have "class_ok ?w d \<and> (\<exists>bs. bases ?w b bs)" if d: "get_class ?w b = Some d" for b d
  proof
    have tab: "get_table ?w x = (if x = cl_members c then Some t' else get_table v x)" for x
      using ne a by (auto simp: get_table_put_if get_heap get_table_def)
    show "class_ok ?w d"
    proof (cases "b = a")
      case True
      then have "d = c'" using d unfolding cls by simp
      then show ?thesis using c' t' tab by (simp add: class_ok_def)
    next
      case False
      then have d': "get_class v b = Some d" using d unfolding cls by simp
      then have "cl_members d \<noteq> cl_members c" using objects_okD(3) [OF ok d' a] False by blast
      then have "get_table ?w (cl_members d) = get_table v (cl_members d)" using tab by simp
      then show ?thesis using objects_okD(1) [OF ok d'] class_ok_cong by blast
    qed
    obtain d0 where "get_class v b = Some d0" using d a unfolding cls by (cases "b = a") auto
    then obtain bs where "bases v b bs" using objects_okD(2) [OF ok] by blast
    then have "bases ?w b bs" by (rule bases_mono) (use a c'(1) in \<open>auto simp only: cls split: if_splits\<close>)
    then show "\<exists>bs. bases ?w b bs" by blast
  qed
  moreover have "x = y" if xy: "get_class ?w x = Some d" "get_class ?w y = Some e" "cl_members d = cl_members e" for x y d e
  proof -
    have old: "\<exists>d0. get_class v x = Some d0 \<and> cl_members d0 = cl_members d" if h: "get_class ?w x = Some d" for x d
    proof (cases "x = a")
      case True
      then show ?thesis using h a c'(2) unfolding cls by simp
    next
      case False
      then show ?thesis using h unfolding cls by simp
    qed
    from old [OF xy(1)] old [OF xy(2)]
    show ?thesis using objects_okD(3) [OF ok] xy(3) by metis
  qed
  moreover have "instance_ok ?w i" if bi: "get_instance ?w b = Some i" for b i
  proof -
    obtain d where "get_class v (in_class i) = Some d" "cl_locked d" "length (in_values i) = length (cl_defaultvalues d)"
      using objects_okD(4) [OF ok] bi unfolding ins by (auto simp: instance_ok_def)
    then show ?thesis using l a unfolding instance_ok_def cls by auto
  qed
  ultimately show ?thesis unfolding objects_ok_def by blast
qed

lemma put_class_only:
  assumes ok: "objects_ok v" and a: "get_class v a = Some c"
    and c': "cl_base c' = cl_base c" "cl_members c' = cl_members c" "length (cl_metamethods c') = 18"
      "cl_constructoridx c' = cl_constructoridx c" "length (cl_defaultvalues c') = length (cl_defaultvalues c)"
      "length (cl_methods c') = length (cl_methods c)" "cl_locked c \<Longrightarrow> cl_locked c'"
  shows "objects_ok (put a (HClass c') v)"
proof -
  obtain t where t: "get_table v (cl_members c) = Some t" "table_inv t" "\<And>k x. table_map t k = Some x \<Longrightarrow> member_ok c x"
    "cl_constructoridx c = - 1 \<or> 0 \<le> cl_constructoridx c \<and> nat (cl_constructoridx c) < length (cl_methods c)"
    using objects_okD(1) [OF ok a] by (auto simp: class_ok_def)
  have m: "member_ok c' x = member_ok c x" for x using c' by (simp add: member_ok_def)
  have "put (cl_members c) (HTable t) v = v" using t(1) by (simp add: put_same get_table_heap)
  then show ?thesis
    using put_class_members [OF ok a c'(1-3) _ t(2), unfolded m] t(3,4) c' by simp
qed

text \<open>Objects of other kinds do not matter.\<close>

fun neutral :: "heap_obj \<Rightarrow> bool" where
  "neutral (HTable t) \<longleftrightarrow> False"
| "neutral (HClass c) \<longleftrightarrow> False"
| "neutral (HInstance i) \<longleftrightarrow> False"
| "neutral _ \<longleftrightarrow> True"

lemma neutral_gets:
  assumes "neutral ob" "v_heap v a = None \<or> (\<exists>x. v_heap v a = Some x \<and> neutral x)"
  shows "get_class (put a ob v) = get_class v" "get_instance (put a ob v) = get_instance v" "get_table (put a ob v) = get_table v"
  using assms
  by (auto simp: fun_eq_iff get_class_def get_instance_def get_table_def split: heap_obj.splits)

lemma objects_ok_gets:
  assumes "get_class w = get_class v" "get_instance w = get_instance v" "get_table w = get_table v"
  shows "objects_ok w = objects_ok v"
proof -
  have "class_ok w = class_ok v" by (rule ext) (simp add: class_ok_def assms(3))
  moreover have "bases w a bs = bases v a bs" for a bs
    using bases_mono [of w a bs v] bases_mono [of v a bs w] assms(1) by auto
  moreover have "instance_ok w = instance_ok v" by (rule ext) (simp add: instance_ok_def assms(1))
  ultimately show ?thesis using assms(1,2) by (simp add: objects_ok_def)
qed

lemma objects_ok_heap: "v_heap w = v_heap v \<Longrightarrow> objects_ok w = objects_ok v"
  by (rule objects_ok_gets) (simp_all add: fun_eq_iff get_class_def get_instance_def get_table_def)

section \<open>New slots and attributes\<close>

lemma upd_opt_in: "i < length xs \<Longrightarrow> upd_opt i f xs = Some (xs[i := f (xs ! i)])"
  by (simp add: upd_opt_def)

lemma SetAttributes_ok:
  assumes "objects_ok v" "get_class v a = Some c"
  shows "\<exists>b v'. class_SetAttributes a key val v = Some (b, v') \<and> objects_ok v'"
proof -
  have ok: "class_ok v c" using objects_okD(1) [OF assms] .
  then have mm: "length (cl_metamethods c) = 18" by (simp add: class_ok_def)
  show ?thesis
  proof (rule members_get_ok [OF ok, of key])
    assume "members_get v c key = Some None"
    then show ?thesis using assms by (auto simp: class_SetAttributes_def)
  next
    fix i assume i: "members_get v c key = Some (Some (make_field_idx i))" "i < length (cl_defaultvalues c)" "i < 2 ^ 24"
    let ?c = "c\<lparr>cl_defaultvalues := (cl_defaultvalues c)[i := (cl_defaultvalues c ! i)\<lparr>m_attrs := val\<rparr>]\<rparr>"
    have "objects_ok (put a (HClass ?c) v)"
      by (rule put_class_only [OF assms]) (simp_all add: mm)
    then show ?thesis using i assms(2) by (auto simp: class_SetAttributes_def field_idx upd_opt_in)
  next
    fix i assume i: "members_get v c key = Some (Some (make_method_idx i))" "i < length (cl_methods c)" "i < 2 ^ 24"
    let ?c = "c\<lparr>cl_methods := (cl_methods c)[i := (cl_methods c ! i)\<lparr>m_attrs := val\<rparr>]\<rparr>"
    have "objects_ok (put a (HClass ?c) v)"
      by (rule put_class_only [OF assms]) (simp_all add: mm)
    then show ?thesis using i assms(2) by (auto simp: class_SetAttributes_def method_idx upd_opt_in)
  qed
qed

text \<open>Adding an entry to the members.\<close>

lemma member_ok_mono:
  "member_ok c x \<Longrightarrow> length (cl_defaultvalues c) \<le> length (cl_defaultvalues d) \<Longrightarrow>
   length (cl_methods c) \<le> length (cl_methods d) \<Longrightarrow> member_ok d x"
  unfolding member_ok_def using order.strict_trans2 by blast

lemma add_member:
  assumes ok: "objects_ok v" and a: "get_class v a = Some c" and key: "key \<noteq> ONull"
    and c': "cl_base c' = cl_base c" "cl_members c' = cl_members c" "length (cl_metamethods c') = 18"
      "cl_constructoridx c' = - 1 \<or> 0 \<le> cl_constructoridx c' \<and> nat (cl_constructoridx c') < length (cl_methods c')"
      "length (cl_defaultvalues c) \<le> length (cl_defaultvalues c')" "length (cl_methods c) \<le> length (cl_methods c')"
    and x: "member_ok c' x"
    and l: "cl_locked c \<Longrightarrow> cl_locked c' \<and> length (cl_defaultvalues c') = length (cl_defaultvalues c)"
  shows "\<exists>t b t'. get_table v (cl_members c) = Some t \<and> table_NewSlot t key x = Some (b, t') \<and>
    objects_ok (put a (HClass c') (put (cl_members c) (HTable t') v))"
proof -
  obtain t where t: "get_table v (cl_members c) = Some t" "table_inv t" "\<And>k x. table_map t k = Some x \<Longrightarrow> member_ok c x"
    using objects_okD(1) [OF ok a] by (auto simp: class_ok_def)
  obtain b t' where t': "table_NewSlot t key x = Some (b, t')" "table_inv t'" "table_map t' = (table_map t)(key \<mapsto> x)"
    using table_NewSlot_ok [OF t(2) key, of x] by blast
  have "objects_ok (put a (HClass c') (put (cl_members c) (HTable t') v))"
  proof (rule put_class_members [OF ok a c'(1-4) t'(2)])
    fix k y assume "table_map t' k = Some y"
    then show "member_ok c' y"
      using t(3) t'(3) x member_ok_mono [OF _ c'(5,6)] by (cases "k = key") auto
  qed (use l in auto)
  then show ?thesis using t(1) t'(1) by blast
qed

text \<open>The copy of a closure that gets the class's base.\<close>

definition bound_value :: "lvclass \<Rightarrow> lvobj \<Rightarrow> vm \<Rightarrow> (lvobj \<times> vm) option" where
  "bound_value c val v =
     (case (cl_base c, val) of
         (Some b, ORef RClosure f) \<Rightarrow> do {
           (f', v) \<leftarrow> closure_Clone f v;
           clo \<leftarrow> get_closure v f';
           Some (ORef RClosure f', put f' (HClosure (clo\<lparr>c_base := Some b\<rparr>)) v)
         }
       | _ \<Rightarrow> Some (val, v))"

lemma bound_value_ok:
  assumes "heap_ok v" "v_free v \<noteq> []" "\<And>f. val = ORef RClosure f \<Longrightarrow> get_closure v f \<noteq> None"
  shows "\<exists>x w. bound_value c val v = Some (x, w) \<and> get_class w = get_class v \<and> get_instance w = get_instance v \<and>
    get_table w = get_table v"
proof (cases "\<exists>b f. cl_base c = Some b \<and> val = ORef RClosure f")
  case True
  then obtain b f where bf: "cl_base c = Some b" "val = ORef RClosure f" by blast
  then obtain k where k: "get_closure v f = Some k" using assms(3) by blast
  obtain g fs where g: "v_free v = g # fs" using assms(2) by (cases "v_free v") auto
  then have n: "v_heap v g = None" using assms(1) by (auto simp: heap_ok_def)
  let ?w = "put g (HClosure (k\<lparr>c_base := None\<rparr>)) (v\<lparr>v_free := fs\<rparr>)"
  have "bound_value c val v = Some (ORef RClosure g, put g (HClosure (k\<lparr>c_base := Some b\<rparr>)) ?w)"
    using bf k g by (simp add: bound_value_def closure_Clone_def alloc_def)
  moreover have "get_class (put g (HClosure (k\<lparr>c_base := Some b\<rparr>)) ?w) = get_class ?w"
    "get_instance (put g (HClosure (k\<lparr>c_base := Some b\<rparr>)) ?w) = get_instance ?w"
    "get_table (put g (HClosure (k\<lparr>c_base := Some b\<rparr>)) ?w) = get_table ?w"
    by (rule neutral_gets; simp)+
  moreover have "get_class ?w = get_class (v\<lparr>v_free := fs\<rparr>)" "get_instance ?w = get_instance (v\<lparr>v_free := fs\<rparr>)"
    "get_table ?w = get_table (v\<lparr>v_free := fs\<rparr>)"
    by (rule neutral_gets; simp add: n)+
  moreover have "get_class (v\<lparr>v_free := fs\<rparr>) = get_class v" "get_instance (v\<lparr>v_free := fs\<rparr>) = get_instance v"
    "get_table (v\<lparr>v_free := fs\<rparr>) = get_table v"
    by (simp_all add: fun_eq_iff get_class_def get_instance_def get_table_def)
  ultimately show ?thesis by simp
next
  case False
  then have "bound_value c val v = Some (val, v)" by (auto simp: bound_value_def split: option.split lvobj.split rkind.split)
  then show ?thesis by blast
qed

lemma put_method_unfold:
  "class_put_method a c temp key val v = do {
     (x, v) \<leftarrow> bound_value c val v;
     (case (case temp of Some x \<Rightarrow> x | None \<Rightarrow> ONull) of
        ONull \<Rightarrow> do {
          let c = (if IsEqual (OString ''constructor'') key
                   then c\<lparr>cl_constructoridx := int (length (cl_methods c))\<rparr> else c);
          t \<leftarrow> get_table v (cl_members c);
          (b, t) \<leftarrow> table_NewSlot t key (make_method_idx (length (cl_methods c)));
          let v = put (cl_members c) (HTable t) v;
          Some (put a (HClass (c\<lparr>cl_methods := cl_methods c @ [\<lparr>m_val = x, m_attrs = ONull\<rparr>]\<rparr>)) v)
        }
      | y \<Rightarrow> do {
          ms \<leftarrow> upd_opt (member_idx y) (\<lambda>m. m\<lparr>m_val := x\<rparr>) (cl_methods c);
          Some (put a (HClass (c\<lparr>cl_methods := ms\<rparr>)) v)
        })
   }"
  by (simp add: class_put_method_def bound_value_def)

text \<open>A class has room for one more member of either kind.\<close>

definition has_room :: "lvclass \<Rightarrow> bool" where
  "has_room c \<longleftrightarrow> length (cl_defaultvalues c) < 2 ^ 24 \<and> length (cl_methods c) < 2 ^ 24"

lemma put_method_ok:
  assumes ok: "objects_ok v" and a: "get_class v a = Some c" and key: "key \<noteq> ONull" and room: "has_room c"
    and h: "heap_ok v" "v_free v \<noteq> []" "\<And>f. val = ORef RClosure f \<Longrightarrow> get_closure v f \<noteq> None"
    and temp: "temp = None \<or> (\<exists>i. temp = Some (make_method_idx i) \<and> i < length (cl_methods c) \<and> i < 2 ^ 24)"
  shows "\<exists>v'. class_put_method a c temp key val v = Some v' \<and> objects_ok v'"
proof -
  obtain x w where x: "bound_value c val v = Some (x, w)"
    and w: "get_class w = get_class v" "get_instance w = get_instance v" "get_table w = get_table v"
    using bound_value_ok [OF h] by blast
  have ok': "objects_ok w" using ok objects_ok_gets [OF w] by simp
  have a': "get_class w a = Some c" using a w(1) by simp
  have cc: "length (cl_metamethods c) = 18"
    "cl_constructoridx c = - 1 \<or> 0 \<le> cl_constructoridx c \<and> nat (cl_constructoridx c) < length (cl_methods c)"
    using objects_okD(1) [OF ok a] by (auto simp: class_ok_def)
  from temp show ?thesis
  proof
    assume n: "temp = None"
    define d where "d = (if IsEqual (OString ''constructor'') key then c\<lparr>cl_constructoridx := int (length (cl_methods c))\<rparr> else c)"
    define d' where "d' = d\<lparr>cl_methods := cl_methods c @ [\<lparr>m_val = x, m_attrs = ONull\<rparr>]\<rparr>"
    have d: "cl_members d = cl_members c" "cl_methods d = cl_methods c" by (simp_all add: d_def)
    have f: "cl_base d' = cl_base c" "cl_members d' = cl_members c" "length (cl_metamethods d') = 18"
      "cl_constructoridx d' = - 1 \<or> 0 \<le> cl_constructoridx d' \<and> nat (cl_constructoridx d') < length (cl_methods d')"
      "length (cl_defaultvalues c) = length (cl_defaultvalues d')" "length (cl_methods c) < length (cl_methods d')"
      "cl_locked d' = cl_locked c"
      using cc by (auto simp: d'_def d_def)
    have m: "member_ok d' (make_method_idx (length (cl_methods c)))"
      using room f(6) by (auto simp: member_ok_def has_room_def)
    obtain t b t' where "get_table w (cl_members c) = Some t" "table_NewSlot t key (make_method_idx (length (cl_methods c))) = Some (b, t')"
      "objects_ok (put a (HClass d') (put (cl_members c) (HTable t') w))"
      using add_member [OF ok' a' key f(1-4) _ _ m] f by auto
    then show ?thesis using n x by (simp add: put_method_unfold d_def [symmetric] Let_def d d'_def)
  next
    assume "\<exists>i. temp = Some (make_method_idx i) \<and> i < length (cl_methods c) \<and> i < 2 ^ 24"
    then obtain i where i: "temp = Some (make_method_idx i)" "i < length (cl_methods c)" "i < 2 ^ 24" by blast
    let ?c = "c\<lparr>cl_methods := (cl_methods c)[i := (cl_methods c ! i)\<lparr>m_val := x\<rparr>]\<rparr>"
    have "objects_ok (put a (HClass ?c) w)"
      by (rule put_class_only [OF ok' a']) (simp_all add: cc)
    moreover have "make_method_idx i = OInteger (MEMBER_TYPE_METHOD OR of_nat i)" by (simp add: make_method_idx_def)
    ultimately show ?thesis using i x method_idx(3) [OF i(3)] by (simp add: put_method_unfold upd_opt_in)
  qed
qed

lemma class_add_ok:
  assumes ok: "objects_ok v" and a: "get_class v a = Some c" and key: "key \<noteq> ONull" and room: "has_room c"
    and h: "heap_ok v" "v_free v \<noteq> []" "\<And>f. val = ORef RClosure f \<Longrightarrow> get_closure v f \<noteq> None"
    and temp: "temp = None \<or> (\<exists>i. temp = Some (make_method_idx i) \<and> i < length (cl_methods c) \<and> i < 2 ^ 24)"
    and lock: "cl_locked c \<Longrightarrow> static_table"
  shows "\<exists>v'. class_add a c temp key val static_table v = Some (True, v') \<and> objects_ok v'"
proof -
  have cc: "length (cl_metamethods c) = 18"
    "cl_constructoridx c = - 1 \<or> 0 \<le> cl_constructoridx c \<and> nat (cl_constructoridx c) < length (cl_methods c)"
    using objects_okD(1) [OF ok a] by (auto simp: class_ok_def)
  show ?thesis
  proof (cases static_table)
    case True
    show ?thesis
    proof (cases "if is_function val then GetMetaMethodIdxByName key else None")
      case None
      obtain v' where "class_put_method a c temp key val v = Some v'" "objects_ok v'"
        using put_method_ok [OF ok a key room h temp] by blast
      then show ?thesis by (simp add: class_add_def True None del: if_split)
    next
      case (Some i)
      let ?c = "c\<lparr>cl_metamethods := (cl_metamethods c)[i := val]\<rparr>"
      have "objects_ok (put a (HClass ?c) v)"
        by (rule put_class_only [OF ok a]) (simp_all add: cc)
      then show ?thesis using True Some by (simp add: class_add_def)
    qed
  next
    case False
    define d where "d = c\<lparr>cl_defaultvalues := cl_defaultvalues c @ [\<lparr>m_val = val, m_attrs = ONull\<rparr>]\<rparr>"
    have f: "cl_base d = cl_base c" "cl_members d = cl_members c" "length (cl_metamethods d) = 18"
      "cl_constructoridx d = - 1 \<or> 0 \<le> cl_constructoridx d \<and> nat (cl_constructoridx d) < length (cl_methods d)"
      "length (cl_defaultvalues c) < length (cl_defaultvalues d)" "length (cl_methods c) = length (cl_methods d)"
      using cc by (auto simp: d_def)
    have m: "member_ok d (make_field_idx (length (cl_defaultvalues c)))"
      using room f(5) by (auto simp: member_ok_def has_room_def)
    obtain t b t' where "get_table v (cl_members c) = Some t" "table_NewSlot t key (make_field_idx (length (cl_defaultvalues c))) = Some (b, t')"
      "objects_ok (put a (HClass d) (put (cl_members c) (HTable t') v))"
      using add_member [OF ok a key f(1-4) _ _ m] f(5,6) lock False by auto
    then show ?thesis using False by (simp add: class_add_def d_def)
  qed
qed

lemma class_NewSlot_add:
  assumes "get_class v a = Some c" "\<not> (cl_locked c \<and> \<not> (is_function val \<or> bstatic))"
    and "members_get v c key = Some temp" "\<And>i. temp = Some i \<Longrightarrow> \<not> isfield i"
  shows "class_NewSlot a key val bstatic v = class_add a c temp key val (is_function val \<or> bstatic) v"
  using assms by (cases temp) (auto simp: class_NewSlot_def Let_def)

lemma class_NewSlot_ok:
  assumes ok: "objects_ok v" and a: "get_class v a = Some c" and key: "key \<noteq> ONull" and room: "has_room c"
    and h: "heap_ok v" "v_free v \<noteq> []" "\<And>f. val = ORef RClosure f \<Longrightarrow> get_closure v f \<noteq> None"
  shows "\<exists>b v'. class_NewSlot a key val bstatic v = Some (b, v') \<and> objects_ok v' \<and>
    (b \<longleftrightarrow> \<not> cl_locked c \<or> is_function val \<or> bstatic)"
proof (cases "cl_locked c \<and> \<not> (is_function val \<or> bstatic)")
  case True
  then show ?thesis using ok a by (auto simp: class_NewSlot_def)
next
  case False
  have ck: "class_ok v c" using objects_okD(1) [OF ok a] .
  have step: "\<exists>v'. class_add a c temp key val (is_function val \<or> bstatic) v = Some (True, v') \<and> objects_ok v'"
    if "temp = None \<or> (\<exists>i. temp = Some (make_method_idx i) \<and> i < length (cl_methods c) \<and> i < 2 ^ 24)" for temp
    by (rule class_add_ok [OF ok a key room h that]) (use False in auto)
  show ?thesis
  proof (rule members_get_ok [OF ck, of key])
    assume "members_get v c key = Some None"
    then show ?thesis using step [of None] False class_NewSlot_add [OF a False, of key None] by auto
  next
    fix i assume i: "members_get v c key = Some (Some (make_field_idx i))" "i < length (cl_defaultvalues c)" "i < 2 ^ 24"
    let ?c = "c\<lparr>cl_defaultvalues := (cl_defaultvalues c)[i := (cl_defaultvalues c ! i)\<lparr>m_val := val\<rparr>]\<rparr>"
    have "objects_ok (put a (HClass ?c) v)"
      by (rule put_class_only [OF ok a]) (use ck in \<open>simp_all add: class_ok_def\<close>)
    then show ?thesis using i a False by (auto simp: class_NewSlot_def field_idx upd_opt_in)
  next
    fix i assume i: "members_get v c key = Some (Some (make_method_idx i))" "i < length (cl_methods c)" "i < 2 ^ 24"
    then show ?thesis
      using step [of "Some (make_method_idx i)"] False class_NewSlot_add [OF a False, of key "Some (make_method_idx i)"]
        method_idx(1) by auto
  qed
qed

section \<open>Locking\<close>

text \<open>Locking changes nothing but the locks of classes.\<close>

definition locks :: "vm \<Rightarrow> vm \<Rightarrow> bool" where
  "locks v w \<longleftrightarrow> (\<forall>a. get_class w a = get_class v a \<or>
       (\<exists>c. get_class v a = Some c \<and> get_class w a = Some (c\<lparr>cl_locked := True\<rparr>))) \<and>
     get_instance w = get_instance v \<and> get_table w = get_table v \<and> v_free w = v_free v \<and>
     (\<forall>a. v_heap w a = None \<longleftrightarrow> v_heap v a = None)"

lemma locks_trans:
  assumes "locks u v" "locks v w"
  shows "locks u w"
proof -
  have "get_class w a = get_class u a \<or> (\<exists>c. get_class u a = Some c \<and> get_class w a = Some (c\<lparr>cl_locked := True\<rparr>))" for a
    using assms unfolding locks_def by (elim conjE allE [of _ a]) auto
  then show ?thesis using assms by (auto simp: locks_def)
qed

lemma locks_one:
  assumes "get_class v a = Some c"
  shows "locks v (put a (HClass (c\<lparr>cl_locked := True\<rparr>)) v)"
  using assms by (auto simp: locks_def fun_eq_iff get_heap get_table_def get_instance_def)

lemma Lock_ok:
  "bases v a bs \<Longrightarrow> objects_ok v \<Longrightarrow>
   \<exists>w c. class_Lock a v = Some w \<and> objects_ok w \<and> locks v w \<and> get_class w a = Some c \<and> cl_locked c"
proof (induction bs arbitrary: a v)
  case Nil
  then show ?case by (auto elim: bases.cases)
next
  case (Cons x bs)
  obtain c where c: "get_class v a = Some c" using Cons.prems(1) by (auto elim: bases.cases)
  define v1 where "v1 = put a (HClass (c\<lparr>cl_locked := True\<rparr>)) v"
  have cl: "get_class v1 y = (if y = a then Some (c\<lparr>cl_locked := True\<rparr>) else get_class v y)" for y by (simp add: v1_def)
  have "length (cl_metamethods c) = 18" using objects_okD(1) [OF Cons.prems(2) c] by (simp add: class_ok_def)
  then have ok1: "objects_ok v1" unfolding v1_def by (intro put_class_only [OF Cons.prems(2) c]) simp_all
  have l1: "locks v v1" unfolding v1_def by (rule locks_one [OF c])
  show ?case
  proof (cases "cl_base c")
    case None
    then have "class_Lock a v = Some v1" using c by (subst class_Lock.simps) (simp add: v1_def)
    then show ?thesis using ok1 l1 cl by auto
  next
    case (Some b)
    then have "bases v b bs" using Cons.prems(1) c by (auto elim: bases.cases)
    then have "bases v1 b bs" by (rule bases_mono) (use cl c in auto)
    then obtain w d where w: "class_Lock b v1 = Some w" "objects_ok w" "locks v1 w" using Cons.IH ok1 by blast
    have "get_class w a = Some (c\<lparr>cl_locked := True\<rparr>)"
      using w(3) cl [of a] by (auto simp: locks_def dest: spec [of _ a])
    moreover have "class_Lock a v = Some w" using c Some w(1) by (subst class_Lock.simps) (simp add: v1_def)
    ultimately show ?thesis using w locks_trans [OF l1 w(3)] by auto
  qed
qed

section \<open>Instances\<close>

lemma objects_ok_instances:
  assumes "objects_ok v" "get_class w = get_class v" "get_table w = get_table v"
    and "\<And>x i. get_instance w x = Some i \<Longrightarrow> instance_ok v i"
  shows "objects_ok w"
proof -
  have "class_ok w = class_ok v" by (rule ext) (simp add: class_ok_def assms(3))
  moreover have "bases w a bs = bases v a bs" for a bs
    using bases_mono [of w a bs v] bases_mono [of v a bs w] assms(2) by auto
  moreover have "instance_ok w = instance_ok v" by (rule ext) (simp add: instance_ok_def assms(2))
  ultimately show ?thesis using assms by (simp add: objects_ok_def)
qed

lemma alloc_instance:
  assumes "objects_ok v" "heap_ok v" "v_free v = f # fs" "instance_ok v i"
  shows "alloc (HInstance i) v = Some (f, put f (HInstance i) (v\<lparr>v_free := fs\<rparr>))"
    "objects_ok (put f (HInstance i) (v\<lparr>v_free := fs\<rparr>))"
proof -
  show "alloc (HInstance i) v = Some (f, put f (HInstance i) (v\<lparr>v_free := fs\<rparr>))" using assms(3) by (simp add: alloc_def)
  have n: "v_heap v f = None" using assms(2,3) by (auto simp: heap_ok_def)
  show "objects_ok (put f (HInstance i) (v\<lparr>v_free := fs\<rparr>))"
  proof (rule objects_ok_instances [OF assms(1)])
    show "get_class (put f (HInstance i) (v\<lparr>v_free := fs\<rparr>)) = get_class v"
      "get_table (put f (HInstance i) (v\<lparr>v_free := fs\<rparr>)) = get_table v"
      using n by (auto simp: fun_eq_iff get_class_def get_table_def)
    show "instance_ok v j" if "get_instance (put f (HInstance i) (v\<lparr>v_free := fs\<rparr>)) x = Some j" for x j
    proof (cases "x = f")
      case True
      then show ?thesis using that assms(4) by simp
    next
      case False
      then have "get_instance v x = Some j" using that by (simp add: get_instance_def)
      then show ?thesis using objects_okD(4) [OF assms(1)] by blast
    qed
  qed
qed

lemma CreateInstance_ok:
  assumes ok: "objects_ok v" and a: "get_class v a = Some c" and h: "heap_ok v" "v_free v \<noteq> []"
  shows "\<exists>i w d. class_CreateInstance a v = Some (i, w) \<and> objects_ok w \<and> get_class w a = Some d \<and> cl_locked d \<and>
    get_instance w i = Some \<lparr>in_class = a, in_values = map m_val (cl_defaultvalues c), in_delegate = Some (cl_members c)\<rparr>"
proof -
  obtain bs where bs: "bases v a bs" using objects_okD(2) [OF ok a] by blast
  obtain u d where u: "(if \<not> cl_locked c then class_Lock a v else Some v) = Some u" "objects_ok u" "get_class u a = Some d"
    "cl_locked d" "v_free u = v_free v" "heap_ok u" "cl_defaultvalues d = cl_defaultvalues c" "cl_members d = cl_members c"
  proof (cases "cl_locked c")
    case True
    then show thesis using that [of v c] ok a h by simp
  next
    case False
    obtain w d where w: "class_Lock a v = Some w" "objects_ok w" "locks v w" "get_class w a = Some d" "cl_locked d"
      using Lock_ok [OF bs ok] by blast
    have "d = c \<or> d = c\<lparr>cl_locked := True\<rparr>" using w(3,4) a by (auto simp: locks_def dest: spec [of _ a])
    moreover have "heap_ok w" using w(3) h by (auto simp: locks_def heap_ok_def)
    ultimately show thesis using that [of w d] w False by (auto simp: locks_def)
  qed
  obtain f fs where f: "v_free u = f # fs" using h(2) u(5) by (cases "v_free v") auto
  define i where "i = \<lparr>in_class = a, in_values = map m_val (cl_defaultvalues c), in_delegate = Some (cl_members c)\<rparr>"
  have io: "instance_ok u i" using u(3,4,7) by (simp add: instance_ok_def i_def)
  note al = alloc_instance [OF u(2,6) f io]
  have "class_CreateInstance a v = Some (f, put f (HInstance i) (u\<lparr>v_free := fs\<rparr>))"
    using u(1,3,7,8) al(1) a by (simp add: class_CreateInstance_def instance_create_def i_def)
  moreover have "get_class (put f (HInstance i) (u\<lparr>v_free := fs\<rparr>)) a = Some d"
    using u(3,6) f by (auto simp: get_heap heap_ok_def)
  ultimately show ?thesis using al(2) u(4) by (auto simp: i_def)
qed

lemma instance_Clone_ok:
  assumes ok: "objects_ok v" and i: "get_instance v a = Some i" and h: "heap_ok v" "v_free v \<noteq> []"
  shows "\<exists>j w. instance_Clone a v = Some (j, w) \<and> objects_ok w \<and> map_option in_values (get_instance w j) = Some (in_values i)"
proof -
  obtain c where c: "get_class v (in_class i) = Some c" "cl_locked c" "length (in_values i) = length (cl_defaultvalues c)"
    using objects_okD(4) [OF ok i] by (auto simp: instance_ok_def)
  obtain f fs where f: "v_free v = f # fs" using h(2) by (cases "v_free v") auto
  define j where "j = \<lparr>in_class = in_class i, in_values = in_values i, in_delegate = Some (cl_members c)\<rparr>"
  have "instance_ok v j" using c by (simp add: instance_ok_def j_def)
  from alloc_instance [OF ok h(1) f this] show ?thesis using i c by (auto simp: instance_Clone_def j_def)
qed

lemma instance_Set_ok:
  assumes ok: "objects_ok v" and i: "get_instance v a = Some i"
  shows "\<exists>b w. instance_Set a key val v = Some (b, w) \<and> objects_ok w \<and> (\<not> b \<longrightarrow> w = v) \<and>
    (b \<longrightarrow> instance_Get a key w = Some (Some (realval (weak_of w) val)))"
proof -
  obtain c where c: "get_class v (in_class i) = Some c" "cl_locked c" "length (in_values i) = length (cl_defaultvalues c)"
    using objects_okD(4) [OF ok i] by (auto simp: instance_ok_def)
  have ck: "class_ok v c" using objects_okD(1) [OF ok c(1)] .
  show ?thesis
  proof (rule members_get_ok [OF ck, of key])
    assume "members_get v c key = Some None"
    then show ?thesis using ok i c by (auto simp: instance_Set_def)
  next
    fix n assume n: "members_get v c key = Some (Some (make_field_idx n))" "n < length (cl_defaultvalues c)" "n < 2 ^ 24"
    define j where "j = i\<lparr>in_values := (in_values i)[n := val]\<rparr>"
    define w where "w = put a (HInstance j) v"
    have ai: "v_heap v a = Some (HInstance i)" using i by (simp add: get_heap)
    have g: "get_class w = get_class v" "get_table w = get_table v" "weak_of w = weak_of v"
      using ai by (auto simp: fun_eq_iff get_class_def get_table_def weak_of_def w_def)
    have jo: "instance_ok v j" using c by (simp add: instance_ok_def j_def)
    have "objects_ok w"
    proof (rule objects_ok_instances [OF ok g(1,2)])
      show "instance_ok v k" if "get_instance w x = Some k" for x k
        using that jo objects_okD(4) [OF ok, of x k] by (cases "x = a") (simp_all add: w_def)
    qed
    moreover have "instance_Set a key val v = Some (True, w)"
      using n c i by (simp add: instance_Set_def field_idx upd_opt_in w_def j_def)
    moreover have gi: "get_instance w a = Some j" by (simp add: w_def)
    moreover have "members_get w c key = members_get v c key" by (simp add: members_get_def g)
    then have "instance_Get a key w = Some (Some (realval (weak_of w) val))"
      using n c gi by (simp add: instance_Get_def g field_idx nth_opt_def j_def)
    ultimately show ?thesis by blast
  next
    fix n assume "members_get v c key = Some (Some (make_method_idx n))" "n < length (cl_methods c)" "n < 2 ^ 24"
    then show ?thesis using ok i c by (auto simp: instance_Set_def method_idx)
  qed
qed

section \<open>New classes\<close>

lemma alloc_class:
  assumes ok: "objects_ok v" and h: "heap_ok v" "v_free v = m # a # fs" and t: "table_inv t"
    and mem: "\<And>k x. table_map t k = Some x \<Longrightarrow> member_ok c x" "cl_members c = m" "length (cl_metamethods c) = 18"
      "cl_constructoridx c = - 1 \<or> 0 \<le> cl_constructoridx c \<and> nat (cl_constructoridx c) < length (cl_methods c)"
    and b: "\<And>b. cl_base c = Some b \<Longrightarrow> get_class v b \<noteq> None"
  shows "objects_ok (put a (HClass c) (put m (HTable t) (v\<lparr>v_free := fs\<rparr>)))" (is "objects_ok ?w")
proof -
  have n: "v_heap v m = None" "v_heap v a = None" "a \<noteq> m" using h by (auto simp: heap_ok_def)
  have cls: "get_class ?w = (get_class v)(a \<mapsto> c)" and ins: "get_instance ?w = get_instance v"
    and tab: "get_table ?w = (get_table v)(m \<mapsto> t)"
    using n by (auto simp: fun_eq_iff get_class_def get_instance_def get_table_def)
  have old: "get_class v a = None" "get_table v m = None" using n by (simp_all add: get_class_def get_table_def)
  have bs: "bases ?w x xs" if "bases v x xs" for x xs
    using that by (rule bases_mono) (use old(1) in \<open>auto simp only: cls fun_upd_apply split: if_splits\<close>)
  have "class_ok ?w d \<and> (\<exists>bs. bases ?w x bs)" if d: "get_class ?w x = Some d" for x d
  proof (cases "x = a")
    case True
    then have dc: "d = c" using d by (simp only: cls) simp
    have wa: "get_class ?w a = Some c" by (simp only: cls) simp
    have "\<exists>bs. bases ?w a bs"
    proof (cases "cl_base c")
      case None
      then show ?thesis using bases_root [OF wa] by blast
    next
      case (Some b0)
      then obtain e where "get_class v b0 = Some e" using b by blast
      then obtain xs where "bases v b0 xs" using objects_okD(2) [OF ok] by blast
      then show ?thesis using bases_sub [OF wa Some] bs by blast
    qed
    then show ?thesis using dc True t mem by (simp only: class_ok_def tab) simp
  next
    case False
    then have d': "get_class v x = Some d" using d by (simp only: cls) simp
    have cd: "class_ok v d" using objects_okD(1) [OF ok d'] .
    then have "cl_members d \<noteq> m" using old(2) by (auto simp: class_ok_def)
    then have "class_ok ?w d" using cd by (simp only: class_ok_def tab) simp
    then show ?thesis using objects_okD(2) [OF ok d'] bs by blast
  qed
  moreover have "x = y" if xy: "get_class ?w x = Some d" "get_class ?w y = Some e" "cl_members d = cl_members e" for x y d e
  proof -
    have no: "cl_members d \<noteq> m" if "get_class v x = Some d" for x d
      using objects_okD(1) [OF ok that] old(2) by (auto simp: class_ok_def)
    have new: "x = a \<and> d = c \<or> get_class v x = Some d" if h: "get_class ?w x = Some d" for x d
      using h unfolding cls by (cases "x = a") simp_all
    from new [OF xy(1)] new [OF xy(2)] show ?thesis
      using xy(3) mem(2) no objects_okD(3) [OF ok] by metis
  qed
  moreover have "instance_ok ?w i" if bi: "get_instance ?w x = Some i" for x i
  proof -
    have "instance_ok v i" using objects_okD(4) [OF ok] bi unfolding ins by blast
    then show ?thesis using old(1) by (auto simp only: instance_ok_def cls fun_upd_apply split: if_splits)
  qed
  ultimately show ?thesis unfolding objects_ok_def by blast
qed

lemma class_create_ok:
  assumes ok: "objects_ok v" and h: "heap_ok v" "2 \<le> length (v_free v)"
    and b: "\<And>b. base = Some b \<Longrightarrow> get_class v b \<noteq> None"
  shows "\<exists>a w. class_create base v = Some (a, w) \<and> objects_ok w"
proof -
  obtain m a fs where f: "v_free v = m # a # fs"
    using h(2) by (cases "v_free v"; cases "tl (v_free v)") auto
  show ?thesis
  proof (cases base)
    case None
    let ?c = "\<lparr>cl_members = m, cl_base = None, cl_defaultvalues = [], cl_methods = [],
      cl_metamethods = replicate 18 ONull, cl_attributes = ONull, cl_abstract = False, cl_locked = False, cl_constructoridx = - 1\<rparr>"
    have "objects_ok (put a (HClass ?c) (put m (HTable (table_create 0)) (v\<lparr>v_free := fs\<rparr>)))"
      by (rule alloc_class [OF ok h(1) f table_create_ok(1)]) (simp_all add: table_create_ok(3))
    moreover have "class_create None v = Some (a, put a (HClass ?c) (put m (HTable (table_create 0)) (v\<lparr>v_free := fs\<rparr>)))"
      by (simp add: class_create_def alloc_def f put_def)
    ultimately show ?thesis using None by auto
  next
    case (Some b0)
    then obtain d where d: "get_class v b0 = Some d" using b by blast
    have dk: "class_ok v d" using objects_okD(1) [OF ok d] .
    then obtain t where t: "get_table v (cl_members d) = Some t" "table_inv t" "\<And>k x. table_map t k = Some x \<Longrightarrow> member_ok d x"
      by (auto simp: class_ok_def)
    obtain t' where t': "table_Clone (weak_of v) t = Some t'" "table_inv t'" "table_map t' = table_map t"
      using table_Clone_ok [OF t(2)] by blast
    let ?c = "\<lparr>cl_members = m, cl_base = Some b0, cl_defaultvalues = cl_defaultvalues d, cl_methods = cl_methods d,
      cl_metamethods = cl_metamethods d, cl_attributes = ONull, cl_abstract = False, cl_locked = False,
      cl_constructoridx = cl_constructoridx d\<rparr>"
    have "member_ok ?c x" if "table_map t' k = Some x" for k x
      using t(3) [of k x] that t'(3) by (simp add: member_ok_def)
    then have "objects_ok (put a (HClass ?c) (put m (HTable t') (v\<lparr>v_free := fs\<rparr>)))"
      by (intro alloc_class [OF ok h(1) f t'(2)]) (use dk d in \<open>auto simp: class_ok_def\<close>)
    moreover have "class_create (Some b0) v = Some (a, put a (HClass ?c) (put m (HTable t') (v\<lparr>v_free := fs\<rparr>)))"
      using d t(1) t'(1) by (simp add: class_create_def alloc_def f put_def)
    ultimately show ?thesis using Some by auto
  qed
qed

section \<open>The interface of classes\<close>

text \<open>The operations a program can run on classes and instances, in one type.\<close>

datatype class_op = MakeClass "u64 option" | AddMember u64 lvobj lvobj bool | SetAttrs u64 lvobj lvobj
  | MakeInstance u64 | SetField u64 lvobj lvobj | CloneInstance u64

fun class_do :: "class_op \<Rightarrow> vm \<Rightarrow> vm option" where
  "class_do (MakeClass b) v = map_option snd (class_create b v)"
| "class_do (AddMember a k x s) v = map_option snd (class_NewSlot a k x s v)"
| "class_do (SetAttrs a k x) v = map_option snd (class_SetAttributes a k x v)"
| "class_do (MakeInstance a) v = map_option snd (class_CreateInstance a v)"
| "class_do (SetField a k x) v = map_option snd (instance_Set a k x v)"
| "class_do (CloneInstance a) v = map_option snd (instance_Clone a v)"

text \<open>
  Its arguments exist, a key is not null (\<open>LVVM::NewSlot\<close> refuses it), a closure is one, and there is room:
  two free addresses and fewer than \<open>2 ^ 24\<close> members.
\<close>

definition room_for :: "vm \<Rightarrow> bool" where
  "room_for v \<longleftrightarrow> heap_ok v \<and> 2 \<le> length (v_free v)"

fun class_args :: "class_op \<Rightarrow> vm \<Rightarrow> bool" where
  "class_args (MakeClass b) v \<longleftrightarrow> (case b of None \<Rightarrow> True | Some a \<Rightarrow> get_class v a \<noteq> None)"
| "class_args (AddMember a k x s) v \<longleftrightarrow> k \<noteq> ONull \<and> (case get_class v a of Some c \<Rightarrow> has_room c | None \<Rightarrow> False) \<and>
     (case x of ORef RClosure f \<Rightarrow> get_closure v f \<noteq> None | _ \<Rightarrow> True)"
| "class_args (SetAttrs a k x) v \<longleftrightarrow> get_class v a \<noteq> None"
| "class_args (MakeInstance a) v \<longleftrightarrow> get_class v a \<noteq> None"
| "class_args (SetField a k x) v \<longleftrightarrow> get_instance v a \<noteq> None"
| "class_args (CloneInstance a) v \<longleftrightarrow> get_instance v a \<noteq> None"

text \<open>
  C29: no operation on classes and instances indexes outside a class's fields and methods or an instance's
  values: from a state in which the members are consistent every operation ends, and leaves a state in
  which they are again consistent; in such a state every name can be looked up in every class and every
  instance.
\<close>

theorem class_operations_safe:
  assumes "objects_ok v" "room_for v" "class_args p v"
  shows "\<exists>w. class_do p v = Some w \<and> objects_ok w \<and>
    (\<forall>a key. (get_class w a \<noteq> None \<longrightarrow> class_Get a key w \<noteq> None \<and> class_GetAttributes a key w \<noteq> None \<and> class_GetConstructor a w \<noteq> None) \<and>
       (get_instance w a \<noteq> None \<longrightarrow> instance_Get a key w \<noteq> None))"
proof -
  have h: "heap_ok v" "2 \<le> length (v_free v)" "v_free v \<noteq> []" using assms(2) by (auto simp: room_for_def)
  have "\<exists>w. class_do p v = Some w \<and> objects_ok w"
  proof (cases p)
    case (MakeClass b)
    then have "b = Some c \<Longrightarrow> get_class v c \<noteq> None" for c using assms(3) by auto
    then obtain a w where "class_create b v = Some (a, w)" "objects_ok w" using class_create_ok [OF assms(1) h(1,2), of b] by blast
    then show ?thesis using MakeClass by simp
  next
    case (AddMember a k x s)
    then obtain c where c: "get_class v a = Some c" "has_room c" "k \<noteq> ONull"
      using assms(3) by (auto split: option.splits)
    have cl: "get_closure v f \<noteq> None" if "x = ORef RClosure f" for f using assms(3) AddMember that by simp
    have "\<exists>b v'. class_NewSlot a k x s v = Some (b, v') \<and> objects_ok v' \<and> (b \<longleftrightarrow> \<not> cl_locked c \<or> is_function x \<or> s)"
      by (rule class_NewSlot_ok [OF assms(1) c(1,3,2) h(1,3)]) (rule cl)
    then show ?thesis using AddMember by auto
  next
    case (SetAttrs a k x)
    then show ?thesis using assms(3) SetAttributes_ok [OF assms(1)] by fastforce
  next
    case (MakeInstance a)
    then show ?thesis using assms(3) CreateInstance_ok [OF assms(1) _ h(1,3)] by fastforce
  next
    case (SetField a k x)
    then show ?thesis using assms(3) instance_Set_ok [OF assms(1)] by fastforce
  next
    case (CloneInstance a)
    then show ?thesis using assms(3) instance_Clone_ok [OF assms(1) _ h(1,3)] by fastforce
  qed
  then obtain w where w: "class_do p v = Some w" "objects_ok w" by blast
  then show ?thesis using class_Get_defined [OF w(2)] instance_Get_defined(1) [OF w(2)] by blast
qed

lemma demo_objects: "objects_ok (demo_vm s)"
  by (simp add: objects_ok_def get_class_def get_instance_def demo_vm_def)

theorem class_operations_safe_witness:
  "\<exists>w. class_do (MakeClass None) (demo_vm []) = Some w \<and> objects_ok w"
proof -
  have "room_for (demo_vm [])" "class_args (MakeClass None) (demo_vm [])"
    by (simp_all add: room_for_def demo_outers_ok)
  from class_operations_safe [OF demo_objects this] show ?thesis by blast
qed



end
