(* ===== verification/Generators.thy ===== *)
theory Generators
  imports Calls Frames
begin

text \<open>
  Suspending a generator and resuming it in another frame (\<^verbatim>\<open>src/object.cpp\<close>) gives the frame back.
\<close>

section \<open>Blocks of slots\<close>

lemma read_slots_ok:
  "0 \<le> i \<Longrightarrow> i + int n \<le> int (length (v_stack v)) \<Longrightarrow>
   read_slots v i n = Some (take n (drop (nat i) (v_stack v)))"
proof (induction n arbitrary: i)
  case (Suc n)
  have "drop (nat i) (v_stack v) = v_stack v ! nat i # drop (nat (i + 1)) (v_stack v)"
    using Suc.prems by (simp add: Cons_nth_drop_Suc nat_add_distrib)
  then show ?case using Suc by (simp add: at_stack_def)
qed simp

lemma write_slots_ok:
  "0 \<le> i \<Longrightarrow> i + int (length xs) \<le> int (length (v_stack v)) \<Longrightarrow>
   write_slots i xs v = Some (v\<lparr>v_stack := take (nat i) (v_stack v) @ xs @ drop (nat i + length xs) (v_stack v)\<rparr>)"
proof (induction xs arbitrary: i v)
  case (Cons x xs)
  let ?s = "v_stack v"
  have i: "nat i < length ?s" "nat (i + 1) = Suc (nat i)" using Cons.prems by (auto simp: nat_add_distrib)
  have "take (Suc (nat i)) (?s[nat i := x]) @ xs @ drop (Suc (nat i) + length xs) (?s[nat i := x]) =
      take (nat i) ?s @ (x # xs) @ drop (nat i + length (x # xs)) ?s"
    using i(1) by (simp add: take_Suc_conv_app_nth)
  then show ?case using Cons i by (simp add: set_stack_def)
qed simp

lemma move_traps_ok:
  "move_traps d n src dst =
     (if n \<le> length src then Some (drop n src, rev (map (shift_trap d) (take n src)) @ dst) else None)"
  by (induction n arbitrary: src dst) (auto split: list.split)

lemma shift_trap_shift [simp]: "shift_trap a (shift_trap b t) = shift_trap (b + a) t"
  by (simp add: shift_trap_def add.assoc)

lemma EnterFrame_ok:
  assumes "v_nmeta v = 0" "0 \<le> nt" "0 \<le> nb"
  shows "\<exists>w ys c. EnterFrame nb nt False v = Some (True, w) \<and>
    w = v\<lparr>v_calls := c # v_calls v, v_stackbase := nb, v_top := nt, v_stack := v_stack v @ ys\<rparr> \<and>
    nt + MIN_STACK_OVERHEAD \<le> int (length (v_stack v @ ys))"
proof (cases "nt + MIN_STACK_OVERHEAD > int (length (v_stack v))")
  case True
  then show ?thesis
    using assms by (auto simp: EnterFrame_def Let_def RelocateOuters_def MIN_STACK_OVERHEAD_def)
next
  case False
  then show ?thesis
    using assms by (auto simp: EnterFrame_def Let_def intro!: exI [of _ "[]"])
qed

section \<open>Weak references\<close>

definition weakrefs_ok :: "vm \<Rightarrow> bool" where
  "weakrefs_ok v \<longleftrightarrow> (\<forall>ob a. v_weakrefs v ob = Some a \<longrightarrow> v_heap v a = Some (HWeakRef ob))"

text \<open>How a frame keeps its \<open>this\<close>: as a weak reference when it is counted.\<close>

definition weaken :: "lvobj \<Rightarrow> vm \<Rightarrow> (lvobj \<times> vm) option" where
  "weaken ob v = (if is_refcounted_obj ob then GetWeakRef ob v else Some (ob, v))"

lemma not_counted_realval: "\<not> is_refcounted_obj ob \<Longrightarrow> realval wr ob = ob"
  by (cases "(wr, ob)" rule: realval.cases) (auto simp: is_refcounted_obj_def, code_simp)

text \<open>The weak references of one heap are still there, and refer to the same objects, in another.\<close>

definition weak_kept :: "(u64 \<rightharpoonup> heap_obj) \<Rightarrow> (u64 \<rightharpoonup> heap_obj) \<Rightarrow> bool" where
  "weak_kept h h' \<longleftrightarrow> (\<forall>a x. h a = Some (HWeakRef x) \<longrightarrow> h' a = Some (HWeakRef x))"

lemma weak_kept_refl [simp]: "weak_kept h h" by (simp add: weak_kept_def)

lemma weak_keptD: "weak_kept h (v_heap v) \<Longrightarrow> h a = Some (HWeakRef x) \<Longrightarrow> weak_of v a = x"
  by (auto simp: weak_kept_def weak_of_def)

lemma weaken_ok:
  assumes "weakrefs_ok v" "heap_ok v" "v_free v \<noteq> []"
  shows "\<exists>w h as wk. weaken ob v = Some (w, v\<lparr>v_heap := h, v_free := as, v_weakrefs := wk\<rparr>) \<and>
    v_heap v \<subseteq>\<^sub>m h \<and> (\<forall>v2. weak_kept h (v_heap v2) \<longrightarrow> realval (weak_of v2) w = ob)"
proof (cases "is_refcounted_obj ob")
  case False
  then have "weaken ob v = Some (ob, v\<lparr>v_heap := v_heap v, v_free := v_free v, v_weakrefs := v_weakrefs v\<rparr>)"
    by (simp add: weaken_def)
  then show ?thesis using not_counted_realval [OF False] by (meson map_le_refl)
next
  case True
  show ?thesis
  proof (cases "v_weakrefs v ob")
    case (Some a)
    then have h: "v_heap v a = Some (HWeakRef ob)" using assms(1) by (simp add: weakrefs_ok_def)
    have "weaken ob v = Some (ORef RWeakRef a, v\<lparr>v_heap := v_heap v, v_free := v_free v, v_weakrefs := v_weakrefs v\<rparr>)"
      using True Some by (simp add: weaken_def GetWeakRef_def)
    moreover have "realval (weak_of v2) (ORef RWeakRef a) = ob" if "weak_kept (v_heap v) (v_heap v2)" for v2
      using weak_keptD [OF that, of a ob] h by simp
    ultimately show ?thesis by (meson map_le_refl)
  next
    case None
    obtain a as where f: "v_free v = a # as" using assms(3) by (cases "v_free v") auto
    then have n: "v_heap v a = None" using assms(2) by (auto simp: heap_ok_def)
    let ?h = "(v_heap v)(a \<mapsto> HWeakRef ob)"
    have "weaken ob v = Some (ORef RWeakRef a, v\<lparr>v_heap := ?h, v_free := as, v_weakrefs := (v_weakrefs v)(ob \<mapsto> a)\<rparr>)"
      using True None f by (simp add: weaken_def GetWeakRef_def alloc_def put_def)
    moreover have "v_heap v \<subseteq>\<^sub>m ?h" using n by (auto simp: map_le_def)
    moreover have "realval (weak_of v2) (ORef RWeakRef a) = ob" if "weak_kept ?h (v_heap v2)" for v2
      using weak_keptD [OF that, of a ob] by simp
    ultimately show ?thesis by blast
  qed
qed

section \<open>Yield\<close>

lemma Yield_unfold:
  assumes "get_generator v ga = Some g" "g_state g = eRunning" "0 < v_top v - v_stackbase v" "int trg \<le> v_top v - v_stackbase v"
  shows "Yield ga trg v = do {
     this \<leftarrow> at_stack v (v_stackbase v);
     (w, u) \<leftarrow> weaken this v;
     xs \<leftarrow> read_slots u (v_stackbase u + 1) (trg - 1);
     let stk = w # xs @ drop (1 + (trg - 1)) (resize_with (nat (v_top v - v_stackbase v)) (g_stack g));
     u \<leftarrow> null_range (v_stackbase u) (v_stackbase u + (v_top v - v_stackbase v) - 1) u;
     c \<leftarrow> ci u;
     (ts, gts) \<leftarrow> move_traps (- v_stackbase u) (nat (ci_etraps c)) (v_etraps u) (g_etraps g);
     Some (True, put ga (HGenerator (g\<lparr>g_stack := stk, g_ci := c\<lparr>ci_generator := None\<rparr>, g_etraps := gts,
       g_state := eSuspended\<rparr>)) (u\<lparr>v_etraps := ts\<rparr>))
   }"
  using assms by (simp add: Yield_def weaken_def Let_def)

lemma Yield_ok:
  assumes g: "get_generator v ga = Some g" "g_state g = eRunning" and c: "ci v = Some c"
    and w: "weakrefs_ok v" "heap_ok v" "v_free v \<noteq> []"
    and st: "0 \<le> v_stackbase v" "v_stackbase v < v_top v" "v_top v \<le> int (length (v_stack v))"
    and trg: "0 < trg" "int trg \<le> v_top v - v_stackbase v" and k: "nat (ci_etraps c) \<le> length (v_etraps v)"
  shows "\<exists>v1 wr rest. Yield ga trg v = Some (True, v1) \<and> length rest + trg = nat (v_top v - v_stackbase v) \<and>
    (\<forall>v2. weak_kept (v_heap v1) (v_heap v2) \<longrightarrow> realval (weak_of v2) wr = v_stack v ! nat (v_stackbase v)) \<and>
    get_generator v1 ga = Some (g\<lparr>g_stack := wr # take (trg - 1) (drop (nat (v_stackbase v) + 1) (v_stack v)) @ rest,
      g_ci := c\<lparr>ci_generator := None\<rparr>, 
      g_etraps := rev (map (shift_trap (- v_stackbase v)) (take (nat (ci_etraps c)) (v_etraps v))) @ g_etraps g, g_state := eSuspended\<rparr>)"
proof -
  define n where "n = nat (v_top v - v_stackbase v)"
  obtain x h as wk where x: "weaken (v_stack v ! nat (v_stackbase v)) v = Some (x, v\<lparr>v_heap := h, v_free := as, v_weakrefs := wk\<rparr>)"
    and h: "v_heap v \<subseteq>\<^sub>m h"
    and rv: "\<forall>v2. weak_kept h (v_heap v2) \<longrightarrow> realval (weak_of v2) x = v_stack v ! nat (v_stackbase v)"
    using weaken_ok [OF w] by blast
  define u where "u = v\<lparr>v_heap := h, v_free := as, v_weakrefs := wk\<rparr>"
  have u: "v_stack u = v_stack v" "v_stackbase u = v_stackbase v" "v_calls u = v_calls v" "v_etraps u = v_etraps v" "v_heap u = h"
    by (simp_all add: u_def)
  have hg: "h ga = Some (HGenerator g)"
    using g(1) h by (auto simp: get_generator_def map_le_def dom_def split: option.splits heap_obj.splits)
  define xs where "xs = take (trg - 1) (drop (nat (v_stackbase v) + 1) (v_stack v))"
  have xs: "read_slots u (v_stackbase u + 1) (trg - 1) = Some xs"
    using st trg by (subst read_slots_ok) (auto simp: u xs_def nat_add_distrib)
  obtain s where s: "null_range (v_stackbase u) (v_stackbase u + (v_top v - v_stackbase v) - 1) u = Some (u\<lparr>v_stack := s\<rparr>)"
    using null_range_ok [of "v_stackbase u" "v_top v - 1" u] st u by auto
  define rest where "rest = drop (1 + (trg - 1)) (resize_with n (g_stack g))"
  have len: "length rest + trg = n" using trg by (simp add: rest_def resize_with_def n_def)
  have a: "at_stack v (v_stackbase v) = Some (v_stack v ! nat (v_stackbase v))" using st by (simp add: at_stack_def)
  let ?g = "g\<lparr>g_stack := x # xs @ rest, g_ci := c\<lparr>ci_generator := None\<rparr>, 
      g_etraps := rev (map (shift_trap (- v_stackbase v)) (take (nat (ci_etraps c)) (v_etraps v))) @ g_etraps g, g_state := eSuspended\<rparr>"
  define v1 where "v1 = put ga (HGenerator ?g) (u\<lparr>v_stack := s, v_etraps := drop (nat (ci_etraps c)) (v_etraps v)\<rparr>)"
  have "ci (u\<lparr>v_stack := s\<rparr>) = Some c" using c by (simp add: ci_def u)
  then have Y: "Yield ga trg v = Some (True, v1)"
    using xs s k st
    using trg Yield_unfold [OF g, of trg] by (simp add: a x u_def [symmetric] move_traps_ok u v1_def rest_def n_def)
  have "weak_kept h (v_heap v1)" using hg by (auto simp: weak_kept_def v1_def put_def u)
  then have rv1: "\<forall>v2. weak_kept (v_heap v1) (v_heap v2) \<longrightarrow> realval (weak_of v2) x = v_stack v ! nat (v_stackbase v)"
    using rv by (auto simp: weak_kept_def)
  have "get_generator v1 ga = Some ?g" by (simp add: v1_def get_generator_def put_def)
  then show ?thesis using Y rv1 len by (auto simp: xs_def n_def)
qed

section \<open>Resume\<close>

lemma Resume_ok:
  assumes g: "get_generator v ga = Some g" "g_state g = eSuspended" "g_stack g = w # xs"
    and t: "0 \<le> t" "t \<le> 255" and v: "v_nmeta v = 0" "0 \<le> v_top v" and k: "nat (ci_etraps (g_ci g)) \<le> length (g_etraps g)"
  shows "\<exists>v3 d. Resume ga t v = Some (True, v3) \<and> v_stackbase v3 = v_top v \<and>
    v_top v3 = v_top v + int (length (g_stack g)) \<and>
    at_stack v3 (v_top v) = Some (realval (weak_of v) w) \<and>
    (\<forall>j < length xs. at_stack v3 (v_top v + 1 + int j) = Some (xs ! j)) \<and>
    v_calls v3 = d # v_calls v \<and> ci_generator d = Some ga \<and> ci_target d = t \<and> ci_closure d = ci_closure (g_ci g) \<and>
    ci_ip d = ci_ip (g_ci g) \<and> ci_etraps d = ci_etraps (g_ci g) \<and> ci_root d = ci_root (g_ci g) \<and>
    v_etraps v3 = rev (map (shift_trap (v_top v)) (take (nat (ci_etraps (g_ci g))) (g_etraps g))) @ v_etraps v"
proof -
  define k' where "k' = g_ci g"
  obtain u ys c where e: "EnterFrame (v_top v) (v_top v + int (length (g_stack g))) False v = Some (True, u)"
    and u: "u = v\<lparr>v_calls := c # v_calls v, v_stackbase := v_top v, v_top := v_top v + int (length (g_stack g)), v_stack := v_stack v @ ys\<rparr>"
    and room: "v_top v + int (length (g_stack g)) + MIN_STACK_OVERHEAD \<le> int (length (v_stack v @ ys))"
    using EnterFrame_ok [OF v(1), of "v_top v + int (length (g_stack g))" "v_top v"] v(2) by auto
  define d where "d = c\<lparr>ci_generator := Some ga, ci_target := t, ci_closure := ci_closure k', ci_ip := ci_ip k',
    ci_ncalls := ci_ncalls k', ci_etraps := ci_etraps k', ci_root := ci_root k'\<rparr>"
  define ts where "ts = rev (map (shift_trap (v_top v)) (take (nat (ci_etraps k')) (g_etraps g))) @ v_etraps v"
  define u2 where "u2 = u\<lparr>v_calls := d # v_calls v, v_etraps := ts\<rparr>"
  have f: "v_stack u2 = v_stack v @ ys" "v_heap u2 = v_heap v" "v_top u2 = v_top v + int (length (g_stack g))"
    by (simp_all add: u2_def u)
  define x where "x = realval (weak_of u2) w"
  define n where "n = nat (v_top v)"
  have n: "int n = v_top v" "n + Suc (length xs) + 15 \<le> length (v_stack v @ ys)"
    using v(2) room g(3) by (auto simp: n_def MIN_STACK_OVERHEAD_def)
  define st where "st = (v_stack v @ ys)[n := x]"
  have s1: "set_stack (v_top v) x u2 = Some (u2\<lparr>v_stack := st\<rparr>)"
    using n f v(2) by (simp add: set_stack_def st_def n_def)
  define st2 where "st2 = take (Suc n) st @ xs @ drop (Suc n + length xs) st"
  have s2: "write_slots (v_top v + 1) xs (u2\<lparr>v_stack := st\<rparr>) = Some (u2\<lparr>v_stack := st2\<rparr>)"
    using n v(2) by (subst write_slots_ok) (auto simp: st_def st2_def n_def nat_add_distrib)
  define v3 where "v3 = put ga (HGenerator (g\<lparr>g_stack := w # replicate (length xs) ONull,
    g_etraps := drop (nat (ci_etraps k')) (g_etraps g), g_state := eRunning\<rparr>)) (u2\<lparr>v_stack := st2\<rparr>)"
  have R: "Resume ga t v = Some (True, v3)"
    using t e k s1 s2
    by (simp add: Resume_def g(1,2) Let_def u set_ci_def d_def [symmetric] k'_def [symmetric] move_traps_ok
        ts_def [symmetric] g(3) nth_opt_def x_def v3_def u2_def)
  have f3: "v_stack v3 = st2" "v_stackbase v3 = v_top v" "v_top v3 = v_top v + int (length (g_stack g))"
    "v_calls v3 = d # v_calls v" "v_etraps v3 = ts"
    by (simp_all add: v3_def put_def u2_def u)
  have l: "length st2 = length (v_stack v @ ys)" "Suc n \<le> length st" using n by (auto simp: st2_def st_def)
  have "st2 ! n = x" using n l(2) by (simp add: st2_def nth_append st_def)
  then have a0: "at_stack v3 (v_top v) = Some x" using n l v(2) by (simp add: at_stack_def f3 n_def)
  have "st2 ! (Suc n + j) = xs ! j" if "j < length xs" for j
  proof -
    have "length (take (Suc n) st) = Suc n" using l(2) by simp
    then show ?thesis using that by (simp add: st2_def nth_append del: length_take)
  qed
  moreover have "nat (v_top v + 1 + int j) = Suc n + j" for j using v(2) by (simp add: n_def)
  ultimately have aj: "\<forall>j < length xs. at_stack v3 (v_top v + 1 + int j) = Some (xs ! j)"
    using n l v(2) by (auto simp: at_stack_def f3)
  have "x = realval (weak_of v) w"
    using f(2) by (simp add: x_def weak_of_def [abs_def])
  then show ?thesis
    using R f3 a0 aj by (auto simp: d_def k'_def [symmetric] ts_def)
qed

text \<open>
  C23: a generator that is suspended and later resumed, from another frame at another place of the stack,
  finds its frame again: the slots it keeps, its closure and its position are those it had, and its
  exception traps are on top of the resumer's, moved along with the frame.
\<close>

theorem Yield_Resume:
  assumes "get_generator v ga = Some g" "g_state g = eRunning" "ci v = Some c"
    and "weakrefs_ok v" "heap_ok v" "v_free v \<noteq> []"
    and "0 \<le> v_stackbase v" "v_stackbase v < v_top v" "v_top v \<le> int (length (v_stack v))"
    and "0 < trg" "int trg \<le> v_top v - v_stackbase v" "nat (ci_etraps c) \<le> length (v_etraps v)"
  shows "\<exists>v1. Yield ga trg v = Some (True, v1) \<and>
    (\<forall>v2 t. get_generator v2 ga = get_generator v1 ga \<longrightarrow> weak_kept (v_heap v1) (v_heap v2) \<longrightarrow> v_nmeta v2 = 0 \<longrightarrow>
       0 \<le> v_top v2 \<longrightarrow> 0 \<le> t \<longrightarrow> t \<le> 255 \<longrightarrow>
       (\<exists>v3 d. Resume ga t v2 = Some (True, v3) \<and> v_stackbase v3 = v_top v2 \<and>
          v_top v3 - v_stackbase v3 = v_top v - v_stackbase v \<and>
          (\<forall>j < trg. at_stack v3 (v_stackbase v3 + int j) = at_stack v (v_stackbase v + int j)) \<and>
          v_calls v3 = d # v_calls v2 \<and> ci_generator d = Some ga \<and> ci_target d = t \<and>
          ci_closure d = ci_closure c \<and> ci_ip d = ci_ip c \<and> ci_etraps d = ci_etraps c \<and>
          v_etraps v3 = map (shift_trap (v_top v2 - v_stackbase v)) (take (nat (ci_etraps c)) (v_etraps v)) @ v_etraps v2))"
proof -
  obtain v1 wr rest where Y: "Yield ga trg v = Some (True, v1)" and len: "length rest + trg = nat (v_top v - v_stackbase v)"
    and rv: "\<forall>v2. weak_kept (v_heap v1) (v_heap v2) \<longrightarrow> realval (weak_of v2) wr = v_stack v ! nat (v_stackbase v)"
    and g1: "get_generator v1 ga = Some (g\<lparr>g_stack := wr # take (trg - 1) (drop (nat (v_stackbase v) + 1) (v_stack v)) @ rest,
      g_ci := c\<lparr>ci_generator := None\<rparr>, 
      g_etraps := rev (map (shift_trap (- v_stackbase v)) (take (nat (ci_etraps c)) (v_etraps v))) @ g_etraps g, g_state := eSuspended\<rparr>)"
    using Yield_ok [OF assms] by blast
  define xs where "xs = take (trg - 1) (drop (nat (v_stackbase v) + 1) (v_stack v)) @ rest"
  have lx: "int (length xs) + 1 = v_top v - v_stackbase v"
    using len assms(7-11) by (simp add: xs_def)
  define m where "m = nat (ci_etraps c)"
  have resume: "\<exists>v3 d. Resume ga t v2 = Some (True, v3) \<and> v_stackbase v3 = v_top v2 \<and>
          v_top v3 - v_stackbase v3 = v_top v - v_stackbase v \<and>
          (\<forall>j < trg. at_stack v3 (v_stackbase v3 + int j) = at_stack v (v_stackbase v + int j)) \<and>
          v_calls v3 = d # v_calls v2 \<and> ci_generator d = Some ga \<and> ci_target d = t \<and>
          ci_closure d = ci_closure c \<and> ci_ip d = ci_ip c \<and> ci_etraps d = ci_etraps c \<and>
          v_etraps v3 = map (shift_trap (v_top v2 - v_stackbase v)) (take m (v_etraps v)) @ v_etraps v2"
    if h: "get_generator v2 ga = get_generator v1 ga" "weak_kept (v_heap v1) (v_heap v2)" "v_nmeta v2 = 0"
       "0 \<le> v_top v2" "0 \<le> t" "t \<le> 255" for v2 t
  proof -
    define g' where "g' = g\<lparr>g_stack := wr # xs, g_ci := c\<lparr>ci_generator := None\<rparr>, 
      g_etraps := rev (map (shift_trap (- v_stackbase v)) (take m (v_etraps v))) @ g_etraps g, g_state := eSuspended\<rparr>"
    have g': "get_generator v2 ga = Some g'" using h(1) g1 by (simp add: g'_def xs_def m_def)
    have tr: "take m (g_etraps g') = rev (map (shift_trap (- v_stackbase v)) (take m (v_etraps v)))"
      using assms(12) by (simp add: g'_def m_def)
    have k: "nat (ci_etraps (g_ci g')) \<le> length (g_etraps g')" using assms(12) by (simp add: g'_def m_def)
    obtain v3 d where R: "Resume ga t v2 = Some (True, v3)" and f: "v_stackbase v3 = v_top v2"
      "v_top v3 = v_top v2 + int (length (g_stack g'))"
      and a: "at_stack v3 (v_top v2) = Some (realval (weak_of v2) wr)"
      "\<forall>j < length xs. at_stack v3 (v_top v2 + 1 + int j) = Some (xs ! j)"
      and d: "v_calls v3 = d # v_calls v2" "ci_generator d = Some ga" "ci_target d = t" "ci_closure d = ci_closure (g_ci g')"
      "ci_ip d = ci_ip (g_ci g')" "ci_etraps d = ci_etraps (g_ci g')"
      and e: "v_etraps v3 = rev (map (shift_trap (v_top v2)) (take (nat (ci_etraps (g_ci g'))) (g_etraps g'))) @ v_etraps v2"
      using Resume_ok [OF g' _ _ h(5,6,3,4) k, of wr xs] by (auto simp: g'_def)
    have e2: "v_etraps v3 = map (shift_trap (v_top v2 - v_stackbase v)) (take m (v_etraps v)) @ v_etraps v2"
      using e tr by (simp add: g'_def m_def [symmetric] rev_map [symmetric] comp_def)
    have slots: "at_stack v3 (v_stackbase v3 + int j) = at_stack v (v_stackbase v + int j)" if j: "j < trg" for j
    proof (cases j)
      case 0
      then show ?thesis using a(1) rv h(2) f(1) assms(7-9) by (simp add: at_stack_def)
    next
      case (Suc i)
      have i: "i < trg - 1" "i < length xs" using Suc j by (auto simp: xs_def) (use assms(7-11) j Suc in linarith)
      have "v_stackbase v + int j < int (length (v_stack v))" using assms(9,11) j by linarith
      moreover have "xs ! i = v_stack v ! nat (v_stackbase v + int j)"
        using i(1) Suc assms(7-11) by (simp add: xs_def nth_append nat_add_distrib)
      ultimately show ?thesis using a(2) i(2) f(1) Suc assms(7) by (simp add: at_stack_def add.assoc)
    qed
    have "v_top v3 - v_stackbase v3 = v_top v - v_stackbase v" using f lx by (simp add: g'_def)
    then show ?thesis using R f(1) slots d e2 by (auto simp: g'_def)
  qed
  then show ?thesis using Y unfolding m_def by blast
qed

definition gen_ci :: callinfo where
  "gen_ci = \<lparr>ci_ip = 3, ci_closure = ORef RClosure 64, ci_generator = Some 48, ci_etraps = 1, ci_prevstkbase = 0,
     ci_prevtop = 1, ci_target = 0, ci_ncalls = 1, ci_root = False\<rparr>"

definition gen_vm :: vm where
  "gen_vm = (demo_vm (OInteger 5 # OInteger 7 # replicate 20 ONull))\<lparr>v_top := 2, v_calls := [gen_ci],
     v_etraps := [\<lparr>et_stackbase = 0, et_stacksize = 2, et_ip = 1, et_extarget = 1\<rparr>],
     v_heap := [48 \<mapsto> HGenerator \<lparr>g_closure = ORef RClosure 64, g_stack = [], g_ci = gen_ci, g_etraps = [],
       g_state = eRunning\<rparr>]\<rparr>"

theorem Yield_Resume_witness:
  "\<exists>v1 v3. Yield 48 2 gen_vm = Some (True, v1) \<and> Resume 48 0 (v1\<lparr>v_top := 9, v_nmeta := 0\<rparr>) = Some (True, v3) \<and>
    at_stack v3 10 = Some (OInteger 7) \<and> map et_stacksize (v_etraps v3) = 11 # map et_stacksize (v_etraps v1)"
proof -
  let ?g = "\<lparr>g_closure = ORef RClosure 64, g_stack = [], g_ci = gen_ci, g_etraps = [], g_state = eRunning\<rparr>"
  have p: "get_generator gen_vm 48 = Some ?g" "ci gen_vm = Some gen_ci" "weakrefs_ok gen_vm" "heap_ok gen_vm" "v_free gen_vm \<noteq> []"
    "v_stackbase gen_vm = 0" "v_top gen_vm = 2" "length (v_stack gen_vm) = 22" "ci_etraps gen_ci = 1" "v_nmeta gen_vm = 0"
    "at_stack gen_vm 1 = Some (OInteger 7)"
    by (simp_all add: gen_vm_def get_generator_def ci_def weakrefs_ok_def heap_ok_def demo_vm_def gen_ci_def at_stack_def)
  obtain v1 where Y: "Yield 48 2 gen_vm = Some (True, v1)"
    and R: "\<And>v2 t. get_generator v2 48 = get_generator v1 48 \<Longrightarrow> weak_kept (v_heap v1) (v_heap v2) \<Longrightarrow> v_nmeta v2 = 0 \<Longrightarrow>
       0 \<le> v_top v2 \<Longrightarrow> 0 \<le> t \<Longrightarrow> t \<le> 255 \<Longrightarrow>
       (\<exists>v3 d. Resume 48 t v2 = Some (True, v3) \<and> v_stackbase v3 = v_top v2 \<and>
          v_top v3 - v_stackbase v3 = v_top gen_vm - v_stackbase gen_vm \<and>
          (\<forall>j < 2. at_stack v3 (v_stackbase v3 + int j) = at_stack gen_vm (v_stackbase gen_vm + int j)) \<and>
          v_calls v3 = d # v_calls v2 \<and> ci_generator d = Some 48 \<and> ci_target d = t \<and>
          ci_closure d = ci_closure gen_ci \<and> ci_ip d = ci_ip gen_ci \<and> ci_etraps d = ci_etraps gen_ci \<and>
          v_etraps v3 = map (shift_trap (v_top v2 - v_stackbase gen_vm)) (take (nat (ci_etraps gen_ci)) (v_etraps gen_vm)) @ v_etraps v2)"
    using Yield_Resume [of gen_vm 48 ?g gen_ci 2] p by (auto simp: gen_vm_def demo_vm_def)
  define v2 where "v2 = v1\<lparr>v_top := 9, v_nmeta := 0\<rparr>"
  have "get_generator v2 48 = get_generator v1 48" "weak_kept (v_heap v1) (v_heap v2)" "v_nmeta v2 = 0" "v_top v2 = 9"
    "v_etraps v2 = v_etraps v1"
    by (simp_all add: v2_def get_generator_def)
  then obtain v3 where "Resume 48 0 v2 = Some (True, v3)" "v_stackbase v3 = 9"
    "\<forall>j < 2. at_stack v3 (v_stackbase v3 + int j) = at_stack gen_vm (v_stackbase gen_vm + int j)"
    "v_etraps v3 = map (shift_trap (9 - v_stackbase gen_vm)) (take (nat (ci_etraps gen_ci)) (v_etraps gen_vm)) @ v_etraps v1"
    using R [of v2 0] by auto
  moreover from this(3) [rule_format, of 1] have "at_stack v3 10 = Some (OInteger 7)"
    using calculation(2) p(6,11) by simp
  ultimately show ?thesis
    using Y p(6,9) unfolding v2_def by (auto simp: gen_vm_def demo_vm_def shift_trap_def)
qed

end
