(* ===== verification/Exceptions.thy ===== *)
theory Exceptions
  imports Execute Frames
begin

text \<open>
  Exceptions of the interpreter: an error unwinds the frames above the nearest exception trap, or those of
  this run of the interpreter when there is none.
\<close>

section \<open>Killing the generators of the frames that are left\<close>

lemma get_generator_heap: "get_generator v a = Some x \<longleftrightarrow> v_heap v a = Some (HGenerator x)"
  by (simp add: get_generator_def split: option.splits heap_obj.splits)

lemma open_chain_idx:
  "(\<forall>q. open_idx v' q = open_idx v q) \<Longrightarrow> length (v_stack v') = length (v_stack v) \<Longrightarrow> open_chain v' ps = open_chain v ps"
  by (induction ps) auto

lemma put_generator_outers:
  assumes "get_generator v g = Some x"
  shows "outer_get (put g (HGenerator y) v) q = outer_get v q"
    "outers_ok (put g (HGenerator y) v) = outers_ok v"
proof -
  have h: "v_heap v g = Some (HGenerator x)" using assms by (simp add: get_generator_heap)
  have i: "open_idx (put g (HGenerator y) v) q = open_idx v q" for q using h by (auto simp: open_idx_def put_def)
  have s: "at_stack (put g (HGenerator y) v) = at_stack v" by (rule ext) (simp add: at_stack_def put_def)
  show "outer_get (put g (HGenerator y) v) q = outer_get v q"
    using h s by (cases "q = g") (simp_all add: outer_get_def split: option.split heap_obj.split lvouter.split)
  have "open_chain (put g (HGenerator y) v) ps = open_chain v ps" for ps
    by (rule open_chain_idx) (simp_all add: i)
  then show "outers_ok (put g (HGenerator y) v) = outers_ok v"
    using i by (simp add: outers_ok_def outer_list_def)
qed

section \<open>Leaving frames\<close>

text \<open>
  What leaving some frames keeps: the outer variables and their values, the traps, the generators, and
  every slot below \<open>m\<close>.
\<close>

definition left_of :: "int \<Rightarrow> vm \<Rightarrow> vm \<Rightarrow> bool" where
  "left_of m v w \<longleftrightarrow> outers_ok w \<and> length (v_stack w) = length (v_stack v) \<and> v_etraps w = v_etraps v \<and>
     (\<forall>q. outer_get w q = outer_get v q) \<and> (\<forall>i < m. at_stack w i = at_stack v i) \<and>
     (\<forall>q. get_generator v q \<noteq> None \<longrightarrow> get_generator w q \<noteq> None)"

lemma left_of_trans: "left_of m u v \<Longrightarrow> left_of m v w \<Longrightarrow> left_of m u w"
  by (auto simp: left_of_def)

lemma left_of_refl: "outers_ok v \<Longrightarrow> left_of m v v"
  by (simp add: left_of_def)

text \<open>Frames whose callers' bases and tops, starting from the running frame's base, are inside the stack and above \<open>m\<close>.\<close>

fun frames_ok :: "int \<Rightarrow> int \<Rightarrow> int \<Rightarrow> callinfo list \<Rightarrow> bool" where
  "frames_ok m len base [] \<longleftrightarrow> True"
| "frames_ok m len base (c # cs) \<longleftrightarrow>
     (let base' = base - ci_prevstkbase c; tp = base' + ci_prevtop c
      in 0 \<le> tp \<and> base \<le> tp \<and> m \<le> tp \<and> tp < len \<and> frames_ok m len base' cs)"

text \<open>Base and top after leaving frames.\<close>

definition base_after :: "int \<Rightarrow> callinfo list \<Rightarrow> int" where
  "base_after base fs = base - (\<Sum>c \<leftarrow> fs. ci_prevstkbase c)"

definition top_after :: "int \<Rightarrow> int \<Rightarrow> callinfo list \<Rightarrow> int" where
  "top_after base tp fs = (if fs = [] then tp else base_after base fs + ci_prevtop (last fs))"

lemma leave_one:
  assumes "v_calls v = c # cs" "outers_ok v" "v_top v < int (length (v_stack v))"
    and "frames_ok m (int (length (v_stack v))) (v_stackbase v) [c]"
    and "\<forall>g. ci_generator c = Some g \<longrightarrow> get_generator v g \<noteq> None"
  shows "\<exists>u w. (case ci_generator c of Some g \<Rightarrow> Kill g v | None \<Rightarrow> Some v) = Some u \<and> LeaveFrame u = Some w \<and>
    v_calls w = cs \<and> v_stackbase w = v_stackbase v - ci_prevstkbase c \<and> v_top w = v_stackbase w + ci_prevtop c \<and> left_of m v w"
proof -
  obtain u where u: "(case ci_generator c of Some g \<Rightarrow> Kill g v | None \<Rightarrow> Some v) = Some u"
    "v_calls u = v_calls v" "v_stackbase u = v_stackbase v" "v_top u = v_top v" "v_stack u = v_stack v"
    "v_etraps u = v_etraps v" "outers_ok u" "\<forall>q. outer_get u q = outer_get v q"
    "\<forall>q. get_generator v q \<noteq> None \<longrightarrow> get_generator u q \<noteq> None"
  proof (cases "ci_generator c")
    case None
    then show ?thesis using that [of v] assms(2) by simp
  next
    case (Some g)
    then obtain x where x: "get_generator v g = Some x" using assms(5) by auto
    define y where "y = x\<lparr>g_state := eDead, g_stack := [], g_closure := ONull\<rparr>"
    have "Kill g v = Some (put g (HGenerator y) v)" by (simp add: Kill_def x y_def)
    moreover have "get_generator (put g (HGenerator y) v) q \<noteq> None" if "get_generator v q \<noteq> None" for q
      using that by (simp add: get_generator_def put_def)
    ultimately show ?thesis
      using that [of "put g (HGenerator y) v"] Some put_generator_outers [OF x, of y] assms(2) by simp
  qed
  have c: "v_calls u = c # cs" "v_top u < int (length (v_stack u))" using assms(1,3) u by simp_all
  have f: "0 \<le> v_stackbase u - ci_prevstkbase c + ci_prevtop c" "v_stackbase u \<le> v_stackbase u - ci_prevstkbase c + ci_prevtop c"
    "m \<le> v_stackbase u - ci_prevstkbase c + ci_prevtop c" using assms(4) u(3) by (simp_all add: Let_def)
  from LeaveFrame_ok [OF c(1) u(7) c(2) f(1,2)] obtain w where
    w: "LeaveFrame u = Some w" "v_calls w = cs" "v_stackbase w = v_stackbase u - ci_prevstkbase c"
    "v_top w = v_stackbase w + ci_prevtop c" "outers_ok w" "length (v_stack w) = length (v_stack u)"
    "\<forall>q. outer_get w q = outer_get u q" "v_etraps w = v_etraps u"
    "\<forall>q. (\<forall>y. v_heap u q \<noteq> Some (HOuter y)) \<longrightarrow> v_heap w q = v_heap u q"
    "\<forall>i. at_stack w i = (if v_top w \<le> i \<and> i \<le> v_top u then Some ONull else at_stack u i)" by blast
  have "get_generator w q \<noteq> None" if gq: "get_generator v q \<noteq> None" for q
  proof -
    obtain x where "get_generator u q = Some x" using gq u(9) by blast
    then have "v_heap u q = Some (HGenerator x)" by (simp add: get_generator_heap)
    then have "v_heap w q = Some (HGenerator x)" using w(9) by simp
    then show ?thesis by (simp add: get_generator_def)
  qed
  moreover have "at_stack w i = at_stack v i" if "i < m" for i
  proof -
    have "\<not> v_top w \<le> i" using that f(3) w(3,4) by simp
    then show ?thesis using w(10) at_stack_cong [OF u(5)] by simp
  qed
  ultimately have "left_of m v w" using w u by (simp add: left_of_def)
  then show ?thesis using u(1,3) w by auto
qed

lemma unwind_frames:
  assumes "v_calls v = fs @ cs" "outers_ok v" "v_top v < int (length (v_stack v))"
    and "frames_ok m (int (length (v_stack v))) (v_stackbase v) fs"
    and "\<forall>f \<in> set fs. \<forall>g. ci_generator f = Some g \<longrightarrow> get_generator v g \<noteq> None"
    and "\<forall>f \<in> set fs. ci_etraps f \<le> 0 \<and> \<not> ci_root f" "length fs \<le> n"
  shows "\<exists>w. unwind n err lt traps v = unwind (n - length fs) err lt traps w \<and> v_calls w = cs \<and>
    v_stackbase w = base_after (v_stackbase v) fs \<and> v_top w = top_after (v_stackbase v) (v_top v) fs \<and>
    v_top w < int (length (v_stack w)) \<and> left_of m v w"
  using assms
proof (induction fs arbitrary: v n)
  case Nil
  then show ?case by (auto simp: base_after_def top_after_def left_of_refl)
next
  case (Cons f fs)
  have one: "frames_ok m (int (length (v_stack v))) (v_stackbase v) [f]" using Cons.prems(4) by (simp add: Let_def)
  obtain u w where w: "(case ci_generator f of Some g \<Rightarrow> Kill g v | None \<Rightarrow> Some v) = Some u" "LeaveFrame u = Some w"
    "v_calls w = fs @ cs" "v_stackbase w = v_stackbase v - ci_prevstkbase f" "v_top w = v_stackbase w + ci_prevtop f"
    "left_of m v w"
    using leave_one [OF Cons.prems(1) [simplified] Cons.prems(2,3) one] Cons.prems(5) by auto
  obtain k where k: "n = Suc k" using Cons.prems(7) by (cases n) auto
  have step: "unwind n err lt traps v = unwind k err lt traps w"
    using Cons.prems(1,6) w(1,2) k by (subst unwind.simps) simp
  have len: "length (v_stack w) = length (v_stack v)" using w(6) by (simp add: left_of_def)
  have "\<exists>x. unwind k err lt traps w = unwind (k - length fs) err lt traps x \<and> v_calls x = cs \<and>
    v_stackbase x = base_after (v_stackbase w) fs \<and> v_top x = top_after (v_stackbase w) (v_top w) fs \<and>
    v_top x < int (length (v_stack x)) \<and> left_of m w x"
  proof (rule Cons.IH)
    show "v_calls w = fs @ cs" by (rule w(3))
    show "outers_ok w" using w(6) by (simp add: left_of_def)
    show "v_top w < int (length (v_stack w))" using Cons.prems(4) w(4,5) len by (simp add: Let_def)
    show "frames_ok m (int (length (v_stack w))) (v_stackbase w) fs" using Cons.prems(4) w(4) len by (simp add: Let_def)
    show "\<forall>f \<in> set fs. \<forall>g. ci_generator f = Some g \<longrightarrow> get_generator w g \<noteq> None"
      using Cons.prems(5) w(6) by (auto simp: left_of_def)
    show "\<forall>f \<in> set fs. ci_etraps f \<le> 0 \<and> \<not> ci_root f" using Cons.prems(6) by simp
    show "length fs \<le> k" using Cons.prems(7) k by simp
  qed
  then obtain x where x: "unwind k err lt traps w = unwind (k - length fs) err lt traps x" "v_calls x = cs"
    "v_stackbase x = base_after (v_stackbase w) fs" "v_top x = top_after (v_stackbase w) (v_top w) fs"
    "v_top x < int (length (v_stack x))" "left_of m w x" by blast
  have "base_after (v_stackbase w) fs = base_after (v_stackbase v) (f # fs)" by (simp add: base_after_def w(4))
  moreover have "top_after (v_stackbase w) (v_top w) fs = top_after (v_stackbase v) (v_top v) (f # fs)"
    by (simp add: top_after_def base_after_def w(4,5))
  ultimately show ?case using step k x left_of_trans [OF w(6) x(6)] by auto
qed

section \<open>Catching and escaping\<close>

lemma unwind_trap:
  assumes "v_calls w = c # cs" "ci_etraps c > 0" "v_etraps w = t # ts"
    and "0 \<le> et_stackbase t + et_extarget t" "et_stackbase t + et_extarget t < et_stacksize t"
    and "0 \<le> et_stacksize t" "et_stacksize t \<le> int (length (v_stack w))" "lt < int (length (v_stack w))"
  shows "\<exists>x. unwind n err lt traps w = Some (Inl (traps - 1, x)) \<and>
    v_calls x = c\<lparr>ci_ip := et_ip t, ci_etraps := ci_etraps c - 1\<rparr> # cs \<and> v_stackbase x = et_stackbase t \<and>
    v_top x = et_stacksize t \<and> v_etraps x = ts \<and> v_heap x = v_heap w \<and>
    at_stack x (et_stackbase t + et_extarget t) = Some err \<and>
    (\<forall>i < et_stacksize t. i \<noteq> et_stackbase t + et_extarget t \<longrightarrow> at_stack x i = at_stack w i)"
proof -
  define i where "i = et_stackbase t + et_extarget t"
  define y where "y = w\<lparr>v_top := et_stacksize t, v_stackbase := et_stackbase t, v_etraps := ts,
    v_calls := c\<lparr>ci_ip := et_ip t, ci_etraps := ci_etraps c - 1\<rparr> # cs, v_stack := (v_stack w)[nat i := err]\<rparr>"
  have ii: "0 \<le> i" "i < int (length (v_stack w))" using assms by (simp_all add: i_def)
  obtain s where s: "null_range (et_stacksize t) lt y = Some (y\<lparr>v_stack := s\<rparr>)" "length s = length (v_stack w)"
    "\<forall>j < length s. s ! j = (if et_stacksize t \<le> int j \<and> int j \<le> lt then ONull else v_stack y ! j)"
    using null_range_ok [of "et_stacksize t" lt y] assms(6,8) by (auto simp: y_def)
  have "enter_trap err lt w = Some (y\<lparr>v_stack := s\<rparr>)"
    using assms(1,3) ii s(1)
    by (simp add: enter_trap_def set_ci_def set_stk_def set_stack_def i_def [symmetric] y_def)
  then have U: "unwind n err lt traps w = Some (Inl (traps - 1, y\<lparr>v_stack := s\<rparr>))"
    using assms(1,2) by (subst unwind.simps) simp
  have "at_stack (y\<lparr>v_stack := s\<rparr>) i = Some err"
    using ii s(2,3) assms(5) by (simp add: at_stack_def i_def [symmetric] y_def)
  moreover have "at_stack (y\<lparr>v_stack := s\<rparr>) j = at_stack w j" if "j < et_stacksize t" "j \<noteq> i" for j
    using that ii s(2,3) by (auto simp: at_stack_def y_def)
  ultimately show ?thesis using U by (auto simp: y_def i_def)
qed

text \<open>
  C24: an error is caught by the nearest trap: the frames above the one that has it are left, that frame
  goes on at the trap's handler with the base and top of the time the trap was set, the error is in the
  trap's register, the trap is gone, no other slot below that top has changed, and every outer variable
  that is closed then holds the value it had before.
\<close>

theorem error_reaches_trap:
  assumes "v_calls v = fs @ c # cs" "\<forall>f \<in> set fs. ci_etraps f \<le> 0 \<and> \<not> ci_root f" "ci_etraps c > 0"
    and "v_etraps v = t # ts" "0 \<le> et_stackbase t + et_extarget t" "et_stackbase t + et_extarget t < et_stacksize t"
    and "0 \<le> et_stacksize t" "et_stacksize t \<le> int (length (v_stack v))" "v_top v < int (length (v_stack v))"
    and "outers_ok v" "frames_ok (et_stacksize t) (int (length (v_stack v))) (v_stackbase v) fs"
    and "\<forall>f \<in> set fs. \<forall>g. ci_generator f = Some g \<longrightarrow> get_generator v g \<noteq> None"
  shows "\<exists>x. unwind (length (v_calls v)) err (v_top v) traps v = Some (Inl (traps - 1, x)) \<and>
    v_calls x = c\<lparr>ci_ip := et_ip t, ci_etraps := ci_etraps c - 1\<rparr> # cs \<and> v_stackbase x = et_stackbase t \<and>
    v_top x = et_stacksize t \<and> v_etraps x = ts \<and> at_stack x (et_stackbase t + et_extarget t) = Some err \<and>
    (\<forall>i < et_stacksize t. i \<noteq> et_stackbase t + et_extarget t \<longrightarrow> at_stack x i = at_stack v i) \<and>
    (\<forall>q y. v_heap x q = Some (HOuter (ClosedOuter y)) \<longrightarrow> outer_get v q = Some y)"
proof -
  have n: "length fs \<le> length (v_calls v)" using assms(1) by simp
  obtain w where w: "unwind (length (v_calls v)) err (v_top v) traps v = unwind (length (v_calls v) - length fs) err (v_top v) traps w"
    "v_calls w = c # cs" "left_of (et_stacksize t) v w"
    using unwind_frames [OF assms(1,10,9,11,12,2) n, of err "v_top v" traps] by blast
  have l: "v_etraps w = t # ts" "length (v_stack w) = length (v_stack v)" using w(3) assms(4) by (simp_all add: left_of_def)
  obtain x where x: "unwind (length (v_calls v) - length fs) err (v_top v) traps w = Some (Inl (traps - 1, x))"
    "v_calls x = c\<lparr>ci_ip := et_ip t, ci_etraps := ci_etraps c - 1\<rparr> # cs" "v_stackbase x = et_stackbase t"
    "v_top x = et_stacksize t" "v_etraps x = ts" "v_heap x = v_heap w" "at_stack x (et_stackbase t + et_extarget t) = Some err"
    "\<forall>i < et_stacksize t. i \<noteq> et_stackbase t + et_extarget t \<longrightarrow> at_stack x i = at_stack w i"
    using unwind_trap [OF w(2) assms(3) l(1) assms(5-7), of "v_top v" "length (v_calls v) - length fs" err traps] assms(8,9) l(2)
    by auto
  have "outer_get v q = Some y" if "v_heap x q = Some (HOuter (ClosedOuter y))" for q y
  proof -
    have "outer_get w q = Some y" using that x(6) by (simp add: outer_get_def)
    then show ?thesis using w(3) by (simp add: left_of_def)
  qed
  moreover have "\<forall>i < et_stacksize t. i \<noteq> et_stackbase t + et_extarget t \<longrightarrow> at_stack x i = at_stack v i"
    using x(8) w(3) by (simp add: left_of_def)
  ultimately show ?thesis using w(1) x by auto
qed

text \<open>
  C25: an error no frame of this run traps ends the run: every frame up to and including the root frame is
  left, the caller's base, top and slots are back, every outer variable has its value, and the
  error is left for the caller.
\<close>

theorem error_leaves_run:
  assumes "v_calls v = fs @ c # cs" "\<forall>f \<in> set fs. ci_etraps f \<le> 0 \<and> \<not> ci_root f" "ci_etraps c \<le> 0" "ci_root c"
    and "v_top v < int (length (v_stack v))" "outers_ok v"
    and "frames_ok m (int (length (v_stack v))) (v_stackbase v) (fs @ [c])"
    and "\<forall>f \<in> set (fs @ [c]). \<forall>g. ci_generator f = Some g \<longrightarrow> get_generator v g \<noteq> None"
  shows "\<exists>x. unwind (length (v_calls v)) err (v_top v) traps v = Some (Inr x) \<and> v_calls x = cs \<and>
    v_stackbase x = base_after (v_stackbase v) (fs @ [c]) \<and> v_top x = v_stackbase x + ci_prevtop c \<and>
    v_lasterror x = err \<and> v_etraps x = v_etraps v \<and> (\<forall>i < m. at_stack x i = at_stack v i) \<and>
    (\<forall>q. outer_get x q = outer_get v q)"
proof -
  have n: "length fs \<le> length (v_calls v)" using assms(1) by simp
  have fr: "frames_ok m len base (xs @ ys) \<longleftrightarrow> frames_ok m len base xs \<and> frames_ok m len (base_after base xs) ys" for len base xs ys
    by (induction xs arbitrary: base) (auto simp: Let_def base_after_def diff_diff_eq)
  have f1: "frames_ok m (int (length (v_stack v))) (v_stackbase v) fs" using assms(7) fr by simp
  have g1: "\<forall>f \<in> set fs. \<forall>g. ci_generator f = Some g \<longrightarrow> get_generator v g \<noteq> None" using assms(8) by simp
  obtain w where w: "unwind (length (v_calls v)) err (v_top v) traps v = unwind (length (v_calls v) - length fs) err (v_top v) traps w"
    "v_calls w = c # cs" "v_stackbase w = base_after (v_stackbase v) fs" "v_top w < int (length (v_stack w))" "left_of m v w"
    using unwind_frames [OF assms(1,6,5) f1 g1 assms(2) n, of err "v_top v" traps] by blast
  have l: "length (v_stack w) = length (v_stack v)" "outers_ok w" using w(5) by (simp_all add: left_of_def)
  have f2: "frames_ok m (int (length (v_stack w))) (v_stackbase w) [c]" using assms(7) fr w(3) l(1) by simp
  have g2: "\<forall>g. ci_generator c = Some g \<longrightarrow> get_generator w g \<noteq> None"
    using assms(8) w(5) by (auto simp: left_of_def)
  obtain u x where x: "(case ci_generator c of Some g \<Rightarrow> Kill g w | None \<Rightarrow> Some w) = Some u" "LeaveFrame u = Some x"
    "v_calls x = cs" "v_stackbase x = v_stackbase w - ci_prevstkbase c" "v_top x = v_stackbase x + ci_prevtop c" "left_of m w x"
    using leave_one [OF w(2) l(2) w(4) f2 g2] by blast
  have "unwind (length (v_calls v) - length fs) err (v_top v) traps w = Some (Inr (x\<lparr>v_lasterror := err\<rparr>))"
    using w(2) x(1,2) assms(3,4) by (subst unwind.simps) simp
  moreover have "left_of m v x" by (rule left_of_trans [OF w(5) x(6)])
  moreover have "outer_get (x\<lparr>v_lasterror := err\<rparr>) q = outer_get x q" "at_stack (x\<lparr>v_lasterror := err\<rparr>) i = at_stack x i" for q i
    by (auto intro: outer_get_cong at_stack_cong)
  ultimately show ?thesis
    using w(1,3) x by (auto simp: left_of_def base_after_def)
qed

definition nested_vm :: "bool \<Rightarrow> int \<Rightarrow> vm" where
  "nested_vm root traps = (demo_vm (replicate 30 (OInteger 1)))\<lparr>v_top := 8, v_stackbase := 5,
     v_etraps := [\<lparr>et_stackbase = 0, et_stacksize = 6, et_ip = 4, et_extarget = 2\<rparr>],
     v_calls := [\<lparr>ci_ip = 0, ci_closure = ONull, ci_generator = None, ci_etraps = 0, ci_prevstkbase = 5, ci_prevtop = 6,
       ci_target = 0, ci_ncalls = 1, ci_root = False\<rparr>,
       \<lparr>ci_ip = 9, ci_closure = ONull, ci_generator = None, ci_etraps = traps, ci_prevstkbase = 0, ci_prevtop = 2,
       ci_target = 0, ci_ncalls = 1, ci_root = root\<rparr>]\<rparr>"

lemma nested_outers: "outers_ok (nested_vm r k)"
  by (simp add: nested_vm_def outers_ok_def outer_list_def open_idx_def demo_vm_def)

theorem error_reaches_trap_witness:
  "\<exists>x. unwind 2 (OString ''e'') 8 1 (nested_vm True 1) = Some (Inl (0, x)) \<and> v_top x = 6 \<and> v_stackbase x = 0 \<and>
    at_stack x 2 = Some (OString ''e'') \<and> map ci_ip (v_calls x) = [4]"
proof -
  let ?v = "nested_vm True 1"
  have "\<exists>x. unwind (length (v_calls ?v)) (OString ''e'') (v_top ?v) 1 ?v = Some (Inl (1 - 1, x)) \<and>
    v_calls x = (v_calls ?v ! 1)\<lparr>ci_ip := et_ip (hd (v_etraps ?v)), ci_etraps := ci_etraps (v_calls ?v ! 1) - 1\<rparr> # [] \<and>
    v_stackbase x = et_stackbase (hd (v_etraps ?v)) \<and> v_top x = et_stacksize (hd (v_etraps ?v)) \<and> v_etraps x = [] \<and>
    at_stack x (et_stackbase (hd (v_etraps ?v)) + et_extarget (hd (v_etraps ?v))) = Some (OString ''e'') \<and>
    (\<forall>i < et_stacksize (hd (v_etraps ?v)). i \<noteq> et_stackbase (hd (v_etraps ?v)) + et_extarget (hd (v_etraps ?v)) \<longrightarrow>
       at_stack x i = at_stack ?v i) \<and>
    (\<forall>q y. v_heap x q = Some (HOuter (ClosedOuter y)) \<longrightarrow> outer_get ?v q = Some y)"
    by (rule error_reaches_trap [where fs = "[v_calls ?v ! 0]"])
      (simp_all add: nested_outers, simp_all add: nested_vm_def)
  then show ?thesis by (auto simp: nested_vm_def numeral_2_eq_2)
qed

theorem error_leaves_run_witness:
  "\<exists>x. unwind 2 (OString ''e'') 8 0 (nested_vm True 0) = Some (Inr x) \<and> v_calls x = [] \<and> v_top x = 2 \<and>
    v_lasterror x = OString ''e'' \<and> at_stack x 1 = Some (OInteger 1)"
proof -
  let ?v = "nested_vm True 0"
  have "\<exists>x. unwind (length (v_calls ?v)) (OString ''e'') (v_top ?v) 0 ?v = Some (Inr x) \<and> v_calls x = [] \<and>
    v_stackbase x = base_after (v_stackbase ?v) ([v_calls ?v ! 0] @ [v_calls ?v ! 1]) \<and>
    v_top x = v_stackbase x + ci_prevtop (v_calls ?v ! 1) \<and> v_lasterror x = OString ''e'' \<and> v_etraps x = v_etraps ?v \<and>
    (\<forall>i < 2. at_stack x i = at_stack ?v i) \<and> (\<forall>q. outer_get x q = outer_get ?v q)"
    by (rule error_leaves_run) (simp_all add: nested_outers, simp_all add: nested_vm_def)
  then obtain x where x: "unwind (length (v_calls ?v)) (OString ''e'') (v_top ?v) 0 ?v = Some (Inr x)" "v_calls x = []"
    "v_stackbase x = base_after (v_stackbase ?v) ([v_calls ?v ! 0] @ [v_calls ?v ! 1])"
    "v_top x = v_stackbase x + ci_prevtop (v_calls ?v ! 1)" "v_lasterror x = OString ''e''" "\<forall>i < 2. at_stack x i = at_stack ?v i"
    by blast
  have "length (v_calls ?v) = 2" "v_top ?v = 8" "v_stackbase x + ci_prevtop (v_calls ?v ! 1) = 2" "at_stack ?v 1 = Some (OInteger 1)"
    using x(3) by (simp_all add: nested_vm_def base_after_def at_stack_def)
  then show ?thesis using x by auto
qed

end
