(* ===== verification/Fuel.thy ===== *)
theory Fuel
  imports Execute Frames
begin

text \<open>
  The fuel of \<open>Call\<close> does not influence its result: every definition that takes the function \<open>call\<close> is
  monotone in it, so a run that ends with some fuel ends in the same way with more.
\<close>

section \<open>Runs that go on longer\<close>

named_theorems ord_rules

definition le_opt :: "'a option \<Rightarrow> 'a option \<Rightarrow> bool" where
  "le_opt x y \<longleftrightarrow> (\<forall>r. x = Some r \<longrightarrow> y = Some r)"

definition call_le :: "callfn \<Rightarrow> callfn \<Rightarrow> bool" where
  "call_le c d \<longleftrightarrow> (\<forall>f n sb r v. le_opt (c f n sb r v) (d f n sb r v))"

definition native_mono :: "nativefn \<Rightarrow> bool" where
  "native_mono native \<longleftrightarrow> (\<forall>c d f v. call_le c d \<longrightarrow> le_opt (native c f v) (native d f v))"

lemma le_refl [simp, intro]: "le_opt x x" by (simp add: le_opt_def)

lemma le_None [simp]: "le_opt None x" by (simp add: le_opt_def)

lemma le_trans: "le_opt x y \<Longrightarrow> le_opt y z \<Longrightarrow> le_opt x z" by (auto simp: le_opt_def)

lemma le_bind [ord_rules]:
  "le_opt x y \<Longrightarrow> (\<And>r. le_opt (f r) (g r)) \<Longrightarrow> le_opt (x \<bind> f) (y \<bind> g)"
  by (auto simp: le_opt_def bind_eq_Some_conv)

lemma le_if [ord_rules]: "le_opt x x' \<Longrightarrow> le_opt y y' \<Longrightarrow> le_opt (if b then x else y) (if b then x' else y')" by simp

lemma le_let [ord_rules]: "(\<And>y. le_opt (f y) (g y)) \<Longrightarrow> le_opt (let y = x in f y) (let y = x in g y)" by simp

lemma le_prod [ord_rules]:
  "(\<And>a b. le_opt (f a b) (g a b)) \<Longrightarrow> le_opt (case p of (a, b) \<Rightarrow> f a b) (case p of (a, b) \<Rightarrow> g a b)"
  by (cases p) simp

lemma le_option [ord_rules]:
  "le_opt x x' \<Longrightarrow> (\<And>a. le_opt (f a) (g a)) \<Longrightarrow>
   le_opt (case o1 of None \<Rightarrow> x | Some a \<Rightarrow> f a) (case o1 of None \<Rightarrow> x' | Some a \<Rightarrow> g a)"
  by (cases o1) simp_all

lemma le_sum [ord_rules]:
  "(\<And>a. le_opt (f a) (f' a)) \<Longrightarrow> (\<And>a. le_opt (g a) (g' a)) \<Longrightarrow>
   le_opt (case s of Inl a \<Rightarrow> f a | Inr a \<Rightarrow> g a) (case s of Inl a \<Rightarrow> f' a | Inr a \<Rightarrow> g' a)"
  by (cases s) simp_all

lemma le_obj [ord_rules]:
  assumes "le_opt n n'" "\<And>a. le_opt (i a) (i' a)" "\<And>a. le_opt (f a) (f' a)" "\<And>a. le_opt (b a) (b' a)"
    "\<And>a. le_opt (s a) (s' a)" "\<And>a. le_opt (u a) (u' a)" "\<And>k a. le_opt (r k a) (r' k a)"
  shows "le_opt (case_lvobj n i f b s u r ob) (case_lvobj n' i' f' b' s' u' r' ob)"
  using assms by (cases ob) simp_all

lemma le_rkind [ord_rules]:
  assumes "le_opt a a'" "le_opt b b'" "le_opt c c'" "le_opt d d'" "le_opt e e'" "le_opt f f'" "le_opt g g'" "le_opt h h'"
    "le_opt i i'" "le_opt j j'" "le_opt k k'" "le_opt l l'"
  shows "le_opt (case_rkind a b c d e f g h i j k l x) (case_rkind a' b' c' d' e' f' g' h' i' j' k' l' x)"
  using assms by (cases x) simp_all

lemma le_gen [ord_rules]:
  "le_opt a a' \<Longrightarrow> le_opt b b' \<Longrightarrow> le_opt c c' \<Longrightarrow> le_opt (case_genstate a b c x) (case_genstate a' b' c' x)"
  by (cases x) simp_all

lemma le_search [ord_rules]:
  assumes "\<And>v. le_opt (f v) (f' v)" "\<And>x v. le_opt (g x v) (g' x v)" "\<And>v. le_opt (h v) (h' v)"
  shows "le_opt (case_search f g h s) (case_search f' g' h' s)"
  using assms by (cases s) simp_all

lemma le_call: "call_le c d \<Longrightarrow> le_opt (c f n sb r v) (d f n sb r v)" by (simp add: call_le_def)

section \<open>Access\<close>

lemma CallMetaMethod_le [ord_rules]: "call_le c d \<Longrightarrow> le_opt (CallMetaMethod c f n v) (CallMetaMethod d f n v)"
  by (simp only: CallMetaMethod_def) ((rule le_refl ord_rules | erule le_call | assumption)+)

lemma push_call_le [ord_rules]: "call_le c d \<Longrightarrow> le_opt (push_call c f xs v) (push_call d f xs v)"
  by (simp only: push_call_def) ((rule le_refl ord_rules | erule le_call | assumption)+)

lemma ArithMetaMethod_le [ord_rules]: "call_le c d \<Longrightarrow> le_opt (ArithMetaMethod c p x y v) (ArithMetaMethod d p x y v)"
  by (simp only: ArithMetaMethod_def) ((rule le_refl ord_rules | erule le_call | assumption)+)

lemma vm_ARITH_OP_le [ord_rules]: "call_le c d \<Longrightarrow> le_opt (vm_ARITH_OP c p x y v) (vm_ARITH_OP d p x y v)"
  by (simp only: vm_ARITH_OP_def) ((rule le_refl ord_rules | erule le_call | assumption)+)

lemma vm_ARITH_le [ord_rules]: "call_le c d \<Longrightarrow> le_opt (vm_ARITH c p x y v) (vm_ARITH d p x y v)"
  by (simp only: vm_ARITH_def) ((rule le_refl ord_rules | erule le_call | assumption)+)

lemma vm_ARITH_NOZERO_le [ord_rules]: "call_le c d \<Longrightarrow> le_opt (vm_ARITH_NOZERO c x y v) (vm_ARITH_NOZERO d x y v)"
  by (simp only: vm_ARITH_NOZERO_def) ((rule le_refl ord_rules | erule le_call | assumption)+)

lemma vm_NEG_OP_le [ord_rules]: "call_le c d \<Longrightarrow> le_opt (vm_NEG_OP c x v) (vm_NEG_OP d x v)"
  by (simp only: vm_NEG_OP_def) ((rule le_refl ord_rules | erule le_call | assumption)+)

lemma vm_ObjCmp_le [ord_rules]: "call_le c d \<Longrightarrow> le_opt (vm_ObjCmp c x y v) (vm_ObjCmp d x y v)"
  by (simp only: vm_ObjCmp_def) ((rule le_refl ord_rules | erule le_call | assumption)+)

lemma vm_CMP_OP_le [ord_rules]: "call_le c d \<Longrightarrow> le_opt (vm_CMP_OP c p x y v) (vm_CMP_OP d p x y v)"
  by (simp only: vm_CMP_OP_def) ((rule le_refl ord_rules | erule le_call | assumption)+)

lemma TypeOf_le [ord_rules]: "call_le c d \<Longrightarrow> le_opt (TypeOf c x v) (TypeOf d x v)"
  by (simp only: TypeOf_def) ((rule le_refl ord_rules | erule le_call | assumption)+)

text \<open>Texts of values.\<close>

lemma ts_meta_le [ord_rules]: "call_le c d \<Longrightarrow> le_opt (ts_meta c x v) (ts_meta d x v)"
  by (simp only: ts_meta_def) ((rule le_refl ord_rules | erule le_call | assumption)+)

lemma ts_one_le:
  assumes "\<And>x n v. le_opt (f x n v) (g x n v)"
  shows "le_opt (ts_one f a n k y r s v) (ts_one g a n k y r s v)"
  by (simp only: ts_one_def) ((rule le_refl ord_rules assms)+)

lemma ts_loop_some:
  "ts_loop f a b n k r s v = Some y \<Longrightarrow> (\<forall>x n v. le_opt (f x n v) (g x n v)) \<longrightarrow> ts_loop g a b n k r s v = Some y"
proof (erule ts_loop.raw_induct [where P = "\<lambda>f a b n k r s v y. (\<forall>x n v. le_opt (f x n v) (g x n v)) \<longrightarrow> ts_loop g a b n k r s v = Some y", rotated], intro impI)
  fix h f a b n k r s v y
  assume ih: "\<And>f a b n k r s v y. h f a b n k r s v = Some y \<Longrightarrow>
      (\<forall>x n v. le_opt (f x n v) (g x n v)) \<longrightarrow> ts_loop g a b n k r s v = Some y"
    and le: "\<forall>x n v. le_opt (f x n v) (g x n v)"
  have r: "le_opt (h f a b n k r s v) (ts_loop g a b n k r s v)" for k r s v
    using ih le unfolding le_opt_def by blast
  have one: "le_opt (ts_one f a n k y r s v) (ts_one g a n k y r s v)" for a n k y r s v
    using le by (intro ts_one_le) blast
  assume "ts_next a b k v \<bind> (\<lambda>nx. case nx of None \<Rightarrow> ts_end a b n s v
      | Some p \<Rightarrow> ts_one f a n (fst (snd p)) (snd (snd p)) r s v \<bind> (\<lambda>(r, s, v). h f a b n (fst p) r s v)) = Some y"
  moreover have "le_opt (ts_next a b k v \<bind> (\<lambda>nx. case nx of None \<Rightarrow> ts_end a b n s v
      | Some p \<Rightarrow> ts_one f a n (fst (snd p)) (snd (snd p)) r s v \<bind> (\<lambda>(r, s, v). h f a b n (fst p) r s v)))
      (ts_loop g a b n k r s v)"
    by (subst ts_loop.simps) ((rule le_refl r one ord_rules)+)
  ultimately show "ts_loop g a b n k r s v = Some y" by (simp add: le_opt_def)
qed

lemma ts_loop_le:
  "(\<And>x n v. le_opt (f x n v) (g x n v)) \<Longrightarrow> le_opt (ts_loop f a b n k r s v) (ts_loop g a b n k r s v)"
  using ts_loop_some unfolding le_opt_def by blast

lemma ToString_d_le: "call_le c d \<Longrightarrow> le_opt (ToString_d m c x n v) (ToString_d m d x n v)"
proof (induction m arbitrary: x n v)
  case (Suc m)
  have loop: "le_opt (ts_loop (ToString_d m c) a b n k r s v) (ts_loop (ToString_d m d) a b n k r s v)" for a b n k r s v
    by (rule ts_loop_le) (rule Suc.IH [OF Suc.prems])
  show ?case
    by (simp only: ToString_d.simps) ((rule le_refl loop Suc.IH [OF Suc.prems] ts_meta_le [OF Suc.prems] ord_rules)+)
qed simp

lemma ToString_le [ord_rules]: "call_le c d \<Longrightarrow> le_opt (ToString c x v) (ToString d x v)"
  unfolding ToString_def by (rule ToString_d_le)

lemma StringCat_le [ord_rules]: "call_le c d \<Longrightarrow> le_opt (StringCat c x y v) (StringCat d x y v)"
  by (simp only: StringCat_def) ((rule le_refl ord_rules | erule le_call | assumption)+)

lemma Get_meta_le [ord_rules]: "call_le c d \<Longrightarrow> le_opt (Get_meta c x k fl v) (Get_meta d x k fl v)"
  by (simp only: Get_meta_def) ((rule le_refl ord_rules | erule le_call | assumption)+)

lemma search_then_le [ord_rules]: "(\<And>v. le_opt (f v) (g v)) \<Longrightarrow> le_opt (search_then f s) (search_then g s)"
  by (simp only: search_then_def) ((rule le_refl ord_rules | erule le_call | assumption)+)

lemma Get_fallback_le [ord_rules]: "call_le c d \<Longrightarrow> le_opt (Get_fallback c x k fl s) (Get_fallback d x k fl s)"
  by (simp only: Get_fallback_def) ((rule le_refl ord_rules | erule le_call | assumption)+)

lemma vm_Get_some:
  "vm_Get c x k fl si v = Some y \<Longrightarrow> call_le c d \<longrightarrow> vm_Get d x k fl si v = Some y"
proof (erule vm_Get.raw_induct [where P = "\<lambda>c x k fl si v y. call_le c d \<longrightarrow> vm_Get d x k fl si v = Some y", rotated], intro impI)
  fix f c x k fl si v y
  assume ih: "\<And>c x k fl si v y. f c x k fl si v = Some y \<Longrightarrow> call_le c d \<longrightarrow> vm_Get d x k fl si v = Some y"
    and cd: "call_le c d"
  have r: "le_opt (f c x k fl si v) (vm_Get d x k fl si v)" for x k fl si v
    using ih cd unfolding le_opt_def by blast
  assume "Get_own x k fl v \<bind> (\<lambda>s. case still s of None \<Rightarrow> Some (search_end k fl s)
     | Some v \<Rightarrow> Get_delegate x fl v \<bind> (\<lambda>da.
         (case da of None \<Rightarrow> Some s | Some t \<Rightarrow> f c (ORef RTable t) k 0 DONT_FALL_BACK v \<bind> (\<lambda>r. Some (resume_search r))) \<bind> (\<lambda>s.
           Get_fallback c x k fl s \<bind> (\<lambda>s. case still s of None \<Rightarrow> Some (search_end k fl s)
             | Some v \<Rightarrow> Get_root si v \<bind> (\<lambda>w. case w of None \<Rightarrow> Some (search_end k fl s)
                 | Some rt \<Rightarrow> f c rt k 0 DONT_FALL_BACK v \<bind> (\<lambda>r. Some (search_end k fl (resume_search r)))))))) = Some y"
  moreover have "le_opt (Get_own x k fl v \<bind> (\<lambda>s. case still s of None \<Rightarrow> Some (search_end k fl s)
     | Some v \<Rightarrow> Get_delegate x fl v \<bind> (\<lambda>da.
         (case da of None \<Rightarrow> Some s | Some t \<Rightarrow> f c (ORef RTable t) k 0 DONT_FALL_BACK v \<bind> (\<lambda>r. Some (resume_search r))) \<bind> (\<lambda>s.
           Get_fallback c x k fl s \<bind> (\<lambda>s. case still s of None \<Rightarrow> Some (search_end k fl s)
             | Some v \<Rightarrow> Get_root si v \<bind> (\<lambda>w. case w of None \<Rightarrow> Some (search_end k fl s)
                 | Some rt \<Rightarrow> f c rt k 0 DONT_FALL_BACK v \<bind> (\<lambda>r. Some (search_end k fl (resume_search r))))))))) (vm_Get d x k fl si v)"
    by (subst vm_Get.simps) ((rule le_refl r ord_rules | rule cd)+)
  ultimately show "vm_Get d x k fl si v = Some y" by (simp add: le_opt_def)
qed

lemma vm_Get_le [ord_rules]: "call_le c d \<Longrightarrow> le_opt (vm_Get c x k fl si v) (vm_Get d x k fl si v)"
  using vm_Get_some unfolding le_opt_def by blast

lemma Set_meta_le [ord_rules]: "call_le c d \<Longrightarrow> le_opt (Set_meta c x k y v) (Set_meta d x k y v)"
  by (simp only: Set_meta_def) ((rule le_refl ord_rules | erule le_call | assumption)+)

lemma vm_Set_some:
  "vm_Set c x k z si v = Some y \<Longrightarrow> call_le c d \<longrightarrow> vm_Set d x k z si v = Some y"
proof (erule vm_Set.raw_induct [where P = "\<lambda>c x k z si v y. call_le c d \<longrightarrow> vm_Set d x k z si v = Some y", rotated], intro impI)
  fix f c x k z si v y
  assume ih: "\<And>c x k z si v y. f c x k z si v = Some y \<Longrightarrow> call_le c d \<longrightarrow> vm_Set d x k z si v = Some y"
    and cd: "call_le c d"
  have r: "le_opt (f c x k z si v) (vm_Set d x k z si v)" for x k z si v
    using ih cd unfolding le_opt_def by blast
  assume "Set_own x k z v \<bind> (\<lambda>s. case s of Inl v \<Rightarrow>
       (if otype x = OT_TABLE then delegate_of v x else Some None) \<bind> (\<lambda>da.
         (case da of None \<Rightarrow> Some (Inl v)
          | Some t \<Rightarrow> f c (ORef RTable t) k z DONT_FALL_BACK v \<bind> (\<lambda>r. Some (if fst r then Inr r else Inl (snd r)))) \<bind> (\<lambda>s.
           (case s of Inl v \<Rightarrow> Set_meta c x k z v | Inr r \<Rightarrow> Some (Inr r)) \<bind> (\<lambda>s.
             case s of Inl v \<Rightarrow> Set_root k z si v | Inr r \<Rightarrow> Some r)))
     | Inr r \<Rightarrow> Some r) = Some y"
  moreover have "le_opt (Set_own x k z v \<bind> (\<lambda>s. case s of Inl v \<Rightarrow>
       (if otype x = OT_TABLE then delegate_of v x else Some None) \<bind> (\<lambda>da.
         (case da of None \<Rightarrow> Some (Inl v)
          | Some t \<Rightarrow> f c (ORef RTable t) k z DONT_FALL_BACK v \<bind> (\<lambda>r. Some (if fst r then Inr r else Inl (snd r)))) \<bind> (\<lambda>s.
           (case s of Inl v \<Rightarrow> Set_meta c x k z v | Inr r \<Rightarrow> Some (Inr r)) \<bind> (\<lambda>s.
             case s of Inl v \<Rightarrow> Set_root k z si v | Inr r \<Rightarrow> Some r)))
     | Inr r \<Rightarrow> Some r)) (vm_Set d x k z si v)"
    by (subst vm_Set.simps) ((rule le_refl r ord_rules | rule cd)+)
  ultimately show "vm_Set d x k z si v = Some y" by (simp add: le_opt_def)
qed

lemma vm_Set_le [ord_rules]: "call_le c d \<Longrightarrow> le_opt (vm_Set c x k z si v) (vm_Set d x k z si v)"
  using vm_Set_some unfolding le_opt_def by blast

lemma vm_NewSlot_le [ord_rules]: "call_le c d \<Longrightarrow> le_opt (vm_NewSlot c x k y b v) (vm_NewSlot d x k y b v)"
  by (simp only: vm_NewSlot_def) ((rule le_refl ord_rules | erule le_call | assumption)+)

lemma vm_NewSlotA_le [ord_rules]: "call_le c d \<Longrightarrow> le_opt (vm_NewSlotA c x k y w b r v) (vm_NewSlotA d x k y w b r v)"
  by (simp only: vm_NewSlotA_def) ((rule le_refl ord_rules | erule le_call | assumption)+)

lemma vm_DeleteSlot_le [ord_rules]: "call_le c d \<Longrightarrow> le_opt (vm_DeleteSlot c x k v) (vm_DeleteSlot d x k v)"
  by (simp only: vm_DeleteSlot_def) ((rule le_refl ord_rules | erule le_call | assumption)+)

lemma clone_meta_le [ord_rules]: "call_le c d \<Longrightarrow> le_opt (clone_meta c x y v) (clone_meta d x y v)"
  by (simp only: clone_meta_def) ((rule le_refl ord_rules | erule le_call | assumption)+)

lemma vm_Clone_le [ord_rules]: "call_le c d \<Longrightarrow> le_opt (vm_Clone c x v) (vm_Clone d x v)"
  by (simp only: vm_Clone_def) ((rule le_refl ord_rules | erule le_call | assumption)+)

lemma DerefInc_le [ord_rules]: "call_le c d \<Longrightarrow> le_opt (DerefInc c p x k i b si v) (DerefInc d p x k i b si v)"
  by (simp only: DerefInc_def) ((rule le_refl ord_rules | erule le_call | assumption)+)

lemma PLOCAL_INC_le [ord_rules]: "call_le c d \<Longrightarrow> le_opt (PLOCAL_INC c p x i v) (PLOCAL_INC d p x i v)"
  by (simp only: PLOCAL_INC_def) ((rule le_refl ord_rules | erule le_call | assumption)+)

section \<open>Calls\<close>

lemma native_le: "native_mono nv \<Longrightarrow> call_le c d \<Longrightarrow> le_opt (nv c f v) (nv d f v)"
  by (simp add: native_mono_def)

lemma CallNative_le [ord_rules]: "native_mono nv \<Longrightarrow> call_le c d \<Longrightarrow> le_opt (CallNative nv c a n b v) (CallNative nv d a n b v)"
  by (simp only: CallNative_def) ((rule le_refl ord_rules | erule (1) native_le | erule le_call | assumption)+)

lemma CallErrorHandler_le [ord_rules]: "call_le c d \<Longrightarrow> le_opt (CallErrorHandler c e v) (CallErrorHandler d e v)"
  by (simp only: CallErrorHandler_def) ((rule le_refl ord_rules | erule le_call | assumption)+)

lemma class_derive_le [ord_rules]: "call_le c d \<Longrightarrow> le_opt (class_derive c a b ab v) (class_derive d a b ab v)"
  by (simp only: class_derive_def) ((rule le_refl ord_rules | erule le_call | assumption)+)

lemma CLASS_OP_le [ord_rules]: "call_le c d \<Longrightarrow> le_opt (CLASS_OP c a b ab v) (CLASS_OP d a b ab v)"
  by (simp only: CLASS_OP_def) ((rule le_refl ord_rules | erule le_call | assumption)+)

lemma foreach_meta_le [ord_rules]: "call_le c d \<Longrightarrow> le_opt (foreach_meta c x b e p v) (foreach_meta d x b e p v)"
  by (simp only: foreach_meta_def) ((rule le_refl ord_rules | erule le_call | assumption)+)

lemma FOREACH_OP_le [ord_rules]: "call_le c d \<Longrightarrow> le_opt (FOREACH_OP c x b e v) (FOREACH_OP d x b e v)"
  by (simp only: FOREACH_OP_def) ((rule le_refl ord_rules | erule le_call | assumption)+)

section \<open>Instructions\<close>

lemma go_le [ord_rules]: "le_opt r s \<Longrightarrow> le_opt (go t r) (go t s)"
  by (simp only: go_def) ((rule le_refl ord_rules | erule le_call | assumption)+)

lemma guard_le [ord_rules]: "le_opt r s \<Longrightarrow> le_opt (guard t r) (guard t s)"
  by (simp only: guard_def) ((rule le_refl ord_rules | erule le_call | assumption)+)

lemma to_target_le [ord_rules]: "le_opt r s \<Longrightarrow> le_opt (to_target a t r) (to_target a t s)"
  by (simp only: to_target_def) ((rule le_refl ord_rules | erule le_call | assumption)+)

lemma swap_target_le [ord_rules]: "le_opt r s \<Longrightarrow> le_opt (swap_target a t r) (swap_target a t s)"
  by (simp only: swap_target_def) ((rule le_refl ord_rules | erule le_call | assumption)+)

lemma arith_at_le [ord_rules]: "(\<And>x y v. le_opt (f x y v) (g x y v)) \<Longrightarrow> le_opt (arith_at f i t v) (arith_at g i t v)"
  by (simp only: arith_at_def) ((rule le_refl ord_rules | erule le_call | assumption)+)

lemma exec_loads_le [ord_rules]: "call_le c d \<Longrightarrow> le_opt (exec_loads c i t v) (exec_loads d i t v)"
  by (cases "iop i"; simp only: exec_loads_def opcode.case; (rule le_refl ord_rules | erule le_call | assumption)+)

lemma exec_slots_le [ord_rules]: "call_le c d \<Longrightarrow> le_opt (exec_slots c i t v) (exec_slots d i t v)"
  by (cases "iop i"; simp only: exec_slots_def opcode.case; (rule le_refl ord_rules | erule le_call | assumption)+)

lemma exec_operators_le [ord_rules]: "call_le c d \<Longrightarrow> le_opt (exec_operators c i t v) (exec_operators d i t v)"
  by (cases "iop i"; simp only: exec_operators_def opcode.case; (rule le_refl ord_rules | erule le_call | assumption)+)

lemma exec_moves_le [ord_rules]: "call_le c d \<Longrightarrow> le_opt (exec_moves c i t v) (exec_moves d i t v)"
  by (cases "iop i"; simp only: exec_moves_def opcode.case; (rule le_refl ord_rules | erule le_call | assumption)+)

lemma exec_jumps_le [ord_rules]: "call_le c d \<Longrightarrow> le_opt (exec_jumps c i t v) (exec_jumps d i t v)"
  by (cases "iop i"; simp only: exec_jumps_def opcode.case; (rule le_refl ord_rules | erule le_call | assumption)+)

lemma exec_objects_le [ord_rules]: "call_le c d \<Longrightarrow> le_opt (exec_objects c i t v) (exec_objects d i t v)"
  by (cases "iop i"; simp only: exec_objects_def opcode.case; (rule le_refl ord_rules | erule le_call | assumption)+)

lemma exec_incs_le [ord_rules]: "call_le c d \<Longrightarrow> le_opt (exec_incs c i t v) (exec_incs d i t v)"
  by (cases "iop i"; simp only: exec_incs_def opcode.case; (rule le_refl ord_rules | erule le_call | assumption)+)

lemma exec_tests_le [ord_rules]: "call_le c d \<Longrightarrow> le_opt (exec_tests c i t v) (exec_tests d i t v)"
  by (cases "iop i"; simp only: exec_tests_def opcode.case; (rule le_refl ord_rules | erule le_call | assumption)+)

lemma exec_closure_le [ord_rules]: "call_le c d \<Longrightarrow> le_opt (exec_closure c i t v) (exec_closure d i t v)"
  by (cases "iop i"; simp only: exec_closure_def opcode.case; (rule le_refl ord_rules | erule le_call | assumption)+)

lemma exec_iter_le [ord_rules]: "call_le c d \<Longrightarrow> le_opt (exec_iter c i t v) (exec_iter d i t v)"
  by (cases "iop i"; simp only: exec_iter_def opcode.case; (rule le_refl ord_rules | erule le_call | assumption)+)

lemma exec_traps_le [ord_rules]: "call_le c d \<Longrightarrow> le_opt (exec_traps c i t v) (exec_traps d i t v)"
  by (cases "iop i"; simp only: exec_traps_def opcode.case; (rule le_refl ord_rules | erule le_call | assumption)+)

lemma exec_members_le [ord_rules]: "call_le c d \<Longrightarrow> le_opt (exec_members c i t v) (exec_members d i t v)"
  by (cases "iop i"; simp only: exec_members_def opcode.case; (rule le_refl ord_rules | erule le_call | assumption)+)

lemma call_native_le [ord_rules]: "native_mono nv \<Longrightarrow> call_le c d \<Longrightarrow> le_opt (call_native nv c a i t v) (call_native nv d a i t v)"
  by (simp only: call_native_def) ((rule le_refl ord_rules | erule (1) native_le | erule le_call | assumption)+)

lemma call_class_le [ord_rules]: "native_mono nv \<Longrightarrow> call_le c d \<Longrightarrow> le_opt (call_class nv c a i t v) (call_class nv d a i t v)"
  by (simp only: call_class_def) ((rule le_refl ord_rules | erule (1) native_le | erule le_call | assumption)+)

lemma call_meta_le [ord_rules]: "call_le c d \<Longrightarrow> le_opt (call_meta c x i t v) (call_meta d x i t v)"
  by (simp only: call_meta_def) ((rule le_refl ord_rules | erule le_call | assumption)+)

lemma exec_call_le [ord_rules]: "native_mono nv \<Longrightarrow> call_le c d \<Longrightarrow> le_opt (exec_call nv c i t v) (exec_call nv d i t v)"
  by (simp only: exec_call_def) ((rule le_refl ord_rules | erule (1) native_le | erule le_call | assumption)+)

lemma exec_tailcall_le [ord_rules]: "native_mono nv \<Longrightarrow> call_le c d \<Longrightarrow> le_opt (exec_tailcall nv c i t v) (exec_tailcall nv d i t v)"
  by (simp only: exec_tailcall_def) ((rule le_refl ord_rules | erule (1) native_le | erule le_call | assumption)+)

lemma exec_instr_le [ord_rules]: "native_mono nv \<Longrightarrow> call_le c d \<Longrightarrow> le_opt (exec_instr nv c i t v) (exec_instr nv d i t v)"
  by (simp only: exec_instr_def) ((rule le_refl ord_rules | erule (1) native_le | erule le_call | assumption)+)

lemma exec_step_le [ord_rules]: "native_mono nv \<Longrightarrow> call_le c d \<Longrightarrow> le_opt (exec_step nv c t v) (exec_step nv d t v)"
  by (simp only: exec_step_def) ((rule le_refl ord_rules | erule (1) native_le | erule le_call | assumption)+)


section \<open>The loop\<close>

lemma le_outcome [ord_rules]:
  assumes "\<And>t v. le_opt (f t v) (f' t v)" "\<And>x v. le_opt (g x v) (g' x v)" "\<And>t v. le_opt (h t v) (h' t v)"
  shows "le_opt (case_outcome f g h x) (case_outcome f' g' h' x)"
  using assms by (cases x) simp_all

lemma exception_trap_le [ord_rules]: "call_le c d \<Longrightarrow> le_opt (exception_trap c r t v) (exception_trap d r t v)"
  by (simp only: exception_trap_def) ((rule le_refl ord_rules | erule le_call | assumption)+)

lemma after_throw_le [ord_rules]:
  "call_le c d \<Longrightarrow> (\<And>t v. le_opt (f t v) (g t v)) \<Longrightarrow> le_opt (after_throw c r f t v) (after_throw d r g t v)"
  by (simp only: after_throw_def) ((rule le_refl ord_rules | erule le_call | assumption)+)

lemma run_le [ord_rules]:
  "n \<le> m \<Longrightarrow> native_mono nv \<Longrightarrow> call_le c d \<Longrightarrow> le_opt (run n nv c r t v) (run m nv d r t v)"
proof (induction n arbitrary: m t v)
  case (Suc n)
  then obtain k where m: "m = Suc k" "n \<le> k" by (cases m) auto
  have ih: "le_opt (run n nv c r t v) (run k nv d r t v)" for t v
    using Suc.IH [OF m(2) Suc.prems(2,3)] .
  show ?case
    unfolding m(1) run.simps
    by (rule le_refl ih ord_rules Suc.prems)+
qed simp

lemma exec_enter_le [ord_rules]: "call_le c d \<Longrightarrow> le_opt (exec_enter c et x n sb p v) (exec_enter d et x n sb p v)"
  by (cases et; simp only: exec_enter_def exectype.case; (rule le_refl ord_rules | erule le_call | assumption)+)

lemma vm_Execute_le [ord_rules]:
  assumes "n \<le> m" "native_mono nv" "call_le c d"
  shows "le_opt (vm_Execute n nv c et x k sb p r v) (vm_Execute m nv d et x k sb p r v)"
  by (simp only: vm_Execute_def) ((rule le_refl ord_rules assms)+)

lemma call_function_le [ord_rules]:
  assumes "n \<le> m" "native_mono nv" "call_le c d"
  shows "le_opt (call_function n nv c f k sb r v) (call_function m nv d f k sb r v)"
  by (simp only: call_function_def) ((rule le_refl ord_rules assms)+)

lemma call_body_le [ord_rules]:
  assumes "n \<le> m" "native_mono nv" "call_le c d"
  shows "le_opt (call_body n nv c f k sb r v) (call_body m nv d f k sb r v)"
  by (simp only: call_body_def) ((rule le_refl ord_rules assms)+)

lemma Call_mono: "n \<le> m \<Longrightarrow> native_mono nv \<Longrightarrow> call_le (Call n nv) (Call m nv)"
proof (induction n arbitrary: m)
  case 0
  show ?case by (simp add: call_le_def)
next
  case (Suc n)
  then obtain k where m: "m = Suc k" "n \<le> k" by (cases m) auto
  have "call_le (Call n nv) (Call k nv)" using Suc.IH [OF m(2) Suc.prems(2)] .
  then show ?case
    unfolding m(1) Call.simps
    by (subst call_le_def) (intro allI call_body_le [OF m(2) Suc.prems(2)])
qed


text \<open>A function that adds two numbers and returns the sum, on an empty machine.\<close>

definition sum_code :: "instr list" where
  "sum_code = [Instr OP_LOADINT 1 5 0 0, Instr OP_LOADINT 2 7 0 0, Instr OP_ADD 3 1 2 0, Instr OP_RETURN 1 3 0 0]"

definition sum_proto :: funcproto where
  "sum_proto = \<lparr>p_sourcename = ONull, p_name = ONull, p_stacksize = 4, p_bgenerator = False,
     p_varparams = False, p_localvarinfos = [], p_lineinfos = [], p_literals = [], p_parameters = [OString ''this''],
     p_functions = [], p_outervalues = [], p_defaultparams = [], p_instructions = sum_code\<rparr>"

definition sum_vm :: vm where
  "sum_vm = (demo_vm (replicate 12 ONull))\<lparr>v_top := 1, v_stackbase := 0, v_calls := [],
     v_heap := [32 \<mapsto> HProto sum_proto,
       48 \<mapsto> HClosure \<lparr>c_env = None, c_root = None, c_base = None, c_function = 32, c_outervalues = [], c_defaultparams = []\<rparr>]\<rparr>"

definition no_native :: nativefn where "no_native = (\<lambda>c a v. None)"

lemma sum_run: "map_option (fst \<circ> snd) (Call 5 no_native (ORef RClosure 48) 1 0 False sum_vm) = Some (Some (OInteger 12))"
  by code_simp


end
