(* ===== verification/Compile_State.thy ===== *)
theory Compile_State
  imports FuncState Lexer Machine
begin

text \<open>
  The compiler (\<^verbatim>\<open>src/compiler.cpp\<close>): one recursive descent over the tokens that emits instructions into
  the state of the function it is in. A function of the class is an action on the state of the compiler;
  \<open>Error\<close> leaves by \<open>longjmp\<close> and is an outcome of its own (\<open>CErr\<close>), as are a failing assertion or an access
  outside a vector (\<open>CStuck\<close>) and an exhausted recursion budget (\<open>CFuel\<close>). The recursive calls of the code
  go through a parameter \<open>rc\<close>, indexed by the entry points \<open>nt\<close>; a loop is an entry point of its own, which
  calls itself while the code turns and goes on with the code behind the loop when it ends. \<open>compile\<close> ties
  the knot. Where C++ leaves the order of two calls open, the one written first is run first: it decides
  between two errors, and whether the stack size in a \<open>return\<close> or \<open>yield\<close> counts the register of its value.
\<close>

section \<open>State and actions\<close>

abbreviation (input) EXPR :: int where "EXPR \<equiv> 1"
abbreviation (input) OBJECT :: int where "OBJECT \<equiv> 2"
abbreviation (input) BASE :: int where "BASE \<equiv> 3"
abbreviation (input) LOCAL :: int where "LOCAL \<equiv> 4"
abbreviation (input) OUTER :: int where "OUTER \<equiv> 5"

record expstate =
  es_etype :: int
  es_epos :: int
  es_donot_get :: bool

record scope =
  sc_outers :: int
  sc_stacksize :: nat

text \<open>
  \<open>k_fs\<close> is \<open>_fs\<close> with its parents, innermost first; \<open>k_vm\<close> holds the tables and prototypes the compiler
  allocates, \<open>k_consts\<close> is the table \<open>_ss(_vm)->_consts\<close> there.
\<close>

record comp =
  k_token :: int
  k_lex :: lexer
  k_fs :: "fstate list"
  k_es :: expstate
  k_scope :: scope
  k_lineinfo :: bool
  k_sourcename :: lvobj
  k_consts :: u64
  k_vm :: vm

datatype 'a cres = COk 'a comp | CErr string comp | CStuck | CFuel

type_synonym 'a cm = "comp \<Rightarrow> 'a cres"

definition cret :: "'a \<Rightarrow> 'a cm" where "cret x k = COk x k"

definition cerror :: "string \<Rightarrow> 'a cm" where "cerror s k = CErr s k"

definition cstuck :: "'a cm" where "cstuck k = CStuck"

definition cbind :: "'a cm \<Rightarrow> ('a \<Rightarrow> 'b cm) \<Rightarrow> 'b cm" where
  "cbind m f k =
     (case m k of COk x k \<Rightarrow> f x k | CErr s k \<Rightarrow> CErr s k | CStuck \<Rightarrow> CStuck | CFuel \<Rightarrow> CFuel)"

definition cthen :: "unit cm \<Rightarrow> 'b cm \<Rightarrow> 'b cm" where "cthen m n = cbind m (\<lambda>_. n)"

text \<open>A sequence of statements.\<close>

definition cseq :: "unit cm list \<Rightarrow> unit cm" where "cseq ms = foldr cthen ms (cret ())"

definition cwhen :: "bool \<Rightarrow> unit cm \<Rightarrow> unit cm" where "cwhen b m = (if b then m else cret ())"

definition cget :: "(comp \<Rightarrow> 'a) \<Rightarrow> 'a cm" where "cget g k = COk (g k) k"

definition cput :: "(comp \<Rightarrow> comp) \<Rightarrow> unit cm" where "cput g k = COk () (g k)"

definition token :: "int cm" where "token = cget k_token"

definition es :: "expstate cm" where "es = cget k_es"

definition set_es :: "expstate \<Rightarrow> unit cm" where "set_es x = cput (\<lambda>k. k\<lparr>k_es := x\<rparr>)"

definition set_etype :: "int \<Rightarrow> unit cm" where "set_etype t = cput (\<lambda>k. k\<lparr>k_es := (k_es k)\<lparr>es_etype := t\<rparr>\<rparr>)"

definition set_epos :: "int \<Rightarrow> unit cm" where "set_epos p = cput (\<lambda>k. k\<lparr>k_es := (k_es k)\<lparr>es_epos := p\<rparr>\<rparr>)"

subsection \<open>Actions on the function state\<close>

text \<open>The argument tells whether the function has a parent.\<close>

definition fs_act :: "(bool \<Rightarrow> fstate \<Rightarrow> (string + 'a \<times> fstate) option) \<Rightarrow> 'a cm" where
  "fs_act g k =
     (case k_fs k of [] \<Rightarrow> CStuck
      | f # fs \<Rightarrow>
          (case g (fs \<noteq> []) f of
             None \<Rightarrow> CStuck
           | Some (Inl e) \<Rightarrow> CErr e k
           | Some (Inr (x, f)) \<Rightarrow> COk x (k\<lparr>k_fs := f # fs\<rparr>)))"

definition fs_get :: "(fstate \<Rightarrow> 'a) \<Rightarrow> 'a cm" where
  "fs_get g = fs_act (\<lambda>_ f. Some (Inr (g f, f)))"

definition fs_mod :: "(fstate \<Rightarrow> fstate) \<Rightarrow> unit cm" where
  "fs_mod g = fs_act (\<lambda>_ f. Some (Inr ((), g f)))"

definition fs_opt :: "(fstate \<Rightarrow> ('a \<times> fstate) option) \<Rightarrow> 'a cm" where
  "fs_opt g = fs_act (\<lambda>_ f. map_option Inr (g f))"

definition add_instr :: "instr \<Rightarrow> unit cm" where
  "add_instr i = fs_act (\<lambda>p f. map_option (\<lambda>f. Inr ((), f)) (AddInstruction p i f))"

definition emit :: "opcode \<Rightarrow> int \<Rightarrow> int \<Rightarrow> int \<Rightarrow> int \<Rightarrow> unit cm" where
  "emit p a0 a1 a2 a3 = add_instr (Instr p a0 a1 a2 a3)"

definition push_target :: "int cm" where
  "push_target = fs_act (\<lambda>_ f. Some (PushTarget (- 1) f))"

definition push_target_at :: "int \<Rightarrow> unit cm" where
  "push_target_at n = fs_act (\<lambda>_ f. Some (map_sum id (\<lambda>(_, f). ((), f)) (PushTarget n f)))"

definition pop_target :: "int cm" where "pop_target = fs_opt PopTarget"

definition drop_target :: "unit cm" where "drop_target = cbind pop_target (\<lambda>_. cret ())"

definition top_target :: "int cm" where "top_target = fs_opt (\<lambda>f. map_option (\<lambda>t. (t, f)) (TopTarget f))"

definition position :: "int cm" where "position = fs_get GetCurrentPos"

definition snooze :: "unit cm" where "snooze = fs_mod SnoozeOpt"

text \<open>Patching an instruction; outside the vector the access is not defined.\<close>

definition patch :: "int \<Rightarrow> (fstate \<Rightarrow> fstate) \<Rightarrow> unit cm" where
  "patch p g = fs_opt (\<lambda>f. if 0 \<le> p \<and> p < int (length (f_instructions f)) then Some ((), g f) else None)"

definition set_param :: "int \<Rightarrow> nat \<Rightarrow> int \<Rightarrow> unit cm" where
  "set_param p arg val = patch p (SetIntructionParam (nat p) arg val)"

definition set_params :: "int \<Rightarrow> int \<Rightarrow> int \<Rightarrow> int \<Rightarrow> unit cm" where
  "set_params p a0 a1 a2 = patch p (SetIntructionParams (nat p) a0 a1 a2 0)"

definition get_constant :: "lvobj \<Rightarrow> int cm" where
  "get_constant x k = fs_act (\<lambda>_. GetConstant (weak_of (k_vm k)) x) k"

definition numeric_constant :: "u64 + u32 \<Rightarrow> int cm" where
  "numeric_constant c k = fs_act (\<lambda>_. GetNumericConstant (weak_of (k_vm k)) c) k"

definition create_string :: "string \<Rightarrow> lvobj cm" where "create_string s = fs_opt (fs_CreateString s)"

text \<open>\<open>_lex._svalue\<close> up to its NUL, and with its length given.\<close>

definition lex_name :: "lvobj cm" where
  "lex_name = cbind (cget (\<lambda>k. c_string (svalue (k_lex k)))) create_string"

definition lex_string :: "lvobj cm" where
  "lex_string = cbind (cget (\<lambda>k. take (length (longstr (k_lex k)) - 1) (svalue (k_lex k)))) create_string"

definition local_target :: "int \<Rightarrow> bool cm" where "local_target t = fs_get (IsLocal (nat t))"

text \<open>\<open>top()--\<close>, \<open>top()++\<close> and \<open>pop_back\<close> of the vectors of break targets.\<close>

definition bump_last :: "int \<Rightarrow> int list \<Rightarrow> int list" where
  "bump_last d xs = (if xs = [] then [] else butlast xs @ [last xs + d])"

subsection \<open>Tokens\<close>

definition cLex :: "unit cm" where
  "cLex k =
     (case Lex (k_lex k) of
        LErr e \<Rightarrow> CErr e k
      | LOk (t, l) \<Rightarrow> COk () (k\<lparr>k_token := t, k_lex := l\<rparr>))"

definition in_quotes :: "string \<Rightarrow> string" where
  "in_quotes s = ''expected '' @ [CHR 0x27] @ s @ [CHR 0x27]"

text \<open>The message names the token; \<open>Tok2Str\<close> finds nothing for a token that is not a keyword.\<close>

definition token_text :: "lexer \<Rightarrow> int \<Rightarrow> string" where
  "token_text l t =
     (if t = TK_IDENTIFIER then ''IDENTIFIER'' else if t = TK_STRING_LITERAL then ''STRING_LITERAL''
      else if t = TK_INTEGER then ''INTEGER'' else if t = TK_FLOAT then ''FLOAT''
      else (case Tok2Str l t of Some s \<Rightarrow> s | None \<Rightarrow> ''(null)''))"

definition Expect :: "int \<Rightarrow> lvobj cm" where
  "Expect t =
     cbind token (\<lambda>u.
     if u \<noteq> t \<and> \<not> (u = TK_CONSTRUCTOR \<and> t = TK_IDENTIFIER) then
       (if t > 255 then cbind (cget k_lex) (\<lambda>l. cerror (in_quotes (token_text l t)))
        else cerror (in_quotes [char_of (nat t)]))
     else
       cbind (if t = TK_IDENTIFIER then lex_name
              else if t = TK_STRING_LITERAL then lex_string
              else if t = TK_INTEGER then cget (\<lambda>k. OInteger (nvalue (k_lex k)))
              else if t = TK_FLOAT then cget (\<lambda>k. OFloat (fvalue (k_lex k)))
              else cret ONull) (\<lambda>ret. cthen cLex (cret ret)))"

abbreviation expect_char :: "char \<Rightarrow> unit cm" where
  "expect_char c \<equiv> cbind (Expect (tok c)) (\<lambda>_. cret ())"

definition IsEndOfStatement :: "bool cm" where
  "IsEndOfStatement = cget (\<lambda>k. prevtoken (k_lex k) = tok (CHR 0x0A) \<or> k_token k = 0 \<or>
     k_token k = tok (CHR ''}'') \<or> k_token k = tok (CHR '';''))"

definition OptionalSemicolon :: "unit cm" where
  "OptionalSemicolon =
     cbind token (\<lambda>t.
     if t = tok (CHR '';'') then cLex
     else cbind IsEndOfStatement (\<lambda>b.
       if b then cret () else cerror ''end of statement expected (; or lf)''))"

text \<open>The \<open>OptionalSemicolon\<close> behind a statement that does not end by itself.\<close>

definition statement_end :: "unit cm" where
  "statement_end =
     cbind (cget (\<lambda>k. prevtoken (k_lex k))) (\<lambda>p.
     cwhen (p \<noteq> tok (CHR ''}'') \<and> p \<noteq> tok (CHR '';'')) OptionalSemicolon)"

definition MoveIfCurrentTargetIsLocal :: "unit cm" where
  "MoveIfCurrentTargetIsLocal =
     cbind top_target (\<lambda>trg.
     cbind (local_target trg) (\<lambda>b.
     cwhen b (cbind pop_target (\<lambda>trg. cbind push_target (\<lambda>t. emit OP_MOVE t trg 0 0)))))"

text \<open>\<open>_fs->AddLineInfos(_lex._currentline, _lineinfo, force)\<close>.\<close>

definition line_info :: "int \<Rightarrow> bool \<Rightarrow> unit cm" where
  "line_info line force k =
     fs_act (\<lambda>p f. map_option (\<lambda>f. Inr ((), f)) (AddLineInfos p line (k_lineinfo k) force f)) k"

subsection \<open>Scopes and breakable blocks\<close>

definition BEGIN_SCOPE :: "scope cm" where
  "BEGIN_SCOPE =
     cbind (cget k_scope) (\<lambda>old.
     cbind (fs_get (\<lambda>f. \<lparr>sc_outers = f_outers f, sc_stacksize = GetStackSize f\<rparr>)) (\<lambda>sc.
     cthen (cput (\<lambda>k. k\<lparr>k_scope := sc\<rparr>)) (cret old)))"

definition RESOLVE_OUTERS :: "unit cm" where
  "RESOLVE_OUTERS =
     cbind (cget (\<lambda>k. sc_stacksize (k_scope k))) (\<lambda>n.
     cbind (fs_get (\<lambda>f. GetStackSize f \<noteq> n \<and> CountOuters n f \<noteq> 0)) (\<lambda>b.
     cwhen b (emit OP_CLOSE 0 (int n) 0 0)))"

definition END_SCOPE_NO_CLOSE :: "scope \<Rightarrow> unit cm" where
  "END_SCOPE_NO_CLOSE old =
     cbind (cget (\<lambda>k. sc_stacksize (k_scope k))) (\<lambda>n.
     cseq [fs_mod (\<lambda>f. if GetStackSize f \<noteq> n then SetStackSize n f else f),
           cput (\<lambda>k. k\<lparr>k_scope := old\<rparr>)])"

definition END_SCOPE :: "scope \<Rightarrow> unit cm" where
  "END_SCOPE old =
     cbind (fs_get f_outers) (\<lambda>oldouters.
     cbind (cget (\<lambda>k. sc_stacksize (k_scope k))) (\<lambda>n.
     cbind (fs_get (\<lambda>f. GetStackSize f \<noteq> n)) (\<lambda>b.
     cseq [cwhen b (cthen (fs_mod (SetStackSize n))
             (cbind (fs_get f_outers) (\<lambda>o'. cwhen (oldouters \<noteq> o') (emit OP_CLOSE 0 (int n) 0 0)))),
           cput (\<lambda>k. k\<lparr>k_scope := old\<rparr>)])))"

text \<open>The numbers of breaks and continues that are still unresolved when the block begins.\<close>

definition BEGIN_BREAKBLE_BLOCK :: "(nat \<times> nat) cm" where
  "BEGIN_BREAKBLE_BLOCK =
     cbind (fs_get (\<lambda>f. (length (f_unresolvedbreaks f), length (f_unresolvedcontinues f)))) (\<lambda>n.
     cthen (fs_mod (\<lambda>f. f\<lparr>f_breaktargets := f_breaktargets f @ [0], f_continuetargets := f_continuetargets f @ [0]\<rparr>))
       (cret n))"

primrec ResolveBreaks :: "nat \<Rightarrow> unit cm" where
  "ResolveBreaks 0 = cret ()"
| "ResolveBreaks (Suc n) =
     cbind (fs_opt (\<lambda>f. if f_unresolvedbreaks f = [] then None
       else Some (last (f_unresolvedbreaks f), f\<lparr>f_unresolvedbreaks := butlast (f_unresolvedbreaks f)\<rparr>))) (\<lambda>pos.
     cbind position (\<lambda>cur. cthen (set_params pos 0 (cur - pos) 0) (ResolveBreaks n)))"

primrec ResolveContinues :: "nat \<Rightarrow> int \<Rightarrow> unit cm" where
  "ResolveContinues 0 targetpos = cret ()"
| "ResolveContinues (Suc n) targetpos =
     cbind (fs_opt (\<lambda>f. if f_unresolvedcontinues f = [] then None
       else Some (last (f_unresolvedcontinues f), f\<lparr>f_unresolvedcontinues := butlast (f_unresolvedcontinues f)\<rparr>))) (\<lambda>pos.
     cthen (set_params pos 0 (targetpos - pos) 0) (ResolveContinues n targetpos))"

definition pop_breaktarget :: "unit cm" where
  "pop_breaktarget = fs_opt (\<lambda>f. if f_breaktargets f = [] then None
     else Some ((), f\<lparr>f_breaktargets := butlast (f_breaktargets f)\<rparr>))"

definition END_BREAKBLE_BLOCK :: "nat \<times> nat \<Rightarrow> int \<Rightarrow> unit cm" where
  "END_BREAKBLE_BLOCK old continue_target =
     cbind (fs_get (\<lambda>f. length (f_unresolvedbreaks f) - fst old)) (\<lambda>nbreaks.
     cbind (fs_get (\<lambda>f. length (f_unresolvedcontinues f) - snd old)) (\<lambda>ncontinues.
     cseq [ResolveContinues ncontinues continue_target, ResolveBreaks nbreaks, pop_breaktarget,
           fs_opt (\<lambda>f. if f_continuetargets f = [] then None
             else Some ((), f\<lparr>f_continuetargets := butlast (f_continuetargets f)\<rparr>))]))"

section \<open>Entry points of the recursion\<close>

datatype (plugins only: code size) nt =
    NCommaExpr | NCommaLoop | NExpression | NLogicalOr | NLogicalAnd | NAndLoop | NBorLoop | NXorLoop | NBandLoop
  | NEqLoop | NCompLoop | NShiftLoop | NPlusLoop | NMultLoop | NPrefixed | NPrefixLoop
  | NArray int int | NCallArgs nat | NTable int int int int
  | NVars | NStatement bool | NStatements | NCase int bool int int nat | NDoubleColon lvobj
  | NEnum lvobj u64 int | NParams fstate nat bool | NMain

type_synonym rcall = "nt \<Rightarrow> unit cm"

end
