(* ===== verification/Compile_Expr.thy ===== *)
theory Compile_Expr
  imports Compile_State
begin

text \<open>
  Expressions (\<^verbatim>\<open>src/compiler.cpp\<close>): the levels of precedence from the comma down to a postfix operator, and
  what they emit. An operand stays on the stack of targets until its operator takes it.
\<close>

section \<open>Emitting code\<close>

definition EmitDerefOp :: "opcode \<Rightarrow> unit cm" where
  "EmitDerefOp p =
     cbind pop_target (\<lambda>val. cbind pop_target (\<lambda>key. cbind pop_target (\<lambda>src.
     cbind push_target (\<lambda>t. emit p t src key val))))"

definition Emit2ArgsOP :: "opcode \<Rightarrow> int \<Rightarrow> unit cm" where
  "Emit2ArgsOP p p3 =
     cbind pop_target (\<lambda>p2. cbind pop_target (\<lambda>p1. cbind push_target (\<lambda>t. emit p t p1 p2 p3)))"

text \<open>For any other token the assertion fails.\<close>

definition ChooseArithOpByToken :: "int \<Rightarrow> opcode option" where
  "ChooseArithOpByToken t =
     (if t = TK_PLUSEQ \<or> t = tok (CHR ''+'') then Some OP_ADD
      else if t = TK_MINUSEQ \<or> t = tok (CHR ''-'') then Some OP_SUB
      else if t = TK_MULEQ \<or> t = tok (CHR ''*'') then Some OP_MUL
      else if t = TK_DIVEQ \<or> t = tok (CHR ''/'') then Some OP_DIV
      else if t = TK_MODEQ \<or> t = tok (CHR 0x25) then Some OP_MOD else None)"

definition ChooseCompArithCharByToken :: "int \<Rightarrow> int option" where
  "ChooseCompArithCharByToken t =
     (if t = TK_MINUSEQ then Some (tok (CHR ''-'')) else if t = TK_PLUSEQ then Some (tok (CHR ''+''))
      else if t = TK_MULEQ then Some (tok (CHR ''*'')) else if t = TK_DIVEQ then Some (tok (CHR ''/''))
      else if t = TK_MODEQ then Some (tok (CHR 0x25)) else None)"

definition emit_arith :: "int \<Rightarrow> int \<Rightarrow> int \<Rightarrow> int \<Rightarrow> unit cm" where
  "emit_arith t a0 a1 a2 = (case ChooseArithOpByToken t of None \<Rightarrow> cstuck | Some p \<Rightarrow> emit p a0 a1 a2 0)"

definition EmitCompoundArith :: "int \<Rightarrow> int \<Rightarrow> int \<Rightarrow> unit cm" where
  "EmitCompoundArith t etype pos =
     (if etype = LOCAL then
        cbind pop_target (\<lambda>p2. cbind pop_target (\<lambda>p1.
        cseq [push_target_at p1, emit_arith t p1 p2 p1, snooze]))
      else if etype = OBJECT \<or> etype = BASE then
        cbind pop_target (\<lambda>val. cbind pop_target (\<lambda>key. cbind pop_target (\<lambda>src. cbind push_target (\<lambda>trg.
        case ChooseCompArithCharByToken t of None \<Rightarrow> cstuck
        | Some c \<Rightarrow> emit OP_COMPARITH trg (push_bit 16 src OR val) key c))))
      else if etype = OUTER then
        cbind top_target (\<lambda>val. cbind push_target (\<lambda>tmp.
        cseq [emit OP_GETOUTER tmp pos 0 0, emit_arith t tmp val tmp, drop_target, drop_target,
              cbind push_target (\<lambda>trg. emit OP_SETOUTER trg pos tmp 0)]))
      else cret ())"

definition INT_MAX :: int where "INT_MAX = 2147483647"
definition INT_MIN :: int where "INT_MIN = - 2147483648"

text \<open>A negative target asks for a new one; a \<open>LVFloat\<close> has the size of an \<open>LVInt32\<close>.\<close>

definition target_or_new :: "int \<Rightarrow> int cm" where
  "target_or_new t = (if t < 0 then push_target else cret t)"

definition EmitLoadConstInt :: "u64 \<Rightarrow> int \<Rightarrow> unit cm" where
  "EmitLoadConstInt value t =
     cbind (target_or_new t) (\<lambda>t.
     if sint value \<le> INT_MAX \<and> sint value > INT_MIN then emit OP_LOADINT t (sint value) 0 0
     else cbind (numeric_constant (Inl value)) (\<lambda>c. emit OP_LOAD t c 0 0))"

definition EmitLoadConstFloat :: "u32 \<Rightarrow> int \<Rightarrow> unit cm" where
  "EmitLoadConstFloat value t = cbind (target_or_new t) (\<lambda>t. emit OP_LOADFLOAT t (sint value) 0 0)"

definition load_constant :: "lvobj \<Rightarrow> unit cm" where
  "load_constant x = cbind push_target (\<lambda>t. cbind (get_constant x) (\<lambda>c. emit OP_LOAD t c 0 0))"

definition NeedGet :: "bool cm" where
  "NeedGet =
     cbind token (\<lambda>t. cbind es (\<lambda>e. cbind IsEndOfStatement (\<lambda>eos.
     if t \<in> {tok (CHR ''=''), tok (CHR ''(''), TK_NEWSLOT, TK_MODEQ, TK_MULEQ, TK_DIVEQ, TK_MINUSEQ, TK_PLUSEQ}
     then cret False
     else if t \<in> {TK_PLUSPLUS, TK_MINUSMINUS} \<and> \<not> eos then cret False
     else cret (\<not> es_donot_get e \<or> t = tok (CHR ''.'') \<or> t = tok (CHR ''['')))))"

section \<open>Expressions\<close>

definition CommaExpr :: "rcall \<Rightarrow> unit cm" where
  "CommaExpr rc = cthen (rc NExpression) (rc NCommaLoop)"

definition comma_loop :: "rcall \<Rightarrow> unit cm" where
  "comma_loop rc =
     cbind token (\<lambda>t.
     cwhen (t = tok (CHR '','')) (cseq [drop_target, cLex, rc NCommaExpr, rc NCommaLoop]))"

text \<open>A fresh expression state around an action, as in \<open>INVOKE_EXP\<close> and \<open>Expression\<close>.\<close>

definition INVOKE_EXP :: "unit cm \<Rightarrow> unit cm" where
  "INVOKE_EXP f =
     cbind es (\<lambda>e.
     cseq [set_es \<lparr>es_etype = EXPR, es_epos = - 1, es_donot_get = False\<rparr>, f, set_es e])"

definition assign_ops :: "int set" where
  "assign_ops = {tok (CHR ''=''), TK_NEWSLOT, TK_MINUSEQ, TK_PLUSEQ, TK_MULEQ, TK_DIVEQ, TK_MODEQ}"

definition assignment :: "rcall \<Rightarrow> unit cm" where
  "assignment rc =
     cbind token (\<lambda>p. cbind es (\<lambda>e. let ds = es_etype e; pos = es_epos e in
     if ds = EXPR then cerror (''can'' @ [CHR 0x27] @ ''t assign expression'')
     else if ds = BASE then cerror ([CHR 0x27] @ ''base'' @ [CHR 0x27] @ '' cannot be modified'')
     else cseq [cLex, rc NExpression,
       if p = TK_NEWSLOT then
         (if ds = OBJECT \<or> ds = BASE then EmitDerefOp OP_NEWSLOT
          else cerror (''can'' @ [CHR 0x27] @ ''t '' @ [CHR 0x27] @ ''create'' @ [CHR 0x27] @ '' a local slot''))
       else if p = tok (CHR ''='') then
         (if ds = LOCAL then cbind pop_target (\<lambda>src. cbind top_target (\<lambda>dst. emit OP_MOVE dst src 0 0))
          else if ds = OBJECT \<or> ds = BASE then EmitDerefOp OP_SET
          else if ds = OUTER then cbind pop_target (\<lambda>src. cbind push_target (\<lambda>dst. emit OP_SETOUTER dst pos src 0))
          else cret ())
       else EmitCompoundArith p ds pos]))"

definition conditional :: "rcall \<Rightarrow> unit cm" where
  "conditional rc =
     cthen cLex
     (cbind pop_target (\<lambda>c. cthen (emit OP_JZ c 0 0 0)
     (cbind position (\<lambda>jzpos. cbind push_target (\<lambda>trg. cthen (rc NExpression)
     (cbind pop_target (\<lambda>first_exp. cthen (cwhen (trg \<noteq> first_exp) (emit OP_MOVE trg first_exp 0 0))
     (cbind position (\<lambda>endfirstexp. cthen (emit OP_JMP 0 0 0 0) (cthen (expect_char (CHR '':''))
     (cbind position (\<lambda>jmppos. cthen (rc NExpression)
     (cbind pop_target (\<lambda>second_exp. cthen (cwhen (trg \<noteq> second_exp) (emit OP_MOVE trg second_exp 0 0))
     (cbind position (\<lambda>cur.
       cseq [set_param jmppos 1 (cur - jmppos), set_param jzpos 1 (endfirstexp - jzpos + 1), snooze]))))))))))))))))"

definition Expression :: "rcall \<Rightarrow> unit cm" where
  "Expression rc =
     INVOKE_EXP (cthen (rc NLogicalOr)
       (cbind token (\<lambda>t.
        if t \<in> assign_ops then assignment rc else cwhen (t = tok (CHR ''?'')) (conditional rc))))"

definition BIN_EXP :: "opcode \<Rightarrow> unit cm \<Rightarrow> int \<Rightarrow> unit cm" where
  "BIN_EXP p f op3 =
     cthen cLex (cthen (INVOKE_EXP f)
     (cbind pop_target (\<lambda>op1. cbind pop_target (\<lambda>op2. cbind push_target (\<lambda>t. emit p t op1 op2 op3)))))"

text \<open>The common part of \<open>||\<close> and \<open>&&\<close>.\<close>

definition short_circuit :: "opcode \<Rightarrow> unit cm \<Rightarrow> unit cm" where
  "short_circuit p f =
     cbind pop_target (\<lambda>first_exp. cbind push_target (\<lambda>trg. cthen (emit p trg 0 first_exp 0)
     (cbind position (\<lambda>jpos.
      cthen (cseq [cwhen (trg \<noteq> first_exp) (emit OP_MOVE trg first_exp 0 0), cLex, INVOKE_EXP f, snooze])
     (cbind pop_target (\<lambda>second_exp.
      cthen (cseq [cwhen (trg \<noteq> second_exp) (emit OP_MOVE trg second_exp 0 0), snooze])
     (cbind position (\<lambda>cur. set_param jpos 1 (cur - jpos)))))))))"

definition bw_code :: "bitwiseop \<Rightarrow> int" where
  "bw_code b = (case b of BW_AND \<Rightarrow> 0 | BW_OR \<Rightarrow> 2 | BW_XOR \<Rightarrow> 3 | BW_SHIFTL \<Rightarrow> 4 | BW_SHIFTR \<Rightarrow> 5 | BW_USHIFTR \<Rightarrow> 6)"

definition cmp_code :: "cmpop \<Rightarrow> int" where
  "cmp_code c = (case c of CMP_G \<Rightarrow> 0 | CMP_GE \<Rightarrow> 2 | CMP_L \<Rightarrow> 3 | CMP_LE \<Rightarrow> 4 | CMP_3W \<Rightarrow> 5)"

text \<open>The levels of precedence, the tightest first; the loop of a level is its own entry point.\<close>

definition PrefixedExpr :: "rcall \<Rightarrow> unit cm" where "PrefixedExpr rc = rc NPrefixed"

definition MultExp :: "rcall \<Rightarrow> unit cm" where
  "MultExp rc = cthen (PrefixedExpr rc) (rc NMultLoop)"

definition mult_loop :: "rcall \<Rightarrow> unit cm" where
  "mult_loop rc =
     cbind token (\<lambda>t.
     cwhen (t = tok (CHR ''*'') \<or> t = tok (CHR ''/'') \<or> t = tok (CHR 0x25))
       (case ChooseArithOpByToken t of None \<Rightarrow> cstuck
        | Some p \<Rightarrow> cseq [BIN_EXP p (PrefixedExpr rc) 0, rc NMultLoop]))"

definition PlusExp :: "rcall \<Rightarrow> unit cm" where
  "PlusExp rc = cthen (MultExp rc) (rc NPlusLoop)"

definition plus_loop :: "rcall \<Rightarrow> unit cm" where
  "plus_loop rc =
     cbind token (\<lambda>t.
     cwhen (t = tok (CHR ''+'') \<or> t = tok (CHR ''-''))
       (case ChooseArithOpByToken t of None \<Rightarrow> cstuck
        | Some p \<Rightarrow> cseq [BIN_EXP p (MultExp rc) 0, rc NPlusLoop]))"

definition ShiftExp :: "rcall \<Rightarrow> unit cm" where
  "ShiftExp rc = cthen (PlusExp rc) (rc NShiftLoop)"

definition shift_loop :: "rcall \<Rightarrow> unit cm" where
  "shift_loop rc =
     cbind token (\<lambda>t.
     if t = TK_USHIFTR then cseq [BIN_EXP OP_BITW (PlusExp rc) (bw_code BW_USHIFTR), rc NShiftLoop]
     else if t = TK_SHIFTL then cseq [BIN_EXP OP_BITW (PlusExp rc) (bw_code BW_SHIFTL), rc NShiftLoop]
     else if t = TK_SHIFTR then cseq [BIN_EXP OP_BITW (PlusExp rc) (bw_code BW_SHIFTR), rc NShiftLoop]
     else cret ())"

definition CompExp :: "rcall \<Rightarrow> unit cm" where
  "CompExp rc = cthen (ShiftExp rc) (rc NCompLoop)"

definition comp_loop :: "rcall \<Rightarrow> unit cm" where
  "comp_loop rc =
     cbind token (\<lambda>t.
     if t = tok (CHR ''>'') then cseq [BIN_EXP OP_CMP (ShiftExp rc) (cmp_code CMP_G), rc NCompLoop]
     else if t = tok (CHR ''<'') then cseq [BIN_EXP OP_CMP (ShiftExp rc) (cmp_code CMP_L), rc NCompLoop]
     else if t = TK_GE then cseq [BIN_EXP OP_CMP (ShiftExp rc) (cmp_code CMP_GE), rc NCompLoop]
     else if t = TK_LE then cseq [BIN_EXP OP_CMP (ShiftExp rc) (cmp_code CMP_LE), rc NCompLoop]
     else if t = TK_IN then cseq [BIN_EXP OP_EXISTS (ShiftExp rc) 0, rc NCompLoop]
     else if t = TK_INSTANCEOF then cseq [BIN_EXP OP_INSTANCEOF (ShiftExp rc) 0, rc NCompLoop]
     else cret ())"

definition EqExp :: "rcall \<Rightarrow> unit cm" where
  "EqExp rc = cthen (CompExp rc) (rc NEqLoop)"

definition eq_loop :: "rcall \<Rightarrow> unit cm" where
  "eq_loop rc =
     cbind token (\<lambda>t.
     if t = TK_EQ then cseq [BIN_EXP OP_EQ (CompExp rc) 0, rc NEqLoop]
     else if t = TK_NE then cseq [BIN_EXP OP_NE (CompExp rc) 0, rc NEqLoop]
     else if t = TK_3WAYSCMP then cseq [BIN_EXP OP_CMP (CompExp rc) (cmp_code CMP_3W), rc NEqLoop]
     else cret ())"

definition BitwiseAndExp :: "rcall \<Rightarrow> unit cm" where
  "BitwiseAndExp rc = cthen (EqExp rc) (rc NBandLoop)"

definition band_loop :: "rcall \<Rightarrow> unit cm" where
  "band_loop rc =
     cbind token (\<lambda>t. cwhen (t = tok (CHR ''&'')) (cseq [BIN_EXP OP_BITW (EqExp rc) (bw_code BW_AND), rc NBandLoop]))"

definition BitwiseXorExp :: "rcall \<Rightarrow> unit cm" where
  "BitwiseXorExp rc = cthen (BitwiseAndExp rc) (rc NXorLoop)"

definition xor_loop :: "rcall \<Rightarrow> unit cm" where
  "xor_loop rc =
     cbind token (\<lambda>t. cwhen (t = tok (CHR ''^'')) (cseq [BIN_EXP OP_BITW (BitwiseAndExp rc) (bw_code BW_XOR), rc NXorLoop]))"

definition BitwiseOrExp :: "rcall \<Rightarrow> unit cm" where
  "BitwiseOrExp rc = cthen (BitwiseXorExp rc) (rc NBorLoop)"

definition bor_loop :: "rcall \<Rightarrow> unit cm" where
  "bor_loop rc =
     cbind token (\<lambda>t. cwhen (t = tok (CHR ''|'')) (cseq [BIN_EXP OP_BITW (BitwiseXorExp rc) (bw_code BW_OR), rc NBorLoop]))"

definition LogicalAndExp :: "rcall \<Rightarrow> unit cm" where
  "LogicalAndExp rc = cthen (BitwiseOrExp rc) (rc NAndLoop)"

definition and_loop :: "rcall \<Rightarrow> unit cm" where
  "and_loop rc =
     cbind token (\<lambda>t. cwhen (t = TK_AND) (cseq [short_circuit OP_AND (rc NLogicalAnd), rc NAndLoop]))"

definition LogicalOrExp :: "rcall \<Rightarrow> unit cm" where
  "LogicalOrExp rc =
     cthen (LogicalAndExp rc)
       (cbind token (\<lambda>t. cwhen (t = TK_OR) (short_circuit OP_OR (rc NLogicalOr))))"

definition UnaryOP :: "rcall \<Rightarrow> opcode \<Rightarrow> unit cm" where
  "UnaryOP rc p =
     cthen (PrefixedExpr rc) (cbind pop_target (\<lambda>src. cbind push_target (\<lambda>t. emit p t src 0 0)))"

text \<open>The end of \<open>.name\<close>, \<open>[key]\<close> and \<open>->name\<close>.\<close>

definition deref :: "unit cm" where
  "deref =
     cbind es (\<lambda>e.
     if es_etype e = BASE then
       cthen (Emit2ArgsOP OP_GET 0) (cbind top_target (\<lambda>pos. cthen (set_etype EXPR) (set_epos pos)))
     else cbind NeedGet (\<lambda>b. cseq [cwhen b (Emit2ArgsOP OP_GET 0), set_etype OBJECT]))"

definition field_name :: "unit cm" where
  "field_name = cthen cLex (cbind push_target (\<lambda>t. cbind (Expect TK_IDENTIFIER) (\<lambda>s.
     cbind (get_constant s) (\<lambda>c. emit OP_LOAD t c 0 0))))"

definition not_incrementable :: string where
  "not_incrementable = ''can'' @ [CHR 0x27] @ ''t '' @ [CHR 0x27] @ ''++'' @ [CHR 0x27] @ '' or '' @ [CHR 0x27] @
     ''--'' @ [CHR 0x27] @ '' an expression''"

definition postfix_inc :: "unit cm" where
  "postfix_inc =
     cbind IsEndOfStatement (\<lambda>eos. if eos then cret () else
     cbind token (\<lambda>t. let diff = (if t = TK_MINUSMINUS then - 1 else 1) in
     cthen cLex (cbind es (\<lambda>e.
       if es_etype e = EXPR then cerror not_incrementable
       else if es_etype e = OBJECT \<or> es_etype e = BASE then
         (if es_donot_get e then cerror not_incrementable else Emit2ArgsOP OP_PINC diff)
       else if es_etype e = LOCAL then
         cbind pop_target (\<lambda>src. cbind push_target (\<lambda>t. emit OP_PINCL t src 0 diff))
       else if es_etype e = OUTER then
         cbind push_target (\<lambda>tmp1. cbind push_target (\<lambda>tmp2.
         cseq [emit OP_GETOUTER tmp2 (es_epos e) 0 0, emit OP_PINCL tmp1 tmp2 0 diff,
               emit OP_SETOUTER tmp2 (es_epos e) tmp2 0, drop_target]))
       else cret ()))))"

definition prepare_call :: "unit cm" where
  "prepare_call =
     cbind es (\<lambda>e.
     if es_etype e = OBJECT then
       cbind pop_target (\<lambda>key. cbind pop_target (\<lambda>table. cbind push_target (\<lambda>closure. cbind push_target (\<lambda>ttarget.
       emit OP_PREPCALL closure key table ttarget))))
     else if es_etype e = OUTER then
       cthen (cbind push_target (\<lambda>t. emit OP_GETOUTER t (es_epos e) 0 0)) (cbind push_target (\<lambda>t. emit OP_MOVE t 0 0 0))
     else cbind push_target (\<lambda>t. emit OP_MOVE t 0 0 0))"

text \<open>\<open>FunctionCallArgs\<close>: the loop over the arguments, and the call behind it.\<close>

primrec drop_targets :: "nat \<Rightarrow> unit cm" where
  "drop_targets 0 = cret ()"
| "drop_targets (Suc n) = cthen drop_target (drop_targets n)"

definition FunctionCallArgs :: "rcall \<Rightarrow> nat \<Rightarrow> unit cm" where
  "FunctionCallArgs rc nargs =
     cbind token (\<lambda>t.
     if t \<noteq> tok (CHR '')'') then
       cseq [rc NExpression, MoveIfCurrentTargetIsLocal,
         cbind token (\<lambda>t. cwhen (t = tok (CHR '',''))
           (cthen cLex (cbind token (\<lambda>t. cwhen (t = tok (CHR '')''))
             (cerror (''expression expected, found '' @ [CHR 0x27] @ '')'' @ [CHR 0x27])))))),
         rc (NCallArgs (nargs + 1))]
     else
       cseq [cLex, drop_targets (nargs - 1),
         cbind pop_target (\<lambda>stackbase. cbind pop_target (\<lambda>closure. cbind push_target (\<lambda>t.
           emit OP_CALL t closure stackbase (int nargs))))])"

text \<open>\<open>PrefixedExpr\<close>: a factor, and the loop over what follows it. The value of \<open>Factor\<close> is not used.\<close>

definition prefix_loop :: "rcall \<Rightarrow> unit cm" where
  "prefix_loop rc =
     cbind token (\<lambda>t.
     if t = tok (CHR ''.'') \<or> t = TK_ARROW_RIGHT then cseq [field_name, deref, rc NPrefixLoop]
     else if t = tok (CHR ''['') then
       cbind (cget (\<lambda>k. prevtoken (k_lex k))) (\<lambda>p.
       if p = tok (CHR 0x0A) then cerror ''cannot brake deref/or comma needed after [exp]=exp slot declaration''
       else cseq [cLex, rc NExpression, expect_char (CHR '']''), deref, rc NPrefixLoop])
     else if t = TK_MINUSMINUS \<or> t = TK_PLUSPLUS then postfix_inc
     else if t = tok (CHR ''('') then
       cseq [prepare_call, set_etype EXPR, cLex, rc (NCallArgs 1), rc NPrefixLoop]
     else cret ())"

end
