(* ===== verification/Compile_Factor.thy ===== *)
theory Compile_Factor
  imports Compile_Expr
begin

text \<open>
  Factors, functions, tables and classes (\<^verbatim>\<open>src/compiler.cpp\<close>).
\<close>

section \<open>Functions\<close>

definition token_is :: "int \<Rightarrow> bool cm" where "token_is t = cget (\<lambda>k. k_token k = t)"

abbreviation if_token :: "int \<Rightarrow> 'a cm \<Rightarrow> 'a cm \<Rightarrow> 'a cm" where
  "if_token t m n \<equiv> cbind (token_is t) (\<lambda>b. if b then m else n)"

definition expect_name :: "lvobj cm" where "expect_name = Expect TK_IDENTIFIER"

definition load_expected :: "int \<Rightarrow> unit cm" where
  "load_expected t = cbind push_target (\<lambda>trg. cbind (Expect t) (\<lambda>s. cbind (get_constant s) (\<lambda>c. emit OP_LOAD trg c 0 0)))"

text \<open>\<open>BuildProto\<close> makes the prototype an object of its own.\<close>

definition build_proto :: "lvobj cm" where
  "build_proto k =
     (case k_fs k of [] \<Rightarrow> CStuck
      | f # fs \<Rightarrow>
          (case (do { p \<leftarrow> BuildProto (weak_of (k_vm k)) f; alloc (HProto p) (k_vm k) }) of
             None \<Rightarrow> CStuck
           | Some (a, v) \<Rightarrow> COk (ORef RFuncProto a) (k\<lparr>k_vm := v\<rparr>)))"

definition enter_function :: "fstate \<Rightarrow> unit cm" where
  "enter_function f = cput (\<lambda>k. k\<lparr>k_fs := f # k_fs k\<rparr>)"

definition leave_function :: "unit cm" where
  "leave_function k = (case k_fs k of [] \<Rightarrow> CStuck | f # fs \<Rightarrow> COk () (k\<lparr>k_fs := fs\<rparr>))"

text \<open>\<open>CreateFunction\<close>: the parameters, whose default values belong to the enclosing function, and the body.\<close>

definition function_body :: "rcall \<Rightarrow> fstate \<Rightarrow> nat \<Rightarrow> bool \<Rightarrow> unit cm" where
  "function_body rc funcstate defparams lambda =
     cseq [expect_char (CHR '')''), drop_targets defparams, enter_function funcstate,
       (if lambda then cthen (rc NExpression) (cbind pop_target (\<lambda>t. emit OP_RETURN 1 t 0 0))
        else rc (NStatement False)),
       cbind (cget (\<lambda>k. if prevtoken (k_lex k) = tok (CHR 0x0A) then lasttokenline (k_lex k) else currentline (k_lex k)))
         (\<lambda>line. line_info line True),
       emit OP_RETURN (- 1) 0 0 0, fs_mod (SetStackSize 0),
       cbind build_proto (\<lambda>func. cseq [leave_function, fs_mod (\<lambda>f. f\<lparr>f_functions := f_functions f @ [func]\<rparr>)])]"

definition params_loop :: "rcall \<Rightarrow> fstate \<Rightarrow> nat \<Rightarrow> bool \<Rightarrow> unit cm" where
  "params_loop rc funcstate defparams lambda =
     cbind token (\<lambda>t.
     if t = tok (CHR '')'') then function_body rc funcstate defparams lambda
     else if t = TK_VARPARAMS then
       (if defparams > 0 then cerror ''function with default parameters cannot have variable number of parameters''
        else cbind (create_string ''vargv'') (\<lambda>s.
          cthen cLex (if_token (tok (CHR '')''))
            (function_body rc ((AddParameter s funcstate)\<lparr>f_varparams := True\<rparr>) defparams lambda)
            (cerror (''expected '' @ [CHR 0x27] @ '')'' @ [CHR 0x27])))))
     else
       cbind expect_name (\<lambda>s. let funcstate = AddParameter s funcstate in
       cbind (if_token (tok (CHR ''=''))
           (cthen cLex (cthen (rc NExpression) (cbind top_target (\<lambda>d. cret (AddDefaultParam d funcstate, defparams + 1)))))
           (if defparams > 0 then cerror (in_quotes ''='') else cret (funcstate, defparams))) (\<lambda>(funcstate, defparams).
       cthen (if_token (tok (CHR '','')) cLex (if_token (tok (CHR '')'')) (cret ())
           (cerror (in_quotes '')'' @ '' or '' @ [CHR 0x27] @ '','' @ [CHR 0x27]))))
         (rc (NParams funcstate defparams lambda)))))"

definition CreateFunction :: "rcall \<Rightarrow> lvobj \<Rightarrow> bool \<Rightarrow> unit cm" where
  "CreateFunction rc name lambda =
     cbind (create_string ''this'') (\<lambda>s. cbind (cget k_sourcename) (\<lambda>src.
       rc (NParams ((AddParameter s (fstate_create\<lparr>f_name := name\<rparr>))\<lparr>f_sourcename := src\<rparr>) 0 lambda)))"

text \<open>The closure of the function that was compiled last.\<close>

definition emit_closure :: "int \<Rightarrow> unit cm" where
  "emit_closure bound =
     cbind push_target (\<lambda>t. cbind (fs_get (\<lambda>f. int (length (f_functions f)) - 1)) (\<lambda>n. emit OP_CLOSURE t n bound 0))"

definition FunctionExp :: "rcall \<Rightarrow> int \<Rightarrow> bool \<Rightarrow> unit cm" where
  "FunctionExp rc ftype lambda =
     cseq [cLex, expect_char (CHR ''(''), CreateFunction rc ONull lambda,
           emit_closure (if ftype = TK_FUNCTION then 0 else 1)]"

definition FunctionStatement :: "rcall \<Rightarrow> unit cm" where
  "FunctionStatement rc =
     cthen cLex (cbind expect_name (\<lambda>s.
     cseq [push_target_at 0, load_constant s, if_token TK_DOUBLE_COLON (Emit2ArgsOP OP_GET 0) (cret ()),
           rc (NDoubleColon s)]))"

definition double_colon_loop :: "rcall \<Rightarrow> lvobj \<Rightarrow> unit cm" where
  "double_colon_loop rc name =
     if_token TK_DOUBLE_COLON
       (cthen cLex (cbind expect_name (\<lambda>s.
        cseq [load_constant s, if_token TK_DOUBLE_COLON (Emit2ArgsOP OP_GET 0) (cret ()), rc (NDoubleColon s)])))
       (cseq [expect_char (CHR ''(''), CreateFunction rc name False, emit_closure 0, EmitDerefOp OP_NEWSLOT, drop_target])"

section \<open>Tables and classes\<close>

definition table_key :: "rcall \<Rightarrow> int \<Rightarrow> unit cm" where
  "table_key rc sep =
     cbind token (\<lambda>t.
     if t = TK_FUNCTION \<or> t = TK_CONSTRUCTOR then
       cthen cLex (cbind (if t = TK_FUNCTION then expect_name else create_string ''constructor'') (\<lambda>s.
       cseq [expect_char (CHR ''(''), load_constant s, CreateFunction rc s False, emit_closure 0]))
     else if t = tok (CHR ''['') then
       cseq [cLex, rc NCommaExpr, expect_char (CHR '']''), expect_char (CHR ''=''), rc NExpression]
     else if t = TK_STRING_LITERAL \<and> sep = tok (CHR '','') then
       cseq [load_expected TK_STRING_LITERAL, expect_char (CHR '':''), rc NExpression]
     else cseq [load_expected TK_IDENTIFIER, expect_char (CHR ''=''), rc NExpression])"

definition table_loop :: "rcall \<Rightarrow> int \<Rightarrow> int \<Rightarrow> int \<Rightarrow> int \<Rightarrow> unit cm" where
  "table_loop rc sep terminator tpos nkeys =
     cbind token (\<lambda>t.
     if t \<noteq> terminator then
       cbind (if sep = tok (CHR '';'') \<and> t = TK_STATIC then cthen cLex (cret True) else cret False) (\<lambda>isstatic.
       cthen (table_key rc sep) (cthen (if_token sep cLex (cret ()))
       (cbind pop_target (\<lambda>val. cbind pop_target (\<lambda>key. cbind top_target (\<lambda>table.
        cseq [if sep = tok (CHR '','') then emit OP_NEWSLOT 0xFF table key val
              else emit OP_NEWSLOTA (if isstatic then 2 else 0) table key val,
              rc (NTable sep terminator tpos (nkeys + 1))]))))))
     else cthen (cwhen (sep = tok (CHR '','')) (set_param tpos 1 nkeys)) cLex)"

definition ParseTableOrClass :: "rcall \<Rightarrow> int \<Rightarrow> int \<Rightarrow> unit cm" where
  "ParseTableOrClass rc sep terminator = cbind position (\<lambda>tpos. rc (NTable sep terminator tpos 0))"

definition NOT_TABLE :: int where "NOT_TABLE = 0"
definition NOT_ARRAY :: int where "NOT_ARRAY = 1"
definition NOT_CLASS :: int where "NOT_CLASS = 2"

definition ClassExp :: "rcall \<Rightarrow> int \<Rightarrow> unit cm" where
  "ClassExp rc abstract =
     cbind (if_token TK_EXTENDS (cthen cLex (cthen (rc NExpression) top_target)) (cret (- 1))) (\<lambda>base.
     cseq [expect_char (CHR ''{''), cwhen (base \<noteq> - 1) drop_target,
           cbind push_target (\<lambda>t. emit OP_NEWOBJ t base abstract NOT_CLASS),
           ParseTableOrClass rc (tok (CHR '';'')) (tok (CHR ''}''))])"

text \<open>\<open>donot_get\<close> is set around the reference that a class, a deletion or an increment is about.\<close>

definition reference :: "rcall \<Rightarrow> (expstate \<Rightarrow> unit cm) \<Rightarrow> unit cm" where
  "reference rc use =
     cbind es (\<lambda>old. cseq [set_es (old\<lparr>es_donot_get := True\<rparr>), PrefixedExpr rc, cbind es use, set_es old])"

definition ClassStatement :: "rcall \<Rightarrow> unit cm" where
  "ClassStatement rc =
     cthen cLex
     (cbind es (\<lambda>old. cthen (set_es (old\<lparr>es_donot_get := True\<rparr>))
     (cbind (cget (\<lambda>k. prevtoken (k_lex k) = TK_ABSTRACT)) (\<lambda>abs.
      cseq [cwhen abs cLex, PrefixedExpr rc,
        cbind es (\<lambda>e.
          if es_etype e = EXPR then cerror ''invalid class name''
          else if es_etype e = OBJECT \<or> es_etype e = BASE then
            cseq [ClassExp rc (if abs then 1 else - 1), EmitDerefOp OP_NEWSLOT, drop_target]
          else cerror ''cannot create a class in a local with the syntax(class <local>)''),
        set_es old]))))"

definition DeleteExpr :: "rcall \<Rightarrow> unit cm" where
  "DeleteExpr rc =
     cthen cLex (reference rc (\<lambda>e.
       if es_etype e = EXPR then cerror (''can'' @ [CHR 0x27] @ ''t delete an expression'')
       else if es_etype e = OBJECT \<or> es_etype e = BASE then Emit2ArgsOP OP_DELETE 0
       else cerror ''cannot delete an (outer) local''))"

definition PrefixIncDec :: "rcall \<Rightarrow> int \<Rightarrow> unit cm" where
  "PrefixIncDec rc t =
     (let diff = (if t = TK_MINUSMINUS then - 1 else 1) in
      cthen cLex (reference rc (\<lambda>e.
       if es_etype e = EXPR then cerror not_incrementable
       else if es_etype e = OBJECT \<or> es_etype e = BASE then Emit2ArgsOP OP_INC diff
       else if es_etype e = LOCAL then cbind top_target (\<lambda>src. emit OP_INCL src src 0 diff)
       else if es_etype e = OUTER then
         cbind push_target (\<lambda>tmp.
         cseq [emit OP_GETOUTER tmp (es_epos e) 0 0, emit OP_INCL tmp tmp 0 diff, emit OP_SETOUTER tmp (es_epos e) tmp 0])
       else cret ())))"

section \<open>Factors\<close>

text \<open>A name: a local, an outer variable, a constant or a slot of \<open>this\<close>.\<close>

definition outer_variable :: "string \<Rightarrow> nat option cm" where
  "outer_variable s k = (case GetOuterVariable s (k_fs k) of (r, fs) \<Rightarrow> COk r (k\<lparr>k_fs := fs\<rparr>))"

definition named_constant :: "string \<Rightarrow> lvobj option cm" where
  "named_constant s k =
     (case (do { t \<leftarrow> get_table (k_vm k) (k_consts k); IsConstant (weak_of (k_vm k)) t (OString s) }) of
        None \<Rightarrow> CStuck | Some r \<Rightarrow> COk r k)"

definition enum_value :: "string \<Rightarrow> u64 \<Rightarrow> lvobj cm" where
  "enum_value s a =
     cthen (expect_char (CHR ''.'')) (cbind expect_name (\<lambda>constid k.
       (case (do { t \<leftarrow> get_table (k_vm k) a; table_Get (weak_of (k_vm k)) t constid }) of
          None \<Rightarrow> CStuck
        | Some None \<Rightarrow> cerror (''invalid constant ['' @ s @ ''.'' @ (case constid of OString i \<Rightarrow> i | _ \<Rightarrow> []) @ '']'') k
        | Some (Some x) \<Rightarrow> COk x k)))"

definition constant_factor :: "string \<Rightarrow> lvobj \<Rightarrow> unit cm" where
  "constant_factor s x =
     cbind (case x of ORef RTable a \<Rightarrow> enum_value s a | _ \<Rightarrow> cret x) (\<lambda>constval.
     cbind push_target (\<lambda>t.
     cseq [set_epos t,
       (case constval of
          OInteger i \<Rightarrow> EmitLoadConstInt i t
        | OFloat f \<Rightarrow> EmitLoadConstFloat f t
        | OBool b \<Rightarrow> emit OP_LOADBOOL t (sint b) 0 0
        | _ \<Rightarrow> cbind (get_constant constval) (\<lambda>c. emit OP_LOAD t c 0 0)),
       set_etype EXPR]))"

definition name_factor :: "string \<Rightarrow> unit cm" where
  "name_factor s =
     cbind (fs_get (GetLocalVariable s)) (\<lambda>pos.
     case pos of
       Some p \<Rightarrow> cseq [push_target_at (int p), set_etype LOCAL, set_epos (int p)]
     | None \<Rightarrow> cbind (outer_variable s) (\<lambda>pos.
     case pos of
       Some p \<Rightarrow> cbind NeedGet (\<lambda>b.
         if b then cbind push_target (\<lambda>t. cthen (set_epos t) (emit OP_GETOUTER t (int p) 0 0))
         else cthen (set_etype OUTER) (set_epos (int p)))
     | None \<Rightarrow> cbind (named_constant s) (\<lambda>c.
     case c of
       Some x \<Rightarrow> constant_factor s x
     | None \<Rightarrow> cseq [push_target_at 0, load_constant (OString s),
         cbind NeedGet (\<lambda>b. cwhen b (Emit2ArgsOP OP_GET 0)), set_etype OBJECT])))"

definition new_object :: "int \<Rightarrow> int \<Rightarrow> unit cm" where
  "new_object a2 a3 = cbind push_target (\<lambda>t. emit OP_NEWOBJ t 0 a2 a3)"

definition array_loop :: "rcall \<Rightarrow> int \<Rightarrow> int \<Rightarrow> unit cm" where
  "array_loop rc apos key =
     if_token (tok (CHR '']'')) (cthen (set_param apos 1 key) cLex)
       (cseq [rc NExpression, if_token (tok (CHR '','')) cLex (cret ()),
         cbind pop_target (\<lambda>val. cbind top_target (\<lambda>array. emit OP_APPENDARRAY array val 0 0)),
         rc (NArray apos (key + 1))])"

definition negated_factor :: "rcall \<Rightarrow> unit cm" where
  "negated_factor rc =
     cbind token (\<lambda>t.
     if t = TK_INTEGER then cthen (cbind (cget (\<lambda>k. - nvalue (k_lex k))) (\<lambda>i. EmitLoadConstInt i (- 1))) cLex
     else if t = TK_FLOAT then cthen (cbind (cget (\<lambda>k. f32_minus (fvalue (k_lex k)))) (\<lambda>x. EmitLoadConstFloat x (- 1))) cLex
     else UnaryOP rc OP_NEG)"

text \<open>
  The cases of \<open>Factor\<close> that leave the expression state a plain expression. The value of an integer or a
  name is read before the next token is.
\<close>

definition plain_factor :: "rcall \<Rightarrow> int \<Rightarrow> unit cm" where
  "plain_factor rc t =
     (if t = TK_STRING_LITERAL then
        cseq [cbind push_target (\<lambda>trg. cbind lex_string (\<lambda>s. cbind (get_constant s) (\<lambda>c. emit OP_LOAD trg c 0 0))), cLex]
      else if t = TK_NULL then cthen (cbind push_target (\<lambda>trg. emit OP_LOADNULLS trg 1 0 0)) cLex
      else if t = TK_INTEGER then cthen (cbind (cget (\<lambda>k. nvalue (k_lex k))) (\<lambda>i. EmitLoadConstInt i (- 1))) cLex
      else if t = TK_FLOAT then cthen (cbind (cget (\<lambda>k. fvalue (k_lex k))) (\<lambda>x. EmitLoadConstFloat x (- 1))) cLex
      else if t = TK_TRUE \<or> t = TK_FALSE then
        cthen (cbind push_target (\<lambda>trg. emit OP_LOADBOOL trg (if t = TK_TRUE then 1 else 0) 0 0)) cLex
      else if t = tok (CHR ''['') then
        cthen (new_object 0 NOT_ARRAY) (cbind position (\<lambda>apos. cthen cLex (rc (NArray apos 0))))
      else if t = tok (CHR ''{'') then
        cseq [new_object NOT_TABLE 0, cLex, ParseTableOrClass rc (tok (CHR '','')) (tok (CHR ''}''))]
      else if t = TK_FUNCTION then FunctionExp rc t False
      else if t = tok (CHR ''@'') then FunctionExp rc t True
      else if t = TK_CLASS then cthen cLex (ClassExp rc (- 1))
      else if t = tok (CHR ''-'') then cthen cLex (negated_factor rc)
      else if t = tok (CHR ''!'') then cthen cLex (UnaryOP rc OP_NOT)
      else if t = tok (CHR ''~'') then
        cthen cLex (if_token TK_INTEGER
          (cthen (cbind (cget (\<lambda>k. NOT (nvalue (k_lex k)))) (\<lambda>i. EmitLoadConstInt i (- 1))) cLex)
          (UnaryOP rc OP_BWNOT))
      else if t = TK_TYPEOF then cthen cLex (UnaryOP rc OP_TYPEOF)
      else if t = TK_RESUME then cthen cLex (UnaryOP rc OP_RESUME)
      else if t = TK_CLONE then cthen cLex (UnaryOP rc OP_CLONE)
      else if t = TK_MINUSMINUS \<or> t = TK_PLUSPLUS then PrefixIncDec rc t
      else if t = TK_DELETE then DeleteExpr rc
      else if t = tok (CHR ''('') then cseq [cLex, rc NCommaExpr, expect_char (CHR '')'')]
      else if t = TK_LINE then
        cthen (cbind (cget (\<lambda>k. of_int (currentline (k_lex k)))) (\<lambda>i. EmitLoadConstInt i (- 1))) cLex
      else if t = TK_FILE then cthen (cbind (cget k_sourcename) load_constant) cLex
      else cerror ''expression expected'')"

definition Factor :: "rcall \<Rightarrow> unit cm" where
  "Factor rc =
     cbind token (\<lambda>t.
     if t = TK_BASE then
       cthen cLex (cbind push_target (\<lambda>trg. cseq [emit OP_GETBASE trg 0 0 0, set_etype BASE, set_epos trg]))
     else if t = TK_IDENTIFIER then cbind lex_name (\<lambda>x. cthen cLex (case x of OString s \<Rightarrow> name_factor s | _ \<Rightarrow> cstuck))
     else if t = TK_THIS then cseq [cbind (create_string ''this'') (\<lambda>x. cret ()), cLex, name_factor ''this'']
     else if t = TK_CONSTRUCTOR then
       cseq [cbind (create_string ''constructor'') (\<lambda>x. cret ()), cLex, name_factor ''constructor'']
     else if t = TK_DOUBLE_COLON then
       cseq [cbind push_target (\<lambda>trg. emit OP_LOADROOT trg 0 0 0), set_etype OBJECT,
             cput (\<lambda>k. k\<lparr>k_token := tok (CHR ''.'')\<rparr>), set_epos (- 1)]
     else cthen (plain_factor rc t) (set_etype EXPR))"

end
