(* ===== verification/Compile_Stmt.thy ===== *)
theory Compile_Stmt
  imports Compile_Factor
begin

text \<open>Statements (\<^verbatim>\<open>src/compiler.cpp\<close>), and the compiler as a whole.\<close>

section \<open>Declarations\<close>

definition push_local :: "lvobj \<Rightarrow> int cm" where
  "push_local name = fs_opt (\<lambda>f. Some (case PushLocalVariable name f of (p, f) \<Rightarrow> (int p, f)))"

definition LocalDeclStatement :: "rcall \<Rightarrow> unit cm" where
  "LocalDeclStatement rc =
     cthen cLex (if_token TK_FUNCTION
       (cthen cLex (cbind expect_name (\<lambda>varname.
        cseq [expect_char (CHR ''(''), CreateFunction rc varname False, emit_closure 0, drop_target,
              cbind (push_local varname) (\<lambda>_. cret ())])))
       (rc NVars))"

definition vars_loop :: "rcall \<Rightarrow> unit cm" where
  "vars_loop rc =
     cbind expect_name (\<lambda>varname.
     cseq [
       if_token (tok (CHR ''=''))
         (cthen cLex (cthen (rc NExpression)
           (cbind pop_target (\<lambda>src. cbind push_target (\<lambda>dest. cwhen (dest \<noteq> src) (emit OP_MOVE dest src 0 0))))))
         (cbind push_target (\<lambda>t. emit OP_LOADNULLS t 1 0 0)),
       drop_target,
       cbind (push_local varname) (\<lambda>_. cret ()),
       if_token (tok (CHR '','')) (cthen cLex (rc NVars)) (cret ())])"

definition ExpectScalar :: "lvobj cm" where
  "ExpectScalar =
     cbind token (\<lambda>t.
     cbind
       (if t = TK_INTEGER then cget (\<lambda>k. OInteger (nvalue (k_lex k)))
        else if t = TK_FLOAT then cget (\<lambda>k. OFloat (fvalue (k_lex k)))
        else if t = TK_STRING_LITERAL then lex_string
        else if t = TK_TRUE \<or> t = TK_FALSE then cret (OBool (if t = TK_TRUE then 1 else 0))
        else if t = tok (CHR ''-'') then
          cthen cLex (cbind token (\<lambda>t.
            if t = TK_INTEGER then cget (\<lambda>k. OInteger (- nvalue (k_lex k)))
            else if t = TK_FLOAT then cget (\<lambda>k. OFloat (f32_minus (fvalue (k_lex k))))
            else cerror ''scalar expected: integer, float''))
        else cerror ''scalar expected: integer, float or string'') (\<lambda>val.
     cthen cLex (cret val)))"

text \<open>\<open>NewSlot\<close> on a table of the heap.\<close>

definition heap_new_slot :: "u64 \<Rightarrow> lvobj \<Rightarrow> lvobj \<Rightarrow> unit cm" where
  "heap_new_slot a key val k =
     (case (do { t \<leftarrow> get_table (k_vm k) a; table_NewSlot t key val }) of
        None \<Rightarrow> CStuck
      | Some (b, t) \<Rightarrow> COk () (k\<lparr>k_vm := put a (HTable t) (k_vm k)\<rparr>))"

definition consts_new_slot :: "lvobj \<Rightarrow> lvobj \<Rightarrow> unit cm" where
  "consts_new_slot key val = cbind (cget k_consts) (\<lambda>a. heap_new_slot a key val)"

definition ConstStatement :: "unit cm" where
  "ConstStatement =
     cthen cLex (cbind expect_name (\<lambda>name. cthen (expect_char (CHR ''=''))
     (cbind ExpectScalar (\<lambda>val. cthen OptionalSemicolon (consts_new_slot name val)))))"

definition CreateTable :: "u64 cm" where
  "CreateTable =
     cbind (\<lambda>k. (case alloc (HTable (table_create 0)) (k_vm k) of
         None \<Rightarrow> CStuck | Some (a, v) \<Rightarrow> COk a (k\<lparr>k_vm := v\<rparr>))) (\<lambda>a.
     fs_opt (\<lambda>f. do {
       (b, t) \<leftarrow> table_NewSlot (f_strings f) (ORef RTable a) (OInteger 1);
       Some (a, f\<lparr>f_strings := t\<rparr>)
     }))"

definition EnumStatement :: "rcall \<Rightarrow> unit cm" where
  "EnumStatement rc =
     cthen cLex (cbind expect_name (\<lambda>name. cthen (expect_char (CHR ''{''))
     (cbind CreateTable (\<lambda>a. rc (NEnum name a 0)))))"

definition enum_loop :: "rcall \<Rightarrow> lvobj \<Rightarrow> u64 \<Rightarrow> int \<Rightarrow> unit cm" where
  "enum_loop rc name a vcount =
     if_token (tok (CHR ''}'')) (cthen (consts_new_slot name (ORef RTable a)) cLex)
       (cbind expect_name (\<lambda>key.
        cbind (if_token (tok (CHR ''='')) (cthen cLex (cbind ExpectScalar (\<lambda>val. cret (val, vcount))))
                 (cret (OInteger (of_int vcount), vcount + 1))) (\<lambda>(val, vcount).
        cseq [heap_new_slot a key val, if_token (tok (CHR '','')) cLex (cret ()), rc (NEnum name a vcount)])))"

section \<open>Control flow\<close>

definition Statements :: "rcall \<Rightarrow> unit cm" where
  "Statements rc =
     cbind token (\<lambda>t.
     cwhen (t \<noteq> tok (CHR ''}'') \<and> t \<noteq> TK_DEFAULT \<and> t \<noteq> TK_CASE)
       (cseq [rc (NStatement True), statement_end, rc NStatements]))"

text \<open>A statement, or statements, in a scope of its own.\<close>

definition scoped :: "unit cm \<Rightarrow> unit cm" where
  "scoped m = cbind BEGIN_SCOPE (\<lambda>old. cthen m (END_SCOPE old))"

definition block :: "rcall \<Rightarrow> unit cm" where
  "block rc = cseq [cLex, rc NStatements, expect_char (CHR ''}'')]"

definition IfBlock :: "rcall \<Rightarrow> unit cm" where
  "IfBlock rc =
     if_token (tok (CHR ''{'')) (scoped (block rc)) (cseq [rc (NStatement True), statement_end])"

text \<open>\<open>(\<close> condition \<open>)\<close>, with its value on the targets.\<close>

definition condition :: "rcall \<Rightarrow> unit cm" where
  "condition rc = cseq [expect_char (CHR ''(''), rc NCommaExpr, expect_char (CHR '')'')]"

definition emit_jz :: "int \<Rightarrow> unit cm" where
  "emit_jz off = cbind pop_target (\<lambda>c. emit OP_JZ c off 0 0)"

text \<open>A jump back to the instruction after \<open>pos\<close>.\<close>

definition jump_back :: "int \<Rightarrow> unit cm" where
  "jump_back pos = cbind position (\<lambda>cur. emit OP_JMP 0 (pos - cur - 1) 0 0)"

definition land_here :: "int \<Rightarrow> unit cm" where
  "land_here pos = cbind position (\<lambda>cur. set_param pos 1 (cur - pos))"

definition IfStatement :: "rcall \<Rightarrow> unit cm" where
  "IfStatement rc =
     cthen (cseq [cLex, condition rc, emit_jz 0]) (cbind position (\<lambda>jnepos.
     cthen (IfBlock rc) (cbind position (\<lambda>endifblock.
     cbind (if_token TK_ELSE
         (cthen (emit OP_JMP 0 0 0 0) (cbind position (\<lambda>jmppos.
          cthen (cseq [cLex, IfBlock rc, land_here jmppos]) (cret True))))
         (cret False)) (\<lambda>haselse.
     set_param jnepos 1 (endifblock - jnepos + (if haselse then 1 else 0)))))))"

definition WhileStatement :: "rcall \<Rightarrow> unit cm" where
  "WhileStatement rc =
     cbind position (\<lambda>jmppos.
     cthen (cseq [cLex, condition rc]) (cbind BEGIN_BREAKBLE_BLOCK (\<lambda>old.
     cthen (emit_jz 0) (cbind position (\<lambda>jzpos.
     cseq [scoped (rc (NStatement True)), jump_back jmppos, land_here jzpos, END_BREAKBLE_BLOCK old jmppos])))))"

definition DoWhileStatement :: "rcall \<Rightarrow> unit cm" where
  "DoWhileStatement rc =
     cthen cLex (cbind position (\<lambda>jmptrg.
     cbind BEGIN_BREAKBLE_BLOCK (\<lambda>old.
     cthen (cseq [scoped (rc (NStatement True)), cbind (Expect TK_WHILE) (\<lambda>_. cret ())])
     (cbind position (\<lambda>continuetrg.
     cseq [condition rc, emit_jz 1, jump_back jmptrg, END_BREAKBLE_BLOCK old continuetrg])))))"

text \<open>The increment of a \<open>for\<close> is compiled first and moved behind the body.\<close>

definition for_increment :: "rcall \<Rightarrow> instr list cm" where
  "for_increment rc =
     cbind position (\<lambda>p. let expstart = p + 1 in
     cthen (cseq [if_token (tok (CHR '')'')) (cret ()) (cthen (rc NCommaExpr) drop_target), expect_char (CHR '')''), snooze])
     (cbind position (\<lambda>expend. let expsize = nat (expend - expstart + 1) in
      fs_opt (\<lambda>f. if expsize = 0 then Some ([], f)
        else map_option (\<lambda>f'. (take expsize (drop (nat expstart) (f_instructions f)), f')) (PopInstructions expsize f)))))"

definition for_condition :: "rcall \<Rightarrow> int cm" where
  "for_condition rc =
     if_token (tok (CHR '';'')) (cret (- 1)) (cthen (rc NCommaExpr) (cthen (emit_jz 0) position))"

definition ForStatement :: "rcall \<Rightarrow> unit cm" where
  "ForStatement rc =
     cthen cLex (cbind BEGIN_SCOPE (\<lambda>scope.
     cthen (cseq [expect_char (CHR ''(''),
       if_token TK_VAR (LocalDeclStatement rc)
         (if_token (tok (CHR '';'')) (cret ()) (cthen (rc NCommaExpr) drop_target)),
       expect_char (CHR '';''), snooze])
     (cbind position (\<lambda>jmppos. cbind (for_condition rc) (\<lambda>jzpos.
     cthen (cseq [expect_char (CHR '';''), snooze])
     (cbind (for_increment rc) (\<lambda>exp. cbind BEGIN_BREAKBLE_BLOCK (\<lambda>old.
     cthen (rc (NStatement True)) (cbind position (\<lambda>continuetrg.
     cseq [cseq (map add_instr exp), jump_back jmppos, cwhen (jzpos > 0) (land_here jzpos),
           END_SCOPE scope, END_BREAKBLE_BLOCK old continuetrg]))))))))))"

definition new_null_local :: "lvobj \<Rightarrow> int cm" where
  "new_null_local name = cbind (push_local name) (\<lambda>p. cthen (emit OP_LOADNULLS p 1 0 0) (cret p))"

definition ForEachStatement :: "rcall \<Rightarrow> unit cm" where
  "ForEachStatement rc =
     cthen (cseq [cLex, expect_char (CHR ''('')])
     (cbind expect_name (\<lambda>name.
     cbind (if_token (tok (CHR '','')) (cthen cLex (cbind expect_name (\<lambda>val. cret (name, val))))
              (cbind (create_string ''@INDEX@'') (\<lambda>idx. cret (idx, name)))) (\<lambda>(idxname, valname).
     cbind (Expect TK_IN) (\<lambda>_. cbind BEGIN_SCOPE (\<lambda>scope.
     cthen (cseq [rc NExpression, expect_char (CHR '')'')])
     (cbind top_target (\<lambda>container.
     cbind (new_null_local idxname) (\<lambda>indexpos. cbind (new_null_local valname) (\<lambda>valuepos.
     cbind (create_string ''@ITERATOR@'') (\<lambda>it. cbind (new_null_local it) (\<lambda>itrpos.
     cbind position (\<lambda>jmppos. cthen (emit OP_FOREACH container 0 indexpos 0)
     (cbind position (\<lambda>foreachpos. cthen (emit OP_POSTFOREACH container 0 indexpos 0)
     (cbind BEGIN_BREAKBLE_BLOCK (\<lambda>old.
     cseq [rc (NStatement True), jump_back jmppos, land_here foreachpos,
           cbind position (\<lambda>cur. set_param (foreachpos + 1) 1 (cur - foreachpos)),
           END_BREAKBLE_BLOCK old (foreachpos - 1), drop_target, END_SCOPE scope]))))))))))))))))"

definition SwitchStatement :: "rcall \<Rightarrow> unit cm" where
  "SwitchStatement rc =
     cthen (cseq [cLex, condition rc, expect_char (CHR ''{'')])
     (cbind top_target (\<lambda>expr. cbind (fs_get (\<lambda>f. length (f_unresolvedbreaks f))) (\<lambda>nbreaks.
      cseq [fs_mod (\<lambda>f. f\<lparr>f_breaktargets := f_breaktargets f @ [0]\<rparr>), rc (NCase expr True (- 1) (- 1) nbreaks)])))"

definition switch_end :: "rcall \<Rightarrow> int \<Rightarrow> nat \<Rightarrow> unit cm" where
  "switch_end rc tonextcondjmp nbreaks =
     cseq [
       cwhen (tonextcondjmp \<noteq> - 1) (land_here tonextcondjmp),
       if_token TK_DEFAULT (cseq [cLex, expect_char (CHR '':''), scoped (rc NStatements)]) (cret ()),
       expect_char (CHR ''}''), drop_target,
       cbind (fs_get (\<lambda>f. length (f_unresolvedbreaks f) - nbreaks)) ResolveBreaks,
       pop_breaktarget]"

definition case_test :: "rcall \<Rightarrow> int \<Rightarrow> unit cm" where
  "case_test rc expr =
     cthen (cseq [cLex, rc NExpression, expect_char (CHR '':'')])
     (cbind pop_target (\<lambda>trg. cbind (local_target trg) (\<lambda>isloc.
      cbind (if isloc then push_target else cret trg) (\<lambda>eqtarget.
      cseq [emit OP_EQ eqtarget trg expr 0, emit OP_JZ eqtarget 0 0 0, cwhen isloc drop_target]))))"

definition case_loop :: "rcall \<Rightarrow> int \<Rightarrow> bool \<Rightarrow> int \<Rightarrow> int \<Rightarrow> nat \<Rightarrow> unit cm" where
  "case_loop rc expr bfirst tonextcondjmp skipcondjmp nbreaks =
     if_token TK_CASE
       (cbind (if bfirst then cret skipcondjmp
          else cthen (emit OP_JMP 0 0 0 0) (cbind position (\<lambda>p. cthen (land_here tonextcondjmp) (cret p)))) (\<lambda>skipcondjmp.
        cthen (cseq [case_test rc expr, cwhen (skipcondjmp \<noteq> - 1) (land_here skipcondjmp)])
        (cbind position (\<lambda>p. cseq [scoped (rc NStatements), rc (NCase expr False p skipcondjmp nbreaks)]))))
       (switch_end rc tonextcondjmp nbreaks)"

definition TryCatchStatement :: "rcall \<Rightarrow> unit cm" where
  "TryCatchStatement rc =
     cthen (cseq [cLex, emit OP_PUSHTRAP 0 0 0 0,
       fs_mod (\<lambda>f. f\<lparr>f_breaktargets := bump_last 1 (f_breaktargets f),
         f_continuetargets := bump_last 1 (f_continuetargets f), f_traps := f_traps f + 1\<rparr>)])
     (cbind position (\<lambda>trappos.
     cthen (cseq [scoped (rc (NStatement True)), fs_mod (\<lambda>f. f\<lparr>f_traps := f_traps f - 1\<rparr>), emit OP_POPTRAP 1 0 0 0,
       fs_mod (\<lambda>f. f\<lparr>f_breaktargets := bump_last (- 1) (f_breaktargets f),
         f_continuetargets := bump_last (- 1) (f_continuetargets f)\<rparr>),
       emit OP_JMP 0 0 0 0])
     (cbind position (\<lambda>jmppos.
     cthen (cseq [land_here trappos, cbind (Expect TK_CATCH) (\<lambda>_. cret ()), expect_char (CHR ''('')])
     (cbind expect_name (\<lambda>exid. cthen (expect_char (CHR '')''))
     (scoped (cbind (push_local exid) (\<lambda>ex_target.
        cseq [set_param trappos 0 ex_target, rc (NStatement True),
              cbind position (\<lambda>cur. set_params jmppos 0 (cur - jmppos) 0)])))))))))"

section \<open>Statements\<close>

definition ReturnStatement :: "rcall \<Rightarrow> int \<Rightarrow> unit cm" where
  "ReturnStatement rc t =
     (let p = (if t = TK_RETURN then OP_RETURN else OP_YIELD);
          poptraps = cbind (fs_get f_traps) (\<lambda>n. cwhen (p = OP_RETURN \<and> n > 0) (emit OP_POPTRAP n 0 0 0)) in
      cseq [cwhen (t = TK_YIELD) (fs_mod (\<lambda>f. f\<lparr>f_bgenerator := True\<rparr>)), cLex,
        cbind IsEndOfStatement (\<lambda>eos.
        if eos then
          cseq [poptraps, fs_mod (\<lambda>f. f\<lparr>f_returnexp := - 1\<rparr>),
            cbind (fs_get GetStackSize) (\<lambda>n. emit p 0xFF 0 (int n) 0)]
        else
          cbind position (\<lambda>pos. cseq [rc NCommaExpr, poptraps, fs_mod (\<lambda>f. f\<lparr>f_returnexp := pos + 1\<rparr>),
            cbind pop_target (\<lambda>x. cbind (fs_get GetStackSize) (\<lambda>n. emit p 1 x (int n) 0))]))])"

text \<open>\<open>break\<close> and \<open>continue\<close>: the targets and the jumps still to be resolved are those of the argument.\<close>

definition leave_block :: "string \<Rightarrow> (fstate \<Rightarrow> int list) \<Rightarrow> (int \<Rightarrow> fstate \<Rightarrow> fstate) \<Rightarrow> unit cm" where
  "leave_block name targets add =
     cbind (fs_get targets) (\<lambda>ts.
     if ts = [] then cerror ([CHR 0x27] @ name @ [CHR 0x27] @ '' has to be in a loop block'')
     else cseq [cwhen (last ts > 0) (emit OP_POPTRAP (last ts) 0 0 0), RESOLVE_OUTERS, emit OP_JMP 0 (- 1234) 0 0,
            cbind position (\<lambda>p. fs_mod (add p)), cLex])"

definition Statement :: "rcall \<Rightarrow> bool \<Rightarrow> unit cm" where
  "Statement rc closeframe =
     cthen (cbind (cget (\<lambda>k. currentline (k_lex k))) (\<lambda>line. line_info line False))
     (cbind token (\<lambda>t.
      cseq [
        if t = tok (CHR '';'') then cLex
        else if t = TK_IF then IfStatement rc
        else if t = TK_WHILE then WhileStatement rc
        else if t = TK_DO then DoWhileStatement rc
        else if t = TK_FOR then ForStatement rc
        else if t = TK_FOREACH then ForEachStatement rc
        else if t = TK_SWITCH then SwitchStatement rc
        else if t = TK_VAR then LocalDeclStatement rc
        else if t = TK_RETURN \<or> t = TK_YIELD then ReturnStatement rc t
        else if t = TK_BREAK then
          leave_block ''break'' f_breaktargets (\<lambda>p f. f\<lparr>f_unresolvedbreaks := f_unresolvedbreaks f @ [p]\<rparr>)
        else if t = TK_CONTINUE then
          leave_block ''continue'' f_continuetargets (\<lambda>p f. f\<lparr>f_unresolvedcontinues := f_unresolvedcontinues f @ [p]\<rparr>)
        else if t = TK_FUNCTION then FunctionStatement rc
        else if t = TK_ABSTRACT \<or> t = TK_CLASS then ClassStatement rc
        else if t = TK_ENUM then EnumStatement rc
        else if t = tok (CHR ''{'') then
          cbind BEGIN_SCOPE (\<lambda>old.
            cthen (block rc) (if closeframe then END_SCOPE old else END_SCOPE_NO_CLOSE old))
        else if t = TK_TRY then TryCatchStatement rc
        else if t = TK_THROW then
          cseq [cLex, rc NCommaExpr, cbind pop_target (\<lambda>x. emit OP_THROW x 0 0 0)]
        else if t = TK_CONST then ConstStatement
        else cseq [rc NCommaExpr, fs_opt (\<lambda>f. map_option (\<lambda>f. ((), f)) (DiscardTarget f))],
        snooze]))"

section \<open>The compiler\<close>

definition main_loop :: "rcall \<Rightarrow> unit cm" where
  "main_loop rc = cbind token (\<lambda>t. cwhen (t > 0) (cseq [rc (NStatement True), statement_end, rc NMain]))"

definition nt_step :: "rcall \<Rightarrow> nt \<Rightarrow> unit cm" where
  "nt_step rc x =
     (case x of
        NCommaExpr \<Rightarrow> CommaExpr rc | NCommaLoop \<Rightarrow> comma_loop rc | NExpression \<Rightarrow> Expression rc
      | NLogicalOr \<Rightarrow> LogicalOrExp rc | NLogicalAnd \<Rightarrow> LogicalAndExp rc | NAndLoop \<Rightarrow> and_loop rc
      | NBorLoop \<Rightarrow> bor_loop rc | NXorLoop \<Rightarrow> xor_loop rc | NBandLoop \<Rightarrow> band_loop rc | NEqLoop \<Rightarrow> eq_loop rc
      | NCompLoop \<Rightarrow> comp_loop rc | NShiftLoop \<Rightarrow> shift_loop rc | NPlusLoop \<Rightarrow> plus_loop rc | NMultLoop \<Rightarrow> mult_loop rc
      | NPrefixed \<Rightarrow> cthen (Factor rc) (rc NPrefixLoop) | NPrefixLoop \<Rightarrow> prefix_loop rc
      | NArray apos key \<Rightarrow> array_loop rc apos key
      | NCallArgs n \<Rightarrow> FunctionCallArgs rc n
      | NTable sep terminator tpos nkeys \<Rightarrow> table_loop rc sep terminator tpos nkeys
      | NVars \<Rightarrow> vars_loop rc
      | NStatement closeframe \<Rightarrow> Statement rc closeframe
      | NStatements \<Rightarrow> Statements rc
      | NCase expr bfirst tonext skip n \<Rightarrow> case_loop rc expr bfirst tonext skip n
      | NDoubleColon name \<Rightarrow> double_colon_loop rc name
      | NEnum name a vcount \<Rightarrow> enum_loop rc name a vcount
      | NParams f n lambda \<Rightarrow> params_loop rc f n lambda
      | NMain \<Rightarrow> main_loop rc)"

primrec compile :: "nat \<Rightarrow> rcall" where
  "compile 0 x = (\<lambda>k. CFuel)"
| "compile (Suc n) x = nt_step (compile n) x"

text \<open>
  The constructor, which leaves \<open>_es\<close> and \<open>_token\<close> as they are, and \<open>StartCompiler\<close>: the function \<open>main\<close>.
  An error of the lexer while it reads the first character jumps through a buffer that is not set yet.
\<close>

definition main_state :: "lvobj \<Rightarrow> fstate option" where
  "main_state sourcename = do {
     (this, f) \<leftarrow> fs_CreateString ''this'' (fstate_create\<lparr>f_name := OString ''main''\<rparr>);
     (vargv, f) \<leftarrow> fs_CreateString ''vargv'' (AddParameter this f);
     Some ((AddParameter vargv f)\<lparr>f_varparams := True, f_sourcename := sourcename\<rparr>)
   }"

definition new_compiler :: "vm \<Rightarrow> u64 \<Rightarrow> int list \<Rightarrow> lexer \<Rightarrow> expstate \<Rightarrow> int \<Rightarrow> lvobj \<Rightarrow> bool \<Rightarrow> comp option" where
  "new_compiler v consts input l e t sourcename lineinfo =
     (case Init input l of
        LErr s \<Rightarrow> None
      | LOk l \<Rightarrow> do {
          f \<leftarrow> main_state sourcename;
          Some \<lparr>k_token = t, k_lex = l, k_fs = [f], k_es = e, k_scope = \<lparr>sc_outers = 0, sc_stacksize = 0\<rparr>,
                k_lineinfo = lineinfo, k_sourcename = sourcename, k_consts = consts, k_vm = v\<rparr>
        })"

definition main_body :: "nat \<Rightarrow> lvobj cm" where
  "main_body n =
     cbind (fs_get GetStackSize) (\<lambda>stacksize.
     cthen (cseq [cLex, compile n NMain, fs_mod (SetStackSize stacksize),
       cbind (cget (\<lambda>k. currentline (k_lex k))) (\<lambda>line. line_info line True),
       emit OP_RETURN 0xFF 0 0 0, fs_mod (SetStackSize 0)])
     build_proto)"

definition MAX_COMPILER_ERROR_LEN :: nat where "MAX_COMPILER_ERROR_LEN = 256"

definition StartCompiler :: "nat \<Rightarrow> lvobj option cm" where
  "StartCompiler n k =
     (case main_body n k of
        COk x k \<Rightarrow> COk (Some x) k
      | CErr s k \<Rightarrow> COk None (k\<lparr>k_vm := (k_vm k)\<lparr>v_lasterror :=
          OString (c_string (take (MAX_COMPILER_ERROR_LEN - 1) s))\<rparr>\<rparr>)
      | CStuck \<Rightarrow> CStuck
      | CFuel \<Rightarrow> CFuel)"

text \<open>\<open>RunCompiler\<close>: the compiled function, or the error in the machine; \<open>Inl True\<close> is an exhausted budget.\<close>

definition RunCompiler ::
  "nat \<Rightarrow> vm \<Rightarrow> u64 \<Rightarrow> int list \<Rightarrow> lexer \<Rightarrow> expstate \<Rightarrow> int \<Rightarrow> lvobj \<Rightarrow> bool \<Rightarrow> bool + lvobj option \<times> vm" where
  "RunCompiler n v consts input l e t sourcename lineinfo =
     (case new_compiler v consts input l e t sourcename lineinfo of
        None \<Rightarrow> Inl False
      | Some k \<Rightarrow>
          (case StartCompiler n k of
             COk x k \<Rightarrow> Inr (x, k_vm k) | CErr s k \<Rightarrow> Inl False | CStuck \<Rightarrow> Inl False | CFuel \<Rightarrow> Inl True))"

end
