(* ===== verification/Compile_Progress.thy ===== *)
theory Compile_Progress
  imports Compile_Stmt Lexer_Progress
begin

text \<open>
  What the actions of the compiler do to the input: \<open>safe\<close> is the rule calculus, and each action either
  leaves the input alone, or takes at least one token off it.
\<close>

section \<open>What is left of the input\<close>

definition left_over :: "comp \<Rightarrow> nat" where
  "left_over k = 2 * lsize (k_lex k) + (if k_token k = 0 then 0 else 1)"

text \<open>\<open>safe m k Q\<close>: the action ends, and where it ends without an error \<open>Q\<close> holds.\<close>

definition safe :: "'a cm \<Rightarrow> comp \<Rightarrow> ('a \<Rightarrow> comp \<Rightarrow> bool) \<Rightarrow> bool" where
  "safe m k Q \<longleftrightarrow> (case m k of COk x k' \<Rightarrow> Q x k' | CErr s k' \<Rightarrow> True | CStuck \<Rightarrow> True | CFuel \<Rightarrow> False)"

text \<open>An action that leaves the input alone.\<close>

definition neutral :: "'a cm \<Rightarrow> bool" where
  "neutral m \<longleftrightarrow> (\<forall>k. safe m k (\<lambda>x k'. k_token k' = k_token k \<and> k_lex k' = k_lex k))"

named_theorems neutral_rules
named_theorems eat_rules

lemma safe_mono: "safe m k P \<Longrightarrow> (\<And>x k'. P x k' \<Longrightarrow> Q x k') \<Longrightarrow> safe m k Q"
  by (auto simp: safe_def split: cres.splits)

lemma safe_neutral:
  assumes "neutral m" "\<And>x k'. k_token k = k_token k' \<Longrightarrow> left_over k' = left_over k \<Longrightarrow> Q x k'"
  shows "safe m k Q"
proof -
  have "safe m k (\<lambda>x k'. k_token k' = k_token k \<and> k_lex k' = k_lex k)"
    using assms(1) unfolding neutral_def by blast
  then show ?thesis by (rule safe_mono) (auto intro: assms(2) simp: left_over_def)
qed

lemma safe_cbind: "safe (cbind m f) k Q \<longleftrightarrow> safe m k (\<lambda>x k'. safe (f x) k' Q)"
  by (auto simp: safe_def cbind_def split: cres.splits)

lemma safe_cthen: "safe (cthen m n) k Q \<longleftrightarrow> safe m k (\<lambda>_ k'. safe n k' Q)"
  by (simp add: cthen_def safe_cbind)

lemma safe_cret: "safe (cret x) k Q \<longleftrightarrow> Q x k"
  by (simp add: safe_def cret_def)

lemma safe_cseq:
  "safe (cseq []) k Q \<longleftrightarrow> Q () k"
  "safe (cseq (m # ms)) k Q \<longleftrightarrow> safe m k (\<lambda>_ k'. safe (cseq ms) k' Q)"
  by (simp_all add: cseq_def safe_cret safe_cthen)

lemma safe_cwhen: "safe (cwhen b m) k Q \<longleftrightarrow> (if b then safe m k Q else Q () k)"
  by (simp add: cwhen_def safe_cret)

lemma safe_cget: "safe (cget g) k Q \<longleftrightarrow> Q (g k) k"
  by (simp add: safe_def cget_def)

lemma safe_token: "safe token k Q \<longleftrightarrow> Q (k_token k) k"
  by (simp add: token_def safe_cget)

lemma safe_token_is: "safe (token_is t) k Q \<longleftrightarrow> Q (k_token k = t) k"
  by (simp add: token_is_def safe_cget)

lemma safe_cerror: "safe (cerror s) k Q \<longleftrightarrow> True" "safe cstuck k Q \<longleftrightarrow> True"
  by (simp_all add: safe_def cerror_def cstuck_def)

lemma safe_if: "(b \<Longrightarrow> safe m k Q) \<Longrightarrow> (\<not> b \<Longrightarrow> safe n k Q) \<Longrightarrow> safe (if b then m else n) k Q"
  by simp

lemma safe_let: "(\<And>y. y = x \<Longrightarrow> safe (f y) k Q) \<Longrightarrow> safe (let y = x in f y) k Q"
  by simp

lemma safe_option:
  "(x = None \<Longrightarrow> safe m k Q) \<Longrightarrow> (\<And>y. x = Some y \<Longrightarrow> safe (f y) k Q) \<Longrightarrow>
   safe (case x of None \<Rightarrow> m | Some y \<Rightarrow> f y) k Q"
  by (cases x) auto

lemma safe_prod: "(\<And>a b. p = (a, b) \<Longrightarrow> safe (f a b) k Q) \<Longrightarrow> safe (case p of (a, b) \<Rightarrow> f a b) k Q"
  by (cases p) auto

lemma safe_when: "(b \<Longrightarrow> safe m k Q) \<Longrightarrow> (\<not> b \<Longrightarrow> Q () k) \<Longrightarrow> safe (cwhen b m) k Q"
  by (simp add: safe_cwhen)

lemmas safe_intros [eat_rules] = safe_cbind [THEN iffD2] safe_cthen [THEN iffD2] safe_cret [THEN iffD2] safe_cseq [THEN iffD2]
  safe_when safe_cget [THEN iffD2] safe_token [THEN iffD2] safe_token_is [THEN iffD2]
  safe_cerror [THEN iffD2, OF TrueI] safe_if safe_let safe_option safe_prod

lemmas safe_simps = safe_cbind safe_cthen safe_cret safe_cseq safe_cwhen safe_token safe_token_is safe_cerror if_bool_eq_conj

subsection \<open>Neutral actions\<close>

lemma neutral_cbind [neutral_rules]: "neutral m \<Longrightarrow> (\<And>x. neutral (f x)) \<Longrightarrow> neutral (cbind m f)"
proof -
  assume m: "neutral m" and f: "\<And>x. neutral (f x)"
  have "safe m k (\<lambda>x k'. safe (f x) k' (\<lambda>y k''. k_token k'' = k_token k \<and> k_lex k'' = k_lex k))" for k
    using m [unfolded neutral_def, rule_format, of k]
  proof (rule safe_mono)
    fix x and k' :: comp assume "k_token k' = k_token k \<and> k_lex k' = k_lex k"
    with f [of x, unfolded neutral_def, rule_format, of k']
    show "safe (f x) k' (\<lambda>y k''. k_token k'' = k_token k \<and> k_lex k'' = k_lex k)" by simp
  qed
  then show ?thesis by (simp add: neutral_def safe_cbind)
qed

lemma neutral_cthen [neutral_rules]: "neutral m \<Longrightarrow> neutral n \<Longrightarrow> neutral (cthen m n)"
  unfolding cthen_def by (rule neutral_cbind)

lemma neutral_cret [neutral_rules]: "neutral (cret x)"
  by (simp add: neutral_def safe_cret)

lemma neutral_Nil [neutral_rules]: "neutral (cseq [])"
  by (simp add: neutral_def safe_cseq)

lemma neutral_Cons [neutral_rules]: "neutral m \<Longrightarrow> neutral (cseq ms) \<Longrightarrow> neutral (cseq (m # ms))"
  unfolding cseq_def by (simp add: neutral_cthen)

lemma neutral_cwhen [neutral_rules]: "neutral m \<Longrightarrow> neutral (cwhen b m)"
  by (simp add: cwhen_def neutral_cret)

lemma neutral_if [neutral_rules]: "neutral m \<Longrightarrow> neutral n \<Longrightarrow> neutral (if b then m else n)"
  by simp

lemma neutral_let [neutral_rules]: "(\<And>y. neutral (f y)) \<Longrightarrow> neutral (let y = x in f y)"
  by simp

lemma neutral_option [neutral_rules]:
  "neutral m \<Longrightarrow> (\<And>y. neutral (f y)) \<Longrightarrow> neutral (case x of None \<Rightarrow> m | Some y \<Rightarrow> f y)"
  by (cases x) auto

lemma neutral_prod [neutral_rules]: "(\<And>a b. neutral (f a b)) \<Longrightarrow> neutral (case p of (a, b) \<Rightarrow> f a b)"
  by (cases p) auto

lemma neutral_cget [neutral_rules]: "neutral (cget g)"
  by (simp add: neutral_def safe_cget)

lemma neutral_cerror [neutral_rules]: "neutral (cerror s)" "neutral cstuck"
  by (simp_all add: neutral_def safe_cerror)

lemma neutral_fs_act [neutral_rules]: "neutral (fs_act g)"
  by (auto simp: neutral_def safe_def fs_act_def split: list.splits option.splits sum.splits)

lemma neutral_cput_es [neutral_rules]:
  "neutral (set_es e)" "neutral (set_etype t)" "neutral (set_epos p)"
  "neutral (cput (\<lambda>k. k\<lparr>k_scope := s\<rparr>))" "neutral (enter_function f)"
  by (simp_all add: neutral_def safe_def cput_def set_es_def set_etype_def set_epos_def enter_function_def)

lemma neutral_k [neutral_rules]:
  "neutral (get_constant x)" "neutral (numeric_constant c)" "neutral (line_info line b)"
  "neutral build_proto" "neutral leave_function" "neutral (outer_variable s)" "neutral (named_constant s)"
  "neutral (heap_new_slot a key val)"
  by (auto simp: neutral_def safe_def get_constant_def numeric_constant_def line_info_def fs_act_def build_proto_def
        leave_function_def outer_variable_def named_constant_def heap_new_slot_def
      split: list.splits option.splits sum.splits prod.splits)

lemma neutral_drop_targets [neutral_rules]: "neutral (drop_targets n)"
  by (induction n) (auto simp: drop_target_def pop_target_def fs_opt_def intro!: neutral_rules)

lemma neutral_resolve [neutral_rules]: "neutral (ResolveBreaks n)" "neutral (ResolveContinues n t)"
  by (induction n) (auto simp: fs_opt_def set_params_def patch_def position_def fs_get_def intro!: neutral_rules)

lemmas neutral_defs = fs_get_def fs_mod_def fs_opt_def add_instr_def emit_def push_target_def push_target_at_def
  pop_target_def drop_target_def top_target_def position_def snooze_def patch_def set_param_def set_params_def
  create_string_def lex_name_def lex_string_def local_target_def token_def es_def IsEndOfStatement_def token_is_def

lemma neutral_basic [neutral_rules]:
  "neutral (fs_get h)" "neutral (fs_mod h')" "neutral (fs_opt h'')" "neutral (add_instr i)" "neutral (emit p a b c d)"
  "neutral push_target" "neutral (push_target_at n)" "neutral pop_target" "neutral drop_target" "neutral top_target"
  "neutral position" "neutral snooze" "neutral (patch q g)" "neutral (set_param q arg val)" "neutral (set_params q a b c)"
  "neutral (create_string s)" "neutral lex_name" "neutral lex_string" "neutral (local_target t)" "neutral token" "neutral es"
  "neutral IsEndOfStatement" "neutral (token_is t)"
  unfolding neutral_defs by (intro neutral_rules)+


text \<open>Composite actions.\<close>

lemma neutral_composite [neutral_rules]:
  "neutral (EmitDerefOp p)" "neutral (Emit2ArgsOP p a)" "neutral (emit_arith t a b c)" "neutral (EmitCompoundArith t e q)"
  "neutral (target_or_new n)" "neutral (load_constant x)" "neutral NeedGet" "neutral MoveIfCurrentTargetIsLocal"
  "neutral prepare_call" "neutral (push_local x)" "neutral (new_object a b)" "neutral (emit_closure a)"
  unfolding EmitDerefOp_def Emit2ArgsOP_def emit_arith_def EmitCompoundArith_def target_or_new_def load_constant_def
    NeedGet_def MoveIfCurrentTargetIsLocal_def prepare_call_def push_local_def new_object_def emit_closure_def
  by (intro neutral_rules)+

lemma neutral_constants [neutral_rules]: "neutral (EmitLoadConstInt i t)" "neutral (EmitLoadConstFloat x t)"
  unfolding EmitLoadConstInt_def EmitLoadConstFloat_def by (intro neutral_rules)+

lemma neutral_deref [neutral_rules]: "neutral deref"
  unfolding deref_def by (intro neutral_rules)

lemma neutral_scopes [neutral_rules]:
  "neutral BEGIN_SCOPE" "neutral (END_SCOPE s)" "neutral (END_SCOPE_NO_CLOSE s)" "neutral RESOLVE_OUTERS"
  "neutral BEGIN_BREAKBLE_BLOCK" "neutral (END_BREAKBLE_BLOCK n t)" "neutral pop_breaktarget"
  unfolding BEGIN_SCOPE_def END_SCOPE_def END_SCOPE_NO_CLOSE_def RESOLVE_OUTERS_def BEGIN_BREAKBLE_BLOCK_def
    END_BREAKBLE_BLOCK_def pop_breaktarget_def
  by (intro neutral_rules)+

lemma neutral_jumps [neutral_rules]:
  "neutral (emit_jz n)" "neutral (jump_back n)" "neutral (land_here n)" "neutral (new_null_local x)" "neutral (consts_new_slot x y)"
  unfolding emit_jz_def jump_back_def land_here_def new_null_local_def consts_new_slot_def
  by (intro neutral_rules)+

lemma neutral_map [neutral_rules]: "neutral (cseq (map add_instr is'))"
  by (induction is') (auto intro!: neutral_rules)

lemma neutral_CreateTable [neutral_rules]: "neutral CreateTable"
proof -
  have "neutral (\<lambda>k. case alloc (HTable (table_create 0)) (k_vm k) of None \<Rightarrow> CStuck | Some (a, v) \<Rightarrow> COk a (k\<lparr>k_vm := v\<rparr>))"
    by (auto simp: neutral_def safe_def split: option.splits)
  then show ?thesis unfolding CreateTable_def by (intro neutral_rules)
qed

section \<open>Tokens\<close>

lemma safe_cLex:
  assumes "\<And>k'. left_over k' \<le> left_over k \<Longrightarrow> (k_token k \<noteq> 0 \<Longrightarrow> left_over k' < left_over k) \<Longrightarrow> Q () k'"
  shows "safe cLex k Q"
proof (cases "Lex (k_lex k)")
  case (LOk r)
  obtain t l where r: "r = (t, l)" by (cases r)
  have "lexed (k_lex k\<lparr>lasttokenline := currentline (k_lex k)\<rparr>) (t, l)"
    using wp_Lex_loop [of "k_lex k\<lparr>lasttokenline := currentline (k_lex k)\<rparr>"] LOk r by (simp add: Lex_def)
  then have "t = 0 \<and> lsize l \<le> lsize (k_lex k) \<or> lsize l < lsize (k_lex k)"
    by (auto simp: lexed_def lsize_def)
  then show ?thesis
    using LOk r assms [of "k\<lparr>k_token := t, k_lex := l\<rparr>"] by (auto simp: safe_def cLex_def left_over_def split: if_splits)
qed (simp add: safe_def cLex_def)

text \<open>An action that takes at least one token.\<close>

definition takes :: "'a cm \<Rightarrow> bool" where
  "takes m \<longleftrightarrow> (\<forall>k. safe m k (\<lambda>x k'. left_over k' < left_over k))"

lemma safe_takes:
  assumes "takes m" "\<And>x k'. left_over k' < left_over k \<Longrightarrow> Q x k'"
  shows "safe m k Q"
  using assms(1) [unfolded takes_def, rule_format, of k] by (rule safe_mono) (rule assms(2))

lemmas safe_cLex_rule [eat_rules] = safe_cLex

text \<open>An action that takes at least one token, wherever it is run.\<close>

lemma safe_Expect [eat_rules]:
  assumes "t \<noteq> 0" "\<And>x k'. left_over k' < left_over k \<Longrightarrow> Q x k'"
  shows "safe (Expect t) k Q"
  unfolding Expect_def by (intro eat_rules safe_neutral neutral_rules; use assms in auto)

lemma safe_expect_name [eat_rules]:
  assumes "\<And>x k'. left_over k' < left_over k \<Longrightarrow> Q x k'"
  shows "safe expect_name k Q"
  unfolding expect_name_def by (intro eat_rules) (simp_all add: assms)

lemma safe_load_expected [eat_rules]:
  assumes "t \<noteq> 0" "\<And>k'. left_over k' < left_over k \<Longrightarrow> Q () k'"
  shows "safe (load_expected t) k Q"
  unfolding load_expected_def by (intro eat_rules safe_neutral neutral_rules) (simp_all add: assms)

lemma tok_nz [simp]: "tok c = 0 \<longleftrightarrow> c = EOB"
  using of_char_eq_iff [where 'a = int, of c EOB] by (simp add: tok_def)

lemma tok_is [simp]: "tok c = tok d \<longleftrightarrow> c = d"
  by (simp add: tok_def)

text \<open>Actions that call no entry point.\<close>

lemma safe_OptionalSemicolon [eat_rules]:
  assumes "\<And>k'. left_over k' \<le> left_over k \<Longrightarrow> Q () k'"
  shows "safe OptionalSemicolon k Q" "safe statement_end k Q"
  unfolding statement_end_def OptionalSemicolon_def
  by (intro eat_rules safe_neutral neutral_rules; simp add: assms)+

lemma safe_postfix_inc [eat_rules]:
  assumes "\<And>k'. left_over k' \<le> left_over k \<Longrightarrow> Q () k'"
  shows "safe postfix_inc k Q"
  unfolding postfix_inc_def Let_def
  by (intro eat_rules safe_neutral neutral_rules; simp add: assms)

lemma safe_field_name [eat_rules]:
  assumes "\<And>k'. left_over k' < left_over k \<Longrightarrow> Q () k'"
  shows "safe field_name k Q"
  unfolding field_name_def by (intro eat_rules safe_neutral neutral_rules; simp add: assms)

lemma safe_ExpectScalar [eat_rules]:
  assumes "\<And>x k'. left_over k' < left_over k \<Longrightarrow> Q x k'"
  shows "safe ExpectScalar k Q"
  unfolding ExpectScalar_def by (intro eat_rules safe_neutral neutral_rules; auto intro!: assms)

lemma safe_ConstStatement [eat_rules]:
  assumes "\<And>k'. left_over k' < left_over k \<Longrightarrow> Q () k'"
  shows "safe ConstStatement k Q"
  unfolding ConstStatement_def by (intro eat_rules safe_neutral neutral_rules; simp add: assms)

lemma safe_enum_value [eat_rules]:
  assumes "\<And>x k'. left_over k' < left_over k \<Longrightarrow> Q x k'"
  shows "safe (enum_value s a) k Q"
proof -
  have "neutral (\<lambda>k. case do { t \<leftarrow> get_table (k_vm k) a; table_Get (weak_of (k_vm k)) t constid } of None \<Rightarrow> CStuck
      | Some None \<Rightarrow> cerror (f constid) k | Some (Some x) \<Rightarrow> COk x k)" for constid and f :: "lvobj \<Rightarrow> string"
    by (auto simp: neutral_def safe_def cerror_def split: option.splits)
  then show ?thesis
    unfolding enum_value_def by (intro eat_rules safe_neutral neutral_rules; simp add: assms)
qed

lemma safe_name_factor [eat_rules]:
  assumes "\<And>k'. left_over k' \<le> left_over k \<Longrightarrow> Q () k'"
  shows "safe (name_factor s) k Q"
proof -
  have x: "safe (case x of ORef RTable a \<Rightarrow> enum_value s a | _ \<Rightarrow> cret x) k P"
    if "\<And>y k'. left_over k' \<le> left_over k \<Longrightarrow> P y k'" for x k and P :: "lvobj \<Rightarrow> comp \<Rightarrow> bool"
    by (auto split: lvobj.split rkind.split simp: safe_cret intro!: safe_enum_value that)
  have y: "neutral (case y of OInteger i \<Rightarrow> EmitLoadConstInt i t | OFloat f \<Rightarrow> EmitLoadConstFloat f t
      | OBool b \<Rightarrow> emit OP_LOADBOOL t (sint b) 0 0 | _ \<Rightarrow> cbind (get_constant y) (\<lambda>c. emit OP_LOAD t c 0 0))" for y t
    by (cases y) (auto intro!: neutral_rules)
  have c: "safe (constant_factor s x) k Q" if "\<And>k'. left_over k' \<le> left_over k \<Longrightarrow> Q () k'" for x k
    unfolding constant_factor_def
    by (intro eat_rules x safe_neutral neutral_rules y; simp add: that)
  show ?thesis
    unfolding name_factor_def by (intro eat_rules c safe_neutral neutral_rules; simp add: assms)
qed

lemma safe_leave_block [eat_rules]:
  assumes "k_token k \<noteq> 0" "\<And>k'. left_over k' < left_over k \<Longrightarrow> Q () k'"
  shows "safe (leave_block name targets add) k Q"
  unfolding leave_block_def by (intro eat_rules safe_neutral neutral_rules; use assms in simp)

end
