(* ===== verification/Compile_Total.thy ===== *)
theory Compile_Total
  imports Compile_Progress
begin

text \<open>
  The compiler ends on every input. Every entry point either takes a token off the input before it is
  entered again, or enters one of lower rank: the pair of the input left and the rank decreases.
\<close>

section \<open>One turn\<close>

text \<open>Among the entries on the same input the rank decreases.\<close>

fun rank :: "nt \<Rightarrow> nat" where
  "rank NPrefixed = 1"
| "rank NLogicalAnd = 2"
| "rank NLogicalOr = 3"
| "rank NExpression = 4"
| "rank NCommaExpr = 5"
| "rank (NArray a b) = 5"
| "rank (NCallArgs n) = 5"
| "rank (NStatement b) = 6"
| "rank NStatements = 7"
| "rank NMain = 7"
| "rank x = 0"

text \<open>The loops may end at once; \<open>::\<close> leaves a point behind, which the loop of the postfix operators takes.\<close>

fun idle :: "nt \<Rightarrow> int \<Rightarrow> bool" where
  "idle NPrefixLoop t \<longleftrightarrow> t \<noteq> tok (CHR ''.'')"
| "idle NCommaLoop t \<longleftrightarrow> True"
| "idle NAndLoop t \<longleftrightarrow> True"
| "idle NBorLoop t \<longleftrightarrow> True"
| "idle NXorLoop t \<longleftrightarrow> True"
| "idle NBandLoop t \<longleftrightarrow> True"
| "idle NEqLoop t \<longleftrightarrow> True"
| "idle NCompLoop t \<longleftrightarrow> True"
| "idle NShiftLoop t \<longleftrightarrow> True"
| "idle NPlusLoop t \<longleftrightarrow> True"
| "idle NMultLoop t \<longleftrightarrow> True"
| "idle NStatements t \<longleftrightarrow> True"
| "idle NMain t \<longleftrightarrow> True"
| "idle (NTable a b c d) t \<longleftrightarrow> b = 0"
| "idle x t \<longleftrightarrow> False"

definition after_entry :: "nt \<Rightarrow> comp \<Rightarrow> comp \<Rightarrow> bool" where
  "after_entry x k k' \<longleftrightarrow> left_over k' \<le> left_over k \<and> (\<not> idle x (k_token k) \<longrightarrow> left_over k' < left_over k)"

definition needed :: "nt \<Rightarrow> comp \<Rightarrow> nat" where
  "needed x k = 10 * left_over k + rank x"

text \<open>
  What a turn asks of the calls it makes: each entry that needs less than \<open>B\<close> ends and takes its tokens.
\<close>

locale entries =
  fixes rc :: rcall and B :: nat
  assumes calls: "needed x k < B \<Longrightarrow> safe (rc x) k (\<lambda>_. after_entry x k)"
begin

lemma safe_call [eat_rules]:
  assumes "10 * left_over k + rank x < B"
    "\<And>k'. left_over k' \<le> left_over k \<Longrightarrow> (\<not> idle x (k_token k) \<Longrightarrow> left_over k' < left_over k) \<Longrightarrow> Q () k'"
  shows "safe (rc x) k Q"
proof -
  have "safe (rc x) k (\<lambda>_. after_entry x k)" using assms(1) by (intro calls) (simp add: needed_def)
  then show ?thesis by (rule safe_mono) (auto simp: after_entry_def intro: assms(2))
qed

text \<open>Expressions.\<close>

text \<open>Expressions.\<close>

text \<open>Expressions.\<close>

text \<open>Expressions.\<close>

text \<open>Expressions.\<close>

lemma safe_PrefixedExpr [eat_rules]:
  assumes "10 * left_over k + 2 \<le> B" "\<And>k'. left_over k' < left_over k \<Longrightarrow> Q () k'"
  shows "safe (PrefixedExpr rc) k Q"
  unfolding PrefixedExpr_def by (intro eat_rules safe_neutral neutral_rules; use assms in simp)

lemma safe_MultExp [eat_rules]:
  assumes "10 * left_over k + 2 \<le> B" "\<And>k'. left_over k' < left_over k \<Longrightarrow> Q () k'"
  shows "safe (MultExp rc) k Q"
  unfolding MultExp_def by (intro eat_rules safe_neutral neutral_rules; use assms in simp)

lemma safe_PlusExp [eat_rules]:
  assumes "10 * left_over k + 2 \<le> B" "\<And>k'. left_over k' < left_over k \<Longrightarrow> Q () k'"
  shows "safe (PlusExp rc) k Q"
  unfolding PlusExp_def by (intro eat_rules safe_neutral neutral_rules; use assms in simp)

lemma safe_ShiftExp [eat_rules]:
  assumes "10 * left_over k + 2 \<le> B" "\<And>k'. left_over k' < left_over k \<Longrightarrow> Q () k'"
  shows "safe (ShiftExp rc) k Q"
  unfolding ShiftExp_def by (intro eat_rules safe_neutral neutral_rules; use assms in simp)

lemma safe_CompExp [eat_rules]:
  assumes "10 * left_over k + 2 \<le> B" "\<And>k'. left_over k' < left_over k \<Longrightarrow> Q () k'"
  shows "safe (CompExp rc) k Q"
  unfolding CompExp_def by (intro eat_rules safe_neutral neutral_rules; use assms in simp)

lemma safe_EqExp [eat_rules]:
  assumes "10 * left_over k + 2 \<le> B" "\<And>k'. left_over k' < left_over k \<Longrightarrow> Q () k'"
  shows "safe (EqExp rc) k Q"
  unfolding EqExp_def by (intro eat_rules safe_neutral neutral_rules; use assms in simp)

lemma safe_BitwiseAndExp [eat_rules]:
  assumes "10 * left_over k + 2 \<le> B" "\<And>k'. left_over k' < left_over k \<Longrightarrow> Q () k'"
  shows "safe (BitwiseAndExp rc) k Q"
  unfolding BitwiseAndExp_def by (intro eat_rules safe_neutral neutral_rules; use assms in simp)

lemma safe_BitwiseXorExp [eat_rules]:
  assumes "10 * left_over k + 2 \<le> B" "\<And>k'. left_over k' < left_over k \<Longrightarrow> Q () k'"
  shows "safe (BitwiseXorExp rc) k Q"
  unfolding BitwiseXorExp_def by (intro eat_rules safe_neutral neutral_rules; use assms in simp)

lemma safe_BitwiseOrExp [eat_rules]:
  assumes "10 * left_over k + 2 \<le> B" "\<And>k'. left_over k' < left_over k \<Longrightarrow> Q () k'"
  shows "safe (BitwiseOrExp rc) k Q"
  unfolding BitwiseOrExp_def by (intro eat_rules safe_neutral neutral_rules; use assms in simp)

lemma safe_LogicalAndExp [eat_rules]:
  assumes "10 * left_over k + 2 \<le> B" "\<And>k'. left_over k' < left_over k \<Longrightarrow> Q () k'"
  shows "safe (LogicalAndExp rc) k Q"
  unfolding LogicalAndExp_def by (intro eat_rules safe_neutral neutral_rules; use assms in simp)

lemma safe_mult_loop [eat_rules]:
  assumes "10 * left_over k \<le> B" "\<And>k'. left_over k' \<le> left_over k \<Longrightarrow> Q () k'"
  shows "safe (mult_loop rc) k Q"
  unfolding mult_loop_def BIN_EXP_def INVOKE_EXP_def by (intro eat_rules safe_neutral neutral_rules; use assms in auto)

lemma safe_plus_loop [eat_rules]:
  assumes "10 * left_over k \<le> B" "\<And>k'. left_over k' \<le> left_over k \<Longrightarrow> Q () k'"
  shows "safe (plus_loop rc) k Q"
  unfolding plus_loop_def BIN_EXP_def INVOKE_EXP_def by (intro eat_rules safe_neutral neutral_rules; use assms in auto)

lemma safe_shift_loop [eat_rules]:
  assumes "10 * left_over k \<le> B" "\<And>k'. left_over k' \<le> left_over k \<Longrightarrow> Q () k'"
  shows "safe (shift_loop rc) k Q"
  unfolding shift_loop_def BIN_EXP_def INVOKE_EXP_def by (intro eat_rules safe_neutral neutral_rules; use assms in simp)

lemma safe_comp_loop [eat_rules]:
  assumes "10 * left_over k \<le> B" "\<And>k'. left_over k' \<le> left_over k \<Longrightarrow> Q () k'"
  shows "safe (comp_loop rc) k Q"
  unfolding comp_loop_def BIN_EXP_def INVOKE_EXP_def by (intro eat_rules safe_neutral neutral_rules; use assms in simp)

lemma safe_eq_loop [eat_rules]:
  assumes "10 * left_over k \<le> B" "\<And>k'. left_over k' \<le> left_over k \<Longrightarrow> Q () k'"
  shows "safe (eq_loop rc) k Q"
  unfolding eq_loop_def BIN_EXP_def INVOKE_EXP_def by (intro eat_rules safe_neutral neutral_rules; use assms in simp)

lemma safe_band_loop [eat_rules]:
  assumes "10 * left_over k \<le> B" "\<And>k'. left_over k' \<le> left_over k \<Longrightarrow> Q () k'"
  shows "safe (band_loop rc) k Q"
  unfolding band_loop_def BIN_EXP_def INVOKE_EXP_def by (intro eat_rules safe_neutral neutral_rules; use assms in simp)

lemma safe_xor_loop [eat_rules]:
  assumes "10 * left_over k \<le> B" "\<And>k'. left_over k' \<le> left_over k \<Longrightarrow> Q () k'"
  shows "safe (xor_loop rc) k Q"
  unfolding xor_loop_def BIN_EXP_def INVOKE_EXP_def by (intro eat_rules safe_neutral neutral_rules; use assms in simp)

lemma safe_bor_loop [eat_rules]:
  assumes "10 * left_over k \<le> B" "\<And>k'. left_over k' \<le> left_over k \<Longrightarrow> Q () k'"
  shows "safe (bor_loop rc) k Q"
  unfolding bor_loop_def BIN_EXP_def INVOKE_EXP_def by (intro eat_rules safe_neutral neutral_rules; use assms in simp)

lemma safe_and_loop [eat_rules]:
  assumes "10 * left_over k \<le> B" "\<And>k'. left_over k' \<le> left_over k \<Longrightarrow> Q () k'"
  shows "safe (and_loop rc) k Q"
  unfolding and_loop_def short_circuit_def INVOKE_EXP_def by (intro eat_rules safe_neutral neutral_rules; use assms in simp)

lemma safe_LogicalOrExp [eat_rules]:
  assumes "10 * left_over k + 3 \<le> B" "\<And>k'. left_over k' < left_over k \<Longrightarrow> Q () k'"
  shows "safe (LogicalOrExp rc) k Q"
  unfolding LogicalOrExp_def short_circuit_def INVOKE_EXP_def by (intro eat_rules safe_neutral neutral_rules; use assms in simp)

lemma safe_comma_loop [eat_rules]:
  assumes "10 * left_over k \<le> B" "\<And>k'. left_over k' \<le> left_over k \<Longrightarrow> Q () k'"
  shows "safe (comma_loop rc) k Q"
  unfolding comma_loop_def by (intro eat_rules safe_neutral neutral_rules; use assms in simp)

lemma safe_CommaExpr [eat_rules]:
  assumes "10 * left_over k + 5 \<le> B" "\<And>k'. left_over k' < left_over k \<Longrightarrow> Q () k'"
  shows "safe (CommaExpr rc) k Q"
  unfolding CommaExpr_def by (intro eat_rules safe_neutral neutral_rules; use assms in simp)

lemma safe_assignment [eat_rules]:
  assumes "10 * left_over k \<le> B" "k_token k \<noteq> 0" "\<And>k'. left_over k' < left_over k \<Longrightarrow> Q () k'"
  shows "safe (assignment rc) k Q"
  unfolding assignment_def Let_def by (intro eat_rules safe_neutral neutral_rules; use assms in simp)

lemma safe_conditional [eat_rules]:
  assumes "10 * left_over k \<le> B" "k_token k \<noteq> 0" "\<And>k'. left_over k' < left_over k \<Longrightarrow> Q () k'"
  shows "safe (conditional rc) k Q"
  unfolding conditional_def by (intro eat_rules safe_neutral neutral_rules; use assms in simp)

lemma safe_Expression [eat_rules]:
  assumes "10 * left_over k + 4 \<le> B" "\<And>k'. left_over k' < left_over k \<Longrightarrow> Q () k'"
  shows "safe (Expression rc) k Q"
  unfolding Expression_def INVOKE_EXP_def by (intro eat_rules safe_neutral neutral_rules; use assms in \<open>auto simp: assign_ops_def\<close>)

lemma safe_UnaryOP [eat_rules]:
  assumes "10 * left_over k + 2 \<le> B" "\<And>k'. left_over k' < left_over k \<Longrightarrow> Q () k'"
  shows "safe (UnaryOP rc p) k Q"
  unfolding UnaryOP_def by (intro eat_rules safe_neutral neutral_rules; use assms in simp)

lemma safe_FunctionCallArgs [eat_rules]:
  assumes "10 * left_over k + 5 \<le> B" "\<And>k'. left_over k' < left_over k \<Longrightarrow> Q () k'"
  shows "safe (FunctionCallArgs rc n) k Q"
  unfolding FunctionCallArgs_def by (intro eat_rules safe_neutral neutral_rules; use assms in simp)

text \<open>Functions, tables and classes.\<close>

lemma safe_function_body [eat_rules]:
  assumes "10 * left_over k \<le> B" "\<And>k'. left_over k' < left_over k \<Longrightarrow> Q () k'"
  shows "safe (function_body rc f n b) k Q"
  unfolding function_body_def by (intro eat_rules safe_neutral neutral_rules; use assms in simp)

lemma safe_params_loop [eat_rules]:
  assumes "10 * left_over k \<le> B" "\<And>k'. left_over k' < left_over k \<Longrightarrow> Q () k'"
  shows "safe (params_loop rc f n b) k Q"
  unfolding params_loop_def Let_def by (intro eat_rules safe_neutral neutral_rules; use assms in simp)

lemma safe_CreateFunction [eat_rules]:
  assumes "10 * left_over k + 2 \<le> B" "\<And>k'. left_over k' < left_over k \<Longrightarrow> Q () k'"
  shows "safe (CreateFunction rc x b) k Q"
  unfolding CreateFunction_def by (intro eat_rules safe_neutral neutral_rules; use assms in simp)

lemma safe_FunctionExp [eat_rules]:
  assumes "10 * left_over k \<le> B" "\<And>k'. left_over k' < left_over k \<Longrightarrow> Q () k'"
  shows "safe (FunctionExp rc t b) k Q"
  unfolding FunctionExp_def by (intro eat_rules safe_neutral neutral_rules; use assms in simp)

lemma safe_double_colon_loop [eat_rules]:
  assumes "10 * left_over k \<le> B" "\<And>k'. left_over k' < left_over k \<Longrightarrow> Q () k'"
  shows "safe (double_colon_loop rc x) k Q"
  unfolding double_colon_loop_def by (intro eat_rules safe_neutral neutral_rules; use assms in simp)

lemma safe_FunctionStatement [eat_rules]:
  assumes "10 * left_over k \<le> B" "\<And>k'. left_over k' < left_over k \<Longrightarrow> Q () k'"
  shows "safe (FunctionStatement rc) k Q"
  unfolding FunctionStatement_def by (intro eat_rules safe_neutral neutral_rules; use assms in simp)

lemma safe_table_key [eat_rules]:
  assumes "10 * left_over k \<le> B" "\<And>k'. left_over k' < left_over k \<Longrightarrow> Q () k'"
  shows "safe (table_key rc t) k Q"
  unfolding table_key_def by (intro eat_rules safe_neutral neutral_rules; use assms in auto)

lemma safe_table_loop [eat_rules]:
  assumes "10 * left_over k \<le> B" "\<And>k'. left_over k' \<le> left_over k \<Longrightarrow> (b \<noteq> 0 \<Longrightarrow> left_over k' < left_over k) \<Longrightarrow> Q () k'"
  shows "safe (table_loop rc a b c d) k Q"
  unfolding table_loop_def by (intro eat_rules safe_neutral neutral_rules; use assms in simp)

lemma safe_ParseTableOrClass [eat_rules]:
  assumes "10 * left_over k + 2 \<le> B" "b \<noteq> 0" "\<And>k'. left_over k' < left_over k \<Longrightarrow> Q () k'"
  shows "safe (ParseTableOrClass rc a b) k Q"
  unfolding ParseTableOrClass_def by (intro eat_rules safe_neutral neutral_rules; use assms in simp)

lemma safe_ClassExp [eat_rules]:
  assumes "10 * left_over k + 10 \<le> B" "\<And>k'. left_over k' < left_over k \<Longrightarrow> Q () k'"
  shows "safe (ClassExp rc a) k Q"
  unfolding ClassExp_def by (intro eat_rules safe_neutral neutral_rules; use assms in simp)

lemma safe_ClassStatement [eat_rules]:
  assumes "10 * left_over k \<le> B" "k_token k \<noteq> 0" "\<And>k'. left_over k' < left_over k \<Longrightarrow> Q () k'"
  shows "safe (ClassStatement rc) k Q"
  unfolding ClassStatement_def by (intro eat_rules safe_neutral neutral_rules; use assms in simp)

lemma safe_DeleteExpr [eat_rules]:
  assumes "10 * left_over k \<le> B" "k_token k \<noteq> 0" "\<And>k'. left_over k' < left_over k \<Longrightarrow> Q () k'"
  shows "safe (DeleteExpr rc) k Q"
  unfolding DeleteExpr_def reference_def by (intro eat_rules safe_neutral neutral_rules; use assms in simp)

lemma safe_PrefixIncDec [eat_rules]:
  assumes "10 * left_over k \<le> B" "k_token k \<noteq> 0" "\<And>k'. left_over k' < left_over k \<Longrightarrow> Q () k'"
  shows "safe (PrefixIncDec rc t) k Q"
  unfolding PrefixIncDec_def reference_def Let_def by (intro eat_rules safe_neutral neutral_rules; use assms in simp)

text \<open>Factors.\<close>

lemma safe_array_loop [eat_rules]:
  assumes "10 * left_over k + 5 \<le> B" "\<And>k'. left_over k' < left_over k \<Longrightarrow> Q () k'"
  shows "safe (array_loop rc a b) k Q"
  unfolding array_loop_def by (intro eat_rules safe_neutral neutral_rules; use assms in simp)

lemma safe_negated_factor [eat_rules]:
  assumes "10 * left_over k + 2 \<le> B" "\<And>k'. left_over k' < left_over k \<Longrightarrow> Q () k'"
  shows "safe (negated_factor rc) k Q"
  unfolding negated_factor_def by (intro eat_rules safe_neutral neutral_rules; use assms in auto)

lemma safe_plain_factor [eat_rules]:
  assumes "10 * left_over k \<le> B" "\<And>k'. left_over k' < left_over k \<Longrightarrow> Q () k'"
  shows "safe (plain_factor rc (k_token k)) k Q"
  unfolding plain_factor_def by (intro eat_rules safe_neutral neutral_rules; use assms in auto)

text \<open>After \<open>::\<close> no token is gone yet, but the next one is a point.\<close>

lemma safe_Factor [eat_rules]:
  assumes "10 * left_over k \<le> B" "\<And>k'. left_over k' < left_over k \<Longrightarrow> Q () k'"
    "\<And>k'. left_over k' \<le> left_over k \<Longrightarrow> k_token k' = tok (CHR ''.'') \<Longrightarrow> Q () k'"
  shows "safe (Factor rc) k Q"
proof -
  have p: "safe (cput (\<lambda>k. k\<lparr>k_token := tok (CHR ''.'')\<rparr>)) k R"
    if "k_token k \<noteq> 0" "\<And>k'. left_over k' = left_over k \<Longrightarrow> k_token k' = tok (CHR ''.'') \<Longrightarrow> R () k'" for k R
    using that by (simp add: safe_def cput_def left_over_def)
  have o: "safe (case x of OString s \<Rightarrow> name_factor s | _ \<Rightarrow> cstuck) k R"
    if "\<And>k'. left_over k' \<le> left_over k \<Longrightarrow> R () k'" for x k R
    by (cases x) (auto simp: safe_cerror intro!: safe_name_factor that)
  show ?thesis
    unfolding Factor_def by (intro eat_rules p o safe_neutral neutral_rules; use assms in simp)
qed

text \<open>Statements.\<close>

lemma safe_LocalDeclStatement [eat_rules]:
  assumes "10 * left_over k \<le> B" "k_token k \<noteq> 0" "\<And>k'. left_over k' < left_over k \<Longrightarrow> Q () k'"
  shows "safe (LocalDeclStatement rc) k Q"
  unfolding LocalDeclStatement_def by (intro eat_rules safe_neutral neutral_rules; use assms in simp)

lemma safe_vars_loop [eat_rules]:
  assumes "10 * left_over k \<le> B" "\<And>k'. left_over k' < left_over k \<Longrightarrow> Q () k'"
  shows "safe (vars_loop rc) k Q"
  unfolding vars_loop_def by (intro eat_rules safe_neutral neutral_rules; use assms in simp)

lemma safe_EnumStatement [eat_rules]:
  assumes "10 * left_over k \<le> B" "\<And>k'. left_over k' < left_over k \<Longrightarrow> Q () k'"
  shows "safe (EnumStatement rc) k Q"
  unfolding EnumStatement_def by (intro eat_rules safe_neutral neutral_rules; use assms in simp)

lemma safe_enum_loop [eat_rules]:
  assumes "10 * left_over k \<le> B" "\<And>k'. left_over k' < left_over k \<Longrightarrow> Q () k'"
  shows "safe (enum_loop rc x a n) k Q"
  unfolding enum_loop_def by (intro eat_rules safe_neutral neutral_rules; use assms in simp)

lemma safe_Statements [eat_rules]:
  assumes "10 * left_over k + 7 \<le> B" "\<And>k'. left_over k' \<le> left_over k \<Longrightarrow> Q () k'"
  shows "safe (Statements rc) k Q"
  unfolding Statements_def by (intro eat_rules safe_neutral neutral_rules; use assms in simp)

lemma safe_block [eat_rules]:
  assumes "10 * left_over k \<le> B" "k_token k \<noteq> 0" "\<And>k'. left_over k' < left_over k \<Longrightarrow> Q () k'"
  shows "safe (block rc) k Q"
  unfolding block_def by (intro eat_rules safe_neutral neutral_rules; use assms in simp)

lemma safe_IfBlock [eat_rules]:
  assumes "10 * left_over k + 7 \<le> B" "\<And>k'. left_over k' < left_over k \<Longrightarrow> Q () k'"
  shows "safe (IfBlock rc) k Q"
  unfolding IfBlock_def scoped_def by (intro eat_rules safe_neutral neutral_rules; use assms in simp)

lemma safe_condition [eat_rules]:
  assumes "10 * left_over k \<le> B" "\<And>k'. left_over k' < left_over k \<Longrightarrow> Q () k'"
  shows "safe (condition rc) k Q"
  unfolding condition_def by (intro eat_rules safe_neutral neutral_rules; use assms in simp)

lemma safe_IfStatement [eat_rules]:
  assumes "10 * left_over k \<le> B" "\<And>k'. left_over k' < left_over k \<Longrightarrow> Q () k'"
  shows "safe (IfStatement rc) k Q"
  unfolding IfStatement_def by (intro eat_rules safe_neutral neutral_rules; use assms in simp)

lemma safe_WhileStatement [eat_rules]:
  assumes "10 * left_over k \<le> B" "\<And>k'. left_over k' < left_over k \<Longrightarrow> Q () k'"
  shows "safe (WhileStatement rc) k Q"
  unfolding WhileStatement_def scoped_def by (intro eat_rules safe_neutral neutral_rules; use assms in simp)

lemma safe_DoWhileStatement [eat_rules]:
  assumes "10 * left_over k \<le> B" "k_token k \<noteq> 0" "\<And>k'. left_over k' < left_over k \<Longrightarrow> Q () k'"
  shows "safe (DoWhileStatement rc) k Q"
  unfolding DoWhileStatement_def scoped_def by (intro eat_rules safe_neutral neutral_rules; use assms in simp)

lemma safe_for_increment [eat_rules]:
  assumes "10 * left_over k + 10 \<le> B" "\<And>x k'. left_over k' < left_over k \<Longrightarrow> Q x k'"
  shows "safe (for_increment rc) k Q"
  unfolding for_increment_def Let_def by (intro eat_rules safe_neutral neutral_rules; use assms in simp)

lemma safe_for_condition [eat_rules]:
  assumes "10 * left_over k + 10 \<le> B" "\<And>x k'. left_over k' \<le> left_over k \<Longrightarrow> Q x k'"
  shows "safe (for_condition rc) k Q"
  unfolding for_condition_def by (intro eat_rules safe_neutral neutral_rules; use assms in simp)

lemma safe_ForStatement [eat_rules]:
  assumes "10 * left_over k \<le> B" "\<And>k'. left_over k' < left_over k \<Longrightarrow> Q () k'"
  shows "safe (ForStatement rc) k Q"
  unfolding ForStatement_def by (intro eat_rules safe_neutral neutral_rules; use assms in simp)

lemma safe_ForEachStatement [eat_rules]:
  assumes "10 * left_over k \<le> B" "\<And>k'. left_over k' < left_over k \<Longrightarrow> Q () k'"
  shows "safe (ForEachStatement rc) k Q"
  unfolding ForEachStatement_def by (intro eat_rules safe_neutral neutral_rules; use assms in simp)

lemma safe_SwitchStatement [eat_rules]:
  assumes "10 * left_over k \<le> B" "\<And>k'. left_over k' < left_over k \<Longrightarrow> Q () k'"
  shows "safe (SwitchStatement rc) k Q"
  unfolding SwitchStatement_def by (intro eat_rules safe_neutral neutral_rules; use assms in simp)

lemma safe_switch_end [eat_rules]:
  assumes "10 * left_over k \<le> B" "\<And>k'. left_over k' < left_over k \<Longrightarrow> Q () k'"
  shows "safe (switch_end rc t n) k Q"
  unfolding switch_end_def scoped_def by (intro eat_rules safe_neutral neutral_rules; use assms in simp)

lemma safe_case_test [eat_rules]:
  assumes "10 * left_over k \<le> B" "k_token k \<noteq> 0" "\<And>k'. left_over k' < left_over k \<Longrightarrow> Q () k'"
  shows "safe (case_test rc x) k Q"
  unfolding case_test_def by (intro eat_rules safe_neutral neutral_rules; use assms in simp)

lemma safe_case_loop [eat_rules]:
  assumes "10 * left_over k \<le> B" "\<And>k'. left_over k' < left_over k \<Longrightarrow> Q () k'"
  shows "safe (case_loop rc e b t s n) k Q"
  unfolding case_loop_def scoped_def by (intro eat_rules safe_neutral neutral_rules; use assms in simp)

lemma safe_TryCatchStatement [eat_rules]:
  assumes "10 * left_over k \<le> B" "k_token k \<noteq> 0" "\<And>k'. left_over k' < left_over k \<Longrightarrow> Q () k'"
  shows "safe (TryCatchStatement rc) k Q"
  unfolding TryCatchStatement_def scoped_def by (intro eat_rules safe_neutral neutral_rules; use assms in simp)

lemma safe_ReturnStatement [eat_rules]:
  assumes "10 * left_over k \<le> B" "k_token k \<noteq> 0" "\<And>k'. left_over k' < left_over k \<Longrightarrow> Q () k'"
  shows "safe (ReturnStatement rc t) k Q"
  unfolding ReturnStatement_def Let_def by (intro eat_rules safe_neutral neutral_rules; use assms in simp)

lemma safe_Statement [eat_rules]:
  assumes "10 * left_over k + 6 \<le> B" "\<And>k'. left_over k' < left_over k \<Longrightarrow> Q () k'"
  shows "safe (Statement rc b) k Q"
  unfolding Statement_def by (intro eat_rules safe_neutral neutral_rules; use assms in auto)

lemma safe_main_loop [eat_rules]:
  assumes "10 * left_over k + 7 \<le> B" "\<And>k'. left_over k' \<le> left_over k \<Longrightarrow> Q () k'"
  shows "safe (main_loop rc) k Q"
  unfolding main_loop_def by (intro eat_rules safe_neutral neutral_rules; use assms in simp)

text \<open>One turn of any entry keeps the contract, with budget for one more level.\<close>

lemma turn:
  assumes "needed x k \<le> B"
  shows "safe (nt_step rc x) k (\<lambda>_. after_entry x k)"
proof (cases x)
  case NPrefixed
  then show ?thesis
    unfolding nt_step_def by (simp, intro eat_rules; use assms in \<open>simp add: needed_def after_entry_def\<close>)
next
  case NPrefixLoop
  then show ?thesis
    unfolding nt_step_def prefix_loop_def
    by (simp, intro eat_rules safe_neutral neutral_rules; use assms in \<open>auto simp: needed_def after_entry_def\<close>)
qed (simp add: nt_step_def, intro eat_rules; use assms in \<open>simp add: needed_def after_entry_def\<close>)+

end

section \<open>The compiler\<close>

lemma entries_compile: "entries (compile n) n"
proof (induction n)
  case 0
  show ?case by unfold_locales simp
next
  case (Suc n)
  show ?case by unfold_locales (simp add: entries.turn [OF Suc])
qed

interpretation compiled: entries "compile n" n for n
  by (rule entries_compile)

section \<open>The budget does not matter\<close>

text \<open>\<open>m'\<close> ends as \<open>m\<close> does, unless \<open>m\<close> runs out of budget.\<close>

definition cle :: "'a cm \<Rightarrow> 'a cm \<Rightarrow> bool" where
  "cle m m' \<longleftrightarrow> (\<forall>k. m k = CFuel \<or> m' k = m k)"

named_theorems cle_rules

lemma cle_refl: "cle m m" by (simp add: cle_def)

lemma cle_cbind [cle_rules]:
  assumes "cle m m'" "\<And>x. cle (f x) (f' x)"
  shows "cle (cbind m f) (cbind m' f')"
  unfolding cle_def
proof
  fix k
  show "cbind m f k = CFuel \<or> cbind m' f' k = cbind m f k"
    using assms(1) [unfolded cle_def, rule_format, of k]
    by (cases "m k") (auto simp: cbind_def assms(2) [unfolded cle_def, rule_format])
qed

lemma cle_cthen [cle_rules]: "cle m m' \<Longrightarrow> cle n n' \<Longrightarrow> cle (cthen m n) (cthen m' n')"
  unfolding cthen_def by (rule cle_cbind)

lemma cle_cseq [cle_rules]: "cle m m' \<Longrightarrow> cle (cseq ms) (cseq ms') \<Longrightarrow> cle (cseq (m # ms)) (cseq (m' # ms'))"
  unfolding cseq_def by (simp add: cle_cthen)

lemma cle_cwhen [cle_rules]: "cle m m' \<Longrightarrow> cle (cwhen b m) (cwhen b m')"
  by (simp add: cwhen_def cle_refl)

lemma cle_if [cle_rules]: "cle m m' \<Longrightarrow> cle n n' \<Longrightarrow> cle (if b then m else n) (if b then m' else n')"
  by simp

lemma cle_let [cle_rules]: "(\<And>y. cle (f y) (f' y)) \<Longrightarrow> cle (let y = x in f y) (let y = x in f' y)"
  by simp

lemma cle_option [cle_rules]:
  "cle m m' \<Longrightarrow> (\<And>y. cle (f y) (f' y)) \<Longrightarrow> cle (case x of None \<Rightarrow> m | Some y \<Rightarrow> f y) (case x of None \<Rightarrow> m' | Some y \<Rightarrow> f' y)"
  by (cases x) auto

lemma cle_prod [cle_rules]:
  "(\<And>a b. cle (f a b) (f' a b)) \<Longrightarrow> cle (case p of (a, b) \<Rightarrow> f a b) (case p of (a, b) \<Rightarrow> f' a b)"
  by (cases p) auto

lemmas expression_defs = CommaExpr_def comma_loop_def INVOKE_EXP_def assignment_def conditional_def Expression_def
  BIN_EXP_def short_circuit_def PrefixedExpr_def MultExp_def mult_loop_def PlusExp_def plus_loop_def ShiftExp_def
  shift_loop_def CompExp_def comp_loop_def EqExp_def eq_loop_def BitwiseAndExp_def band_loop_def BitwiseXorExp_def
  xor_loop_def BitwiseOrExp_def bor_loop_def LogicalAndExp_def and_loop_def LogicalOrExp_def UnaryOP_def
  FunctionCallArgs_def prefix_loop_def

lemmas factor_defs = function_body_def params_loop_def CreateFunction_def FunctionExp_def FunctionStatement_def
  double_colon_loop_def table_key_def table_loop_def ParseTableOrClass_def ClassExp_def reference_def
  ClassStatement_def DeleteExpr_def PrefixIncDec_def array_loop_def negated_factor_def plain_factor_def Factor_def

lemmas statement_defs = LocalDeclStatement_def vars_loop_def EnumStatement_def enum_loop_def Statements_def scoped_def
  block_def IfBlock_def condition_def IfStatement_def WhileStatement_def DoWhileStatement_def for_increment_def
  for_condition_def ForStatement_def ForEachStatement_def SwitchStatement_def switch_end_def case_test_def
  case_loop_def TryCatchStatement_def ReturnStatement_def Statement_def main_loop_def

lemma cle_turn:
  assumes "\<And>y. cle (rc y) (rc' y)"
  shows "cle (nt_step rc x) (nt_step rc' x)"
  by (cases x; simp only: nt_step_def nt.case expression_defs factor_defs statement_defs;
      (rule assms cle_refl cle_rules)+)

lemma cle_compile: "n \<le> m \<Longrightarrow> cle (compile n x) (compile m x)"
proof (induction n arbitrary: m x)
  case 0
  then show ?case by (simp add: cle_def)
next
  case (Suc n)
  then obtain m' where m: "m = Suc m'" "n \<le> m'" by (cases m) auto
  show ?case
    unfolding m(1) compile.simps by (rule cle_turn) (rule Suc.IH [OF m(2)])
qed

lemma cle_main_body: "n \<le> m \<Longrightarrow> cle (main_body n) (main_body m)"
  unfolding main_body_def by (rule cle_refl cle_rules cle_compile | assumption)+

lemma main_body_ends:
  assumes "10 * left_over k + 7 < n"
  shows "main_body n k \<noteq> CFuel"
proof -
  have "safe (main_body n) k (\<lambda>_ _. True)"
    unfolding main_body_def
    by (intro eat_rules compiled.safe_call safe_neutral neutral_rules; use assms in simp)
  then show ?thesis by (auto simp: safe_def)
qed

lemma new_compiler_left:
  assumes "new_compiler v consts input l e t src li = Some k"
  shows "left_over k \<le> 4 * length input + 1"
proof -
  obtain l' where "Init input l = LOk l'" "k_lex k = l'"
    using assms by (auto simp: new_compiler_def split: lres.splits Option.bind_split_asm)
  moreover from this(1) have "lsize l' \<le> 2 * length input"
    by (auto simp: Init_def Next_def lsize_def split: list.splits if_splits)
  ultimately show ?thesis by (simp add: left_over_def)
qed

text \<open>
  C32: the compiler ends on every input: with a budget of 40 for each character and 20 more the recursion is never cut
  short, and any larger budget gives the same function, or the same error, and the same machine.
\<close>

theorem RunCompiler_total:
  "\<exists>r. r \<noteq> Inl True \<and>
     (\<forall>m. RunCompiler (40 * length input + 20 + m) v consts input l e t sourcename lineinfo = r)"
proof (cases "new_compiler v consts input l e t sourcename lineinfo")
  case None
  then show ?thesis by (intro exI [of _ "Inl False"]) (simp add: RunCompiler_def)
next
  case (Some k)
  let ?n = "40 * length input + 20"
  have n: "main_body ?n k \<noteq> CFuel" using new_compiler_left [OF Some] by (intro main_body_ends) simp
  have eq: "main_body (?n + m) k = main_body ?n k" for m
    using n cle_main_body [of ?n "?n + m"] unfolding cle_def by auto
  have "RunCompiler ?n v consts input l e t sourcename lineinfo \<noteq> Inl True"
    using n by (auto simp: RunCompiler_def StartCompiler_def Some split: cres.splits)
  moreover have "RunCompiler (?n + m) v consts input l e t sourcename lineinfo =
      RunCompiler ?n v consts input l e t sourcename lineinfo" for m
    by (simp add: RunCompiler_def StartCompiler_def Some eq)
  ultimately show ?thesis by blast
qed

end
