(* ===== verification/TypeMask.thy ===== *)
theory TypeMask
  imports Calls
begin

text \<open>
  The type masks of native functions (\<^verbatim>\<open>src/state.cpp\<close>): \<open>CompileTypemask\<close> turns a text such as \<^verbatim>\<open>"tn|sc."\<close> into one
  mask per parameter, and \<open>CallNative\<close> tests each argument against its mask. The text of a list of parameter types
  compiles, and a call is let through exactly when every argument has one of the types written for it.
\<close>

section \<open>The compiler of masks\<close>

definition RT :: "ltype \<Rightarrow> u64" where "RT t = ucast (raw_type t)"

definition letter_mask :: "char \<Rightarrow> u64 option" where
  "letter_mask c =
     (if c = CHR ''o'' then Some (RT OT_NULL)
      else if c = CHR ''i'' then Some (RT OT_INTEGER)
      else if c = CHR ''f'' then Some (RT OT_FLOAT)
      else if c = CHR ''n'' then Some (RT OT_FLOAT OR RT OT_INTEGER)
      else if c = CHR ''s'' then Some (RT OT_STRING)
      else if c = CHR ''t'' then Some (RT OT_TABLE)
      else if c = CHR ''a'' then Some (RT OT_ARRAY)
      else if c = CHR ''u'' then Some (RT OT_USERDATA)
      else if c = CHR ''c'' then Some (RT OT_CLOSURE OR RT OT_NATIVECLOSURE)
      else if c = CHR ''b'' then Some (RT OT_BOOL)
      else if c = CHR ''g'' then Some (RT OT_GENERATOR)
      else if c = CHR ''p'' then Some (RT OT_USERPOINTER)
      else if c = CHR ''v'' then Some (RT OT_THREAD)
      else if c = CHR ''x'' then Some (RT OT_INSTANCE)
      else if c = CHR ''y'' then Some (RT OT_CLASS)
      else if c = CHR ''r'' then Some (RT OT_WEAKREF)
      else None)"

text \<open>The loop: the text that is left, the mask under construction, the masks that are done.\<close>

fun typemask_loop :: "string \<Rightarrow> u64 \<Rightarrow> u64 list \<Rightarrow> u64 list option" where
  "typemask_loop [] msk res = Some res"
| "typemask_loop (c # cs) msk res =
     (if c = CHR ''.'' then typemask_loop cs 0 (res @ [- 1])
      else if c = CHR '' '' then typemask_loop cs msk res
      else case letter_mask c of
          None \<Rightarrow> None
        | Some m \<Rightarrow>
            (case cs of
               d # ds \<Rightarrow>
                 if d = CHR ''|'' then (if ds = [] then None else typemask_loop ds (msk OR m) res)
                 else typemask_loop cs 0 (res @ [msk OR m])
             | [] \<Rightarrow> typemask_loop cs 0 (res @ [msk OR m])))"

definition CompileTypemask :: "string \<Rightarrow> u64 list option" where
  "CompileTypemask typemask = typemask_loop (c_string typemask) 0 []"

text \<open>\<open>CreateDefaultDelegate\<close>: a table of native functions, from their names, addresses, arities and masks.\<close>

record regfunction =
  rf_name :: string
  rf_f :: u64
  rf_nparamscheck :: int
  rf_typemask :: "string option"

definition native_create :: "u64 \<Rightarrow> lvnative" where
  "native_create f = \<lparr>n_nparamscheck = 0, n_typecheck = [], n_outervalues = [], n_env = None, n_function = f, n_name = ONull\<rparr>"

fun delegate_loop :: "regfunction list \<Rightarrow> lvtable \<Rightarrow> vm \<Rightarrow> (lvtable option \<times> vm) option" where
  "delegate_loop [] t v = Some (Some t, v)"
| "delegate_loop (r # rs) t v =
     (case (case rf_typemask r of None \<Rightarrow> Some [] | Some m \<Rightarrow> CompileTypemask m) of
        None \<Rightarrow> Some (None, v)
      | Some ms \<Rightarrow> do {
          (a, v) \<leftarrow> alloc (HNative ((native_create (rf_f r))\<lparr>n_nparamscheck := rf_nparamscheck r,
             n_name := OString (rf_name r), n_typecheck := ms\<rparr>)) v;
          (_, t) \<leftarrow> table_NewSlot t (OString (rf_name r)) (ORef RNativeClosure a);
          delegate_loop rs t v
        })"

definition CreateDefaultDelegate :: "regfunction list \<Rightarrow> vm \<Rightarrow> (u64 option \<times> vm) option" where
  "CreateDefaultDelegate funcz v = do {
     (t, v) \<leftarrow> delegate_loop funcz (table_create 0) v;
     (case t of
        None \<Rightarrow> Some (None, v)
      | Some t \<Rightarrow> do { (a, v) \<leftarrow> alloc (HTable t) v; Some (Some a, v) })
   }"

section \<open>Masks mean sets of types\<close>

text \<open>The types a letter stands for, and the types of one parameter: any, or alternatives.\<close>

definition letter_types :: "char \<Rightarrow> ltype list" where
  "letter_types c =
     (if c = CHR ''n'' then [OT_FLOAT, OT_INTEGER]
      else if c = CHR ''c'' then [OT_CLOSURE, OT_NATIVECLOSURE]
      else case map_of (zip ''oifstaubgpvxyr''
             [OT_NULL, OT_INTEGER, OT_FLOAT, OT_STRING, OT_TABLE, OT_ARRAY, OT_USERDATA, OT_BOOL, OT_GENERATOR,
              OT_USERPOINTER, OT_THREAD, OT_INSTANCE, OT_CLASS, OT_WEAKREF]) c of
          Some t \<Rightarrow> [t] | None \<Rightarrow> [])"

datatype paramtype = PAny | PAlt char "char list"

fun param_ok :: "paramtype \<Rightarrow> bool" where
  "param_ok PAny = True"
| "param_ok (PAlt c cs) = list_all (\<lambda>c. letter_types c \<noteq> []) (c # cs)"

fun param_text :: "paramtype \<Rightarrow> string" where
  "param_text PAny = ''.''"
| "param_text (PAlt c cs) = c # concat (map (\<lambda>d. [CHR ''|'', d]) cs)"

fun accepts :: "paramtype \<Rightarrow> ltype \<Rightarrow> bool" where
  "accepts PAny t = True"
| "accepts (PAlt c cs) t = (\<exists>d \<in> set (c # cs). t \<in> set (letter_types d))"

definition alt_mask :: "char list \<Rightarrow> u64" where
  "alt_mask cs = foldr (\<lambda>c m. (case letter_mask c of Some k \<Rightarrow> k | None \<Rightarrow> 0) OR m) cs 0"

fun param_mask :: "paramtype \<Rightarrow> u64" where
  "param_mask PAny = - 1"
| "param_mask (PAlt c cs) = alt_mask (c # cs)"

definition letters :: string where "letters = ''oifnstaucbgpvxyr''"

lemma letter_types_letters: "letter_types c \<noteq> [] \<longleftrightarrow> c \<in> set letters"
  by (auto simp: letter_types_def letters_def split: option.splits)

lemma letter_facts:
  "c \<in> set letters \<Longrightarrow> letter_mask c \<noteq> None \<and> c \<noteq> CHR ''.'' \<and> c \<noteq> CHR '' '' \<and> c \<noteq> CHR ''|'' \<and> c \<noteq> CHR 0x00"
proof -
  have "list_all (\<lambda>c. letter_mask c \<noteq> None \<and> c \<noteq> CHR ''.'' \<and> c \<noteq> CHR '' '' \<and> c \<noteq> CHR ''|'' \<and> c \<noteq> CHR 0x00) letters"
    by code_simp
  then show "c \<in> set letters \<Longrightarrow> ?thesis" by (simp add: list_all_iff)
qed

lemma letter_bit:
  "c \<in> set letters \<Longrightarrow> (case letter_mask c of Some k \<Rightarrow> k | None \<Rightarrow> 0) AND ucast (type_tag t) \<noteq> 0 \<longleftrightarrow> t \<in> set (letter_types c)"
proof -
  have "list_all (\<lambda>c. list_all (\<lambda>t. ((case letter_mask c of Some k \<Rightarrow> k | None \<Rightarrow> 0) AND ucast (type_tag t) \<noteq> 0)
     = (t \<in> set (letter_types c))) all_types) letters" by code_simp
  moreover have "t \<in> set all_types" by (cases t; simp add: all_types_def)
  ultimately show "c \<in> set letters \<Longrightarrow> ?thesis" by (simp add: list_all_iff)
qed

lemma or_and_nonzero: "((a :: u64) OR b) AND m \<noteq> 0 \<longleftrightarrow> a AND m \<noteq> 0 \<or> b AND m \<noteq> 0"
proof -
  have "(a OR b) AND m = (a AND m) OR (b AND m)" by (simp add: bit.conj_disj_distrib2)
  then show ?thesis by (simp add: or_eq_0_iff)
qed

lemma alt_mask_bit:
  "list_all (\<lambda>c. letter_types c \<noteq> []) cs \<Longrightarrow>
   alt_mask cs AND ucast (type_tag t) \<noteq> 0 \<longleftrightarrow> (\<exists>d \<in> set cs. t \<in> set (letter_types d))"
proof (induction cs)
  case Nil then show ?case by (simp add: alt_mask_def)
next
  case (Cons c cs)
  have "alt_mask (c # cs) = (case letter_mask c of Some k \<Rightarrow> k | None \<Rightarrow> 0) OR alt_mask cs" by (simp add: alt_mask_def)
  then show ?case using Cons letter_bit [of c t] by (auto simp: or_and_nonzero letter_types_letters)
qed

lemma alt_loop:
  assumes "rest = [] \<or> hd rest \<noteq> CHR ''|''"
  shows "list_all (\<lambda>c. letter_types c \<noteq> []) (c # cs) \<Longrightarrow>
    typemask_loop (c # concat (map (\<lambda>d. [CHR ''|'', d]) cs) @ rest) m res = typemask_loop rest 0 (res @ [m OR alt_mask (c # cs)])"
proof (induction cs arbitrary: c m)
  case Nil
  then have c: "c \<in> set letters" by (simp add: letter_types_letters)
  from letter_facts [OF c] obtain k where "letter_mask c = Some k" by blast
  then show ?case using letter_facts [OF c] assms by (cases rest) (auto simp: alt_mask_def)
next
  case (Cons d cs)
  then have c: "c \<in> set letters" by (simp add: letter_types_letters)
  from letter_facts [OF c] obtain k where k: "letter_mask c = Some k" by blast
  have am: "alt_mask (c # d # cs) = k OR alt_mask (d # cs)" by (simp add: alt_mask_def k)
  show ?case
    using letter_facts [OF c] k Cons.IH [of d "m OR k"] Cons.prems by (simp add: am or.assoc)
qed

lemma param_text_hd: "param_ok p \<Longrightarrow> param_text p \<noteq> [] \<and> hd (param_text p) \<noteq> CHR ''|''"
  by (cases p) (auto simp: letter_types_letters dest: letter_facts)

lemma params_loop:
  "list_all param_ok ps \<Longrightarrow> typemask_loop (concat (map param_text ps)) 0 res = Some (res @ map param_mask ps)"
proof (induction ps arbitrary: res)
  case (Cons p ps)
  have r: "concat (map param_text ps) = [] \<or> hd (concat (map param_text ps)) \<noteq> CHR ''|''"
    using Cons.prems by (cases ps) (auto simp: hd_append dest: param_text_hd)
  show ?case
  proof (cases p)
    case PAny then show ?thesis using Cons by simp
  next
    case (PAlt c cs)
    then have "list_all (\<lambda>c. letter_types c \<noteq> []) (c # cs)" using Cons.prems by simp
    from alt_loop [OF r this, of 0 res] PAlt Cons show ?thesis by simp
  qed
qed simp

lemma CompileTypemask_text: "list_all param_ok ps \<Longrightarrow> CompileTypemask (concat (map param_text ps)) = Some (map param_mask ps)"
proof -
  assume ok: "list_all param_ok ps"
  have "CHR 0x00 \<notin> set (concat (map param_text ps))"
  proof -
    have "CHR 0x00 \<notin> set (param_text p)" if "param_ok p" for p
      using that by (cases p) (auto simp: letter_types_letters list_all_iff dest: letter_facts)
    then show ?thesis using ok by (auto simp: list_all_iff)
  qed
  then have "c_string (concat (map param_text ps)) = concat (map param_text ps)"
    unfolding c_string_def by (intro takeWhile_eq_all_conv [THEN iffD2]) (metis)
  then show ?thesis using params_loop [OF ok, of "[]"] by (simp add: CompileTypemask_def)
qed

text \<open>No mask but the one of any type has all bits, and the test of one argument.\<close>

lemma mask_test:
  assumes "param_ok p"
  shows "param_mask p \<noteq> - 1 \<and> ucast (type_tag t) AND param_mask p = 0 \<longleftrightarrow> \<not> accepts p t"
proof (cases p)
  case (PAlt c cs)
  then have ok: "list_all (\<lambda>c. letter_types c \<noteq> []) (c # cs)" using assms by simp
  have "OT_OUTER \<notin> set (letter_types d)" for d
    by (auto simp: letter_types_def split: option.splits dest!: map_of_SomeD set_zip_rightD)
  then have "alt_mask (c # cs) AND ucast (type_tag OT_OUTER) = 0"
    using alt_mask_bit [OF ok, of OT_OUTER] by blast
  moreover have "(- 1 :: u64) AND ucast (type_tag OT_OUTER) \<noteq> 0" by code_simp
  ultimately have "alt_mask (c # cs) \<noteq> - 1" by metis
  then show ?thesis using alt_mask_bit [OF ok, of t] PAlt by (auto simp: and.commute)
qed simp

definition first_bad :: "paramtype list \<Rightarrow> lvobj list \<Rightarrow> nat option" where
  "first_bad ps xs = List.find (\<lambda>i. \<not> accepts (ps ! i) (otype (xs ! i))) [0..<min (length ps) (length xs)]"

lemma find_map: "find P (map f xs) = map_option f (find (P \<circ> f) xs)"
  by (induction xs) auto

lemma first_bad_Cons:
  "first_bad (p # ps) (x # xs) = (if accepts p (otype x) then map_option Suc (first_bad ps xs) else Some 0)"
  unfolding first_bad_def
  by (simp add: upt_conv_Cons map_Suc_upt [symmetric] find_map comp_def del: upt_Suc)

lemma check_types_first_bad:
  "list_all param_ok ps \<Longrightarrow>
   check_types k (map param_mask ps) xs =
     map_option (\<lambda>i. EParamType (k + i) (param_mask (ps ! i)) (otype (xs ! i))) (first_bad ps xs)"
proof (induction ps arbitrary: k xs)
  case Nil then show ?case by (simp add: first_bad_def)
next
  case (Cons p ps)
  show ?case
  proof (cases xs)
    case Nil then show ?thesis by (simp add: first_bad_def)
  next
    case (Cons x ys)
    have t: "param_mask p \<noteq> - 1 \<and> ucast (type_tag (otype x)) AND param_mask p = 0 \<longleftrightarrow> \<not> accepts p (otype x)"
      using Cons.prems by (intro mask_test) simp
    show ?thesis
      using Cons.IH [of "k + 1" ys] Cons.prems
      by (cases "first_bad ps ys") (auto simp: \<open>xs = x # ys\<close> t first_bad_Cons)
  qed
qed

text \<open>What \<open>CallNative\<close> does once the arguments have passed.\<close>

definition native_entry :: "nativefn \<Rightarrow> callfn \<Rightarrow> u64 \<Rightarrow> lvnative \<Rightarrow> nat \<Rightarrow> int \<Rightarrow> vm \<Rightarrow> (bool \<times> lvobj option \<times> bool \<times> vm) option" where
  "native_entry native call a nc nargs newbase v = do {
     (b, v) \<leftarrow> EnterFrame newbase (newbase + int nargs + int (length (n_outervalues nc))) False v;
     if \<not> b then Some (False, None, False, v)
     else do {
       v \<leftarrow> set_ci (\<lambda>c. c\<lparr>ci_closure := ORef RNativeClosure a\<rparr>) v;
       v \<leftarrow> write_slots (newbase + int nargs) (n_outervalues nc) v;
       v \<leftarrow> (case n_env nc of None \<Rightarrow> Some v | Some w \<Rightarrow> set_stack newbase (weak_of v w) v);
       (r, v) \<leftarrow> native call (n_function nc) (v\<lparr>v_nnative := v_nnative v + 1\<rparr>);
       let v = v\<lparr>v_nnative := v_nnative v - 1\<rparr>;
       if r < 0 \<and> r \<noteq> SUSPEND_FLAG then do { v \<leftarrow> LeaveFrame v; Some (False, None, False, v) }
       else do {
         x \<leftarrow> (if r \<noteq> 0 then at_stack v (v_top v - 1) else Some ONull);
         v \<leftarrow> LeaveFrame v;
         Some (True, Some x, r = SUSPEND_FLAG, v)
       }
     }
   }"

text \<open>
  C33: The type mask of a native function written as a list of parameter types compiles to one mask per
  parameter. A call of the function with an admissible number of arguments is refused with the error for the first
  argument whose type is not among those written for its parameter, and then the function is not entered; when every
  argument has one of its types, the function is entered.
\<close>

theorem native_arguments_typed:
  assumes ok: "list_all param_ok ps" and nc: "get_native v a = Some nc"
    and ty: "CompileTypemask (concat (map param_text ps)) = Some (n_typecheck nc)"
    and call: "v_nnative v + 1 \<le> MAX_NATIVE_CALLS" "native_arity_ok (n_nparamscheck nc) (int nargs)"
    and xs: "read_slots v newbase (min nargs (length ps)) = Some xs"
  shows "CallNative native call a nargs newbase v =
    (case first_bad ps xs of
       Some i \<Rightarrow> Some (False, None, False, raise (EParamType i (param_mask (ps ! i)) (otype (xs ! i))) v)
     | None \<Rightarrow> native_entry native call a nc nargs newbase v)"
proof -
  have ms: "n_typecheck nc = map param_mask ps" using ty CompileTypemask_text [OF ok] by simp
  have "check_types 0 (n_typecheck nc) xs =
      map_option (\<lambda>i. EParamType i (param_mask (ps ! i)) (otype (xs ! i))) (first_bad ps xs)"
    using check_types_first_bad [OF ok, of 0 xs] by (simp add: ms)
  moreover have "read_slots v newbase (min nargs (length (n_typecheck nc))) = Some xs" using xs by (simp add: ms)
  ultimately show ?thesis
    using call unfolding CallNative_def native_entry_def
    by (cases "first_bad ps xs") (simp_all add: nc)
qed

definition sample_native :: lvnative where
  "sample_native = (native_create 7)\<lparr>n_nparamscheck := - 2, n_typecheck := [RT OT_STRING, RT OT_INTEGER OR RT OT_NULL]\<rparr>"

definition sample_vm :: vm where
  "sample_vm = \<lparr>v_heap = [1 \<mapsto> HNative sample_native], v_free = [], v_weakrefs = Map.empty,
     v_stack = [OString ''a'', OBool 1], v_top = 2, v_stackbase = 0, v_calls = [], v_openouters = [], v_etraps = [],
     v_roottable = ONull, v_lasterror = ONull, v_errorhandler = ONull, v_temp = ONull, v_nnative = 0, v_nmeta = 0,
     v_ddel = (\<lambda>_. None), v_suspended = False, v_susp_target = 0, v_susp_root = False, v_susp_traps = 0,
     v_notifyall = False\<rparr>"

theorem native_arguments_typed_witness:
  "CallNative (\<lambda>_ _ v. Some (0, v)) (\<lambda>_ _ _ _ _. None) 1 2 0 sample_vm =
     Some (False, None, False, raise (EParamType 1 3 OT_BOOL) sample_vm)"
proof -
  let ?ps = "[PAlt CHR ''s'' [], PAlt CHR ''i'' [CHR ''o'']]"
  have 1: "list_all param_ok ?ps" by code_simp
  have 2: "get_native sample_vm 1 = Some sample_native" by (simp add: get_native_def sample_vm_def)
  have 3: "CompileTypemask (concat (map param_text ?ps)) = Some (n_typecheck sample_native)" by code_simp
  have 4: "v_nnative sample_vm + 1 \<le> MAX_NATIVE_CALLS" "native_arity_ok (n_nparamscheck sample_native) (int 2)" by code_simp+
  have 5: "read_slots sample_vm 0 (min 2 (length ?ps)) = Some [OString ''a'', OBool 1]"
    by (simp add: sample_vm_def at_stack_def numeral_2_eq_2)
  have "first_bad ?ps [OString ''a'', OBool 1] = Some 1" by code_simp
  moreover have "param_mask (?ps ! 1) = 3" by code_simp
  ultimately show ?thesis
    using native_arguments_typed [OF 1 2 3 4 5, of "\<lambda>_ _ v. Some (0, v)" "\<lambda>_ _ _ _ _. None"]
    by (simp only: option.case nth_Cons_0 nth_Cons_Suc One_nat_def otype.simps)
qed

end
