(* ===== verification/Serialize.thy ===== *)
theory Serialize
  imports Calls
begin

text \<open>
  Writing a compiled closure to a stream and reading it back (\<^verbatim>\<open>src/object.cpp\<close>). The stream is reached
  through the callbacks \<open>LVWRITEFUNC\<close> and \<open>LVREADFUNC\<close> of the client: a writer takes bytes and says how many it
  accepted, a reader takes a size and gives the number of bytes it delivered, with the bytes. Numbers are laid
  out little endian. A function is read recursively; the budget bounds the nesting of functions.
\<close>

section \<open>Operations that fail\<close>

text \<open>
  \<open>SFail\<close>: the operation returned \<open>false\<close>, its error is in the machine. \<open>SUndef\<close>: it read outside an object, used
  a size no object can have, or met a value its type has no name for. \<open>SFuel\<close>: the budget is spent.
\<close>

datatype ('a, 's) sres = SOk 'a vm 's | SFail vm 's | SUndef | SFuel

type_synonym ('a, 's) sm = "vm \<Rightarrow> 's \<Rightarrow> ('a, 's) sres"

type_synonym 's writer = "u8 list \<Rightarrow> 's \<Rightarrow> int \<times> 's"

type_synonym 's reader = "int \<Rightarrow> 's \<Rightarrow> int \<times> u8 list \<times> 's"

definition sret :: "'a \<Rightarrow> ('a, 's) sm" where
  "sret x v s = SOk x v s"

definition sfail :: "vm_error \<Rightarrow> ('a, 's) sm" where
  "sfail e v s = SFail (raise e v) s"

definition sbind :: "('a, 's) sm \<Rightarrow> ('a \<Rightarrow> ('b, 's) sm) \<Rightarrow> ('b, 's) sm" where
  "sbind m f v s =
     (case m v s of SOk x v s \<Rightarrow> f x v s | SFail v s \<Rightarrow> SFail v s | SUndef \<Rightarrow> SUndef | SFuel \<Rightarrow> SFuel)"

definition sthen :: "('a, 's) sm \<Rightarrow> ('b, 's) sm \<Rightarrow> ('b, 's) sm" where
  "sthen m m' = sbind m (\<lambda>_. m')"

text \<open>What the machine holds, or undefined.\<close>

definition slook :: "(vm \<Rightarrow> 'a option) \<Rightarrow> ('a, 's) sm" where
  "slook g v s = (case g v of Some x \<Rightarrow> SOk x v s | None \<Rightarrow> SUndef)"

definition sopt :: "(vm \<Rightarrow> ('a \<times> vm) option) \<Rightarrow> ('a, 's) sm" where
  "sopt g v s = (case g v of Some (x, v) \<Rightarrow> SOk x v s | None \<Rightarrow> SUndef)"

fun sseq :: "(unit, 's) sm list \<Rightarrow> (unit, 's) sm" where
  "sseq [] = sret ()"
| "sseq (m # ms) = sthen m (sseq ms)"

text \<open>A loop over the elements of an array, and a loop that fills one.\<close>

definition swrite_all :: "('a \<Rightarrow> (unit, 's) sm) \<Rightarrow> 'a list \<Rightarrow> (unit, 's) sm" where
  "swrite_all f xs = sseq (map f xs)"

fun sread_n :: "nat \<Rightarrow> ('a, 's) sm \<Rightarrow> ('a list, 's) sm" where
  "sread_n 0 m = sret []"
| "sread_n (Suc n) m = sbind m (\<lambda>x. sbind (sread_n n m) (\<lambda>xs. sret (x # xs)))"

section \<open>Bytes\<close>

text \<open>The bytes of an integer of \<open>n\<close> bytes, least significant first.\<close>

primrec le_bytes :: "nat \<Rightarrow> 'a::len word \<Rightarrow> u8 list" where
  "le_bytes 0 w = []"
| "le_bytes (Suc n) w = ucast w # le_bytes n (drop_bit 8 w)"

fun le_word :: "u8 list \<Rightarrow> 'a::len word" where
  "le_word [] = 0"
| "le_word (b # bs) = ucast b OR push_bit 8 (le_word bs)"

text \<open>An array of \<open>n\<close> items of \<open>k\<close> bytes each.\<close>

fun blocks :: "nat \<Rightarrow> nat \<Rightarrow> 'b list \<Rightarrow> 'b list list" where
  "blocks k 0 bs = []"
| "blocks k (Suc n) bs = take k bs # blocks k n (drop k bs)"

definition CLOSURESTREAM_HEAD :: u32 where "CLOSURESTREAM_HEAD = 0x53514952"
definition CLOSURESTREAM_PART :: u32 where "CLOSURESTREAM_PART = 0x50415254"
definition CLOSURESTREAM_TAIL :: u32 where "CLOSURESTREAM_TAIL = 0x5441494C"

section \<open>Reads and writes\<close>

definition write_failure :: vm_error where
  "write_failure = EMsg ''io error (write function failure)''"

definition read_failure :: vm_error where
  "read_failure = EMsg ''io error, read function failure, the origin stream could be corrupted/trucated''"

definition SafeWrite :: "'s writer \<Rightarrow> u8 list \<Rightarrow> (unit, 's) sm" where
  "SafeWrite wr bs v s =
     (case wr bs s of (n, s) \<Rightarrow> if n \<noteq> int (length bs) then sfail write_failure v s else SOk () v s)"

definition SafeRead :: "'s reader \<Rightarrow> int \<Rightarrow> (u8 list, 's) sm" where
  "SafeRead rd sz v s =
     (if sz < 0 then SUndef
      else if sz = 0 then SOk [] v s
      else case rd sz s of (n, bs, s) \<Rightarrow> if n \<noteq> sz then sfail read_failure v s else SOk bs v s)"

definition WriteTag :: "'s writer \<Rightarrow> u32 \<Rightarrow> (unit, 's) sm" where
  "WriteTag wr tag = SafeWrite wr (le_bytes 4 tag)"

definition CheckTag :: "'s reader \<Rightarrow> u32 \<Rightarrow> (unit, 's) sm" where
  "CheckTag rd tag =
     sbind (SafeRead rd 4) (\<lambda>bs.
       if le_word bs \<noteq> tag then sfail (EMsg ''invalid or corrupted closure stream'') else sret ())"

definition WriteInt :: "'s writer \<Rightarrow> u64 \<Rightarrow> (unit, 's) sm" where
  "WriteInt wr i = SafeWrite wr (le_bytes 8 i)"

definition ReadInt :: "'s reader \<Rightarrow> (u64, 's) sm" where
  "ReadInt rd = sbind (SafeRead rd 8) (\<lambda>bs. sret (le_word bs))"

fun WriteObject :: "'s writer \<Rightarrow> lvobj \<Rightarrow> (unit, 's) sm" where
  "WriteObject wr ob =
     sthen (SafeWrite wr (le_bytes 4 (type_tag (otype ob))))
       (case ob of
          OString str \<Rightarrow>
            sthen (WriteInt wr (of_nat (length str))) (SafeWrite wr (map byte_of str))
        | OBool b \<Rightarrow> WriteInt wr b
        | OInteger i \<Rightarrow> WriteInt wr i
        | OFloat f \<Rightarrow> SafeWrite wr (le_bytes 4 f)
        | ONull \<Rightarrow> sret ()
        | _ \<Rightarrow> sfail (EMsg (''cannot serialize a '' @ IdType2Name (otype ob))))"

text \<open>
  The type with a tag; the name of a tag looks at the type bits alone, and there is none when no type has
  them.
\<close>

definition type_of_tag :: "u32 \<Rightarrow> ltype option" where
  "type_of_tag t = List.find (\<lambda>x. type_tag x = t) all_types"

definition raw_of_tag :: "u32 \<Rightarrow> ltype option" where
  "raw_of_tag t = List.find (\<lambda>x. raw_type x = t AND 0x00FFFFFF) all_types"

definition bad_object :: "u32 \<Rightarrow> (lvobj, 's) sm" where
  "bad_object t = (case raw_of_tag t of
       Some r \<Rightarrow> sfail (EMsg (''cannot serialize a '' @ IdType2Name r))
     | None \<Rightarrow> (\<lambda>v s. SUndef))"

definition ReadObject :: "'s reader \<Rightarrow> (lvobj, 's) sm" where
  "ReadObject rd =
     sbind (SafeRead rd 4) (\<lambda>tb. let t = le_word tb in
       case type_of_tag t of
         Some OT_STRING \<Rightarrow>
           sbind (ReadInt rd) (\<lambda>len. sbind (SafeRead rd (sint len)) (\<lambda>bs. sret (OString (map char_of_byte bs))))
       | Some OT_INTEGER \<Rightarrow> sbind (ReadInt rd) (\<lambda>i. sret (OInteger i))
       | Some OT_BOOL \<Rightarrow> sbind (ReadInt rd) (\<lambda>i. sret (OBool i))
       | Some OT_FLOAT \<Rightarrow> sbind (SafeRead rd 4) (\<lambda>bs. sret (OFloat (le_word bs)))
       | Some OT_NULL \<Rightarrow> sret ONull
       | _ \<Rightarrow> bad_object t)"

section \<open>Parts of a function\<close>

text \<open>
  \<open>LVOuterVar\<close> starts with its type, an enumeration of four bytes, and four bytes of padding of an unknown value;
  all eight are written, and the low half of the number read back is the type.
\<close>

definition outer_type_bytes :: "(outervar \<Rightarrow> u32) \<Rightarrow> outervar \<Rightarrow> u8 list" where
  "outer_type_bytes pad w =
     le_bytes 4 (case ov_type w of otLOCAL \<Rightarrow> (0::u32) | otOUTER \<Rightarrow> 1) @ le_bytes 4 (pad w)"

definition write_outer :: "(outervar \<Rightarrow> u32) \<Rightarrow> 's writer \<Rightarrow> outervar \<Rightarrow> (unit, 's) sm" where
  "write_outer pad wr w =
     sseq [SafeWrite wr (outer_type_bytes pad w), WriteObject wr (ov_src w), WriteObject wr (ov_name w)]"

definition outer_type_of :: "u64 \<Rightarrow> (outertype, 's) sm" where
  "outer_type_of t =
     (let k = (ucast t :: u32) in
      if k = 0 then sret otLOCAL else if k = 1 then sret otOUTER else (\<lambda>v s. SUndef))"

definition read_outer :: "'s reader \<Rightarrow> (outervar, 's) sm" where
  "read_outer rd =
     sbind (ReadInt rd) (\<lambda>t. sbind (ReadObject rd) (\<lambda>src. sbind (ReadObject rd) (\<lambda>name.
     sbind (outer_type_of t) (\<lambda>k. sret \<lparr>ov_type = k, ov_name = name, ov_src = src\<rparr>))))"

definition write_local :: "'s writer \<Rightarrow> localvar \<Rightarrow> (unit, 's) sm" where
  "write_local wr l =
     sseq [WriteObject wr (lv_name l), WriteInt wr (lv_pos l), WriteInt wr (lv_start l), WriteInt wr (lv_end l)]"

definition read_local :: "'s reader \<Rightarrow> (localvar, 's) sm" where
  "read_local rd =
     sbind (ReadObject rd) (\<lambda>name. sbind (ReadInt rd) (\<lambda>pos. sbind (ReadInt rd) (\<lambda>st. sbind (ReadInt rd) (\<lambda>en.
     sret \<lparr>lv_name = name, lv_start = st, lv_end = en, lv_pos = pos\<rparr>))))"

definition int_bytes :: "int \<Rightarrow> u8 list" where
  "int_bytes i = le_bytes 8 (of_int i :: u64)"

definition bytes_int :: "u8 list \<Rightarrow> int" where
  "bytes_int bs = sint (le_word bs :: u64)"

definition lineinfo_bytes :: "lineinfo \<Rightarrow> u8 list" where
  "lineinfo_bytes l = int_bytes (li_line l) @ int_bytes (li_op l)"

definition lineinfo_of :: "u8 list \<Rightarrow> lineinfo" where
  "lineinfo_of bs = \<lparr>li_line = bytes_int (take 8 bs), li_op = bytes_int (drop 8 bs)\<rparr>"

definition instr_bytes :: "instr \<Rightarrow> u8 list" where
  "instr_bytes i = le_bytes 4 (iarg1 i) @ [op_code (iop i), iarg0 i, iarg2 i, iarg3 i]"

definition opcode_of :: "u8 \<Rightarrow> opcode option" where
  "opcode_of b = List.find (\<lambda>p. op_code p = b) all_opcodes"

definition instr_of :: "u8 list \<Rightarrow> instr option" where
  "instr_of bs =
     map_option (\<lambda>p. \<lparr>iop = p, iarg0 = bs ! 5, iarg1 = le_word (take 4 bs), iarg2 = bs ! 6, iarg3 = bs ! 7\<rparr>)
       (opcode_of (bs ! 4))"

text \<open>An array that is written and read in one piece.\<close>

definition write_array :: "('a \<Rightarrow> u8 list) \<Rightarrow> 's writer \<Rightarrow> 'a list \<Rightarrow> (unit, 's) sm" where
  "write_array f wr xs = SafeWrite wr (concat (map f xs))"

definition read_array :: "nat \<Rightarrow> (u8 list \<Rightarrow> 'a option) \<Rightarrow> 's reader \<Rightarrow> nat \<Rightarrow> ('a list, 's) sm" where
  "read_array k f rd n =
     sbind (SafeRead rd (int (k * n))) (\<lambda>bs. slook (\<lambda>_. those (map f (blocks k n bs))))"

definition bool_byte :: "bool \<Rightarrow> u8" where
  "bool_byte b = (if b then 1 else 0)"

definition read_bool :: "'s reader \<Rightarrow> (bool, 's) sm" where
  "read_bool rd =
     sbind (SafeRead rd 1) (\<lambda>bs. slook (\<lambda>_. if bs = [0] then Some False else if bs = [1] then Some True else None))"

section \<open>Functions\<close>

definition counts :: "funcproto \<Rightarrow> nat list" where
  "counts f = [length (p_literals f), length (p_parameters f), length (p_outervalues f),
     length (p_localvarinfos f), length (p_lineinfos f), length (p_defaultparams f),
     length (p_instructions f), length (p_functions f)]"

fun child :: "lvobj \<Rightarrow> u64 option" where
  "child (ORef RFuncProto a) = Some a"
| "child _ = None"

primrec FunctionPrototype_Save :: "nat \<Rightarrow> (outervar \<Rightarrow> u32) \<Rightarrow> 's writer \<Rightarrow> u64 \<Rightarrow> (unit, 's) sm" where
  "FunctionPrototype_Save 0 pad wr a = (\<lambda>v s. SFuel)"
| "FunctionPrototype_Save (Suc n) pad wr a =
     sbind (slook (\<lambda>v. get_proto v a)) (\<lambda>f. sseq [
       WriteTag wr CLOSURESTREAM_PART,
       WriteObject wr (p_sourcename f),
       WriteObject wr (p_name f),
       WriteTag wr CLOSURESTREAM_PART,
       swrite_all (\<lambda>k. WriteInt wr (of_nat k)) (counts f),
       WriteTag wr CLOSURESTREAM_PART,
       swrite_all (WriteObject wr) (p_literals f),
       WriteTag wr CLOSURESTREAM_PART,
       swrite_all (WriteObject wr) (p_parameters f),
       WriteTag wr CLOSURESTREAM_PART,
       swrite_all (write_outer pad wr) (p_outervalues f),
       WriteTag wr CLOSURESTREAM_PART,
       swrite_all (write_local wr) (p_localvarinfos f),
       WriteTag wr CLOSURESTREAM_PART,
       write_array lineinfo_bytes wr (p_lineinfos f),
       WriteTag wr CLOSURESTREAM_PART,
       write_array int_bytes wr (p_defaultparams f),
       WriteTag wr CLOSURESTREAM_PART,
       write_array instr_bytes wr (p_instructions f),
       WriteTag wr CLOSURESTREAM_PART,
       swrite_all (\<lambda>g. sbind (slook (\<lambda>_. child g)) (FunctionPrototype_Save n pad wr)) (p_functions f),
       WriteInt wr (of_int (p_stacksize f)),
       SafeWrite wr [bool_byte (p_bgenerator f)],
       WriteInt wr (if p_varparams f then 1 else 0)])"

text \<open>A count no array can have: it is negative, or the array would not fit in the address space.\<close>

definition array_count :: "u64 \<Rightarrow> (nat, 's) sm" where
  "array_count c = slook (\<lambda>_. if 0 \<le> sint c \<and> sint c < 2 ^ 56 then Some (nat (sint c)) else None)"

definition blank_proto :: "lvobj \<Rightarrow> lvobj \<Rightarrow> funcproto" where
  "blank_proto src name =
     \<lparr>p_sourcename = src, p_name = name, p_stacksize = 0, p_bgenerator = False, p_varparams = False,
      p_localvarinfos = [], p_lineinfos = [], p_literals = [], p_parameters = [], p_functions = [],
      p_outervalues = [], p_defaultparams = [], p_instructions = []\<rparr>"

text \<open>
  \<open>Load\<close> allocates the function when it knows the counts, and fills it. It is not reachable before the call
  returns it.
\<close>

primrec FunctionPrototype_Load :: "nat \<Rightarrow> 's reader \<Rightarrow> (u64, 's) sm" where
  "FunctionPrototype_Load 0 rd = (\<lambda>v s. SFuel)"
| "FunctionPrototype_Load (Suc n) rd =
     sthen (CheckTag rd CLOSURESTREAM_PART)
     (sbind (ReadObject rd) (\<lambda>src.
     sbind (ReadObject rd) (\<lambda>name.
     sthen (CheckTag rd CLOSURESTREAM_PART)
     (sbind (sread_n 8 (ReadInt rd)) (\<lambda>cs.
     sbind (array_count (cs ! 0)) (\<lambda>nliterals.
     sbind (array_count (cs ! 1)) (\<lambda>nparameters.
     sbind (array_count (cs ! 2)) (\<lambda>noutervalues.
     sbind (array_count (cs ! 3)) (\<lambda>nlocalvarinfos.
     sbind (array_count (cs ! 4)) (\<lambda>nlineinfos.
     sbind (array_count (cs ! 5)) (\<lambda>ndefaultparams.
     sbind (array_count (cs ! 6)) (\<lambda>ninstructions.
     sbind (array_count (cs ! 7)) (\<lambda>nfunctions.
     sbind (sopt (alloc (HProto (blank_proto src name)))) (\<lambda>a.
     sthen (CheckTag rd CLOSURESTREAM_PART)
     (sbind (sread_n nliterals (ReadObject rd)) (\<lambda>literals.
     sthen (CheckTag rd CLOSURESTREAM_PART)
     (sbind (sread_n nparameters (ReadObject rd)) (\<lambda>parameters.
     sthen (CheckTag rd CLOSURESTREAM_PART)
     (sbind (sread_n noutervalues (read_outer rd)) (\<lambda>outers.
     sthen (CheckTag rd CLOSURESTREAM_PART)
     (sbind (sread_n nlocalvarinfos (read_local rd)) (\<lambda>locals.
     sthen (CheckTag rd CLOSURESTREAM_PART)
     (sbind (read_array 16 (\<lambda>bs. Some (lineinfo_of bs)) rd nlineinfos) (\<lambda>lines.
     sthen (CheckTag rd CLOSURESTREAM_PART)
     (sbind (read_array 8 (\<lambda>bs. Some (bytes_int bs)) rd ndefaultparams) (\<lambda>defaults.
     sthen (CheckTag rd CLOSURESTREAM_PART)
     (sbind (read_array 8 instr_of rd ninstructions) (\<lambda>instrs.
     sthen (CheckTag rd CLOSURESTREAM_PART)
     (sbind (sread_n nfunctions (FunctionPrototype_Load n rd)) (\<lambda>funs.
     sbind (ReadInt rd) (\<lambda>stacksize.
     sbind (read_bool rd) (\<lambda>gen.
     sbind (ReadInt rd) (\<lambda>varparams.
     sopt (\<lambda>v. Some (a, put a (HProto
       \<lparr>p_sourcename = src, p_name = name, p_stacksize = sint stacksize, p_bgenerator = gen,
        p_varparams = (varparams \<noteq> 0), p_localvarinfos = locals, p_lineinfos = lines, p_literals = literals,
        p_parameters = parameters, p_functions = map (ORef RFuncProto) funs, p_outervalues = outers,
        p_defaultparams = defaults, p_instructions = instrs\<rparr>) v)))))))))))))))))))))))))))))))))))"

section \<open>Closures\<close>

definition LVClosure_Save :: "nat \<Rightarrow> (outervar \<Rightarrow> u32) \<Rightarrow> 's writer \<Rightarrow> lvclosure \<Rightarrow> (unit, 's) sm" where
  "LVClosure_Save n pad wr c =
     sseq [WriteTag wr CLOSURESTREAM_HEAD, WriteTag wr 1, WriteTag wr 8, WriteTag wr 4,
       FunctionPrototype_Save n pad wr (c_function c), WriteTag wr CLOSURESTREAM_TAIL]"

text \<open>\<open>LVClosure::Create\<close>: the outer values and the default parameters of the new closure are null.\<close>

definition LVClosure_Create :: "u64 \<Rightarrow> u64 option \<Rightarrow> vm \<Rightarrow> (u64 \<times> vm) option" where
  "LVClosure_Create fa root v = do {
     f \<leftarrow> get_proto v fa;
     alloc (HClosure \<lparr>c_env = None, c_root = root, c_base = None, c_function = fa,
        c_outervalues = replicate (length (p_outervalues f)) ONull,
        c_defaultparams = replicate (length (p_defaultparams f)) ONull\<rparr>) v
   }"

definition LVClosure_Load :: "nat \<Rightarrow> 's reader \<Rightarrow> (lvobj, 's) sm" where
  "LVClosure_Load n rd =
     sthen (CheckTag rd CLOSURESTREAM_HEAD) (sthen (CheckTag rd 1) (sthen (CheckTag rd 8) (sthen (CheckTag rd 4)
     (sbind (FunctionPrototype_Load n rd) (\<lambda>fa.
     sthen (CheckTag rd CLOSURESTREAM_TAIL)
     (sopt (\<lambda>v. do {
        (w, v) \<leftarrow> GetWeakRef (v_roottable v) v;
        (a, v) \<leftarrow> LVClosure_Create fa (Some (raw_word w)) v;
        Some (ORef RClosure a, v)
      })))))))"

end
