(* ===== verification/Embedding.thy ===== *)
theory Embedding
  imports Delegation Execute RefTables Serialize TypeMask
begin

text \<open>
  The interface of the machine for its host and for native functions (\<^verbatim>\<open>src/api.cpp\<close>): a function takes its
  operands from the value stack, by an index that counts from the base of the frame when it is positive and from the
  top when it is negative, and leaves its result on the stack. \<open>LV_OK\<close> and \<open>LV_ERROR\<close> are \<open>True\<close> and \<open>False\<close>.
  User pointers, type tags, release hooks and the debug hook are not part of the machine's model.
\<close>

section \<open>Errors and operands\<close>

definition ok :: "vm \<Rightarrow> bres" where "ok v = Some (True, v)"

definition lv_throwerror :: "string \<Rightarrow> vm \<Rightarrow> bres" where
  "lv_throwerror err v = bfail (EMsg err) v"

definition wrong_argument :: "ltype \<Rightarrow> lvobj \<Rightarrow> vm_error" where
  "wrong_argument ty ob = EThrown (error_text 46
     (''wrong argument type, expected '' @ quoted (IdType2Name ty) @ '' got '' @ quoted (take 50 (str_arg (PrintObjVal ob)))))"

text \<open>\<open>_GETSAFE_OBJ\<close>: the operand if it has the type, or an error.\<close>

definition getsafe :: "int \<Rightarrow> ltype \<Rightarrow> (lvobj \<Rightarrow> vm \<Rightarrow> bres) \<Rightarrow> vm \<Rightarrow> bres" where
  "getsafe idx ty f v = do {
     ob \<leftarrow> stack_get v idx;
     if otype ob \<noteq> ty then bfail (wrong_argument ty ob) v else f ob v
   }"

definition with_addr :: "(u64 \<Rightarrow> vm \<Rightarrow> bres) \<Rightarrow> lvobj \<Rightarrow> vm \<Rightarrow> bres" where
  "with_addr f ob v = (case ob of ORef _ a \<Rightarrow> f a v | _ \<Rightarrow> None)"

definition lv_gettop :: "vm \<Rightarrow> int" where
  "lv_gettop v = v_top v - v_stackbase v"

definition paramscheck :: "int \<Rightarrow> (vm \<Rightarrow> bres) \<Rightarrow> vm \<Rightarrow> bres" where
  "paramscheck cnt f v = (if lv_gettop v < cnt then bfail (EMsg ''not enough params in the stack'') v else f v)"

definition aux_invalidtype :: "ltype \<Rightarrow> vm \<Rightarrow> bres" where
  "aux_invalidtype ty v = lv_throwerror (snprintf 100 (''unexpected type '' @ IdType2Name ty)) v"

text \<open>Storing through the reference \<open>stack_get\<close> gives, and the two ways a function ends.\<close>

definition stack_put :: "int \<Rightarrow> lvobj \<Rightarrow> vm \<Rightarrow> vm option" where
  "stack_put idx x v = set_stack (if idx \<ge> 0 then idx + v_stackbase v - 1 else v_top v + idx) x v"

definition push_ok :: "lvobj \<Rightarrow> vm \<Rightarrow> bres" where
  "push_ok x v = do { v \<leftarrow> Push x v; ok v }"

definition pop_ok :: "nat \<Rightarrow> vm \<Rightarrow> bres" where
  "pop_ok n v = do { v \<leftarrow> PopN n v; ok v }"

definition pop_throw :: "nat \<Rightarrow> string \<Rightarrow> vm \<Rightarrow> bres" where
  "pop_throw n err v = do { v \<leftarrow> PopN n v; lv_throwerror err v }"

section \<open>The state of the machine\<close>

datatype vmstate = LV_VMSTATE_IDLE | LV_VMSTATE_RUNNING | LV_VMSTATE_SUSPENDED

definition lv_getvmstate :: "vm \<Rightarrow> vmstate" where
  "lv_getvmstate v =
     (if v_suspended v then LV_VMSTATE_SUSPENDED
      else if v_calls v \<noteq> [] then LV_VMSTATE_RUNNING else LV_VMSTATE_IDLE)"

definition lv_seterrorhandler :: "vm \<Rightarrow> vm option" where
  "lv_seterrorhandler v = do {
     ob \<leftarrow> stack_get v (- 1);
     if is_function ob \<or> ob = ONull then Pop (v\<lparr>v_errorhandler := ob\<rparr>) else Some v
   }"

definition lv_notifyallexceptions :: "bool \<Rightarrow> vm \<Rightarrow> vm" where
  "lv_notifyallexceptions enable v = v\<lparr>v_notifyall := enable\<rparr>"

definition lv_pushroottable :: "vm \<Rightarrow> vm option" where "lv_pushroottable v = Push (v_roottable v) v"

definition lv_setroottable :: "vm \<Rightarrow> bres" where
  "lv_setroottable v = do {
     ob \<leftarrow> stack_get v (- 1);
     if otype ob = OT_TABLE \<or> ob = ONull then pop_ok 1 (v\<lparr>v_roottable := ob\<rparr>) else lv_throwerror ''ivalid type'' v
   }"

definition lv_throwobject :: "vm \<Rightarrow> bres" where
  "lv_throwobject v = do { ob \<leftarrow> GetUp (- 1) v; v \<leftarrow> Pop (v\<lparr>v_lasterror := ob\<rparr>); Some (False, v) }"

definition lv_reseterror :: "vm \<Rightarrow> vm" where "lv_reseterror v = v\<lparr>v_lasterror := ONull\<rparr>"

definition lv_getlasterror :: "vm \<Rightarrow> vm option" where "lv_getlasterror v = Push (v_lasterror v) v"

text \<open>\<open>_stack.resize\<close> moves the stack, and this function leaves the open outer variables where they point.\<close>

definition lv_reservestack :: "int \<Rightarrow> vm \<Rightarrow> bres" where
  "lv_reservestack nsize v =
     (if uint (of_int (v_top v + nsize) :: u64) > int (length (v_stack v)) then
        (if v_nmeta v \<noteq> 0 then lv_throwerror ''cannot resize stack while in  a metamethod'' v
         else if v_openouters v \<noteq> [] \<or> nsize < 0 then None
         else ok (v\<lparr>v_stack := resize_with (nat (v_top v + nsize)) (v_stack v)\<rparr>))
      else ok v)"

section \<open>External references\<close>

definition lv_addref :: "lvobj \<Rightarrow> reftab \<Rightarrow> reftab option" where
  "lv_addref po t = (if \<not> is_refcounted (otype po) then Some t else ref_AddRef po t)"

definition lv_getrefcount :: "lvobj \<Rightarrow> reftab \<Rightarrow> (nat \<times> reftab) option" where
  "lv_getrefcount po t = (if \<not> is_refcounted (otype po) then Some (0, t) else ref_GetRefCount po t)"

definition lv_release :: "lvobj \<Rightarrow> reftab \<Rightarrow> (bool \<times> reftab) option" where
  "lv_release po t = (if \<not> is_refcounted (otype po) then Some (True, t) else ref_Release po t)"

section \<open>Values of the host\<close>

definition lv_objtostring :: "lvobj \<Rightarrow> string option" where
  "lv_objtostring ob = (case ob of OString str \<Rightarrow> Some str | _ \<Rightarrow> None)"

definition lv_objtointeger :: "lvobj \<Rightarrow> u64" where
  "lv_objtointeger ob = (if is_number ob then tointeger ob else 0)"

definition lv_objtofloat :: "lvobj \<Rightarrow> u32" where
  "lv_objtofloat ob = (if is_number ob then tofloat ob else 0)"

definition lv_objtobool :: "lvobj \<Rightarrow> u64" where
  "lv_objtobool ob = (case ob of OBool b \<Rightarrow> b | _ \<Rightarrow> 0)"

definition lv_pushnull :: "vm \<Rightarrow> vm option" where "lv_pushnull v = PushNull v"

text \<open>A negative length asks for the length of the C string; no string is the null object.\<close>

definition lv_pushstring :: "string option \<Rightarrow> int \<Rightarrow> vm \<Rightarrow> vm option" where
  "lv_pushstring str len v =
     (case str of
        None \<Rightarrow> PushNull v
      | Some str \<Rightarrow>
          if len < 0 then Push (OString (c_string str)) v
          else if nat len \<le> length str then Push (OString (take (nat len) str)) v else None)"

definition lv_pushinteger :: "u64 \<Rightarrow> vm \<Rightarrow> vm option" where "lv_pushinteger n v = Push (OInteger n) v"

definition lv_pushbool :: "u64 \<Rightarrow> vm \<Rightarrow> vm option" where
  "lv_pushbool b v = Push (OBool (if b \<noteq> 0 then 1 else 0)) v"

definition lv_pushfloat :: "u32 \<Rightarrow> vm \<Rightarrow> vm option" where "lv_pushfloat n v = Push (OFloat n) v"

definition lv_push :: "int \<Rightarrow> vm \<Rightarrow> vm option" where
  "lv_push idx v = do { x \<leftarrow> stack_get v idx; Push x v }"

definition lv_gettype :: "int \<Rightarrow> vm \<Rightarrow> ltype option" where
  "lv_gettype idx v = map_option otype (stack_get v idx)"

definition lv_tobool :: "int \<Rightarrow> vm \<Rightarrow> bool option" where
  "lv_tobool idx v = map_option (\<lambda>ob. \<not> IsFalse ob) (stack_get v idx)"

text \<open>The getters: the outer option is an access outside the stack, the inner one \<open>LV_ERROR\<close>.\<close>

definition lv_getinteger :: "int \<Rightarrow> vm \<Rightarrow> u64 option option" where
  "lv_getinteger idx v = map_option (\<lambda>ob. if is_number ob then Some (tointeger ob) else None) (stack_get v idx)"

definition lv_getfloat :: "int \<Rightarrow> vm \<Rightarrow> u32 option option" where
  "lv_getfloat idx v = map_option (\<lambda>ob. if is_number ob then Some (tofloat ob) else None) (stack_get v idx)"

definition lv_getbool :: "int \<Rightarrow> vm \<Rightarrow> u64 option option" where
  "lv_getbool idx v = map_option (\<lambda>ob. case ob of OBool b \<Rightarrow> Some b | _ \<Rightarrow> None) (stack_get v idx)"

definition lv_getstring :: "int \<Rightarrow> vm \<Rightarrow> (string option \<times> vm) option" where
  "lv_getstring idx v = do {
     ob \<leftarrow> stack_get v idx;
     (case ob of OString str \<Rightarrow> Some (Some str, v) | _ \<Rightarrow> Some (None, raise (wrong_argument OT_STRING ob) v))
   }"

section \<open>The stack\<close>

text \<open>The assertions of the debug build stop the program.\<close>

definition lv_pop :: "int \<Rightarrow> vm \<Rightarrow> vm option" where
  "lv_pop n v = (if v_top v < n \<or> n < 0 then None else PopN (nat n) v)"

definition lv_poptop :: "vm \<Rightarrow> vm option" where
  "lv_poptop v = (if v_top v < 1 then None else Pop v)"

fun push_nulls :: "nat \<Rightarrow> vm \<Rightarrow> vm option" where
  "push_nulls 0 v = Some v"
| "push_nulls (Suc n) v = do { v \<leftarrow> lv_pushnull v; push_nulls n v }"

definition lv_settop :: "int \<Rightarrow> vm \<Rightarrow> vm option" where
  "lv_settop newtop v =
     (let t = lv_gettop v in if t > newtop then lv_pop (t - newtop) v else push_nulls (nat (newtop - t)) v)"

definition lv_remove :: "int \<Rightarrow> vm \<Rightarrow> vm option" where "lv_remove idx v = Remove idx v"

definition lv_cmp :: "callfn \<Rightarrow> vm \<Rightarrow> (int \<times> vm) option" where
  "lv_cmp call v = do {
     a \<leftarrow> stack_get v (- 1);
     b \<leftarrow> stack_get v (- 2);
     (r, v) \<leftarrow> vm_ObjCmp call a b v;
     (case r of Some r \<Rightarrow> Some (r, v) | None \<Rightarrow> None)
   }"

section \<open>Creating objects\<close>

definition lv_newtableex :: "int \<Rightarrow> vm \<Rightarrow> vm option" where
  "lv_newtableex initialcapacity v = do {
     (a, v) \<leftarrow> alloc (HTable (table_create (nat initialcapacity))) v;
     Push (ORef RTable a) v
   }"

definition lv_newtable :: "vm \<Rightarrow> vm option" where "lv_newtable v = lv_newtableex 0 v"

definition lv_newarray :: "int \<Rightarrow> vm \<Rightarrow> vm option" where
  "lv_newarray n v =
     (if n < 0 then None
      else do { t \<leftarrow> array_Create (nat n); (a, v) \<leftarrow> alloc (HArray t) v; Push (ORef RArray a) v })"

definition lv_newclass :: "bool \<Rightarrow> vm \<Rightarrow> bres" where
  "lv_newclass hasbase v =
     (if hasbase then do {
        base \<leftarrow> stack_get v (- 1);
        (case base of
           ORef RClass b \<Rightarrow> do { (a, v) \<leftarrow> class_create (Some b) v; v \<leftarrow> Pop v; push_ok (ORef RClass a) v }
         | _ \<Rightarrow> lv_throwerror ''invalid base type'' v)
      } else do { (a, v) \<leftarrow> class_create None v; push_ok (ORef RClass a) v })"

text \<open>The free variables come from the stack, the first from the top.\<close>

fun take_free :: "nat \<Rightarrow> vm \<Rightarrow> (lvobj list \<times> vm) option" where
  "take_free 0 v = Some ([], v)"
| "take_free (Suc n) v = do { x \<leftarrow> Top v; v \<leftarrow> Pop v; (xs, v) \<leftarrow> take_free n v; Some (x # xs, v) }"

definition lv_newclosure :: "u64 \<Rightarrow> nat \<Rightarrow> vm \<Rightarrow> vm option" where
  "lv_newclosure func nfreevars v = do {
     (a, v) \<leftarrow> alloc (HNative (native_create func)) v;
     (xs, v) \<leftarrow> take_free nfreevars v;
     Push (ORef RNativeClosure a) (put a (HNative ((native_create func)\<lparr>n_outervalues := xs\<rparr>)) v)
   }"

section \<open>Arrays\<close>

definition with_array :: "int \<Rightarrow> (u64 \<Rightarrow> lvarray \<Rightarrow> vm \<Rightarrow> bres) \<Rightarrow> vm \<Rightarrow> bres" where
  "with_array idx f = getsafe idx OT_ARRAY (with_addr (\<lambda>a v. do { t \<leftarrow> get_array v a; f a t v }))"

definition put_array :: "u64 \<Rightarrow> lvarray \<Rightarrow> vm \<Rightarrow> vm" where "put_array a t v = put a (HArray t) v"

definition lv_arrayappend :: "int \<Rightarrow> vm \<Rightarrow> bres" where
  "lv_arrayappend idx = paramscheck 2 (with_array idx (\<lambda>a t v. do {
     x \<leftarrow> GetUp (- 1) v;
     t \<leftarrow> array_Append x t;
     pop_ok 1 (put_array a t v)
   }))"

definition lv_arraypop :: "int \<Rightarrow> bool \<Rightarrow> vm \<Rightarrow> bres" where
  "lv_arraypop idx pushval = paramscheck 1 (with_array idx (\<lambda>a t v.
     if vsize t > 0 then do {
       x \<leftarrow> vec_top t;
       v \<leftarrow> (if pushval then Push x v else Some v);
       t \<leftarrow> array_Pop t;
       ok (put_array a t v)
     } else lv_throwerror ''empty array'' v))"

definition lv_arrayresize :: "int \<Rightarrow> int \<Rightarrow> vm \<Rightarrow> bres" where
  "lv_arrayresize idx newsize = paramscheck 1 (with_array idx (\<lambda>a t v.
     if newsize \<ge> 0 then do { t \<leftarrow> array_Resize (nat newsize) ONull t; ok (put_array a t v) }
     else lv_throwerror ''negative size'' v))"

text \<open>The loop of \<open>lv_arrayreverse\<close> swaps \<open>n\<close> pairs from the ends.\<close>

fun swap_ends :: "nat \<Rightarrow> nat \<Rightarrow> nat \<Rightarrow> lvobj list \<Rightarrow> lvobj list" where
  "swap_ends i 0 hi xs = xs"
| "swap_ends i (Suc n) hi xs = swap_ends (Suc i) n hi (xs[i := xs ! (hi - i), hi - i := xs ! i])"

definition lv_arrayreverse :: "int \<Rightarrow> vm \<Rightarrow> bres" where
  "lv_arrayreverse idx = paramscheck 1 (with_array idx (\<lambda>a t v.
     if vsize t > 0 then
       ok (put_array a (t\<lparr>vvals := swap_ends 0 (vsize t div 2) (vsize t - 1) (vvals t)\<rparr>) v)
     else ok v))"

definition lv_arrayremove :: "int \<Rightarrow> int \<Rightarrow> vm \<Rightarrow> bres" where
  "lv_arrayremove idx itemidx = paramscheck 1 (with_array idx (\<lambda>a t v. do {
     (b, t) \<leftarrow> array_Remove itemidx t;
     if b then ok (put_array a t v) else lv_throwerror ''index out of range'' (put_array a t v)
   }))"

definition lv_arrayinsert :: "int \<Rightarrow> int \<Rightarrow> vm \<Rightarrow> bres" where
  "lv_arrayinsert idx destpos = paramscheck 1 (with_array idx (\<lambda>a t v. do {
     x \<leftarrow> GetUp (- 1) v;
     (b, t) \<leftarrow> array_Insert destpos x t;
     (r, v) \<leftarrow> (if b then ok (put_array a t v) else lv_throwerror ''index out of range'' (put_array a t v));
     v \<leftarrow> Pop v;
     Some (r, v)
   }))"

definition lv_clear :: "int \<Rightarrow> vm \<Rightarrow> bres" where
  "lv_clear idx v = do {
     ob \<leftarrow> stack_get v idx;
     (case ob of
        ORef RTable a \<Rightarrow> do { t \<leftarrow> get_table v a; t \<leftarrow> table_Clear t; ok (put_table a t v) }
      | ORef RArray a \<Rightarrow> do { t \<leftarrow> get_array v a; t \<leftarrow> array_Resize 0 ONull t; ok (put_array a t v) }
      | _ \<Rightarrow> lv_throwerror ''clear only works on table and array'' v)
   }"

text \<open>The sizes of the data the host keeps with an object are a parameter.\<close>

definition lv_getsize :: "(lvobj \<Rightarrow> int) \<Rightarrow> int \<Rightarrow> vm \<Rightarrow> (int \<times> vm) option" where
  "lv_getsize udsize idx v = do {
     ob \<leftarrow> stack_get v idx;
     (case ob of
        OString str \<Rightarrow> Some (int (length str), v)
      | ORef RTable a \<Rightarrow> do { t \<leftarrow> get_table v a; Some (table_CountUsed t, v) }
      | ORef RArray a \<Rightarrow> do { t \<leftarrow> get_array v a; Some (int (vsize t), v) }
      | ORef RUserData a \<Rightarrow> Some (udsize ob, v)
      | ORef RInstance a \<Rightarrow> Some (udsize ob, v)
      | ORef RClass a \<Rightarrow> Some (udsize ob, v)
      | _ \<Rightarrow> do { (_, v) \<leftarrow> aux_invalidtype (otype ob) v; Some (- 1, v) })
   }"

definition lv_gethash :: "int \<Rightarrow> vm \<Rightarrow> u64 option" where
  "lv_gethash idx v = map_option HashObj (stack_get v idx)"

end
