(* ===== verification/Embedding_Objects.thy ===== *)
theory Embedding_Objects
  imports Embedding Compile_Stmt
begin

text \<open>
  The rest of the host's interface (\<^verbatim>\<open>src/api.cpp\<close>): slots, members and delegates, closures, calls, compiled
  functions. Calls back into the machine go through the argument \<open>call\<close>.
\<close>

section \<open>Values\<close>

definition out_obj :: "lvobj option \<Rightarrow> lvobj" where
  "out_obj x = (case x of Some y \<Rightarrow> y | None \<Rightarrow> ONull)"

definition push_result :: "dres \<Rightarrow> bres" where
  "push_result r = do { (b, out, v) \<leftarrow> r; if b then push_ok (out_obj out) v else Some (False, v) }"

definition lv_typeof :: "callfn \<Rightarrow> int \<Rightarrow> vm \<Rightarrow> bres" where
  "lv_typeof call idx v = do { ob \<leftarrow> stack_get v idx; push_result (TypeOf call ob v) }"

definition lv_tostring :: "callfn \<Rightarrow> int \<Rightarrow> vm \<Rightarrow> bres" where
  "lv_tostring call idx v = do { ob \<leftarrow> stack_get v idx; push_result (ToString call ob v) }"

definition lv_clone :: "callfn \<Rightarrow> int \<Rightarrow> vm \<Rightarrow> bres" where
  "lv_clone call idx v = do {
     ob \<leftarrow> stack_get v idx;
     v \<leftarrow> PushNull v;
     (b, out, v) \<leftarrow> vm_Clone call ob v;
     if b then do { v \<leftarrow> stack_put (- 1) (out_obj out) v; ok v }
     else do { v \<leftarrow> Pop v; Some (False, v) }
   }"

definition lv_weakref :: "int \<Rightarrow> vm \<Rightarrow> vm option" where
  "lv_weakref idx v = do {
     ob \<leftarrow> stack_get v idx;
     if is_refcounted_obj ob then do { (w, v) \<leftarrow> GetWeakRef ob v; Push w v } else Push ob v
   }"

definition lv_getweakrefval :: "int \<Rightarrow> vm \<Rightarrow> bres" where
  "lv_getweakrefval idx v = do {
     ob \<leftarrow> stack_get v idx;
     (case ob of
        ORef RWeakRef w \<Rightarrow> push_ok (weak_of v w) v
      | _ \<Rightarrow> lv_throwerror ''the object must be a weakref'' v)
   }"

text \<open>An error is returned as the truth value \<open>LV_ERROR\<close>.\<close>

definition lv_instanceof :: "vm \<Rightarrow> (u64 \<times> vm) option" where
  "lv_instanceof v = do {
     inst \<leftarrow> stack_get v (- 1);
     cl \<leftarrow> stack_get v (- 2);
     (case (inst, cl) of
        (ORef RInstance i, ORef RClass c) \<Rightarrow> do { b \<leftarrow> InstanceOf i c v; Some (if b then 1 else 0, v) }
      | _ \<Rightarrow> Some (- 1, raise (EMsg ''invalid param type'') v))
   }"

section \<open>Slots\<close>

definition null_key :: "string \<Rightarrow> (vm \<Rightarrow> bres) \<Rightarrow> lvobj \<Rightarrow> vm \<Rightarrow> bres" where
  "null_key err f key v = (if key = ONull then lv_throwerror err v else f v)"

text \<open>The result of \<open>NewSlot\<close> is not looked at.\<close>

definition lv_newslot :: "callfn \<Rightarrow> int \<Rightarrow> bool \<Rightarrow> vm \<Rightarrow> bres" where
  "lv_newslot call idx bstatic = paramscheck 3 (\<lambda>v. do {
     self \<leftarrow> stack_get v idx;
     if otype self = OT_TABLE \<or> otype self = OT_CLASS then do {
       key \<leftarrow> GetUp (- 2) v;
       null_key ''null is not a valid key'' (\<lambda>v. do {
         val \<leftarrow> GetUp (- 1) v;
         (_, v) \<leftarrow> vm_NewSlot call self key val bstatic v;
         pop_ok 2 v
       }) key v
     } else ok v
   })"

definition lv_deleteslot :: "callfn \<Rightarrow> int \<Rightarrow> bool \<Rightarrow> vm \<Rightarrow> bres" where
  "lv_deleteslot call idx pushval = paramscheck 2 (getsafe idx OT_TABLE (\<lambda>self v. do {
     key \<leftarrow> GetUp (- 1) v;
     null_key ''null is not a valid key'' (\<lambda>v. do {
       (b, out, v) \<leftarrow> vm_DeleteSlot call self key v;
       if \<not> b then do { v \<leftarrow> Pop v; Some (False, v) }
       else if pushval then do { v \<leftarrow> stack_put (- 1) (out_obj out) v; ok v }
       else pop_ok 1 v
     }) key v
   }))"

definition lv_set :: "callfn \<Rightarrow> int \<Rightarrow> vm \<Rightarrow> bres" where
  "lv_set call idx v = do {
     self \<leftarrow> stack_get v idx;
     key \<leftarrow> GetUp (- 2) v;
     val \<leftarrow> GetUp (- 1) v;
     (b, v) \<leftarrow> vm_Set call self key val DONT_FALL_BACK v;
     if b then pop_ok 2 v else Some (False, v)
   }"

text \<open>What \<open>lv_rawset\<close> does to each kind of object: whether it stored the value.\<close>

definition raw_store :: "callfn \<Rightarrow> lvobj \<Rightarrow> lvobj \<Rightarrow> lvobj \<Rightarrow> vm \<Rightarrow> bres option" where
  "raw_store call self key val v =
     (case self of
        ORef RTable a \<Rightarrow> Some (do { t \<leftarrow> get_table v a; (_, t) \<leftarrow> table_NewSlot t key val; ok (put_table a t v) })
      | ORef RClass a \<Rightarrow> Some (do { (_, v) \<leftarrow> class_NewSlot a key val False v; ok v })
      | ORef RInstance a \<Rightarrow> Some (instance_Set a key val v)
      | ORef RArray a \<Rightarrow> Some (vm_Set call self key val 0 v)
      | _ \<Rightarrow> None)"

definition lv_rawset :: "callfn \<Rightarrow> int \<Rightarrow> vm \<Rightarrow> bres" where
  "lv_rawset call idx v = do {
     self \<leftarrow> stack_get v idx;
     key \<leftarrow> GetUp (- 2) v;
     val \<leftarrow> GetUp (- 1) v;
     if key = ONull then pop_throw 2 ''null key'' v
     else (case raw_store call self key val v of
        None \<Rightarrow> pop_throw 2 ''rawset works only on array/table/class and instance'' v
      | Some r \<Rightarrow> do {
          (b, v) \<leftarrow> r;
          if b then pop_ok 2 v else do { k \<leftarrow> GetUp (- 2) v; bfail (EIdx k) v }
        })
   }"

definition lv_newmember_at :: "callfn \<Rightarrow> bool \<Rightarrow> int \<Rightarrow> bool \<Rightarrow> vm \<Rightarrow> bres" where
  "lv_newmember_at call raw idx bstatic v = do {
     self \<leftarrow> stack_get v idx;
     if otype self \<noteq> OT_CLASS then lv_throwerror ''new member only works with classes'' v
     else do {
       key \<leftarrow> GetUp (- 3) v;
       null_key ''null key'' (\<lambda>v. do {
         val \<leftarrow> GetUp (- 2) v;
         attrs \<leftarrow> GetUp (- 1) v;
         vm_NewSlotA call self key val attrs bstatic raw v
       }) key v
     }
   }"

definition lv_newmember :: "callfn \<Rightarrow> int \<Rightarrow> bool \<Rightarrow> vm \<Rightarrow> bres" where
  "lv_newmember call idx bstatic v = lv_newmember_at call False idx bstatic v"

definition lv_rawnewmember :: "callfn \<Rightarrow> int \<Rightarrow> bool \<Rightarrow> vm \<Rightarrow> bres" where
  "lv_rawnewmember call idx bstatic v = lv_newmember_at call True idx bstatic v"

definition lv_rawdeleteslot :: "int \<Rightarrow> bool \<Rightarrow> vm \<Rightarrow> bres" where
  "lv_rawdeleteslot idx pushval = paramscheck 2 (getsafe idx OT_TABLE (with_addr (\<lambda>a v. do {
     key \<leftarrow> GetUp (- 1) v;
     t \<leftarrow> get_table v a;
     r \<leftarrow> table_Get (weak_of v) t key;
     v \<leftarrow> (case r of None \<Rightarrow> Some v | Some _ \<Rightarrow> do { t \<leftarrow> table_Remove t key; Some (put_table a t v) });
     if pushval then do { v \<leftarrow> stack_put (- 1) (out_obj r) v; ok v } else pop_ok 1 v
   })))"

definition lv_get :: "callfn \<Rightarrow> int \<Rightarrow> vm \<Rightarrow> bres" where
  "lv_get call idx v = do {
     self \<leftarrow> stack_get v idx;
     key \<leftarrow> GetUp (- 1) v;
     (b, out, v) \<leftarrow> vm_Get call self key 0 DONT_FALL_BACK v;
     if b then do { v \<leftarrow> stack_put (- 1) (out_obj out) v; ok v } else do { v \<leftarrow> Pop v; Some (False, v) }
   }"

definition raw_load :: "lvobj \<Rightarrow> lvobj \<Rightarrow> vm \<Rightarrow> (string + lvobj option) option" where
  "raw_load self key v =
     (case self of
        ORef RTable a \<Rightarrow> map_option Inr (table_lookup v a key)
      | ORef RClass a \<Rightarrow> map_option Inr (class_Get a key v)
      | ORef RInstance a \<Rightarrow> map_option Inr (instance_Get a key v)
      | ORef RArray a \<Rightarrow>
          if is_number key then do { t \<leftarrow> get_array v a; Some (Inr (array_Get (weak_of v) t (sint (tointeger key)))) }
          else Some (Inl ''invalid index type for an array'')
      | _ \<Rightarrow> Some (Inl ''rawget works only on array/table/instance and class''))"

definition lv_rawget :: "int \<Rightarrow> vm \<Rightarrow> bres" where
  "lv_rawget idx v = do {
     self \<leftarrow> stack_get v idx;
     key \<leftarrow> GetUp (- 1) v;
     r \<leftarrow> raw_load self key v;
     (case r of
        Inl err \<Rightarrow> pop_throw 1 err v
      | Inr None \<Rightarrow> pop_throw 1 (''the index doesn'' @ [CHR 0x27] @ ''t exist'') v
      | Inr (Some x) \<Rightarrow> do { v \<leftarrow> stack_put (- 1) x v; ok v })
   }"

section \<open>Delegates\<close>

definition lv_setdelegate :: "int \<Rightarrow> vm \<Rightarrow> bres" where
  "lv_setdelegate idx v = do {
     self \<leftarrow> stack_get v idx;
     mt \<leftarrow> GetUp (- 1) v;
     (case (self, mt) of
        (ORef RTable a, ORef RTable m) \<Rightarrow> do {
          (b, v) \<leftarrow> SetDelegate self (Some m) v;
          if b then pop_ok 1 v else lv_throwerror ''delagate cycle'' v
        }
      | (ORef RTable a, ONull) \<Rightarrow> do { (_, v) \<leftarrow> SetDelegate self None v; pop_ok 1 v }
      | (ORef RUserData a, ORef RTable m) \<Rightarrow> do { (_, v) \<leftarrow> SetDelegate self (Some m) v; pop_ok 1 v }
      | (ORef RUserData a, ONull) \<Rightarrow> do { (_, v) \<leftarrow> SetDelegate self None v; pop_ok 1 v }
      | _ \<Rightarrow> aux_invalidtype (otype self) v)
   }"

definition lv_getdelegate :: "int \<Rightarrow> vm \<Rightarrow> bres" where
  "lv_getdelegate idx v = do {
     self \<leftarrow> stack_get v idx;
     if otype self = OT_TABLE \<or> otype self = OT_USERDATA then do {
       d \<leftarrow> delegate_of v self;
       push_ok (case d of None \<Rightarrow> ONull | Some a \<Rightarrow> ORef RTable a) v
     } else lv_throwerror ''wrong type'' v
   }"

text \<open>The type whose entry of the default delegates is pushed.\<close>

definition lv_getdefaultdelegate :: "ltype \<Rightarrow> vm \<Rightarrow> bres" where
  "lv_getdefaultdelegate ty v =
     (case (if ty = OT_BOOL then None else ddel_of ty) of
        Some k \<Rightarrow> push_ok (case v_ddel v k of None \<Rightarrow> ONull | Some a \<Rightarrow> ORef RTable a) v
      | None \<Rightarrow> lv_throwerror (''the type doesn'' @ [CHR 0x27] @ ''t have a default delegate'') v)"

section \<open>Closures\<close>

definition lv_getclosureinfo :: "int \<Rightarrow> vm \<Rightarrow> ((u64 \<times> u64) option \<times> vm) option" where
  "lv_getclosureinfo idx v = do {
     ob \<leftarrow> stack_get v idx;
     (case ob of
        ORef RClosure a \<Rightarrow> do {
          c \<leftarrow> get_closure v a;
          f \<leftarrow> get_proto v (c_function c);
          Some (Some (of_nat (length (p_parameters f)), of_nat (length (p_outervalues f))), v)
        }
      | ORef RNativeClosure a \<Rightarrow> do {
          c \<leftarrow> get_native v a;
          Some (Some (of_int (n_nparamscheck c), of_nat (length (n_outervalues c))), v)
        }
      | _ \<Rightarrow> Some (None, raise (EMsg ''the object is not a closure'') v))
   }"

definition lv_setnativeclosurename :: "int \<Rightarrow> string \<Rightarrow> vm \<Rightarrow> bres" where
  "lv_setnativeclosurename idx name v = do {
     ob \<leftarrow> stack_get v idx;
     (case ob of
        ORef RNativeClosure a \<Rightarrow> do {
          c \<leftarrow> get_native v a;
          ok (put a (HNative (c\<lparr>n_name := OString (c_string name)\<rparr>)) v)
        }
      | _ \<Rightarrow> lv_throwerror ''the object is not a nativeclosure'' v)
   }"

definition LV_MATCHTYPEMASKSTRING :: int where "LV_MATCHTYPEMASKSTRING = - 99999"

definition lv_setparamscheck :: "int \<Rightarrow> string option \<Rightarrow> vm \<Rightarrow> bres" where
  "lv_setparamscheck nparamscheck typemask v = do {
     ob \<leftarrow> stack_get v (- 1);
     (case ob of
        ORef RNativeClosure a \<Rightarrow> do {
          c \<leftarrow> get_native v a;
          let c = c\<lparr>n_nparamscheck := nparamscheck\<rparr>;
          (case (case typemask of None \<Rightarrow> Some [] | Some m \<Rightarrow> CompileTypemask m) of
             None \<Rightarrow> lv_throwerror ''invalid typemask'' (put a (HNative c) v)
           | Some ms \<Rightarrow>
               ok (put a (HNative (c\<lparr>n_typecheck := ms,
                 n_nparamscheck := (if nparamscheck = LV_MATCHTYPEMASKSTRING then int (length ms) else nparamscheck)\<rparr>)) v))
        }
      | _ \<Rightarrow> lv_throwerror ''native closure expected'' v)
   }"

definition native_Clone :: "u64 \<Rightarrow> vm \<Rightarrow> (u64 \<times> vm) option" where
  "native_Clone a v = do { c \<leftarrow> get_native v a; alloc (HNative c) v }"

definition lv_bindenv :: "int \<Rightarrow> vm \<Rightarrow> bres" where
  "lv_bindenv idx v = do {
     ob \<leftarrow> stack_get v idx;
     if \<not> is_function ob then lv_throwerror ''the target is not a closure'' v
     else do {
       env \<leftarrow> stack_get v (- 1);
       if otype env \<notin> {OT_TABLE, OT_ARRAY, OT_CLASS, OT_INSTANCE} then lv_throwerror ''invalid environment'' v
       else do {
         (w, v) \<leftarrow> GetWeakRef env v;
         (r, v) \<leftarrow> (case ob of
             ORef RClosure a \<Rightarrow> do {
               c \<leftarrow> get_closure v a;
               (b, v) \<leftarrow> closure_Clone a v;
               k \<leftarrow> get_closure v b;
               Some (ORef RClosure b, put b (HClosure (k\<lparr>c_env := Some (raw_word w), c_base := c_base c\<rparr>)) v)
             }
           | ORef _ a \<Rightarrow> do {
               (b, v) \<leftarrow> native_Clone a v;
               k \<leftarrow> get_native v b;
               Some (ORef RNativeClosure b, put b (HNative (k\<lparr>n_env := Some (raw_word w)\<rparr>)) v)
             }
           | _ \<Rightarrow> None);
         v \<leftarrow> Pop v;
         push_ok r v
       }
     }
   }"

definition lv_getclosurename :: "int \<Rightarrow> vm \<Rightarrow> bres" where
  "lv_getclosurename idx v = do {
     ob \<leftarrow> stack_get v idx;
     (case ob of
        ORef RNativeClosure a \<Rightarrow> do { c \<leftarrow> get_native v a; push_ok (n_name c) v }
      | ORef RClosure a \<Rightarrow> do { c \<leftarrow> get_closure v a; f \<leftarrow> get_proto v (c_function c); push_ok (p_name f) v }
      | _ \<Rightarrow> lv_throwerror ''the target is not a closure'' v)
   }"

definition lv_setclosureroot :: "int \<Rightarrow> vm \<Rightarrow> bres" where
  "lv_setclosureroot idx v = do {
     c \<leftarrow> stack_get v idx;
     ob \<leftarrow> stack_get v (- 1);
     (case c of
        ORef RClosure a \<Rightarrow>
          if otype ob = OT_TABLE then do {
            (w, v) \<leftarrow> GetWeakRef ob v;
            k \<leftarrow> get_closure v a;
            pop_ok 1 (put a (HClosure (k\<lparr>c_root := Some (raw_word w)\<rparr>)) v)
          } else lv_throwerror ''ivalid type'' v
      | _ \<Rightarrow> lv_throwerror ''closure expected'' v)
   }"

definition lv_getclosureroot :: "int \<Rightarrow> vm \<Rightarrow> bres" where
  "lv_getclosureroot idx v = do {
     c \<leftarrow> stack_get v idx;
     (case c of
        ORef RClosure a \<Rightarrow> do { k \<leftarrow> get_closure v a; w \<leftarrow> c_root k; push_ok (weak_of v w) v }
      | _ \<Rightarrow> lv_throwerror ''closure expected'' v)
   }"

definition lv_getcallee :: "vm \<Rightarrow> bres" where
  "lv_getcallee v =
     (case v_calls v of
        c # d # cs \<Rightarrow> push_ok (ci_closure d) v
      | _ \<Rightarrow> lv_throwerror ''no closure in the calls stack'' v)"

text \<open>The name of the variable, when there is one, and its value pushed.\<close>

definition lv_getfreevariable :: "int \<Rightarrow> nat \<Rightarrow> vm \<Rightarrow> (string option \<times> vm) option" where
  "lv_getfreevariable idx n v = do {
     self \<leftarrow> stack_get v idx;
     (case self of
        ORef RClosure a \<Rightarrow> do {
          c \<leftarrow> get_closure v a;
          f \<leftarrow> get_proto v (c_function c);
          if n < length (p_outervalues f) then do {
            ob \<leftarrow> nth_opt (c_outervalues c) n;
            x \<leftarrow> (case ob of ORef ROuter p \<Rightarrow> outer_get v p | _ \<Rightarrow> None);
            v \<leftarrow> Push x v;
            (case ov_name (p_outervalues f ! n) of OString str \<Rightarrow> Some (Some str, v) | _ \<Rightarrow> None)
          } else Some (None, v)
        }
      | ORef RNativeClosure a \<Rightarrow> do {
          c \<leftarrow> get_native v a;
          if n < length (n_outervalues c) then do { v \<leftarrow> Push (n_outervalues c ! n) v; Some (Some ''@NATIVE'', v) }
          else Some (None, v)
        }
      | _ \<Rightarrow> Some (None, v))
   }"

definition lv_setfreevariable :: "int \<Rightarrow> nat \<Rightarrow> vm \<Rightarrow> bres" where
  "lv_setfreevariable idx n v = do {
     self \<leftarrow> stack_get v idx;
     x \<leftarrow> stack_get v (- 1);
     (case self of
        ORef RClosure a \<Rightarrow> do {
          c \<leftarrow> get_closure v a;
          f \<leftarrow> get_proto v (c_function c);
          if n < length (p_outervalues f) then do {
            ob \<leftarrow> nth_opt (c_outervalues c) n;
            v \<leftarrow> (case ob of ORef ROuter p \<Rightarrow> outer_set p x v | _ \<Rightarrow> None);
            pop_ok 1 v
          } else lv_throwerror ''invalid free var index'' v
        }
      | ORef RNativeClosure a \<Rightarrow> do {
          c \<leftarrow> get_native v a;
          if n < length (n_outervalues c)
          then pop_ok 1 (put a (HNative (c\<lparr>n_outervalues := (n_outervalues c)[n := x]\<rparr>)) v)
          else lv_throwerror ''invalid free var index'' v
        }
      | _ \<Rightarrow> aux_invalidtype (otype self) v)
   }"

section \<open>Classes\<close>

definition with_class :: "int \<Rightarrow> (u64 \<Rightarrow> lvclass \<Rightarrow> vm \<Rightarrow> bres) \<Rightarrow> vm \<Rightarrow> bres" where
  "with_class idx f = getsafe idx OT_CLASS (with_addr (\<lambda>a v. do { c \<leftarrow> get_class v a; f a c v }))"

definition lv_setattributes :: "int \<Rightarrow> vm \<Rightarrow> bres" where
  "lv_setattributes idx = with_class idx (\<lambda>a c v. do {
     key \<leftarrow> stack_get v (- 2);
     val \<leftarrow> stack_get v (- 1);
     if key = ONull then do {
       v \<leftarrow> PopN 2 (put a (HClass (c\<lparr>cl_attributes := val\<rparr>)) v);
       push_ok (cl_attributes c) v
     } else do {
       r \<leftarrow> class_GetAttributes a key v;
       (case r of
          Some attrs \<Rightarrow> do { (_, v) \<leftarrow> class_SetAttributes a key val v; v \<leftarrow> PopN 2 v; push_ok attrs v }
        | None \<Rightarrow> lv_throwerror ''wrong index'' v)
     }
   })"

definition lv_getattributes :: "int \<Rightarrow> vm \<Rightarrow> bres" where
  "lv_getattributes idx = with_class idx (\<lambda>a c v. do {
     key \<leftarrow> stack_get v (- 1);
     if key = ONull then do { v \<leftarrow> Pop v; push_ok (cl_attributes c) v }
     else do {
       r \<leftarrow> class_GetAttributes a key v;
       (case r of
          Some attrs \<Rightarrow> do { v \<leftarrow> Pop v; push_ok attrs v }
        | None \<Rightarrow> lv_throwerror ''wrong index'' v)
     }
   })"

record memberhandle =
  mh_static :: bool
  mh_index :: nat

definition lv_getmemberhandle :: "int \<Rightarrow> vm \<Rightarrow> (memberhandle option \<times> vm) option" where
  "lv_getmemberhandle idx v = do {
     ob \<leftarrow> stack_get v idx;
     (case ob of
        ORef RClass a \<Rightarrow> do {
          c \<leftarrow> get_class v a;
          key \<leftarrow> stack_get v (- 1);
          r \<leftarrow> members_get v c key;
          (case r of
             Some x \<Rightarrow> do { v \<leftarrow> Pop v; Some (Some \<lparr>mh_static = (\<not> isfield x), mh_index = member_idx x\<rparr>, v) }
           | None \<Rightarrow> Some (None, raise (EMsg ''wrong index'') v))
        }
      | _ \<Rightarrow> Some (None, raise (wrong_argument OT_CLASS ob) v))
   }"

text \<open>
  The member a handle selects: read, and replaced. An index outside the members is an access outside; the inner
  \<open>None\<close> is an object that is no class and no instance.
\<close>

definition handle_get :: "lvobj \<Rightarrow> memberhandle \<Rightarrow> vm \<Rightarrow> lvobj option option" where
  "handle_get self h v =
     (case self of
        ORef RInstance a \<Rightarrow> do {
          i \<leftarrow> get_instance v a;
          (if mh_static h then do {
             c \<leftarrow> get_class v (in_class i); m \<leftarrow> nth_opt (cl_methods c) (mh_index h); Some (Some (m_val m))
           } else map_option Some (nth_opt (in_values i) (mh_index h)))
        }
      | ORef RClass a \<Rightarrow> do {
          c \<leftarrow> get_class v a;
          m \<leftarrow> nth_opt (if mh_static h then cl_methods c else cl_defaultvalues c) (mh_index h);
          Some (Some (m_val m))
        }
      | _ \<Rightarrow> Some None)"

definition put_member :: "u64 \<Rightarrow> memberhandle \<Rightarrow> lvobj \<Rightarrow> vm \<Rightarrow> vm option" where
  "put_member a h x v = do {
     c \<leftarrow> get_class v a;
     (if mh_static h then do {
        ms \<leftarrow> upd_opt (mh_index h) (\<lambda>m. m\<lparr>m_val := x\<rparr>) (cl_methods c);
        Some (put a (HClass (c\<lparr>cl_methods := ms\<rparr>)) v)
      } else do {
        ms \<leftarrow> upd_opt (mh_index h) (\<lambda>m. m\<lparr>m_val := x\<rparr>) (cl_defaultvalues c);
        Some (put a (HClass (c\<lparr>cl_defaultvalues := ms\<rparr>)) v)
      })
   }"

definition handle_put :: "lvobj \<Rightarrow> memberhandle \<Rightarrow> lvobj \<Rightarrow> vm \<Rightarrow> vm option option" where
  "handle_put self h x v =
     (case self of
        ORef RInstance a \<Rightarrow> do {
          i \<leftarrow> get_instance v a;
          (if mh_static h then map_option Some (put_member (in_class i) h x v)
           else do {
             ys \<leftarrow> upd_opt (mh_index h) (\<lambda>_. x) (in_values i);
             Some (Some (put a (HInstance (i\<lparr>in_values := ys\<rparr>)) v))
           })
        }
      | ORef RClass a \<Rightarrow> map_option Some (put_member a h x v)
      | _ \<Rightarrow> Some None)"

definition bad_handle :: "vm \<Rightarrow> bres" where
  "bad_handle v = lv_throwerror ''wrong type(expected class or instance)'' v"

definition lv_getbyhandle :: "int \<Rightarrow> memberhandle \<Rightarrow> vm \<Rightarrow> bres" where
  "lv_getbyhandle idx h v = do {
     self \<leftarrow> stack_get v idx;
     r \<leftarrow> handle_get self h v;
     (case r of None \<Rightarrow> bad_handle v | Some x \<Rightarrow> push_ok (realval (weak_of v) x) v)
   }"

definition lv_setbyhandle :: "int \<Rightarrow> memberhandle \<Rightarrow> vm \<Rightarrow> bres" where
  "lv_setbyhandle idx h v = do {
     self \<leftarrow> stack_get v idx;
     x \<leftarrow> stack_get v (- 1);
     r \<leftarrow> handle_put self h x v;
     (case r of None \<Rightarrow> bad_handle v | Some v \<Rightarrow> pop_ok 1 v)
   }"

definition lv_getbase :: "int \<Rightarrow> vm \<Rightarrow> bres" where
  "lv_getbase idx = with_class idx (\<lambda>a c v.
     push_ok (case cl_base c of Some b \<Rightarrow> ORef RClass b | None \<Rightarrow> ONull) v)"

definition lv_getclass :: "int \<Rightarrow> vm \<Rightarrow> bres" where
  "lv_getclass idx = getsafe idx OT_INSTANCE (with_addr (\<lambda>a v. do {
     i \<leftarrow> get_instance v a; push_ok (ORef RClass (in_class i)) v }))"

definition lv_createinstance :: "int \<Rightarrow> vm \<Rightarrow> bres" where
  "lv_createinstance idx = with_class idx (\<lambda>a c v. do {
     (i, v) \<leftarrow> class_CreateInstance a v; push_ok (ORef RInstance i) v })"

section \<open>Calls\<close>

definition lv_call :: "callfn \<Rightarrow> nat \<Rightarrow> bool \<Rightarrow> bool \<Rightarrow> vm \<Rightarrow> bres" where
  "lv_call call params retval raiseerror v = do {
     f \<leftarrow> GetUp (- (int params + 1)) v;
     (b, out, v) \<leftarrow> call f (int params) (v_top v - int params) raiseerror v;
     if b then do {
       v \<leftarrow> (if \<not> v_suspended v then PopN params v else Some v);
       if retval then push_ok (out_obj out) v else ok v
     } else do { v \<leftarrow> PopN params v; Some (False, v) }
   }"

definition lv_resume :: "nat \<Rightarrow> nativefn \<Rightarrow> callfn \<Rightarrow> bool \<Rightarrow> bool \<Rightarrow> vm \<Rightarrow> bres" where
  "lv_resume n native call retval raiseerror v = do {
     g \<leftarrow> GetUp (- 1) v;
     if otype g = OT_GENERATOR then do {
       v \<leftarrow> PushNull v;
       let outpos = v_top v - 1;
       (b, out, v) \<leftarrow> vm_Execute n native call ET_RESUME_GENERATOR g 0 (v_top v) outpos raiseerror v;
       if \<not> b then Some (False, v)
       else do {
         v \<leftarrow> set_stack outpos (out_obj out) v;
         if \<not> retval then pop_ok 1 v else ok v
       }
     } else lv_throwerror ''only generators can be resumed'' v
   }"

text \<open>\<open>LVVM::Suspend\<close>: the result of a native function that suspends the machine.\<close>

definition lv_suspendvm :: "vm \<Rightarrow> int \<times> vm" where
  "lv_suspendvm v =
     (if v_suspended v then (- 1, raise (EMsg ''cannot suspend an already suspended vm'') v)
      else if v_nnative v \<noteq> 2 then (- 1, raise (EMsg ''cannot suspend through native calls/metamethods'') v)
      else (SUSPEND_FLAG, v))"

definition lv_wakeupvm :: "nat \<Rightarrow> nativefn \<Rightarrow> callfn \<Rightarrow> bool \<Rightarrow> bool \<Rightarrow> bool \<Rightarrow> bool \<Rightarrow> vm \<Rightarrow> bres" where
  "lv_wakeupvm n native call wakeupret retval raiseerror throwerror v =
     (if \<not> v_suspended v then lv_throwerror ''cannot resume a vm that is not running any code'' v
      else do {
        let target = v_susp_target v;
        v \<leftarrow> (if wakeupret then do {
                x \<leftarrow> GetUp (- 1) v;
                v \<leftarrow> (if target \<noteq> - 1 then set_stack (v_stackbase v + target) x v else Some v);
                Pop v
              } else if target \<noteq> - 1 then set_stack (v_stackbase v + target) ONull v
              else Some v);
        (b, out, v) \<leftarrow> vm_Execute n native call (if throwerror then ET_RESUME_THROW_VM else ET_RESUME_VM) ONull 0 (- 1) 0
                         raiseerror v;
        if \<not> b then Some (False, v) else if retval then push_ok (out_obj out) v else ok v
      })"

text \<open>The value of a local variable of a frame: the frames below the top one, \<open>level\<close> of them.\<close>

definition lv_getlocal :: "nat \<Rightarrow> nat \<Rightarrow> vm \<Rightarrow> (string option \<times> vm) option" where
  "lv_getlocal level idx v =
     (if length (v_calls v) \<le> level then Some (None, v)
      else do {
        let base = v_stackbase v - sum_list (map ci_prevstkbase (take level (v_calls v)));
        let c = v_calls v ! level;
        (case ci_closure c of
           ORef RClosure a \<Rightarrow> do {
             k \<leftarrow> get_closure v a;
             f \<leftarrow> get_proto v (c_function k);
             if idx < length (p_outervalues f) then do {
               ob \<leftarrow> nth_opt (c_outervalues k) idx;
               x \<leftarrow> (case ob of ORef ROuter p \<Rightarrow> outer_get v p | _ \<Rightarrow> None);
               v \<leftarrow> Push x v;
               (case ov_name (p_outervalues f ! idx) of OString str \<Rightarrow> Some (Some str, v) | _ \<Rightarrow> None)
             } else
               (case GetLocal f (of_nat (idx - length (p_outervalues f))) (of_int (ci_ip c - 1)) of
                  None \<Rightarrow> Some (None, v)
                | Some l \<Rightarrow> do {
                    x \<leftarrow> at_stack v (base + uint (lv_pos l));
                    v \<leftarrow> Push x v;
                    (case lv_name l of OString str \<Rightarrow> Some (Some str, v) | _ \<Rightarrow> None)
                  })
           }
         | _ \<Rightarrow> Some (None, v))
      })"

section \<open>Compiled functions\<close>

text \<open>
  \<open>lv_compile\<close>, with the characters the client's \<open>LVLEXREADFUNC\<close> delivers; the members the constructor of the compiler
  leaves unset are arguments.
\<close>

definition lv_compile ::
  "nat \<Rightarrow> u64 \<Rightarrow> int list \<Rightarrow> lexer \<Rightarrow> expstate \<Rightarrow> int \<Rightarrow> lvobj \<Rightarrow> bool \<Rightarrow> vm \<Rightarrow> bool + bool \<times> vm" where
  "lv_compile n consts input l e t sourcename debuginfo v =
     (case RunCompiler n v consts input l e t sourcename debuginfo of
        Inl fuel \<Rightarrow> Inl fuel
      | Inr (None, v) \<Rightarrow> Inr (False, v)
      | Inr (Some ob, v) \<Rightarrow>
          (case do {
             fa \<leftarrow> child ob;
             (w, v) \<leftarrow> GetWeakRef (v_roottable v) v;
             (a, v) \<leftarrow> LVClosure_Create fa (Some (raw_word w)) v;
             push_ok (ORef RClosure a) v
           } of None \<Rightarrow> Inl False | Some r \<Rightarrow> Inr r))"

text \<open>The characters of a buffer: \<open>buf_lexfeed\<close> delivers the signed bytes, then zero.\<close>

definition buf_lexfeed :: "string \<Rightarrow> int list" where
  "buf_lexfeed s = map (\<lambda>c. sint (byte_of c)) s"

definition lv_compilebuffer ::
  "nat \<Rightarrow> u64 \<Rightarrow> string \<Rightarrow> lexer \<Rightarrow> expstate \<Rightarrow> int \<Rightarrow> lvobj \<Rightarrow> bool \<Rightarrow> vm \<Rightarrow> bool + bool \<times> vm" where
  "lv_compilebuffer n consts s l e t sourcename debuginfo v =
     lv_compile n consts (buf_lexfeed s) l e t sourcename debuginfo v"

definition BYTECODE_STREAM_TAG :: u16 where "BYTECODE_STREAM_TAG = 0xBEBE"

definition lv_writeclosure :: "nat \<Rightarrow> (outervar \<Rightarrow> u32) \<Rightarrow> 's writer \<Rightarrow> (unit, 's) sm" where
  "lv_writeclosure n pad w v s =
     (case stack_get v (- 1) of
        None \<Rightarrow> SUndef
      | Some (ORef RClosure a) \<Rightarrow>
          sbind (slook (\<lambda>v. get_closure v a)) (\<lambda>c. sbind (slook (\<lambda>v. get_proto v (c_function c))) (\<lambda>f.
            if p_outervalues f \<noteq> []
            then sfail (EMsg ''a closure with free valiables bound it cannot be serialized'')
            else (\<lambda>v s. case w (le_bytes 2 BYTECODE_STREAM_TAG) s of
                (r, s) \<Rightarrow> if r \<noteq> 2 then sfail (EMsg ''io error'') v s else LVClosure_Save n pad w c v s))) v s
      | Some ob \<Rightarrow> sfail (wrong_argument OT_CLOSURE ob) v s)"

definition lv_readclosure :: "nat \<Rightarrow> 's reader \<Rightarrow> (unit, 's) sm" where
  "lv_readclosure n r v s =
     (case r 2 s of (k, bs, s) \<Rightarrow>
        if k \<noteq> 2 then sfail (EMsg ''io error'') v s
        else if le_word bs \<noteq> BYTECODE_STREAM_TAG then sfail (EMsg ''invalid stream'') v s
        else sbind (LVClosure_Load n r) (\<lambda>closure. sopt (\<lambda>v. do { v \<leftarrow> Push closure v; Some ((), v) })) v s)"

end
