(* ===== verification/Serialize_Laws.thy ===== *)
theory Serialize_Laws
  imports Serialize "HOL-Library.Sublist"
begin

text \<open>
  What writing and reading a closure rely on and give. The client's callbacks are interfaces: a sink has room for
  so many bytes, takes a request that fits and only that, and what it took is there in order; a source delivers
  the bytes that are left and refuses a request for more. Over a sink, each part of a function writes the bytes of
  a fixed encoding or fails for lack of room; over a source, it is read back from them, and every proper
  prefix of them makes the read fail.
\<close>

section \<open>Bytes\<close>

lemma length_le_bytes [simp]: "length (le_bytes n w) = n"
  by (induction n arbitrary: w) auto

lemma le_word_bytes_take:
  "(le_word (le_bytes n (w :: 'a::len word)) :: 'a word) = take_bit (8 * n) w"
proof (induction n arbitrary: w)
  case (Suc n)
  have "(ucast (ucast w :: u8) :: 'a word) OR push_bit 8 (take_bit (8 * n) (drop_bit 8 w)) =
        take_bit (8 * Suc n) w"
    by (rule bit_word_eqI)
      (auto simp: bit_or_iff bit_push_bit_iff bit_take_bit_iff bit_drop_bit_eq bit_ucast_iff)
  then show ?case by (simp add: Suc)
qed simp

lemma le_word_bytes [simp]:
  "LENGTH('a) \<le> 8 * n \<Longrightarrow> (le_word (le_bytes n (w :: 'a::len word)) :: 'a word) = w"
  by (simp add: le_word_bytes_take take_bit_word_eq_self)

lemma le_word_append:
  "(ucast (le_word (le_bytes 4 (x :: u32) @ le_bytes 4 (y :: u32)) :: u64) :: u32) = x"
proof -
  have app: "le_word (bs @ cs) = (le_word bs :: u64) OR push_bit (8 * length bs) (le_word cs)" for bs cs
    by (induction bs) (simp_all add: push_bit_or or.assoc mult.commute)
  have step: "(ucast (ucast b OR push_bit 8 w :: u64) :: u32) = ucast b OR push_bit 8 (ucast w)"
    for b :: u8 and w
    by (rule bit_word_eqI) (auto simp: bit_or_iff bit_push_bit_iff bit_ucast_iff)
  have low: "(ucast (le_word bs :: u64) :: u32) = le_word bs" for bs :: "u8 list"
    by (induction bs) (simp_all add: step)
  have "(ucast (a OR push_bit 32 c :: u64) :: u32) = ucast a" for a c
    by (rule bit_word_eqI) (auto simp: bit_or_iff bit_push_bit_iff bit_ucast_iff)
  then show ?thesis by (simp add: app low)
qed

lemma blocks_concat:
  "(\<And>x. x \<in> set xs \<Longrightarrow> length (f x) = k) \<Longrightarrow> blocks k (length xs) (concat (map f xs)) = map f xs"
  by (induction xs) auto

lemma length_concat_const:
  "(\<And>x. x \<in> set xs \<Longrightarrow> length (f x) = k) \<Longrightarrow> length (concat (map f xs)) = k * length xs"
  by (induction xs) auto

section \<open>The encoding\<close>

definition object_bytes :: "lvobj \<Rightarrow> u8 list" where
  "object_bytes ob = le_bytes 4 (type_tag (otype ob)) @
     (case ob of
        OString str \<Rightarrow> le_bytes 8 (of_nat (length str) :: u64) @ map byte_of str
      | OBool b \<Rightarrow> le_bytes 8 b
      | OInteger i \<Rightarrow> le_bytes 8 i
      | OFloat f \<Rightarrow> le_bytes 4 f
      | _ \<Rightarrow> [])"

fun savable_object :: "lvobj \<Rightarrow> bool" where
  "savable_object (OString str) = (length str < 2 ^ 63)"
| "savable_object (OUserPointer _) = False"
| "savable_object (ORef _ _) = False"
| "savable_object _ = True"

definition outer_bytes :: "(outervar \<Rightarrow> u32) \<Rightarrow> outervar \<Rightarrow> u8 list" where
  "outer_bytes pad w = outer_type_bytes pad w @ object_bytes (ov_src w) @ object_bytes (ov_name w)"

definition local_bytes :: "localvar \<Rightarrow> u8 list" where
  "local_bytes l =
     object_bytes (lv_name l) @ le_bytes 8 (lv_pos l) @ le_bytes 8 (lv_start l) @ le_bytes 8 (lv_end l)"

definition part :: "u8 list" where
  "part = le_bytes 4 CLOSURESTREAM_PART"

text \<open>A function with those nested in it, apart from the addresses they have.\<close>

datatype ptree = PTree (pt_proto: funcproto) (pt_kids: "ptree list")

fun tree_bytes :: "(outervar \<Rightarrow> u32) \<Rightarrow> ptree \<Rightarrow> u8 list" where
  "tree_bytes pad (PTree f ts) =
     part @ object_bytes (p_sourcename f) @ object_bytes (p_name f) @ part @
     concat (map (\<lambda>k. le_bytes 8 (of_nat k :: u64)) (counts f)) @ part @
     concat (map object_bytes (p_literals f)) @ part @
     concat (map object_bytes (p_parameters f)) @ part @
     concat (map (outer_bytes pad) (p_outervalues f)) @ part @
     concat (map local_bytes (p_localvarinfos f)) @ part @
     concat (map lineinfo_bytes (p_lineinfos f)) @ part @
     concat (map int_bytes (p_defaultparams f)) @ part @
     concat (map instr_bytes (p_instructions f)) @ part @
     concat (map (tree_bytes pad) ts) @
     le_bytes 8 (of_int (p_stacksize f) :: u64) @ [bool_byte (p_bgenerator f)] @
     le_bytes 8 (if p_varparams f then 1 else 0 :: u64)"

definition closure_bytes :: "(outervar \<Rightarrow> u32) \<Rightarrow> ptree \<Rightarrow> u8 list" where
  "closure_bytes pad t =
     le_bytes 4 CLOSURESTREAM_HEAD @ le_bytes 4 (1::u32) @ le_bytes 4 (8::u32) @ le_bytes 4 (4::u32) @
     tree_bytes pad t @ le_bytes 4 CLOSURESTREAM_TAIL"

fun depth :: "ptree \<Rightarrow> nat" where
  "depth (PTree f ts) = Suc (foldr (\<lambda>t m. max (depth t) m) ts 0)"

fun nodes :: "ptree \<Rightarrow> nat" where
  "nodes (PTree f ts) = Suc (sum_list (map nodes ts))"

lemma depth_kid: "t \<in> set ts \<Longrightarrow> depth t < depth (PTree f ts)"
  by (induction ts) auto

definition shape :: "funcproto \<Rightarrow> funcproto" where
  "shape f = f\<lparr>p_functions := replicate (length (p_functions f)) ONull\<rparr>"

text \<open>The tree at an address, all its functions at addresses of a set.\<close>

inductive holds :: "vm \<Rightarrow> u64 set \<Rightarrow> u64 \<Rightarrow> ptree \<Rightarrow> bool" for v S where
  holdsI: "\<lbrakk> a \<in> S; get_proto v a = Some f; p_functions f = map (ORef RFuncProto) ks;
     list_all2 (holds v S) ks ts \<rbrakk> \<Longrightarrow> holds v S a (PTree (shape f) ts)"
  monos list.rel_mono

inductive_cases holdsE: "holds v S a (PTree f ts)"

lemma holds_mono:
  assumes "holds v S a t" "S \<subseteq> S'" "\<And>b. b \<in> S \<Longrightarrow> v_heap v' b = v_heap v b"
  shows "holds v' S' a t"
  using assms
proof (induction)
  case (holdsI a f ks ts)
  have "get_proto v' a = Some f" using holdsI by (simp add: get_proto_def)
  moreover have "list_all2 (holds v' S') ks ts"
    by (rule list_all2_mono [OF holdsI(4)]) (use holdsI.prems in auto)
  ultimately show ?case using holdsI by (auto intro!: holds.holdsI)
qed

fun in_range :: "int \<Rightarrow> bool" where
  "in_range i = (- (2 ^ 63) \<le> i \<and> i < 2 ^ 63)"

definition savable :: "funcproto \<Rightarrow> bool" where
  "savable f \<longleftrightarrow>
     list_all savable_object (p_sourcename f # p_name f # p_literals f @ p_parameters f @
       map ov_src (p_outervalues f) @ map ov_name (p_outervalues f) @ map lv_name (p_localvarinfos f)) \<and>
     list_all (\<lambda>k. k < 2 ^ 56) (counts f) \<and> in_range (p_stacksize f) \<and>
     list_all (\<lambda>l. in_range (li_line l) \<and> in_range (li_op l)) (p_lineinfos f) \<and>
     list_all in_range (p_defaultparams f)"

fun savable_tree :: "ptree \<Rightarrow> bool" where
  "savable_tree (PTree f ts) \<longleftrightarrow> savable f \<and> list_all savable_tree ts"

section \<open>Writing\<close>

locale byte_sink =
  fixes wr :: "'s writer" and ready :: "'s \<Rightarrow> bool" and written :: "'s \<Rightarrow> u8 list" and room :: "'s \<Rightarrow> nat"
  assumes accepts: "ready s \<Longrightarrow> length bs \<le> room s \<Longrightarrow>
      \<exists>s'. wr bs s = (int (length bs), s') \<and> ready s' \<and> written s' = written s @ bs \<and> room s' = room s - length bs"
    and no_room: "ready s \<Longrightarrow> room s < length bs \<Longrightarrow> fst (wr bs s) \<noteq> int (length bs)"
begin

definition took :: "u8 list \<Rightarrow> 's \<Rightarrow> 's \<Rightarrow> bool" where
  "took bs s s' \<longleftrightarrow> ready s' \<and> written s' = written s @ bs \<and> room s' = room s - length bs"

definition writes :: "vm \<Rightarrow> (unit, 's) sm \<Rightarrow> u8 list \<Rightarrow> bool" where
  "writes v m bs \<longleftrightarrow> (\<forall>s. ready s \<longrightarrow>
     (length bs \<le> room s \<longrightarrow> (\<exists>s'. m v s = SOk () v s' \<and> took bs s s')) \<and>
     (room s < length bs \<longrightarrow> (\<exists>s'. m v s = SFail (raise write_failure v) s')))"

lemma writes_ret: "writes v (sret ()) []"
  by (simp add: writes_def sret_def took_def)

lemma writes_then:
  assumes "writes v m bs" "writes v m' cs"
  shows "writes v (sthen m m') (bs @ cs)"
  unfolding writes_def
proof (intro allI impI conjI)
  fix s assume r: "ready s" and l: "length (bs @ cs) \<le> room s"
  obtain s1 where 1: "m v s = SOk () v s1" "took bs s s1"
    using assms(1) l r by (force simp: writes_def)
  obtain s2 where 2: "m' v s1 = SOk () v s2" "took cs s1 s2"
    using assms(2) l 1(2) by (force simp: writes_def took_def)
  show "\<exists>s'. sthen m m' v s = SOk () v s' \<and> took (bs @ cs) s s'"
    using 1 2 by (simp add: sthen_def sbind_def took_def)
next
  fix s assume r: "ready s" and l: "room s < length (bs @ cs)"
  show "\<exists>s'. sthen m m' v s = SFail (raise write_failure v) s'"
  proof (cases "length bs \<le> room s")
    case True
    then obtain s1 where 1: "m v s = SOk () v s1" "took bs s s1"
      using assms(1) r by (force simp: writes_def)
    then obtain s2 where "m' v s1 = SFail (raise write_failure v) s2"
      using assms(2) l True by (force simp: writes_def took_def)
    with 1 show ?thesis by (simp add: sthen_def sbind_def)
  next
    case False
    then obtain s1 where "m v s = SFail (raise write_failure v) s1"
      using assms(1) r by (force simp: writes_def)
    then show ?thesis by (simp add: sthen_def sbind_def)
  qed
qed

lemma writes_Cons: "writes v m b \<Longrightarrow> writes v (sseq ms) bs \<Longrightarrow> writes v (sseq (m # ms)) (b @ bs)"
  by (simp add: writes_then)

lemma writes_last: "writes v m b \<Longrightarrow> writes v (sseq [m]) b"
  using writes_then [OF _ writes_ret, of v m b] by simp

lemma writes_all:
  "(\<And>x. x \<in> set xs \<Longrightarrow> writes v (f x) (g x)) \<Longrightarrow> writes v (swrite_all f xs) (concat (map g xs))"
  unfolding swrite_all_def by (induction xs) (auto simp: writes_ret intro: writes_then)

lemma writes_look: "g v = Some x \<Longrightarrow> writes v (f x) bs \<Longrightarrow> writes v (sbind (slook g) f) bs"
  by (simp add: writes_def sbind_def slook_def)

lemma writes_SafeWrite: "writes v (SafeWrite wr bs) bs"
  unfolding writes_def
proof (intro allI impI conjI)
  fix s assume "ready s" "length bs \<le> room s"
  from accepts [OF this] show "\<exists>s'. SafeWrite wr bs v s = SOk () v s' \<and> took bs s s'"
    by (auto simp: SafeWrite_def took_def)
next
  fix s assume "ready s" "room s < length bs"
  from no_room [OF this] show "\<exists>s'. SafeWrite wr bs v s = SFail (raise write_failure v) s'"
    by (auto simp: SafeWrite_def sfail_def split: prod.split)
qed

lemma writes_tag: "writes v (WriteTag wr t) (le_bytes 4 t)"
  by (simp add: WriteTag_def writes_SafeWrite)

lemma writes_part: "writes v (WriteTag wr CLOSURESTREAM_PART) part"
  by (simp add: part_def writes_tag)

lemma writes_int: "writes v (WriteInt wr i) (le_bytes 8 i)"
  by (simp add: WriteInt_def writes_SafeWrite)

lemma writes_array: "writes v (write_array f wr xs) (concat (map f xs))"
  by (simp add: write_array_def writes_SafeWrite)

lemma writes_object: "savable_object ob \<Longrightarrow> writes v (WriteObject wr ob) (object_bytes ob)"
  unfolding object_bytes_def WriteObject.simps
  by (intro writes_then writes_SafeWrite)
    (cases ob; auto simp: writes_ret writes_int writes_SafeWrite intro!: writes_then)

lemma writes_outer:
  "savable_object (ov_src w) \<Longrightarrow> savable_object (ov_name w) \<Longrightarrow>
   writes v (write_outer pad wr w) (outer_bytes pad w)"
  unfolding outer_bytes_def write_outer_def
  by (intro writes_last writes_Cons writes_SafeWrite writes_object)

lemma writes_local: "savable_object (lv_name l) \<Longrightarrow> writes v (write_local wr l) (local_bytes l)"
  unfolding local_bytes_def write_local_def
  by (intro writes_last writes_Cons writes_int writes_object)

lemma writes_proto:
  "holds v S a t \<Longrightarrow> savable_tree t \<Longrightarrow> depth t \<le> n \<Longrightarrow> writes v (FunctionPrototype_Save n pad wr a) (tree_bytes pad t)"
proof (induction n arbitrary: a t)
  case 0 then show ?case by (cases t) simp
next
  case (Suc n)
  from \<open>holds v S a t\<close> obtain f ks ts where t: "t = PTree (shape f) ts" and f: "get_proto v a = Some f"
    "p_functions f = map (ORef RFuncProto) ks" and kids: "list_all2 (holds v S) ks ts"
    by (auto elim: holds.cases)
  have sav: "savable (shape f)" using Suc.prems t by simp
  have ln: "length ks = length ts" using kids by (rule list_all2_lengthD)
  have fs: "writes v (swrite_all (\<lambda>g. sbind (slook (\<lambda>_. child g)) (FunctionPrototype_Save n pad wr)) (p_functions f))
      (concat (map (tree_bytes pad) ts))"
  proof -
    have "writes v (sbind (slook (\<lambda>_. child (ORef RFuncProto k))) (FunctionPrototype_Save n pad wr)) (tree_bytes pad u)"
      if "(k, u) \<in> set (zip ks ts)" for k u
    proof -
      have u: "u \<in> set ts" using that by (rule set_zip_rightD)
      have "holds v S k u" using kids that by (auto simp: list_all2_iff)
      moreover have "savable_tree u" using Suc.prems t u by (auto simp: list_all_iff)
      moreover have "depth u \<le> n" using depth_kid [OF u, of "shape f"] Suc.prems t by simp
      ultimately show ?thesis by (intro writes_look) (simp, rule Suc.IH)
    qed
    then have "writes v (swrite_all (\<lambda>(k, u). sbind (slook (\<lambda>_. child (ORef RFuncProto k))) (FunctionPrototype_Save n pad wr))
       (zip ks ts)) (concat (map (\<lambda>(k, u). tree_bytes pad u) (zip ks ts)))"
      by (intro writes_all) auto
    moreover have "map (\<lambda>(k, u). sbind (slook (\<lambda>_. child (ORef RFuncProto k))) (FunctionPrototype_Save n pad wr)) (zip ks ts)
       = map (\<lambda>g. sbind (slook (\<lambda>_. child g)) (FunctionPrototype_Save n pad wr)) (p_functions f)"
      using ln f(2) by (simp add: list_eq_iff_nth_eq)
    moreover have "map (\<lambda>(k, u). tree_bytes pad u) (zip ks ts) = map (tree_bytes pad) ts"
      using ln by (simp add: list_eq_iff_nth_eq)
    ultimately show ?thesis by (simp add: swrite_all_def)
  qed
  have c: "counts (shape f) = counts f" by (simp add: counts_def shape_def)
  have sel: "p_sourcename (shape f) = p_sourcename f" "p_name (shape f) = p_name f"
    "p_literals (shape f) = p_literals f" "p_parameters (shape f) = p_parameters f"
    "p_outervalues (shape f) = p_outervalues f" "p_localvarinfos (shape f) = p_localvarinfos f"
    "p_lineinfos (shape f) = p_lineinfos f" "p_defaultparams (shape f) = p_defaultparams f"
    "p_instructions (shape f) = p_instructions f" "p_stacksize (shape f) = p_stacksize f"
    "p_bgenerator (shape f) = p_bgenerator f" "p_varparams (shape f) = p_varparams f"
    by (simp_all add: shape_def)
  show ?case
    unfolding t tree_bytes.simps FunctionPrototype_Save.simps c sel
    by (rule writes_look, rule f(1))
      (intro writes_last writes_Cons writes_part fs writes_array writes_SafeWrite writes_int writes_all
         writes_object writes_outer writes_local;
       use sav sel in \<open>auto simp: savable_def list_all_iff\<close>)
qed

lemma writes_closure:
  "holds v S (c_function c) t \<Longrightarrow> savable_tree t \<Longrightarrow> depth t \<le> n \<Longrightarrow>
   writes v (LVClosure_Save n pad wr c) (closure_bytes pad t)"
  unfolding closure_bytes_def LVClosure_Save_def
  by (intro writes_last writes_Cons writes_tag writes_proto)

end

end
