(* ===== verification/Serialize_Source.thy ===== *)
theory Serialize_Source
  imports Serialize_Laws
begin

text \<open>Reading a closure back from its encoding.\<close>

section \<open>Decoding\<close>

lemma type_of_tag_tag [simp]: "type_of_tag (type_tag t) = Some t"
proof -
  have "list_all (\<lambda>t. type_of_tag (type_tag t) = Some t) all_types" by code_simp
  moreover have "t \<in> set all_types" by (cases t; simp add: all_types_def)
  ultimately show ?thesis by (simp add: list_all_iff)
qed

lemma opcode_of_code [simp]: "opcode_of (op_code p) = Some p"
proof -
  have "p \<in> set all_opcodes" by (cases p; simp add: all_opcodes_def)
  then have "find (\<lambda>q. op_code q = op_code p) all_opcodes \<noteq> None"
    by (auto simp: find_None_iff)
  then obtain q where q: "find (\<lambda>q. op_code q = op_code p) all_opcodes = Some q" by blast
  then have "op_code q = op_code p" by (auto simp: find_Some_iff)
  then have "q = p" using op_code_inj by (simp add: inj_def)
  then show ?thesis using q by (simp add: opcode_of_def)
qed

lemma bytes_int_int [simp]: "in_range i \<Longrightarrow> bytes_int (int_bytes i) = i"
  by (simp add: bytes_int_def int_bytes_def sint_sbintrunc' signed_take_bit_int_eq_self_iff)

lemma length_int_bytes [simp]: "length (int_bytes i) = 8"
  by (simp add: int_bytes_def)

lemma lineinfo_of_bytes [simp]:
  "in_range (li_line l) \<Longrightarrow> in_range (li_op l) \<Longrightarrow> lineinfo_of (lineinfo_bytes l) = l"
  by (simp add: lineinfo_of_def lineinfo_bytes_def del: in_range.simps)

lemma length_lineinfo_bytes [simp]: "length (lineinfo_bytes l) = 16"
  by (simp add: lineinfo_bytes_def)

lemma instr_of_bytes [simp]: "instr_of (instr_bytes i) = Some i"
  by (simp add: instr_of_def instr_bytes_def nth_append)

lemma length_instr_bytes [simp]: "length (instr_bytes i) = 8"
  by (simp add: instr_bytes_def)

lemma those_map_Some: "(\<And>x. x \<in> set xs \<Longrightarrow> f (g x) = Some x) \<Longrightarrow> those (map (f \<circ> g) xs) = Some xs"
  by (induction xs) auto

fun shaped :: "ptree \<Rightarrow> bool" where
  "shaped (PTree f ts) \<longleftrightarrow> p_functions f = replicate (length ts) ONull \<and> list_all shaped ts"

lemma holds_shaped: "holds v S a t \<Longrightarrow> shaped t"
proof (induction rule: holds.induct)
  case (holdsI a f ks ts)
  then have "length ks = length ts" by (simp add: list_all2_lengthD)
  then show ?case using holdsI by (auto simp: shape_def list_all2_conv_all_nth list_all_length)
qed

section \<open>Growth of the heap\<close>

definition extends :: "vm \<Rightarrow> vm \<Rightarrow> u64 list \<Rightarrow> bool" where
  "extends v v' as \<longleftrightarrow>
     (\<exists>h f. v' = v\<lparr>v_heap := h, v_free := f\<rparr> \<and> v_free v = as @ f \<and> (\<forall>a. a \<notin> set as \<longrightarrow> h a = v_heap v a))"

lemma extends_free: "extends v v' as \<Longrightarrow> v_free v = as @ v_free v'"
  by (auto simp: extends_def)

lemma extends_heap: "extends v v' as \<Longrightarrow> a \<notin> set as \<Longrightarrow> v_heap v' a = v_heap v a"
  by (auto simp: extends_def)

lemma extends_refl: "extends v v []"
  by (auto simp: extends_def intro!: exI [of _ "v_heap v"])

lemma extends_trans: "extends v v1 as \<Longrightarrow> extends v1 v2 bs \<Longrightarrow> extends v v2 (as @ bs)"
  by (fastforce simp: extends_def)

lemma extends_alloc: "v_free v = a # as \<Longrightarrow> alloc x v = Some (a, put a x (v\<lparr>v_free := as\<rparr>)) \<and>
    extends v (put a x (v\<lparr>v_free := as\<rparr>)) [a]"
  by (auto simp: alloc_def extends_def put_def intro!: exI [of _ "(v_heap v)(a \<mapsto> x)"])

lemma extends_put: "extends v v' as \<Longrightarrow> a \<in> set as \<Longrightarrow> extends v (put a x v') as"
  unfolding extends_def put_def
  by (elim exE conjE, rule_tac x = "h(a \<mapsto> x)" in exI, rule_tac x = f in exI) auto

section \<open>Reading\<close>

locale byte_source =
  fixes rd :: "'s reader" and rest :: "'s \<Rightarrow> u8 list"
  assumes delivers: "0 < n \<Longrightarrow> n \<le> length (rest s) \<Longrightarrow>
      \<exists>s'. rd (int n) s = (int n, take n (rest s), s') \<and> rest s' = drop n (rest s)"
    and no_more: "length (rest s) < n \<Longrightarrow> fst (rd (int n) s) \<noteq> int n"
begin

text \<open>
  On the bytes \<open>bs\<close> and more, the operation gives a result and a machine of \<open>Q\<close> and leaves what follows \<open>bs\<close>; on a
  proper prefix of \<open>bs\<close> it fails with the error of a read.
\<close>

definition reads :: "vm \<Rightarrow> ('a, 's) sm \<Rightarrow> u8 list \<Rightarrow> ('a \<Rightarrow> vm \<Rightarrow> bool) \<Rightarrow> bool" where
  "reads v m bs Q \<longleftrightarrow> (\<forall>s.
     (\<forall>r. rest s = bs @ r \<longrightarrow> (\<exists>x v' s'. m v s = SOk x v' s' \<and> rest s' = r \<and> Q x v')) \<and>
     (strict_prefix (rest s) bs \<longrightarrow>
        (\<exists>v' s'. m v s = SFail v' s' \<and> v_lasterror v' = error_obj read_failure)))"

abbreviation gives :: "vm \<Rightarrow> 'a \<Rightarrow> 'a \<Rightarrow> vm \<Rightarrow> bool" where
  "gives v x \<equiv> \<lambda>x' v'. x' = x \<and> v' = v"

lemma reads_ret: "Q x v \<Longrightarrow> reads v (sret x) [] Q"
  by (simp add: reads_def sret_def)

lemma reads_bind:
  assumes 1: "reads v m bs Q" and 2: "\<And>x v'. Q x v' \<Longrightarrow> reads v' (f x) cs R"
  shows "reads v (sbind m f) (bs @ cs) R"
  unfolding reads_def
proof (intro allI conjI impI)
  fix s r assume "rest s = (bs @ cs) @ r"
  then obtain x v' s' where m: "m v s = SOk x v' s'" "rest s' = cs @ r" "Q x v'"
    using 1 by (force simp: reads_def)
  with 2 [OF m(3)] show "\<exists>x v' s'. sbind m f v s = SOk x v' s' \<and> rest s' = r \<and> R x v'"
    by (force simp: reads_def sbind_def)
next
  fix s assume p: "strict_prefix (rest s) (bs @ cs)"
  show "\<exists>v' s'. sbind m f v s = SFail v' s' \<and> v_lasterror v' = error_obj read_failure"
  proof (cases "strict_prefix (rest s) bs")
    case True with 1 show ?thesis by (force simp: reads_def sbind_def)
  next
    case False
    then have "\<exists>r. rest s = bs @ r \<and> strict_prefix r cs"
      using p unfolding strict_prefix_def prefix_append by (metis append_Nil2 Nil_prefix)
    then obtain r where r: "rest s = bs @ r" "strict_prefix r cs" by blast
    then obtain x v' s' where m: "m v s = SOk x v' s'" "rest s' = r" "Q x v'"
      using 1 by (force simp: reads_def)
    with 2 [OF m(3)] r(2) show ?thesis by (force simp: reads_def sbind_def)
  qed
qed

lemma reads_bind_eq:
  assumes "reads v m bs (gives v x)" "reads v (f x) cs R"
  shows "reads v (sbind m f) (bs @ cs) R"
  by (rule reads_bind [OF assms(1)]) (use assms(2) in simp)

lemma reads_then_eq: "reads v m bs (gives v ()) \<Longrightarrow> reads v m' cs R \<Longrightarrow> reads v (sthen m m') (bs @ cs) R"
  unfolding sthen_def by (rule reads_bind_eq)

lemma reads_bind_last: "reads v m bs Q \<Longrightarrow> (\<And>x v'. Q x v' \<Longrightarrow> reads v' (f x) [] R) \<Longrightarrow> reads v (sbind m f) bs R"
  using reads_bind [of v m bs Q f "[]" R] by simp

lemma reads_look: "g v = Some x \<Longrightarrow> Q x v \<Longrightarrow> reads v (slook g) [] Q"
  by (simp add: reads_def slook_def)

lemma reads_opt: "g v = Some (x, v') \<Longrightarrow> Q x v' \<Longrightarrow> reads v (sopt g) [] Q"
  by (simp add: reads_def sopt_def)

lemma reads_opt_bind: "g v = Some (x, v') \<Longrightarrow> reads v' (f x) bs R \<Longrightarrow> reads v (sbind (sopt g) f) bs R"
  by (simp add: reads_def sbind_def sopt_def)

lemma reads_look_bind: "g v = Some x \<Longrightarrow> reads v (f x) bs R \<Longrightarrow> reads v (sbind (slook g) f) bs R"
  by (simp add: reads_def sbind_def slook_def)

lemma reads_SafeRead: "n = int (length bs) \<Longrightarrow> reads v (SafeRead rd n) bs (gives v bs)"
  unfolding reads_def
proof (intro allI conjI impI)
  fix s r assume n: "n = int (length bs)" and s: "rest s = bs @ r"
  show "\<exists>x v' s'. SafeRead rd n v s = SOk x v' s' \<and> rest s' = r \<and> x = bs \<and> v' = v"
  proof (cases "bs = []")
    case True with n s show ?thesis by (simp add: SafeRead_def)
  next
    case False
    with delivers [of "length bs" s] s n show ?thesis by (auto simp: SafeRead_def)
  qed
next
  fix s assume n: "n = int (length bs)" and p: "strict_prefix (rest s) bs"
  then have "length (rest s) < length bs" by (simp add: prefix_length_less)
  from no_more [OF this] this n
  show "\<exists>v' s'. SafeRead rd n v s = SFail v' s' \<and> v_lasterror v' = error_obj read_failure"
    by (auto simp: SafeRead_def sfail_def raise_def split: prod.split)
qed

lemma reads_tag: "reads v (CheckTag rd t) (le_bytes 4 t) (gives v ())"
  unfolding CheckTag_def
  by (rule reads_bind_last, rule reads_SafeRead, simp) (simp add: reads_ret)

lemma reads_part: "reads v (CheckTag rd CLOSURESTREAM_PART) part (gives v ())"
  unfolding part_def by (rule reads_tag)

lemma reads_int: "reads v (ReadInt rd) (le_bytes 8 i) (gives v i)"
  unfolding ReadInt_def
  by (rule reads_bind_last, rule reads_SafeRead, simp) (simp add: reads_ret)

lemma reads_ret_last: "reads v m bs (gives v x) \<Longrightarrow> reads v (sbind m (\<lambda>x. sret (f x))) bs (gives v (f x))"
  by (rule reads_bind_last [where Q = "gives v x"]) (assumption, simp add: reads_ret)

lemma reads_string:
  assumes "length str < 2 ^ 63"
  shows "reads v (sbind (ReadInt rd) (\<lambda>len. sbind (SafeRead rd (sint len)) (\<lambda>bs. sret (OString (map char_of_byte bs)))))
     (le_bytes 8 (of_nat (length str) :: u64) @ map byte_of str) (gives v (OString str))"
proof (rule reads_bind_eq, rule reads_int)
  have "sint (of_nat (length str) :: u64) = int (length str)"
    using sint_sbintrunc' [where 'a = 64, of "int (length str)"] assms
    by (simp add: signed_take_bit_int_eq_self_iff)
  then have "reads v (SafeRead rd (sint (of_nat (length str) :: u64))) (map byte_of str) (gives v (map byte_of str))"
    by (intro reads_SafeRead) simp
  from reads_ret_last [OF this, of "\<lambda>bs. OString (map char_of_byte bs)"]
  show "reads v (sbind (SafeRead rd (sint (of_nat (length str) :: u64))) (\<lambda>bs. sret (OString (map char_of_byte bs))))
     (map byte_of str) (gives v (OString str))" by (simp add: comp_def)
qed

lemma reads_object:
  assumes "savable_object ob"
  shows "reads v (ReadObject rd) (object_bytes ob) (gives v ob)"
  unfolding ReadObject_def object_bytes_def
proof (rule reads_bind_eq, rule reads_SafeRead)
  show "reads v (let t = le_word (le_bytes 4 (type_tag (otype ob)))
      in case type_of_tag t of None \<Rightarrow> bad_object t | Some OT_NULL \<Rightarrow> sret ONull
         | Some OT_INTEGER \<Rightarrow> sbind (ReadInt rd) (\<lambda>i. sret (OInteger i))
         | Some OT_FLOAT \<Rightarrow> sbind (SafeRead rd 4) (\<lambda>bs. sret (OFloat (le_word bs)))
         | Some OT_BOOL \<Rightarrow> sbind (ReadInt rd) (\<lambda>i. sret (OBool i))
         | Some OT_STRING \<Rightarrow> sbind (ReadInt rd) (\<lambda>len. sbind (SafeRead rd (sint len)) (\<lambda>bs. sret (OString (map char_of_byte bs))))
         | Some _ \<Rightarrow> bad_object t)
     (case ob of OString str \<Rightarrow> le_bytes 8 (of_nat (length str) :: u64) @ map byte_of str
      | OBool b \<Rightarrow> le_bytes 8 b | OInteger i \<Rightarrow> le_bytes 8 i | OFloat f \<Rightarrow> le_bytes 4 f | _ \<Rightarrow> [])
     (gives v ob)"
  proof (cases ob)
    case (OFloat f)
    have "reads v (SafeRead rd 4) (le_bytes 4 f) (gives v (le_bytes 4 f))" by (rule reads_SafeRead) simp
    from reads_ret_last [OF this, of "\<lambda>bs. OFloat (le_word bs)"] OFloat show ?thesis by simp
  qed (use assms in \<open>auto simp: reads_ret intro: reads_ret_last [OF reads_int] reads_string\<close>)
qed simp

lemma reads_outer:
  assumes "savable_object (ov_src w)" "savable_object (ov_name w)"
  shows "reads v (read_outer rd) (outer_bytes pad w) (gives v w)"
proof -
  let ?tb = "outer_type_bytes pad w"
  have "reads v (ReadInt rd) ?tb (gives v (le_word ?tb))"
    unfolding ReadInt_def
    by (rule reads_ret_last, rule reads_SafeRead) (simp add: outer_type_bytes_def)
  note head = this
  have tail: "reads v (sbind (outer_type_of (le_word ?tb))
      (\<lambda>k. sret \<lparr>ov_type = k, ov_name = ov_name w, ov_src = ov_src w\<rparr>)) [] (gives v w)"
    unfolding outer_type_bytes_def outer_type_of_def le_word_append
    by (cases "ov_type w") (simp_all add: sbind_def reads_def sret_def)
  have "reads v (read_outer rd) (?tb @ object_bytes (ov_src w) @ object_bytes (ov_name w) @ []) (gives v w)"
    unfolding read_outer_def
    by (rule reads_bind_eq [OF head] reads_bind_eq [OF reads_object] assms tail)+
  then show ?thesis by (simp add: outer_bytes_def)
qed

lemma reads_local:
  assumes "savable_object (lv_name l)"
  shows "reads v (read_local rd) (local_bytes l) (gives v l)"
proof -
  have "reads v (read_local rd) (object_bytes (lv_name l) @ le_bytes 8 (lv_pos l) @ le_bytes 8 (lv_start l) @
      le_bytes 8 (lv_end l) @ []) (gives v l)"
    unfolding read_local_def by (rule reads_bind_eq [OF reads_object] reads_bind_eq [OF reads_int] assms)+ (simp add: reads_ret)
  then show ?thesis by (simp add: local_bytes_def)
qed

lemma reads_bool: "reads v (read_bool rd) [bool_byte b] (gives v b)"
  unfolding read_bool_def
  by (rule reads_bind_last, rule reads_SafeRead) (auto simp: bool_byte_def intro!: reads_look)

lemma reads_array:
  assumes "\<And>x. x \<in> set xs \<Longrightarrow> length (f x) = k" "\<And>x. x \<in> set xs \<Longrightarrow> g (f x) = Some x"
  shows "reads v (read_array k g rd (length xs)) (concat (map f xs)) (gives v xs)"
  unfolding read_array_def
proof (rule reads_bind_last, rule reads_SafeRead)
  show "int (k * length xs) = int (length (concat (map f xs)))"
    by (simp only: length_concat_const [OF assms(1)])
  show "reads v' (slook (\<lambda>_. those (map g (blocks k (length xs) x)))) [] (gives v xs)"
    if "x = concat (map f xs) \<and> v' = v" for x v'
    using that by (auto simp: blocks_concat assms those_map_Some intro!: reads_look)
qed

lemma reads_n:
  "(\<And>x. x \<in> set xs \<Longrightarrow> reads v m (f x) (gives v x)) \<Longrightarrow>
   reads v (sread_n (length xs) m) (concat (map f xs)) (gives v xs)"
proof (induction xs)
  case (Cons x xs)
  have x: "reads v m (f x) (gives v x)" and xs: "reads v (sread_n (length xs) m) (concat (map f xs)) (gives v xs)"
    using Cons by auto
  have "reads v (sread_n (length (x # xs)) m) (f x @ concat (map f xs)) (gives v (x # xs))"
    unfolding list.size(4) add_0_right add_Suc_right One_nat_def sread_n.simps
    by (rule reads_bind_eq [OF x]) (rule reads_ret_last [OF xs])
  then show ?case by simp
qed (simp add: reads_ret)

text \<open>A machine that reads a tree.\<close>

definition loads :: "vm \<Rightarrow> ptree \<Rightarrow> u64 \<Rightarrow> vm \<Rightarrow> bool" where
  "loads v t a v' \<longleftrightarrow> (\<exists>as. extends v v' as \<and> length as = nodes t \<and> holds v' (set as) a t)"

lemma reads_kids:
  assumes "\<And>t v. t \<in> set ts \<Longrightarrow> distinct (v_free v) \<Longrightarrow> nodes t \<le> length (v_free v) \<Longrightarrow> reads v m (g t) (loads v t)"
    and "distinct (v_free v)" "sum_list (map nodes ts) \<le> length (v_free v)"
  shows "reads v (sread_n (length ts) m) (concat (map g ts))
    (\<lambda>ks v'. \<exists>as. extends v v' as \<and> length as = sum_list (map nodes ts) \<and> list_all2 (holds v' (set as)) ks ts)"
  using assms
proof (induction ts arbitrary: v)
  case Nil then show ?case by (auto intro!: reads_ret extends_refl)
next
  case (Cons t ts)
  have "reads v m (g t) (loads v t)" using Cons.prems by auto
  moreover have "reads v1 (sbind (sread_n (length ts) m) (\<lambda>ks. sret (k # ks))) (concat (map g ts))
    (\<lambda>ks v'. \<exists>as. extends v v' as \<and> length as = sum_list (map nodes (t # ts)) \<and> list_all2 (holds v' (set as)) ks (t # ts))"
    if l: "loads v t k v1" for k v1
  proof -
    from l obtain as where as: "extends v v1 as" "length as = nodes t" "holds v1 (set as) k t" by (auto simp: loads_def)
    have fr: "v_free v = as @ v_free v1" by (rule extends_free [OF as(1)])
    have "reads v1 (sread_n (length ts) m) (concat (map g ts))
      (\<lambda>ks v'. \<exists>bs. extends v1 v' bs \<and> length bs = sum_list (map nodes ts) \<and> list_all2 (holds v' (set bs)) ks ts)"
      by (rule Cons.IH) (use Cons.prems fr as(2) in auto)
    then show ?thesis
    proof (rule reads_bind_last)
      fix ks v2 assume "\<exists>bs. extends v1 v2 bs \<and> length bs = sum_list (map nodes ts) \<and> list_all2 (holds v2 (set bs)) ks ts"
      then obtain bs where bs: "extends v1 v2 bs" "length bs = sum_list (map nodes ts)" "list_all2 (holds v2 (set bs)) ks ts"
        by blast
      have disj: "set as \<inter> set bs = {}" using Cons.prems(2) fr extends_free [OF bs(1)] by auto
      have "holds v2 (set (as @ bs)) k t"
        by (rule holds_mono [OF as(3)]) (use disj extends_heap [OF bs(1)] in auto)
      moreover have "list_all2 (holds v2 (set (as @ bs))) ks ts"
        by (rule list_all2_mono [OF bs(3)]) (auto intro: holds_mono)
      ultimately show "reads v2 (sret (k # ks)) []
         (\<lambda>ks v'. \<exists>as. extends v v' as \<and> length as = sum_list (map nodes (t # ts)) \<and> list_all2 (holds v' (set as)) ks (t # ts))"
        using extends_trans [OF as(1) bs(1)] as(2) bs(2) by (intro reads_ret exI [of _ "as @ bs"]) simp
    qed
  qed
  ultimately show ?case by (auto intro!: reads_bind)
qed

lemma reads_count:
  assumes "k < 2 ^ 56" "reads v (f k) bs R"
  shows "reads v (sbind (array_count (of_nat k)) f) bs R"
proof -
  have "sint (of_nat k :: u64) = int k"
    using sint_sbintrunc' [where 'a = 64, of "int k"] assms(1) by (simp add: signed_take_bit_int_eq_self_iff)
  then have "array_count (of_nat k) v s = SOk k v s" for s :: 's using assms(1)
    by (simp add: array_count_def slook_def)
  then show ?thesis using assms(2) by (simp add: reads_def sbind_def slook_def)
qed

lemma reads_counts:
  assumes "length ks = 8"
  shows "reads v (sread_n 8 (ReadInt rd)) (concat (map (\<lambda>k. le_bytes 8 (of_nat k :: u64)) ks)) (gives v (map of_nat ks))"
  using reads_n [of "map of_nat ks" v "ReadInt rd" "le_bytes 8"] assms by (simp add: reads_int comp_def)

lemma reads_proto:
  "savable_tree t \<Longrightarrow> shaped t \<Longrightarrow> depth t \<le> n \<Longrightarrow> distinct (v_free v) \<Longrightarrow> nodes t \<le> length (v_free v) \<Longrightarrow>
   reads v (FunctionPrototype_Load n rd) (tree_bytes pad t) (loads v t)"
proof (induction n arbitrary: t v)
  case 0 then show ?case by (cases t) simp
next
  case (Suc n)
  obtain f ts where t: "t = PTree f ts" by (cases t)
  have fn: "p_functions f = replicate (length ts) ONull" using Suc.prems t by simp
  have sav: "savable f" using Suc.prems t by simp
  obtain a fs where fr: "v_free v = a # fs" using Suc.prems t by (cases "v_free v") auto
  let ?v1 = "put a (HProto (blank_proto (p_sourcename f) (p_name f))) (v\<lparr>v_free := fs\<rparr>)"
  have al: "alloc (HProto (blank_proto (p_sourcename f) (p_name f))) v = Some (a, ?v1)" and e1: "extends v ?v1 [a]"
    using extends_alloc [OF fr] by auto
  have kids: "reads ?v1 (sread_n (length ts) (FunctionPrototype_Load n rd)) (concat (map (tree_bytes pad) ts))
    (\<lambda>ks v'. \<exists>as. extends ?v1 v' as \<and> length as = sum_list (map nodes ts) \<and> list_all2 (holds v' (set as)) ks ts)"
  proof (rule reads_kids)
    fix u and w :: vm assume u: "u \<in> set ts" and w: "distinct (v_free w)" "nodes u \<le> length (v_free w)"
    have "savable_tree u" "shaped u" using Suc.prems t u by (auto simp: list_all_iff)
    moreover have "depth u \<le> n" using depth_kid [OF u, of f] Suc.prems t by simp
    ultimately show "reads w (FunctionPrototype_Load n rd) (tree_bytes pad u) (loads w u)" using w by (intro Suc.IH)
  qed (use Suc.prems fr t in \<open>auto simp: put_def\<close>)
  have so: "savable_object (p_sourcename f)" "savable_object (p_name f)"
    "\<And>x. x \<in> set (p_literals f) \<Longrightarrow> savable_object x" "\<And>x. x \<in> set (p_parameters f) \<Longrightarrow> savable_object x"
    "\<And>w. w \<in> set (p_outervalues f) \<Longrightarrow> savable_object (ov_src w)"
    "\<And>w. w \<in> set (p_outervalues f) \<Longrightarrow> savable_object (ov_name w)"
    "\<And>w. w \<in> set (p_localvarinfos f) \<Longrightarrow> savable_object (lv_name w)"
    "\<And>l. l \<in> set (p_lineinfos f) \<Longrightarrow> lineinfo_of (lineinfo_bytes l) = l"
    "\<And>i. i \<in> set (p_defaultparams f) \<Longrightarrow> bytes_int (int_bytes i) = i"
    using sav by (auto simp: savable_def list_all_iff simp del: in_range.simps)
  have cs: "length (p_literals f) < 2 ^ 56" "length (p_parameters f) < 2 ^ 56" "length (p_outervalues f) < 2 ^ 56"
    "length (p_localvarinfos f) < 2 ^ 56" "length (p_lineinfos f) < 2 ^ 56" "length (p_defaultparams f) < 2 ^ 56"
    "length (p_instructions f) < 2 ^ 56" "length ts < 2 ^ 56"
    using sav fn by (auto simp: savable_def counts_def)
  have cn: "(map of_nat (counts f) :: u64 list) ! 0 = of_nat (length (p_literals f))"
    "(map of_nat (counts f) :: u64 list) ! 1 = of_nat (length (p_parameters f))"
    "(map of_nat (counts f) :: u64 list) ! 2 = of_nat (length (p_outervalues f))"
    "(map of_nat (counts f) :: u64 list) ! 3 = of_nat (length (p_localvarinfos f))"
    "(map of_nat (counts f) :: u64 list) ! 4 = of_nat (length (p_lineinfos f))"
    "(map of_nat (counts f) :: u64 list) ! 5 = of_nat (length (p_defaultparams f))"
    "(map of_nat (counts f) :: u64 list) ! 6 = of_nat (length (p_instructions f))"
    "(map of_nat (counts f) :: u64 list) ! 7 = of_nat (length ts)"
    by (simp_all add: counts_def fn)
  have st: "sint (word_of_int (p_stacksize f) :: u64) = p_stacksize f"
    using bytes_int_int [of "p_stacksize f"] sav by (simp add: savable_def bytes_int_def int_bytes_def)
  have fin: "reads w (sopt (\<lambda>v. Some (a, put a (HProto
       \<lparr>p_sourcename = p_sourcename f, p_name = p_name f, p_stacksize = sint (word_of_int (p_stacksize f) :: u64),
        p_bgenerator = p_bgenerator f, p_varparams = ((if p_varparams f then 1 else 0 :: u64) \<noteq> 0),
        p_localvarinfos = p_localvarinfos f, p_lineinfos = p_lineinfos f, p_literals = p_literals f,
        p_parameters = p_parameters f, p_functions = map (ORef RFuncProto) ks, p_outervalues = p_outervalues f,
        p_defaultparams = p_defaultparams f, p_instructions = p_instructions f\<rparr>) v))) [] (loads v t)"
    if q: "\<exists>as. extends ?v1 w as \<and> length as = sum_list (map nodes ts) \<and> list_all2 (holds w (set as)) ks ts" for ks w
  proof -
    from q obtain as where as: "extends ?v1 w as" "length as = sum_list (map nodes ts)" "list_all2 (holds w (set as)) ks ts"
      by (elim exE conjE)
    have ks: "length ks = length ts" using as(3) by (rule list_all2_lengthD)
    let ?g = "f\<lparr>p_functions := map (ORef RFuncProto) ks\<rparr>"
    have g: "\<lparr>p_sourcename = p_sourcename f, p_name = p_name f, p_stacksize = sint (word_of_int (p_stacksize f) :: u64),
        p_bgenerator = p_bgenerator f, p_varparams = ((if p_varparams f then 1 else 0 :: u64) \<noteq> 0),
        p_localvarinfos = p_localvarinfos f, p_lineinfos = p_lineinfos f, p_literals = p_literals f,
        p_parameters = p_parameters f, p_functions = map (ORef RFuncProto) ks, p_outervalues = p_outervalues f,
        p_defaultparams = p_defaultparams f, p_instructions = p_instructions f\<rparr> = ?g"
      by (simp add: st)
    let ?w = "put a (HProto ?g) w"
    have e: "extends v w (a # as)" using extends_trans [OF e1 as(1)] by simp
    then have e': "extends v ?w (a # as)" by (rule extends_put) simp
    have "a \<notin> set as" using extends_free [OF e] Suc.prems(4) by auto
    then have hp: "v_heap ?w b = v_heap w b" if "b \<in> set as" for b using that by (auto simp: put_def)
    have "list_all2 (holds ?w (set (a # as))) ks ts"
      by (rule list_all2_mono [OF as(3)], rule holds_mono, assumption) (auto simp: hp)
    moreover have "get_proto ?w a = Some ?g" by (simp add: get_proto_def put_def)
    ultimately have "holds ?w (set (a # as)) a (PTree (shape ?g) ts)"
      by (intro holdsI [where ks = ks]) simp_all
    moreover have "shape ?g = f" using fn ks by (simp add: shape_def)
    ultimately have "holds ?w (set (a # as)) a t" unfolding t by (simp only:)
    moreover have "length (a # as) = nodes t" using as(2) t by simp
    ultimately have "loads v t a ?w" unfolding loads_def using e' by blast
    then show ?thesis unfolding g by (rule reads_opt [where x = a and v' = ?w, rotated]) (rule refl)
  qed
  have "reads v (FunctionPrototype_Load (Suc n) rd) (tree_bytes pad t @ []) (loads v t)"
    unfolding t tree_bytes.simps FunctionPrototype_Load.simps append_assoc
    apply (rule reads_then_eq [OF reads_part])
    apply (rule reads_bind_eq [OF reads_object], rule so)+
    apply (rule reads_then_eq [OF reads_part])
    apply (rule reads_bind_eq [OF reads_counts], simp add: counts_def)
    apply (simp only: cn)
    apply (rule reads_count, rule cs)+
    apply (rule reads_opt_bind, rule al)
    apply (rule reads_then_eq [OF reads_part])
    apply (rule reads_bind_eq [OF reads_n], rule reads_object, rule so, assumption)
    apply (rule reads_then_eq [OF reads_part])
    apply (rule reads_bind_eq [OF reads_n], rule reads_object, rule so, assumption)
    apply (rule reads_then_eq [OF reads_part])
    apply (rule reads_bind_eq [OF reads_n], rule reads_outer, (rule so, assumption)+)
    apply (rule reads_then_eq [OF reads_part])
    apply (rule reads_bind_eq [OF reads_n], rule reads_local, rule so, assumption)
    apply (rule reads_then_eq [OF reads_part])
    apply (rule reads_bind_eq [OF reads_array], simp, simp add: so)
    apply (rule reads_then_eq [OF reads_part])
    apply (rule reads_bind_eq [OF reads_array], simp, simp add: so)
    apply (rule reads_then_eq [OF reads_part])
    apply (rule reads_bind_eq [OF reads_array], simp, simp)
    apply (rule reads_then_eq [OF reads_part])
    apply (rule reads_bind [OF kids])
    apply (rule reads_bind_eq [OF reads_int])
    apply (rule reads_bind_eq [OF reads_bool])
    apply (rule reads_bind_eq [OF reads_int])
    apply (erule fin [unfolded t])
    done
  then show ?case by simp
qed

lemma reads_closure:
  assumes t: "savable_tree t" "shaped t" "depth t \<le> n"
    and v: "distinct (v_free v)" "nodes t + 2 \<le> length (v_free v)"
  shows "reads v (LVClosure_Load n rd) (closure_bytes pad t)
    (\<lambda>ob w. \<exists>a k S. ob = ORef RClosure a \<and> get_closure w a = Some k \<and> holds w S (c_function k) t \<and>
       c_defaultparams k = replicate (length (p_defaultparams (pt_proto t))) ONull \<and>
       c_outervalues k = replicate (length (p_outervalues (pt_proto t))) ONull \<and>
       v_stack w = v_stack v \<and> v_top w = v_top v)"
    (is "reads v _ _ ?Q")
proof -
  have last: "reads w (sopt (\<lambda>v. do { (x, v) \<leftarrow> GetWeakRef (v_roottable v) v;
       (a, v) \<leftarrow> LVClosure_Create fa (Some (raw_word x)) v; Some (ORef RClosure a, v) })) [] ?Q"
    if l: "loads v t fa w" for fa w
  proof -
    from l obtain as where as: "extends v w as" "length as = nodes t" "holds w (set as) fa t"
      by (auto simp: loads_def)
    have fr: "v_free v = as @ v_free w" by (rule extends_free [OF as(1)])
    have vw: "v_stack w = v_stack v" "v_top w = v_top v" using as(1) by (auto simp: extends_def)
    obtain x w1 where x: "GetWeakRef (v_roottable w) w = Some (x, w1)" and w1: "v_stack w1 = v_stack w" "v_top w1 = v_top w"
      "v_free w1 \<noteq> []" "set (v_free w1) \<subseteq> set (v_free w)" "\<And>b. b \<in> set as \<Longrightarrow> v_heap w1 b = v_heap w b"
    proof (cases "v_weakrefs w (v_roottable w)")
      case (Some p)
      moreover have "v_free w \<noteq> []" using v(2) fr as(2) by (cases "v_free w") auto
      ultimately show ?thesis using that [of "ORef RWeakRef p" w] by (simp add: GetWeakRef_def)
    next
      case None
      obtain b bs where b: "v_free w = b # bs" "bs \<noteq> []" using v(2) fr as(2)
        by (cases "v_free w"; cases "tl (v_free w)") auto
      moreover have "b \<notin> set as" using v(1) fr b by auto
      ultimately show ?thesis using None
        by (intro that [of "ORef RWeakRef b" "w\<lparr>v_free := bs, v_heap := (v_heap w)(b \<mapsto> HWeakRef (v_roottable w)),
            v_weakrefs := (v_weakrefs w)(v_roottable w \<mapsto> b)\<rparr>"]) (auto simp: GetWeakRef_def alloc_def put_def)
    qed
    obtain a fs where a: "v_free w1 = a # fs" using w1(3) by (cases "v_free w1") auto
    have na: "a \<notin> set as" using a w1(4) v(1) fr by auto
    obtain f ts where t': "t = PTree (shape f) ts" and f: "get_proto w fa = Some f" "fa \<in> set as"
      using as(3) by (auto elim: holds.cases)
    let ?k = "\<lparr>c_env = None, c_root = Some (raw_word x), c_base = None, c_function = fa,
        c_outervalues = replicate (length (p_outervalues f)) ONull,
        c_defaultparams = replicate (length (p_defaultparams f)) ONull\<rparr>"
    let ?w = "put a (HClosure ?k) (w1\<lparr>v_free := fs\<rparr>)"
    have "get_proto w1 fa = Some f" using f w1(5) by (simp add: get_proto_def)
    then have "LVClosure_Create fa (Some (raw_word x)) w1 = Some (a, ?w)"
      by (simp add: LVClosure_Create_def alloc_def a)
    moreover have "holds ?w (set as) fa t"
      by (rule holds_mono [OF as(3) subset_refl]) (use na w1(5) in \<open>auto simp: put_def\<close>)
    ultimately show ?thesis using x w1(1,2) vw t'
      by (intro reads_opt [where x = "ORef RClosure a" and v' = ?w])
        (auto simp: get_closure_def put_def shape_def)
  qed
  have n: "nodes t \<le> length (v_free v)" using v(2) by simp
  have "reads v (LVClosure_Load n rd) (closure_bytes pad t @ []) ?Q"
    unfolding LVClosure_Load_def closure_bytes_def append_assoc
    by (rule reads_then_eq [OF reads_tag])+
      (rule reads_bind [OF reads_proto [OF t v(1) n]], rule reads_then_eq [OF reads_tag], erule last)
  then show ?thesis by simp
qed

end

end
