(* ===== verification/Closure_Files.thy ===== *)
theory Closure_Files
  imports Embedding_Objects Serialize_Source
begin

text \<open>
  Compiled closures in files (\<^verbatim>\<open>src/io.cpp\<close>): the callbacks \<open>file_write\<close> and \<open>file_read\<close> over \<open>fwrite\<close> and \<open>fread\<close>
  are a sink and a source, so a closure written to a file is read back, and a file that is cut short, or a device that
  is full, is an error and nothing worse.
\<close>

section \<open>Files\<close>

text \<open>An open binary file: its bytes, the position, and the size the device lets it grow to.\<close>

record stdfile =
  f_data :: "u8 list"
  f_pos :: nat
  f_limit :: nat

definition padded :: "nat \<Rightarrow> u8 list \<Rightarrow> u8 list" where
  "padded n bs = bs @ replicate (n - length bs) 0"

definition fwrite :: "u8 list \<Rightarrow> stdfile \<Rightarrow> int \<times> stdfile" where
  "fwrite bs f =
     (let n = min (length bs) (f_limit f - f_pos f) in
      (int n, if n = 0 then f
              else f\<lparr>f_data := take (f_pos f) (padded (f_pos f) (f_data f)) @ take n bs @ drop (f_pos f + n) (f_data f),
                f_pos := f_pos f + n\<rparr>))"

definition fread :: "int \<Rightarrow> stdfile \<Rightarrow> int \<times> u8 list \<times> stdfile" where
  "fread n f =
     (let bs = take (nat n) (drop (f_pos f) (f_data f)) in (int (length bs), bs, f\<lparr>f_pos := f_pos f + length bs\<rparr>))"

definition file_write :: "stdfile writer" where
  "file_write bs f = fwrite bs f"

definition file_read :: "stdfile reader" where
  "file_read n f = (case fread n f of (r, bs, f) \<Rightarrow> (if r \<noteq> 0 then r else - 1, bs, f))"

text \<open>\<open>fopen\<close> with mode \<^verbatim>\<open>"wb+"\<close> empties the file, or fails.\<close>

definition lv_writeclosuretofile :: "nat \<Rightarrow> (outervar \<Rightarrow> u32) \<Rightarrow> nat option \<Rightarrow> (unit, stdfile) sm" where
  "lv_writeclosuretofile n pad opened v f =
     (case opened of
        None \<Rightarrow> sfail (EMsg ''cannot open the file'') v f
      | Some limit \<Rightarrow> lv_writeclosure n pad file_write v \<lparr>f_data = [], f_pos = 0, f_limit = limit\<rparr>)"

definition file_ready :: "stdfile \<Rightarrow> bool" where
  "file_ready f \<longleftrightarrow> f_pos f = length (f_data f)"

definition file_room :: "stdfile \<Rightarrow> nat" where
  "file_room f = f_limit f - f_pos f"

definition file_rest :: "stdfile \<Rightarrow> u8 list" where
  "file_rest f = drop (f_pos f) (f_data f)"

interpretation file_sink: byte_sink file_write file_ready f_data file_room
proof
  fix bs :: "u8 list" and f assume "file_ready f" "length bs \<le> file_room f"
  then show "\<exists>f'. file_write bs f = (int (length bs), f') \<and> file_ready f' \<and> f_data f' = f_data f @ bs \<and>
          file_room f' = file_room f - length bs"
    by (cases "bs = []")
      (auto simp: file_write_def fwrite_def file_ready_def file_room_def padded_def min_absorb1 Let_def)
next
  fix bs :: "u8 list" and f assume "file_room f < length bs"
  then show "fst (file_write bs f) \<noteq> int (length bs)"
    by (auto simp: file_write_def fwrite_def file_room_def Let_def)
qed

interpretation file_source: byte_source file_read file_rest
proof
  fix n :: nat and f :: stdfile assume "0 < n" "n \<le> length (file_rest f)"
  then show "\<exists>f'. file_read (int n) f = (int n, take n (file_rest f), f') \<and> file_rest f' = drop n (file_rest f)"
    by (auto simp: file_read_def fread_def file_rest_def Let_def min_def add.commute)
next
  fix n :: nat and f :: stdfile assume "length (file_rest f) < n"
  then show "fst (file_read (int n) f) \<noteq> int n"
    by (auto simp: file_read_def fread_def file_rest_def Let_def)
qed

section \<open>A closure in a file\<close>

definition closure_file :: "(outervar \<Rightarrow> u32) \<Rightarrow> ptree \<Rightarrow> u8 list" where
  "closure_file pad t = le_bytes 2 BYTECODE_STREAM_TAG @ closure_bytes pad t"

text \<open>The closure on top of the stack, without free variables, compiled from the tree.\<close>

definition top_closure :: "vm \<Rightarrow> ptree \<Rightarrow> bool" where
  "top_closure v t \<longleftrightarrow> (\<exists>a c. stack_get v (- 1) = Some (ORef RClosure a) \<and> get_closure v a = Some c \<and>
     holds v UNIV (c_function c) t \<and> p_outervalues (pt_proto t) = [])"

lemma top_closureE:
  assumes "top_closure v t"
  obtains a c f where "stack_get v (- 1) = Some (ORef RClosure a)" "get_closure v a = Some c"
    "holds v UNIV (c_function c) t" "get_proto v (c_function c) = Some f" "p_outervalues f = []"
proof -
  obtain a c where 1: "stack_get v (- 1) = Some (ORef RClosure a)" "get_closure v a = Some c"
    "holds v UNIV (c_function c) t" "p_outervalues (pt_proto t) = []" using assms by (auto simp: top_closure_def)
  from 1(3) obtain f ts where "get_proto v (c_function c) = Some f" "t = PTree (shape f) ts"
    by (auto elim: holds.cases)
  with 1 show thesis by (intro that) (auto simp: shape_def)
qed

lemma write_closure_cases:
  assumes top: "top_closure v t" and t: "savable_tree t" "depth t \<le> n" and s: "file_ready s"
  shows "(length (closure_file pad t) \<le> file_room s \<longrightarrow>
      (\<exists>s'. lv_writeclosure n pad file_write v s = SOk () v s' \<and> f_data s' = f_data s @ closure_file pad t)) \<and>
    (file_room s < length (closure_file pad t) \<longrightarrow>
      (\<exists>v' s'. lv_writeclosure n pad file_write v s = SFail v' s' \<and>
        v_lasterror v' \<in> {OString ''io error'', error_obj write_failure}))"
proof -
  obtain a c f where top: "stack_get v (- 1) = Some (ORef RClosure a)" "get_closure v a = Some c"
    "holds v UNIV (c_function c) t" "get_proto v (c_function c) = Some f" "p_outervalues f = []"
    by (rule top_closureE [OF top])
  have w: "file_sink.writes v (LVClosure_Save n pad file_write c) (closure_bytes pad t)"
    by (rule file_sink.writes_closure [OF top(3) t])
  have eq: "lv_writeclosure n pad file_write v s =
     (case file_write (le_bytes 2 BYTECODE_STREAM_TAG) s of
        (r, s) \<Rightarrow> if r \<noteq> 2 then sfail (EMsg ''io error'') v s else LVClosure_Save n pad file_write c v s)"
    by (simp add: lv_writeclosure_def top sbind_def slook_def split: prod.split)
  show ?thesis
  proof (cases "2 \<le> file_room s")
    case True
    then obtain s1 where s1: "file_write (le_bytes 2 BYTECODE_STREAM_TAG) s = (2, s1)" "file_ready s1"
      "f_data s1 = f_data s @ le_bytes 2 BYTECODE_STREAM_TAG" "file_room s1 = file_room s - 2"
      using file_sink.accepts [OF s, of "le_bytes 2 BYTECODE_STREAM_TAG"] by auto
    have eq': "lv_writeclosure n pad file_write v s = LVClosure_Save n pad file_write c v s1"
      by (simp add: eq s1(1))
    have l: "length (closure_file pad t) = 2 + length (closure_bytes pad t)" by (simp add: closure_file_def)
    show ?thesis
    proof (intro conjI impI)
      assume "length (closure_file pad t) \<le> file_room s"
      then have "length (closure_bytes pad t) \<le> file_room s1" using l s1(4) by simp
      then obtain s2 where "LVClosure_Save n pad file_write c v s1 = SOk () v s2" "file_sink.took (closure_bytes pad t) s1 s2"
        using w s1(2) unfolding file_sink.writes_def by blast
      then show "\<exists>s'. lv_writeclosure n pad file_write v s = SOk () v s' \<and> f_data s' = f_data s @ closure_file pad t"
        using s1(3) by (auto simp: eq' file_sink.took_def closure_file_def)
    next
      assume "file_room s < length (closure_file pad t)"
      then have "file_room s1 < length (closure_bytes pad t)" using l s1(4) True by simp
      then obtain s2 where "LVClosure_Save n pad file_write c v s1 = SFail (raise write_failure v) s2"
        using w s1(2) unfolding file_sink.writes_def by blast
      then show "\<exists>v' s'. lv_writeclosure n pad file_write v s = SFail v' s' \<and>
        v_lasterror v' \<in> {OString ''io error'', error_obj write_failure}" by (simp add: eq' raise_def)
    qed
  next
    case False
    then have "fst (file_write (le_bytes 2 BYTECODE_STREAM_TAG) s) \<noteq> 2"
      using file_sink.no_room [OF s, of "le_bytes 2 BYTECODE_STREAM_TAG"] by simp
    then show ?thesis using False
      by (auto simp: eq closure_file_def sfail_def raise_def split: prod.split)
  qed
qed

lemma read_tag2:
  assumes "file_rest f = le_bytes 2 BYTECODE_STREAM_TAG @ r"
  obtains f' where "file_read 2 f = (2, le_bytes 2 BYTECODE_STREAM_TAG, f')" "file_rest f' = r"
  using file_source.delivers [of 2 f] assms that by auto

lemma read_closure_ok:
  assumes t: "savable_tree t" "shaped t" "depth t \<le> n"
    and w: "distinct (v_free w)" "nodes t + 2 \<le> length (v_free w)" "0 \<le> v_top w" "v_top w < int (length (v_stack w))"
    and f: "file_rest f = closure_file pad t"
  shows "\<exists>w' f' a k S. lv_readclosure n file_read w f = SOk () w' f' \<and> file_rest f' = [] \<and>
    Top w' = Some (ORef RClosure a) \<and> get_closure w' a = Some k \<and> holds w' S (c_function k) t \<and>
    c_defaultparams k = replicate (length (p_defaultparams (pt_proto t))) ONull"
proof -
  obtain f1 where f1: "file_read 2 f = (2, le_bytes 2 BYTECODE_STREAM_TAG, f1)" "file_rest f1 = closure_bytes pad t @ []"
    using f by (auto simp: closure_file_def elim: read_tag2)
  from file_source.reads_closure [OF t w(1,2), of pad] f1(2)
  obtain ob w1 f2 a k S where l: "LVClosure_Load n file_read w f1 = SOk ob w1 f2" "file_rest f2 = []"
    "ob = ORef RClosure a" "get_closure w1 a = Some k" "holds w1 S (c_function k) t"
    "c_defaultparams k = replicate (length (p_defaultparams (pt_proto t))) ONull"
    "v_stack w1 = v_stack w" "v_top w1 = v_top w"
    unfolding file_source.reads_def by blast
  let ?w = "w1\<lparr>v_stack := (v_stack w1)[nat (v_top w1) := ob], v_top := v_top w1 + 1\<rparr>"
  have p: "Push ob w1 = Some ?w" using w(3,4) l(7,8) by (simp add: Push_def set_stack_def)
  have h: "holds ?w S (c_function k) t" by (rule holds_mono [OF l(5)]) auto
  have "lv_readclosure n file_read w f = SOk () ?w f2"
    by (simp add: lv_readclosure_def f1(1) sbind_def l(1) sopt_def p)
  moreover have "Top ?w = Some (ORef RClosure a)" using w(3,4) l(3,7,8) by (simp add: Top_def at_stack_def)
  moreover have "get_closure ?w a = Some k" using l(4) by (simp add: get_closure_def)
  ultimately show ?thesis using l(2,6) h by blast
qed

lemma read_closure_cut:
  assumes t: "savable_tree t" "shaped t" "depth t \<le> n"
    and w: "distinct (v_free w)" "nodes t + 2 \<le> length (v_free w)"
    and f: "strict_prefix (file_rest f) (closure_file pad t)"
  shows "\<exists>w' f'. lv_readclosure n file_read w f = SFail w' f' \<and>
    v_lasterror w' \<in> {OString ''io error'', error_obj read_failure}"
proof (cases "length (file_rest f) < 2")
  case True
  then have "fst (file_read 2 f) \<noteq> 2" using file_source.no_more [of f 2] by simp
  then show ?thesis by (auto simp: lv_readclosure_def sfail_def raise_def split: prod.split)
next
  case False
  have p: "prefix (file_rest f) (closure_file pad t)" "file_rest f \<noteq> closure_file pad t" using f by auto
  have "\<exists>r. file_rest f = le_bytes 2 BYTECODE_STREAM_TAG @ r \<and> prefix r (closure_bytes pad t)"
    using p(1) unfolding closure_file_def prefix_append
  proof
    assume "prefix (file_rest f) (le_bytes 2 BYTECODE_STREAM_TAG)"
    then obtain z where "le_bytes 2 BYTECODE_STREAM_TAG = file_rest f @ z" by (auto elim: prefixE)
    moreover from this have "length (le_bytes 2 BYTECODE_STREAM_TAG) = length (file_rest f @ z)" by simp
    then have "z = []" using False by (cases z) auto
    ultimately show ?thesis by (intro exI [of _ "[]"]) simp
  qed auto
  then obtain r where r: "file_rest f = le_bytes 2 BYTECODE_STREAM_TAG @ r" "strict_prefix r (closure_bytes pad t)"
    using p(2) by (auto simp: closure_file_def strict_prefix_def)
  from r(1) obtain f1 where f1: "file_read 2 f = (2, le_bytes 2 BYTECODE_STREAM_TAG, f1)" "file_rest f1 = r"
    by (rule read_tag2)
  from file_source.reads_closure [OF t w, of pad] r(2) f1(2)
  obtain w' f' where "LVClosure_Load n file_read w f1 = SFail w' f'" "v_lasterror w' = error_obj read_failure"
    unfolding file_source.reads_def by blast
  then show ?thesis by (simp add: lv_readclosure_def f1(1) sbind_def)
qed

text \<open>
  C34: A compiled closure without free variables that is written to a file, on a device with room for it, is read back
  by any machine with memory: the call succeeds, consumes the file, and leaves on the stack a closure of a function
  with the same code, literals, parameters, names and nested functions. The values of its default parameters are null.
\<close>

theorem closure_file_roundtrip:
  assumes top: "top_closure v t" and t: "savable_tree t" "depth t \<le> n" and room: "length (closure_file pad t) \<le> limit"
    and w: "distinct (v_free w)" "nodes t + 2 \<le> length (v_free w)" "0 \<le> v_top w" "v_top w < int (length (v_stack w))"
  shows "\<exists>f w' f' a k S. lv_writeclosuretofile n pad (Some limit) v f0 = SOk () v f \<and>
     lv_readclosure n file_read w (f\<lparr>f_pos := 0\<rparr>) = SOk () w' f' \<and> file_rest f' = [] \<and>
     Top w' = Some (ORef RClosure a) \<and> get_closure w' a = Some k \<and> holds w' S (c_function k) t \<and>
     c_defaultparams k = replicate (length (p_defaultparams (pt_proto t))) ONull"
proof -
  let ?e = "\<lparr>f_data = [], f_pos = 0, f_limit = limit\<rparr>"
  have "file_ready ?e" by (simp add: file_ready_def)
  from write_closure_cases [OF top t this, of pad] room
  obtain f where f: "lv_writeclosure n pad file_write v ?e = SOk () v f" "f_data f = closure_file pad t"
    by (auto simp: file_room_def)
  have "shaped t" using top by (auto simp: top_closure_def intro: holds_shaped)
  moreover have "file_rest (f\<lparr>f_pos := 0\<rparr>) = closure_file pad t" by (simp add: file_rest_def f(2))
  ultimately show ?thesis
    using read_closure_ok [OF t(1) _ t(2) w] f(1) by (auto simp: lv_writeclosuretofile_def)
qed


section \<open>An example\<close>

text \<open>The function \<open>f(x = 5) = x\<close> with one nested function, in a machine with the closure on top of its stack.\<close>

definition inner_proto :: funcproto where
  "inner_proto = (blank_proto (OString ''buffer'') (OString ''g''))\<lparr>p_stacksize := 2, p_parameters := [OString ''this''],
     p_outervalues := [\<lparr>ov_type = otLOCAL, ov_name = OString ''x'', ov_src = OInteger 1\<rparr>],
     p_instructions := [Instr OP_GETOUTER 1 0 0 0, Instr OP_RETURN 1 1 0 0]\<rparr>"

definition outer_proto :: funcproto where
  "outer_proto = (blank_proto (OString ''buffer'') (OString ''f''))\<lparr>p_stacksize := 4,
     p_parameters := [OString ''this'', OString ''x''], p_literals := [OString ''x'', OInteger 5, OFloat 0x3F800000],
     p_localvarinfos := [\<lparr>lv_name = OString ''x'', lv_start = 0, lv_end = 2, lv_pos = 1\<rparr>],
     p_lineinfos := [\<lparr>li_line = 1, li_op = 0\<rparr>], p_defaultparams := [2], p_functions := [ORef RFuncProto 16],
     p_instructions := [Instr OP_RETURN 1 1 0 0]\<rparr>"

definition sample_tree :: ptree where
  "sample_tree = PTree (shape outer_proto) [PTree (shape inner_proto) []]"

definition file_vm :: "u64 list \<Rightarrow> vm" where
  "file_vm fs = sample_vm\<lparr>v_free := fs, v_heap := [16 \<mapsto> HProto inner_proto, 32 \<mapsto> HProto outer_proto,
     48 \<mapsto> HClosure \<lparr>c_env = None, c_root = None, c_base = None, c_function = 32, c_outervalues = [], c_defaultparams = [OInteger 5]\<rparr>],
     v_stack := [ORef RClosure 48, ONull], v_top := 1\<rparr>"

lemma sample_top: "top_closure (file_vm fs) sample_tree"
proof -
  have "holds (file_vm fs) UNIV 16 (PTree (shape inner_proto) [])"
    by (rule holds.intros [where ks = "[]"]) (simp_all add: file_vm_def get_proto_def inner_proto_def blank_proto_def)
  then have "holds (file_vm fs) UNIV 32 sample_tree" unfolding sample_tree_def
    by (intro holds.intros [where ks = "[16]"]) (simp_all add: file_vm_def get_proto_def outer_proto_def)
  then show ?thesis unfolding top_closure_def
    by (intro exI [of _ 48] exI [of _ "\<lparr>c_env = None, c_root = None, c_base = None, c_function = 32, c_outervalues = [],
          c_defaultparams = [OInteger 5]\<rparr>"])
      (simp add: file_vm_def sample_vm_def stack_get_def GetUp_def at_stack_def get_closure_def sample_tree_def shape_def
         outer_proto_def blank_proto_def)
qed

lemma sample_savable: "savable_tree sample_tree" "depth sample_tree \<le> 2"
  by (simp_all add: sample_tree_def outer_proto_def inner_proto_def shape_def blank_proto_def savable_def counts_def)

lemma sample_reader: "distinct (v_free (file_vm [64, 80, 96, 112]))"
  "nodes sample_tree + 2 \<le> length (v_free (file_vm [64, 80, 96, 112]))"
  "0 \<le> v_top (file_vm fs)" "v_top (file_vm fs) < int (length (v_stack (file_vm fs)))"
  by (simp_all add: file_vm_def sample_tree_def)

lemma sample_length: "300 < length (closure_file (\<lambda>_. 0) sample_tree)" "length (closure_file (\<lambda>_. 0) sample_tree) \<le> 1000"
  by code_simp+

theorem closure_file_roundtrip_witness:
  "\<exists>f w' f' a k S.
     lv_writeclosuretofile 2 (\<lambda>_. 0) (Some 1000) (file_vm []) \<lparr>f_data = [], f_pos = 0, f_limit = 0\<rparr> = SOk () (file_vm []) f \<and>
     lv_readclosure 2 file_read (file_vm [64, 80, 96, 112]) (f\<lparr>f_pos := 0\<rparr>) = SOk () w' f' \<and> file_rest f' = [] \<and>
     Top w' = Some (ORef RClosure a) \<and> get_closure w' a = Some k \<and> holds w' S (c_function k) sample_tree \<and>
     c_defaultparams k = replicate (length (p_defaultparams (pt_proto sample_tree))) ONull"
proof -
  from closure_file_roundtrip [OF sample_top sample_savable sample_length(2) sample_reader] show ?thesis .
qed


end
