(* ===== verification/Sorting.thy ===== *)
theory Sorting
  imports Embedding_Objects "HOL-Library.Multiset"
begin

text \<open>
  The method \<open>sort\<close> of arrays (\<^verbatim>\<open>src/baselib.cpp\<close>): a heap sort in place, whose comparison is \<open>ObjCmp\<close> or a function
  of the program. The heap has its root at index 0 with one child, index 1, and the children of a later index are
  its double and the next one.
\<close>

section \<open>The code\<close>

definition sort_compare :: "callfn \<Rightarrow> int \<Rightarrow> lvobj \<Rightarrow> lvobj \<Rightarrow> vm \<Rightarrow> (int option \<times> vm) option" where
  "sort_compare call func a b v =
     (if func < 0 then vm_ObjCmp call a b v
      else do {
        let t = lv_gettop v;
        v \<leftarrow> lv_push func v;
        v \<leftarrow> lv_pushroottable v;
        v \<leftarrow> Push a v;
        v \<leftarrow> Push b v;
        (r, v) \<leftarrow> lv_call call 3 True False v;
        if \<not> r then
          Some (None, if otype (v_lasterror v) = OT_STRING then v else raise (EMsg ''compare func failed'') v)
        else do {
          i \<leftarrow> lv_getinteger (- 1) v;
          (case i of
             None \<Rightarrow> Some (None, raise (EMsg ''numeric value expected as return value of the compare function'') v)
           | Some i \<Rightarrow> do { v \<leftarrow> lv_settop t v; Some (Some (sint i), v) })
        }
      })"

text \<open>
  The array is read and written where it is: an index the comparison function has cut off is outside. \<open>compare\<close> is the
  comparison; it may change the machine.
\<close>

type_synonym comparison = "lvobj \<Rightarrow> lvobj \<Rightarrow> vm \<Rightarrow> (int option \<times> vm) option"

definition elem :: "u64 \<Rightarrow> nat \<Rightarrow> vm \<Rightarrow> lvobj option" where
  "elem arr i v = do { t \<leftarrow> get_array v arr; nth_opt (vvals t) i }"

definition compare_at :: "comparison \<Rightarrow> u64 \<Rightarrow> nat \<Rightarrow> nat \<Rightarrow> vm \<Rightarrow> (int option \<times> vm) option" where
  "compare_at compare arr i j v = do { a \<leftarrow> elem arr i v; b \<leftarrow> elem arr j v; compare a b v }"

definition swap_at :: "u64 \<Rightarrow> nat \<Rightarrow> nat \<Rightarrow> vm \<Rightarrow> vm option" where
  "swap_at arr i j v = do {
     t \<leftarrow> get_array v arr;
     a \<leftarrow> nth_opt (vvals t) i;
     b \<leftarrow> nth_opt (vvals t) j;
     Some (put_array arr (t\<lparr>vvals := (vvals t)[i := b, j := a]\<rparr>) v)
   }"

text \<open>The larger child of \<open>root\<close>.\<close>

definition max_child :: "comparison \<Rightarrow> u64 \<Rightarrow> nat \<Rightarrow> nat \<Rightarrow> vm \<Rightarrow> (nat option \<times> vm) option" where
  "max_child compare arr root bottom v =
     (let root2 = root * 2 in
      if root2 = bottom then Some (Some root2, v)
      else do {
        (r, v) \<leftarrow> compare_at compare arr root2 (root2 + 1) v;
        Some (map_option (\<lambda>r. if r > 0 then root2 else root2 + 1) r, v)
      })"

lemma max_child_range:
  "max_child compare arr root bottom v = Some (Some c, v') \<Longrightarrow> root * 2 \<le> bottom \<Longrightarrow>
   (c = root * 2 \<or> c = root * 2 + 1) \<and> c \<le> bottom"
  by (auto simp: max_child_def Let_def bind_eq_Some_conv split: if_splits)

function hsort_sift_down :: "comparison \<Rightarrow> u64 \<Rightarrow> nat \<Rightarrow> nat \<Rightarrow> vm \<Rightarrow> (bool \<times> vm) option" where
  "hsort_sift_down compare arr root bottom v =
     (if root * 2 \<le> bottom then
        (case max_child compare arr root bottom v of
           None \<Rightarrow> None
         | Some (None, v) \<Rightarrow> Some (False, v)
         | Some (Some maxChild, v) \<Rightarrow>
             (case compare_at compare arr root maxChild v of
                None \<Rightarrow> None
              | Some (None, v) \<Rightarrow> Some (False, v)
              | Some (Some r, v) \<Rightarrow>
                  if r < 0 then
                    (if root = maxChild then Some (False, raise (EMsg ''inconsistent compare function'') v)
                     else case swap_at arr root maxChild v of
                         None \<Rightarrow> None
                       | Some v \<Rightarrow> hsort_sift_down compare arr maxChild bottom v)
                  else Some (True, v)))
      else Some (True, v))"
  by pat_completeness auto

termination
  by (relation "measure (\<lambda>(compare, arr, root, bottom, v). bottom + 1 - root)")
    (auto dest!: max_child_range)

declare hsort_sift_down.simps [simp del]

text \<open>The two loops of \<open>_hsort\<close>.\<close>

fun hsort_heapify :: "comparison \<Rightarrow> u64 \<Rightarrow> nat \<Rightarrow> nat \<Rightarrow> vm \<Rightarrow> (bool \<times> vm) option" where
  "hsort_heapify compare arr n 0 v = hsort_sift_down compare arr 0 (n - 1) v"
| "hsort_heapify compare arr n (Suc i) v = do {
     (b, v) \<leftarrow> hsort_sift_down compare arr (Suc i) (n - 1) v;
     if \<not> b then Some (False, v) else hsort_heapify compare arr n i v
   }"

fun hsort_extract :: "comparison \<Rightarrow> u64 \<Rightarrow> nat \<Rightarrow> vm \<Rightarrow> (bool \<times> vm) option" where
  "hsort_extract compare arr 0 v = Some (True, v)"
| "hsort_extract compare arr (Suc i) v = do {
     v \<leftarrow> swap_at arr 0 (Suc i) v;
     (b, v) \<leftarrow> hsort_sift_down compare arr 0 i v;
     if \<not> b then Some (False, v) else hsort_extract compare arr i v
   }"

definition hsort :: "comparison \<Rightarrow> u64 \<Rightarrow> vm \<Rightarrow> (bool \<times> vm) option" where
  "hsort compare arr v = do {
     t \<leftarrow> get_array v arr;
     let n = vsize t;
     (b, v) \<leftarrow> hsort_heapify compare arr n (n div 2) v;
     if \<not> b then Some (False, v) else hsort_extract compare arr (n - 1) v
   }"

definition array_sort :: "callfn \<Rightarrow> vm \<Rightarrow> (int \<times> vm) option" where
  "array_sort call v = do {
     ob \<leftarrow> stack_get v 1;
     (case ob of
        ORef RArray arr \<Rightarrow> do {
          t \<leftarrow> get_array v arr;
          if vsize t > 1 then do {
            let func = (if lv_gettop v = 2 then 2 else - 1);
            (b, v) \<leftarrow> hsort (sort_compare call func) arr v;
            Some (if b then 0 else - 1, v)
          } else Some (0, v)
        }
      | _ \<Rightarrow> None)
   }"

section \<open>The algorithm on lists\<close>

lemma mset_swap_front [simp]: "Suc i < length xs \<Longrightarrow> mset (xs[0 := xs ! Suc i, Suc i := xs ! 0]) = mset xs"
  by (rule mset_swap) auto

locale heap_order =
  fixes cmp :: "'a \<Rightarrow> 'a \<Rightarrow> int" and D :: "'a set"
  assumes flip: "x \<in> D \<Longrightarrow> y \<in> D \<Longrightarrow> 0 < cmp x y \<longleftrightarrow> cmp y x < 0"
    and trans: "x \<in> D \<Longrightarrow> y \<in> D \<Longrightarrow> z \<in> D \<Longrightarrow> cmp x y \<le> 0 \<Longrightarrow> cmp y z \<le> 0 \<Longrightarrow> cmp x z \<le> 0"
begin

abbreviation le :: "'a \<Rightarrow> 'a \<Rightarrow> bool" where "le x y \<equiv> cmp x y \<le> 0"

definition child_of :: "'a list \<Rightarrow> nat \<Rightarrow> nat \<Rightarrow> nat" where
  "child_of xs root bottom =
     (if root * 2 = bottom then root * 2
      else if cmp (xs ! (root * 2)) (xs ! (root * 2 + 1)) > 0 then root * 2 else root * 2 + 1)"

function sift :: "'a list \<Rightarrow> nat \<Rightarrow> nat \<Rightarrow> 'a list" where
  "sift xs root bottom =
     (if root * 2 \<le> bottom then
        let c = child_of xs root bottom in
        if cmp (xs ! root) (xs ! c) < 0 \<and> root \<noteq> c then sift (xs[root := xs ! c, c := xs ! root]) c bottom else xs
      else xs)"
  by pat_completeness auto
termination
  by (relation "measure (\<lambda>(xs, root, bottom). bottom + 1 - root)") (auto simp: child_of_def Let_def split: if_splits)

declare sift.simps [simp del]

text \<open>A heap from \<open>lo\<close> to \<open>hi\<close>, at every node but those below \<open>r\<close>, whose children respect the node above it.\<close>

definition heap :: "'a list \<Rightarrow> nat \<Rightarrow> nat \<Rightarrow> bool" where
  "heap xs lo hi \<longleftrightarrow> (\<forall>j. 1 \<le> j \<and> j \<le> hi \<and> lo \<le> j div 2 \<longrightarrow> le (xs ! j) (xs ! (j div 2)))"

definition heap_but :: "'a list \<Rightarrow> nat \<Rightarrow> nat \<Rightarrow> nat \<Rightarrow> bool" where
  "heap_but xs lo hi r \<longleftrightarrow> (\<forall>j. 1 \<le> j \<and> j \<le> hi \<and> lo \<le> j div 2 \<longrightarrow>
     (j div 2 \<noteq> r \<longrightarrow> le (xs ! j) (xs ! (j div 2))) \<and>
     (j div 2 = r \<and> 1 \<le> r \<and> lo \<le> r div 2 \<longrightarrow> le (xs ! j) (xs ! (r div 2))))"

lemma heap_butD:
  "heap_but xs lo hi r \<Longrightarrow> 1 \<le> j \<Longrightarrow> j \<le> hi \<Longrightarrow> lo \<le> j div 2 \<Longrightarrow> j div 2 = r \<Longrightarrow> 1 \<le> r \<Longrightarrow> lo \<le> r div 2 \<Longrightarrow>
   le (xs ! j) (xs ! (r div 2))"
  by (simp add: heap_but_def)

lemma order_reflexive: "x \<in> D \<Longrightarrow> le x x"
  using flip [of x x] by force

lemma length_sift [simp]: "length (sift xs root bottom) = length xs"
  by (induction xs root bottom rule: sift.induct) (subst sift.simps, simp add: Let_def)

lemma mset_sift: "bottom < length xs \<Longrightarrow> mset (sift xs root bottom) = mset xs"
proof (induction xs root bottom rule: sift.induct)
  case (1 xs root bottom)
  have c: "root * 2 \<le> bottom \<Longrightarrow> child_of xs root bottom \<le> bottom" by (auto simp: child_of_def)
  show ?case
    using 1 c by (subst sift.simps) (auto simp: Let_def mset_swap)
qed

lemma set_swap_subset: "i < length xs \<Longrightarrow> j < length xs \<Longrightarrow> set xs \<subseteq> D \<Longrightarrow> set (xs[i := xs ! j, j := xs ! i]) \<subseteq> D"
  by (simp add: set_swap)

lemma sift_outside: "bottom < length xs \<Longrightarrow> j < root \<or> bottom < j \<Longrightarrow> sift xs root bottom ! j = xs ! j"
proof (induction xs root bottom rule: sift.induct)
  case (1 xs root bottom)
  let ?c = "child_of xs root bottom"
  show ?case
  proof (cases "root * 2 \<le> bottom \<and> cmp (xs ! root) (xs ! ?c) < 0 \<and> root \<noteq> ?c")
    case True
    then have c: "root < ?c" "?c \<le> bottom" by (auto simp: child_of_def split: if_splits)
    have "sift xs root bottom = sift (xs[root := xs ! ?c, ?c := xs ! root]) ?c bottom"
      using True by (subst sift.simps) (simp add: Let_def)
    then show ?thesis using 1 True c by (auto simp: Let_def)
  next
    case False
    then have "sift xs root bottom = xs" by (subst sift.simps) (auto simp: Let_def)
    then show ?thesis by simp
  qed
qed

lemma child_le:
  assumes D: "set xs \<subseteq> D" and b: "bottom < length xs" and r: "root * 2 \<le> bottom"
    and j: "1 \<le> j" "j \<le> bottom" "j div 2 = root"
  shows "le (xs ! j) (xs ! child_of xs root bottom)"
proof -
  have in_D: "k \<le> bottom \<Longrightarrow> xs ! k \<in> D" for k using D b by (auto simp: subset_iff)
  have jj: "j = root * 2 \<or> j = root * 2 + 1" using j by presburger
  show ?thesis
  proof (cases "root * 2 = bottom")
    case True then show ?thesis using jj j in_D order_reflexive by (auto simp: child_of_def)
  next
    case False
    then have "root * 2 + 1 \<le> bottom" using r by simp
    then have "xs ! (root * 2) \<in> D" "xs ! (root * 2 + 1) \<in> D" using in_D r by auto
    then show ?thesis using jj False flip [of "xs ! (root * 2)" "xs ! (root * 2 + 1)"] order_reflexive
      by (auto simp: child_of_def not_less)
  qed
qed

lemma sift_heap:
  assumes "bottom < length xs" "set xs \<subseteq> D" "lo \<le> root" "heap_but xs lo bottom root"
  shows "heap (sift xs root bottom) lo bottom"
  using assms
proof (induction xs root bottom rule: sift.induct)
  case (1 xs root bottom)
  let ?c = "child_of xs root bottom"
  have in_D: "k \<le> bottom \<Longrightarrow> xs ! k \<in> D" for k using "1.prems" by (auto simp: subset_iff)
  show ?case
  proof (cases "root * 2 \<le> bottom \<and> cmp (xs ! root) (xs ! ?c) < 0 \<and> root \<noteq> ?c")
    case True
    let ?ys = "xs[root := xs ! ?c, ?c := xs ! root]"
    have c: "root < ?c" "?c \<le> bottom" "?c div 2 = root" "1 \<le> ?c"
      using True by (auto simp: child_of_def split: if_splits)
    have eq: "sift xs root bottom = sift ?ys ?c bottom"
      using True by (subst sift.simps) (simp add: Let_def)
    have ys: "?ys ! root = xs ! ?c" "?ys ! ?c = xs ! root" "k \<noteq> root \<Longrightarrow> k \<noteq> ?c \<Longrightarrow> ?ys ! k = xs ! k" for k
      using c "1.prems"(1) by auto
    have hb: "heap_but ?ys lo bottom ?c"
      unfolding heap_but_def
    proof (intro allI impI conjI; elim conjE)
      fix j assume j: "1 \<le> j" "j \<le> bottom" "lo \<le> j div 2" and ne: "j div 2 \<noteq> ?c"
      show "le (?ys ! j) (?ys ! (j div 2))"
      proof (cases "j div 2 = root")
        case jr: True
        show ?thesis
        proof (cases "j = ?c")
          case True
          then show ?thesis using \<open>root * 2 \<le> bottom \<and> _\<close> ys c jr by simp
        next
          case False
          moreover have "j \<noteq> root" using jr j by auto
          ultimately show ?thesis
            using child_le [OF "1.prems"(2,1) _ j(1,2) jr] True ys jr by simp
        qed
      next
        case jr: False
        have old: "le (xs ! j) (xs ! (j div 2))" using "1.prems"(4) j jr by (auto simp: heap_but_def)
        show ?thesis
        proof (cases "j = root")
          case True
          then have "le (xs ! ?c) (xs ! (root div 2))"
            using "1.prems"(3) c j heap_butD [OF "1.prems"(4), of ?c] by simp
          moreover have "root div 2 \<noteq> root" "root div 2 \<noteq> ?c" using True j c by auto
          ultimately show ?thesis using True ys by simp
        next
          case False
          moreover have "j \<noteq> ?c" using jr c by auto
          ultimately show ?thesis using old ys jr ne by simp
        qed
      qed
    next
      fix j assume j: "1 \<le> j" "j \<le> bottom" "lo \<le> j div 2" and jc: "j div 2 = ?c" "1 \<le> ?c" "lo \<le> ?c div 2"
      have "j \<noteq> root" "j \<noteq> ?c" using jc c by auto
      moreover have "le (xs ! j) (xs ! ?c)" using "1.prems"(4) j jc c by (auto simp: heap_but_def)
      ultimately show "le (?ys ! j) (?ys ! (?c div 2))" using ys c by simp
    qed
    show ?thesis unfolding eq
      by (rule "1.IH"[OF _ refl]) (use True hb c "1.prems" set_swap_subset [of root xs ?c] in auto)
  next
    case False
    then have eq: "sift xs root bottom = xs" by (subst sift.simps) (auto simp: Let_def)
    show ?thesis unfolding eq heap_def
    proof (intro allI impI; elim conjE)
      fix j assume j: "1 \<le> j" "j \<le> bottom" "lo \<le> j div 2"
      show "le (xs ! j) (xs ! (j div 2))"
      proof (cases "j div 2 = root")
        case True
        then have r: "root * 2 \<le> bottom" using j by auto
        have c: "?c \<le> bottom" using r by (auto simp: child_of_def)
        have "le (xs ! j) (xs ! ?c)" by (rule child_le) (use True j r "1.prems" in auto)
        moreover have "le (xs ! ?c) (xs ! root)"
        proof (cases "root = ?c")
          case True then show ?thesis using in_D [OF c] order_reflexive by simp
        next
          case ne: False
          then have "\<not> cmp (xs ! root) (xs ! ?c) < 0" using False r by simp
          then show ?thesis using flip [of "xs ! ?c" "xs ! root"] in_D [OF c] in_D [of root] r by (auto simp: not_less)
        qed
        ultimately show ?thesis
          using True j r c in_D trans [of "xs ! j" "xs ! ?c" "xs ! root"] by auto
      next
        case False then show ?thesis using "1.prems"(4) j by (auto simp: heap_but_def)
      qed
    qed
  qed
qed

text \<open>The two loops of \<open>_hsort\<close>.\<close>

fun build :: "'a list \<Rightarrow> nat \<Rightarrow> 'a list" where
  "build xs 0 = sift xs 0 (length xs - 1)"
| "build xs (Suc i) = build (sift xs (Suc i) (length xs - 1)) i"

fun select :: "'a list \<Rightarrow> nat \<Rightarrow> 'a list" where
  "select xs 0 = xs"
| "select xs (Suc i) = select (sift (xs[0 := xs ! Suc i, Suc i := xs ! 0]) 0 i) i"

lemma length_build [simp]: "length (build xs i) = length xs"
  by (induction xs i rule: build.induct) simp_all

lemma length_select [simp]: "length (select xs i) = length xs"
  by (induction xs i rule: select.induct) simp_all

lemma mset_build: "xs \<noteq> [] \<Longrightarrow> mset (build xs i) = mset xs"
proof (induction xs i rule: build.induct)
  case (2 xs i)
  have "sift xs (Suc i) (length xs - 1) \<noteq> []" using 2 by (simp flip: length_greater_0_conv)
  then show ?case using 2 mset_sift [of "length xs - 1" xs] by simp
qed (simp add: mset_sift)

lemma mset_select: "i < length xs \<Longrightarrow> mset (select xs i) = mset xs"
  by (induction xs i rule: select.induct) (simp_all add: mset_sift)

lemma heap_but_start: "heap xs (Suc i) hi \<Longrightarrow> heap_but xs i hi i"
  by (auto simp: heap_def heap_but_def)

lemma build_heap: "xs \<noteq> [] \<Longrightarrow> set xs \<subseteq> D \<Longrightarrow> heap xs (Suc i) (length xs - 1) \<Longrightarrow> heap (build xs i) 0 (length xs - 1)"
proof (induction xs i rule: build.induct)
  case (1 xs)
  then show ?case using sift_heap [of "length xs - 1" xs 0 0] heap_but_start [of xs 0] by simp
next
  case (2 xs i)
  let ?ys = "sift xs (Suc i) (length xs - 1)"
  have ys: "mset ?ys = mset xs" using 2 by (simp add: mset_sift)
  have "heap ?ys (Suc i) (length xs - 1)"
    using 2 sift_heap [of "length xs - 1" xs "Suc i" "Suc i"] heap_but_start [of xs "Suc i"] by simp
  moreover have "set ?ys \<subseteq> D" using 2 mset_eq_setD [OF ys] by blast
  moreover have "?ys \<noteq> []" using 2 by (simp flip: length_greater_0_conv)
  ultimately show ?case using "2.IH" by simp
qed

lemma root_largest: "heap xs 0 hi \<Longrightarrow> hi < length xs \<Longrightarrow> set xs \<subseteq> D \<Longrightarrow> j \<le> hi \<Longrightarrow> le (xs ! j) (xs ! 0)"
proof (induction j rule: less_induct)
  case (less j)
  have in_D: "k \<le> hi \<Longrightarrow> xs ! k \<in> D" for k using less.prems by (auto simp: subset_iff)
  show ?case
  proof (cases "j = 0")
    case True then show ?thesis using in_D [of 0] order_reflexive by simp
  next
    case False
    then have up: "le (xs ! j) (xs ! (j div 2))" using less.prems by (auto simp: heap_def)
    have "le (xs ! (j div 2)) (xs ! 0)" using less.IH [of "j div 2"] less.prems False by simp
    then show ?thesis using up trans [of "xs ! j" "xs ! (j div 2)" "xs ! 0"] in_D less.prems(4) by simp
  qed
qed

lemma set_take_sift: "bottom < length xs \<Longrightarrow> set (take (Suc bottom) (sift xs root bottom)) = set (take (Suc bottom) xs)"
proof -
  assume b: "bottom < length xs"
  have "drop (Suc bottom) (sift xs root bottom) = drop (Suc bottom) xs"
    by (rule nth_equalityI) (auto simp: sift_outside b)
  then have "mset (take (Suc bottom) (sift xs root bottom)) = mset (take (Suc bottom) xs)"
    using mset_sift [OF b, of root] append_take_drop_id [of "Suc bottom" "sift xs root bottom"]
      append_take_drop_id [of "Suc bottom" xs] mset_append add_right_cancel by metis
  then show ?thesis by (rule mset_eq_setD)
qed

text \<open>Between the rounds of the second loop a heap stands before the sorted elements, which are not smaller.\<close>

definition half_sorted :: "'a list \<Rightarrow> nat \<Rightarrow> bool" where
  "half_sorted xs i \<longleftrightarrow> heap xs 0 i \<and> sorted_wrt le (drop (Suc i) xs) \<and>
     (\<forall>x \<in> set (take (Suc i) xs). \<forall>y \<in> set (drop (Suc i) xs). le x y)"

lemma select_round:
  assumes h: "half_sorted xs (Suc i)" and i: "Suc i < length xs" and D: "set xs \<subseteq> D"
  shows "half_sorted (sift (xs[0 := xs ! Suc i, Suc i := xs ! 0]) 0 i) i"
proof -
  let ?ys = "xs[0 := xs ! Suc i, Suc i := xs ! 0]" let ?zs = "sift ?ys 0 i"
  have ys: "set ?ys \<subseteq> D" "i < length ?ys" using mset_eq_setD [OF mset_swap_front [OF i]] i D by auto
  have hp: "heap xs 0 (Suc i)" using h by (simp add: half_sorted_def)
  have "heap_but ?ys 0 i 0" unfolding heap_but_def
  proof (intro allI impI conjI)
    fix j assume j: "1 \<le> j \<and> j \<le> i \<and> 0 \<le> j div 2" and "j div 2 \<noteq> 0"
    then show "le (?ys ! j) (?ys ! (j div 2))" using hp i by (auto simp: heap_def nth_list_update)
  qed simp
  then have "heap ?zs 0 i" using sift_heap [of i ?ys 0 0] ys by simp
  moreover have zs: "drop (Suc i) ?zs = xs ! 0 # drop (Suc (Suc i)) xs"
  proof -
    have "drop (Suc i) ?zs = drop (Suc i) ?ys" by (rule nth_equalityI) (use ys in \<open>auto simp: sift_outside\<close>)
    then show ?thesis using i by (simp add: Cons_nth_drop_Suc [symmetric])
  qed
  moreover have pre: "set (take (Suc i) ?zs) \<subseteq> set (take (Suc (Suc i)) xs)"
  proof -
    have "set (take (Suc i) ?zs) = set (take (Suc i) ?ys)" by (rule set_take_sift) (use ys in simp)
    also have "\<dots> \<subseteq> set (take (Suc (Suc i)) xs)"
    proof
      fix x assume "x \<in> set (take (Suc i) ?ys)"
      then obtain k where k: "k \<le> i" "x = ?ys ! k" using i by (auto simp: in_set_conv_nth less_Suc_eq_le)
      then have "x = take (Suc (Suc i)) xs ! (if k = 0 then Suc i else k)" using i by (cases xs) (simp_all add: nth_list_update)
      then show "x \<in> set (take (Suc (Suc i)) xs)" using i k
        by (simp only:) (rule nth_mem, simp)
    qed
    finally show ?thesis .
  qed
  moreover have "x \<in> set (take (Suc (Suc i)) xs) \<Longrightarrow> le x (xs ! 0)" for x
    using root_largest [OF hp i D] by (auto simp: in_set_conv_nth)
  moreover have "xs ! 0 \<in> set (take (Suc (Suc i)) xs)" using i by (cases xs) auto
  ultimately show ?thesis using h by (auto simp: half_sorted_def subset_iff)
qed

lemma select_sorted: "half_sorted xs i \<Longrightarrow> i < length xs \<Longrightarrow> set xs \<subseteq> D \<Longrightarrow> half_sorted (select xs i) 0"
proof (induction xs i rule: select.induct)
  case (2 xs i)
  let ?ys = "sift (xs[0 := xs ! Suc i, Suc i := xs ! 0]) 0 i"
  have "mset ?ys = mset xs" using 2 by (simp add: mset_sift)
  then have "set ?ys \<subseteq> D" using 2 mset_eq_setD by metis
  then show ?case using 2 select_round [of xs i] by simp
qed simp

definition heap_sort :: "'a list \<Rightarrow> 'a list" where
  "heap_sort xs = select (build xs (length xs div 2)) (length xs - 1)"

lemma mset_heap_sort: "xs \<noteq> [] \<Longrightarrow> mset (heap_sort xs) = mset xs"
  unfolding heap_sort_def by (subst mset_select) (simp_all add: mset_build)

lemma heap_sort_sorted: "xs \<noteq> [] \<Longrightarrow> set xs \<subseteq> D \<Longrightarrow> sorted_wrt le (heap_sort xs)"
proof -
  assume xs: "xs \<noteq> []" "set xs \<subseteq> D"
  let ?b = "build xs (length xs div 2)"
  have b: "mset ?b = mset xs" "set ?b \<subseteq> D" using xs mset_build [of xs] mset_eq_setD by (blast, metis)
  have "heap xs (Suc (length xs div 2)) (length xs - 1)" by (auto simp: heap_def)
  then have "heap ?b 0 (length xs - 1)" using xs build_heap by simp
  then have "half_sorted ?b (length xs - 1)" using xs by (simp add: half_sorted_def)
  then have h: "half_sorted (heap_sort xs) 0" unfolding heap_sort_def using select_sorted b xs by simp
  show ?thesis
  proof (cases "heap_sort xs")
    case (Cons y ys) then show ?thesis using h by (simp add: half_sorted_def)
  qed simp
qed

end

section \<open>The code sorts\<close>

lemma get_put_array [simp]: "get_array (put_array a t v) a = Some t"
  by (simp add: get_array_def put_array_def put_def)

lemma put_put_array [simp]: "put_array a t (put_array a u v) = put_array a t v"
  by (simp add: put_array_def put_def)

lemma put_same_array: "get_array v a = Some t \<Longrightarrow> put_array a t v = v"
  by (auto simp: get_array_def put_array_def put_def fun_upd_idem split: option.splits heap_obj.splits)

lemma nth_opt_Some: "i < length xs \<Longrightarrow> nth_opt xs i = Some (xs ! i)"
  by (simp add: nth_opt_def)

lemma elem_nth: "get_array v a = Some t \<Longrightarrow> i < vsize t \<Longrightarrow> elem a i v = Some (vvals t ! i)"
  by (simp add: elem_def nth_opt_Some)

lemma swap_at_array: "get_array v a = Some t \<Longrightarrow> i < vsize t \<Longrightarrow> j < vsize t \<Longrightarrow>
   swap_at a i j v = Some (put_array a (t\<lparr>vvals := (vvals t)[i := vvals t ! j, j := vvals t ! i]\<rparr>) v)"
  by (simp add: swap_at_def nth_opt_Some)

text \<open>A comparison that answers by the order on the objects of the array and leaves the machine alone.\<close>

locale vm_sort = heap_order cmp D for cmp :: "lvobj \<Rightarrow> lvobj \<Rightarrow> int" and D +
  fixes compare :: comparison
  assumes answers: "x \<in> D \<Longrightarrow> y \<in> D \<Longrightarrow> compare x y v = Some (Some (cmp x y), v)"
begin

lemma compare_at_answers:
  "get_array v a = Some t \<Longrightarrow> set (vvals t) \<subseteq> D \<Longrightarrow> i < vsize t \<Longrightarrow> j < vsize t \<Longrightarrow>
   compare_at compare a i j v = Some (Some (cmp (vvals t ! i) (vvals t ! j)), v)"
  by (simp add: compare_at_def elem_nth answers subset_iff)

lemma max_child_answers:
  "get_array v a = Some t \<Longrightarrow> set (vvals t) \<subseteq> D \<Longrightarrow> bottom < vsize t \<Longrightarrow> root * 2 \<le> bottom \<Longrightarrow>
   max_child compare a root bottom v = Some (Some (child_of (vvals t) root bottom), v)"
  by (auto simp: max_child_def child_of_def Let_def compare_at_answers)

lemma hsort_sift_down_sifts:
  "get_array v a = Some t \<Longrightarrow> set (vvals t) \<subseteq> D \<Longrightarrow> bottom < vsize t \<Longrightarrow>
   hsort_sift_down compare a root bottom v = Some (True, put_array a (t\<lparr>vvals := sift (vvals t) root bottom\<rparr>) v)"
proof (induction "vvals t" root bottom arbitrary: t v rule: sift.induct)
  case (1 root bottom)
  let ?xs = "vvals t" let ?c = "child_of ?xs root bottom"
  show ?case
  proof (cases "root * 2 \<le> bottom")
    case False
    then show ?thesis
      using put_same_array [OF "1.prems"(1)] by (simp add: hsort_sift_down.simps sift.simps)
  next
    case True
    then have c: "?c \<le> bottom" by (auto simp: child_of_def)
    have in_D: "?xs ! root \<in> D" using "1.prems" True by (auto simp: subset_iff)
    have mc: "max_child compare a root bottom v = Some (Some ?c, v)" by (rule max_child_answers) (use "1.prems" True in auto)
    have cp: "compare_at compare a root ?c v = Some (Some (cmp (?xs ! root) (?xs ! ?c)), v)"
      by (rule compare_at_answers) (use "1.prems" True c in auto)
    show ?thesis
    proof (cases "cmp (?xs ! root) (?xs ! ?c) < 0")
      case False
      have s: "sift ?xs root bottom = ?xs" using False True by (subst sift.simps) (simp add: Let_def)
      show ?thesis unfolding s
        using True mc cp False put_same_array [OF "1.prems"(1)] by (simp add: hsort_sift_down.simps [of _ _ root])
    next
      case less: True
      have ne: "root \<noteq> ?c" using less in_D flip [of "?xs ! root" "?xs ! root"] by auto
      let ?u = "t\<lparr>vvals := ?xs[root := ?xs ! ?c, ?c := ?xs ! root]\<rparr>"
      have sw: "swap_at a root ?c v = Some (put_array a ?u v)" by (rule swap_at_array) (use "1.prems" True c in auto)
      have s: "sift ?xs root bottom = sift (vvals ?u) ?c bottom" using less True ne by (subst sift.simps) (simp add: Let_def)
      have "hsort_sift_down compare a ?c bottom (put_array a ?u v) =
          Some (True, put_array a (?u\<lparr>vvals := sift (vvals ?u) ?c bottom\<rparr>) (put_array a ?u v))"
        by (rule "1.hyps" [OF True refl]) (use less ne "1.prems" True c set_swap_subset [of root ?xs ?c] in auto)
      then show ?thesis unfolding s
        using True mc cp less ne sw by (simp add: hsort_sift_down.simps [of _ _ root])
    qed
  qed
qed

lemma set_sift: "bottom < length xs \<Longrightarrow> set (sift xs root bottom) = set xs"
  by (rule mset_eq_setD) (rule mset_sift)

lemma heapify_builds:
  "get_array v a = Some t \<Longrightarrow> set (vvals t) \<subseteq> D \<Longrightarrow> vvals t \<noteq> [] \<Longrightarrow>
   hsort_heapify compare a (vsize t) i v = Some (True, put_array a (t\<lparr>vvals := build (vvals t) i\<rparr>) v)"
proof (induction i arbitrary: t v)
  case 0
  then show ?case using hsort_sift_down_sifts [of v a t "vsize t - 1" 0] by simp
next
  case (Suc i)
  let ?u = "t\<lparr>vvals := sift (vvals t) (Suc i) (vsize t - 1)\<rparr>"
  have "vvals ?u \<noteq> []" using Suc.prems length_sift [of "vvals t"] by (metis length_0_conv lvvec.select_convs(1) lvvec.surjective lvvec.update_convs(1))
  then show ?case
    using hsort_sift_down_sifts [of v a t "vsize t - 1" "Suc i"] Suc.IH [of "put_array a ?u v" ?u] Suc.prems
    by (simp add: set_sift)
qed

lemma extract_selects:
  "get_array v a = Some t \<Longrightarrow> set (vvals t) \<subseteq> D \<Longrightarrow> i < vsize t \<Longrightarrow>
   hsort_extract compare a i v = Some (True, put_array a (t\<lparr>vvals := select (vvals t) i\<rparr>) v)"
proof (induction i arbitrary: t v)
  case 0 then show ?case using put_same_array [OF 0(1)] by simp
next
  case (Suc i)
  let ?xs = "vvals t"
  let ?u = "t\<lparr>vvals := ?xs[0 := ?xs ! Suc i, Suc i := ?xs ! 0]\<rparr>" let ?w = "?u\<lparr>vvals := sift (vvals ?u) 0 i\<rparr>"
  have sw: "swap_at a 0 (Suc i) v = Some (put_array a ?u v)" by (rule swap_at_array) (use Suc.prems in auto)
  have u: "set (vvals ?u) \<subseteq> D" using mset_eq_setD [OF mset_swap_front [of i ?xs]] Suc.prems by simp
  have sd: "hsort_sift_down compare a 0 i (put_array a ?u v) = Some (True, put_array a ?w (put_array a ?u v))"
    by (rule hsort_sift_down_sifts) (use u Suc.prems in auto)
  have "set (vvals ?w) \<subseteq> D" using u Suc.prems by (simp add: set_sift)
  then show ?case using Suc.IH [of "put_array a ?w v" ?w] Suc.prems sw sd by simp
qed

lemma hsort_sorts:
  assumes "get_array v a = Some t" "set (vvals t) \<subseteq> D" "vvals t \<noteq> []"
  shows "hsort compare a v = Some (True, put_array a (t\<lparr>vvals := heap_sort (vvals t)\<rparr>) v)"
proof -
  let ?u = "t\<lparr>vvals := build (vvals t) (vsize t div 2)\<rparr>"
  have "set (vvals ?u) \<subseteq> D" using mset_eq_setD [OF mset_build] assms by simp
  moreover have "vsize t - 1 < vsize ?u" using assms by simp
  ultimately show ?thesis
    using heapify_builds [OF assms, of "vsize t div 2"] extract_selects [of "put_array a ?u v" a ?u "vsize t - 1"] assms
    by (simp add: hsort_def heap_sort_def Let_def)
qed

end

subsection \<open>Integers and strings\<close>

definition obj_cmp :: "lvobj \<Rightarrow> lvobj \<Rightarrow> int" where
  "obj_cmp a b = (case ObjCmp (\<lambda>_ _. None) a b of VOk r \<Rightarrow> r | _ \<Rightarrow> 0)"

definition integers :: "lvobj set" where "integers = insert ONull (range OInteger)"
definition strings :: "lvobj set" where "strings = insert ONull (range OString)"

lemma obj_cmp_null [simp]:
  "obj_cmp ONull ONull = 0" "obj_cmp ONull (OInteger j) = - 1" "obj_cmp (OInteger j) ONull = 1"
  "obj_cmp ONull (OString u) = - 1" "obj_cmp (OString u) ONull = 1"
  by (simp_all add: obj_cmp_def ObjCmp_def)

lemma obj_cmp_integers [simp]:
  "obj_cmp (OInteger i) (OInteger j) < 0 \<longleftrightarrow> sint i < sint j"
  "0 < obj_cmp (OInteger i) (OInteger j) \<longleftrightarrow> sint j < sint i"
  "obj_cmp (OInteger i) (OInteger j) \<le> 0 \<longleftrightarrow> sint i \<le> sint j"
  using sint_less_iff [of i j] by (auto simp: obj_cmp_def ObjCmp_same)

lemma obj_cmp_strings [simp]: "obj_cmp (OString s) (OString u) = c_strcmp s u"
  using c_strcmp_swap [of s s] by (auto simp: obj_cmp_def ObjCmp_same)

lemma c_strcmp_flip: "0 < c_strcmp s u \<longleftrightarrow> c_strcmp u s < 0"
  using c_strcmp_swap [of u s] by simp

lemma of_char_pos: "c \<noteq> CHR 0x00 \<Longrightarrow> 0 < (of_char c :: nat)"
proof (rule ccontr)
  assume "c \<noteq> CHR 0x00" "\<not> 0 < (of_char c :: nat)"
  then have "(of_char c :: nat) = of_char (CHR 0x00)" by simp
  then show False using \<open>c \<noteq> CHR 0x00\<close> by (simp only: of_char_eq_iff)
qed

lemma c_strcmp_trans: "c_strcmp s u \<le> 0 \<Longrightarrow> c_strcmp u w \<le> 0 \<Longrightarrow> c_strcmp s w \<le> 0"
proof (induction s u arbitrary: w rule: c_strcmp.induct)
  case 1 then show ?case by simp
next
  case (2 d u) then show ?case by (cases w) (simp_all split: if_split_asm)
next
  case (3 c s) then show ?case by (cases w) (auto simp: of_char_pos split: if_split_asm)
next
  case (4 c s d u)
  show ?case
  proof (cases w)
    case Nil then show ?thesis using 4 by (simp split: if_split_asm)
  next
    case (Cons e w')
    show ?thesis
    proof (cases "c = d \<and> d = e")
      case True then show ?thesis using 4 Cons by (simp split: if_split_asm)
    next
      case False
      then show ?thesis using 4(2,3) unfolding Cons by (auto simp only: c_strcmp.simps split: if_split_asm)
    qed
  qed
qed

lemma ObjCmp_obj_cmp:
  "x \<in> integers \<and> y \<in> integers \<or> x \<in> strings \<and> y \<in> strings \<Longrightarrow> ObjCmp (\<lambda>_ _. None) x y = VOk (obj_cmp x y)"
  by (auto simp: obj_cmp_def integers_def strings_def ObjCmp_same) (simp_all add: ObjCmp_def)

lemma not_delegable [simp]: "\<not> is_delegable ONull" "\<not> is_delegable (OInteger i)" "\<not> is_delegable (OString s)"
  by (simp_all add: is_delegable_def is_delegable_type_def type_tag_def OBJECT_DELEGABLE_def OBJECT_CANBEFALSE_def
      OBJECT_NUMERIC_def OBJECT_REF_COUNTED_def)

lemma vm_ObjCmp_plain:
  "x \<in> integers \<and> y \<in> integers \<or> x \<in> strings \<and> y \<in> strings \<Longrightarrow> vm_ObjCmp call x y v = Some (Some (obj_cmp x y), v)"
proof -
  assume xy: "x \<in> integers \<and> y \<in> integers \<or> x \<in> strings \<and> y \<in> strings"
  then have "\<not> is_delegable x" by (auto simp: integers_def strings_def)
  then show ?thesis using ObjCmp_obj_cmp [OF xy] by (simp add: vm_ObjCmp_def)
qed

interpretation integer_sort: vm_sort obj_cmp integers "sort_compare call (- 1)" for call
proof
  fix x y z v
  show "x \<in> integers \<Longrightarrow> y \<in> integers \<Longrightarrow> (0 < obj_cmp x y) = (obj_cmp y x < 0)"
    by (auto simp: integers_def)
  show "x \<in> integers \<Longrightarrow> y \<in> integers \<Longrightarrow> z \<in> integers \<Longrightarrow> obj_cmp x y \<le> 0 \<Longrightarrow> obj_cmp y z \<le> 0 \<Longrightarrow> obj_cmp x z \<le> 0"
    by (auto simp: integers_def)
  show "x \<in> integers \<Longrightarrow> y \<in> integers \<Longrightarrow> sort_compare call (- 1) x y v = Some (Some (obj_cmp x y), v)"
    by (simp add: sort_compare_def vm_ObjCmp_plain)
qed

interpretation string_sort: vm_sort obj_cmp strings "sort_compare call (- 1)" for call
proof
  fix x y z v
  show "x \<in> strings \<Longrightarrow> y \<in> strings \<Longrightarrow> (0 < obj_cmp x y) = (obj_cmp y x < 0)"
    by (auto simp: strings_def c_strcmp_flip)
  show "x \<in> strings \<Longrightarrow> y \<in> strings \<Longrightarrow> z \<in> strings \<Longrightarrow> obj_cmp x y \<le> 0 \<Longrightarrow> obj_cmp y z \<le> 0 \<Longrightarrow> obj_cmp x z \<le> 0"
    by (auto simp: strings_def intro: c_strcmp_trans)
  show "x \<in> strings \<Longrightarrow> y \<in> strings \<Longrightarrow> sort_compare call (- 1) x y v = Some (Some (obj_cmp x y), v)"
    by (simp add: sort_compare_def vm_ObjCmp_plain)
qed

subsection \<open>Any comparison\<close>

text \<open>
  A comparison of the program that neither answers by an order nor always answers: the elements are exchanged, never
  lost, and the accesses stay inside the array, as long as the comparison does not write to the array.
\<close>

definition keeps_array :: "comparison \<Rightarrow> u64 \<Rightarrow> lvobj set \<Rightarrow> bool" where
  "keeps_array compare a E \<longleftrightarrow>
     (\<forall>x \<in> E. \<forall>y \<in> E. \<forall>v. \<exists>r v'. compare x y v = Some (r, v') \<and> get_array v' a = get_array v a)"

definition exchanged :: "u64 \<Rightarrow> lvarray \<Rightarrow> (bool \<times> vm) option \<Rightarrow> bool" where
  "exchanged a t res \<longleftrightarrow> (\<exists>b v' u. res = Some (b, v') \<and> get_array v' a = Some u \<and> mset (vvals u) = mset (vvals t))"

lemmas exchanged_iff = exchanged_def ex_bool_eq

lemma exchanged_trans:
  "exchanged a t res \<Longrightarrow> (\<And>b v' u. get_array v' a = Some u \<Longrightarrow> mset (vvals u) = mset (vvals t) \<Longrightarrow> exchanged a u (f b v')) \<Longrightarrow>
   exchanged a t (res \<bind> (\<lambda>(b, v). f b v))"
  by (fastforce simp: exchanged_def)

lemma keeps_compare_at:
  assumes "keeps_array compare a (set (vvals t))" "get_array v a = Some t" "i < vsize t" "j < vsize t"
  obtains r v' where "compare_at compare a i j v = Some (r, v')" "get_array v' a = Some t"
proof -
  obtain r v' where "compare (vvals t ! i) (vvals t ! j) v = Some (r, v')" "get_array v' a = get_array v a"
    using assms unfolding keeps_array_def by (meson nth_mem)
  then show thesis using assms that by (simp add: compare_at_def elem_nth)
qed

lemma keeps_max_child:
  assumes "keeps_array compare a (set (vvals t))" "get_array v a = Some t" "bottom < vsize t" "root * 2 \<le> bottom"
  obtains r v' where "max_child compare a root bottom v = Some (r, v')" "get_array v' a = Some t"
proof (cases "root * 2 = bottom")
  case True then show thesis using assms that by (simp add: max_child_def)
next
  case False
  then obtain r v' where "compare_at compare a (root * 2) (root * 2 + 1) v = Some (r, v')" "get_array v' a = Some t"
    using keeps_compare_at [OF assms(1,2), of "root * 2" "root * 2 + 1"] assms by auto
  then show thesis using False that by (simp add: max_child_def Let_def)
qed

lemma sift_down_exchanges:
  "keeps_array compare a (set (vvals t)) \<Longrightarrow> get_array v a = Some t \<Longrightarrow> bottom < vsize t \<Longrightarrow>
   exchanged a t (hsort_sift_down compare a root bottom v)"
proof (induction "bottom + 1 - root" arbitrary: root t v rule: less_induct)
  case less
  note prems = less.prems
  show ?case
  proof (cases "root * 2 \<le> bottom")
    case False
    then show ?thesis using prems by (auto simp: exchanged_def hsort_sift_down.simps)
  next
    case True
    obtain r w where mc: "max_child compare a root bottom v = Some (r, w)" "get_array w a = Some t"
      using keeps_max_child [OF prems True] .
    show ?thesis
    proof (cases r)
      case None then show ?thesis using mc True by (simp add: exchanged_iff hsort_sift_down.simps [of _ _ root])
    next
      case (Some c)
      have c: "c \<le> bottom" using max_child_range mc Some True by blast
      obtain q x where cp: "compare_at compare a root c w = Some (q, x)" "get_array x a = Some t"
        using keeps_compare_at [OF prems(1) mc(2), of root c] prems c True by auto
      let ?u = "t\<lparr>vvals := (vvals t)[root := vvals t ! c, c := vvals t ! root]\<rparr>"
      have ms: "mset (vvals ?u) = mset (vvals t)" using prems c True by (simp add: mset_swap)
      have sw: "swap_at a root c x = Some (put_array a ?u x)" by (rule swap_at_array) (use prems cp c True in auto)
      show ?thesis
      proof (cases "\<exists>q'. q = Some q' \<and> q' < 0 \<and> root \<noteq> c")
        case False
        then show ?thesis using mc cp True Some
          by (auto simp: exchanged_def hsort_sift_down.simps [of _ _ root] get_array_def raise_def split: option.split)
      next
        case lt: True
        then obtain q' where q: "q = Some q'" "q' < 0" "root \<noteq> c" by blast
        have "exchanged a ?u (hsort_sift_down compare a c bottom (put_array a ?u x))"
          by (rule less.hyps) (use q c True ms prems mc max_child_range [of compare a root bottom v c w] Some mset_eq_setD [OF ms] in auto)
        then show ?thesis using mc cp True Some q sw ms by (simp add: exchanged_def hsort_sift_down.simps [of _ _ root])
      qed
    qed
  qed
qed

lemma hsort_exchanges:
  assumes k: "keeps_array compare a (set (vvals t))" and g: "get_array v a = Some t" and n: "vvals t \<noteq> []"
  shows "exchanged a t (hsort compare a v)"
proof -
  have keeps: "mset (vvals u) = mset (vvals t) \<Longrightarrow> keeps_array compare a (set (vvals u)) \<and> vsize u = vsize t" for u
    using k mset_eq_setD mset_eq_length by metis
  have builds: "get_array w a = Some u \<Longrightarrow> mset (vvals u) = mset (vvals t) \<Longrightarrow>
      exchanged a u (hsort_heapify compare a (vsize t) i w)" for i u w
  proof (induction i arbitrary: u w)
    case 0 then show ?case using sift_down_exchanges [of compare a u w "vsize t - 1" 0] keeps [of u] n by simp
  next
    case (Suc i)
    have "exchanged a u (hsort_sift_down compare a (Suc i) (vsize t - 1) w)"
      using Suc.prems sift_down_exchanges [of compare a u w "vsize t - 1" "Suc i"] keeps [of u] n by simp
    then show ?case unfolding hsort_heapify.simps
      by (rule exchanged_trans) (use Suc in \<open>auto simp: exchanged_def\<close>)
  qed
  have selects: "get_array w a = Some u \<Longrightarrow> mset (vvals u) = mset (vvals t) \<Longrightarrow> i < vsize t \<Longrightarrow>
      exchanged a u (hsort_extract compare a i w)" for i u w
  proof (induction i arbitrary: u w)
    case 0 then show ?case by (auto simp: exchanged_def)
  next
    case (Suc i)
    let ?u = "u\<lparr>vvals := (vvals u)[0 := vvals u ! Suc i, Suc i := vvals u ! 0]\<rparr>"
    have len: "Suc i < vsize u" using Suc.prems keeps [of u] by simp
    have ms: "mset (vvals ?u) = mset (vvals t)" using mset_swap_front [OF len] Suc.prems by simp
    have sw: "swap_at a 0 (Suc i) w = Some (put_array a ?u w)" by (rule swap_at_array) (use Suc.prems len in auto)
    have "exchanged a ?u (hsort_sift_down compare a 0 i (put_array a ?u w))"
      using sift_down_exchanges [of compare a ?u "put_array a ?u w" i 0] keeps [OF ms] Suc.prems by simp
    then have "exchanged a ?u (hsort_extract compare a (Suc i) w)"
      unfolding hsort_extract.simps sw bind.bind_lunit
      by (rule exchanged_trans) (use Suc ms in \<open>auto simp: exchanged_def\<close>)
    then show ?case using ms Suc.prems by (simp add: exchanged_def)
  qed
  have "exchanged a t (hsort_heapify compare a (vsize t) (vsize t div 2) v)" using builds g by simp
  moreover have "exchanged a u (if \<not> b then Some (False, w) else hsort_extract compare a (vsize t - 1) w)"
    if "get_array w a = Some u" "mset (vvals u) = mset (vvals t)" for b w u
    using selects [OF that, of "vsize t - 1"] that n by (auto simp: exchanged_def)
  ultimately show ?thesis unfolding hsort_def Let_def g Option.bind.simps by (rule exchanged_trans)
qed

section \<open>The native function\<close>

text \<open>C36: \<open>sort\<close> without a compare function leaves an array of integers, or of strings, among them nulls, sorted by the order of the
  interpreter, with the same elements as before, answers 0 and changes nothing else.\<close>

theorem array_sort_sorts:
  assumes "stack_get v 1 = Some (ORef RArray a)" "get_array v a = Some t" "lv_gettop v = 1"
    and "set (vvals t) \<subseteq> integers \<or> set (vvals t) \<subseteq> strings"
  shows "\<exists>xs. array_sort call v = Some (0, put_array a (t\<lparr>vvals := xs\<rparr>) v) \<and> mset xs = mset (vvals t) \<and>
     sorted_wrt (\<lambda>x y. obj_cmp x y \<le> 0) xs"
proof (cases "vsize t > 1")
  case False
  then have "sorted_wrt (\<lambda>x y. obj_cmp x y \<le> 0) (vvals t)" by (cases "vvals t") auto
  moreover have "array_sort call v = Some (0, put_array a (t\<lparr>vvals := vvals t\<rparr>) v)"
    using assms False by (simp add: array_sort_def put_same_array)
  ultimately show ?thesis by blast
next
  case True
  then have ne: "vvals t \<noteq> []" by auto
  have run: "array_sort call v = Some (0, put_array a (t\<lparr>vvals := xs\<rparr>) v)"
    if "hsort (sort_compare call (- 1)) a v = Some (True, put_array a (t\<lparr>vvals := xs\<rparr>) v)" for xs
    using assms True that by (simp add: array_sort_def)
  show ?thesis using assms(4)
  proof
    assume "set (vvals t) \<subseteq> integers"
    then show ?thesis
      using run [OF integer_sort.hsort_sorts [OF assms(2) _ ne]] integer_sort.mset_heap_sort [OF ne]
        integer_sort.heap_sort_sorted [OF ne] by (intro exI conjI) blast+
  next
    assume "set (vvals t) \<subseteq> strings"
    then show ?thesis
      using run [OF string_sort.hsort_sorts [OF assms(2) _ ne]] string_sort.mset_heap_sort [OF ne]
        string_sort.heap_sort_sorted [OF ne] by (intro exI conjI) blast+
  qed
qed

definition array_vm :: "lvarray \<Rightarrow> vm" where
  "array_vm t = sample_vm\<lparr>v_heap := [7 \<mapsto> HArray t], v_stack := [ORef RArray 7], v_top := 1\<rparr>"

lemma array_vm_facts:
  "stack_get (array_vm t) 1 = Some (ORef RArray 7)" "get_array (array_vm t) 7 = Some t" "lv_gettop (array_vm t) = 1"
  by (simp_all add: array_vm_def sample_vm_def stack_get_def GetAt_def at_stack_def get_array_def lv_gettop_def)

theorem array_sort_sorts_witness:
  "\<exists>xs. array_sort (\<lambda>_ _ _ _ _. None) (array_vm \<lparr>vvals = [OInteger 3, OInteger (- 1), ONull, OInteger 2], vcap = 4\<rparr>) =
       Some (0, put_array 7 (\<lparr>vvals = xs, vcap = 4\<rparr>)
         (array_vm \<lparr>vvals = [OInteger 3, OInteger (- 1), ONull, OInteger 2], vcap = 4\<rparr>)) \<and>
     mset xs = mset [OInteger 3, OInteger (- 1), ONull, OInteger 2] \<and> sorted_wrt (\<lambda>x y. obj_cmp x y \<le> 0) xs"
  using array_sort_sorts [OF array_vm_facts, of "\<lparr>vvals = [OInteger 3, OInteger (- 1), ONull, OInteger 2], vcap = 4\<rparr>"
      "\<lambda>_ _ _ _ _. None"] by (simp add: integers_def)



end
