(* ===== verification/Baselib.thy ===== *)
theory Baselib
  imports Embedding_Objects
begin

text \<open>
  The functions of the base library and the methods of the default delegates (\<^verbatim>\<open>src/baselib.cpp\<close>), as native functions:
  they read their arguments from the stack, \<open>this\<close> first, push their result and answer the number of results, or \<open>- 1\<close>
  for an error. Left out are the conversions of \<open>printf\<close>, the functions of threads, and what only hands the
  work to the host.
\<close>

type_synonym nres = "(int \<times> vm) option"

definition results :: "int \<Rightarrow> bres \<Rightarrow> nres" where
  "results n r = do { (b, v) \<leftarrow> r; Some (if b then n else - 1, v) }"

definition nfail :: "string \<Rightarrow> vm \<Rightarrow> nres" where "nfail err v = results 0 (lv_throwerror err v)"

definition npush :: "lvobj \<Rightarrow> vm \<Rightarrow> nres" where "npush x v = results 1 (push_ok x v)"

section \<open>Numbers and strings\<close>

subsection \<open>\<open>strtoll\<close> and \<open>strtod\<close>\<close>

definition c_isspace :: "char \<Rightarrow> bool" where
  "c_isspace c \<longleftrightarrow> tok c = 32 \<or> 9 \<le> tok c \<and> tok c \<le> 13"

text \<open>The digit a character stands for.\<close>

definition digit_of :: "char \<Rightarrow> nat option" where
  "digit_of c =
     (let t = tok c in
      if 48 \<le> t \<and> t \<le> 57 then Some (nat (t - 48))
      else if 65 \<le> t \<and> t \<le> 90 then Some (nat (t - 55))
      else if 97 \<le> t \<and> t \<le> 122 then Some (nat (t - 87)) else None)"

definition is_digit_in :: "nat \<Rightarrow> char \<Rightarrow> bool" where
  "is_digit_in b c \<longleftrightarrow> (case digit_of c of Some d \<Rightarrow> d < b | None \<Rightarrow> False)"

definition digits_value :: "nat \<Rightarrow> string \<Rightarrow> nat" where
  "digits_value b s = foldl (\<lambda>r c. r * b + the (digit_of c)) 0 s"

definition split_sign :: "string \<Rightarrow> bool \<times> string" where
  "split_sign s =
     (case s of c # r \<Rightarrow> if c = CHR ''-'' then (True, r) else if c = CHR ''+'' then (False, r) else (False, s) | [] \<Rightarrow> (False, s))"

text \<open>An optional prefix of base 16, if a digit follows it; base 0 takes the base from the prefix.\<close>

definition hex_prefix :: "string \<Rightarrow> bool" where
  "hex_prefix s \<longleftrightarrow>
     (case s of a # b # c # _ \<Rightarrow> a = CHR ''0'' \<and> (b = CHR ''x'' \<or> b = CHR ''X'') \<and> is_digit_in 16 c | _ \<Rightarrow> False)"

definition saturate :: "bool \<Rightarrow> nat \<Rightarrow> u64" where
  "saturate neg n =
     (if neg then (if n \<ge> 2 ^ 63 then 0x8000000000000000 else - of_nat n)
      else if n \<ge> 2 ^ 63 then 0x7FFFFFFFFFFFFFFF else of_nat n)"

text \<open>
  \<open>strtoll\<close> on a C string: the number, or \<open>None\<close> if there is none and \<open>end\<close> is the start. For a base outside the range the
  C library leaves \<open>end\<close> unset.
\<close>

definition strtoll :: "string \<Rightarrow> int \<Rightarrow> u64 option option" where
  "strtoll s base =
     (if \<not> (base = 0 \<or> 2 \<le> base \<and> base \<le> 36) then None
      else let (neg, r) = split_sign (dropWhile c_isspace s);
               hex = ((base = 0 \<or> base = 16) \<and> hex_prefix r);
               b = (if base \<noteq> 0 then nat base else if hex then 16 else if take 1 r = ''0'' then 8 else 10);
               ds = takeWhile (is_digit_in b) (if hex then drop 2 r else r)
           in Some (if ds = [] then None else Some (saturate neg (digits_value b ds))))"

text \<open>
  \<open>strtod\<close> on decimal numbers, by the conversion of theory \<open>Lexer\<close>. Infinities, not-a-numbers and hexadecimal numbers are
  outside the model.
\<close>

definition c_strtod :: "string \<Rightarrow> u32 option option" where
  "c_strtod s =
     (let (neg, r) = split_sign (dropWhile c_isspace s);
          ip = takeWhile scisdigit r; r' = dropWhile scisdigit r;
          fp = (case r' of c # t \<Rightarrow> if c = CHR ''.'' then takeWhile scisdigit t else [] | [] \<Rightarrow> [])
      in if ip = [] \<and> fp = [] then
           (if list_ex (\<lambda>c. r \<noteq> [] \<and> hd r = c) ''iInN'' then None else Some None)
         else if hex_prefix r then None
         else Some (Some (if neg then f32_minus (strtod r) else strtod r)))"

fun isfloat_scan :: "bool \<Rightarrow> string \<Rightarrow> bool" where
  "isfloat_scan iseintbase [] = False"
| "isfloat_scan iseintbase (c # s) =
     (if c = CHR ''.'' \<or> (\<not> iseintbase \<and> (c = CHR ''E'' \<or> c = CHR ''e'')) then True else isfloat_scan iseintbase s)"

text \<open>\<open>str2num\<close>; the base is cast to 32 bits.\<close>

definition str2num :: "string \<Rightarrow> int \<Rightarrow> lvobj option option" where
  "str2num s base =
     (let s = c_string s in
      if isfloat_scan (base > 13) s then map_option (map_option OFloat) (c_strtod s)
      else map_option (map_option OInteger) (strtoll s (int32 base)))"

subsection \<open>The width and precision of a format\<close>

text \<open>
  \<open>validate_format\<close> copies one conversion specification of \<open>src\<close>, that ends with a NUL, to the buffer \<open>fmt\<close>. The
  result is an error, or the position of the conversion character, the sum of width and precision, and
  the characters stored from \<open>fmt[0]\<close> on, the terminating NUL included.
\<close>

definition MAX_FORMAT_LEN :: nat where "MAX_FORMAT_LEN = 20"
definition MAX_WFORMAT_LEN :: nat where "MAX_WFORMAT_LEN = 3"

definition src_at :: "string \<Rightarrow> nat \<Rightarrow> char" where
  "src_at src n = (if n < length src then src ! n else CHR 0x00)"

definition isfmtchr :: "char \<Rightarrow> bool" where "isfmtchr ch \<longleftrightarrow> ch \<in> set ''-+ #0''"

function skip_flags :: "string \<Rightarrow> nat \<Rightarrow> nat" where
  "skip_flags src n = (if n < length src \<and> isfmtchr (src_at src n) then skip_flags src (n + 1) else n)"
  by pat_completeness auto
termination by (relation "measure (\<lambda>(src, n). length src - n)") auto

declare skip_flags.simps [simp del]

text \<open>The digits of a width; \<open>None\<close> if there are too many for the buffer \<open>swidth\<close>.\<close>

function scan_width :: "string \<Rightarrow> nat \<Rightarrow> string \<Rightarrow> (nat \<times> string) option" where
  "scan_width src n w =
     (if n < length src \<and> scisdigit (src_at src n) then
        (if length w + 1 \<ge> MAX_WFORMAT_LEN then None else scan_width src (n + 1) (w @ [src_at src n]))
      else Some (n, w))"
  by pat_completeness auto
termination by (relation "measure (\<lambda>(src, n, w). length src - n)") auto

declare scan_width.simps [simp del]

definition validate_format :: "string \<Rightarrow> nat \<Rightarrow> string + nat \<times> nat \<times> string" where
  "validate_format src start =
     (case scan_width src (skip_flags src start) [] of
        None \<Rightarrow> Inl ''width format too long''
      | Some (n, w) \<Rightarrow>
          (case (if src_at src n = CHR ''.'' then scan_width src (n + 1) [] else Some (n, [])) of
             None \<Rightarrow> Inl ''precision format too long''
           | Some (n, p) \<Rightarrow>
               if n - start > MAX_FORMAT_LEN then Inl ''format too long''
               else Inr (n, dec_nat w + dec_nat p,
                         CHR ''%'' # map (src_at src) [start ..< n + 1] @ [CHR 0x00])))"

text \<open>\<open>fmt\<close> has \<open>MAX_FORMAT_LEN\<close> characters; \<open>strformat\<close> adds \<open>ll\<close> to the conversions of integers.\<close>

definition format_stores :: "string \<Rightarrow> nat \<Rightarrow> nat" where
  "format_stores src start =
     (case validate_format src start of
        Inl _ \<Rightarrow> 0
      | Inr (n, _, fmt) \<Rightarrow> length fmt + (if src_at src n \<in> set ''idouxX'' then 2 else 0))"

subsection \<open>Slices\<close>

text \<open>\<open>get_slice_params\<close>: the arguments, or zero and the size.\<close>

definition get_slice_params :: "(lvobj \<Rightarrow> int) \<Rightarrow> vm \<Rightarrow> (int \<times> int \<times> lvobj \<times> vm) option" where
  "get_slice_params udsize v = do {
     let t = lv_gettop v;
     ob \<leftarrow> stack_get v 1;
     sidx \<leftarrow> (if t > 1 then do {
                start \<leftarrow> stack_get v 2;
                Some (if start \<noteq> ONull \<and> is_number start then sint (tointeger start) else 0)
              } else Some 0);
     (eidx, v) \<leftarrow> (if t > 2 then do {
                e \<leftarrow> stack_get v 3;
                Some (if is_number e then sint (tointeger e) else 0, v)
              } else lv_getsize udsize 1 v);
     Some (sidx, eidx, ob, v)
   }"

text \<open>The part the slice functions share: negative indices count from the end.\<close>

definition slice_range :: "int \<Rightarrow> int \<Rightarrow> int \<Rightarrow> string + nat \<times> nat" where
  "slice_range len sidx eidx =
     (let sidx = (if sidx < 0 then len + sidx else sidx);
          eidx = (if eidx < 0 then len + eidx else eidx)
      in if eidx < sidx then Inl ''wrong indexes''
         else if eidx > len \<or> sidx < 0 then Inl ''slice out of range'' else Inr (nat sidx, nat eidx))"

definition string_sliced :: "(lvobj \<Rightarrow> int) \<Rightarrow> (nat \<Rightarrow> nat \<Rightarrow> string \<Rightarrow> string) \<Rightarrow> vm \<Rightarrow> nres" where
  "string_sliced udsize f v = do {
     (sidx, eidx, ob, v) \<leftarrow> get_slice_params udsize v;
     (case ob of
        OString s \<Rightarrow>
          (case slice_range (int (length s)) sidx eidx of
             Inl err \<Rightarrow> nfail err v
           | Inr (i, j) \<Rightarrow> npush (OString (f i j s)) v)
      | _ \<Rightarrow> None)
   }"

definition string_slice :: "(lvobj \<Rightarrow> int) \<Rightarrow> vm \<Rightarrow> nres" where
  "string_slice udsize = string_sliced udsize (\<lambda>i j s. take (j - i) (drop i s))"

text \<open>The case conversions of the C locale, from index \<open>i\<close> to before \<open>j\<close>.\<close>

definition c_tolower :: "char \<Rightarrow> char" where
  "c_tolower c = (if 65 \<le> tok c \<and> tok c \<le> 90 then char_of (nat (tok c + 32)) else c)"

definition c_toupper :: "char \<Rightarrow> char" where
  "c_toupper c = (if 97 \<le> tok c \<and> tok c \<le> 122 then char_of (nat (tok c - 32)) else c)"

fun convert_range :: "(char \<Rightarrow> char) \<Rightarrow> nat \<Rightarrow> nat \<Rightarrow> string \<Rightarrow> string" where
  "convert_range f i 0 s = s"
| "convert_range f i (Suc n) s = convert_range f (Suc i) n (s[i := f (s ! i)])"

definition string_tolower :: "(lvobj \<Rightarrow> int) \<Rightarrow> vm \<Rightarrow> nres" where
  "string_tolower udsize = string_sliced udsize (\<lambda>i j. convert_range c_tolower i (j - i))"

definition string_toupper :: "(lvobj \<Rightarrow> int) \<Rightarrow> vm \<Rightarrow> nres" where
  "string_toupper udsize = string_sliced udsize (\<lambda>i j. convert_range c_toupper i (j - i))"

subsection \<open>Searching\<close>

text \<open>\<open>strstr\<close>.\<close>

fun strstr :: "string \<Rightarrow> string \<Rightarrow> nat option" where
  "strstr [] sub = (if sub = [] then Some 0 else None)"
| "strstr (c # s) sub =
     (if take (length sub) (c # s) = sub then Some 0 else map_option Suc (strstr s sub))"

definition string_find :: "(lvobj \<Rightarrow> int) \<Rightarrow> vm \<Rightarrow> nres" where
  "string_find udsize v = do {
     let t = lv_gettop v;
     (str, v) \<leftarrow> (if t > 1 then lv_getstring 1 v else Some (None, v));
     (sub, v) \<leftarrow> (if str \<noteq> None then lv_getstring 2 v else Some (None, v));
     (case (str, sub) of
        (Some str, Some sub) \<Rightarrow> do {
          start_idx \<leftarrow> (if t > 2 then map_option (\<lambda>i. case i of Some i \<Rightarrow> sint i | None \<Rightarrow> 0) (lv_getinteger 3 v) else Some 0);
          (n, v) \<leftarrow> lv_getsize udsize 1 v;
          if n > start_idx \<and> start_idx \<ge> 0 then
            (case strstr (c_string (drop (nat start_idx) str)) (c_string sub) of
               Some k \<Rightarrow> npush (OInteger (of_int (start_idx + int k))) v
             | None \<Rightarrow> Some (0, v))
          else Some (0, v)
        }
      | _ \<Rightarrow> nfail ''invalid param'' v)
   }"

subsection \<open>Conversions\<close>

definition default_delegate_len :: "(lvobj \<Rightarrow> int) \<Rightarrow> vm \<Rightarrow> nres" where
  "default_delegate_len udsize v = do { (n, v) \<leftarrow> lv_getsize udsize 1 v; npush (OInteger (of_int n)) v }"

definition default_delegate_tofloat :: "vm \<Rightarrow> nres" where
  "default_delegate_tofloat v = do {
     ob \<leftarrow> stack_get v 1;
     (case ob of
        OString s \<Rightarrow> do {
          r \<leftarrow> str2num s 10;
          (case r of Some x \<Rightarrow> npush (OFloat (tofloat x)) v | None \<Rightarrow> nfail ''cannot convert the string'' v)
        }
      | OInteger _ \<Rightarrow> npush (OFloat (tofloat ob)) v
      | OFloat _ \<Rightarrow> npush (OFloat (tofloat ob)) v
      | OBool b \<Rightarrow> npush (OFloat (f32_of_int (if b \<noteq> 0 then 1 else 0))) v
      | _ \<Rightarrow> npush ONull v)
   }"

definition default_delegate_tointeger :: "vm \<Rightarrow> nres" where
  "default_delegate_tointeger v = do {
     ob \<leftarrow> stack_get v 1;
     base \<leftarrow> (if lv_gettop v > 1 then map_option (\<lambda>i. case i of Some i \<Rightarrow> sint i | None \<Rightarrow> 10) (lv_getinteger 2 v) else Some 10);
     (case ob of
        OString s \<Rightarrow> do {
          r \<leftarrow> str2num s base;
          (case r of Some x \<Rightarrow> npush (OInteger (tointeger x)) v | None \<Rightarrow> nfail ''cannot convert the string'' v)
        }
      | OInteger _ \<Rightarrow> npush (OInteger (tointeger ob)) v
      | OFloat _ \<Rightarrow> npush (OInteger (tointeger ob)) v
      | OBool b \<Rightarrow> npush (OInteger (if b \<noteq> 0 then 1 else 0)) v
      | _ \<Rightarrow> npush ONull v)
   }"

definition default_delegate_tostring :: "callfn \<Rightarrow> vm \<Rightarrow> nres" where
  "default_delegate_tostring call v = results 1 (lv_tostring call 1 v)"

definition obj_delegate_weakref :: "vm \<Rightarrow> nres" where
  "obj_delegate_weakref v = do { v \<leftarrow> lv_weakref 1 v; Some (1, v) }"

definition obj_clear :: "vm \<Rightarrow> nres" where "obj_clear v = results 0 (lv_clear (- 1) v)"

text \<open>The macro \<open>tointeger\<close> reads the payload of what is no float, the truth value of a boolean.\<close>

definition number_delegate_tochar :: "vm \<Rightarrow> nres" where
  "number_delegate_tochar v = do {
     ob \<leftarrow> stack_get v 1;
     npush (OString [char_of_byte (ucast (case ob of OBool b \<Rightarrow> b | _ \<Rightarrow> tointeger ob))]) v
   }"

end
