(* ===== verification/Baselib_Objects.thy ===== *)
theory Baselib_Objects
  imports Baselib
begin

text \<open>
  The methods of tables, arrays, closures, generators, classes and weak references, and the functions of the root table
  (\<^verbatim>\<open>src/baselib.cpp\<close>). A method with a callback calls it through \<open>call\<close>.
\<close>

section \<open>Tables and containers\<close>

definition table_rawdelete :: "vm \<Rightarrow> nres" where
  "table_rawdelete v = results 1 (lv_rawdeleteslot 1 True v)"

definition container_rawexists :: "vm \<Rightarrow> nres" where
  "container_rawexists v = do {
     (b, v) \<leftarrow> lv_rawget (- 2) v;
     v \<leftarrow> lv_pushbool (if b then 1 else 0) v;
     Some (1, v)
   }"

definition container_rawset :: "callfn \<Rightarrow> vm \<Rightarrow> nres" where
  "container_rawset call v = results 0 (lv_rawset call (- 3) v)"

definition container_rawget :: "vm \<Rightarrow> nres" where
  "container_rawget v = results 1 (lv_rawget (- 2) v)"

definition table_setdelegate :: "vm \<Rightarrow> nres" where
  "table_setdelegate v = do {
     (b, v) \<leftarrow> lv_setdelegate (- 2) v;
     if \<not> b then Some (- 1, v) else do { v \<leftarrow> lv_push (- 1) v; Some (1, v) }
   }"

definition table_getdelegate :: "vm \<Rightarrow> nres" where
  "table_getdelegate v = results 1 (lv_getdelegate (- 1) v)"

section \<open>Arrays\<close>

text \<open>The array \<open>this\<close>; the type masks of the methods let nothing else through.\<close>

definition on_array :: "(u64 \<Rightarrow> lvarray \<Rightarrow> vm \<Rightarrow> nres) \<Rightarrow> vm \<Rightarrow> nres" where
  "on_array f v = do {
     ob \<leftarrow> stack_get v 1;
     (case ob of ORef RArray a \<Rightarrow> do { t \<leftarrow> get_array v a; f a t v } | _ \<Rightarrow> None)
   }"

definition array_append :: "vm \<Rightarrow> nres" where
  "array_append v = results 0 (lv_arrayappend (- 2) v)"

text \<open>
  \<open>Extend\<close> reads each element through a reference: an array that extends itself and has to grow for it reads memory
  it has given back.
\<close>

definition array_extend :: "vm \<Rightarrow> nres" where
  "array_extend = on_array (\<lambda>a t v. do {
     ob \<leftarrow> stack_get v 2;
     (case ob of
        ORef RArray b \<Rightarrow> do {
          u \<leftarrow> get_array v b;
          if a = b \<and> vcap t < 2 * vsize t then None
          else do { t \<leftarrow> array_Extend u t; Some (0, put_array a t v) }
        }
      | _ \<Rightarrow> None)
   })"

definition array_reverse :: "vm \<Rightarrow> nres" where
  "array_reverse v = results 0 (lv_arrayreverse (- 1) v)"

definition array_pop :: "vm \<Rightarrow> nres" where
  "array_pop v = results 1 (lv_arraypop 1 True v)"

definition array_top :: "vm \<Rightarrow> nres" where
  "array_top = on_array (\<lambda>a t v.
     if vsize t > 0 then do { x \<leftarrow> vec_top t; npush x v } else nfail ''top() on a empty array'' v)"

definition array_insert :: "vm \<Rightarrow> nres" where
  "array_insert = on_array (\<lambda>a t v. do {
     idx \<leftarrow> stack_get v 2;
     val \<leftarrow> stack_get v 3;
     (b, t) \<leftarrow> array_Insert (sint (tointeger idx)) val t;
     if b then Some (0, put_array a t v) else nfail ''index out of range'' (put_array a t v)
   })"

definition array_remove :: "vm \<Rightarrow> nres" where
  "array_remove = on_array (\<lambda>a t v. do {
     idx \<leftarrow> stack_get v 2;
     if \<not> is_number idx then nfail ''wrong type'' v
     else (case array_Get (weak_of v) t (sint (tointeger idx)) of
         Some val \<Rightarrow> do { (_, t) \<leftarrow> array_Remove (sint (tointeger idx)) t; npush val (put_array a t v) }
       | None \<Rightarrow> nfail ''idx out of range'' v)
   })"

text \<open>A negative size asks for more memory than there is.\<close>

definition array_resize :: "vm \<Rightarrow> nres" where
  "array_resize = on_array (\<lambda>a t v. do {
     nsize \<leftarrow> stack_get v 2;
     if is_number nsize then do {
       fill \<leftarrow> (if lv_gettop v > 2 then stack_get v 3 else Some ONull);
       let n = sint (tointeger nsize);
       if n < 0 then None else do { t \<leftarrow> array_Resize (nat n) fill t; Some (0, put_array a t v) }
     } else nfail ''size must be a number'' v
   })"

subsection \<open>Callbacks\<close>

text \<open>
  The loops keep the value read last where \<open>Get\<close> finds nothing, since the callback may have cut the array off. \<open>read_item\<close> is
  \<open>src->Get(n, temp)\<close>.
\<close>

definition read_item :: "u64 \<Rightarrow> nat \<Rightarrow> lvobj \<Rightarrow> vm \<Rightarrow> lvobj option" where
  "read_item a n temp v = do {
     t \<leftarrow> get_array v a;
     Some (case array_Get (weak_of v) t (int n) of Some x \<Rightarrow> x | None \<Rightarrow> temp)
   }"

text \<open>Push the arguments, call the function below them, and take its result off the stack; \<open>None\<close> is an error.\<close>

definition call_back :: "callfn \<Rightarrow> lvobj list \<Rightarrow> vm \<Rightarrow> (lvobj option \<times> vm) option" where
  "call_back call args v = do {
     v \<leftarrow> push_all args v;
     (b, v) \<leftarrow> lv_call call (length args) True False v;
     if \<not> b then Some (None, v) else do { x \<leftarrow> GetUp (- 1) v; Some (Some x, v) }
   }"

fun map_array :: "callfn \<Rightarrow> u64 \<Rightarrow> u64 \<Rightarrow> nat \<Rightarrow> nat \<Rightarrow> lvobj \<Rightarrow> vm \<Rightarrow> bres" where
  "map_array call dest src n 0 temp v = Some (True, v)"
| "map_array call dest src n (Suc k) temp v = do {
     temp \<leftarrow> read_item src n temp v;
     (r, v) \<leftarrow> call_back call [ORef RArray src, temp] v;
     (case r of
        None \<Rightarrow> Some (False, v)
      | Some x \<Rightarrow> do {
          d \<leftarrow> get_array v dest;
          v \<leftarrow> Pop (put_array dest (snd (array_Set d (int n) x)) v);
          map_array call dest src (n + 1) k temp v
        })
   }"

definition array_map :: "callfn \<Rightarrow> vm \<Rightarrow> nres" where
  "array_map call = on_array (\<lambda>a t v. do {
     d \<leftarrow> array_Create (vsize t);
     (r, v) \<leftarrow> alloc (HArray d) v;
     (b, v) \<leftarrow> map_array call r a 0 (vsize t) ONull v;
     if b then npush (ORef RArray r) v else Some (- 1, v)
   })"

definition array_apply :: "callfn \<Rightarrow> vm \<Rightarrow> nres" where
  "array_apply call = on_array (\<lambda>a t v. results 0 (map_array call a a 0 (vsize t) ONull v))"

fun reduce_loop :: "callfn \<Rightarrow> u64 \<Rightarrow> nat \<Rightarrow> nat \<Rightarrow> lvobj \<Rightarrow> lvobj \<Rightarrow> vm \<Rightarrow> (lvobj option \<times> vm) option" where
  "reduce_loop call a n 0 res other v = Some (Some res, v)"
| "reduce_loop call a n (Suc k) res other v = do {
     other \<leftarrow> read_item a n other v;
     (r, v) \<leftarrow> call_back call [ORef RArray a, res, other] v;
     (case r of
        None \<Rightarrow> Some (None, v)
      | Some res \<Rightarrow> do { v \<leftarrow> Pop v; reduce_loop call a (n + 1) k res other v })
   }"

definition array_reduce :: "callfn \<Rightarrow> vm \<Rightarrow> nres" where
  "array_reduce call = on_array (\<lambda>a t v.
     if vsize t = 0 then Some (0, v)
     else do {
       res \<leftarrow> read_item a 0 ONull v;
       (r, v) \<leftarrow> reduce_loop call a 1 (vsize t - 1) res ONull v;
       (case r of Some res \<Rightarrow> npush res v | None \<Rightarrow> Some (- 1, v))
     })"

fun filter_loop :: "callfn \<Rightarrow> u64 \<Rightarrow> u64 \<Rightarrow> nat \<Rightarrow> nat \<Rightarrow> lvobj \<Rightarrow> vm \<Rightarrow> bres" where
  "filter_loop call dst a n 0 val v = Some (True, v)"
| "filter_loop call dst a n (Suc k) val v = do {
     val \<leftarrow> read_item a n val v;
     (r, v) \<leftarrow> call_back call [ORef RArray a, OInteger (of_nat n), val] v;
     (case r of
        None \<Rightarrow> Some (False, v)
      | Some x \<Rightarrow> do {
          v \<leftarrow> (if \<not> IsFalse x then do { d \<leftarrow> get_array v dst; d \<leftarrow> array_Append val d; Some (put_array dst d v) } else Some v);
          v \<leftarrow> Pop v;
          filter_loop call dst a (n + 1) k val v
        })
   }"

definition array_filter :: "callfn \<Rightarrow> vm \<Rightarrow> nres" where
  "array_filter call = on_array (\<lambda>a t v. do {
     d \<leftarrow> array_Create 0;
     (r, v) \<leftarrow> alloc (HArray d) v;
     (b, v) \<leftarrow> filter_loop call r a 0 (vsize t) ONull v;
     if b then npush (ORef RArray r) v else Some (- 1, v)
   })"

subsection \<open>Search and slices\<close>

fun find_loop :: "weak_store \<Rightarrow> lvobj \<Rightarrow> lvobj list \<Rightarrow> nat \<Rightarrow> nat option" where
  "find_loop wr val [] n = None"
| "find_loop wr val (x # xs) n = (if IsEqual (realval wr x) val then Some n else find_loop wr val xs (n + 1))"

definition array_find :: "vm \<Rightarrow> nres" where
  "array_find = on_array (\<lambda>a t v. do {
     val \<leftarrow> stack_get v 2;
     (case find_loop (weak_of v) val (vvals t) 0 of
        Some n \<Rightarrow> npush (OInteger (of_nat n)) v
      | None \<Rightarrow> Some (0, v))
   })"

text \<open>The loop of \<open>array_slice\<close>: \<open>k\<close> elements from index \<open>i\<close>, stored from index \<open>n\<close> on.\<close>

fun slice_loop :: "weak_store \<Rightarrow> lvarray \<Rightarrow> nat \<Rightarrow> nat \<Rightarrow> nat \<Rightarrow> lvobj \<Rightarrow> lvarray \<Rightarrow> lvarray" where
  "slice_loop wr t i n 0 x d = d"
| "slice_loop wr t i n (Suc k) x d =
     (let x = (case array_Get wr t (int i) of Some y \<Rightarrow> y | None \<Rightarrow> x)
      in slice_loop wr t (i + 1) (n + 1) k x (snd (array_Set d (int n) x)))"

definition array_slice :: "(lvobj \<Rightarrow> int) \<Rightarrow> vm \<Rightarrow> nres" where
  "array_slice udsize v = do {
     (sidx, eidx, ob, v) \<leftarrow> get_slice_params udsize v;
     (case ob of
        ORef RArray a \<Rightarrow> do {
          t \<leftarrow> get_array v a;
          (case slice_range (int (vsize t)) sidx eidx of
             Inl err \<Rightarrow> nfail err v
           | Inr (i, j) \<Rightarrow> do {
               d \<leftarrow> array_Create (j - i);
               (r, v) \<leftarrow> alloc (HArray (slice_loop (weak_of v) t i 0 (j - i) ONull d)) v;
               npush (ORef RArray r) v
             })
        }
      | _ \<Rightarrow> None)
   }"

section \<open>Closures\<close>

definition closure_pcall :: "callfn \<Rightarrow> vm \<Rightarrow> nres" where
  "closure_pcall call v = results 1 (lv_call call (nat (lv_gettop v - 1)) True False v)"

definition closure_call :: "callfn \<Rightarrow> vm \<Rightarrow> nres" where
  "closure_call call v = results 1 (lv_call call (nat (lv_gettop v - 1)) True True v)"

definition closure_acall_at :: "callfn \<Rightarrow> bool \<Rightarrow> vm \<Rightarrow> nres" where
  "closure_acall_at call raiseerror v = do {
     ob \<leftarrow> stack_get v 2;
     (case ob of
        ORef RArray a \<Rightarrow> do {
          t \<leftarrow> get_array v a;
          f \<leftarrow> stack_get v 1;
          v \<leftarrow> Push f v;
          v \<leftarrow> push_all (vvals t) v;
          results 1 (lv_call call (vsize t) True raiseerror v)
        }
      | _ \<Rightarrow> None)
   }"

definition closure_acall :: "callfn \<Rightarrow> vm \<Rightarrow> nres" where "closure_acall call = closure_acall_at call True"

definition closure_pacall :: "callfn \<Rightarrow> vm \<Rightarrow> nres" where "closure_pacall call = closure_acall_at call False"

definition closure_bindenv :: "vm \<Rightarrow> nres" where "closure_bindenv v = results 1 (lv_bindenv 1 v)"

definition closure_getroot :: "vm \<Rightarrow> nres" where "closure_getroot v = results 1 (lv_getclosureroot (- 1) v)"

definition closure_setroot :: "vm \<Rightarrow> nres" where "closure_setroot v = results 1 (lv_setclosureroot (- 2) v)"

text \<open>A table whose slots are inserted one after the other.\<close>

fun new_slots :: "(string \<times> lvobj) list \<Rightarrow> lvtable \<Rightarrow> lvtable option" where
  "new_slots [] t = Some t"
| "new_slots ((k, x) # kvs) t = do { (_, t) \<leftarrow> table_NewSlot t (OString k) x; new_slots kvs t }"

definition alloc_list :: "lvobj list \<Rightarrow> vm \<Rightarrow> (lvobj \<times> vm) option" where
  "alloc_list xs v = do {
     d \<leftarrow> array_Create (length xs);
     (a, v) \<leftarrow> alloc (HArray (d\<lparr>vvals := xs\<rparr>)) v;
     Some (ORef RArray a, v)
   }"

definition bool_obj :: "bool \<Rightarrow> lvobj" where "bool_obj b = OBool (if b then 1 else 0)"

definition closure_getinfos :: "vm \<Rightarrow> nres" where
  "closure_getinfos v = do {
     ob \<leftarrow> stack_get v 1;
     (r, v) \<leftarrow> alloc (HTable (table_create 4)) v;
     (slots, v) \<leftarrow> (case ob of
        ORef RClosure a \<Rightarrow> do {
          c \<leftarrow> get_closure v a;
          f \<leftarrow> get_proto v (c_function c);
          (params, v) \<leftarrow> alloc_list (p_parameters f @ (if p_varparams f then [OString ''...''] else [])) v;
          (defparams, v) \<leftarrow> alloc_list (c_defaultparams c) v;
          Some ([(''native'', bool_obj False), (''name'', p_name f), (''src'', p_sourcename f), (''parameters'', params),
                 (''varargs'', OInteger (if p_varparams f then 1 else 0)), (''defparams'', defparams)], v)
        }
      | ORef RNativeClosure a \<Rightarrow> do {
          c \<leftarrow> get_native v a;
          (typecheck, v) \<leftarrow> (if n_typecheck c \<noteq> [] then alloc_list (map OInteger (n_typecheck c)) v else Some (ONull, v));
          Some ([(''native'', bool_obj True), (''name'', n_name c),
                 (''paramscheck'', OInteger (of_int (n_nparamscheck c))), (''typecheck'', typecheck)], v)
        }
      | _ \<Rightarrow> None);
     t \<leftarrow> new_slots slots (table_create 4);
     npush (ORef RTable r) (put_table r t v)
   }"

section \<open>Generators, classes, weak references\<close>

definition generator_getstatus :: "vm \<Rightarrow> nres" where
  "generator_getstatus v = do {
     ob \<leftarrow> stack_get v 1;
     (case ob of
        ORef RGenerator a \<Rightarrow> do {
          g \<leftarrow> get_generator v a;
          npush (OString (case g_state g of eSuspended \<Rightarrow> ''suspended'' | eRunning \<Rightarrow> ''running'' | eDead \<Rightarrow> ''dead'')) v
        }
      | _ \<Rightarrow> None)
   }"

definition class_getattributes :: "vm \<Rightarrow> nres" where "class_getattributes v = results 1 (lv_getattributes (- 2) v)"
definition class_setattributes :: "vm \<Rightarrow> nres" where "class_setattributes v = results 1 (lv_setattributes (- 3) v)"
definition class_instance_native :: "vm \<Rightarrow> nres" where "class_instance_native v = results 1 (lv_createinstance (- 1) v)"
definition class_getbase :: "vm \<Rightarrow> nres" where "class_getbase v = results 1 (lv_getbase (- 1) v)"

text \<open>The common part of \<open>class_newmember\<close> and \<open>class_rawnewmember\<close>: the flag \<open>static\<close>, and null for missing attributes.\<close>

definition member_args :: "vm \<Rightarrow> (bool \<times> vm) option" where
  "member_args v = do {
     let t = lv_gettop v;
     (bstatic, v) \<leftarrow> (if t = 5 then do { b \<leftarrow> lv_tobool (- 1) v; v \<leftarrow> lv_pop 1 v; Some (b, v) } else Some (False, v));
     v \<leftarrow> (if t < 4 then lv_pushnull v else Some v);
     Some (bstatic, v)
   }"

definition class_newmember :: "callfn \<Rightarrow> vm \<Rightarrow> nres" where
  "class_newmember call v = do { (bstatic, v) \<leftarrow> member_args v; results 1 (lv_newmember call (- 4) bstatic v) }"

definition class_rawnewmember :: "callfn \<Rightarrow> vm \<Rightarrow> nres" where
  "class_rawnewmember call v = do { (bstatic, v) \<leftarrow> member_args v; results 1 (lv_rawnewmember call (- 4) bstatic v) }"

definition instance_getclass :: "vm \<Rightarrow> nres" where "instance_getclass v = results 1 (lv_getclass 1 v)"

definition weakref_ref :: "vm \<Rightarrow> nres" where "weakref_ref v = results 1 (lv_getweakrefval 1 v)"

section \<open>The functions of the root table\<close>

definition base_getroottable :: "vm \<Rightarrow> nres" where "base_getroottable v = npush (v_roottable v) v"

definition base_setroottable :: "vm \<Rightarrow> nres" where
  "base_setroottable v = do {
     let ob = v_roottable v;
     (b, v) \<leftarrow> lv_setroottable v;
     if b then npush ob v else Some (- 1, v)
   }"

definition base_seterrorhandler :: "vm \<Rightarrow> nres" where
  "base_seterrorhandler v = do { v \<leftarrow> lv_seterrorhandler v; Some (0, v) }"

definition base_assert :: "vm \<Rightarrow> nres" where
  "base_assert v = do { ob \<leftarrow> stack_get v 2; if IsFalse ob then nfail ''assertion failed'' v else Some (0, v) }"

text \<open>The text the print function of the host gets, and the result.\<close>

definition base_print :: "callfn \<Rightarrow> string \<Rightarrow> vm \<Rightarrow> (string option \<times> int \<times> vm) option" where
  "base_print call ending v = do {
     (b, v) \<leftarrow> lv_tostring call 2 v;
     if \<not> b then Some (None, - 1, v)
     else do {
       (str, v) \<leftarrow> lv_getstring (- 1) v;
       (case str of Some str \<Rightarrow> Some (Some (c_string str @ ending), 0, v) | None \<Rightarrow> Some (None, - 1, v))
     }
   }"

definition base_array :: "vm \<Rightarrow> nres" where
  "base_array v = do {
     ob \<leftarrow> stack_get v 2;
     let n = sint (tointeger ob);
     if n < 0 then None
     else do {
       t \<leftarrow> (if lv_gettop v > 2 then do { t \<leftarrow> array_Create 0; fill \<leftarrow> stack_get v 3; array_Resize (nat n) fill t }
             else array_Create (nat n));
       (a, v) \<leftarrow> alloc (HArray t) v;
       npush (ORef RArray a) v
     }
   }"

definition base_type :: "vm \<Rightarrow> nres" where
  "base_type v = do { ob \<leftarrow> stack_get v 2; npush (OString (type_name ob)) v }"

definition base_callee :: "vm \<Rightarrow> nres" where
  "base_callee v =
     (if length (v_calls v) > 1 then npush (ci_closure (v_calls v ! 1)) v
      else nfail ''no closure in the calls stack'' v)"

text \<open>\<open>lv_stackinfos\<close> (\<^verbatim>\<open>src/debug.cpp\<close>): function, source and line of a frame.\<close>

definition as_string :: "lvobj \<Rightarrow> string option" where
  "as_string ob = (case ob of OString s \<Rightarrow> Some s | _ \<Rightarrow> None)"

definition lv_stackinfos :: "nat \<Rightarrow> vm \<Rightarrow> (string option \<times> string option \<times> int) option option" where
  "lv_stackinfos level v =
     (if length (v_calls v) \<le> level then Some None
      else (let c = v_calls v ! level in
        case ci_closure c of
          ORef RClosure a \<Rightarrow> do {
            k \<leftarrow> get_closure v a;
            f \<leftarrow> get_proto v (c_function k);
            line \<leftarrow> GetLine f (ci_ip c);
            Some (Some (as_string (p_name f), as_string (p_sourcename f), line))
          }
        | ORef RNativeClosure a \<Rightarrow> do {
            k \<leftarrow> get_native v a;
            Some (Some (Some (case as_string (n_name k) of Some s \<Rightarrow> s | None \<Rightarrow> ''unknown''), Some ''NATIVE'', - 1))
          }
        | _ \<Rightarrow> Some (Some (None, None, 0))))"

text \<open>The loop over the local variables of a frame stores them in the table below the key on the stack.\<close>

fun locals_loop :: "callfn \<Rightarrow> nat \<Rightarrow> nat \<Rightarrow> nat \<Rightarrow> vm \<Rightarrow> vm option" where
  "locals_loop call 0 level sq v = None"
| "locals_loop call (Suc m) level sq v = do {
     (name, v) \<leftarrow> lv_getlocal level sq v;
     (case name of
        None \<Rightarrow> Some v
      | Some name \<Rightarrow> do {
          v \<leftarrow> lv_pushstring (Some name) (- 1) v;
          v \<leftarrow> lv_push (- 2) v;
          (_, v) \<leftarrow> lv_newslot call (- 4) False v;
          v \<leftarrow> lv_pop 1 v;
          locals_loop call m level (sq + 1) v
        })
   }"

definition info_slot :: "callfn \<Rightarrow> string \<Rightarrow> (vm \<Rightarrow> vm option) \<Rightarrow> vm \<Rightarrow> vm option" where
  "info_slot call key push v = do {
     v \<leftarrow> lv_pushstring (Some key) (- 1) v;
     v \<leftarrow> push v;
     (_, v) \<leftarrow> lv_newslot call (- 3) False v;
     Some v
   }"

definition getcallstackinfos :: "callfn \<Rightarrow> nat \<Rightarrow> nat \<Rightarrow> vm \<Rightarrow> nres" where
  "getcallstackinfos call m level v = do {
     r \<leftarrow> lv_stackinfos level v;
     (case r of
        None \<Rightarrow> Some (0, v)
      | Some (func, source, line) \<Rightarrow> do {
          v \<leftarrow> lv_newtable v;
          v \<leftarrow> info_slot call ''func'' (lv_pushstring (Some (case func of Some s \<Rightarrow> s | None \<Rightarrow> ''unknown'')) (- 1)) v;
          v \<leftarrow> info_slot call ''src'' (lv_pushstring (Some (case source of Some s \<Rightarrow> s | None \<Rightarrow> ''unknown'')) (- 1)) v;
          v \<leftarrow> info_slot call ''line'' (lv_pushinteger (of_int line)) v;
          v \<leftarrow> info_slot call ''variables'' (\<lambda>v. do { v \<leftarrow> lv_newtable v; locals_loop call m level 0 v }) v;
          Some (1, v)
        })
   }"

definition base_getstackinfos :: "callfn \<Rightarrow> nat \<Rightarrow> vm \<Rightarrow> nres" where
  "base_getstackinfos call m v = do {
     level \<leftarrow> lv_getinteger (- 1) v;
     (case level of
        Some i \<Rightarrow> if sint i < 0 then None else getcallstackinfos call m (nat (sint i)) v
      | None \<Rightarrow> None)
   }"

end
