(* ===== verification/GC.thy ===== *)
theory GC
  imports Embedding_Objects
begin

text \<open>
  The garbage collector of the debug and the default build (\<^verbatim>\<open>src/state.cpp\<close>, the \<open>Mark\<close> functions of
  \<^verbatim>\<open>src/object.cpp\<close>). Objects that can take part in a cycle are linked in the chain \<open>_gc_chain\<close>; marking moves
  what can be reached from the roots to a second chain, and what stays behind is finalised and released. An object is
  its address in the machine's heap; the root machine, which is always reachable, is not in the chains, and there are no
  other threads. Reference counts are not kept: of the objects left behind only the open outer variables are
  held by something else, the machine's list of them.
\<close>

section \<open>The graph of objects\<close>

fun is_collectable :: "rkind \<Rightarrow> bool" where
  "is_collectable RWeakRef = False"
| "is_collectable _ = True"

definition opt_ref :: "rkind \<Rightarrow> u64 option \<Rightarrow> lvobj list" where
  "opt_ref k x = (case x of Some a \<Rightarrow> [ORef k a] | None \<Rightarrow> [])"

text \<open>What the \<open>Mark\<close> function of an object passes on, in its order.\<close>

fun children :: "vm \<Rightarrow> heap_obj \<Rightarrow> lvobj list option" where
  "children v (HTable t) = Some (opt_ref RTable (tdelegate t) @ concat (map (\<lambda>n. [nkey n, nval n]) (tnodes t)))"
| "children v (HArray t) = Some (vvals t)"
| "children v (HUserData d) = Some (opt_ref RTable d)"
| "children v (HClass c) =
     Some (ORef RTable (cl_members c) # opt_ref RClass (cl_base c) @ [cl_attributes c] @
       concat (map (\<lambda>m. [m_val m, m_attrs m]) (cl_defaultvalues c)) @
       concat (map (\<lambda>m. [m_val m, m_attrs m]) (cl_methods c)) @ cl_metamethods c)"
| "children v (HInstance i) = do {
     c \<leftarrow> get_class v (in_class i);
     if length (in_values i) < length (cl_defaultvalues c) then None
     else Some (ORef RClass (in_class i) # take (length (cl_defaultvalues c)) (in_values i))
   }"
| "children v (HClosure c) = do {
     f \<leftarrow> get_proto v (c_function c);
     if length (c_outervalues c) < length (p_outervalues f) \<or> length (c_defaultparams c) < length (p_defaultparams f) then None
     else Some (opt_ref RClosure (c_base c) @ ORef RFuncProto (c_function c) #
       take (length (p_outervalues f)) (c_outervalues c) @ take (length (p_defaultparams f)) (c_defaultparams c))
   }"
| "children v (HNative c) = Some (n_outervalues c)"
| "children v (HOuter w) = Some (case w of ClosedOuter x \<Rightarrow> [x] | OpenOuter _ \<Rightarrow> [])"
| "children v (HGenerator g) = Some (g_stack g @ [g_closure g])"
| "children v (HProto f) = Some (p_literals f @ p_functions f)"
| "children v (HWeakRef x) = Some []"

text \<open>The members of the shared state that are roots, besides the machine and its default delegates.\<close>

record shared =
  sh_refs_table :: reftab
  sh_registry :: lvobj
  sh_consts :: lvobj
  sh_metamethodsmap :: lvobj

definition ddel_roots :: "vm \<Rightarrow> lvobj list" where
  "ddel_roots v = concat (map (\<lambda>k. opt_ref RTable (v_ddel v k))
     [OT_TABLE, OT_ARRAY, OT_STRING, OT_INTEGER, OT_GENERATOR, OT_THREAD, OT_CLOSURE, OT_CLASS, OT_INSTANCE, OT_WEAKREF])"

definition vm_roots :: "vm \<Rightarrow> lvobj list" where
  "vm_roots v = [v_lasterror v, v_errorhandler v, v_roottable v, v_temp v] @ v_stack v @ map ci_closure (v_calls v)"

definition roots :: "vm \<Rightarrow> shared \<Rightarrow> lvobj list" where
  "roots v sh = vm_roots v @ map robj (rnodes (sh_refs_table sh)) @
     [sh_registry sh, sh_consts sh, sh_metamethodsmap sh] @ ddel_roots v"

section \<open>Marking\<close>

text \<open>The addresses with the flag set, the chain \<open>_gc_chain\<close>, and the chain of marked objects.\<close>

record gcstate =
  g_flags :: "u64 list"
  g_chain :: "u64 list"
  g_marked :: "u64 list"

definition MarkObject :: "(u64 \<Rightarrow> gcstate \<Rightarrow> gcstate option) \<Rightarrow> lvobj \<Rightarrow> gcstate \<Rightarrow> gcstate option" where
  "MarkObject f x g = (case x of ORef k a \<Rightarrow> if is_collectable k then f a g else Some g | _ \<Rightarrow> Some g)"

fun mark_all :: "(u64 \<Rightarrow> gcstate \<Rightarrow> gcstate option) \<Rightarrow> lvobj list \<Rightarrow> gcstate \<Rightarrow> gcstate option" where
  "mark_all f [] g = Some g"
| "mark_all f (x # xs) g = do { g \<leftarrow> MarkObject f x g; mark_all f xs g }"

text \<open>
  The \<open>Mark\<close> functions between \<open>START_MARK\<close> and \<open>END_MARK\<close>; the first argument bounds the depth of the recursion.
\<close>

primrec Mark :: "nat \<Rightarrow> vm \<Rightarrow> u64 \<Rightarrow> gcstate \<Rightarrow> gcstate option" where
  "Mark 0 v a g = None"
| "Mark (Suc n) v a g =
     (if a \<in> set (g_flags g) then Some g
      else do {
        ob \<leftarrow> v_heap v a;
        kids \<leftarrow> children v ob;
        g \<leftarrow> mark_all (Mark n v) kids (g\<lparr>g_flags := a # g_flags g\<rparr>);
        Some (g\<lparr>g_chain := remove1 a (g_chain g), g_marked := a # g_marked g\<rparr>)
      })"

definition RunMark :: "nat \<Rightarrow> vm \<Rightarrow> shared \<Rightarrow> u64 list \<Rightarrow> gcstate option" where
  "RunMark n v sh cs = mark_all (Mark n v) (roots v sh) \<lparr>g_flags = [], g_chain = cs, g_marked = []\<rparr>"

section \<open>Collecting\<close>

text \<open>Releasing an object takes it from the heap and empties its weak reference.\<close>

definition refers_to :: "u64 \<Rightarrow> lvobj \<Rightarrow> bool" where
  "refers_to a x \<longleftrightarrow> (case x of ORef k b \<Rightarrow> is_collectable k \<and> b = a | _ \<Rightarrow> False)"

definition emptied :: "u64 set \<Rightarrow> heap_obj \<Rightarrow> heap_obj" where
  "emptied A ob =
     (case ob of HWeakRef x \<Rightarrow> HWeakRef (if \<exists>a \<in> A. refers_to a x then ONull else x) | y \<Rightarrow> y)"

definition release_object :: "u64 \<Rightarrow> vm \<Rightarrow> vm" where
  "release_object a v = v\<lparr>
     v_heap := (\<lambda>b. if b = a then None else map_option (emptied {a}) (v_heap v b)),
     v_weakrefs := (\<lambda>x. if refers_to a x then None else v_weakrefs v x)\<rparr>"

text \<open>The first loop of \<open>CollectGarbage\<close>; the second one clears the flags, and the chain is that of the marked objects.\<close>

fun release_all :: "u64 list \<Rightarrow> vm \<Rightarrow> vm" where
  "release_all [] v = v"
| "release_all (a # as) v = release_all as (if a \<in> set (v_openouters v) then v else release_object a v)"

definition CollectGarbage :: "nat \<Rightarrow> vm \<Rightarrow> shared \<Rightarrow> u64 list \<Rightarrow> (vm \<times> u64 list) option" where
  "CollectGarbage n v sh cs = do {
     g \<leftarrow> RunMark n v sh cs;
     Some (release_all (g_chain g) v, g_marked g)
   }"

definition kind_of :: "heap_obj \<Rightarrow> rkind" where
  "kind_of ob = (case ob of HTable _ \<Rightarrow> RTable | HArray _ \<Rightarrow> RArray | HUserData _ \<Rightarrow> RUserData | HClass _ \<Rightarrow> RClass
     | HInstance _ \<Rightarrow> RInstance | HClosure _ \<Rightarrow> RClosure | HNative _ \<Rightarrow> RNativeClosure | HOuter _ \<Rightarrow> ROuter
     | HGenerator _ \<Rightarrow> RGenerator | HProto _ \<Rightarrow> RFuncProto | HWeakRef _ \<Rightarrow> RWeakRef)"

text \<open>\<open>ResurrectUnreachable\<close>: what cannot be reached, but for prototypes and outer variables, is put into an array.\<close>

fun resurrected :: "vm \<Rightarrow> u64 list \<Rightarrow> lvobj list option" where
  "resurrected v [] = Some []"
| "resurrected v (a # as) = do {
     ob \<leftarrow> v_heap v a;
     xs \<leftarrow> resurrected v as;
     Some (if kind_of ob \<in> {RFuncProto, ROuter} then xs else ORef (kind_of ob) a # xs)
   }"

definition ResurrectUnreachable :: "nat \<Rightarrow> vm \<Rightarrow> shared \<Rightarrow> u64 list \<Rightarrow> (nat \<times> vm \<times> u64 list) option" where
  "ResurrectUnreachable n v sh cs = do {
     g \<leftarrow> RunMark n v sh cs;
     (if g_chain g = [] then do { v \<leftarrow> PushNull v; Some (0, v, g_marked g) }
      else do {
        xs \<leftarrow> resurrected v (g_chain g);
        d \<leftarrow> array_Create 0;
        d \<leftarrow> append_all xs d;
        (a, v) \<leftarrow> alloc (HArray d) v;
        v \<leftarrow> Push (ORef RArray a) v;
        Some (length (g_chain g), v, g_chain g @ a # g_marked g)
      })
   }"

section \<open>What can be reached\<close>

definition addrs :: "lvobj list \<Rightarrow> u64 set" where
  "addrs xs = {a. \<exists>k. is_collectable k \<and> ORef k a \<in> set xs}"

text \<open>
  The members of an object that hold a reference, whatever the collector does with them. The frame of a generator has
  the generator's closure; the environment and the root of a closure are weak references.
\<close>

fun members :: "heap_obj \<Rightarrow> lvobj list" where
  "members (HTable t) = opt_ref RTable (tdelegate t) @ map nkey (tnodes t) @ map nval (tnodes t)"
| "members (HArray t) = vvals t"
| "members (HUserData d) = opt_ref RTable d"
| "members (HClass c) =
     [ORef RTable (cl_members c), cl_attributes c] @ opt_ref RClass (cl_base c) @ map m_val (cl_defaultvalues c @ cl_methods c) @
       map m_attrs (cl_defaultvalues c @ cl_methods c) @ cl_metamethods c"
| "members (HInstance i) = ORef RClass (in_class i) # in_values i"
| "members (HClosure c) =
     ORef RFuncProto (c_function c) # opt_ref RClosure (c_base c) @ c_outervalues c @ c_defaultparams c"
| "members (HNative c) = n_outervalues c"
| "members (HOuter (ClosedOuter x)) = [x]"
| "members (HOuter (OpenOuter i)) = []"
| "members (HGenerator g) = g_closure g # g_stack g"
| "members (HProto f) = p_literals f @ p_functions f"
| "members (HWeakRef x) = []"

definition links :: "vm \<Rightarrow> u64 \<Rightarrow> u64 \<Rightarrow> bool" where
  "links v a b \<longleftrightarrow> (\<exists>ob. v_heap v a = Some ob \<and> b \<in> addrs (members ob))"

text \<open>The arrays behind an instance and a closure have the sizes their class and prototype say.\<close>

fun sized :: "vm \<Rightarrow> heap_obj \<Rightarrow> bool" where
  "sized v (HInstance i) \<longleftrightarrow> (case get_class v (in_class i) of
     Some c \<Rightarrow> length (in_values i) = length (cl_defaultvalues c) | None \<Rightarrow> False)"
| "sized v (HClosure c) \<longleftrightarrow> (case get_proto v (c_function c) of
     Some f \<Rightarrow> length (c_outervalues c) = length (p_outervalues f) \<and> length (c_defaultparams c) = length (p_defaultparams f)
   | None \<Rightarrow> False)"
| "sized v ob \<longleftrightarrow> True"

inductive reachable :: "vm \<Rightarrow> shared \<Rightarrow> u64 \<Rightarrow> bool" for v sh where
  root: "a \<in> addrs (roots v sh) \<Longrightarrow> reachable v sh a"
| link: "reachable v sh a \<Longrightarrow> links v a b \<Longrightarrow> reachable v sh b"

text \<open>No pointer that can be reached dangles, and the chain holds the objects of the heap, each once.\<close>

definition chain_ok :: "vm \<Rightarrow> shared \<Rightarrow> u64 list \<Rightarrow> bool" where
  "chain_ok v sh cs \<longleftrightarrow> distinct cs \<and>
     (\<forall>a. a \<in> set cs \<longleftrightarrow> (\<exists>ob. v_heap v a = Some ob \<and> is_collectable (kind_of ob))) \<and>
     (\<forall>a. reachable v sh a \<longrightarrow> a \<in> set cs \<and> (\<exists>ob. v_heap v a = Some ob \<and> sized v ob))"

lemma addrs_simps [simp]: "addrs [] = {}" "addrs (xs @ ys) = addrs xs \<union> addrs ys"
  by (auto simp: addrs_def)

lemma addrs_Cons: "addrs (x # xs) = (case x of ORef k a \<Rightarrow> if is_collectable k then {a} else {} | _ \<Rightarrow> {}) \<union> addrs xs"
  by (auto simp: addrs_def split: lvobj.split)

lemma addrs_iff: "b \<in> addrs xs \<longleftrightarrow> (\<exists>k. is_collectable k \<and> ORef k b \<in> set xs)"
  by (simp add: addrs_def)

text \<open>The \<open>Mark\<close> functions pass on every member.\<close>

lemma children_members: "sized v ob \<Longrightarrow> \<exists>kids. children v ob = Some kids \<and> addrs kids = addrs (members ob)"
proof (cases ob)
  case (HOuter w) then show ?thesis by (cases w) auto
qed (auto simp: addrs_iff set_eq_iff split: option.splits)

text \<open>What a run of marking does: it adds new objects, all of whose children are marked in the end.\<close>

definition marks :: "vm \<Rightarrow> u64 set \<Rightarrow> gcstate \<Rightarrow> gcstate \<Rightarrow> bool" where
  "marks v R g g' \<longleftrightarrow> (\<exists>new. distinct new \<and> set new \<subseteq> R - set (g_flags g) \<and> set (g_flags g') = set (g_flags g) \<union> set new \<and>
     g_marked g' = new @ g_marked g \<and> g_chain g' = filter (\<lambda>a. a \<notin> set new) (g_chain g) \<and>
     (\<forall>a \<in> set new. \<forall>b. links v a b \<longrightarrow> b \<in> set (g_flags g')))"

lemma marks_refl: "marks v R g g"
  by (auto simp: marks_def intro!: exI [of _ "[]"])

lemma marks_trans: "marks v R g h \<Longrightarrow> marks v R h k \<Longrightarrow> marks v R g k"
  unfolding marks_def
proof (elim exE conjE)
  fix xs ys
  assume "distinct xs" "set xs \<subseteq> R - set (g_flags g)" "set (g_flags h) = set (g_flags g) \<union> set xs"
    "g_marked h = xs @ g_marked g" "g_chain h = filter (\<lambda>a. a \<notin> set xs) (g_chain g)"
    "\<forall>a \<in> set xs. \<forall>b. links v a b \<longrightarrow> b \<in> set (g_flags h)"
    "distinct ys" "set ys \<subseteq> R - set (g_flags h)" "set (g_flags k) = set (g_flags h) \<union> set ys"
    "g_marked k = ys @ g_marked h" "g_chain k = filter (\<lambda>a. a \<notin> set ys) (g_chain h)"
    "\<forall>a \<in> set ys. \<forall>b. links v a b \<longrightarrow> b \<in> set (g_flags k)"
  then show "\<exists>new. distinct new \<and> set new \<subseteq> R - set (g_flags g) \<and> set (g_flags k) = set (g_flags g) \<union> set new \<and>
     g_marked k = new @ g_marked g \<and> g_chain k = filter (\<lambda>a. a \<notin> set new) (g_chain g) \<and>
     (\<forall>a \<in> set new. \<forall>b. links v a b \<longrightarrow> b \<in> set (g_flags k))"
    by (intro exI [of _ "ys @ xs"]) (auto simp: filter_filter intro: filter_cong)
qed

lemma marks_flags: "marks v R g g' \<Longrightarrow> set (g_flags g) \<subseteq> set (g_flags g')"
  by (auto simp: marks_def)

text \<open>The objects that can be reached are closed under links, and each has its children.\<close>

definition closed_set :: "vm \<Rightarrow> u64 set \<Rightarrow> bool" where
  "closed_set v R \<longleftrightarrow> finite R \<and>
     (\<forall>a \<in> R. \<exists>ob kids. v_heap v a = Some ob \<and> children v ob = Some kids \<and> addrs kids = addrs (members ob) \<and> addrs kids \<subseteq> R)"

lemma mark_all_marks:
  assumes step: "\<And>a g. a \<in> R \<Longrightarrow> distinct (g_chain g) \<Longrightarrow> card (R - set (g_flags g)) < n \<Longrightarrow>
      \<exists>g'. f a g = Some g' \<and> a \<in> set (g_flags g') \<and> marks v R g g'"
    and R: "finite R"
  shows "addrs xs \<subseteq> R \<Longrightarrow> distinct (g_chain g) \<Longrightarrow> card (R - set (g_flags g)) < n \<Longrightarrow>
    \<exists>g'. mark_all f xs g = Some g' \<and> addrs xs \<subseteq> set (g_flags g') \<and> marks v R g g'"
proof (induction xs arbitrary: g)
  case Nil then show ?case by (simp add: marks_refl)
next
  case (Cons x xs)
  have "\<exists>h. MarkObject f x g = Some h \<and> addrs [x] \<subseteq> set (g_flags h) \<and> marks v R g h"
  proof (cases "\<exists>k a. x = ORef k a \<and> is_collectable k")
    case True
    then obtain k a where x: "x = ORef k a" "is_collectable k" by blast
    then have "a \<in> R" using Cons.prems by (simp add: addrs_Cons)
    from step [OF this Cons.prems(2,3)] show ?thesis using x by (auto simp: MarkObject_def addrs_Cons)
  next
    case False
    then show ?thesis by (cases x) (auto simp: MarkObject_def addrs_Cons marks_refl)
  qed
  then obtain h where h: "MarkObject f x g = Some h" "addrs [x] \<subseteq> set (g_flags h)" "marks v R g h" by blast
  have "card (R - set (g_flags h)) \<le> card (R - set (g_flags g))"
    by (rule card_mono) (use R marks_flags [OF h(3)] in auto)
  then have "card (R - set (g_flags h)) < n" using Cons.prems by simp
  moreover have "addrs xs \<subseteq> R" using Cons.prems by (auto simp: addrs_Cons)
  moreover have "distinct (g_chain h)" using h(3) Cons.prems by (auto simp: marks_def)
  ultimately obtain g' where g': "mark_all f xs h = Some g'" "addrs xs \<subseteq> set (g_flags g')" "marks v R h g'"
    using Cons.IH by blast
  have "addrs (x # xs) = addrs [x] \<union> addrs xs" by (simp add: addrs_Cons)
  then show ?case using h g' marks_flags [OF g'(3)] marks_trans [OF h(3) g'(3)] by auto
qed

lemma Mark_marks:
  assumes R: "closed_set v R"
  shows "a \<in> R \<Longrightarrow> distinct (g_chain g) \<Longrightarrow> card (R - set (g_flags g)) < n \<Longrightarrow>
    \<exists>g'. Mark n v a g = Some g' \<and> a \<in> set (g_flags g') \<and> marks v R g g'"
proof (induction n arbitrary: a g)
  case 0 then show ?case by simp
next
  case (Suc n)
  show ?case
  proof (cases "a \<in> set (g_flags g)")
    case True then show ?thesis by (simp add: marks_refl)
  next
    case False
    let ?h = "g\<lparr>g_flags := a # g_flags g\<rparr>"
    obtain ob kids where ob: "v_heap v a = Some ob" "children v ob = Some kids" "addrs kids \<subseteq> R" "addrs kids = addrs (members ob)"
      using R Suc.prems by (auto simp: closed_set_def)
    have fin: "finite R" using R by (simp add: closed_set_def)
    have "R - set (g_flags ?h) \<subset> R - set (g_flags g)" using False Suc.prems by auto
    then have "card (R - set (g_flags ?h)) < card (R - set (g_flags g))" using fin by (simp add: psubset_card_mono)
    then have "card (R - set (g_flags ?h)) < n" using Suc.prems by simp
    then obtain k where k: "mark_all (Mark n v) kids ?h = Some k" "addrs kids \<subseteq> set (g_flags k)" "marks v R ?h k"
      using mark_all_marks [of R n "Mark n v" v kids ?h] Suc.IH fin ob(3) Suc.prems by auto
    then obtain new where new: "distinct new" "set new \<subseteq> R - set (g_flags ?h)" "set (g_flags k) = set (g_flags ?h) \<union> set new"
        "g_marked k = new @ g_marked ?h" "g_chain k = filter (\<lambda>a. a \<notin> set new) (g_chain ?h)"
        "\<forall>a \<in> set new. \<forall>b. links v a b \<longrightarrow> b \<in> set (g_flags k)"
      unfolding marks_def by blast
    have kids: "\<forall>b. links v a b \<longrightarrow> b \<in> set (g_flags k)" using ob k(2) by (auto simp: links_def)
    let ?g' = "k\<lparr>g_chain := remove1 a (g_chain k), g_marked := a # g_marked k\<rparr>"
    have rm: "remove1 a (g_chain k) = filter (\<lambda>b. b \<noteq> a \<and> b \<notin> set new) (g_chain g)"
      using new(5) Suc.prems(2) by (simp add: distinct_remove1_removeAll removeAll_filter_not_eq conj_commute neq_commute)
    have "marks v R g ?g'"
      unfolding marks_def
      by (rule exI [of _ "a # new"])
        (use new kids False Suc.prems(1) rm in auto)
    then show ?thesis using k(1) False ob new(3) by auto
  qed
qed

lemma chain_ok_closed: "chain_ok v sh cs \<Longrightarrow> closed_set v {a. reachable v sh a}"
proof -
  assume ok: "chain_ok v sh cs"
  then have "{a. reachable v sh a} \<subseteq> set cs" by (auto simp: chain_ok_def)
  then have "finite {a. reachable v sh a}" by (rule finite_subset) simp
  moreover have "\<exists>ob kids. v_heap v a = Some ob \<and> children v ob = Some kids \<and> addrs kids = addrs (members ob) \<and>
      addrs kids \<subseteq> {a. reachable v sh a}" if a: "reachable v sh a" for a
  proof -
    obtain ob where ob: "v_heap v a = Some ob" "sized v ob" using ok a by (auto simp: chain_ok_def)
    then have "addrs (members ob) \<subseteq> {a. reachable v sh a}" using a reachable.link by (auto simp: links_def)
    then show ?thesis using ob children_members [OF ob(2)] by auto
  qed
  ultimately show ?thesis by (simp add: closed_set_def)
qed

lemma RunMark_reachable:
  assumes ok: "chain_ok v sh cs" and n: "length cs < n"
  shows "\<exists>g. RunMark n v sh cs = Some g \<and> distinct (g_marked g) \<and> set (g_marked g) = {a. reachable v sh a} \<and>
     g_chain g = filter (\<lambda>a. \<not> reachable v sh a) cs"
proof -
  let ?R = "{a. reachable v sh a}" let ?g = "\<lparr>g_flags = [], g_chain = cs, g_marked = []\<rparr>"
  have R: "closed_set v ?R" by (rule chain_ok_closed [OF ok])
  have "?R \<subseteq> set cs" using ok by (auto simp: chain_ok_def)
  then have "card ?R \<le> length cs" by (meson card_length card_mono le_trans List.finite_set)
  then have "card (?R - set (g_flags ?g)) < n" using n by simp
  moreover have "addrs (roots v sh) \<subseteq> ?R" by (auto intro: reachable.root)
  moreover have "distinct (g_chain ?g)" using ok by (simp add: chain_ok_def)
  ultimately obtain g where g: "mark_all (Mark n v) (roots v sh) ?g = Some g" "addrs (roots v sh) \<subseteq> set (g_flags g)" "marks v ?R ?g g"
    using mark_all_marks [of ?R n "Mark n v" v "roots v sh" ?g] Mark_marks [OF R] R by (auto simp: closed_set_def)
  then obtain new where new: "distinct new" "set new \<subseteq> ?R" "set (g_flags g) = set new" "g_marked g = new"
      "g_chain g = filter (\<lambda>a. a \<notin> set new) cs" "\<forall>a \<in> set new. \<forall>b. links v a b \<longrightarrow> b \<in> set new"
    unfolding marks_def by auto
  have "reachable v sh a \<Longrightarrow> a \<in> set new" for a
    by (induction rule: reachable.induct) (use new g(2) in auto)
  then have "set new = ?R" using new(2) by blast
  then show ?thesis using g(1) new by (auto simp: RunMark_def)
qed

subsection \<open>After the collection\<close>

lemma release_object_rest [simp]:
  "v_openouters (release_object a v) = v_openouters v" "roots (release_object a v) sh = roots v sh"
  by (simp_all add: release_object_def roots_def vm_roots_def ddel_roots_def)

lemma release_all_rest [simp]:
  "v_openouters (release_all as v) = v_openouters v" "roots (release_all as v) sh = roots v sh"
  by (induction as arbitrary: v) auto

definition released :: "vm \<Rightarrow> u64 list \<Rightarrow> u64 set" where
  "released v as = set as - set (v_openouters v)"

lemma emptied_emptied: "emptied A (emptied {a} ob) = emptied (insert a A) ob"
  by (cases ob) (auto simp: emptied_def refers_to_def)

lemma emptied_none [simp]: "emptied {} ob = ob"
  by (cases ob) (simp_all add: emptied_def)

lemma release_object_heap:
  "v_heap (release_object a v) b = (if b = a then None else map_option (emptied {a}) (v_heap v b))"
  by (simp add: release_object_def)

lemma release_all_heap:
  "v_heap (release_all as v) b = (if b \<in> released v as then None else map_option (emptied (released v as)) (v_heap v b))"
proof (induction as arbitrary: v)
  case Nil
  then show ?case by (simp add: released_def option.map_ident_strong)
next
  case (Cons a as)
  show ?case
  proof (cases "a \<in> set (v_openouters v)")
    case True
    then have "released v (a # as) = released v as" by (auto simp: released_def)
    then show ?thesis using True Cons by simp
  next
    case False
    then have A: "released v (a # as) = insert a (released v as)" by (auto simp: released_def)
    have B: "released (release_object a v) as = released v as" by (simp add: released_def)
    show ?thesis using False
      by (simp add: Cons A B release_object_heap option.map_comp comp_def emptied_emptied)
  qed
qed

lemma release_all_keeps:
  assumes "b \<notin> released v as" "v_heap v b = Some ob" "kind_of ob \<noteq> RWeakRef"
  shows "v_heap (release_all as v) b = Some ob"
  using assms by (cases ob) (simp_all add: release_all_heap kind_of_def emptied_def)

lemma sized_keep:
  assumes "\<And>a. a \<in> addrs (members ob) \<Longrightarrow> v_heap w a = v_heap v a" "sized v ob"
  shows "sized w ob"
proof (cases ob)
  case (HInstance i) then show ?thesis using assms by (simp add: get_class_def addrs_Cons)
next
  case (HClosure c) then show ?thesis using assms by (simp add: get_proto_def addrs_Cons)
qed simp_all

lemma kind_collectable: "is_collectable (kind_of ob) \<longleftrightarrow> kind_of ob \<noteq> RWeakRef"
  by (cases ob) (simp_all add: kind_of_def)

lemma collected_keeps:
  assumes ok: "chain_ok v sh cs" and a: "reachable v sh a"
  shows "v_heap (release_all (filter (\<lambda>a. \<not> reachable v sh a) cs) v) a = v_heap v a"
proof -
  obtain ob where ob: "v_heap v a = Some ob" "is_collectable (kind_of ob)" using ok a by (auto simp: chain_ok_def)
  show ?thesis using release_all_keeps [OF _ ob(1)] ob a by (auto simp: released_def kind_collectable)
qed

lemma reachable_same:
  assumes r: "roots w sh = roots v sh" and h: "\<And>a. reachable v sh a \<Longrightarrow> v_heap w a = v_heap v a"
  shows "reachable w sh = reachable v sh"
proof -
  have same: "links w a b \<longleftrightarrow> links v a b" if "reachable v sh a" for a b
    using h [OF that] by (simp add: links_def)
  have "reachable v sh a \<Longrightarrow> reachable w sh a" for a
    by (induction rule: reachable.induct) (use r same reachable.intros in \<open>metis+\<close>)
  moreover have "reachable w sh a \<Longrightarrow> reachable v sh a" for a
    by (induction rule: reachable.induct) (use r same reachable.intros in \<open>metis+\<close>)
  ultimately show ?thesis by (intro ext) blast
qed

lemma CollectGarbage_result:
  assumes "chain_ok v sh cs" "length cs < n"
  obtains cs' where "CollectGarbage n v sh cs = Some (release_all (filter (\<lambda>a. \<not> reachable v sh a) cs) v, cs')"
    "distinct cs'" "set cs' = {a. reachable v sh a}"
  using RunMark_reachable [OF assms] that by (auto simp: CollectGarbage_def)

section \<open>Properties\<close>

text \<open>C38: The collection ends and keeps every object that can be reached as it is; the new chain holds these objects, each once, and when
  none of the open outer variables is out of reach the heap and the chain are again as before the collection.\<close>

theorem gc_keeps_reachable:
  assumes "chain_ok v sh cs" "length cs < n"
  shows "\<exists>w cs'. CollectGarbage n v sh cs = Some (w, cs') \<and> distinct cs' \<and> set cs' = {a. reachable v sh a} \<and>
     (\<forall>a. reachable v sh a \<longrightarrow> v_heap w a = v_heap v a) \<and> reachable w sh = reachable v sh \<and>
     (set (v_openouters v) \<subseteq> {a. reachable v sh a} \<longrightarrow> chain_ok w sh cs')"
proof -
  let ?w = "release_all (filter (\<lambda>a. \<not> reachable v sh a) cs) v"
  obtain cs' where cs': "CollectGarbage n v sh cs = Some (?w, cs')" "distinct cs'" "set cs' = {a. reachable v sh a}"
    using CollectGarbage_result [OF assms] .
  have keep: "\<And>a. reachable v sh a \<Longrightarrow> v_heap ?w a = v_heap v a" by (rule collected_keeps [OF assms(1)])
  have same: "reachable ?w sh = reachable v sh" by (rule reachable_same [OF _ keep]) simp_all
  have "chain_ok ?w sh cs'" if op: "set (v_openouters v) \<subseteq> {a. reachable v sh a}"
  proof -
    have "reachable v sh a" if h: "v_heap ?w a = Some ob" "is_collectable (kind_of ob)" for a ob
    proof -
      let ?A = "released v (filter (\<lambda>a. \<not> reachable v sh a) cs)"
      obtain ob' where ob': "v_heap v a = Some ob'" "ob = emptied ?A ob'" "a \<notin> ?A"
        using h(1) by (auto simp: release_all_heap split: if_split_asm)
      then have "is_collectable (kind_of ob')" using h(2) by (cases ob') (simp_all add: emptied_def kind_of_def)
      then have "a \<in> set cs" using assms(1) ob' by (auto simp: chain_ok_def)
      then show ?thesis using ob'(3) op by (auto simp: released_def)
    qed
    moreover have "\<exists>ob. v_heap ?w a = Some ob \<and> is_collectable (kind_of ob)" if "reachable v sh a" for a
      using keep [OF that] assms(1) that by (auto simp: chain_ok_def)
    moreover have "\<exists>ob. v_heap ?w a = Some ob \<and> sized ?w ob" if a: "reachable v sh a" for a
    proof -
      obtain ob where ob: "v_heap v a = Some ob" "sized v ob" using assms(1) a by (auto simp: chain_ok_def)
      have "reachable v sh b" if "b \<in> addrs (members ob)" for b using a ob that reachable.link by (auto simp: links_def)
      then show ?thesis using ob keep [OF a] sized_keep keep by metis
    qed
    ultimately show ?thesis unfolding chain_ok_def same using cs'(2,3) by blast
  qed
  then show ?thesis using cs' keep same by blast
qed


text \<open>
  A machine whose root table 1 holds array 2, with two arrays 3 and 4 in a cycle, a weak reference 5 to one of them, and an open outer
  variable 6 no closure refers to.
\<close>

definition gc_vm :: vm where
  "gc_vm = sample_vm\<lparr>
     v_heap := [1 \<mapsto> HTable \<lparr>tnodes = [\<lparr>nkey = OString ''a'', nval = ORef RArray 2, nnext = None\<rparr>], firstfree = 0,
                   usednodes = 1, tdelegate = None\<rparr>,
                2 \<mapsto> HArray \<lparr>vvals = [OInteger 1], vcap = 4\<rparr>,
                3 \<mapsto> HArray \<lparr>vvals = [ORef RArray 4], vcap = 4\<rparr>, 4 \<mapsto> HArray \<lparr>vvals = [ORef RArray 3], vcap = 4\<rparr>,
                5 \<mapsto> HWeakRef (ORef RArray 3), 6 \<mapsto> HOuter (OpenOuter 0)],
     v_openouters := [6], v_roottable := ORef RTable 1\<rparr>"

definition gc_shared :: shared where
  "gc_shared = \<lparr>sh_refs_table = ref_alloc 4, sh_registry = ONull, sh_consts = ONull, sh_metamethodsmap = ONull\<rparr>"

lemma gc_roots: "addrs (roots gc_vm gc_shared) = {1}"
  by (auto simp: addrs_def roots_def vm_roots_def ddel_roots_def opt_ref_def gc_vm_def sample_vm_def gc_shared_def ref_alloc_def)

lemma gc_links: "links gc_vm a b \<longleftrightarrow> a = 1 \<and> b = 2 \<or> a = 3 \<and> b = 4 \<or> a = 4 \<and> b = 3"
  by (auto simp: links_def gc_vm_def opt_ref_def addrs_Cons split: if_split_asm)

lemma gc_reachable: "reachable gc_vm gc_shared a \<longleftrightarrow> a = 1 \<or> a = 2"
proof
  show "reachable gc_vm gc_shared a \<Longrightarrow> a = 1 \<or> a = 2"
    by (induction rule: reachable.induct) (auto simp: gc_roots gc_links)
  have "reachable gc_vm gc_shared 1" by (rule reachable.root) (simp add: gc_roots)
  moreover from this have "reachable gc_vm gc_shared 2" by (rule reachable.link) (simp add: gc_links)
  ultimately show "a = 1 \<or> a = 2 \<Longrightarrow> reachable gc_vm gc_shared a" by auto
qed

lemma gc_collectable: "(\<exists>ob. v_heap gc_vm a = Some ob \<and> is_collectable (kind_of ob)) \<longleftrightarrow> a \<in> set [1, 2, 3, 4, 6]"
  by (cases "a = 1"; cases "a = 2"; cases "a = 3"; cases "a = 4"; cases "a = 5"; cases "a = 6")
    (simp_all add: gc_vm_def kind_of_def)

lemma gc_sized: "a = 1 \<or> a = 2 \<Longrightarrow> a \<in> set [1, 2, 3, 4, 6] \<and> (\<exists>ob. v_heap gc_vm a = Some ob \<and> sized gc_vm ob)"
  by (elim disjE) (simp_all add: gc_vm_def)

lemma gc_vm_chain_ok: "chain_ok gc_vm gc_shared [1, 2, 3, 4, 6]"
proof -
  have "distinct [1, 2, 3, 4, 6 :: u64]" by simp
  moreover have "\<forall>a. a \<in> set [1, 2, 3, 4, 6] \<longleftrightarrow> (\<exists>ob. v_heap gc_vm a = Some ob \<and> is_collectable (kind_of ob))"
    using gc_collectable by blast
  moreover have "\<forall>a. reachable gc_vm gc_shared a \<longrightarrow>
      a \<in> set [1, 2, 3, 4, 6] \<and> (\<exists>ob. v_heap gc_vm a = Some ob \<and> sized gc_vm ob)"
    using gc_sized gc_reachable by blast
  ultimately show ?thesis unfolding chain_ok_def by blast
qed

theorem gc_keeps_reachable_witness:
  "\<exists>w cs'. CollectGarbage 6 gc_vm gc_shared [1, 2, 3, 4, 6] = Some (w, cs') \<and> distinct cs' \<and> set cs' = {1, 2} \<and>
     v_heap w 1 = v_heap gc_vm 1 \<and> v_heap w 2 = v_heap gc_vm 2"
proof -
  have R: "{a. reachable gc_vm gc_shared a} = {1, 2}" by (auto simp: gc_reachable)
  have "length [1, 2, 3, 4, 6 :: u64] < 6" by simp
  from gc_keeps_reachable [OF gc_vm_chain_ok this] obtain w cs' where
    w: "CollectGarbage 6 gc_vm gc_shared [1, 2, 3, 4, 6] = Some (w, cs')" "distinct cs'" "set cs' = {1, 2}"
      "\<forall>a. reachable gc_vm gc_shared a \<longrightarrow> v_heap w a = v_heap gc_vm a" unfolding R by blast
  have "reachable gc_vm gc_shared 1" "reachable gc_vm gc_shared 2" using R by blast+
  then show ?thesis using w by blast
qed


end
