(* ===== verification/Straight_Line.thy ===== *)
theory Straight_Line
  imports Compile_Stmt Lexer_Laws
begin

text \<open>
  A part of the language with a semantics of its own, to state what compiling and running a program gives:
  declarations of variables with integer expressions, and a final \<open>return\<close>. The text of a program is
  printed as tokens of theory \<open>Lexer_Laws\<close>; \<open>value_of\<close> is what it means.
\<close>

section \<open>Syntax\<close>

datatype binop = Plus | Minus | Times | Divide | BitAnd | BitOr | BitXor | ShiftL | ShiftR | UShiftR

datatype exp = Num nat | Var string | Bin binop exp exp

record program =
  decls :: "(string \<times> exp) list"
  answer :: exp

fun op_token :: "binop \<Rightarrow> source_token" where
  "op_token Plus = SOp ''+'' 43"
| "op_token Minus = SOp ''-'' 45"
| "op_token Times = SOp ''*'' 42"
| "op_token Divide = SOp ''/'' 47"
| "op_token BitAnd = SOp ''&'' 38"
| "op_token BitOr = SOp ''|'' 124"
| "op_token BitXor = SOp ''^'' 94"
| "op_token ShiftL = SOp ''<<'' TK_SHIFTL"
| "op_token ShiftR = SOp ''>>'' TK_SHIFTR"
| "op_token UShiftR = SOp ''>>>'' TK_USHIFTR"

fun exp_tokens :: "exp \<Rightarrow> source_token list" where
  "exp_tokens (Num n) = [SInt (of_nat n)]"
| "exp_tokens (Var x) = [SName x]"
| "exp_tokens (Bin p a b) = SOp ''('' 40 # exp_tokens a @ op_token p # exp_tokens b @ [SOp '')'' 41]"

fun decl_tokens :: "string \<times> exp \<Rightarrow> source_token list" where
  "decl_tokens (x, a) = [SName ''var'', SName x, SOp ''='' 61] @ exp_tokens a @ [SOp '';'' 59]"

definition program_tokens :: "program \<Rightarrow> source_token list" where
  "program_tokens p = concat (map decl_tokens (decls p)) @ SName ''return'' # exp_tokens (answer p)"

definition program_text :: "program \<Rightarrow> string" where
  "program_text p = show_tokens (program_tokens p)"

section \<open>Semantics\<close>

text \<open>Integers of 64 bits; a shift counts modulo 64.\<close>

fun op_value :: "binop \<Rightarrow> u64 \<Rightarrow> u64 \<Rightarrow> u64 vres" where
  "op_value Plus x y = VOk (x + y)"
| "op_value Minus x y = VOk (x - y)"
| "op_value Times x y = VOk (x * y)"
| "op_value Divide x y =
     (if y = 0 then VErr (EMsg ''division by zero'')
      else if x = int_min64 \<and> y = - 1 then VTrap else VOk (word_of_int (sint x sdiv sint y)))"
| "op_value BitAnd x y = VOk (x AND y)"
| "op_value BitOr x y = VOk (x OR y)"
| "op_value BitXor x y = VOk (x XOR y)"
| "op_value ShiftL x y = VOk (x * 2 ^ (unat y mod 64))"
| "op_value ShiftR x y = VOk (word_of_int (sint x div 2 ^ (unat y mod 64)))"
| "op_value UShiftR x y = VOk (word_of_nat (unat x div 2 ^ (unat y mod 64)))"

fun vbind :: "'a vres \<Rightarrow> ('a \<Rightarrow> 'b vres) \<Rightarrow> 'b vres" where
  "vbind (VOk x) f = f x"
| "vbind (VErr e) f = VErr e"
| "vbind VTrap f = VTrap"

type_synonym env = "(string \<times> u64) list"

text \<open>Operands from the left; a name means the latest declaration of it.\<close>

fun exp_value :: "env \<Rightarrow> exp \<Rightarrow> u64 vres" where
  "exp_value env (Num n) = VOk (of_nat n)"
| "exp_value env (Var x) = (case map_of env x of Some w \<Rightarrow> VOk w | None \<Rightarrow> VTrap)"
| "exp_value env (Bin p a b) = vbind (exp_value env a) (\<lambda>x. vbind (exp_value env b) (op_value p x))"

fun decls_value :: "env \<Rightarrow> (string \<times> exp) list \<Rightarrow> exp \<Rightarrow> u64 vres" where
  "decls_value env [] e = exp_value env e"
| "decls_value env ((x, a) # ds) e = vbind (exp_value env a) (\<lambda>w. decls_value ((x, w) # env) ds e)"

definition value_of :: "program \<Rightarrow> u64 vres" where
  "value_of p = decls_value [] (decls p) (answer p)"

section \<open>Well-formed programs\<close>

text \<open>
  Names are identifiers and no keywords, and declared before they are used; literals have 31 bits, so that they fit into an
  instruction; the registers, two of which hold \<open>this\<close> and \<open>vargv\<close>, have numbers of eight bits.
\<close>

definition name_ok :: "string \<Rightarrow> bool" where
  "name_ok x \<longleftrightarrow> token_ok (SName x) \<and> map_of keyword_list x = None"

fun temps :: "exp \<Rightarrow> nat" where
  "temps (Var x) = 0"
| "temps _ = 1"

fun regs :: "exp \<Rightarrow> nat" where
  "regs (Num n) = 1"
| "regs (Var x) = 0"
| "regs (Bin p a b) = max 1 (max (regs a) (temps a + regs b))"

fun max_regs :: "nat \<Rightarrow> (string \<times> exp) list \<Rightarrow> exp \<Rightarrow> nat" where
  "max_regs d [] e = d + regs e"
| "max_regs d ((x, a) # ds) e = max (d + max 1 (regs a)) (max_regs (d + 1) ds e)"

fun exp_ok :: "string set \<Rightarrow> exp \<Rightarrow> bool" where
  "exp_ok X (Num n) \<longleftrightarrow> n < 2 ^ 31"
| "exp_ok X (Var x) \<longleftrightarrow> name_ok x \<and> x \<in> X"
| "exp_ok X (Bin p a b) \<longleftrightarrow> exp_ok X a \<and> exp_ok X b"

fun decls_ok :: "string set \<Rightarrow> nat \<Rightarrow> (string \<times> exp) list \<Rightarrow> exp \<Rightarrow> bool" where
  "decls_ok X d [] e \<longleftrightarrow> exp_ok X e \<and> d + regs e \<le> 255"
| "decls_ok X d ((x, a) # ds) e \<longleftrightarrow>
     exp_ok X a \<and> name_ok x \<and> d + max 1 (regs a) \<le> 255 \<and> decls_ok (insert x X) (d + 1) ds e"

definition program_ok :: "program \<Rightarrow> bool" where
  "program_ok p \<longleftrightarrow> decls_ok {} 2 (decls p) (answer p)"

section \<open>The instructions of a program\<close>

fun op_instr :: "binop \<Rightarrow> opcode" where
  "op_instr Plus = OP_ADD"
| "op_instr Minus = OP_SUB"
| "op_instr Times = OP_MUL"
| "op_instr Divide = OP_DIV"
| "op_instr _ = OP_BITW"

fun op_kind :: "binop \<Rightarrow> int" where
  "op_kind BitAnd = bw_code BW_AND"
| "op_kind BitOr = bw_code BW_OR"
| "op_kind BitXor = bw_code BW_XOR"
| "op_kind ShiftL = bw_code BW_SHIFTL"
| "op_kind ShiftR = bw_code BW_SHIFTR"
| "op_kind UShiftR = bw_code BW_USHIFTR"
| "op_kind _ = 0"

text \<open>The register of the value, and the instructions, for the variables in the registers \<open>r\<close> and \<open>d\<close> the next one.\<close>

fun target :: "(string \<Rightarrow> nat) \<Rightarrow> nat \<Rightarrow> exp \<Rightarrow> nat" where
  "target r d (Var x) = r x"
| "target r d _ = d"

fun code :: "(string \<Rightarrow> nat) \<Rightarrow> nat \<Rightarrow> exp \<Rightarrow> instr list" where
  "code r d (Num n) = [Instr OP_LOADINT (int d) (int n) 0 0]"
| "code r d (Var x) = []"
| "code r d (Bin p a b) = code r d a @ code r (d + temps a) b @
     [Instr (op_instr p) (int d) (int (target r (d + temps a) b)) (int (target r d a)) (op_kind p)]"

text \<open>With debug information the compiler puts line instructions between the statements.\<close>

definition lines :: "instr list \<Rightarrow> bool" where
  "lines s \<longleftrightarrow> s = [] \<or> (\<exists>n. s = [Instr OP_LINE 0 n 0 0])"

fun decl_code :: "(string \<Rightarrow> nat) \<Rightarrow> nat \<Rightarrow> exp \<Rightarrow> instr list" where
  "decl_code r d a = code r d a @ (if target r d a = d then [] else [Instr OP_MOVE (int d) (int (target r d a)) 0 0])"

fun program_code :: "(string \<Rightarrow> nat) \<Rightarrow> nat \<Rightarrow> (string \<times> exp) list \<Rightarrow> exp \<Rightarrow> instr list \<Rightarrow> bool" where
  "program_code r d [] e is \<longleftrightarrow>
     (\<exists>s n. lines s \<and> is = s @ code r d e @ [Instr OP_RETURN 1 (int (target r d e)) n 0])"
| "program_code r d ((x, a) # ds) e is \<longleftrightarrow>
     (\<exists>s is'. lines s \<and> is = s @ decl_code r d a @ is' \<and> program_code (r(x := d)) (d + 1) ds e is')"

end
