(* ===== verification/Straight_Tokens.thy ===== *)
theory Straight_Tokens
  imports Straight_Line
begin

text \<open>
  The compiler on the tokens of a program: \<open>sees\<close> says which tokens are still to be read, and the lemmas give the
  steps of \<open>Lex\<close>, \<open>Expect\<close> and the register operations that the following theories use.
\<close>

section \<open>Reading tokens\<close>

definition next_lex :: "lexer \<Rightarrow> lexer" where
  "next_lex l = (case Lex l of LOk (t, l') \<Rightarrow> l' | LErr e \<Rightarrow> l)"

text \<open>The lexer delivers exactly these tokens, with their values.\<close>

primrec yields :: "lexer \<Rightarrow> (int \<times> lvobj) list \<Rightarrow> bool" where
  "yields l [] \<longleftrightarrow> Lex l = LOk (0, next_lex l)"
| "yields l (t # ts) \<longleftrightarrow> Lex l = LOk (fst t, next_lex l) \<and> payload (fst t) (next_lex l) = snd t \<and>
     (fst t = TK_IDENTIFIER \<longrightarrow> OString (c_string (svalue (next_lex l))) = snd t) \<and>
     curtoken (next_lex l) = fst t \<and> prevtoken (next_lex l) = curtoken l \<and> yields (next_lex l) ts"

lemma EOB_name: "token_ok t \<Longrightarrow> token_value t = (TK_IDENTIFIER, OString s) \<Longrightarrow> EOB \<notin> set s"
  using idchar_EOB by (cases t) (auto simp: operator_list_def split: option.splits)

lemma c_string_EOB: "EOB \<notin> set s \<Longrightarrow> c_string (s @ [EOB]) = s"
  by (induction s) (auto simp: c_string_def)

lemma yields_shown:
  assumes "\<forall>t \<in> set ts. token_ok t" "kwtable b = keyword_table"
  shows "yields (at b (show_tokens ts)) (map token_value ts) \<and> yields (at b (CHR '' '' # show_tokens ts)) (map token_value ts)"
  using assms
proof (induction ts arbitrary: b)
  case Nil
  have e: "Lex_loop (at b' []) = LOk (0, at b' [])" for b'
    by (subst Lex_loop.simps) (simp add: Let_def)
  then show ?case
    using Lex_loop_blank [of "[]"] by (simp add: Lex_def show_tokens_def next_lex_def)
next
  case (Cons t ts)
  let ?r = "CHR '' '' # show_tokens ts"
  have e: "EOB \<notin> set (show_tokens ts)" using show_tokens_EOB Cons.prems by simp
  have x: "show_tokens (t # ts) = show_token t @ ?r" by (simp add: show_tokens_def)
  have ex: "EOB \<notin> set (show_token t @ ?r)" using e show_token_EOB [of t] Cons.prems by simp
  have one: "yields l (map token_value (t # ts))"
    if k: "kwtable b' = keyword_table" and l: "Lex l = Lex_loop (at b' (show_token t @ ?r))" "curtoken l = curtoken b'" for l b'
  proof -
    obtain c where c: "Lex_loop (at b' (show_token t @ ?r)) = LOk (fst (token_value t), at c ?r)"
      "kwtable c = keyword_table" "payload (fst (token_value t)) (at c ?r) = snd (token_value t)"
      "curtoken c = fst (token_value t)" "prevtoken c = curtoken b'"
      "fst (token_value t) = TK_IDENTIFIER \<longrightarrow> svalue c \<noteq> [] \<and> last (svalue c) = EOB"
      using Lex_loop_shown [of t "show_tokens ts" b'] Cons.prems e k by auto
    have "OString (c_string (svalue c)) = snd (token_value t)" if i: "fst (token_value t) = TK_IDENTIFIER"
    proof -
      have s: "svalue c = butlast (svalue c) @ [EOB]" using c(6) i by (metis append_butlast_last_id)
      have v: "snd (token_value t) = OString (butlast (svalue c))" using c(3) i by (simp add: payload_def)
      then have "token_value t = (TK_IDENTIFIER, OString (butlast (svalue c)))" using i by (simp add: prod_eq_iff)
      then have "EOB \<notin> set (butlast (svalue c))" using EOB_name [of t] Cons.prems by simp
      then show ?thesis using s v c_string_EOB by metis
    qed
    then show ?thesis using Cons.IH [of c] Cons.prems c l by (simp add: next_lex_def)
  qed
  show ?case
    unfolding x using Lex_loop_blank [OF ex] Cons.prems
    by (intro conjI one [of "b\<lparr>lasttokenline := currentline b\<rparr>"]
        one [of "bump (show_token t @ ?r) (b\<lparr>lasttokenline := currentline b\<rparr>)"]) (simp_all add: Lex_def)
qed

lemma yields_append: "yields l (ts @ us) \<Longrightarrow> yields ((next_lex ^^ length ts) l) us"
  by (induction ts arbitrary: l) (simp_all add: funpow_swap1)

section \<open>The compiler at a token\<close>

definition first_token :: "(int \<times> lvobj) list \<Rightarrow> int" where
  "first_token ts = (case ts of [] \<Rightarrow> 0 | t # _ \<Rightarrow> fst t)"

lemma first_token_simps [simp]: "first_token [] = 0" "first_token (t # ts) = fst t"
  by (simp_all add: first_token_def)

text \<open>The compiler is at the first of these tokens.\<close>

definition sees :: "comp \<Rightarrow> (int \<times> lvobj) list \<Rightarrow> bool" where
  "sees k ts \<longleftrightarrow> (\<exists>l. k_token k = first_token ts \<and> k_lex k = next_lex l \<and> yields l ts)"

text \<open>The compiler \<open>n\<close> tokens later, at the token \<open>t\<close>.\<close>

definition later :: "nat \<Rightarrow> int \<Rightarrow> comp \<Rightarrow> comp" where
  "later n t k = k\<lparr>k_token := t, k_lex := (next_lex ^^ n) (k_lex k)\<rparr>"

lemma later_0: "later 0 (k_token k) k = k" by (simp add: later_def)

lemma sees_token: "sees k ts \<Longrightarrow> k_token k = first_token ts"
  by (auto simp: sees_def)

lemma sees_value:
  "sees k (t # ts) \<Longrightarrow> fst t = TK_INTEGER \<Longrightarrow> OInteger (nvalue (k_lex k)) = snd t"
  "sees k (t # ts) \<Longrightarrow> fst t = TK_IDENTIFIER \<Longrightarrow> OString (c_string (svalue (k_lex k))) = snd t"
  "sees k (t # ts) \<Longrightarrow> curtoken (k_lex k) = fst t"
  by (auto simp: sees_def payload_def)

lemma Lex_sees: "sees k (t # ts) \<Longrightarrow> Lex (k_lex k) = LOk (first_token ts, next_lex (k_lex k))"
  by (cases ts) (auto simp: sees_def)

lemma cLex_sees: "sees k (t # ts) \<Longrightarrow> cLex k = COk () (later 1 (first_token ts) k)"
  by (simp add: cLex_def later_def Lex_sees)

lemma sees_prevtoken: "sees k (t # u # ts) \<Longrightarrow> prevtoken (next_lex (k_lex k)) = fst t"
  by (auto simp: sees_def)

lemma sees_later: "sees k (us @ ts) \<Longrightarrow> sees (later (length us) (first_token ts) k) ts"
  unfolding sees_def later_def
  by (metis (no_types, lifting) comp.select_convs(1,2) comp.simps(1,2) comp.surjective comp.update_convs(1,2)
      funpow_swap1 yields_append)

section \<open>Running actions\<close>

lemma cret_run [simp]: "cret x k = COk x k" by (simp add: cret_def)

lemma cbind_run: "m k = COk x k' \<Longrightarrow> cbind m f k = f x k'" by (simp add: cbind_def)

lemma cthen_run: "m k = COk () k' \<Longrightarrow> cthen m n k = n k'" by (simp add: cthen_def cbind_def)

lemma cthen_ret [simp]: "cthen m (cret ()) = m"
  by (rule ext) (auto simp: cthen_def cbind_def cret_def split: cres.split)

lemma cseq_Nil [simp]: "cseq [] = cret ()" by (simp add: cseq_def)

lemma cseq_Cons: "cseq (m # ms) = cthen m (cseq ms)" by (simp add: cseq_def)

lemma reads_state [simp]:
  "token k = COk (k_token k) k" "es k = COk (k_es k) k" "set_es x k = COk () (k\<lparr>k_es := x\<rparr>)" "cget g k = COk (g k) k"
  "cput h k = COk () (h k)" "cwhen True m = m" "cwhen False m = cret ()" "token_is t k = COk (k_token k = t) k"
  by (simp_all add: token_def es_def set_es_def cget_def cput_def cwhen_def token_is_def)

lemma fs_act_run:
  "k_fs k = f # fs \<Longrightarrow> g (fs \<noteq> []) f = Some (Inr (x, f')) \<Longrightarrow> fs_act g k = COk x (k\<lparr>k_fs := f' # fs\<rparr>)"
  by (simp add: fs_act_def)

section \<open>Registers of an expression\<close>

text \<open>The registers of the variables, and the effect of an expression on the state of the function.\<close>

definition reg_of :: "fstate \<Rightarrow> string \<Rightarrow> nat" where
  "reg_of f x = (case GetLocalVariable x f of Some p \<Rightarrow> p | None \<Rightarrow> 0)"

definition known :: "fstate \<Rightarrow> string set" where
  "known f = {x. GetLocalVariable x f \<noteq> None}"

definition fits :: "fstate \<Rightarrow> exp \<Rightarrow> bool" where
  "fits f e \<longleftrightarrow> exp_ok (known f) e \<and> length (f_vlocals f) + regs e \<le> 255 \<and> length (f_vlocals f) \<le> f_stacksize f \<and>
     f_stacksize f \<le> 255 \<and> table_inv (f_strings f)"

definition grown :: "fstate \<Rightarrow> exp \<Rightarrow> lvtable \<Rightarrow> fstate" where
  "grown f e st = (let d = length (f_vlocals f) in
     f\<lparr>f_vlocals := f_vlocals f @ replicate (temps e) null_local,
       f_targetstack := f_targetstack f @ [int (target (reg_of f) d e)],
       f_instructions := f_instructions f @ code (reg_of f) d e,
       f_stacksize := max (f_stacksize f) (d + regs e),
       f_optimization := (temps e = 1 \<or> f_optimization f),
       f_strings := st\<rparr>)"

lemma local_from_append: "n \<le> length ls \<Longrightarrow> local_from (ls @ ms) s n = local_from ls s n"
  by (induction n) (auto simp: nth_append)

lemma local_from_Some: "local_from ls s n = Some p \<Longrightarrow> p < n \<and> lv_name (ls ! p) = OString s"
  by (induction n) (auto split: if_splits)

lemma lv_name_null [simp]: "lv_name null_local = ONull" by (simp add: null_local_def)

lemma local_null: "local_from (ls @ replicate m null_local) s (length ls + m) = local_from ls s (length ls)"
proof (induction m)
  case (Suc m)
  let ?x = "ls @ replicate m null_local"
  have "ls @ replicate (Suc m) null_local = ?x @ [null_local]" by (simp add: replicate_append_same)
  moreover have "(?x @ [null_local]) ! (length ls + m) = null_local" using nth_append_length [of ?x null_local] by simp
  moreover have "local_from (?x @ [null_local]) s (length ls + m) = local_from ?x s (length ls + m)"
    by (rule local_from_append) simp
  ultimately show ?case using Suc by simp
qed (simp add: local_from_append)

lemma lookup_grown [simp]: "GetLocalVariable x (grown f e st) = GetLocalVariable x f"
  by (simp add: GetLocalVariable_def grown_def Let_def local_null)

lemma reg_of_grown [simp]: "reg_of (grown f e st) = reg_of f" "known (grown f e st) = known f"
  by (simp_all add: reg_of_def known_def fun_eq_iff)

lemma grown_fields [simp]:
  "length (f_vlocals (grown f e st)) = length (f_vlocals f) + temps e" "f_strings (grown f e st) = st"
  "f_stacksize (grown f e st) = max (f_stacksize f) (length (f_vlocals f) + regs e)"
  by (simp_all add: grown_def Let_def)

lemma temps_regs: "temps e \<le> regs e" "temps e \<le> 1" by (cases e; simp)+

lemma reg_of_less: "x \<in> known f \<Longrightarrow> reg_of f x < length (f_vlocals f)"
  using local_from_Some by (auto simp: known_def reg_of_def GetLocalVariable_def)

lemma reg_of_named: "x \<in> known f \<Longrightarrow> lv_name (f_vlocals f ! reg_of f x) = OString x"
  using local_from_Some by (auto simp: known_def reg_of_def GetLocalVariable_def)

lemma fits_left: "fits f (Bin p a b) \<Longrightarrow> fits f a"
  by (auto simp: fits_def max_def split: if_splits)

lemma fits_right: "fits f (Bin p a b) \<Longrightarrow> table_inv st \<Longrightarrow> fits (grown f a st) b"
  using temps_regs [of a] by (auto simp: fits_def max_def split: if_splits)

text \<open>Popping the target of an expression gives the state it was compiled in back, but for what it used.\<close>

definition used :: "fstate \<Rightarrow> nat \<Rightarrow> instr list \<Rightarrow> bool \<Rightarrow> lvtable \<Rightarrow> fstate" where
  "used f n is opt st = f\<lparr>f_stacksize := max (f_stacksize f) (length (f_vlocals f) + n),
     f_instructions := f_instructions f @ is, f_optimization := opt, f_strings := st\<rparr>"

lemma PopTarget_grown:
  assumes "exp_ok (known f) e"
  shows "PopTarget (grown f e st) = Some (int (target (reg_of f) (length (f_vlocals f)) e),
    used f (regs e) (code (reg_of f) (length (f_vlocals f)) e) (temps e = 1 \<or> f_optimization f) st)"
proof (cases "temps e = 1")
  case True
  then have "target (reg_of f) (length (f_vlocals f)) e = length (f_vlocals f)" by (cases e) simp_all
  then show ?thesis using True by (simp add: PopTarget_def grown_def Let_def used_def)
next
  case False
  then obtain x where x: "e = Var x" by (cases e) simp_all
  have "reg_of f x < length (f_vlocals f)" "lv_name (f_vlocals f ! reg_of f x) \<noteq> ONull"
    using assms x reg_of_less [of x f] reg_of_named [of x f] by simp_all
  then show ?thesis by (simp add: x PopTarget_def grown_def Let_def used_def)
qed

lemma used_used: "used (used f n is o1 s1) m js o2 s2 = used f (max n m) (is @ js) o2 s2"
  by (simp add: used_def max.assoc nat_add_max_right)

lemma reg_of_used [simp]: "reg_of (used f n is opt st) = reg_of f" "known (used f n is opt st) = known f"
  "length (f_vlocals (used f n is opt st)) = length (f_vlocals f)"
  by (simp_all add: reg_of_def known_def fun_eq_iff used_def GetLocalVariable_def)

lemma PushTarget_new:
  assumes "length (f_vlocals f) \<le> 254" "length (f_vlocals f) \<le> f_stacksize f"
  shows "PushTarget (- 1) f = Inr (int (length (f_vlocals f)),
    f\<lparr>f_vlocals := f_vlocals f @ [null_local], f_stacksize := max (f_stacksize f) (length (f_vlocals f) + 1),
      f_targetstack := f_targetstack f @ [int (length (f_vlocals f))]\<rparr>)"
  using assms by (auto simp: PushTarget_def AllocStackPos_def Let_def MAX_FUNC_STACKSIZE_def max_def)

text \<open>Instructions the peephole optimiser leaves alone.\<close>

definition unfused :: "opcode set" where
  "unfused = {OP_LOADINT, OP_ADD, OP_SUB, OP_MUL, OP_DIV, OP_BITW}"

lemma AddInstruction_unfused:
  "iop i \<in> unfused \<Longrightarrow> AddInstruction p i f = Some (f\<lparr>f_instructions := f_instructions f @ [i], f_optimization := True\<rparr>)"
proof -
  assume "iop i \<in> unfused"
  then have "fuse p f x i = Kept x i" for x
    unfolding unfused_def by (elim insertE emptyE) (simp_all add: fuse_def Let_def)
  then show ?thesis
    by (cases "f_instructions f" rule: rev_cases) (simp_all add: AddInstruction_def Let_def)
qed

lemma iop_Instr [simp]: "iop (Instr p a b c d) = p" by (simp add: Instr_def)

lemma op_instr_unfused: "op_instr p \<in> unfused" by (cases p) (simp_all add: unfused_def)

end
