(* ===== verification/Straight_Expr.thy ===== *)
theory Straight_Expr
  imports Straight_Tokens
begin

text \<open>
  Compiling an expression of the straight-line language: every level of the descent of \<^verbatim>\<open>compiler.cpp\<close>, from the factor to
  the comma expression, emits \<open>code\<close> and leaves the register of the value on the stack of targets.
\<close>

section \<open>Compiling an expression\<close>

lemma cthen_eval: "cthen m n k = (case m k of COk x k \<Rightarrow> n k | CErr s k \<Rightarrow> CErr s k | CStuck \<Rightarrow> CStuck | CFuel \<Rightarrow> CFuel)"
  by (simp add: cthen_def cbind_def)

definition parsed :: "comp \<Rightarrow> fstate \<Rightarrow> fstate list \<Rightarrow> exp \<Rightarrow> int \<Rightarrow> lvtable \<Rightarrow> expstate \<Rightarrow> comp" where
  "parsed k f fs e t st E = (later (length (exp_tokens e)) t k)\<lparr>k_fs := grown f e st # fs, k_es := E\<rparr>"

lemma later_fields [simp]: "k_token (later n t k) = t" "k_fs (later n t k) = k_fs k" "k_es (later n t k) = k_es k"
  by (simp_all add: later_def)

lemma later_upd: "later n t (k\<lparr>k_fs := F\<rparr>) = (later n t k)\<lparr>k_fs := F\<rparr>" "later n t (k\<lparr>k_es := E\<rparr>) = (later n t k)\<lparr>k_es := E\<rparr>"
  by (cases k; simp add: later_def)+

lemma later_later: "later n t (later m u k) = later (m + n) t k"
  by (simp add: later_def add.commute [of m] funpow_add)

lemma parsed_fields [simp]: "k_token (parsed k f fs e t st E) = t" "k_fs (parsed k f fs e t st E) = grown f e st # fs"
  "k_es (parsed k f fs e t st E) = E"
  by (simp_all add: parsed_def)

lemma sees_upd [simp]: "sees (k\<lparr>k_fs := F\<rparr>) ts = sees k ts" "sees (k\<lparr>k_es := E\<rparr>) ts = sees k ts"
  by (simp_all add: sees_def)

lemma sees_parsed:
  "sees k (map token_value (exp_tokens e) @ ts) \<Longrightarrow> sees (parsed k f fs e (first_token ts) st E) ts"
  using sees_later [of k "map token_value (exp_tokens e)" ts] by (simp add: parsed_def)

text \<open>The tokens behind an operand, and behind an expression.\<close>

definition follows :: "int set" where
  "follows = {0, 41, 59, 43, 45, 42, 47, 38, 124, 94, TK_SHIFTL, TK_SHIFTR, TK_USHIFTR}"

definition closes :: "int set" where "closes = {0, 41, 59}"

definition compiles :: "rcall \<Rightarrow> nt \<Rightarrow> int set \<Rightarrow> exp \<Rightarrow> bool" where
  "compiles rc x T e \<longleftrightarrow> (\<forall>k f fs ts. sees k (map token_value (exp_tokens e) @ ts) \<and> k_fs k = f # fs \<and> fits f e \<and>
      first_token ts \<in> T \<longrightarrow>
     (\<exists>st E. table_inv st \<and> rc x k = COk () (parsed k f fs e (first_token ts) st E)))"

lemma compilesD:
  "compiles rc x T e \<Longrightarrow> sees k (map token_value (exp_tokens e) @ ts) \<Longrightarrow> k_fs k = f # fs \<Longrightarrow> fits f e \<Longrightarrow> first_token ts \<in> T \<Longrightarrow>
   \<exists>st E. table_inv st \<and> rc x k = COk () (parsed k f fs e (first_token ts) st E)"
  by (auto simp: compiles_def)

text \<open>Loops that do not turn.\<close>

lemma pass_loops:
  "k_token k \<notin> {42, 47, 37} \<Longrightarrow> compile (Suc n) NMultLoop k = COk () k"
  "k_token k \<notin> {43, 45} \<Longrightarrow> compile (Suc n) NPlusLoop k = COk () k"
  "k_token k \<notin> {TK_SHIFTL, TK_SHIFTR, TK_USHIFTR} \<Longrightarrow> compile (Suc n) NShiftLoop k = COk () k"
  "k_token k \<notin> {62, 60, TK_GE, TK_LE, TK_IN, TK_INSTANCEOF} \<Longrightarrow> compile (Suc n) NCompLoop k = COk () k"
  "k_token k \<notin> {TK_EQ, TK_NE, TK_3WAYSCMP} \<Longrightarrow> compile (Suc n) NEqLoop k = COk () k"
  "k_token k \<noteq> 38 \<Longrightarrow> compile (Suc n) NBandLoop k = COk () k"
  "k_token k \<noteq> 94 \<Longrightarrow> compile (Suc n) NXorLoop k = COk () k"
  "k_token k \<noteq> 124 \<Longrightarrow> compile (Suc n) NBorLoop k = COk () k"
  "k_token k \<noteq> TK_AND \<Longrightarrow> compile (Suc n) NAndLoop k = COk () k"
  "k_token k \<noteq> 44 \<Longrightarrow> compile (Suc n) NCommaLoop k = COk () k"
  "k_token k \<in> follows \<Longrightarrow> compile (Suc n) NPrefixLoop k = COk () k"
  by (auto simp: nt_step_def mult_loop_def plus_loop_def shift_loop_def comp_loop_def eq_loop_def band_loop_def xor_loop_def
      bor_loop_def and_loop_def comma_loop_def prefix_loop_def cbind_def tok_def cwhen_def follows_def)

fun operand :: "binop \<Rightarrow> rcall \<Rightarrow> unit cm" where
  "operand Plus = MultExp"
| "operand Minus = MultExp"
| "operand Times = PrefixedExpr"
| "operand Divide = PrefixedExpr"
| "operand BitAnd = EqExp"
| "operand BitOr = BitwiseXorExp"
| "operand BitXor = BitwiseAndExp"
| "operand _ = PlusExp"

lemmas levels = MultExp_def PlusExp_def ShiftExp_def CompExp_def EqExp_def BitwiseAndExp_def BitwiseXorExp_def BitwiseOrExp_def
  LogicalAndExp_def LogicalOrExp_def PrefixedExpr_def

lemma operand_run:
  assumes "compile (Suc n) NPrefixed k = COk () k'" "k_token k' \<in> closes"
  shows "operand p (compile (Suc n)) k = COk () k'"
  using assms(2) by (cases p) (auto simp del: compile.simps simp: levels cthen_eval assms(1) pass_loops closes_def)

text \<open>The loop an operator belongs to.\<close>

fun loop_of :: "binop \<Rightarrow> nt" where
  "loop_of Plus = NPlusLoop"
| "loop_of Minus = NPlusLoop"
| "loop_of Times = NMultLoop"
| "loop_of Divide = NMultLoop"
| "loop_of BitAnd = NBandLoop"
| "loop_of BitOr = NBorLoop"
| "loop_of BitXor = NXorLoop"
| "loop_of _ = NShiftLoop"

lemma loop_step:
  "k_token k = fst (token_value (op_token p)) \<Longrightarrow>
   compile (Suc n) (loop_of p) k = cthen (BIN_EXP (op_instr p) (operand p (compile n)) (op_kind p)) (compile n (loop_of p)) k"
  by (cases p) (simp_all add: nt_step_def mult_loop_def plus_loop_def shift_loop_def band_loop_def xor_loop_def bor_loop_def
      cbind_def tok_def cwhen_def ChooseArithOpByToken_def cseq_Cons)

lemma loop_stop: "k_token k \<in> closes \<Longrightarrow> compile (Suc n) (loop_of p) k = COk () k"
  by (cases p) (auto simp del: compile.simps simp: pass_loops closes_def)

text \<open>A first operand, its operator and the second operand, seen from the loosest level.\<close>

lemma LogicalOr_run:
  assumes "compile (Suc n) NPrefixed k = COk () k1" "k_token k1 = fst (token_value (op_token p))"
    and "compile (Suc n) (loop_of p) k1 = COk () k2" "k_token k2 \<in> closes"
  shows "compile (Suc (Suc n)) NLogicalOr k = COk () k2"
proof -
  have "LogicalOrExp (compile (Suc n)) k = COk () k2"
    using assms(2,4) assms(3)
    by (cases p) (auto simp del: compile.simps simp: levels cthen_eval assms(1) pass_loops closes_def cbind_def)
  then show ?thesis by (simp add: nt_step_def)
qed

lemma LogicalOr_single:
  assumes "compile (Suc n) NPrefixed k = COk () k1" "k_token k1 \<in> closes"
  shows "compile (Suc (Suc n)) NLogicalOr k = COk () k1"
proof -
  have "LogicalOrExp (compile (Suc n)) k = COk () k1"
    using assms(2) by (auto simp del: compile.simps simp: levels cthen_eval assms(1) pass_loops closes_def cbind_def)
  then show ?thesis by (simp add: nt_step_def)
qed

lemma PopTarget_used:
  assumes "exp_ok (known f) a"
  shows "PopTarget (used (grown f a s1) n is opt s2) = Some (int (target (reg_of f) (length (f_vlocals f)) a),
    used f (max (regs a) (temps a + n)) (code (reg_of f) (length (f_vlocals f)) a @ is) opt s2)"
proof (cases "temps a = 1")
  case True
  then have "target (reg_of f) (length (f_vlocals f)) a = length (f_vlocals f)" by (cases a) simp_all
  then show ?thesis
    using True by (simp add: PopTarget_def grown_def Let_def used_def max.assoc nat_add_max_right add.assoc)
next
  case False
  then obtain x where x: "a = Var x" by (cases a) simp_all
  have "reg_of f x < length (f_vlocals f)" "lv_name (f_vlocals f ! reg_of f x) \<noteq> ONull"
    using assms x reg_of_less [of x f] reg_of_named [of x f] by simp_all
  then show ?thesis by (simp add: x PopTarget_def grown_def Let_def used_def)
qed

lemma PushTarget_used:
  assumes "fits f (Bin p a b)" "m = max (regs a) (temps a + regs b)"
    "is = code (reg_of f) (length (f_vlocals f)) a @ code (reg_of f) (length (f_vlocals f) + temps a) b"
  shows "\<exists>f'. PushTarget (- 1) (used f m is opt s2) = Inr (int (length (f_vlocals f)), f') \<and>
    AddInstruction q (Instr (op_instr p) (int (length (f_vlocals f))) (int (target (reg_of f) (length (f_vlocals f) + temps a) b))
      (int (target (reg_of f) (length (f_vlocals f)) a)) (op_kind p)) f' = Some (grown f (Bin p a b) s2)"
proof -
  let ?d = "length (f_vlocals f)"
  have d: "?d \<le> 254" "?d \<le> f_stacksize f" using assms(1) by (auto simp: fits_def max_def split: if_splits)
  show ?thesis
    using PushTarget_new [of "used f m is opt s2"] d op_instr_unfused [of p]
    by (simp add: AddInstruction_unfused grown_def used_def Let_def assms(2,3) max.assoc nat_add_max_right ac_simps)
qed

lemma BIN_EXP_run:
  assumes s: "sees k (token_value (op_token p) # map token_value (exp_tokens b) @ ts)" "k_fs k = grown f a s1 # fs"
    and f: "fits f (Bin p a b)" "table_inv s1"
    and F: "\<And>k'. sees k' (map token_value (exp_tokens b) @ ts) \<Longrightarrow> k_fs k' = grown f a s1 # fs \<Longrightarrow>
      \<exists>st E. table_inv st \<and> F k' = COk () (parsed k' (grown f a s1) fs b (first_token ts) st E)"
  shows "\<exists>st. table_inv st \<and> BIN_EXP (op_instr p) F (op_kind p) k =
    COk () ((later (Suc (length (exp_tokens b))) (first_token ts) k)\<lparr>k_fs := grown f (Bin p a b) st # fs\<rparr>)"
proof -
  let ?us = "map token_value (exp_tokens b) @ ts" and ?d = "length (f_vlocals f)"
  define k1 where "k1 = later 1 (first_token ?us) k"
  define k2 where "k2 = k1\<lparr>k_es := \<lparr>es_etype = EXPR, es_epos = - 1, es_donot_get = False\<rparr>\<rparr>"
  have L: "cLex k = COk () k1" unfolding k1_def by (rule cLex_sees [OF s(1)])
  have "sees k1 ?us" using sees_later [of k "[token_value (op_token p)]" ?us] s(1) by (simp add: k1_def)
  then have "sees k2 ?us" "k_fs k2 = grown f a s1 # fs" by (simp_all add: k2_def k1_def s(2))
  from F [OF this] obtain st E where st: "table_inv st" and Fk: "F k2 = COk () (parsed k2 (grown f a s1) fs b (first_token ts) st E)"
    by blast
  define k3 where "k3 = (parsed k2 (grown f a s1) fs b (first_token ts) st E)\<lparr>k_es := k_es k1\<rparr>"
  have I: "INVOKE_EXP F k1 = COk () k3"
    by (simp add: INVOKE_EXP_def cbind_def cseq_Cons cthen_eval k2_def [symmetric] Fk k3_def)
  have ok: "exp_ok (known f) a" "exp_ok (known (grown f a s1)) b" using f(1) by (simp_all add: fits_def)
  define g where "g = used (grown f a s1) (regs b) (code (reg_of f) (?d + temps a) b) (temps b = 1 \<or> f_optimization (grown f a s1)) st"
  define h where "h = used f (max (regs a) (temps a + regs b)) (code (reg_of f) ?d a @ code (reg_of f) (?d + temps a) b)
    (temps b = 1 \<or> f_optimization (grown f a s1)) st"
  have p1: "pop_target k3 = COk (int (target (reg_of f) (?d + temps a) b)) (k3\<lparr>k_fs := g # fs\<rparr>)"
    by (simp add: pop_target_def fs_opt_def fs_act_def k3_def PopTarget_grown [OF ok(2)] g_def)
  have p2: "pop_target (k3\<lparr>k_fs := g # fs\<rparr>) = COk (int (target (reg_of f) ?d a)) (k3\<lparr>k_fs := h # fs\<rparr>)"
    by (simp add: pop_target_def fs_opt_def fs_act_def g_def PopTarget_used [OF ok(1)] h_def)
  obtain h' where h': "PushTarget (- 1) h = Inr (int ?d, h')"
    "AddInstruction (fs \<noteq> []) (Instr (op_instr p) (int ?d) (int (target (reg_of f) (?d + temps a) b))
      (int (target (reg_of f) ?d a)) (op_kind p)) h' = Some (grown f (Bin p a b) st)"
    using PushTarget_used [OF f(1) refl refl, of "temps b = 1 \<or> f_optimization (grown f a s1)" st "fs \<noteq> []"]
    unfolding h_def [symmetric] by blast
  have "BIN_EXP (op_instr p) F (op_kind p) k = COk () (k3\<lparr>k_fs := grown f (Bin p a b) st # fs\<rparr>)"
    by (simp add: BIN_EXP_def cthen_eval L I cbind_def p1 p2 push_target_def emit_def add_instr_def fs_act_def h')
  moreover have "k3\<lparr>k_fs := grown f (Bin p a b) st # fs\<rparr> =
      (later (Suc (length (exp_tokens b))) (first_token ts) k)\<lparr>k_fs := grown f (Bin p a b) st # fs\<rparr>"
    by (simp add: k3_def k2_def k1_def parsed_def later_def funpow_swap1)
  ultimately show ?thesis using st by auto
qed

fun exp_depth :: "exp \<Rightarrow> nat" where
  "exp_depth (Bin p a b) = Suc (max (exp_depth a) (exp_depth b))"
| "exp_depth _ = 1"

lemma prefixed_end:
  assumes "Factor (compile (Suc n)) k = COk () k'" "k_token k' \<in> follows"
  shows "compile (Suc (Suc n)) NPrefixed k = COk () k'"
  unfolding compile.simps(2) [of "Suc n"]
      by (simp add: nt_step_def cthen_eval assms(1) pass_loops(11) [OF assms(2)] del: compile.simps)

lemma Factor_Num:
  assumes s: "sees k (map token_value (exp_tokens (Num n)) @ ts)" and k: "k_fs k = f # fs" and f: "fits f (Num n)"
  shows "\<exists>E. Factor rc k = COk () (parsed k f fs (Num n) (first_token ts) (f_strings f) E)"
proof -
  let ?d = "length (f_vlocals f)"
  have t: "k_token k = TK_INTEGER" using sees_token [OF s] by simp
  have v: "nvalue (k_lex k) = of_nat n" using sees_value(1) [of k "(TK_INTEGER, OInteger (of_nat n))" ts] s by simp
  have n: "n < 2 ^ 31" and d: "?d \<le> 254" "?d \<le> f_stacksize f" using f by (simp_all add: fits_def)
  have i: "sint (of_nat n :: u64) = int n" using n by (simp add: signed_of_nat signed_take_bit_int_eq_self)
  define g where "g = grown f (Num n) (f_strings f)"
  have g: "f\<lparr>f_vlocals := f_vlocals f @ [null_local], f_stacksize := max (f_stacksize f) (Suc ?d),
      f_targetstack := f_targetstack f @ [int ?d], f_instructions := f_instructions f @ [Instr OP_LOADINT (int ?d) (int n) 0 0],
      f_optimization := True\<rparr> = g"
    by (simp add: g_def grown_def Let_def)
  have "EmitLoadConstInt (of_nat n) (- 1) k = COk () (k\<lparr>k_fs := g # fs\<rparr>)"
    using n by (simp add: EmitLoadConstInt_def target_or_new_def push_target_def cbind_def fs_act_def k PushTarget_new [OF d] i
        INT_MAX_def INT_MIN_def emit_def add_instr_def AddInstruction_unfused unfused_def g)
  moreover have "cLex (k\<lparr>k_fs := g # fs\<rparr>) = COk () (later 1 (first_token ts) (k\<lparr>k_fs := g # fs\<rparr>))"
    by (rule cLex_sees [of _ "(TK_INTEGER, OInteger (of_nat n))"]) (use s in simp)
  ultimately show ?thesis
    by (simp add: Factor_def cbind_def t plain_factor_def cthen_eval v set_etype_def parsed_def later_upd g_def tok_def)
      blast
qed

lemma Factor_Var:
  assumes s: "sees k (map token_value (exp_tokens (Var x)) @ ts)" and k: "k_fs k = f # fs" and f: "fits f (Var x)"
  shows "\<exists>st E. table_inv st \<and> Factor rc k = COk () (parsed k f fs (Var x) (first_token ts) st E)"
proof -
  let ?d = "length (f_vlocals f)"
  have x: "name_ok x" "x \<in> known f" using f by (simp_all add: fits_def)
  then have tv: "token_value (SName x) = (TK_IDENTIFIER, OString x)" by (simp add: name_ok_def)
  have t: "k_token k = TK_IDENTIFIER" using sees_token [OF s] tv by simp
  have v: "c_string (svalue (k_lex k)) = x" using sees_value(2) [of k "(TK_IDENTIFIER, OString x)" ts] s tv by simp
  obtain p where p: "GetLocalVariable x f = Some p" "p = reg_of f x" using x(2) by (auto simp: known_def reg_of_def)
  obtain b st where st: "table_NewSlot (f_strings f) (OString x) (OInteger 1) = Some (b, st)" "table_inv st"
    using table_NewSlot_ok [of "f_strings f" "OString x" "OInteger 1"] f by (auto simp: fits_def)
  define k1 where "k1 = k\<lparr>k_fs := f\<lparr>f_strings := st\<rparr> # fs\<rparr>"
  have n: "lex_name k = COk (OString x) k1"
    by (simp add: lex_name_def cbind_def v create_string_def fs_opt_def fs_act_def k fs_CreateString_def st k1_def)
  have L: "cLex k1 = COk () (later 1 (first_token ts) k1)"
    by (rule cLex_sees [of _ "(TK_IDENTIFIER, OString x)"]) (use s tv in \<open>simp add: k1_def\<close>)
  have d: "max (f_stacksize f) ?d = f_stacksize f" using f by (simp add: fits_def)
  have "PushTarget (int p) f1 = Inr (int p, f1\<lparr>f_targetstack := f_targetstack f1 @ [int p]\<rparr>)" for f1
    by (simp add: PushTarget_def)
  then have "name_factor x (later 1 (first_token ts) k1) = COk () (parsed k f fs (Var x) (first_token ts) st
      ((k_es k)\<lparr>es_etype := LOCAL, es_epos := int p\<rparr>))"
    using p(1) by (simp add: name_factor_def fs_get_def fs_act_def k1_def GetLocalVariable_def cbind_def cseq_Cons cthen_eval
        push_target_at_def set_etype_def set_epos_def parsed_def later_def grown_def Let_def p(2) [symmetric] d)
  then have "Factor rc k = COk () (parsed k f fs (Var x) (first_token ts) st ((k_es k)\<lparr>es_etype := LOCAL, es_epos := int p\<rparr>))"
    by (simp add: Factor_def cbind_def t n cthen_eval L)
  then show ?thesis using st(2) by blast
qed

definition fresh_es :: expstate where "fresh_es = \<lparr>es_etype = EXPR, es_epos = - 1, es_donot_get = False\<rparr>"

lemma Expression_run:
  assumes "compile n NLogicalOr (k\<lparr>k_es := fresh_es\<rparr>) = COk () k'" "k_token k' \<in> closes"
  shows "compile (Suc n) NExpression k = COk () (k'\<lparr>k_es := k_es k\<rparr>)"
  using assms(2)
  by (auto simp: nt_step_def Expression_def INVOKE_EXP_def cbind_def cseq_Cons cthen_eval assms(1) [unfolded fresh_es_def]
      closes_def assign_ops_def tok_def)

lemma CommaExpr_run:
  assumes "compile (Suc n) NExpression k = COk () k'" "k_token k' \<in> closes"
  shows "compile (Suc (Suc n)) NCommaExpr k = COk () k'"
  unfolding compile.simps(2) [of "Suc n"] using assms(2) pass_loops(10) [of k' n]
  by (auto simp: nt_step_def CommaExpr_def cthen_eval assms(1) closes_def simp del: compile.simps)

lemma LogicalOr_bin:
  assumes A: "compiles (compile (Suc (Suc n))) NPrefixed follows a" and B: "compiles (compile (Suc n)) NPrefixed follows b"
    and s: "sees k (map token_value (exp_tokens a) @ token_value (op_token p) # map token_value (exp_tokens b) @ ts)"
      "k_fs k = f # fs" "first_token ts \<in> closes"
    and f: "fits f (Bin p a b)"
  shows "\<exists>st E. table_inv st \<and> compile (Suc (Suc (Suc n))) NLogicalOr k = COk ()
    ((later (length (exp_tokens a) + Suc (length (exp_tokens b))) (first_token ts) k)\<lparr>k_fs := grown f (Bin p a b) st # fs, k_es := E\<rparr>)"
proof -
  let ?us = "token_value (op_token p) # map token_value (exp_tokens b) @ ts"
  have op: "first_token ?us \<in> follows" by (cases p) (simp_all add: follows_def)
  obtain s1 E where s1: "table_inv s1" and a: "compile (Suc (Suc n)) NPrefixed k = COk () (parsed k f fs a (first_token ?us) s1 E)"
    using compilesD [OF A s(1,2) fits_left [OF f] op] by blast
  let ?k = "parsed k f fs a (first_token ?us) s1 E"
  have k: "sees ?k ?us" by (rule sees_parsed [OF s(1)])
  have F: "\<exists>st E. table_inv st \<and> operand p (compile (Suc n)) k' = COk () (parsed k' (grown f a s1) fs b (first_token ts) st E)"
    if "sees k' (map token_value (exp_tokens b) @ ts)" "k_fs k' = grown f a s1 # fs" for k'
  proof -
    have "first_token ts \<in> follows" using s(3) by (auto simp: closes_def follows_def)
    from compilesD [OF B that fits_right [OF f s1] this] show ?thesis
      using s(3) operand_run [of n k' _ p] by (metis parsed_fields(1))
  qed
  have kf: "k_fs ?k = grown f a s1 # fs" by simp
  obtain st where st: "table_inv st" "BIN_EXP (op_instr p) (operand p (compile (Suc n))) (op_kind p) ?k =
      COk () ((later (Suc (length (exp_tokens b))) (first_token ts) ?k)\<lparr>k_fs := grown f (Bin p a b) st # fs\<rparr>)"
    using BIN_EXP_run [OF k kf f s1 F] by blast
  let ?k2 = "(later (Suc (length (exp_tokens b))) (first_token ts) ?k)\<lparr>k_fs := grown f (Bin p a b) st # fs\<rparr>"
  have "compile (Suc n) (loop_of p) ?k2 = COk () ?k2" by (rule loop_stop) (use s(3) in simp)
  then have "compile (Suc (Suc n)) (loop_of p) ?k = COk () ?k2"
    using loop_step [of ?k p "Suc n"] st(2) by (simp add: cthen_eval del: compile.simps)
  from LogicalOr_run [OF a _ this] have "compile (Suc (Suc (Suc n))) NLogicalOr k = COk () ?k2"
    using s(3) by (simp del: compile.simps)
  moreover have "?k2 = (later (length (exp_tokens a) + Suc (length (exp_tokens b))) (first_token ts) k)\<lparr>k_fs := grown f (Bin p a b) st # fs, k_es := E\<rparr>"
    by (simp add: parsed_def later_upd later_later)
  ultimately show ?thesis using st(1) by auto
qed

lemma restored: "(((K\<lparr>k_es := a\<rparr>)\<lparr>k_fs := F\<rparr>)\<lparr>k_es := b\<rparr>)\<lparr>k_es := k_es K\<rparr> = K\<lparr>k_fs := F\<rparr>"
  by (cases K) simp

lemma Factor_Bin:
  assumes A: "compiles (compile (Suc (Suc n))) NPrefixed follows a" and B: "compiles (compile (Suc n)) NPrefixed follows b"
    and s: "sees k (map token_value (exp_tokens (Bin p a b)) @ ts)" "k_fs k = f # fs" and f: "fits f (Bin p a b)"
  shows "\<exists>st E. table_inv st \<and> Factor (compile (Suc (Suc (Suc (Suc (Suc n)))))) k =
    COk () (parsed k f fs (Bin p a b) (first_token ts) st E)"
proof -
  let ?u = "(41, ONull) # ts" and ?N = "Suc (Suc (Suc n))" and ?l = "Suc (length (exp_tokens a) + Suc (length (exp_tokens b)))"
  let ?us = "map token_value (exp_tokens a) @ token_value (op_token p) # map token_value (exp_tokens b) @ ?u"
  have s': "sees k ((40, ONull) # ?us)" using s(1) by simp
  define k1 where "k1 = later 1 (first_token ?us) k"
  have L: "cLex k = COk () k1" unfolding k1_def by (rule cLex_sees [OF s'])
  have k1: "sees k1 ?us" using sees_later [of k "[(40, ONull)]" ?us] s' by (simp add: k1_def)
  have "sees (k1\<lparr>k_es := fresh_es\<rparr>) ?us" "k_fs (k1\<lparr>k_es := fresh_es\<rparr>) = f # fs" "first_token ?u \<in> closes"
    using k1 s(2) by (simp_all add: k1_def closes_def)
  from LogicalOr_bin [OF A B this f] obtain st E where st: "table_inv st" and
    o: "compile ?N NLogicalOr (k1\<lparr>k_es := fresh_es\<rparr>) = COk () ((later (length (exp_tokens a) + Suc (length (exp_tokens b)))
        41 (k1\<lparr>k_es := fresh_es\<rparr>))\<lparr>k_fs := grown f (Bin p a b) st # fs, k_es := E\<rparr>)" by auto
  define k2 where "k2 = (later ?l 41 k)\<lparr>k_fs := grown f (Bin p a b) st # fs\<rparr>"
  have x: "((later (length (exp_tokens a) + Suc (length (exp_tokens b))) 41 (k1\<lparr>k_es := fresh_es\<rparr>))\<lparr>k_fs := grown f (Bin p a b) st # fs,
      k_es := E\<rparr>)\<lparr>k_es := k_es k1\<rparr> = k2"
    using restored [of "later ?l 41 k"] by (simp add: k1_def k2_def later_upd later_later)
  have "compile (Suc (Suc ?N)) NCommaExpr k1 = COk () k2"
    by (rule CommaExpr_run) (use Expression_run [OF o] x in \<open>simp_all add: closes_def k2_def del: compile.simps\<close>)
  moreover have "Expect 41 k2 = COk ONull (later 1 (first_token ts) k2)"
  proof -
    have "sees k2 ?u"
      using sees_later [of k "(40, ONull) # map token_value (exp_tokens a) @ token_value (op_token p) # map token_value (exp_tokens b)" ?u] s'
      by (simp add: k2_def)
    then show ?thesis by (simp add: Expect_def cbind_def k2_def [symmetric] sees_token [OF \<open>sees k2 ?u\<close>] cthen_eval cLex_sees)
  qed
  ultimately have "plain_factor (compile (Suc (Suc ?N))) 40 k = COk () (later 1 (first_token ts) k2)"
    by (simp add: plain_factor_def tok_def cseq_Cons cthen_eval L cbind_def del: compile.simps)
  moreover have "k_token k = 40" using sees_token [OF s'] by simp
  ultimately have "Factor (compile (Suc (Suc ?N))) k = COk () ((later 1 (first_token ts) k2)\<lparr>k_es := (k_es k)\<lparr>es_etype := EXPR\<rparr>\<rparr>)"
    by (simp add: Factor_def cbind_def cthen_eval set_etype_def k2_def tok_def del: compile.simps)
  moreover have "(later 1 (first_token ts) k2)\<lparr>k_es := (k_es k)\<lparr>es_etype := EXPR\<rparr>\<rparr> =
      parsed k f fs (Bin p a b) (first_token ts) st ((k_es k)\<lparr>es_etype := EXPR\<rparr>)"
    by (simp add: k2_def later_upd later_later parsed_def)
  ultimately show ?thesis using st by auto
qed

lemma prefixed_compiles: "6 * exp_depth e \<le> n \<Longrightarrow> compiles (compile n) NPrefixed follows e"
proof (induction e arbitrary: n)
  case (Num m)
  obtain n' where n: "n = Suc (Suc n')" using Num by (cases n; cases "n - 1") auto
  have "\<exists>st E. table_inv st \<and> compile n NPrefixed k = COk () (parsed k f fs (Num m) (first_token ts) st E)"
    if h: "sees k (map token_value (exp_tokens (Num m)) @ ts)" "k_fs k = f # fs" "fits f (Num m)" "first_token ts \<in> follows" for k f fs ts
  proof -
    obtain E where "Factor (compile (Suc n')) k = COk () (parsed k f fs (Num m) (first_token ts) (f_strings f) E)"
      using Factor_Num [OF h(1-3)] by blast
    from prefixed_end [OF this] show ?thesis using h(3,4) n by (auto simp: fits_def simp del: compile.simps)
  qed
  then show ?case by (auto simp: compiles_def)
next
  case (Var x)
  obtain n' where n: "n = Suc (Suc n')" using Var by (cases n; cases "n - 1") auto
  have "\<exists>st E. table_inv st \<and> compile n NPrefixed k = COk () (parsed k f fs (Var x) (first_token ts) st E)"
    if h: "sees k (map token_value (exp_tokens (Var x)) @ ts)" "k_fs k = f # fs" "fits f (Var x)" "first_token ts \<in> follows" for k f fs ts
  proof -
    obtain st E where "table_inv st" "Factor (compile (Suc n')) k = COk () (parsed k f fs (Var x) (first_token ts) st E)"
      using Factor_Var [OF h(1-3)] by blast
    with prefixed_end [of n' k] show ?thesis using h(4) n by (auto simp del: compile.simps)
  qed
  then show ?case by (auto simp: compiles_def)
next
  case (Bin p a b)
  obtain m where m: "n = Suc (Suc (Suc (Suc (Suc (Suc m)))))" "6 * exp_depth a \<le> Suc (Suc m)" "6 * exp_depth b \<le> Suc m"
    using Bin.prems by (intro that [of "n - 6"]) auto
  have "\<exists>st E. table_inv st \<and> compile n NPrefixed k = COk () (parsed k f fs (Bin p a b) (first_token ts) st E)"
    if h: "sees k (map token_value (exp_tokens (Bin p a b)) @ ts)" "k_fs k = f # fs" "fits f (Bin p a b)" "first_token ts \<in> follows" for k f fs ts
  proof -
    obtain st E where "table_inv st" and F: "Factor (compile (Suc (Suc (Suc (Suc (Suc m)))))) k =
        COk () (parsed k f fs (Bin p a b) (first_token ts) st E)"
      using Factor_Bin [OF Bin.IH(1) [OF m(2)] Bin.IH(2) [OF m(3)] h(1-3)] by blast
    moreover have "compile n NPrefixed k = COk () (parsed k f fs (Bin p a b) (first_token ts) st E)"
      unfolding m(1) by (rule prefixed_end [OF F]) (use h(4) in simp)
    ultimately show ?thesis by blast
  qed
  then show ?case by (auto simp: compiles_def)
qed

lemma expression_compiles:
  assumes "6 * exp_depth e + 3 \<le> n" "sees k (map token_value (exp_tokens e) @ ts)" "k_fs k = f # fs" "fits f e" "first_token ts \<in> closes"
  shows "\<exists>st. table_inv st \<and> compile n NExpression k = COk () (parsed k f fs e (first_token ts) st (k_es k))"
proof -
  obtain m where m: "n = Suc (Suc (Suc m))" "6 * exp_depth e \<le> Suc m"
    using assms(1) by (intro that [of "n - 3"]) auto
  have t: "first_token ts \<in> follows" using assms(5) by (auto simp: closes_def follows_def)
  have s: "sees (k\<lparr>k_es := fresh_es\<rparr>) (map token_value (exp_tokens e) @ ts)" "k_fs (k\<lparr>k_es := fresh_es\<rparr>) = f # fs"
    using assms(2,3) by simp_all
  obtain st E where st: "table_inv st" "compile (Suc m) NPrefixed (k\<lparr>k_es := fresh_es\<rparr>) =
      COk () (parsed (k\<lparr>k_es := fresh_es\<rparr>) f fs e (first_token ts) st E)"
    using compilesD [OF prefixed_compiles [OF m(2)] s assms(4) t] by blast
  have "compile (Suc (Suc m)) NLogicalOr (k\<lparr>k_es := fresh_es\<rparr>) = COk () (parsed (k\<lparr>k_es := fresh_es\<rparr>) f fs e (first_token ts) st E)"
    by (rule LogicalOr_single [OF st(2)]) (use assms(5) in simp)
  from Expression_run [OF this] have "compile n NExpression k =
      COk () ((parsed (k\<lparr>k_es := fresh_es\<rparr>) f fs e (first_token ts) st E)\<lparr>k_es := k_es k\<rparr>)"
    using assms(5) by (simp add: m(1) del: compile.simps)
  moreover have "(parsed (k\<lparr>k_es := fresh_es\<rparr>) f fs e (first_token ts) st E)\<lparr>k_es := k_es k\<rparr> = parsed k f fs e (first_token ts) st (k_es k)"
    by (simp add: parsed_def later_upd)
  ultimately show ?thesis using st(1) by auto
qed

section \<open>Statements\<close>

text \<open>Between statements the optimiser is off, or there is no instruction yet.\<close>

definition quiet :: "fstate \<Rightarrow> bool" where
  "quiet f \<longleftrightarrow> f_instructions f = [] \<or> \<not> f_optimization f"

definition ready :: "fstate \<Rightarrow> bool" where
  "ready f \<longleftrightarrow> quiet f \<and> f_traps f = 0 \<and> length (f_vlocals f) \<le> f_stacksize f \<and> f_stacksize f \<le> 255 \<and> table_inv (f_strings f)"

text \<open>Where a move or a return is appended as it is.\<close>

definition settled :: "fstate \<Rightarrow> bool" where
  "settled f \<longleftrightarrow> quiet f \<or> iop (last (f_instructions f)) = OP_LINE"

lemma AddInstruction_quiet:
  "quiet f \<Longrightarrow> AddInstruction p i f = Some (f\<lparr>f_instructions := f_instructions f @ [i], f_optimization := True\<rparr>)"
  by (auto simp: quiet_def AddInstruction_def Let_def)

lemma AddInstruction_kept:
  assumes "f_instructions f \<noteq> []" "fuse p f (last (f_instructions f)) i = Kept (last (f_instructions f)) i"
  shows "AddInstruction p i f = Some (f\<lparr>f_instructions := f_instructions f @ [i], f_optimization := True\<rparr>)"
  using assms by (cases "f_instructions f" rule: rev_cases) (simp_all add: AddInstruction_def Let_def)

lemma AddInstruction_settled:
  assumes "settled f" "iop i = OP_MOVE \<or> iop i = OP_RETURN"
  shows "AddInstruction p i f = Some (f\<lparr>f_instructions := f_instructions f @ [i], f_optimization := True\<rparr>)"
proof (cases "quiet f")
  case False
  then have "f_instructions f \<noteq> []" "iop (last (f_instructions f)) = OP_LINE" using assms(1)
      by (auto simp: settled_def quiet_def)
  then show ?thesis using assms(2) by (intro AddInstruction_kept) (auto simp: fuse_def Let_def move_target_ops_def)
qed (rule AddInstruction_quiet)

lemma AddInstruction_return:
  assumes "f_instructions f \<noteq> []" "iop (last (f_instructions f)) \<in> unfused" "iop i = OP_RETURN"
  shows "AddInstruction p i f = Some (f\<lparr>f_instructions := f_instructions f @ [i], f_optimization := True\<rparr>)"
  using assms by (intro AddInstruction_kept) (auto simp: fuse_def Let_def unfused_def)

lemma AddLineInfos_quiet:
  assumes "quiet f"
  shows "\<exists>s li. lines s \<and>
      AddLineInfos p line lineop force f = Some (f\<lparr>f_instructions := f_instructions f @ s, f_lineinfos := li,
    f_lastline := line, f_optimization := (f_optimization f \<or> s \<noteq> [])\<rparr>)"
proof -
  let ?li = "if f_lastline f \<noteq> line then f_lineinfos f @ [\<lparr>li_line = line, li_op = GetCurrentPos f + 1\<rparr>] else f_lineinfos f"
  consider "f_lastline f = line" "\<not> force" | "f_lastline f \<noteq> line \<or> force" "\<not> lineop" | "f_lastline f \<noteq> line \<or> force" lineop
    by blast
  then show ?thesis
  proof cases
    case 1
    then have "AddLineInfos p line lineop force f = Some (f\<lparr>f_instructions := f_instructions f @ [], f_lineinfos := f_lineinfos f,
        f_lastline := line, f_optimization := (f_optimization f \<or> [] \<noteq> ([] :: instr list))\<rparr>)"
      by (simp add: AddLineInfos_def)
    then show ?thesis unfolding lines_def by blast
  next
    case 2
    then have "AddLineInfos p line lineop force f = Some (f\<lparr>f_instructions := f_instructions f @ [], f_lineinfos := ?li,
        f_lastline := line, f_optimization := (f_optimization f \<or> [] \<noteq> ([] :: instr list))\<rparr>)"
      by (simp add: AddLineInfos_def Let_def)
    then show ?thesis unfolding lines_def by blast
  next
    case 3
    let ?i = "Instr OP_LINE 0 line 0 0"
    from 3 have "AddLineInfos p line lineop force f = Some (f\<lparr>f_instructions := f_instructions f @ [?i], f_lineinfos := ?li,
        f_lastline := line, f_optimization := (f_optimization f \<or> [?i] \<noteq> [])\<rparr>)"
      using AddInstruction_quiet [OF assms, of p ?i] by (simp add: AddLineInfos_def Let_def)
    then show ?thesis unfolding lines_def by blast
  qed
qed

lemma line_info_run:
  assumes "quiet f" "k_fs k = f # fs"
  shows "\<exists>s li. lines s \<and>
      line_info line force k = COk () (k\<lparr>k_fs := f\<lparr>f_instructions := f_instructions f @ s, f_lineinfos := li,
    f_lastline := line, f_optimization := (f_optimization f \<or> s \<noteq> [])\<rparr> # fs\<rparr>)"
  using AddLineInfos_quiet [OF assms(1), of "fs \<noteq> []" line "k_lineinfo k" force] assms(2)
  by (fastforce simp: line_info_def fs_act_def)

text \<open>A declared variable gets the next register.\<close>

lemma GetLocal_snoc:
  "f_vlocals g = f_vlocals f @ [l] \<Longrightarrow>
   GetLocalVariable x g = (if lv_name l = OString x then Some (length (f_vlocals f)) else GetLocalVariable x f)"
  by (simp add: GetLocalVariable_def local_from_append nth_append)

lemma known_snoc:
  assumes "f_vlocals g = f_vlocals f @ [l]" "lv_name l = OString x"
  shows "reg_of g = (reg_of f)(x := length (f_vlocals f))" "known g = insert x (known f)"
  using GetLocal_snoc [OF assms(1)] assms(2) by (auto simp: reg_of_def known_def fun_eq_iff)

lemma reg_of_eq: "f_vlocals g = f_vlocals f \<Longrightarrow> reg_of g = reg_of f \<and> known g = known f"
  by (simp add: reg_of_def known_def GetLocalVariable_def fun_eq_iff)

end
