(* ===== verification/Straight_Stmt.thy ===== *)
theory Straight_Stmt
  imports Straight_Expr
begin

text \<open>
  Compiling declarations, the final \<open>return\<close> and the whole program: \<open>RunCompiler\<close> builds a prototype whose instructions
  are the \<open>program_code\<close> of the program (\<open>RunCompiler_program\<close>).
\<close>

lemma target_d: "exp_ok (known f) a \<Longrightarrow> target (reg_of f) (length (f_vlocals f)) a = length (f_vlocals f) \<longleftrightarrow> temps a = 1"
  by (cases a) (auto dest: reg_of_less)

text \<open>The end of a declaration: the value is moved to the register of the variable, which then gets its name.\<close>

definition declare_end :: "lvobj \<Rightarrow> unit cm" where
  "declare_end name = cthen (cbind pop_target (\<lambda>src. cbind push_target (\<lambda>dest. cwhen (dest \<noteq> src) (emit OP_MOVE dest src 0 0))))
     (cseq [drop_target, cbind (push_local name) (\<lambda>_. cret ())])"

definition new_var :: "fstate \<Rightarrow> string \<Rightarrow> exp \<Rightarrow> localvar \<Rightarrow> lvtable \<Rightarrow> bool \<Rightarrow> fstate" where
  "new_var f x a l st opt = f\<lparr>f_vlocals := f_vlocals f @ [l],
     f_instructions := f_instructions f @ decl_code (reg_of f) (length (f_vlocals f)) a,
     f_stacksize := max (f_stacksize f) (length (f_vlocals f) + max 1 (regs a)), f_strings := st, f_optimization := opt\<rparr>"

lemma declare_end_run:
  assumes "k_fs k = grown f a st # fs" "exp_ok (known f) a" "settled f" "length (f_vlocals f) \<le> 254" "length (f_vlocals f) \<le> f_stacksize f"
  shows "\<exists>l opt. lv_name l = OString x \<and> lv_end l = 0 \<and>
      declare_end (OString x) k = COk () (k\<lparr>k_fs := new_var f x a l st opt # fs\<rparr>)"
proof -
  let ?d = "length (f_vlocals f)" and ?t = "target (reg_of f) (length (f_vlocals f)) a" and ?o = "temps a = 1 \<or> f_optimization f"
  let ?c = "code (reg_of f) ?d a"
  define g1 where "g1 = used f (regs a) ?c ?o st"
  define g2 where "g2 = g1\<lparr>f_vlocals := f_vlocals f @ [null_local], f_stacksize := max (f_stacksize g1) (?d + 1),
      f_targetstack := f_targetstack f @ [int ?d]\<rparr>"
  define g3 where "g3 = (if ?t = ?d then g2 else g2\<lparr>f_instructions := f_instructions g2 @ [Instr OP_MOVE (int ?d) (int ?t) 0 0], f_optimization := True\<rparr>)"
  have p1: "pop_target k = COk (int ?t) (k\<lparr>k_fs := g1 # fs\<rparr>)"
    by (simp add: pop_target_def fs_opt_def fs_act_def assms(1) PopTarget_grown [OF assms(2)] g1_def)
  have g1: "f_vlocals g1 = f_vlocals f" "f_targetstack g1 = f_targetstack f" "?d \<le> f_stacksize g1"
    using assms(5) by (simp_all add: g1_def used_def)
  have p2: "push_target (k\<lparr>k_fs := g1 # fs\<rparr>) = COk (int ?d) (k\<lparr>k_fs := g2 # fs\<rparr>)"
    using PushTarget_new [of g1] assms(4) g1 by (simp add: push_target_def fs_act_def g2_def)
  have p3: "cwhen (?d \<noteq> ?t) (emit OP_MOVE (int ?d) (int ?t) 0 0) (k\<lparr>k_fs := g2 # fs\<rparr>) = COk () (k\<lparr>k_fs := g3 # fs\<rparr>)"
  proof (cases "?t = ?d")
    case False
    then obtain y where "a = Var y" using target_d [OF assms(2)] by (cases a) auto
    then have "settled g2" using assms(3) by (simp add: settled_def quiet_def g2_def g1_def used_def)
    then show ?thesis using False by (simp add: emit_def add_instr_def fs_act_def AddInstruction_settled g3_def)
  qed (simp add: g3_def)
  define g4 where "g4 = g3\<lparr>f_vlocals := f_vlocals f, f_targetstack := f_targetstack f\<rparr>"
  have "f_vlocals g3 = f_vlocals f @ [null_local]" "f_targetstack g3 = f_targetstack f @ [int ?d]"
    by (simp_all add: g3_def g2_def)
  then have p4: "drop_target (k\<lparr>k_fs := g3 # fs\<rparr>) = COk () (k\<lparr>k_fs := g4 # fs\<rparr>)"
    by (simp add: drop_target_def pop_target_def fs_opt_def fs_act_def PopTarget_def Let_def cbind_def g4_def)
  define l where "l = \<lparr>lv_name = OString x, lv_start = of_int (GetCurrentPos g4 + 1), lv_end = 0, lv_pos = of_nat ?d\<rparr>"
  have s: "f_stacksize g4 = max (f_stacksize f) (?d + max 1 (regs a))"
    by (simp add: g4_def g3_def g2_def g1_def used_def max.assoc max.commute nat_add_max_right)
  have i: "f_instructions g4 = f_instructions f @ decl_code (reg_of f) ?d a"
    by (simp add: g4_def g3_def g2_def g1_def used_def)
  have "snd (PushLocalVariable (OString x) g4) = new_var f x a l st (f_optimization g4)"
    using s i by (simp add: PushLocalVariable_def Let_def new_var_def l_def) (simp add: g4_def g3_def g2_def g1_def used_def)
  then have "push_local (OString x) (k\<lparr>k_fs := g4 # fs\<rparr>) = COk (int (fst (PushLocalVariable (OString x) g4)))
      (k\<lparr>k_fs := new_var f x a l st (f_optimization g4) # fs\<rparr>)"
    by (simp add: push_local_def fs_opt_def fs_act_def split_beta)
  then have "declare_end (OString x) k = COk () (k\<lparr>k_fs := new_var f x a l st (f_optimization g4) # fs\<rparr>)"
    by (simp add: declare_end_def cthen_eval cbind_def p1 p2 p3 cseq_Cons p4)
  then show ?thesis by (intro exI [of _ l] exI) (auto simp: l_def)
qed

lemma cthen_assoc: "cthen (cthen m n) q = cthen m (cthen n q)"
  by (rule ext) (simp add: cthen_eval split: cres.split)

lemma sees_prev:
  assumes "sees k (us @ u # t # ts)"
  shows "prevtoken (k_lex (later (Suc (length us)) (fst t) k)) = fst u"
  using sees_prevtoken [OF sees_later [OF assms]] by (simp add: later_def)

lemma sees_Cons: "sees k (t # ts) \<Longrightarrow> sees (later 1 (first_token ts) k) ts"
  using sees_later [of k "[t]" ts] by simp

lemma expect_name_run:
  assumes "sees k ((TK_IDENTIFIER, OString x) # ts)" "k_fs k = f # fs" "table_inv (f_strings f)"
  shows "\<exists>st. table_inv st \<and> expect_name k = COk (OString x) ((later 1 (first_token ts) k)\<lparr>k_fs := f\<lparr>f_strings := st\<rparr> # fs\<rparr>)"
proof -
  have t: "k_token k = TK_IDENTIFIER" using sees_token [OF assms(1)] by simp
  have v: "c_string (svalue (k_lex k)) = x" using sees_value(2) [OF assms(1)] by simp
  obtain b st where st: "table_NewSlot (f_strings f) (OString x) (OInteger 1) = Some (b, st)" "table_inv st"
    using table_NewSlot_ok [OF assms(3), of "OString x" "OInteger 1"] by auto
  let ?k = "k\<lparr>k_fs := f\<lparr>f_strings := st\<rparr> # fs\<rparr>"
  have "lex_name k = COk (OString x) ?k"
    by (simp add: lex_name_def cbind_def v create_string_def fs_opt_def fs_act_def assms(2) fs_CreateString_def st)
  moreover have "cLex ?k = COk () (later 1 (first_token ts) ?k)"
    by (rule cLex_sees) (use assms(1) in simp)
  ultimately show ?thesis
    using st(2) by (auto simp: expect_name_def Expect_def cbind_def t cthen_eval later_upd)
qed

lemma vars_run:
  assumes n: "6 * exp_depth a + 4 \<le> n"
    and s: "sees k ((TK_IDENTIFIER, OString x) # (61, ONull) # map token_value (exp_tokens a) @ (59, ONull) # ts)" "k_fs k = f # fs"
    and f: "fits f a" "settled f" "length (f_vlocals f) \<le> 254"
  shows "\<exists>l opt st. lv_name l = OString x \<and> lv_end l = 0 \<and> table_inv st \<and> compile n NVars k =
    COk () ((later (2 + length (exp_tokens a)) 59 k)\<lparr>k_fs := new_var f x a l st opt # fs\<rparr>)"
proof -
  let ?us = "map token_value (exp_tokens a) @ (59, ONull) # ts"
  obtain n' where n': "n = Suc n'" "6 * exp_depth a + 3 \<le> n'" using n by (cases n) auto
  obtain s1 where s1: "table_inv s1" and e: "expect_name k = COk (OString x) ((later 1 61 k)\<lparr>k_fs := f\<lparr>f_strings := s1\<rparr> # fs\<rparr>)"
    using expect_name_run [OF s] f(1) by (auto simp: fits_def)
  define f1 where "f1 = f\<lparr>f_strings := s1\<rparr>"
  define k1 where "k1 = (later 1 61 k)\<lparr>k_fs := f1 # fs\<rparr>"
  define k2 where "k2 = later 1 (first_token ?us) k1"
  have e1: "expect_name k = COk (OString x) k1" and t1: "k_token k1 = 61" using e by (simp_all add: k1_def f1_def)
  have f1: "reg_of f1 = reg_of f" "known f1 = known f" "f_vlocals f1 = f_vlocals f" "settled f1"
    using reg_of_eq [of f1 f] f(2) by (simp_all add: f1_def settled_def quiet_def)
  have fits: "fits f1 a" using f(1) f1 s1 by (simp add: fits_def) (simp add: f1_def)
  have k1: "sees k1 ((61, ONull) # ?us)" using sees_Cons [OF s(1)] by (simp add: k1_def)
  have L: "cLex k1 = COk () k2" unfolding k2_def by (rule cLex_sees [OF k1])
  have k2: "sees k2 ?us" "k_fs k2 = f1 # fs" using sees_Cons [OF k1] by (simp_all add: k2_def k1_def)
  obtain st where st: "table_inv st" "compile n' NExpression k2 = COk () (parsed k2 f1 fs a 59 st (k_es k2))"
    using expression_compiles [OF n'(2) k2 fits] by (auto simp: closes_def)
  let ?k3 = "parsed k2 f1 fs a 59 st (k_es k2)"
  obtain l opt where l: "lv_name l = OString x" "lv_end l = 0"
    "declare_end (OString x) ?k3 = COk () (?k3\<lparr>k_fs := new_var f1 x a l st opt # fs\<rparr>)"
    using declare_end_run [of ?k3 f1 a st fs x] fits f1 f(3) by (auto simp: fits_def)
  have "compile n NVars k = COk () (?k3\<lparr>k_fs := new_var f1 x a l st opt # fs\<rparr>)"
  proof -
    have "vars_loop (compile n') k = cthen (declare_end (OString x)) (if_token 44 (cthen cLex (compile n' NVars)) (cret ())) ?k3"
      by (simp add: vars_loop_def cbind_def e1 cseq_Cons declare_end_def cthen_assoc tok_def) (simp add: cthen_eval cbind_def L st(2) t1)
    then show ?thesis by (simp add: n' nt_step_def cthen_eval l(3) cbind_def)
  qed
  moreover have "?k3\<lparr>k_fs := new_var f1 x a l st opt # fs\<rparr> = (later (2 + length (exp_tokens a)) 59 k)\<lparr>k_fs := new_var f x a l st opt # fs\<rparr>"
  proof -
    have "new_var f1 x a l st opt = new_var f x a l st opt"
      by (simp add: new_var_def f1) (simp add: f1_def)
    moreover have "(later m t k)\<lparr>k_es := k_es k\<rparr> = later m t k" for m t by (cases k) (simp add: later_def)
    ultimately show ?thesis by (simp add: parsed_def k2_def k1_def later_upd later_later)
  qed
  ultimately show ?thesis using l(1,2) st(1) by auto
qed

definition with_line :: "fstate \<Rightarrow> instr list \<Rightarrow> lineinfo list \<Rightarrow> int \<Rightarrow> fstate" where
  "with_line f s li line = f\<lparr>f_instructions := f_instructions f @ s, f_lineinfos := li,
    f_lastline := line, f_optimization := (f_optimization f \<or> s \<noteq> [])\<rparr>"

lemma settled_with_line: "quiet f \<Longrightarrow> lines s \<Longrightarrow> settled (with_line f s li line)"
  by (auto simp: settled_def quiet_def with_line_def lines_def)

lemma with_line_fields [simp]:
  "f_vlocals (with_line f s li line) = f_vlocals f" "f_strings (with_line f s li line) = f_strings f"
  "f_stacksize (with_line f s li line) = f_stacksize f" "f_traps (with_line f s li line) = f_traps f"
  "reg_of (with_line f s li line) = reg_of f" "known (with_line f s li line) = known f"
  using reg_of_eq [of "with_line f s li line" f] by (simp_all add: with_line_def)

lemma Statement_start:
  assumes "quiet f" "k_fs k = f # fs"
  shows "\<exists>s li line. lines s \<and>
      (\<forall>m :: unit cm. cthen (cbind (cget (\<lambda>k. currentline (k_lex k))) (\<lambda>line. line_info line False)) m k =
    m (k\<lparr>k_fs := with_line f s li line # fs\<rparr>))"
  using line_info_run [OF assms, of "currentline (k_lex k)" False] by (force simp: cthen_eval cbind_def with_line_def)

lemma snooze_run: "k_fs k = f # fs \<Longrightarrow> snooze k = COk () (k\<lparr>k_fs := f\<lparr>f_optimization := False\<rparr> # fs\<rparr>)"
  by (simp add: snooze_def fs_mod_def fs_act_def SnoozeOpt_def)

lemma decl_statement:
  assumes n: "6 * exp_depth a + 5 \<le> n"
    and s: "sees k (map token_value (decl_tokens (x, a)) @ ts)" "k_fs k = f # fs"
    and f: "ready f" "exp_ok (known f) a" "name_ok x" "length (f_vlocals f) + max 1 (regs a) \<le> 255"
  shows "\<exists>s li line l st. lines s \<and> lv_name l = OString x \<and> lv_end l = 0 \<and> table_inv st \<and> compile n (NStatement True) k =
    COk () ((later (3 + length (exp_tokens a)) 59 k)\<lparr>k_fs := new_var (with_line f s li line) x a l st False # fs\<rparr>)"
proof -
  let ?us = "(61, ONull) # map token_value (exp_tokens a) @ (59, ONull) # ts"
  obtain n' where n': "n = Suc n'" "6 * exp_depth a + 4 \<le> n'" using n by (cases n) auto
  have v: "token_value (SName x) = (TK_IDENTIFIER, OString x)" using f(3) by (simp add: name_ok_def)
  have w: "token_value (SName ''var'') = (TK_VAR, ONull)" by (simp add: keyword_list_def)
  have s': "sees k ((TK_VAR, ONull) # (TK_IDENTIFIER, OString x) # ?us)" using s(1) v w by simp
  have "quiet f" using f(1) by (simp add: ready_def)
  from Statement_start [OF this s(2)] obtain s li line where ln: "lines s"
    "\<And>m :: unit cm. cthen (cbind (cget (\<lambda>k. currentline (k_lex k))) (\<lambda>line. line_info line False)) m k = m (k\<lparr>k_fs := with_line f s li line # fs\<rparr>)"
    by blast
  define g where "g = with_line f s li line"
  define k0 where "k0 = k\<lparr>k_fs := g # fs\<rparr>"
  define k1 where "k1 = later 1 TK_IDENTIFIER k0"
  have k0: "sees k0 ((TK_VAR, ONull) # (TK_IDENTIFIER, OString x) # ?us)" "k_token k0 = TK_VAR"
    using s' sees_token [OF s'] by (simp_all add: k0_def)
  have L: "cLex k0 = COk () k1" using cLex_sees [OF k0(1)] by (simp add: k1_def)
  have k1: "sees k1 ((TK_IDENTIFIER, OString x) # ?us)" "k_fs k1 = g # fs" using sees_Cons [OF k0(1)]
      by (simp_all add: k1_def k0_def)
  have g: "fits g a" "settled g" "length (f_vlocals g) \<le> 254"
    using f ln(1) settled_with_line [of f s li line] by (auto simp: g_def fits_def ready_def)
  obtain l opt st where l: "lv_name l = OString x" "lv_end l = 0" "table_inv st"
    "compile n' NVars k1 = COk () ((later (2 + length (exp_tokens a)) 59 k1)\<lparr>k_fs := new_var g x a l st opt # fs\<rparr>)"
    using vars_run [OF n'(2) k1 g] by blast
  let ?k2 = "(later (2 + length (exp_tokens a)) 59 k1)\<lparr>k_fs := new_var g x a l st opt # fs\<rparr>"
  have "LocalDeclStatement (compile n') k0 = COk () ?k2"
    by (simp add: LocalDeclStatement_def cthen_eval L cbind_def k1_def [symmetric] l(4)) (simp add: k1_def l(4) [unfolded k1_def])
  moreover have "compile n (NStatement True) k = Statement (compile n') True k" by (simp add: n'(1) nt_step_def)
  ultimately have "compile n (NStatement True) k = cthen (cret ()) (cseq [snooze]) ?k2"
    unfolding Statement_def ln(2) g_def [symmetric] k0_def [symmetric]
    by (simp add: cbind_def k0(2) cseq_Cons cthen_eval tok_def)
  also have "\<dots> = COk () (?k2\<lparr>k_fs := new_var g x a l st False # fs\<rparr>)"
    using snooze_run [of ?k2] by (simp add: cseq_Cons cthen_eval new_var_def)
  also have "?k2\<lparr>k_fs := new_var g x a l st False # fs\<rparr> = (later (3 + length (exp_tokens a)) 59 k)\<lparr>k_fs := new_var g x a l st False # fs\<rparr>"
    by (simp add: k1_def k0_def later_upd later_later eval_nat_numeral)
  finally show ?thesis unfolding g_def using l(1-3) ln(1) by blast
qed

lemma exp_tokens_ends:
  assumes "exp_ok X e"
  shows "\<exists>t us. map token_value (exp_tokens e) = t # us \<and> fst t \<in> {TK_INTEGER, TK_IDENTIFIER, 40}"
    "\<exists>t us. map token_value (exp_tokens e) = us @ [t] \<and> fst t \<in> {TK_INTEGER, TK_IDENTIFIER, 41}"
  using assms by (cases e; simp add: name_ok_def)+

definition answered :: "fstate \<Rightarrow> exp \<Rightarrow> lvtable \<Rightarrow> int \<Rightarrow> fstate" where
  "answered f e st re = (used f (regs e) (code (reg_of f) (length (f_vlocals f)) e @
     [Instr OP_RETURN 1 (int (target (reg_of f) (length (f_vlocals f)) e)) (int (length (f_vlocals f))) 0]) False st)\<lparr>f_returnexp := re\<rparr>"

lemma code_last: "temps e = 1 \<Longrightarrow> code r d e \<noteq> [] \<and> iop (last (code r d e)) \<in> unfused"
  using op_instr_unfused by (cases e) (auto simp: unfused_def)

lemma emit_return:
  assumes "settled f" "i = Instr OP_RETURN 1 (int (target (reg_of f) (length (f_vlocals f)) e)) (int (length (f_vlocals f))) 0"
  shows "AddInstruction p i ((used f (regs e) (code (reg_of f) (length (f_vlocals f)) e) (temps e = 1 \<or> f_optimization f) st)\<lparr>f_returnexp := re\<rparr>) =
    Some ((answered f e st re)\<lparr>f_optimization := True\<rparr>)"
proof -
  let ?c = "code (reg_of f) (length (f_vlocals f)) e"
  let ?g = "(used f (regs e) ?c (temps e = 1 \<or> f_optimization f) st)\<lparr>f_returnexp := re\<rparr>"
  have "AddInstruction p i ?g = Some (?g\<lparr>f_instructions := f_instructions ?g @ [i], f_optimization := True\<rparr>)"
  proof (cases "temps e = 1")
    case True
    from code_last [OF this, of "reg_of f" "length (f_vlocals f)"] show ?thesis
      by (intro AddInstruction_return) (auto simp: used_def assms(2))
  next
    case False
    then have "?c = []" "\<not> temps e = 1" by (cases e; simp)+
    then have "settled ?g" using assms(1) by (simp add: settled_def quiet_def used_def)
    then show ?thesis by (rule AddInstruction_settled) (simp add: assms(2))
  qed
  then show ?thesis by (simp add: answered_def used_def assms(2))
qed

lemma PopTarget_returnexp:
  "PopTarget (f\<lparr>f_returnexp := re\<rparr>) = map_option (\<lambda>(t, g). (t, g\<lparr>f_returnexp := re\<rparr>)) (PopTarget f)"
  by (simp add: PopTarget_def Let_def)

lemma return_statement:
  assumes n: "6 * exp_depth e + 6 \<le> n" and s: "sees k ((TK_RETURN, ONull) # map token_value (exp_tokens e))" "k_fs k = f # fs"
    and f: "ready f" "exp_ok (known f) e" "length (f_vlocals f) + regs e \<le> 255"
  shows "\<exists>s li line st re. lines s \<and> table_inv st \<and> compile n (NStatement True) k =
    COk () ((later (1 + length (exp_tokens e)) 0 k)\<lparr>k_fs := answered (with_line f s li line) e st re # fs\<rparr>)"
proof -
  obtain n' where n': "n = Suc (Suc (Suc n'))" "6 * exp_depth e + 3 \<le> Suc n'" using n by (intro that [of "n - 3"]) auto
  have "quiet f" using f(1) by (simp add: ready_def)
  from Statement_start [OF this s(2)] obtain s li line where ln: "lines s"
    "\<And>m :: unit cm. cthen (cbind (cget (\<lambda>k. currentline (k_lex k))) (\<lambda>line. line_info line False)) m k = m (k\<lparr>k_fs := with_line f s li line # fs\<rparr>)"
    by blast
  define g where "g = with_line f s li line"
  define k0 where "k0 = k\<lparr>k_fs := g # fs\<rparr>"
  obtain t us where t: "map token_value (exp_tokens e) = t # us" "fst t \<in> {TK_INTEGER, TK_IDENTIFIER, 40}"
    using exp_tokens_ends(1) [OF f(2)] by metis
  define k1 where "k1 = later 1 (fst t) k0"
  have k0: "sees k0 ((TK_RETURN, ONull) # t # us)" "k_token k0 = TK_RETURN" using s sees_token [OF s(1)] t
      by (simp_all add: k0_def)
  have L: "cLex k0 = COk () k1" using cLex_sees [OF k0(1)] by (simp add: k1_def)
  have k1: "sees k1 (map token_value (exp_tokens e) @ [])" "k_fs k1 = g # fs" using sees_Cons [OF k0(1)] t
      by (simp_all add: k1_def k0_def)
  have g: "fits g e" "settled g" using f ln(1) settled_with_line [of f s li line] by (auto simp: g_def fits_def ready_def)
  have "prevtoken (k_lex k1) = TK_RETURN" using sees_prev [of k0 "[]" "(TK_RETURN, ONull)" t us] k0 by (simp add: k1_def)
  then have eos: "IsEndOfStatement k1 = COk False k1" using t(2) by (auto simp: IsEndOfStatement_def k1_def tok_def)
  obtain st where st: "table_inv st" "compile (Suc n') NExpression k1 = COk () (parsed k1 g fs e 0 st (k_es k1))"
    using expression_compiles [OF n'(2) k1 g(1)] by (auto simp: closes_def)
  let ?k2 = "parsed k1 g fs e 0 st (k_es k1)" and ?d = "length (f_vlocals g)"
  have c: "compile (Suc (Suc n')) NCommaExpr k1 = COk () ?k2" by (rule CommaExpr_run [OF st(2)]) (simp add: closes_def)
  let ?re = "GetCurrentPos g + 1"
  define h where "h = used g (regs e) (code (reg_of g) ?d e) (temps e = 1 \<or> f_optimization g) st"
  have ok: "exp_ok (known g) e" "f_traps g = 0" using f by (simp_all add: g_def ready_def)
  have pop: "PopTarget ((grown g e st)\<lparr>f_returnexp := ?re\<rparr>) = Some (int (target (reg_of g) ?d e), h\<lparr>f_returnexp := ?re\<rparr>)"
    by (simp only: PopTarget_returnexp PopTarget_grown [OF ok(1)] h_def option.map prod.case)
  have tr: "f_traps (grown g e st) = 0" using ok(2) by (simp add: grown_def Let_def)
  have emit: "AddInstruction p (Instr OP_RETURN 1 (int (target (reg_of g) ?d e)) (int ?d) 0) (h\<lparr>f_returnexp := ?re\<rparr>) =
      Some ((answered g e st ?re)\<lparr>f_optimization := True\<rparr>)" for p
    unfolding h_def by (rule emit_return [OF g(2) refl])
  have same: "k1\<lparr>k_fs := g # fs\<rparr> = k1" using k1(2) by (cases k1) simp
  have hd: "length (f_vlocals h) = ?d" by (simp add: h_def)
  have "ReturnStatement (compile (Suc (Suc n'))) TK_RETURN k0 = COk () (?k2\<lparr>k_fs := (answered g e st ?re)\<lparr>f_optimization := True\<rparr> # fs\<rparr>)"
    unfolding ReturnStatement_def
    by (simp add: Let_def cseq_Cons cthen_eval cbind_def L eos position_def fs_get_def fs_act_def k1(2) same c tr fs_mod_def
        pop_target_def fs_opt_def pop GetStackSize_def hd emit_def add_instr_def emit del: compile.simps)
  moreover have "compile n (NStatement True) k = Statement (compile (Suc (Suc n'))) True k"
    unfolding n'(1) compile.simps(2) [of "Suc (Suc n')"] by (simp add: nt_step_def del: compile.simps)
  ultimately have "compile n (NStatement True) k = snooze (?k2\<lparr>k_fs := (answered g e st ?re)\<lparr>f_optimization := True\<rparr> # fs\<rparr>)"
    unfolding Statement_def ln(2) g_def [symmetric] k0_def [symmetric]
    by (simp add: cbind_def k0(2) cseq_Cons cthen_eval tok_def del: compile.simps)
  also have "\<dots> = COk () (?k2\<lparr>k_fs := answered g e st ?re # fs\<rparr>)"
    using snooze_run [of "?k2\<lparr>k_fs := (answered g e st ?re)\<lparr>f_optimization := True\<rparr> # fs\<rparr>"] by (simp add: answered_def used_def)
  also have "?k2\<lparr>k_fs := answered g e st ?re # fs\<rparr> = (later (1 + length (exp_tokens e)) 0 k)\<lparr>k_fs := answered g e st ?re # fs\<rparr>"
  proof -
    have "(later m t k)\<lparr>k_es := k_es k\<rparr> = later m t k" for m t by (cases k) (simp add: later_def)
    then show ?thesis by (simp add: parsed_def k1_def k0_def later_upd later_later)
  qed
  finally show ?thesis unfolding g_def using st(1) ln(1) by blast
qed

section \<open>The main loop\<close>

fun budget :: "(string \<times> exp) list \<Rightarrow> exp \<Rightarrow> nat" where
  "budget [] e = 6 * exp_depth e + 8"
| "budget ((x, a) # ds) e = Suc (max (6 * exp_depth a + 6) (budget ds e))"

text \<open>The state of \<open>main\<close> after its statements.\<close>

definition finished :: "fstate \<Rightarrow> localvar list \<Rightarrow> instr list \<Rightarrow> nat \<Rightarrow> lvtable \<Rightarrow> lineinfo list \<Rightarrow> int \<Rightarrow> int \<Rightarrow> fstate" where
  "finished f vl is n st li ln re = f\<lparr>f_vlocals := vl, f_instructions := f_instructions f @ is, f_stacksize := max (f_stacksize f) n,
     f_strings := st, f_lineinfos := li, f_lastline := ln, f_returnexp := re, f_optimization := False\<rparr>"

lemma finished_new_var:
  "finished (new_var (with_line f s li line) x a l st False) vl is n st' li' ln re =
   finished f vl (s @ decl_code (reg_of f) (length (f_vlocals f)) a @ is) (max (length (f_vlocals f) + max 1 (regs a)) n) st' li' ln re"
  by (simp add: finished_def new_var_def max.assoc) (simp add: with_line_def)

lemma finished_answered:
  "\<exists>li' ln. (answered (with_line f s li line) e st re) = finished f (f_vlocals f) (s @ code (reg_of f) (length (f_vlocals f)) e @
     [Instr OP_RETURN 1 (int (target (reg_of f) (length (f_vlocals f)) e)) (int (length (f_vlocals f))) 0])
     (length (f_vlocals f) + regs e) st li' ln re"
  by (intro exI [of _ li] exI [of _ line]) (simp add: finished_def answered_def used_def, simp add: with_line_def)

lemma statement_end_semicolon:
  assumes "k_token k = 59" "prevtoken (k_lex k) \<notin> {125, 59}" "cLex k = COk () k'"
  shows "statement_end k = COk () k'"
  using assms by (simp add: statement_end_def cbind_def tok_def OptionalSemicolon_def)

lemma statement_end_eof: "k_token k = 0 \<Longrightarrow> statement_end k = COk () k"
  by (simp add: statement_end_def cbind_def tok_def OptionalSemicolon_def IsEndOfStatement_def cwhen_def)

lemma main_turn:
  assumes "k_token k > 0" "compile n (NStatement True) k = COk () k1" "statement_end k1 = COk () k2"
  shows "compile (Suc n) NMain k = compile n NMain k2"
  using assms by (simp add: nt_step_def main_loop_def cbind_def cseq_Cons cthen_eval)

lemma exp_ok_mono: "exp_ok X e \<Longrightarrow> X \<subseteq> Y \<Longrightarrow> exp_ok Y e"
  by (induction e) auto

lemma main_loop_run:
  "budget ds e \<le> n \<Longrightarrow> sees k (map token_value (concat (map decl_tokens ds) @ SName ''return'' # exp_tokens e)) \<Longrightarrow>
   k_fs k = [f] \<Longrightarrow> ready f \<Longrightarrow> decls_ok (known f) (length (f_vlocals f)) ds e \<Longrightarrow>
   \<exists>k' vl is st li ln re. compile n NMain k = COk () k' \<and> k_vm k' = k_vm k \<and> k_token k' = 0 \<and>
     k_fs k' = [finished f vl is (max_regs (length (f_vlocals f)) ds e) st li ln re] \<and> table_inv st \<and>
     program_code (reg_of f) (length (f_vlocals f)) ds e is"
proof (induction ds arbitrary: n k f)
  case Nil
  obtain n' where n': "n = Suc (Suc n')" "6 * exp_depth e + 6 \<le> Suc n'" using Nil.prems(1) by (intro that [of "n - 2"]) auto
  have ret: "token_value (SName ''return'') = (TK_RETURN, ONull)" by (simp add: keyword_list_def)
  have s: "sees k ((TK_RETURN, ONull) # map token_value (exp_tokens e))" using Nil.prems(2) ret by simp
  from return_statement [OF n'(2) s Nil.prems(3,4)] Nil.prems(5) obtain s li line st re where
    r: "lines s" "table_inv st" "compile (Suc n') (NStatement True) k =
      COk () ((later (1 + length (exp_tokens e)) 0 k)\<lparr>k_fs := [answered (with_line f s li line) e st re]\<rparr>)" by auto
  let ?k = "(later (1 + length (exp_tokens e)) 0 k)\<lparr>k_fs := [answered (with_line f s li line) e st re]\<rparr>"
  have "compile n NMain k = compile (Suc n') NMain ?k"
    unfolding n'(1) by (rule main_turn [OF _ r(3)]) (use sees_token [OF s] in \<open>simp_all add: statement_end_eof\<close>)
  then have c: "compile n NMain k = COk () ?k" by (simp add: nt_step_def main_loop_def cbind_def)
  obtain li' ln where a: "answered (with_line f s li line) e st re = finished f (f_vlocals f)
      (s @ code (reg_of f) (length (f_vlocals f)) e @ [Instr OP_RETURN 1 (int (target (reg_of f) (length (f_vlocals f)) e))
        (int (length (f_vlocals f))) 0]) (length (f_vlocals f) + regs e) st li' ln re"
    using finished_answered by blast
  have p: "program_code (reg_of f) (length (f_vlocals f)) [] e (s @ code (reg_of f) (length (f_vlocals f)) e @
      [Instr OP_RETURN 1 (int (target (reg_of f) (length (f_vlocals f)) e)) (int (length (f_vlocals f))) 0])"
    using r(1) by auto
  have "k_fs ?k = [finished f (f_vlocals f) (s @ code (reg_of f) (length (f_vlocals f)) e @
      [Instr OP_RETURN 1 (int (target (reg_of f) (length (f_vlocals f)) e)) (int (length (f_vlocals f))) 0])
      (max_regs (length (f_vlocals f)) [] e) st li' ln re]" using a by simp
  moreover have "k_vm ?k = k_vm k" "k_token ?k = 0" by (simp_all add: later_def)
  ultimately show ?case using c p r(2) by blast
next
  case (Cons xa ds)
  obtain x a where xa: "xa = (x, a)" by (cases xa)
  obtain n' where n': "n = Suc n'" "6 * exp_depth a + 5 \<le> n'" "budget ds e \<le> n'"
    using Cons.prems(1) xa by (intro that [of "n - 1"]) auto
  define us where "us = map token_value (concat (map decl_tokens ds) @ SName ''return'' # exp_tokens e)"
  have s: "sees k (map token_value (decl_tokens (x, a)) @ us)" using Cons.prems(2) by (simp add: xa us_def)
  let ?d = "length (f_vlocals f)"
  have ok: "exp_ok (known f) a" "name_ok x" "?d + max 1 (regs a) \<le> 255" "decls_ok (insert x (known f)) (?d + 1) ds e"
    using Cons.prems(5) by (simp_all add: xa)
  obtain s1 li line l st where d: "lines s1" "lv_name l = OString x" "lv_end l = 0" "table_inv st" "compile n' (NStatement True) k =
      COk () ((later (3 + length (exp_tokens a)) 59 k)\<lparr>k_fs := [new_var (with_line f s1 li line) x a l st False]\<rparr>)"
    using decl_statement [OF n'(2) s Cons.prems(3,4) ok(1-3)] by blast
  define g where "g = new_var (with_line f s1 li line) x a l st False"
  let ?k1 = "(later (3 + length (exp_tokens a)) 59 k)\<lparr>k_fs := [g]\<rparr>" and ?k2 = "(later (4 + length (exp_tokens a)) (first_token us) k)\<lparr>k_fs := [g]\<rparr>"
  obtain t ts where t: "map token_value (exp_tokens a) = ts @ [t]" "fst t \<in> {TK_INTEGER, TK_IDENTIFIER, 41}"
    using exp_tokens_ends(2) [OF ok(1)] by metis
  let ?vs = "map token_value [SName ''var'', SName x, SOp ''='' 61] @ ts"
  have v: "map token_value (decl_tokens (x, a)) @ us = ?vs @ t # (59, ONull) # us" using t(1) by simp
  have lt: "length (exp_tokens a) = Suc (length ts)" using arg_cong [OF t(1), of length] by simp
  have k1: "sees ?k1 ((59, ONull) # us)"
    using sees_later [of k "?vs @ [t]" "(59, ONull) # us"] s v lt by (simp add: eval_nat_numeral)
  have "prevtoken (k_lex ?k1) = fst t"
    using sees_prev [of k ?vs t "(59, ONull)" us] s v lt by (simp add: eval_nat_numeral)
  then have "statement_end ?k1 = COk () (later 1 (first_token us) ?k1)"
    using t(2) cLex_sees [OF k1] by (intro statement_end_semicolon) auto
  moreover have "later 1 (first_token us) ?k1 = ?k2" by (simp add: later_upd later_later eval_nat_numeral)
  ultimately have "statement_end ?k1 = COk () ?k2" by simp
  moreover have "0 < k_token k" using sees_token [OF s] by (simp add: keyword_list_def)
  ultimately have turn: "compile n NMain k = compile n' NMain ?k2"
    using main_turn [of k n' ?k1 ?k2] d(5) by (simp add: n'(1) g_def)
  have k2: "sees ?k2 us" "k_fs ?k2 = [g]" using sees_Cons [OF k1] by (simp_all add: later_upd later_later eval_nat_numeral)
  have gv: "f_vlocals g = f_vlocals f @ [l]" "f_strings g = st" "f_traps g = f_traps f" "\<not> f_optimization g"
    "f_stacksize g = max (f_stacksize f) (?d + max 1 (regs a))" by (simp_all add: g_def new_var_def)
  have kg: "reg_of g = (reg_of f)(x := ?d)" "known g = insert x (known f)" by (rule known_snoc [OF gv(1) d(2)])+
  have "ready g" using Cons.prems(4) ok(3) gv d(4) by (auto simp: ready_def quiet_def)
  moreover have "decls_ok (known g) (length (f_vlocals g)) ds e" using ok(4) by (simp add: kg gv)
  ultimately obtain k' vl "is" st' li' ln re where r: "compile n' NMain ?k2 = COk () k'" "k_vm k' = k_vm ?k2" "k_token k' = 0"
    "k_fs k' = [finished g vl is (max_regs (length (f_vlocals g)) ds e) st' li' ln re]" "table_inv st'"
    "program_code (reg_of g) (length (f_vlocals g)) ds e is"
    using Cons.IH [folded us_def, OF n'(3) k2] by blast
  let ?is = "s1 @ decl_code (reg_of f) ?d a @ is"
  have "program_code (reg_of f) ?d (xa # ds) e ?is" using d(1) r(6) by (auto simp: xa kg gv)
  moreover have "finished g vl is (max_regs (length (f_vlocals g)) ds e) st' li' ln re =
      finished f vl ?is (max_regs ?d (xa # ds) e) st' li' ln re"
    by (simp add: g_def finished_new_var) (simp add: xa new_var_def)
  moreover have "k_vm k' = k_vm k" using r(2) by (simp add: later_def)
  ultimately show ?case using r(1,3,4,5) turn by metis
qed

lemma main_state_run:
  "\<exists>f. main_state src = Some f \<and> ready f \<and> length (f_vlocals f) = 2 \<and> f_instructions f = [] \<and> f_stacksize f = 2 \<and>
     f_bgenerator f = False \<and> f_varparams f \<and> f_literals f = table_create 0 \<and> f_nliterals f = 0 \<and>
         f_parameters f = [OString ''this'', OString ''vargv''] \<and>
     f_functions f = [] \<and> f_outervalues f = [] \<and> f_defaultparams f = []"
proof -
  obtain b1 s1 where s1: "table_NewSlot (table_create 0) (OString ''this'') (OInteger 1) = Some (b1, s1)" "table_inv s1"
    using table_NewSlot_ok [OF table_create_ok(1)] by blast
  obtain b2 s2 where s2: "table_NewSlot s1 (OString ''vargv'') (OInteger 1) = Some (b2, s2)" "table_inv s2"
    using table_NewSlot_ok [OF s1(2)] by blast
  show ?thesis
    using s1 s2
        by (simp add: main_state_def fs_CreateString_def fstate_create_def AddParameter_def PushLocalVariable_def Let_def
        ready_def quiet_def)
qed

lemma pop_local_frees: "\<exists>vl li n. pop_local g = g\<lparr>f_vlocals := vl, f_localvarinfos := li, f_outers := n\<rparr>"
proof (cases "lv_name (last (f_vlocals g)) = ONull")
  case True
  then have "pop_local g = g\<lparr>f_vlocals := butlast (f_vlocals g), f_localvarinfos := f_localvarinfos g, f_outers := f_outers g\<rparr>"
    by (simp add: pop_local_def Let_def)
  then show ?thesis by blast
next
  case False
  let ?l = "last (f_vlocals g)"
  from False have "pop_local g = g\<lparr>f_vlocals := butlast (f_vlocals g),
      f_localvarinfos := f_localvarinfos g @ [?l\<lparr>lv_end := of_int (GetCurrentPos g)\<rparr>],
      f_outers := f_outers g - (if is_outer_local ?l then 1 else 0)\<rparr>"
    by (simp add: pop_local_def Let_def)
  then show ?thesis by blast
qed

lemma SetStackSize_frees: "\<exists>vl li n. SetStackSize m f = f\<lparr>f_vlocals := vl, f_localvarinfos := li, f_outers := n\<rparr>"
proof -
  have "\<exists>vl li n. (pop_local ^^ j) f = f\<lparr>f_vlocals := vl, f_localvarinfos := li, f_outers := n\<rparr>" for j
  proof (induction j)
    case 0
    show ?case by (intro exI [of _ "f_vlocals f"] exI [of _ "f_localvarinfos f"] exI [of _ "f_outers f"]) simp
  next
    case (Suc j)
    then obtain vl li n where "(pop_local ^^ j) f = f\<lparr>f_vlocals := vl, f_localvarinfos := li, f_outers := n\<rparr>" by blast
    with pop_local_frees [of "(pop_local ^^ j) f"] obtain vl' li' n' where
      "pop_local ((pop_local ^^ j) f) = (f\<lparr>f_vlocals := vl, f_localvarinfos := li, f_outers := n\<rparr>)\<lparr>f_vlocals := vl', f_localvarinfos := li', f_outers := n'\<rparr>"
      by metis
    then show ?case by auto
  qed
  then show ?thesis by (simp add: SetStackSize_def)
qed

definition proto_of :: "program \<Rightarrow> funcproto \<Rightarrow> bool" where
  "proto_of p q \<longleftrightarrow> p_stacksize q = int (max 2 (max_regs 2 (decls p) (answer p))) \<and> \<not> p_bgenerator q \<and> p_varparams q \<and>
     length (p_parameters q) = 2 \<and> (\<exists>r is rest. program_code r 2 (decls p) (answer p) is \<and> p_instructions q = is @ rest)"

text \<open>The end of \<open>main\<close>, behind its statements.\<close>

definition main_end :: "nat \<Rightarrow> lvobj cm" where
  "main_end stacksize = cthen (cseq [fs_mod (SetStackSize stacksize),
     cbind (cget (\<lambda>k. currentline (k_lex k))) (\<lambda>line. line_info line True), emit OP_RETURN 0xFF 0 0 0, fs_mod (SetStackSize 0)]) build_proto"

lemma build_proto_run:
  assumes "k_fs k = f # fs" "f_literals f = table_create 0" "f_nliterals f = 0" "v_free (k_vm k) = a # free"
  shows "build_proto k = COk (ORef RFuncProto a) (k\<lparr>k_vm := put a (HProto \<lparr>p_sourcename = f_sourcename f, p_name = f_name f,
    p_stacksize = int (f_stacksize f), p_bgenerator = f_bgenerator f, p_varparams = f_varparams f,
    p_localvarinfos = f_localvarinfos f, p_lineinfos = f_lineinfos f, p_literals = [],
    p_parameters = f_parameters f, p_functions = f_functions f, p_outervalues = f_outervalues f,
    p_defaultparams = f_defaultparams f, p_instructions = f_instructions f\<rparr>) ((k_vm k)\<lparr>v_free := free\<rparr>)\<rparr>)"
proof -
  have "next_from False wr (table_create 0) 0 = None" for wr
    by (simp add: next_from_def table_create_def AllocNodes_def empty_node_def find_None_iff split: option.split)
  then have "literal_loop wr (table_create 0) 0 (replicate (nat 0) ONull) = Some []" for wr
    by (subst literal_loop.simps) simp
  then show ?thesis by (simp add: build_proto_def assms BuildProto_def alloc_def)
qed

lemma main_end_run:
  assumes "k_fs k = [f]" "quiet f" "f_literals f = table_create 0" "f_nliterals f = 0" "v_free (k_vm k) = a # free"
  shows "\<exists>k' q rest. main_end m k = COk (ORef RFuncProto a) k' \<and> k_vm k' = put a (HProto q) ((k_vm k)\<lparr>v_free := free\<rparr>) \<and>
    p_stacksize q = int (f_stacksize f) \<and> p_bgenerator q = f_bgenerator f \<and> p_varparams q = f_varparams f \<and>
    p_parameters q = f_parameters f \<and> p_instructions q = f_instructions f @ rest"
proof -
  obtain vl li n where f1: "SetStackSize m f = f\<lparr>f_vlocals := vl, f_localvarinfos := li, f_outers := n\<rparr>"
      using SetStackSize_frees by blast
  define g where "g = f\<lparr>f_vlocals := vl, f_localvarinfos := li, f_outers := n\<rparr>"
  let ?k1 = "k\<lparr>k_fs := [g]\<rparr>"
  have k1: "fs_mod (SetStackSize m) k = COk () ?k1" by (simp add: fs_mod_def fs_act_def assms(1) f1 g_def)
  have "quiet g" using assms(2) by (simp add: quiet_def g_def)
  from line_info_run [OF this, of ?k1 "[]", where line = "currentline (k_lex k)" and force = True] obtain s li2 where s: "lines s" "line_info (currentline (k_lex k)) True ?k1 =
      COk () (?k1\<lparr>k_fs := [with_line g s li2 (currentline (k_lex k))]\<rparr>)" by (auto simp: with_line_def)
  define h where "h = with_line g s li2 (currentline (k_lex k))"
  have "settled h" unfolding h_def by (rule settled_with_line [OF \<open>quiet g\<close> s(1)])
  then have e: "AddInstruction p (Instr OP_RETURN 0xFF 0 0 0) h =
      Some (h\<lparr>f_instructions := f_instructions h @ [Instr OP_RETURN 0xFF 0 0 0], f_optimization := True\<rparr>)" for p
    by (rule AddInstruction_settled) simp
  define j where "j = h\<lparr>f_instructions := f_instructions h @ [Instr OP_RETURN 0xFF 0 0 0], f_optimization := True\<rparr>"
  obtain vl3 li3 n3 where f3: "SetStackSize 0 j = j\<lparr>f_vlocals := vl3, f_localvarinfos := li3, f_outers := n3\<rparr>"
    using SetStackSize_frees by blast
  define u where "u = j\<lparr>f_vlocals := vl3, f_localvarinfos := li3, f_outers := n3\<rparr>"
  let ?k2 = "k\<lparr>k_fs := [u]\<rparr>"
  have k2: "emit OP_RETURN 0xFF 0 0 0 (k\<lparr>k_fs := [h]\<rparr>) = COk () (k\<lparr>k_fs := [j]\<rparr>)"
    by (simp add: emit_def add_instr_def fs_act_def e j_def)
  have k3: "fs_mod (SetStackSize 0) (k\<lparr>k_fs := [j]\<rparr>) = COk () ?k2" by (simp add: fs_mod_def fs_act_def f3 u_def)
  have "main_end m k = build_proto ?k2"
    by (simp add: main_end_def cseq_Cons cthen_assoc cthen_eval k1 cbind_def s(2) h_def [symmetric] k2 k3)
  moreover have "f_literals u = table_create 0" "f_nliterals u = 0" "f_stacksize u = f_stacksize f" "f_bgenerator u = f_bgenerator f"
    "f_varparams u = f_varparams f" "f_parameters u = f_parameters f"
    "f_instructions u = f_instructions f @ s @ [Instr OP_RETURN 0xFF 0 0 0]"
    using assms(3,4) by (simp_all add: u_def j_def h_def with_line_def g_def)
  ultimately show ?thesis using build_proto_run [of ?k2 u "[]" a free] assms(5) by auto
qed

lemma op_token_ok: "token_ok (op_token p)"
  by (cases p) (simp_all add: operator_list_def)

lemma exp_tokens_ok: "exp_ok X e \<Longrightarrow> t \<in> set (exp_tokens e) \<Longrightarrow> token_ok t"
  by (induction e) (auto simp: name_ok_def op_token_ok, simp_all add: operator_list_def)

lemma word_tokens_ok: "token_ok (SName ''var'')" "token_ok (SName ''return'')"
  by (simp_all add: idchar_def scisalnum_def scisalpha_def scisdigit_def tok_def)

lemma decls_tokens_ok:
  "decls_ok X d ds e \<Longrightarrow> t \<in> set (concat (map decl_tokens ds) @ SName ''return'' # exp_tokens e) \<Longrightarrow> token_ok t"
proof (induction X d ds e rule: decls_ok.induct)
  case (1 X d e)
  then show ?case using exp_tokens_ok word_tokens_ok(2) by auto
next
  case (2 X d x a ds e)
  then have "t \<in> set (exp_tokens a) \<or> t \<in> {SName ''var'', SName x, SOp ''='' 61, SOp '';'' 59} \<or>
      t \<in> set (concat (map decl_tokens ds) @ SName ''return'' # exp_tokens e)" by simp blast
  moreover have "token_ok (SName x)" "token_ok (SOp ''='' 61)" "token_ok (SOp '';'' 59)"
    using 2 by (auto simp: name_ok_def operator_list_def)
  moreover have "exp_ok X a" "decls_ok (insert x X) (d + 1) ds e" using 2 by simp_all
  ultimately show ?case using "2.IH" exp_tokens_ok [of X a t] word_tokens_ok(1) by blast
qed

lemma program_tokens_ok: "program_ok p \<Longrightarrow> \<forall>t \<in> set (program_tokens p). token_ok t"
  using decls_tokens_ok by (auto simp: program_ok_def program_tokens_def)

lemma decls_ok_mono: "decls_ok X d ds e \<Longrightarrow> X \<subseteq> Y \<Longrightarrow> decls_ok Y d ds e"
proof (induction X d ds e arbitrary: Y rule: decls_ok.induct)
  case (2 X d x a ds e)
  have x: "exp_ok X a" "name_ok x" "d + max 1 (regs a) \<le> 255" "decls_ok (insert x X) (d + 1) ds e"
    using "2.prems"(1) by simp_all
  have "decls_ok (insert x Y) (d + 1) ds e" using "2.prems"(2) by (intro "2.IH" [OF x(4)]) auto
  then show ?case using x(2,3) exp_ok_mono [OF x(1) "2.prems"(2)] by simp
qed (auto intro: exp_ok_mono)

text \<open>The budgets are bounded by the length of the text.\<close>

lemma exp_depth_tokens: "exp_depth e \<le> length (exp_tokens e)"
  by (induction e) auto

lemma budget_tokens: "budget ds e \<le> 6 * length (concat (map decl_tokens ds) @ SName ''return'' # exp_tokens e) + 2"
proof (induction ds)
  case Nil
  then show ?case using exp_depth_tokens [of e] by simp
next
  case (Cons xa ds)
  then show ?case using exp_depth_tokens [of "snd xa"] by (cases xa) simp
qed

lemma show_tokens_length:
  assumes "\<forall>t \<in> set ts. token_ok t" shows "2 * length ts \<le> length (show_tokens ts)"
  using assms
proof (induction ts)
  case (Cons t ts)
  have "token_ok t" using Cons.prems by simp
  then have "show_token t \<noteq> []"
  proof (cases t)
    case (SInt n)
    then show ?thesis using dec_digits_first [of "unat n"] by auto
  qed (auto simp: operator_list_def)
  then show ?case using Cons by (cases "show_token t") (simp_all add: show_tokens_def)
qed (simp add: show_tokens_def)

lemma program_length: "program_ok p \<Longrightarrow> 2 * length (program_tokens p) \<le> length (program_text p)"
  unfolding program_text_def by (rule show_tokens_length [OF program_tokens_ok])

lemma budget_text: "program_ok p \<Longrightarrow> budget (decls p) (answer p) \<le> 40 * length (program_text p) + 20"
  using budget_tokens [of "decls p" "answer p"] program_length [of p] by (simp add: program_tokens_def)

lemma code_tokens: "length (code r d e) \<le> length (exp_tokens e)"
proof (induction e arbitrary: d)
  case (Bin p a b)
  show ?case using add_mono [OF Bin.IH(1) [of d] Bin.IH(2) [of "d + temps a"]] by simp
qed simp_all

lemma program_code_tokens:
  "program_code r d ds e is \<Longrightarrow> length is \<le> length (concat (map decl_tokens ds) @ SName ''return'' # exp_tokens e) + 1"
proof (induction r d ds e "is" rule: program_code.induct)
  case (1 r d e "is")
  then show ?case using code_tokens [of r d e] by (auto simp: lines_def)
next
  case (2 r d x a ds e "is")
  then obtain s is' where "lines s" "is = s @ decl_code r d a @ is'" "program_code (r(x := d)) (d + 1) ds e is'" by auto
  moreover have "length is' \<le> length (concat (map decl_tokens ds) @ SName ''return'' # exp_tokens e) + 1"
    by (rule "2.IH") fact
  ultimately show ?case using code_tokens [of r d a] by (auto simp: lines_def)
qed

lemma RunCompiler_program:
  assumes p: "program_ok p" and n: "budget (decls p) (answer p) \<le> n" and v: "v_free v = a # free"
  shows "\<exists>q. RunCompiler n v consts (map tok (program_text p)) l E t src lineinfo =
      Inr (Some (ORef RFuncProto a), put a (HProto q) (v\<lparr>v_free := free\<rparr>)) \<and> proto_of p q"
proof -
  let ?ts = "program_tokens p" and ?us = "map token_value (program_tokens p)"
  have tok: "\<forall>t \<in> set ?ts. token_ok t" by (rule program_tokens_ok [OF p])
  obtain b where b: "Init (map tok (program_text p)) l = LOk (at b (program_text p))" "kwtable b = keyword_table"
    using Init_at [OF show_tokens_EOB [OF tok], of l] by (auto simp: program_text_def)
  have y: "yields (at b (program_text p)) ?us" using yields_shown [OF tok b(2)] by (simp add: program_text_def)
  obtain f where f: "main_state src = Some f" "ready f" "length (f_vlocals f) = 2" "f_instructions f = []" "f_stacksize f = 2"
    "f_bgenerator f = False" "f_varparams f" "f_literals f = table_create 0" "f_nliterals f = 0"
    "f_parameters f = [OString ''this'', OString ''vargv'']"
    using main_state_run by blast
  define k where "k = \<lparr>k_token = t, k_lex = at b (program_text p), k_fs = [f], k_es = E, k_scope = \<lparr>sc_outers = 0, sc_stacksize = 0\<rparr>,
    k_lineinfo = lineinfo, k_sourcename = src, k_consts = consts, k_vm = v\<rparr>"
  have k: "new_compiler v consts (map tok (program_text p)) l E t src lineinfo = Some k"
    by (simp add: new_compiler_def b(1) f(1) k_def)
  define k1 where "k1 = later 1 (first_token ?us) k"
  have ne: "?us \<noteq> []" by (simp add: program_tokens_def)
  then have L: "cLex k = COk () k1" using y by (cases ?us) (auto simp: cLex_def k_def k1_def later_def)
  have k1: "sees k1 ?us" "k_fs k1 = [f]" using y by (auto simp: sees_def k1_def later_def k_def)
  have ok: "decls_ok (known f) (length (f_vlocals f)) (decls p) (answer p)"
    using decls_ok_mono [of "{}" 2 "decls p" "answer p" "known f"] p by (simp add: program_ok_def f(3))
  from main_loop_run [OF n k1(1) [unfolded program_tokens_def] k1(2) f(2) ok] obtain k' vl "is" st li ln re where
    r: "compile n NMain k1 = COk () k'" "k_vm k' = k_vm k1" "k_fs k' = [finished f vl is (max_regs 2 (decls p) (answer p)) st li ln re]"
    "program_code (reg_of f) 2 (decls p) (answer p) is" by (auto simp: f(3))
  have "quiet (finished f vl is (max_regs 2 (decls p) (answer p)) st li ln re)" by (simp add: quiet_def finished_def)
  then obtain k2 q rest where e: "main_end 2 k' = COk (ORef RFuncProto a) k2" "k_vm k2 = put a (HProto q) ((k_vm k')\<lparr>v_free := free\<rparr>)"
    "p_stacksize q = int (max 2 (max_regs 2 (decls p) (answer p)))" "\<not> p_bgenerator q" "p_varparams q" "length (p_parameters q) = 2"
    "p_instructions q = is @ rest"
    using main_end_run [of k' _ a free 2] r(2,3) v f by (auto simp: finished_def k1_def later_def k_def)
  have "proto_of p q" using e(3-7) r(4) by (auto simp: proto_of_def)
  moreover have "main_body n k = main_end 2 k'"
    by (simp add: main_body_def cbind_def fs_get_def fs_act_def k_def GetStackSize_def f(3) cseq_Cons cthen_assoc main_end_def)
      (simp add: cthen_eval L [unfolded k_def] r(1) cbind_def)
  ultimately show ?thesis using e(1,2) r(2) by (auto simp: RunCompiler_def k StartCompiler_def k1_def later_def k_def)
qed

end
