(* ===== verification/Straight_Run.thy ===== *)
theory Straight_Run
  imports Straight_Line Execute
begin

text \<open>
  Running \<open>program_code\<close> on the interpreter: it computes what \<open>value_of\<close> says (\<open>exec_program\<close>).
\<close>

section \<open>Running the instructions of an expression\<close>

text \<open>The machine with another stack, at another instruction of its running frame.\<close>

definition conf :: "vm \<Rightarrow> callinfo \<Rightarrow> callinfo list \<Rightarrow> lvobj list \<Rightarrow> nat \<Rightarrow> vm" where
  "conf v c cs S ip = v\<lparr>v_stack := S, v_calls := c\<lparr>ci_ip := int ip\<rparr> # cs\<rparr>"

definition runs :: "vm \<Rightarrow> callinfo \<Rightarrow> instr list \<Rightarrow> bool" where
  "runs v c is \<longleftrightarrow> (\<exists>a clo f. ci_closure c = ORef RClosure a \<and> get_closure v a = Some clo \<and>
      get_proto v (c_function clo) = Some f \<and>
     p_instructions f = is)"

lemma runs_proto: "runs v c is \<Longrightarrow> \<exists>f. ci_proto (conf v c cs S ip) = Some f \<and> p_instructions f = is"
  by (auto simp: runs_def ci_proto_def ci_lvclosure_def ci_def conf_def get_closure_def get_proto_def)

lemma step_conf:
  assumes "runs v c is" "ip < length is"
  shows "exec_step native call traps (conf v c cs S ip) = exec_instr native call (is ! ip) traps (conf v c cs S (ip + 1))"
proof -
  obtain f where "ci_proto (conf v c cs S ip) = Some f" "p_instructions f = is" using runs_proto [OF assms(1)] by blast
  then have "fetch (conf v c cs S ip) = Some (is ! ip, conf v c cs S (ip + 1))"
    using assms(2) by (simp add: fetch_def ci_def conf_def nth_opt_def jump_def set_ci_def add.commute)
  then show ?thesis by (simp add: exec_step_def)
qed

lemma conf_stack [simp]: "v_stack (conf v c cs S ip) = S" "v_stackbase (conf v c cs S ip) = v_stackbase v"
  by (simp_all add: conf_def)

lemma set_stk_conf:
  "v_stackbase v = int b \<Longrightarrow> b + r < length S \<Longrightarrow> set_stk (int r) x (conf v c cs S ip) = Some (conf v c cs (S[b + r := x]) ip)"
  by (simp add: set_stk_def set_stack_def conf_def nat_add_distrib)

lemma stk_conf: "v_stackbase v = int b \<Longrightarrow> b + r < length S \<Longrightarrow> stk (conf v c cs S ip) (int r) = Some (S ! (b + r))"
  by (simp add: stk_def at_stack_def nat_add_distrib)

lemma operands [simp]:
  "0 \<le> n \<Longrightarrow> n < 256 \<Longrightarrow> arg0 (Instr p n y z w) = n" "0 \<le> n \<Longrightarrow> n < 2147483648 \<Longrightarrow> arg1 (Instr p x n z w) = n"
  "0 \<le> n \<Longrightarrow> n < 256 \<Longrightarrow> arg2 (Instr p x y n w) = n" "iop (Instr p x y z w) = p" "iarg3 (Instr p x y z w) = of_int w"
  "iarg1 (Instr p x y z w) = of_int y"
  by (simp_all add: arg0_def arg1_def arg2_def Instr_def unsigned_of_int take_bit_int_eq_self signed_of_int signed_take_bit_int_eq_self_iff)

text \<open>Where a run gets to, whatever fuel is left: another place of the code, or an exception.\<close>

definition reaches :: "nativefn \<Rightarrow> callfn \<Rightarrow> bool \<Rightarrow> int \<Rightarrow> nat \<Rightarrow> vm \<Rightarrow> vm \<Rightarrow> bool" where
  "reaches native call re tr k u w \<longleftrightarrow> (\<forall>m. run (k + m) native call re tr u = run m native call re tr w)"

definition throws :: "nativefn \<Rightarrow> callfn \<Rightarrow> bool \<Rightarrow> int \<Rightarrow> nat \<Rightarrow> vm \<Rightarrow> vm_error \<Rightarrow> vm \<Rightarrow> bool" where
  "throws native call re tr k u x w \<longleftrightarrow>
     (\<forall>m. run (Suc (k + m)) native call re tr u = after_throw call re (run m native call re) tr (raise x w))"

lemma reaches_refl: "reaches native call re tr 0 u u"
  by (simp add: reaches_def)

lemma reaches_trans: "reaches native call re tr j t u \<Longrightarrow> reaches native call re tr k u w \<Longrightarrow> reaches native call re tr (j + k) t w"
  by (simp add: reaches_def add.assoc)

lemma reaches_throws: "reaches native call re tr j t u \<Longrightarrow> throws native call re tr k u x w \<Longrightarrow>
    throws native call re tr (j + k) t x w"
  unfolding reaches_def throws_def by (metis add.assoc add_Suc_right)

lemma reaches_step:
  "exec_step native call tr u = Some (Running tr w) \<Longrightarrow> reaches native call re tr 1 u w"
  by (simp add: reaches_def)

lemma throws_step:
  "exec_step native call tr u = Some (Thrown tr (raise x w)) \<Longrightarrow> throws native call re tr 0 u x w"
  by (simp add: throws_def)

lemma run_LOADINT:
  assumes "runs v c is" "v_stackbase v = int b" "ip < length is" "is ! ip = Instr OP_LOADINT (int d) (int n) 0 0"
    "n < 2 ^ 31" "d \<le> 255" "b + d < length S"
  shows "exec_step native call tr (conf v c cs S ip) = Some (Running tr (conf v c cs (S[b + d := OInteger (of_nat n)]) (ip + 1)))"
proof -
  have "sint (of_nat n :: u32) = int n" using assms(5) by (simp add: signed_of_nat signed_take_bit_int_eq_self_iff)
  then have "sext (of_int (int n)) = of_nat n" by (simp only: sext_def scast_eq of_int_of_nat_eq)
  then show ?thesis
    using assms(6) by (simp add: step_conf [OF assms(1,3)] assms(4) exec_instr_def Let_def exec_loads_def set_target_def go_def
        set_stk_conf [OF assms(2,7)] del: of_int_of_nat_eq)
qed

lemma run_LINE:
  assumes "runs v c is" "ip < length is" "is ! ip = Instr OP_LINE 0 n 0 0"
  shows "exec_step native call tr (conf v c cs S ip) = Some (Running tr (conf v c cs S (ip + 1)))"
  by (simp add: step_conf [OF assms(1,2)] assms(3) exec_instr_def exec_loads_def)

lemma run_MOVE:
  assumes "runs v c is" "v_stackbase v = int b" "ip < length is" "is ! ip = Instr OP_MOVE (int d) (int r) 0 0"
    "d \<le> 255" "r \<le> 255" "b + d < length S" "b + r < length S"
  shows "exec_step native call tr (conf v c cs S ip) = Some (Running tr (conf v c cs (S[b + d := S ! (b + r)]) (ip + 1)))"
  using assms(5,6) by (simp add: step_conf [OF assms(1,3)] assms(4) exec_instr_def Let_def exec_slots_def set_target_def go_def
      set_stk_conf [OF assms(2,7)] stk_conf [OF assms(2,8)])

text \<open>The operators compute what they mean.\<close>

lemma shift_count: "unat (y AND 63 :: u64) = unat y mod 64"
proof -
  have "y AND 63 = take_bit 6 y" by (simp add: take_bit_eq_mask mask_eq_exp_minus_1)
  then show ?thesis by (simp add: take_bit_eq_mod unat_mod_distrib)
qed

lemma shifts:
  "push_bit n (x :: u64) = x * 2 ^ n" "signed_drop_bit n (x :: u64) = word_of_int (sint x div 2 ^ n)"
  "drop_bit n (x :: u64) = word_of_nat (unat x div 2 ^ n)"
proof -
  show "push_bit n x = x * 2 ^ n" by (simp add: push_bit_eq_mult)
  have "word_of_int (sint (signed_drop_bit n x)) = (word_of_int (sint x div 2 ^ n) :: u64)"
    by (simp add: sint_signed_drop_bit_eq drop_bit_eq_div)
  then show "signed_drop_bit n x = word_of_int (sint x div 2 ^ n)" by simp
  show "drop_bit n x = word_of_nat (unat x div 2 ^ n)" by (simp flip: unat_drop)
qed

lemma run_op:
  assumes "runs v c is" "v_stackbase v = int b" "ip < length is"
    "is ! ip = Instr (op_instr p) (int d) (int t2) (int t1) (op_kind p)"
    "d \<le> 255" "t1 \<le> 255" "t2 \<le> 255" "b + d < length S" "b + t1 < length S" "b + t2 < length S"
    "S ! (b + t1) = OInteger x" "S ! (b + t2) = OInteger y"
  shows "op_value p x y = VOk w \<Longrightarrow> exec_step native call tr (conf v c cs S ip) =
      Some (Running tr (conf v c cs (S[b + d := OInteger w]) (ip + 1)))"
    "op_value p x y = VErr e \<Longrightarrow>
        exec_step native call tr (conf v c cs S ip) = Some (Thrown tr (raise e (conf v c cs S (ip + 1))))"
  using assms(5-7)
  by (cases p; auto simp: step_conf [OF assms(1,3)] assms(4,11,12) exec_instr_def Let_def exec_operators_def arith_at_def
      stk_conf [OF assms(2,9)] stk_conf [OF assms(2,10)] vm_ARITH_def vm_ARITH_NOZERO_def vm_BW_OP_def ARITH_macro_def
      ARITH_NOZERO_macro_def of_vres_def ret_def fail_with_def to_target_def set_stk_conf [OF assms(2,8)] quot64_def
      BW_OP_def bw_code_def shift_count shifts split: if_splits)+

text \<open>The variables are in their registers, below the register \<open>d\<close>.\<close>

definition in_regs :: "env \<Rightarrow> (string \<Rightarrow> nat) \<Rightarrow> nat \<Rightarrow> lvobj list \<Rightarrow> nat \<Rightarrow> bool" where
  "in_regs env r b S d \<longleftrightarrow> (\<forall>x w. map_of env x = Some w \<longrightarrow> r x < d \<and> S ! (b + r x) = OInteger w)"

lemma in_regs_keep: "in_regs env r b S d \<Longrightarrow> (\<forall>i < b + d. S' ! i = S ! i) \<Longrightarrow> in_regs env r b S' d"
  by (auto simp: in_regs_def)

lemma in_regs_more: "in_regs env r b S d \<Longrightarrow> in_regs env r b S (d + n)"
  by (force simp: in_regs_def)

definition at_code :: "instr list \<Rightarrow> nat \<Rightarrow> instr list \<Rightarrow> bool" where
  "at_code is ip cs \<longleftrightarrow> (\<exists>rest. drop ip is = cs @ rest)"

lemma at_code_append: "at_code is ip (cs @ ds) \<longleftrightarrow> at_code is ip cs \<and> at_code is (ip + length cs) ds"
proof -
  have "drop (ip + length cs) is = drop (length cs) (drop ip is)" by (simp add: add.commute)
  then show ?thesis by (auto simp: at_code_def simp del: drop_drop)
qed

lemma at_code_Cons: "at_code is ip (i # cs) \<longleftrightarrow> ip < length is \<and> is ! ip = i \<and> at_code is (ip + 1) cs"
  by (cases "ip < length is") (auto simp: at_code_def Cons_nth_drop_Suc [symmetric])

lemma at_code_Nil [simp]: "at_code is ip []"
  by (simp add: at_code_def)

lemma target_bound: "exp_ok X e \<Longrightarrow> \<forall>x \<in> X. r x < d \<Longrightarrow> target r d e < d + temps e"
  by (cases e) auto

text \<open>
  Running \<open>k\<close> instructions from \<open>ip\<close> leaves the result in the slot \<open>t\<close> and the slots below \<open>low\<close> as they were, or raises the error.
\<close>

definition gives_value :: "nativefn \<Rightarrow> callfn \<Rightarrow> bool \<Rightarrow> int \<Rightarrow> vm \<Rightarrow> callinfo \<Rightarrow> callinfo list \<Rightarrow> lvobj list \<Rightarrow> nat \<Rightarrow> nat \<Rightarrow> nat \<Rightarrow> nat \<Rightarrow>
    u64 vres \<Rightarrow> bool"
where
  "gives_value native call re tr v c cs S ip k low t res \<longleftrightarrow>
     (case res of
        VOk w \<Rightarrow> \<exists>S'. length S' = length S \<and> (\<forall>i < low. S' ! i = S ! i) \<and> S' ! t = OInteger w \<and>
          reaches native call re tr k (conf v c cs S ip) (conf v c cs S' (ip + k))
      | VErr x \<Rightarrow> \<exists>S' j ip'. length S' = length S \<and> j < k \<and> throws native call re tr j (conf v c cs S ip) x (conf v c cs S' ip')
      | VTrap \<Rightarrow> True)"

lemma gives_value_OkI:
  "length S' = length S \<Longrightarrow> (\<And>i. i < low \<Longrightarrow> S' ! i = S ! i) \<Longrightarrow> S' ! t = OInteger w \<Longrightarrow>
   reaches native call re tr k (conf v c cs S ip) (conf v c cs S' (ip + k)) \<Longrightarrow>
       gives_value native call re tr v c cs S ip k low t (VOk w)"
  by (auto simp: gives_value_def)

lemma gives_value_ErrI:
  "length S' = length S \<Longrightarrow> j < k \<Longrightarrow> throws native call re tr j (conf v c cs S ip) x (conf v c cs S' ip') \<Longrightarrow>
   gives_value native call re tr v c cs S ip k low t (VErr x)"
  by (auto simp: gives_value_def)

text \<open>A computation, and one that goes on with its result.\<close>

lemma gives_value_bind:
  assumes "gives_value native call re tr v c cs S ip j low1 t res" "low \<le> low1"
    and "\<And>x S'. res = VOk x \<Longrightarrow> length S' = length S \<Longrightarrow> (\<forall>i < low1. S' ! i = S ! i) \<Longrightarrow> S' ! t = OInteger x \<Longrightarrow>
      gives_value native call re tr v c cs S' (ip + j) k low u (f x)"
  shows "gives_value native call re tr v c cs S ip (j + k) low u (vbind res f)"
proof (cases res)
  case (VOk x)
  then obtain S' where S': "length S' = length S" "\<forall>i < low1. S' ! i = S ! i" "S' ! t = OInteger x"
    "reaches native call re tr j (conf v c cs S ip) (conf v c cs S' (ip + j))" using assms(1) by (auto simp: gives_value_def)
  have g: "gives_value native call re tr v c cs S' (ip + j) k low u (f x)" by (rule assms(3) [OF VOk S'(1-3)])
  show ?thesis
  proof (cases "f x")
    case (VOk w)
    then obtain S2 where "length S2 = length S'" "\<forall>i < low. S2 ! i = S' ! i" "S2 ! u = OInteger w"
      "reaches native call re tr k (conf v c cs S' (ip + j)) (conf v c cs S2 (ip + j + k))" using g
          by (auto simp: gives_value_def)
    then show ?thesis
      using S' assms(2) reaches_trans [OF S'(4)] unfolding \<open>res = VOk x\<close> vbind.simps VOk
      by (intro gives_value_OkI [of S2]) (auto simp: add.assoc)
  next
    case (VErr e)
    then obtain S2 i ip' where t: "length S2 = length S'" "i < k" "throws native call re tr i (conf v c cs S' (ip + j)) e (conf v c cs S2 ip')"
      using g by (auto simp: gives_value_def)
    show ?thesis
      unfolding \<open>res = VOk x\<close> vbind.simps VErr
      by (rule gives_value_ErrI [OF _ _ reaches_throws [OF S'(4) t(3)]]) (use S'(1) t(1,2) in auto)
  qed (simp add: \<open>res = VOk x\<close> gives_value_def)
next
  case (VErr e)
  then obtain S' i ip' where "length S' = length S" "i < j" "throws native call re tr i (conf v c cs S ip) e (conf v c cs S' ip')"
    using assms(1) by (auto simp: gives_value_def)
  then show ?thesis unfolding VErr vbind.simps by (intro gives_value_ErrI) auto
qed (simp add: gives_value_def)

lemma exec_exp:
  assumes v: "runs v c is" "v_stackbase v = int b"
  shows "exp_ok (dom (map_of env)) e \<Longrightarrow> in_regs env r b S d \<Longrightarrow> at_code is ip (code r d e) \<Longrightarrow> d + regs e \<le> 255 \<Longrightarrow>
      b + d + regs e \<le> length S \<Longrightarrow>
    gives_value native call re tr v c cs S ip (length (code r d e)) (b + d) (b + target r d e) (exp_value env e)"
proof (induction e arbitrary: S d ip)
  case (Num n)
  have i: "ip < length is" "is ! ip = Instr OP_LOADINT (int d) (int n) 0 0" "n < 2 ^ 31" "d \<le> 255" "b + d < length S"
    using Num.prems by (simp_all add: at_code_Cons)
  have "reaches native call re tr 1 (conf v c cs S ip) (conf v c cs (S[b + d := OInteger (of_nat n)]) (ip + 1))"
    by (rule reaches_step [OF run_LOADINT [OF v i]])
  then show ?case unfolding exp_value.simps
    by (intro gives_value_OkI [of "S[b + d := OInteger (of_nat n)]"]) (use i(5) in simp_all)
next
  case (Var x)
  then obtain w where w: "map_of env x = Some w" by auto
  then have "S ! (b + r x) = OInteger w" using Var.prems(2) by (auto simp: in_regs_def)
  then show ?case using w by (auto intro!: gives_value_OkI reaches_refl)
next
  case (Bin p a b')
  let ?d = "d + temps a" let ?ca = "code r d a" and ?cb = "code r ?d b'" let ?ta = "target r d a" and ?tb = "target r ?d b'"
  have ok: "exp_ok (dom (map_of env)) a" "exp_ok (dom (map_of env)) b'" using Bin.prems(1) by simp_all
  have R: "d + regs a \<le> 255" "b + d + regs a \<le> length S" "?d + regs b' \<le> 255" "b + ?d + regs b' \<le> length S" "d < 255" "b + d < length S"
    using Bin.prems(4,5) by (auto simp: max_def split: if_splits)
  have C: "at_code is ip ?ca" "at_code is (ip + length ?ca) ?cb" "ip + length ?ca + length ?cb < length is"
    "is ! (ip + length ?ca + length ?cb) = Instr (op_instr p) (int d) (int ?tb) (int ?ta) (op_kind p)"
    using Bin.prems(3) by (simp_all add: at_code_append at_code_Cons add.assoc)
  have rd: "\<forall>x \<in> dom (map_of env). r x < d" using Bin.prems(2) by (auto simp: in_regs_def)
  have ta: "?ta < ?d" by (rule target_bound [OF ok(1) rd])
  have tb: "?tb < ?d + temps b'" using rd by (intro target_bound [OF ok(2)]) (auto intro: trans_less_add1)
  have tr: "temps a \<le> regs a" "temps b' \<le> regs b'" by (cases a; simp) (cases b'; simp)
  have "gives_value native call re tr v c cs S ip (length ?ca + (length ?cb + 1)) (b + d) (b + d)
      (vbind (exp_value env a) (\<lambda>x. vbind (exp_value env b') (op_value p x)))"
  proof (rule gives_value_bind [OF Bin.IH(1) [OF ok(1) Bin.prems(2) C(1) R(1,2)] order_refl])
    fix x S1
    assume S1: "length S1 = length S" "\<forall>i < b + d. S1 ! i = S ! i" "S1 ! (b + ?ta) = OInteger x"
    have h: "in_regs env r b S1 ?d" by (rule in_regs_more [OF in_regs_keep [OF Bin.prems(2) S1(2)]])
    have R1: "b + ?d + regs b' \<le> length S1" using R(4) S1(1) by simp
    show "gives_value native call re tr v c cs S1 (ip + length ?ca) (length ?cb + 1) (b + d) (b + d) (vbind (exp_value env b') (op_value p x))"
    proof (rule gives_value_bind [OF Bin.IH(2) [OF ok(2) h C(2) R(3) R1]])
      fix y S2
      assume S2: "length S2 = length S1" "\<forall>i < b + ?d. S2 ! i = S1 ! i" "S2 ! (b + ?tb) = OInteger y"
      have x: "S2 ! (b + ?ta) = OInteger x" using S2(2) S1(3) ta by simp
      have l: "d \<le> 255" "?ta \<le> 255" "?tb \<le> 255" "b + d < length S2" "b + ?ta < length S2" "b + ?tb < length S2"
        using R S1(1) S2(1) ta tb tr by auto
      note op = run_op [OF v C(3,4) l x S2(3)]
      show "gives_value native call re tr v c cs S2 (ip + length ?ca + length ?cb) 1 (b + d) (b + d) (op_value p x y)"
      proof (cases "op_value p x y")
        case (VOk w)
        show ?thesis
          unfolding VOk by (rule gives_value_OkI [OF _ _ _ reaches_step [OF op(1) [OF VOk]]]) (use l(4) in simp_all)
      next
        case (VErr e)
        show ?thesis
          unfolding VErr by (rule gives_value_ErrI [OF _ _ throws_step [OF op(2) [OF VErr]]]) simp_all
      qed (simp add: gives_value_def)
    qed simp
  qed
  then show ?case by simp
qed

section \<open>Running a program\<close>

lemma vbind_VOk [simp]: "vbind res VOk = res" by (cases res) simp_all

lemma exec_decl:
  assumes v: "runs v c is" "v_stackbase v = int b"
    and a: "exp_ok (dom (map_of env)) a" "in_regs env r b S d" "at_code is ip (decl_code r d a)" "d + max 1 (regs a) \<le> 255"
      "b + d + max 1 (regs a) \<le> length S"
  shows "gives_value native call re tr v c cs S ip (length (decl_code r d a)) (b + d) (b + d) (exp_value env a)"
proof (cases "target r d a = d")
  case True
  then show ?thesis using exec_exp [OF v a(1,2), of ip] a(3-5) by (simp add: max_def split: if_splits)
next
  case False
  let ?t = "target r d a"
  have C: "at_code is ip (code r d a)" "ip + length (code r d a) < length is"
    "is ! (ip + length (code r d a)) = Instr OP_MOVE (int d) (int ?t) 0 0"
    using a(3) False by (simp_all add: at_code_append at_code_Cons)
  have R: "d + regs a \<le> 255" "b + d + regs a \<le> length S" "d \<le> 255" "b + d < length S" using a(4,5) by auto
  have rd: "\<forall>x \<in> dom (map_of env). r x < d" using a(2) by (auto simp: in_regs_def)
  have t: "?t < d" using target_bound [OF a(1) rd] False by (cases a) auto
  have "gives_value native call re tr v c cs S ip (length (code r d a) + 1) (b + d) (b + d) (vbind (exp_value env a) VOk)"
  proof (rule gives_value_bind [OF exec_exp [OF v a(1,2) C(1) R(1,2)] order_refl])
    fix w S1
    assume S1: "length S1 = length S" "S1 ! (b + ?t) = OInteger w"
    have l: "d \<le> 255" "?t \<le> 255" "b + d < length S1" "b + ?t < length S1" using R t S1(1) by auto
    show "gives_value native call re tr v c cs S1 (ip + length (code r d a)) 1 (b + d) (b + d) (VOk w)"
      by (rule gives_value_OkI [OF _ _ _ reaches_step [OF run_MOVE [OF v C(2,3) l]]]) (use l(3) S1(2) in simp_all)
  qed
  then show ?thesis using False by simp
qed

lemma run_lines:
  assumes v: "runs v c is" and s: "lines s" "at_code is ip s"
  shows "reaches native call re tr (length s) (conf v c cs S ip) (conf v c cs S (ip + length s))"
proof (cases "s = []")
  case False
  then obtain n where n: "s = [Instr OP_LINE 0 n 0 0]" using s(1) by (auto simp: lines_def)
  then have "ip < length is" "is ! ip = Instr OP_LINE 0 n 0 0" using s(2) by (simp_all add: at_code_Cons)
  from reaches_step [OF run_LINE [OF v this]] show ?thesis using n by simp
qed (simp add: reaches_refl)

text \<open>The run comes to a return instruction with the result in its register, or raises the error.\<close>

definition finishes :: "nativefn \<Rightarrow> callfn \<Rightarrow> bool \<Rightarrow> int \<Rightarrow> vm \<Rightarrow> callinfo \<Rightarrow> callinfo list \<Rightarrow> instr list \<Rightarrow> nat \<Rightarrow> lvobj list \<Rightarrow> nat \<Rightarrow>
    nat \<Rightarrow> u64 vres \<Rightarrow> bool"
where
  "finishes native call re tr v c cs is b S ip k res \<longleftrightarrow>
     (case res of
        VOk w \<Rightarrow> \<exists>S' j ip' t n. length S' = length S \<and> j < k \<and> ip' < length is \<and> is ! ip' = Instr OP_RETURN 1 (int t) n 0 \<and>
          t \<le> 255 \<and> b + t < length S \<and> S' ! (b + t) = OInteger w \<and>
              reaches native call re tr j (conf v c cs S ip) (conf v c cs S' ip')
      | VErr x \<Rightarrow> \<exists>S' j ip'. length S' = length S \<and> j < k \<and> throws native call re tr j (conf v c cs S ip) x (conf v c cs S' ip')
      | VTrap \<Rightarrow> True)"

lemma finishes_reaches:
  assumes r: "reaches native call re tr j (conf v c cs S ip) (conf v c cs S1 ip1)" "length S1 = length S"
    and f: "finishes native call re tr v c cs is b S1 ip1 k res"
  shows "finishes native call re tr v c cs is b S ip (j + k) res"
proof (cases res)
  case (VOk w)
  with f obtain S' i ip' t n where *: "length S' = length S1" "i < k" "ip' < length is" "is ! ip' = Instr OP_RETURN 1 (int t) n 0"
    "t \<le> 255" "b + t < length S1" "S' ! (b + t) = OInteger w" "reaches native call re tr i (conf v c cs S1 ip1) (conf v c cs S' ip')"
    by (auto simp: finishes_def)
  have "reaches native call re tr (j + i) (conf v c cs S ip) (conf v c cs S' ip')" by (rule reaches_trans [OF r(1) *(8)])
  moreover have "j + i < j + k" "length S' = length S" "b + t < length S" using *(1,2,6) r(2) by simp_all
  ultimately show ?thesis using *(3-5,7) unfolding VOk finishes_def vres.case by blast
next
  case (VErr x)
  with f obtain S' i ip' where *: "length S' = length S1" "i < k" "throws native call re tr i (conf v c cs S1 ip1) x (conf v c cs S' ip')"
    by (auto simp: finishes_def)
  have "throws native call re tr (j + i) (conf v c cs S ip) x (conf v c cs S' ip')" by (rule reaches_throws [OF r(1) *(3)])
  moreover have "j + i < j + k" "length S' = length S" using *(1,2) r(2) by simp_all
  ultimately show ?thesis unfolding VErr finishes_def vres.case by blast
qed (simp add: finishes_def)

lemma finishes_after:
  assumes "gives_value native call re tr v c cs S ip j low t res"
    and "\<And>x S'. res = VOk x \<Longrightarrow> length S' = length S \<Longrightarrow> (\<forall>i < low. S' ! i = S ! i) \<Longrightarrow> S' ! t = OInteger x \<Longrightarrow>
      finishes native call re tr v c cs is b S' (ip + j) k (f x)"
  shows "finishes native call re tr v c cs is b S ip (j + k) (vbind res f)"
proof (cases res)
  case (VOk x)
  then obtain S' where S': "length S' = length S" "\<forall>i < low. S' ! i = S ! i" "S' ! t = OInteger x"
    "reaches native call re tr j (conf v c cs S ip) (conf v c cs S' (ip + j))" using assms(1) by (auto simp: gives_value_def)
  show ?thesis
    unfolding VOk vbind.simps by (rule finishes_reaches [OF S'(4,1)]) (rule assms(2) [OF VOk S'(1-3)])
next
  case (VErr e)
  then show ?thesis using assms(1) by (auto simp: gives_value_def finishes_def intro: trans_less_add1)
qed (simp add: finishes_def)

lemma finishes_lines:
  assumes "runs v c is" "lines s" "at_code is ip s" "finishes native call re tr v c cs is b S (ip + length s) k res"
  shows "finishes native call re tr v c cs is b S ip (length s + k) res"
  by (rule finishes_reaches [OF run_lines [OF assms(1-3)] refl assms(4)])

lemma exec_program:
  assumes v: "runs v c is" "v_stackbase v = int b"
  shows "program_code r d ds e cs' \<Longrightarrow> decls_ok (dom (map_of env)) d ds e \<Longrightarrow> in_regs env r b S d \<Longrightarrow> at_code is ip cs' \<Longrightarrow>
    b + max_regs d ds e < length S \<Longrightarrow> finishes native call re tr v c cs is b S ip (length cs') (decls_value env ds e)"
proof (induction ds arbitrary: r d env cs' S ip)
  case Nil
  from Nil.prems(1) obtain s n where p: "lines s" "cs' = s @ code r d e @ [Instr OP_RETURN 1 (int (target r d e)) n 0]"
    by auto
  let ?i = "ip + length s" and ?n = "length (code r d e)"
  have C: "at_code is ip s" "at_code is ?i (code r d e)" "?i + ?n < length is"
    "is ! (?i + ?n) = Instr OP_RETURN 1 (int (target r d e)) n 0"
    using Nil.prems(4) by (simp_all add: p(2) at_code_append at_code_Cons)
  have ok: "exp_ok (dom (map_of env)) e" "d + regs e \<le> 255" "b + d + regs e \<le> length S" "b + (d + regs e) < length S"
    using Nil.prems(2,5) by auto
  have rd: "\<forall>x \<in> dom (map_of env). r x < d" using Nil.prems(3) by (auto simp: in_regs_def)
  have "temps e \<le> regs e" by (cases e) simp_all
  then have t: "target r d e \<le> 255" "b + target r d e < length S" using target_bound [OF ok(1) rd] ok by auto
  have "finishes native call re tr v c cs is b S ?i (?n + 1) (vbind (exp_value env e) VOk)"
  proof (rule finishes_after [OF exec_exp [OF v ok(1) Nil.prems(3) C(2) ok(2,3)]])
    fix w S'
    assume "length S' = length S" "S' ! (b + target r d e) = OInteger w"
    then show "finishes native call re tr v c cs is b S' (?i + ?n) 1 (VOk w)"
      using C(3,4) t reaches_refl unfolding finishes_def
      by (intro vres.case(1) [THEN iffD2] exI [of _ S'] exI [of _ 0] exI [of _ "?i + ?n"] exI [of _ "target r d e"] exI [of _ n]) simp
  qed
  from finishes_lines [OF v(1) p(1) C(1) this [unfolded vbind_VOk]] show ?case by (simp add: p(2))
next
  case (Cons xa ds)
  obtain x a where xa: "xa = (x, a)" by (cases xa)
  from Cons.prems(1) xa obtain s cs2 where p: "lines s" "cs' = s @ decl_code r d a @ cs2" "program_code (r(x := d)) (d + 1) ds e cs2"
    by auto
  let ?i = "ip + length s" and ?n = "length (decl_code r d a)"
  have C: "at_code is ip s" "at_code is ?i (decl_code r d a)" "at_code is (?i + ?n) cs2"
    using Cons.prems(4) unfolding p(2) at_code_append by simp_all
  have ok: "exp_ok (dom (map_of env)) a" "d + max 1 (regs a) \<le> 255" "b + d + max 1 (regs a) \<le> length S"
    "decls_ok (dom (map_of ((x, w) # env))) (d + 1) ds e" "b + max_regs (d + 1) ds e < length S" for w
    using Cons.prems(2,5) by (auto simp: xa max_def split: if_splits)
  have "finishes native call re tr v c cs is b S ?i (?n + length cs2) (vbind (exp_value env a) (\<lambda>w. decls_value ((x, w) # env) ds e))"
  proof (rule finishes_after [OF exec_decl [OF v ok(1) Cons.prems(3) C(2) ok(2,3)]])
    fix w S'
    assume S': "length S' = length S" "\<forall>i < b + d. S' ! i = S ! i" "S' ! (b + d) = OInteger w"
    have h: "in_regs ((x, w) # env) (r(x := d)) b S' (d + 1)"
      using in_regs_keep [OF Cons.prems(3) S'(2)] S'(3) by (auto simp: in_regs_def intro: less_SucI)
    show "finishes native call re tr v c cs is b S' (?i + ?n) (length cs2) (decls_value ((x, w) # env) ds e)"
      by (rule Cons.IH [OF p(3) ok(4) h C(3)]) (use ok(5) S'(1) in simp)
  qed
  from finishes_lines [OF v(1) p(1) C(1) this] show ?case by (simp add: p(2) xa add.assoc del: decl_code.simps)
qed

end
