(* ===== verification/Straight_Call.thy ===== *)
theory Straight_Call
  imports Straight_Stmt Straight_Run Embedding_Objects
begin

text \<open>
  The composition: a program is handed to the host's \<open>lv_compilebuffer\<close>, its closure is called with \<open>lv_call\<close>, and the host finds the
  value of the program on the stack, or its error in the machine (\<open>compile_and_call\<close>).
\<close>

section \<open>Calling the function\<close>

lemma int32_small: "0 \<le> i \<Longrightarrow> i < 2 ^ 30 \<Longrightarrow> int32 i = i"
  by (simp add: int32_def signed_of_int signed_take_bit_int_eq_self_iff)

lemma vec_empty_array: "\<exists>arr. array_Create 0 = Some arr"
  by (simp add: array_Create_def vec_resize_def)

text \<open>A machine that has a closure of the function, and \<open>this\<close> at the top of its stack.\<close>

definition callable :: "program \<Rightarrow> u64 \<Rightarrow> nat \<Rightarrow> vm \<Rightarrow> bool" where
  "callable p cl b u \<longleftrightarrow> (\<exists>k q. get_closure u cl = Some k \<and> c_env k = None \<and> get_proto u (c_function k) = Some q \<and> proto_of p q) \<and>
     (\<exists>a fs. v_free u = a # fs \<and> v_heap u a = None) \<and> v_top u = int (b + 1) \<and> 0 \<le> v_stackbase u \<and> v_stackbase u \<le> int b \<and>
     b + 1 < length (v_stack u) \<and> b + 1 < 2 ^ 30 \<and> v_openouters u = [] \<and> v_nmeta u = 0 \<and> v_errorhandler u = ONull"

text \<open>The frame of the call.\<close>

definition frame_for :: "vm \<Rightarrow> u64 \<Rightarrow> nat \<Rightarrow> int \<Rightarrow> callinfo" where
  "frame_for u cl b trg = \<lparr>ci_ip = 0, ci_closure = ORef RClosure cl, ci_generator = None, ci_etraps = 0,
     ci_prevstkbase = int b - v_stackbase u, ci_prevtop = int (b + 1) - v_stackbase u, ci_target = trg, ci_ncalls = 1, ci_root = False\<rparr>"

lemma StartCall_run:
  assumes u: "callable p cl b u"
  shows "\<exists>q S h t. proto_of p q \<and> (\<exists>k. c_env k = None \<and> h cl = Some (HClosure k) \<and> h (c_function k) = Some (HProto q)) \<and>
     b + nat (p_stacksize q) < length S \<and> length (v_stack u) \<le> length S \<and>
     StartCall cl trg 1 (int b) False u = Some (True, u\<lparr>v_free := tl (v_free u), v_heap := h, v_calls := frame_for u cl b t # v_calls u,
       v_stackbase := int b, v_top := int b + p_stacksize q, v_stack := S\<rparr>)"
proof -
  from u obtain k q a fs where kq: "get_closure u cl = Some k" "c_env k = None" "get_proto u (c_function k) = Some q" "proto_of p q"
    and a: "v_free u = a # fs" "v_heap u a = None" and b: "v_top u = int (b + 1)" "0 \<le> v_stackbase u" "v_stackbase u \<le> int b"
     "b + 1 < length (v_stack u)" "b + 1 < 2 ^ 30" "v_nmeta u = 0"
    by (auto simp: callable_def)
  obtain arr where arr: "array_Create 0 = Some arr" using vec_empty_array by blast
  let ?h = "(v_heap u)(a \<mapsto> HArray (arr\<lparr>vvals := []\<rparr>))" and ?S = "(v_stack u)[b + 1 := ORef RArray a]"
  define u1 where "u1 = u\<lparr>v_free := fs, v_heap := ?h, v_stack := ?S\<rparr>"
  have q: "p_varparams q" "length (p_parameters q) = 2" "\<not> p_bgenerator q" "0 \<le> p_stacksize q" using kq(4)
      by (auto simp: proto_of_def)
  have "pack_varargs (int b + 1) 0 u = Some u1"
    using b(4) by (simp add: pack_varargs_def arr alloc_def a(1) put_def set_stack_def u1_def nat_add_distrib)
  then have bind: "bind_params k q (Suc 0) (int b) u = Some (True, u1)"
    using q(1,2) by (simp add: bind_params_def Let_def add.commute)
  have h: "v_heap u cl = Some (HClosure k)" "v_heap u (c_function k) = Some (HProto q)"
    using kq(1,3) by (auto simp: get_closure_def get_proto_def split: option.splits heap_obj.splits)
  then have "cl \<noteq> a" "c_function k \<noteq> a" using a(2) by auto
  then have h': "?h cl = Some (HClosure k)" "?h (c_function k) = Some (HProto q)" using h by simp_all
  let ?nt = "int b + p_stacksize q"
  define S where "S = (if ?nt + MIN_STACK_OVERHEAD > int (length ?S)
    then ?S @ replicate (nat (?nt + MIN_STACK_OVERHEAD * 4) - length ?S) ONull else ?S)"
  have S: "b + nat (p_stacksize q) < length S" "length (v_stack u) \<le> length S"
    using q(4) by (auto simp: S_def MIN_STACK_OVERHEAD_def)
  have i: "int32 (int b - v_stackbase u) = int b - v_stackbase u" "int32 (int (b + 1) - v_stackbase u) = int (b + 1) - v_stackbase u"
    using b by (intro int32_small; simp)+
  let ?c = "\<lparr>ci_ip = 0, ci_closure = ONull, ci_generator = None, ci_etraps = 0, ci_prevstkbase = int b - v_stackbase u,
     ci_prevtop = int (b + 1) - v_stackbase u, ci_target = 0, ci_ncalls = 1, ci_root = False\<rparr>"
  have "EnterFrame (int b) ?nt False u1 = Some (True, u1\<lparr>v_calls := ?c # v_calls u, v_stackbase := int b, v_top := ?nt, v_stack := S\<rparr>)"
    using i b(1,6) by (simp add: EnterFrame_def u1_def S_def RelocateOuters_def raise_def Let_def)
  then have "StartCall cl trg 1 (int b) False u = Some (True, u\<lparr>v_free := tl (v_free u), v_heap := ?h,
      v_calls := frame_for u cl b (int32 trg) # v_calls u, v_stackbase := int b, v_top := ?nt, v_stack := S\<rparr>)"
    by (simp add: StartCall_def kq(1,2,3) bind) (simp add: set_ci_def q(3) frame_for_def u1_def a(1))
  then show ?thesis using kq(2,4) h' S by blast
qed

text \<open>Leaving the frame of the call.\<close>

definition in_frame :: "nat \<Rightarrow> int \<Rightarrow> nat \<Rightarrow> callinfo \<Rightarrow> vm \<Rightarrow> bool" where
  "in_frame b sb n c v \<longleftrightarrow> v_stackbase v = int b \<and> v_top v = int b + int n \<and> v_openouters v = [] \<and> v_errorhandler v = ONull \<and>
     ci_root c \<and> ci_generator c = None \<and> ci_etraps c = 0 \<and> ci_prevstkbase c = int b - sb \<and> ci_prevtop c = int (b + 1) - sb"

lemma null_range_run:
  assumes "0 \<le> lo" "hi < int (length (v_stack v))"
  shows "\<exists>S'. length S' = length (v_stack v) \<and> null_range lo hi v = Some (v\<lparr>v_stack := S'\<rparr>)"
proof (cases "hi < lo")
  case False
  let ?S = "take (nat lo) (v_stack v) @ replicate (nat (hi - lo + 1)) ONull @ drop (nat hi + 1) (v_stack v)"
  have "length ?S = length (v_stack v)" using assms False by simp
  then show ?thesis using assms False by (intro exI [of _ ?S]) (simp add: null_range_def)
qed (auto simp: null_range_def intro!: exI [of _ "v_stack v"])

lemma LeaveFrame_run:
  assumes "in_frame b sb n c v" "b + n < length S"
  shows "\<exists>S'. length S' = length S \<and> LeaveFrame (conf v c cs S ip) =
    Some ((conf v c cs S ip)\<lparr>v_calls := cs, v_stackbase := sb, v_top := int (b + 1), v_stack := S'\<rparr>)"
proof -
  let ?w = "(conf v c cs S ip)\<lparr>v_calls := cs, v_stackbase := sb, v_top := int (b + 1)\<rparr>"
  have "v_stack ?w = S" by (simp add: conf_def)
  then obtain S' where "length S' = length S" "null_range (int (b + 1)) (int b + int n) ?w = Some (?w\<lparr>v_stack := S'\<rparr>)"
    using null_range_run [of "int (b + 1)" "int b + int n" ?w] assms(2) by auto
  then show ?thesis
    using assms(1) by (intro exI [of _ S']) (simp add: LeaveFrame_def in_frame_def conf_def Let_def)
qed

lemma root_return:
  assumes v: "runs v c is" "in_frame b sb n c v" "b + n < length S"
    and i: "ip < length is" "is ! ip = Instr OP_RETURN 1 (int t) k 0" "t \<le> 255" "b + t < length S"
  shows "\<exists>S' d. length S' = length S \<and> exec_step native call tr (conf v c cs S ip) =
    Some (Done (S ! (b + t)) ((conf v d cs S (ip + 1))\<lparr>v_calls := cs, v_stackbase := sb, v_top := int (b + 1), v_stack := S'\<rparr>))"
proof -
  obtain S' where S': "length S' = length S" "LeaveFrame (conf v c cs S (ip + 1)) =
      Some ((conf v c cs S (ip + 1))\<lparr>v_calls := cs, v_stackbase := sb, v_top := int (b + 1), v_stack := S'\<rparr>)"
    using LeaveFrame_run [OF v(2,3)] by blast
  have c: "v_calls (conf v c cs S (Suc ip)) = c\<lparr>ci_ip := int (ip + 1)\<rparr> # cs" by (simp add: conf_def)
  have f: "v_stackbase v = int b" "ci_root c" "ci_generator c = None" using v(2) by (simp_all add: in_frame_def)
  have "at_stack (conf v c cs S (ip + 1)) (int b + int t) = Some (S ! (b + t))"
    using stk_conf [OF f(1) i(4), of c cs "ip + 1"] f(1) by (simp add: stk_def)
  moreover have "arg0 (Instr OP_RETURN 1 (int t) k 0) = 1" "arg1 (Instr OP_RETURN 1 (int t) k 0) = int t" using i(3) by simp_all
  ultimately have "exec_step native call tr (conf v c cs S ip) = Some (Done (S ! (b + t))
      ((conf v c cs S (ip + 1))\<lparr>v_calls := cs, v_stackbase := sb, v_top := int (b + 1), v_stack := S'\<rparr>))"
    using S'(2) f
        by (simp add: step_conf [OF v(1) i(1)] i(2) exec_instr_def exec_return_def ci_def c leave_def Return_def Let_def)
  then show ?thesis using S'(1) by blast
qed

lemma root_throw:
  assumes v: "in_frame b sb n c v" "b + n < length S"
  shows "\<exists>S'. length S' = length S \<and> after_throw call re f tr (raise e (conf v c cs S ip)) =
    Some (False, None, (conf v c cs S ip)\<lparr>v_calls := cs, v_stackbase := sb, v_top := int (b + 1), v_stack := S', v_lasterror := error_obj e\<rparr>)"
proof -
  let ?w = "raise e (conf v c cs S ip)"
  have w: "?w = conf (v\<lparr>v_lasterror := error_obj e\<rparr>) c cs S ip" by (simp add: raise_def conf_def)
  have v': "in_frame b sb n c (v\<lparr>v_lasterror := error_obj e\<rparr>)" using v(1) by (simp add: in_frame_def)
  obtain S' where S': "length S' = length S" "LeaveFrame ?w = Some (?w\<lparr>v_calls := cs, v_stackbase := sb, v_top := int (b + 1), v_stack := S'\<rparr>)"
    using LeaveFrame_run [OF v' v(2)] unfolding w by blast
  have c: "v_calls ?w = c\<lparr>ci_ip := int ip\<rparr> # cs" "v_lasterror ?w = error_obj e" "v_errorhandler ?w = ONull"
    using v(1) by (simp_all add: raise_def conf_def in_frame_def)
  have f: "ci_root c" "ci_generator c = None" "ci_etraps c = 0" using v(1) by (simp_all add: in_frame_def)
  have "exception_trap call re tr ?w = Some (Inr (?w\<lparr>v_calls := cs, v_stackbase := sb, v_top := int (b + 1), v_stack := S', v_lasterror := error_obj e\<rparr>))"
    using c f S'(2) by (simp add: exception_trap_def Let_def CallErrorHandler_def unwind.simps)
  then show ?thesis using S'(1) by (intro exI [of _ S']) (simp add: after_throw_def raise_def)
qed

text \<open>The whole call: the value of the program, or its error.\<close>

lemma call_program:
  assumes u: "callable p cl b u" "v_nnative u < 100" and p: "program_ok p" and m: "length (program_text p) < m"
  shows "case value_of p of
      VOk w \<Rightarrow> \<exists>x. vm_Execute m native call ET_CALL (ORef RClosure cl) 1 (int b) 0 re u = Some (True, Some (OInteger w), x) \<and>
        v_top x = v_top u \<and> length (v_stack u) \<le> length (v_stack x) \<and> v_suspended x = v_suspended u \<and> v_calls x = v_calls u
    | VErr e \<Rightarrow> \<exists>x. vm_Execute m native call ET_CALL (ORef RClosure cl) 1 (int b) 0 re u = Some (False, None, x) \<and>
        v_top x = v_top u \<and> length (v_stack u) \<le> length (v_stack x) \<and> v_lasterror x = error_obj e \<and> v_calls x = v_calls u
    | VTrap \<Rightarrow> True"
proof -
  let ?u = "u\<lparr>v_nnative := v_nnative u + 1\<rparr>"
  have u': "callable p cl b ?u" using u(1) by (simp add: callable_def get_closure_def get_proto_def)
  have top: "v_top u = int (b + 1)" using u(1) by (simp add: callable_def)
  obtain q S h t k where q: "proto_of p q" and k: "c_env k = None" "h cl = Some (HClosure k)" "h (c_function k) = Some (HProto q)"
    and S: "b + nat (p_stacksize q) < length S" "length (v_stack u) \<le> length S" and
    st: "StartCall cl (v_top ?u - 1) 1 (int b) False ?u = Some (True, ?u\<lparr>v_free := tl (v_free u), v_heap := h, v_calls := frame_for ?u cl b t # v_calls u,
       v_stackbase := int b, v_top := int b + p_stacksize q, v_stack := S\<rparr>)"
    using StartCall_run [OF u', of "v_top ?u - 1"] by auto
  define c where "c = (frame_for ?u cl b t)\<lparr>ci_root := True\<rparr>"
  define v where "v = ?u\<lparr>v_free := tl (v_free u), v_heap := h, v_stackbase := int b, v_top := int b + p_stacksize q\<rparr>"
  have enter: "exec_enter call ET_CALL (ORef RClosure cl) 1 (int b) 0 ?u = Some (Inl (False, 0, conf v c (v_calls u) S 0))"
    using st by (simp add: exec_enter_def set_ci_def conf_def c_def v_def frame_for_def)
  let ?n = "nat (p_stacksize q)"
  from q obtain r "is" rest where I: "program_code r 2 (decls p) (answer p) is" "p_instructions q = is @ rest"
    and sz: "?n = max 2 (max_regs 2 (decls p) (answer p))" "p_stacksize q = int ?n" by (auto simp: proto_of_def)
  have R: "runs v c (is @ rest)"
    using k I(2) by (auto simp: runs_def c_def v_def frame_for_def get_closure_def get_proto_def)
  have F: "in_frame b (v_stackbase u) ?n c v"
    using u(1) sz(2) by (simp add: in_frame_def c_def v_def frame_for_def callable_def)
  have "finishes native call re 0 v c (v_calls u) (is @ rest) b S 0 (length is) (decls_value [] (decls p) (answer p))"
  proof (rule exec_program [OF R _ I(1)])
    show "v_stackbase v = int b" by (simp add: v_def)
    show "decls_ok (dom (map_of [])) 2 (decls p) (answer p)" using p by (simp add: program_ok_def)
    show "in_regs [] r b S 2" by (simp add: in_regs_def)
    show "at_code (is @ rest) 0 is" by (simp add: at_code_def)
    show "b + max_regs 2 (decls p) (answer p) < length S" using S(1) sz(1) by simp
  qed
  then have fin: "finishes native call re 0 v c (v_calls u) (is @ rest) b S 0 (length is) (value_of p)"
      by (simp add: value_of_def)
  have il: "length is < m"
    using program_code_tokens [OF I(1)] program_length [OF p] m by (simp add: program_tokens_def)
  have ex: "vm_Execute m native call ET_CALL (ORef RClosure cl) 1 (int b) 0 re u =
      (case run m native call re 0 (conf v c (v_calls u) S 0) of None \<Rightarrow> None
       | Some (y, out, x) \<Rightarrow> Some (y, out, x\<lparr>v_nnative := v_nnative x - 1\<rparr>))"
    using u(2) enter by (simp add: vm_Execute_def MAX_NATIVE_CALLS_def split: option.split)
  show ?thesis
  proof (cases "value_of p")
    case (VOk w)
    with fin obtain S1 j ip' a n where f: "length S1 = length S" "j < length is" "ip' < length (is @ rest)"
      "(is @ rest) ! ip' = Instr OP_RETURN 1 (int a) n 0" "a \<le> 255" "b + a < length S1" "S1 ! (b + a) = OInteger w"
      "reaches native call re 0 j (conf v c (v_calls u) S 0) (conf v c (v_calls u) S1 ip')"
      by (auto simp: finishes_def)
    obtain m' where m': "m = j + Suc m'" using f(2) il by (metis add_Suc_right less_imp_Suc_add less_trans)
    have "b + ?n < length S1" using S(1) f(1) by simp
    from root_return [OF R F this f(3-6)] obtain S2 d where S2: "length S2 = length S1"
      "exec_step native call 0 (conf v c (v_calls u) S1 ip') = Some (Done (OInteger w) ((conf v d (v_calls u) S1 (ip' + 1))\<lparr>v_calls := v_calls u,
        v_stackbase := v_stackbase u, v_top := int (b + 1), v_stack := S2\<rparr>))"
      unfolding f(7) by blast
    have "run m native call re 0 (conf v c (v_calls u) S 0) = run (Suc m') native call re 0 (conf v c (v_calls u) S1 ip')"
      unfolding m' using f(8) by (simp only: reaches_def)
    then show ?thesis
      using S2 S(2) f(1) top unfolding VOk vres.case ex by (simp add: conf_def v_def)
  next
    case (VErr e)
    with fin obtain S1 j ip' where f: "length S1 = length S" "j < length is"
      "throws native call re 0 j (conf v c (v_calls u) S 0) e (conf v c (v_calls u) S1 ip')"
      by (auto simp: finishes_def)
    obtain m' where m': "m = Suc (j + m')" using f(2) il by (metis add_Suc_right less_imp_Suc_add less_trans add_Suc)
    have "b + ?n < length S1" using S(1) f(1) by simp
    from root_throw [OF F this] obtain S2 where S2: "length S2 = length S1"
      "after_throw call re (run m' native call re) 0 (raise e (conf v c (v_calls u) S1 ip')) = Some (False, None, (conf v c (v_calls u) S1 ip')
        \<lparr>v_calls := v_calls u, v_stackbase := v_stackbase u, v_top := int (b + 1), v_stack := S2, v_lasterror := error_obj e\<rparr>)"
      by blast
    have "run m native call re 0 (conf v c (v_calls u) S 0) = after_throw call re (run m' native call re) 0 (raise e (conf v c (v_calls u) S1 ip'))"
      unfolding m' using f(3) by (simp only: throws_def)
    then show ?thesis
      using S2 S(2) f(1) top unfolding VErr vres.case ex by (simp add: conf_def v_def)
  qed simp
qed

section \<open>The host\<close>

text \<open>The bytes of a program are ASCII, so that the buffer delivers its characters.\<close>

lemma ascii_byte: "tok c < 128 \<Longrightarrow> sint (byte_of c) = tok c"
proof -
  assume "tok c < 128"
  then have n: "of_char c < (128 :: nat)" unfolding tok_def by (metis of_nat_less_iff of_nat_numeral of_nat_of_char)
  have "sint (byte_of c) = signed_take_bit 7 (int (of_char c))" by (simp add: byte_of_def signed_of_nat)
  also have "\<dots> = int (of_char c)" using n by (intro signed_take_bit_int_eq_self) simp_all
  also have "\<dots> = tok c" unfolding tok_def by (rule of_nat_of_char)
  finally show ?thesis .
qed

lemma ascii_token: "token_ok t \<Longrightarrow> \<forall>s. t \<noteq> SStr s \<Longrightarrow> c \<in> set (show_token t) \<Longrightarrow> tok c < 128"
proof (cases t)
  case (SInt n)
  assume "c \<in> set (show_token t)"
  then show ?thesis using dec_digits_digit [of c "unat n"] SInt by (auto simp: scisdigit_def)
next
  case (SName s)
  assume "token_ok t" "c \<in> set (show_token t)"
  then have "idchar c" using SName by auto
  then show ?thesis by (auto simp: idchar_def scisalnum_def scisalpha_def scisdigit_def tok_def)
next
  case (SOp s n)
  assume "token_ok t" "c \<in> set (show_token t)"
  then show ?thesis using SOp by (auto simp: operator_list_def tok_def)
qed simp

lemma no_strings: "SStr s \<notin> set (exp_tokens e)" "SStr s \<notin> set (program_tokens p)"
proof -
  have o: "op_token q \<noteq> SStr s" for q by (cases q) simp_all
  show e: "SStr s \<notin> set (exp_tokens e)" for e by (induction e) (use o in \<open>auto simp: eq_commute\<close>)
  then show "SStr s \<notin> set (program_tokens p)" by (auto simp: program_tokens_def)
qed

lemma shown_chars: "c \<in> set (show_tokens ts) \<Longrightarrow> \<exists>t \<in> set ts. c \<in> set (show_token t) \<or> c = CHR '' ''"
  by (induction ts) (auto simp: show_tokens_def)

lemma buffer_program: "program_ok p \<Longrightarrow> buf_lexfeed (program_text p) = map tok (program_text p)"
proof -
  assume p: "program_ok p"
  have "tok c < 128" if c: "c \<in> set (program_text p)" for c
  proof -
    from c obtain t where "t \<in> set (program_tokens p)" "c \<in> set (show_token t) \<or> c = CHR '' ''"
      using shown_chars [of c] unfolding program_text_def by blast
    then show ?thesis using program_tokens_ok [OF p] ascii_token [of t c] no_strings(2) by (auto simp: tok_def)
  qed
  then show ?thesis by (simp add: buf_lexfeed_def ascii_byte)
qed

text \<open>A machine that runs nothing, with room for the program: free addresses, and three slots on its stack.\<close>

definition idle_vm :: "vm \<Rightarrow> bool" where
  "idle_vm v \<longleftrightarrow> heap_ok v \<and> 4 \<le> length (v_free v) \<and> 0 \<le> v_stackbase v \<and> v_stackbase v \<le> v_top v \<and>
     v_top v + 3 \<le> int (length (v_stack v)) \<and> v_top v < 1000000000 \<and> v_openouters v = [] \<and> v_errorhandler v = ONull \<and>
     v_nmeta v = 0 \<and> v_nnative v < 100 \<and> \<not> v_suspended v"

text \<open>Loading a function: a closure of the prototype is pushed.\<close>

lemma lv_compile_program:
  assumes p: "program_ok p" and v: "idle_vm v" and n: "40 * length (program_text p) + 20 \<le> n"
  shows "\<exists>v1 v2 cl b. lv_compilebuffer n consts (program_text p) l E t src dbg v = Inr (True, v1) \<and>
      lv_pushroottable v1 = Some v2 \<and>
    callable p cl b v2 \<and> v_nnative v2 < 100 \<and> \<not> v_suspended v2 \<and> int b = v_top v + 1 \<and> v_calls v2 = v_calls v \<and>
    v_stack v2 ! (b - 1) = ORef RClosure cl"
proof -
  obtain a f1 f2 f3 fs where free: "v_free v = a # f1 # f2 # f3 # fs"
    using v by (auto simp: idle_vm_def Suc_le_length_iff numeral_eq_Suc)
  have fr: "distinct (a # f1 # f2 # f3 # fs)" "\<forall>x \<in> set (a # f1 # f2 # f3 # fs). v_heap v x = None"
    using v free unfolding idle_vm_def heap_ok_def by metis+
  obtain q where q: "RunCompiler n v consts (buf_lexfeed (program_text p)) l E t src dbg =
      Inr (Some (ORef RFuncProto a), put a (HProto q) (v\<lparr>v_free := f1 # f2 # f3 # fs\<rparr>))" "proto_of p q"
    using RunCompiler_program [OF p order_trans [OF budget_text [OF p] n] free] buffer_program [OF p] by metis
  define w where "w = put a (HProto q) (v\<lparr>v_free := f1 # f2 # f3 # fs\<rparr>)"
  obtain r cl g gs w2 where w2: "GetWeakRef (v_roottable w) w = Some (r, w2)" "v_free w2 = cl # g # gs" "cl \<noteq> a" "g \<noteq> a" "cl \<noteq> g"
      "v_heap w2 a = Some (HProto q)" "v_heap w2 g = None"
      "v_stack w2 = v_stack v" "v_top w2 = v_top v" "v_stackbase w2 = v_stackbase v" "v_calls w2 = v_calls v"
      "v_openouters w2 = []" "v_errorhandler w2 = ONull" "v_nmeta w2 = 0" "v_nnative w2 = v_nnative v" "\<not> v_suspended w2"
      "v_roottable w2 = v_roottable v"
  proof (cases "v_weakrefs w (v_roottable w)")
    case None
    then have "GetWeakRef (v_roottable w) w = Some (ORef RWeakRef f1,
        (put f1 (HWeakRef (v_roottable w)) (w\<lparr>v_free := f2 # f3 # fs\<rparr>))\<lparr>v_weakrefs := (v_weakrefs w)(v_roottable w \<mapsto> f1)\<rparr>)"
      by (simp add: GetWeakRef_def alloc_def w_def put_def)
    then show ?thesis by (rule that [of _ _ f2 f3 fs]) (use fr v in \<open>auto simp: w_def put_def idle_vm_def\<close>)
  next
    case (Some x)
    then have "GetWeakRef (v_roottable w) w = Some (ORef RWeakRef x, w)" by (simp add: GetWeakRef_def)
    then show ?thesis by (rule that [of _ _ f1 f2 "f3 # fs"]) (use fr v in \<open>auto simp: w_def put_def idle_vm_def\<close>)
  qed
  let ?k = "\<lparr>c_env = None, c_root = Some (raw_word r), c_base = None, c_function = a,
     c_outervalues = replicate (length (p_outervalues q)) ONull, c_defaultparams = replicate (length (p_defaultparams q)) ONull\<rparr>"
  let ?T = "nat (v_top v)" and ?h = "(v_heap w2)(cl \<mapsto> HClosure ?k)"
  define v1 where "v1 = w2\<lparr>v_free := g # gs, v_heap := ?h, v_stack := (v_stack v)[?T := ORef RClosure cl], v_top := v_top v + 1\<rparr>"
  define v2 where "v2 = v1\<lparr>v_stack := (v_stack v1)[?T + 1 := v_roottable v], v_top := v_top v + 2\<rparr>"
  have T: "0 \<le> v_top v" "?T + 2 < length (v_stack v)" using v by (auto simp: idle_vm_def)
  have "LVClosure_Create a (Some (raw_word r)) w2 = Some (cl, put cl (HClosure ?k) (w2\<lparr>v_free := g # gs\<rparr>))"
    using w2(2,6) by (simp add: LVClosure_Create_def get_proto_def alloc_def)
  moreover have "push_ok (ORef RClosure cl) (put cl (HClosure ?k) (w2\<lparr>v_free := g # gs\<rparr>)) = Some (True, v1)"
    using T w2(8,9) by (simp add: push_ok_def Push_def set_stack_def put_def ok_def v1_def)
  ultimately have c: "lv_compilebuffer n consts (program_text p) l E t src dbg v = Inr (True, v1)"
    by (simp add: lv_compilebuffer_def lv_compile_def q(1) w_def [symmetric] w2(1))
  have "lv_pushroottable v1 = Some v2"
    using T w2(9,17) by (simp add: lv_pushroottable_def Push_def set_stack_def v1_def v2_def nat_add_distrib)
  moreover have "callable p cl (?T + 1) v2"
    unfolding callable_def
  proof (intro conjI)
    show "\<exists>k q. get_closure v2 cl = Some k \<and> c_env k = None \<and> get_proto v2 (c_function k) = Some q \<and> proto_of p q"
      using w2(3,6) q(2) by (intro exI [of _ ?k] exI [of _ q]) (simp add: get_closure_def get_proto_def v2_def v1_def)
    show "\<exists>a fs. v_free v2 = a # fs \<and> v_heap v2 a = None" using w2(5,7) by (simp add: v2_def v1_def)
  qed (use v w2 T in \<open>auto simp: v2_def v1_def idle_vm_def\<close>)
  moreover have "v_nnative v2 < 100" "\<not> v_suspended v2" "int (?T + 1) = v_top v + 1" "v_calls v2 = v_calls v"
    "v_stack v2 ! (?T + 1 - 1) = ORef RClosure cl"
    using w2 v T by (auto simp: v2_def v1_def idle_vm_def)
  ultimately show ?thesis using c by blast
qed

text \<open>Calling it and leaving its result on the stack.\<close>

lemma lv_call_value:
  assumes t: "int b = v_top u - 1" "1 \<le> b" "b < length (v_stack u)" and f: "v_stack u ! (b - 1) = f"
    and c: "call f 1 (int b) re u = Some (True, Some y, x)" "v_top x = v_top u" "length (v_stack u) \<le> length (v_stack x)" "\<not> v_suspended x"
  shows "\<exists>z. lv_call call 1 True re u = Some (True, z) \<and> Top z = Some y \<and> v_calls z = v_calls x \<and> v_top z = v_top u"
proof -
  have b: "v_top u = int (Suc b)" "b < length (v_stack x)" using t c(3) by simp_all
  have "GetUp (- 2) u = Some f" using t f b(1) by (simp add: GetUp_def at_stack_def nat_diff_distrib)
  then show ?thesis using c b
    by (simp add: lv_call_def PopN.simps Pop_def push_ok_def Push_def set_stack_def out_obj_def ok_def Top_def at_stack_def numeral_eq_Suc)
qed

lemma lv_call_error:
  assumes t: "int b = v_top u - 1" "1 \<le> b" "b < length (v_stack u)" and f: "v_stack u ! (b - 1) = f"
    and c: "call f 1 (int b) re u = Some (False, None, x)" "v_top x = v_top u" "length (v_stack u) \<le> length (v_stack x)"
  shows "\<exists>z. lv_call call 1 True re u = Some (False, z) \<and> v_lasterror z = v_lasterror x \<and> v_calls z = v_calls x \<and>
      v_top z = v_top u - 1"
proof -
  have b: "v_top u = int (Suc b)" "b < length (v_stack x)" using t c(3) by simp_all
  have "GetUp (- 2) u = Some f" using t f b(1) by (simp add: GetUp_def at_stack_def nat_diff_distrib)
  then show ?thesis using c b by (simp add: lv_call_def PopN.simps Pop_def set_stack_def numeral_eq_Suc)
qed

text \<open>
  C1: the compiler and the interpreter are correct for programs of declarations and integer expressions. A host that hands the
  text of a well-formed program to \<open>lv_compilebuffer\<close>, pushes the root table and calls the closure with \<open>lv_call\<close> finds on top of
  the stack the value that the semantics \<open>value_of\<close> gives the program, or, where a division by zero ends it, gets the failure
  and this error in the machine; the frames are as before. Fuel: the budget of \<open>RunCompiler\<close>, and an instruction for each
  character. Nothing is stated of the one division that overflows, \<open>-2 ^ 63\<close> by \<open>-1\<close>, which is undefined in C++.
\<close>

theorem compile_and_call:
  assumes p: "program_ok p" and v: "idle_vm v" and n: "40 * length (program_text p) + 20 \<le> n" and m: "length (program_text p) + 1 < m"
  shows "\<exists>v1 v2. lv_compilebuffer n consts (program_text p) l E t src dbg v = Inr (True, v1) \<and> lv_pushroottable v1 = Some v2 \<and>
    (case value_of p of
       VOk w \<Rightarrow> \<exists>x. lv_call (Call m native) 1 True re v2 = Some (True, x) \<and> Top x = Some (OInteger w) \<and> v_calls x = v_calls v
     | VErr e \<Rightarrow> \<exists>x. lv_call (Call m native) 1 True re v2 = Some (False, x) \<and> v_lasterror x = error_obj e \<and> v_calls x = v_calls v
     | VTrap \<Rightarrow> True)"
proof -
  obtain v1 v2 cl b where c: "lv_compilebuffer n consts (program_text p) l E t src dbg v = Inr (True, v1)" "lv_pushroottable v1 = Some v2"
    "callable p cl b v2" "v_nnative v2 < 100" "\<not> v_suspended v2" "int b = v_top v + 1" "v_calls v2 = v_calls v"
    "v_stack v2 ! (b - 1) = ORef RClosure cl"
    using lv_compile_program [OF p v n] by blast
  from m obtain m' where m': "m = Suc m'" "length (program_text p) < m'" by (cases m) simp_all
  have t: "int b = v_top v2 - 1" "1 \<le> b" "b < length (v_stack v2)" using c(3,6) v by (auto simp: callable_def idle_vm_def)
  have call: "Call m native (ORef RClosure cl) 1 (int b) re v2 =
      vm_Execute m' native (Call m' native) ET_CALL (ORef RClosure cl) 1 (int b) 0 re v2"
    by (simp add: m'(1) call_body_def call_function_def)
  note run = call_program [OF c(3,4) p m'(2), of native "Call m' native" re, folded call]
  show ?thesis
  proof (cases "value_of p")
    case (VOk w)
    then show ?thesis using run lv_call_value [OF t c(8)] c(1,2,5,7) unfolding VOk vres.case by metis
  next
    case (VErr e)
    then show ?thesis using run lv_call_error [OF t c(8)] c(1,2,7) unfolding VErr vres.case by metis
  qed (use c in simp)
qed

definition square_program :: program where
  "square_program = \<lparr>decls = [(''x'', Bin Plus (Num 2) (Num 3))], answer = Bin Times (Var ''x'') (Var ''x'')\<rparr>"

definition zero_program :: program where
  "zero_program = \<lparr>decls = [(''x'', Num 0)], answer = Bin Divide (Num 1) (Var ''x'')\<rparr>"

definition square_vm :: vm where
  "square_vm = (demo_vm (replicate 12 ONull))\<lparr>v_free := [16, 32, 48, 64]\<rparr>"

lemma sample_digits: "dec_digits 0 = ''0''" "dec_digits (Suc 0) = ''1''" "dec_digits 2 = ''2''" "dec_digits 3 = ''3''"
  by code_simp+

lemma square_program_facts:
  "program_ok square_program" "program_text square_program = ''var x = ( 2 + 3 ) ; return ( x * x ) ''" "value_of square_program = VOk 25"
  by (simp_all add: square_program_def program_ok_def name_ok_def idchar_def scisalnum_def scisalpha_def scisdigit_def tok_def
      keyword_list_def program_text_def program_tokens_def show_tokens_def sample_digits value_of_def)

lemma zero_program_facts:
  "program_ok zero_program" "program_text zero_program = ''var x = 0 ; return ( 1 / x ) ''"
  "value_of zero_program = VErr (EMsg ''division by zero'')"
  by (simp_all add: zero_program_def program_ok_def name_ok_def idchar_def scisalnum_def scisalpha_def scisdigit_def tok_def
      keyword_list_def program_text_def program_tokens_def show_tokens_def sample_digits value_of_def)

lemma square_vm_idle_vm: "idle_vm square_vm"
  by (simp add: idle_vm_def square_vm_def demo_vm_def heap_ok_def)

theorem compile_and_call_witness:
  "(\<exists>v1 v2 x. lv_compilebuffer 2000 0 ''var x = ( 2 + 3 ) ; return ( x * x ) '' blank_lexer \<lparr>es_etype = 0, es_epos = 0, es_donot_get = False\<rparr> 0 ONull True square_vm = Inr (True, v1) \<and>
     lv_pushroottable v1 = Some v2 \<and> lv_call (Call 50 (\<lambda>call a v. None)) 1 True True v2 = Some (True, x) \<and>
         Top x = Some (OInteger 25)) \<and>
   (\<exists>v1 v2 x. lv_compilebuffer 2000 0 ''var x = 0 ; return ( 1 / x ) '' blank_lexer \<lparr>es_etype = 0, es_epos = 0, es_donot_get = False\<rparr> 0 ONull True square_vm = Inr (True, v1) \<and>
     lv_pushroottable v1 = Some v2 \<and> lv_call (Call 50 (\<lambda>call a v. None)) 1 True True v2 = Some (False, x) \<and>
     v_lasterror x = OString ''division by zero'')"
proof -
  define es :: expstate where "es = \<lparr>es_etype = 0, es_epos = 0, es_donot_get = False\<rparr>"
  note run = compile_and_call [OF _ square_vm_idle_vm, of _ 2000 50 0 blank_lexer es 0 ONull True "\<lambda>call a v. None" True]
  show ?thesis unfolding es_def [symmetric]
    using run [OF square_program_facts(1), unfolded square_program_facts(2,3)] run [OF zero_program_facts(1), unfolded zero_program_facts(2,3)]
    by (simp add: ex_simps [symmetric] del: ex_simps) metis
qed

end
